(* ===== verification/Nova_Prelude.thy ===== *)
theory Nova_Prelude
  imports Main "HOL-Library.Word" "HOL-Library.Monad_Syntax"
begin

text \<open>
  Shared vocabulary of the development: the machine-integer types of
  \<^verbatim>\<open>inc/types.hpp\<close>, the bit macros of \<^verbatim>\<open>inc/macros.hpp\<close>, the helpers of
  \<^verbatim>\<open>inc/bits.hpp\<close> and \<^verbatim>\<open>inc/util.hpp\<close>, the assertion of \<^verbatim>\<open>inc/assert.hpp\<close>, and generic lemmas on
  options, lists, bits and words used by the component theories.

  Conventions: an operation whose C++ body contains an \<open>assert\<close> returns an \<open>option\<close>, and
  \<open>None\<close> means that the assertion fails (the kernel panics); a pointer that may be
  \<^verbatim>\<open>nullptr\<close> is an \<open>option\<close> as well. Sequencing uses the \<open>do\<close> notation of the option monad.
\<close>

unbundle bit_operations_syntax

section \<open>Machine integers\<close>

type_synonym u8 = "8 word"
type_synonym u16 = "16 word"
type_synonym u32 = "32 word"
type_synonym u64 = "64 word"

named_theorems nova_bits \<open>facts that evaluate the bit macros\<close>
named_theorems nova_monad \<open>facts that unfold the assertion monad\<close>

section \<open>Assertions\<close>

definition assert_that :: "bool \<Rightarrow> unit option" where
  "assert_that b = (if b then Some () else None)"

lemma assert_that_simps [simp]:
  "assert_that True = Some ()" "assert_that False = None"
  by (simp_all add: assert_that_def)

lemma assert_that_bind [simp]:
  "(assert_that b \<bind> f = Some r) \<longleftrightarrow> b \<and> f () = Some r"
  by (simp add: assert_that_def)

text \<open>A loop over a list of work items, each of which may fail an assertion.\<close>

fun foldM :: "('b \<Rightarrow> 's \<Rightarrow> 's option) \<Rightarrow> 'b list \<Rightarrow> 's \<Rightarrow> 's option" where
  "foldM f [] s = Some s"
| "foldM f (x # xs) s = do { s \<leftarrow> f x s; foldM f xs s }"

text \<open>The loop rule: an invariant indexed by the work still to do.\<close>

lemma foldM_invariant:
  assumes "I xs s" "\<And>x xs s. I (x # xs) s \<Longrightarrow> \<exists>s'. f x s = Some s' \<and> I xs s'"
  shows "\<exists>s'. foldM f xs s = Some s' \<and> I [] s'"
  using assms(1)
proof (induction xs arbitrary: s)
  case (Cons x xs)
  from assms(2) [OF Cons.prems] obtain s1 where "f x s = Some s1" "I xs s1" by blast
  with Cons.IH show ?case by auto
qed auto

section \<open>Bit macros (macros.hpp)\<close>

text \<open>
  \<open>BIT\<close> shifts an \<open>unsigned int\<close>, \<open>BITN\<close> and \<open>BIT64\<close> a 64-bit integer. A shift count that is
  not below the width is undefined in C++; the shift instructions of both target
  architectures take the count modulo the width, which is what the model computes.
\<close>

definition BIT :: "nat \<Rightarrow> u32" where
  "BIT b = push_bit (b mod 32) 1"

definition BITN :: "nat \<Rightarrow> u64" where
  "BITN b = push_bit (b mod 64) 1"

definition BIT64 :: "nat \<Rightarrow> u64" where
  "BIT64 b = push_bit (b mod 64) 1"

definition BIT_RANGE :: "nat \<Rightarrow> nat \<Rightarrow> u32" where
  "BIT_RANGE h l = push_bit (h mod 32) 2 - push_bit (l mod 32) 1"

definition BIT64_RANGE :: "nat \<Rightarrow> nat \<Rightarrow> u64" where
  "BIT64_RANGE h l = push_bit (h mod 64) 2 - push_bit (l mod 64) 1"

lemma BIT_eq [nova_bits]: "b < 32 \<Longrightarrow> BIT b = 2 ^ b"
  by (simp add: BIT_def push_bit_eq_mult)

lemma BITN_eq [nova_bits]: "b < 64 \<Longrightarrow> BITN b = 2 ^ b"
  by (simp add: BITN_def push_bit_eq_mult)

lemma BIT64_eq [nova_bits]: "b < 64 \<Longrightarrow> BIT64 b = 2 ^ b"
  by (simp add: BIT64_def push_bit_eq_mult)

section \<open>Integer helpers (util.hpp, bits.hpp)\<close>

text \<open>\<open>gcd\<close> of \<^verbatim>\<open>inc/util.hpp\<close>: Euclid's loop.\<close>

fun gcd_loop :: "nat \<Rightarrow> nat \<Rightarrow> nat" where
  "gcd_loop v1 v2 = (if v2 = 0 then v1 else gcd_loop v2 (v1 mod v2))"

declare gcd_loop.simps [simp del]

lemma gcd_loop_eq: "gcd_loop a b = gcd a b"
proof (induction a b rule: gcd_loop.induct)
  case (1 a b)
  then show ?case
    by (cases "b = 0") (auto simp: gcd_loop.simps [of a b] gcd_loop.simps [of a 0] simp flip: gcd_red_nat)
qed

text \<open>The compiler's count-trailing-zeros and count-leading-zeros on \<open>unsigned long\<close>.\<close>

definition ctzl :: "u64 \<Rightarrow> nat" where
  "ctzl v = length (takeWhile (\<lambda>i. \<not> bit v i) [0..<64])"

definition clzl :: "u64 \<Rightarrow> nat" where
  "clzl v = length (takeWhile (\<lambda>i. \<not> bit v i) (rev [0..<64]))"

definition bit_scan_reverse :: "u64 \<Rightarrow> int" where
  "bit_scan_reverse v = (if v = 0 then - 1 else 8 * 8 - int (clzl v) - 1)"

definition bit_scan_forward :: "u64 \<Rightarrow> int" where
  "bit_scan_forward v = (if v = 0 then - 1 else int (ctzl v))"

definition max_order :: "u64 \<Rightarrow> u64 \<Rightarrow> int" where
  "max_order base sz =
     (let o1 = bit_scan_reverse sz
      in if base \<noteq> 0 then min (bit_scan_forward base) o1 else o1)"

definition align_dn :: "u64 \<Rightarrow> u64 \<Rightarrow> u64" where
  "align_dn val align = val AND NOT (align - 1)"

definition align_up :: "u64 \<Rightarrow> u64 \<Rightarrow> u64" where
  "align_up val align = align_dn (val + (align - 1)) align"

subsection \<open>Facts about bits and alignment\<close>

lemma u64_lt: "unat (v :: u64) < 18446744073709551616"
  using unsigned_less [of v, where ?'a = nat] by simp

lemma u64_lt_pow: "unat (v :: u64) < 2 ^ 64"
  using unsigned_less [of v, where ?'a = nat] by simp

lemma unat_drop_bit: "unat (drop_bit n (v :: u64)) = unat v div 2 ^ n"
  using u64_lt_pow [of v] by (simp add: unsigned_drop_bit_eq take_bit_nat_eq_self drop_bit_eq_div [of _ "unat v"])

lemma word_eq_of_nat: "unat (v :: u64) = n \<Longrightarrow> v = of_nat n"
  by auto

text \<open>A loop counter below its bound does not wrap.\<close>

lemma unat_inc:
  fixes i e :: u64
  assumes "i < e" shows "unat (i + 1) = Suc (unat i)"
proof -
  have "unat i < unat e" using assms by (simp add: word_less_nat_alt)
  then have "Suc (unat i) < 2 ^ 64" using u64_lt_pow [of e] by linarith
  then show ?thesis by (simp add: unat_word_ariths)
qed

lemma unat_loop: "i < e \<Longrightarrow> unat e - unat (i + 1) < unat e - unat (i :: u64)"
  using unat_inc [of i e] by (simp add: word_less_nat_alt diff_less_mono2)

lemma word_bit_exists:
  fixes v :: u64
  assumes "v \<noteq> 0"
  obtains i where "i < 64" "bit v i"
proof -
  from assms obtain n where "bit v n" by (auto simp: bit_eq_iff)
  moreover from this have "n < 64" using bit_imp_le_length [of v n] by simp
  ultimately show ?thesis using that by blast
qed

lemma takeWhile_first:
  assumes "x \<in> set xs" "\<not> P x"
  shows "length (takeWhile P xs) < length xs" "\<not> P (xs ! length (takeWhile P xs))"
    "\<And>i. i < length (takeWhile P xs) \<Longrightarrow> P (xs ! i)"
proof -
  show *: "length (takeWhile P xs) < length xs"
    by (metis assms length_takeWhile_le nat_less_le set_takeWhileD takeWhile_eq_take take_all_iff linorder_le_less_linear)
  then show "\<not> P (xs ! length (takeWhile P xs))" by (rule nth_length_takeWhile)
  fix i assume "i < length (takeWhile P xs)"
  then show "P (xs ! i)" by (metis nth_mem set_takeWhileD takeWhile_nth)
qed

lemma ctzl_spec:
  assumes "v \<noteq> 0"
  shows "ctzl v < 64" "bit v (ctzl v)" "\<And>i. i < ctzl v \<Longrightarrow> \<not> bit v i"
proof -
  obtain n where "n < 64" "bit v n" using assms by (rule word_bit_exists)
  then have n: "n \<in> set [0..<64]" "\<not> \<not> bit v n" by auto
  note t = takeWhile_first [of n "[0..<64]" "\<lambda>i. \<not> bit v i", OF n, folded ctzl_def]
  show "ctzl v < 64" using t(1) by simp
  then show "bit v (ctzl v)" using t(2) by simp
  fix i assume "i < ctzl v"
  then show "\<not> bit v i" using t(3) [of i] t(1) by simp
qed

lemma clzl_spec:
  assumes "v \<noteq> 0"
  shows "clzl v < 64" "bit v (63 - clzl v)" "\<And>i. 63 - clzl v < i \<Longrightarrow> \<not> bit v i"
proof -
  obtain n where "n < 64" "bit v n" using assms by (rule word_bit_exists)
  then have n: "n \<in> set (rev [0..<64])" "\<not> \<not> bit v n" by auto
  note t = takeWhile_first [of n "rev [0..<64]" "\<lambda>i. \<not> bit v i", OF n, folded clzl_def]
  show *: "clzl v < 64" using t(1) by simp
  then show "bit v (63 - clzl v)" using t(2) by (simp add: rev_nth)
  fix i assume i: "63 - clzl v < i"
  show "\<not> bit v i"
  proof (cases "i < 64")
    case True
    with i * have "63 - i < clzl v" by arith
    then show ?thesis using t(3) [of "63 - i"] True by (simp add: rev_nth)
  next
    case False
    then show ?thesis using bit_imp_le_length [of v i] by auto
  qed
qed

lemma word_log_bound:
  fixes v :: u64
  assumes "bit v n" shows "2 ^ n \<le> unat v"
proof -
  have "bit (unat v) n" using assms by (simp add: bit_unsigned_iff bit_imp_le_length)
  then show ?thesis by (simp add: bit_iff_odd) (metis One_nat_def div_less even_zero not_le)
qed

lemma word_dvd_low_bits:
  fixes v :: u64
  assumes "\<And>i. i < n \<Longrightarrow> \<not> bit v i" shows "2 ^ n dvd unat v"
proof -
  have "take_bit n v = 0" using assms by (auto simp: bit_eq_iff bit_simps)
  then have "take_bit n (unat v) = 0" by (metis unsigned_0 unsigned_take_bit_eq)
  then show ?thesis by (simp add: take_bit_eq_0_iff)
qed

lemma max_order_spec:
  assumes "sz \<noteq> 0"
  obtains n where "max_order base sz = int n" "n < 64" "2 ^ n \<le> unat sz" "2 ^ n dvd unat base"
proof -
  let ?r = "63 - clzl sz"
  have r: "bit_scan_reverse sz = int ?r" "?r < 64" "2 ^ ?r \<le> unat sz"
    using clzl_spec [OF assms] word_log_bound by (auto simp: bit_scan_reverse_def assms)
  show ?thesis
  proof (cases "base = 0")
    case True
    with r show ?thesis by (intro that [of ?r]) (auto simp: max_order_def)
  next
    case False
    let ?n = "min (ctzl base) ?r"
    have "2 ^ ?n \<le> unat sz" using r(3) by (meson min.cobounded2 one_le_numeral order_trans power_increasing)
    moreover have "2 ^ ?n dvd unat base" using ctzl_spec(3) [OF False] by (intro word_dvd_low_bits) simp
    moreover have "max_order base sz = int ?n"
      using False r(1) by (simp add: max_order_def bit_scan_forward_def Let_def)
    ultimately show ?thesis using r(2) by (intro that [of ?n]) auto
  qed
qed

lemma align_dn_pow2:
  assumes "n < 64"
  shows "unat (align_dn v (2 ^ n)) = unat v - unat v mod 2 ^ n"
proof -
  have "align_dn v (2 ^ n) = v AND NOT (mask n)"
    by (simp add: align_dn_def mask_eq_exp_minus_1)
  also have "\<dots> = push_bit n (drop_bit n v)"
    by (rule bit_word_eqI) (auto simp: bit_simps)
  finally have "unat (align_dn v (2 ^ n)) = take_bit 64 (push_bit n (drop_bit n (unat v)))"
    using take_bit_nat_eq_self [of "unat v" 64] u64_lt [of v]
    by (simp add: unsigned_push_bit_eq unsigned_drop_bit_eq)
  also have "push_bit n (drop_bit n (unat v)) = unat v - unat v mod 2 ^ n"
    by (simp add: push_bit_eq_mult drop_bit_eq_div minus_mod_eq_div_mult)
  also have "take_bit 64 \<dots> = unat v - unat v mod 2 ^ n"
    using u64_lt [of v] by (intro take_bit_nat_eq_self) (simp add: less_imp_diff_less)
  finally show ?thesis .
qed

lemma xor_pow2_even:
  fixes b :: nat
  assumes "2 ^ Suc k dvd b" shows "b XOR 2 ^ k = b + 2 ^ k"
proof -
  have "\<not> bit b k" using assms by (auto simp: bit_iff_odd elim!: dvdE)
  then have "b AND 2 ^ k = 0" by (intro bit_eqI) (auto simp: bit_simps)
  then show ?thesis by (simp add: disjunctive_xor_eq_or disjunctive_add_eq_or)
qed

lemma xor_pow2_odd:
  fixes b :: nat
  assumes "2 ^ k dvd b" "\<not> 2 ^ Suc k dvd b" shows "b XOR 2 ^ k = b - 2 ^ k" "2 ^ k \<le> b" "2 ^ Suc k dvd b - 2 ^ k"
proof -
  from assms obtain q where q: "b = 2 ^ k * q" by (auto elim: dvdE)
  with assms have "odd q" by auto
  then obtain p where p: "q = Suc (2 * p)" by (auto elim: oddE)
  with q have b: "b = 2 ^ Suc k * p + 2 ^ k" by (simp add: algebra_simps)
  have "(2 ^ Suc k * p) XOR 2 ^ k = 2 ^ Suc k * p + 2 ^ k" by (rule xor_pow2_even) simp
  then have "b XOR 2 ^ k = 2 ^ Suc k * p" unfolding b by (metis xor.assoc xor_self_eq xor.right_neutral)
  with b show "b XOR 2 ^ k = b - 2 ^ k" "2 ^ k \<le> b" "2 ^ Suc k dvd b - 2 ^ k" by auto
qed

text \<open>A block and its buddy are the two halves of the block twice as large.\<close>

lemma xor_pow2_halves:
  fixes b :: nat
  assumes "2 ^ k dvd b" "m = (if b XOR 2 ^ k < b then b XOR 2 ^ k else b)"
  obtains (lower) "2 ^ Suc k dvd m" "b = m" "b XOR 2 ^ k = m + 2 ^ k"
    | (upper) "2 ^ Suc k dvd m" "b = m + 2 ^ k" "b XOR 2 ^ k = m"
proof (cases "2 ^ Suc k dvd b")
  case True
  note x = xor_pow2_even [OF True]
  then have "m = b" using assms(2) by simp
  with True x show ?thesis by (intro lower) simp_all
next
  case False
  note x = xor_pow2_odd [OF assms(1) False]
  then have "m = b - 2 ^ k" using assms(2) by (simp split: if_splits)
  with x show ?thesis by (intro upper) simp_all
qed

section \<open>Lists of disjoint lists\<close>

lemma set_concat_nth: "set (concat (map f ts)) = (\<Union>k<length ts. set (f (ts ! k)))"
  by (simp add: set_conv_nth [of ts] image_Collect [symmetric] lessThan_def)

lemma distinct_concat_nth:
  "distinct (concat (map f ts)) \<longleftrightarrow> (\<forall>k<length ts. distinct (f (ts ! k))) \<and>
     (\<forall>j<length ts. \<forall>k<length ts. j \<noteq> k \<longrightarrow> set (f (ts ! j)) \<inter> set (f (ts ! k)) = {})"
proof (induction ts)
  case (Cons t ts)
  show ?case
    unfolding length_Cons All_less_Suc2 list.map concat.simps distinct_append Cons.IH set_concat_nth
    by (simp add: disjoint_iff) blast
qed simp

text \<open>Powers of two that fit.\<close>

lemma unat_pow2: "n < LENGTH('a) \<Longrightarrow> unat (2 ^ n :: 'a::len word) = 2 ^ n"
proof -
  assume "n < LENGTH('a)"
  then have "(2 :: nat) ^ n < 2 ^ LENGTH('a)" by simp
  moreover have "(2 ^ n :: 'a word) = of_nat (2 ^ n)" by simp
  ultimately show ?thesis unfolding unat_of_nat by (metis mod_less unat_of_nat)
qed

lemma unat_BIT: "n < 32 \<Longrightarrow> unat (BIT n) = 2 ^ n"
  by (simp add: BIT_def unat_pow2)

end
