(* ===== verification/Nova_Queue.thy ===== *)
theory Nova_Queue
  imports Nova_Prelude
begin

text \<open>
  \<^verbatim>\<open>inc/queue.hpp\<close>: the intrusive circular doubly linked queue from which the kernel builds the
  buddy freelists, the ready and release queues, the semaphore wait queues and the list of
  scheduling contexts blocked on an execution context. The first part models the pointer
  structure; the second part is the list queue that the other components are built on; the
  locale \<open>queue_impl\<close> is the contract, interpreted for both, so that the pointer structure
  is a refinement of the list queue.
\<close>

section \<open>The pointer structure\<close>

text \<open>
  \<open>qnext\<close> and \<open>qprev\<close> are the links of every element that exists (\<open>Element::next\<close>,
  \<open>Element::prev\<close>), \<open>qhead\<close> is the head pointer of the queue.
\<close>

record 'a queue =
  qhead :: "'a option"
  qnext :: "'a \<Rightarrow> 'a option"
  qprev :: "'a \<Rightarrow> 'a option"

definition queued :: "'a queue \<Rightarrow> 'a \<Rightarrow> bool" where
  "queued q e \<longleftrightarrow> qnext q e \<noteq> None \<or> qprev q e \<noteq> None"

definition empty_queue :: "'a queue \<Rightarrow> bool" where
  "empty_queue q \<longleftrightarrow> qhead q = None"

definition enqueue :: "'a \<Rightarrow> bool \<Rightarrow> 'a queue \<Rightarrow> (bool \<times> 'a queue) option" where
  "enqueue e h q = do {
     assert_that (\<not> queued q e);
     case qhead q of
       None \<Rightarrow> Some (True, q\<lparr>qhead := Some e, qnext := (qnext q)(e \<mapsto> e), qprev := (qprev q)(e \<mapsto> e)\<rparr>)
     | Some hd0 \<Rightarrow> do {
         let q = q\<lparr>qnext := (qnext q)(e \<mapsto> hd0)\<rparr>;
         let q = q\<lparr>qprev := (qprev q)(e := qprev q hd0)\<rparr>;
         p \<leftarrow> qprev q e;
         let q = q\<lparr>qnext := (qnext q)(p \<mapsto> e)\<rparr>;
         n \<leftarrow> qnext q e;
         let q = q\<lparr>qprev := (qprev q)(n \<mapsto> e)\<rparr>;
         Some (False, if h then q\<lparr>qhead := Some e\<rparr> else q)
       }
   }"

definition enqueue_head :: "'a \<Rightarrow> 'a queue \<Rightarrow> (bool \<times> 'a queue) option" where
  "enqueue_head e q = enqueue e True q"

definition enqueue_tail :: "'a \<Rightarrow> 'a queue \<Rightarrow> (bool \<times> 'a queue) option" where
  "enqueue_tail e q = enqueue e False q"

definition dequeue :: "'a \<Rightarrow> 'a queue \<Rightarrow> 'a queue option" where
  "dequeue e q = do {
     assert_that (queued q e);
     q \<leftarrow> (if qnext q e = Some e then Some (q\<lparr>qhead := None\<rparr>)
          else do {
            n \<leftarrow> qnext q e;
            let q = q\<lparr>qprev := (qprev q)(n := qprev q e)\<rparr>;
            p \<leftarrow> qprev q e;
            let q = q\<lparr>qnext := (qnext q)(p := qnext q e)\<rparr>;
            Some (if Some e = qhead q then q\<lparr>qhead := qnext q e\<rparr> else q)
          });
     Some (q\<lparr>qnext := (qnext q)(e := None), qprev := (qprev q)(e := None)\<rparr>)
   }"

definition dequeue_head :: "'a queue \<Rightarrow> ('a option \<times> 'a queue) option" where
  "dequeue_head q = (case qhead q of None \<Rightarrow> Some (None, q)
     | Some h \<Rightarrow> do { q \<leftarrow> dequeue h q; Some (Some h, q) })"

section \<open>The list queue\<close>

definition lq_enqueue :: "'a \<Rightarrow> bool \<Rightarrow> 'a list \<Rightarrow> (bool \<times> 'a list) option" where
  "lq_enqueue e h xs = do {
     assert_that (e \<notin> set xs);
     Some (xs = [], if h then e # xs else xs @ [e])
   }"

definition lq_dequeue :: "'a \<Rightarrow> 'a list \<Rightarrow> 'a list option" where
  "lq_dequeue e xs = do { assert_that (e \<in> set xs); Some (remove1 e xs) }"

definition lq_dequeue_head :: "'a list \<Rightarrow> ('a option \<times> 'a list) option" where
  "lq_dequeue_head xs = (case xs of [] \<Rightarrow> Some (None, []) | x # xs \<Rightarrow> Some (Some x, xs))"

section \<open>The queue contract\<close>

text \<open>Enqueue a sequence of elements at the tail; take a number of elements from the head.\<close>

fun enq_all :: "('a \<Rightarrow> bool \<Rightarrow> 'q \<Rightarrow> (bool \<times> 'q) option) \<Rightarrow> 'a list \<Rightarrow> 'q \<Rightarrow> 'q option" where
  "enq_all enq [] q = Some q"
| "enq_all enq (e # es) q = do { (_, q) \<leftarrow> enq e False q; enq_all enq es q }"

fun deq_all :: "('q \<Rightarrow> ('a option \<times> 'q) option) \<Rightarrow> nat \<Rightarrow> 'q \<Rightarrow> ('a list \<times> 'q) option" where
  "deq_all deq 0 q = Some ([], q)"
| "deq_all deq (Suc n) q = do {
     (r, q) \<leftarrow> deq q;
     case r of None \<Rightarrow> Some ([], q)
     | Some e \<Rightarrow> do { (es, q) \<leftarrow> deq_all deq n q; Some (e # es, q) }
   }"

locale queue_impl =
  fixes rep :: "'q \<Rightarrow> 'a list \<Rightarrow> bool"
    and idle :: "'q \<Rightarrow> 'a \<Rightarrow> bool"
    and enq :: "'a \<Rightarrow> bool \<Rightarrow> 'q \<Rightarrow> (bool \<times> 'q) option"
    and deq :: "'a \<Rightarrow> 'q \<Rightarrow> 'q option"
    and deq_head :: "'q \<Rightarrow> ('a option \<times> 'q) option"
  assumes rep_distinct: "rep q xs \<Longrightarrow> distinct xs"
    and idle_notin: "rep q xs \<Longrightarrow> idle q e \<Longrightarrow> e \<notin> set xs"
    and enq_rep: "rep q xs \<Longrightarrow> idle q e \<Longrightarrow>
      \<exists>q'. enq e h q = Some (xs = [], q') \<and> rep q' (if h then e # xs else xs @ [e]) \<and>
           (\<forall>x. x \<noteq> e \<longrightarrow> idle q x \<longrightarrow> idle q' x)"
    and deq_rep: "rep q xs \<Longrightarrow> e \<in> set xs \<Longrightarrow>
      \<exists>q'. deq e q = Some q' \<and> rep q' (remove1 e xs) \<and> idle q' e \<and> (\<forall>x. idle q x \<longrightarrow> idle q' x)"
    and deq_head_rep: "rep q xs \<Longrightarrow>
      \<exists>q'. deq_head q = Some (if xs = [] then None else Some (hd xs), q') \<and> rep q' (tl xs) \<and>
           (xs \<noteq> [] \<longrightarrow> idle q' (hd xs)) \<and> (\<forall>x. idle q x \<longrightarrow> idle q' x)"
begin

lemma enq_all_rep:
  assumes "rep q xs" "distinct es" "\<forall>e\<in>set es. idle q e"
  shows "\<exists>q'. enq_all enq es q = Some q' \<and> rep q' (xs @ es)"
  using assms
proof (induction es arbitrary: q xs)
  case Nil
  then show ?case by auto
next
  case (Cons e es)
  from Cons.prems enq_rep [of q xs e False] obtain q1 where
    q1: "enq e False q = Some (xs = [], q1)" "rep q1 (xs @ [e])" "\<forall>x. x \<noteq> e \<longrightarrow> idle q x \<longrightarrow> idle q1 x"
    by auto
  moreover from q1 Cons.prems have "\<forall>x\<in>set es. idle q1 x" by auto
  ultimately show ?case using Cons.IH [of q1 "xs @ [e]"] Cons.prems by auto
qed

lemma deq_all_rep:
  assumes "rep q xs" "length xs \<le> n"
  shows "\<exists>q'. deq_all deq_head n q = Some (xs, q') \<and> rep q' []"
  using assms
proof (induction n arbitrary: q xs)
  case 0
  then show ?case by auto
next
  case (Suc n)
  from deq_head_rep [OF Suc.prems(1)] obtain q1 where
    q1: "deq_head q = Some (if xs = [] then None else Some (hd xs), q1)" "rep q1 (tl xs)" by blast
  show ?case
  proof (cases xs)
    case Nil
    with q1 show ?thesis by simp
  next
    case (Cons x ys)
    with Suc.IH [OF q1(2)] Suc.prems q1(1) show ?thesis by auto
  qed
qed

lemma fifo:
  assumes "rep q []" "distinct es" "\<forall>e\<in>set es. idle q e"
  shows "\<exists>q1 q2. enq_all enq es q = Some q1 \<and> deq_all deq_head (length es) q1 = Some (es, q2) \<and> rep q2 []"
  using enq_all_rep [OF assms] deq_all_rep by force

end

section \<open>Shape of the pointer structure\<close>

text \<open>Consecutive elements of a list are linked forwards and backwards.\<close>

fun links :: "('a \<Rightarrow> 'a option) \<Rightarrow> ('a \<Rightarrow> 'a option) \<Rightarrow> 'a list \<Rightarrow> bool" where
  "links nx pv (a # b # r) \<longleftrightarrow> nx a = Some b \<and> pv b = Some a \<and> links nx pv (b # r)"
| "links nx pv _ \<longleftrightarrow> True"

definition circ :: "('a \<Rightarrow> 'a option) \<Rightarrow> ('a \<Rightarrow> 'a option) \<Rightarrow> 'a list \<Rightarrow> bool" where
  "circ nx pv xs \<longleftrightarrow> links nx pv xs \<and>
     (xs \<noteq> [] \<longrightarrow> nx (last xs) = Some (hd xs) \<and> pv (hd xs) = Some (last xs))"

definition qrep :: "'a queue \<Rightarrow> 'a list \<Rightarrow> bool" where
  "qrep q xs \<longleftrightarrow> distinct xs \<and> qhead q = (case xs of [] \<Rightarrow> None | x # _ \<Rightarrow> Some x) \<and>
     circ (qnext q) (qprev q) xs"

lemma links_append:
  "links nx pv (xs @ ys) \<longleftrightarrow> links nx pv xs \<and> links nx pv ys \<and>
     (xs \<noteq> [] \<longrightarrow> ys \<noteq> [] \<longrightarrow> nx (last xs) = Some (hd ys) \<and> pv (hd ys) = Some (last xs))"
proof (induction xs rule: induct_list012)
  case (2 x)
  then show ?case by (cases ys) auto
qed auto

lemma links_cong:
  assumes "\<And>x. x \<in> set (butlast xs) \<Longrightarrow> nx x = nx' x" "\<And>x. x \<in> set (tl xs) \<Longrightarrow> pv x = pv' x"
  shows "links nx pv xs = links nx' pv' xs"
  using assms by (induction xs rule: induct_list012) auto

lemma circ_rotate: "circ nx pv (xs @ ys) \<longleftrightarrow> circ nx pv (ys @ xs)"
  by (cases "xs = [] \<or> ys = []") (auto simp: circ_def links_append)

lemma circ_next_mem: "circ nx pv xs \<Longrightarrow> x \<in> set xs \<Longrightarrow> \<exists>y. nx x = Some y"
  by (metis append_Cons append_Nil circ_def circ_rotate last_ConsL last_snoc list.distinct(1) list.sel(1)
      split_list append_is_Nil_conv)

lemma circ_insert:
  assumes "circ nx pv (x # xs)" "e \<notin> set (x # xs)" "distinct (x # xs)"
  shows "circ (nx(e := Some x, last (x # xs) := Some e)) (pv(e := Some (last (x # xs)), x := Some e)) (x # xs @ [e])"
proof -
  let ?nx = "nx(e := Some x, last (x # xs) := Some e)"
  let ?pv = "pv(e := Some (last (x # xs)), x := Some e)"
  have "links ?nx ?pv (x # xs) = links nx pv (x # xs)"
  proof (rule links_cong)
    fix y assume "y \<in> set (butlast (x # xs))"
    moreover have "last (x # xs) \<notin> set (butlast (x # xs))"
      using assms(3) by (metis append_butlast_last_id distinct_append disjoint_iff list.distinct(1) list.set_intros(1))
    ultimately show "?nx y = nx y" using assms(2) by (metis fun_upd_other in_set_butlastD)
  next
    fix y assume "y \<in> set (tl (x # xs))"
    then show "?pv y = pv y" using assms by auto
  qed
  moreover have "e \<noteq> last (x # xs)" using assms(2) by (metis last_in_set list.distinct(1))
  ultimately show ?thesis using assms links_append [of ?nx ?pv "x # xs" "[e]"]
    by (auto simp: circ_def)
qed

lemma circ_remove:
  assumes "circ nx pv (e # x # xs)" "distinct (e # x # xs)"
  shows "circ (nx(last (x # xs) := nx e)) (pv(x := pv e)) (x # xs)"
proof -
  let ?nx = "nx(last (x # xs) := nx e)" let ?pv = "pv(x := pv e)"
  have "links ?nx ?pv (x # xs) = links nx pv (x # xs)"
  proof (rule links_cong)
    fix y assume "y \<in> set (butlast (x # xs))"
    moreover have "last (x # xs) \<notin> set (butlast (x # xs))"
      using assms(2) by (metis append_butlast_last_id distinct.simps(2) distinct_append disjoint_iff list.distinct(1) list.set_intros(1))
    ultimately show "?nx y = nx y" by auto
  qed (use assms in auto)
  then show ?thesis using assms by (auto simp: circ_def)
qed

lemma circ_cong:
  assumes "\<And>x. x \<in> set xs \<Longrightarrow> nx x = nx' x" "\<And>x. x \<in> set xs \<Longrightarrow> pv x = pv' x"
  shows "circ nx pv xs = circ nx' pv' xs"
proof (cases "xs = []")
  case False
  have "links nx pv xs = links nx' pv' xs"
    using assms by (intro links_cong) (auto dest: in_set_butlastD list.set_sel(2) [OF False])
  with False assms show ?thesis by (auto simp: circ_def)
qed (simp add: circ_def)

section \<open>The operations preserve the shape\<close>

lemma queued_mem: "qrep q xs \<Longrightarrow> x \<in> set xs \<Longrightarrow> queued q x"
  using circ_next_mem [of "qnext q" "qprev q" xs x] by (auto simp: qrep_def queued_def)

lemma qrep_enqueue:
  assumes "qrep q xs" "\<not> queued q e"
  shows "\<exists>q'. enqueue e h q = Some (xs = [], q') \<and> qrep q' (if h then e # xs else xs @ [e]) \<and>
    (\<forall>x. x \<noteq> e \<longrightarrow> \<not> queued q x \<longrightarrow> \<not> queued q' x)"
proof (cases xs)
  case Nil
  with assms show ?thesis
    by (auto simp: qrep_def enqueue_def circ_def queued_def)
next
  case (Cons x ys)
  have e: "e \<notin> set xs" using assms queued_mem by metis
  from assms Cons have circ: "circ (qnext q) (qprev q) (x # ys)" and d: "distinct (x # ys)"
    and h: "qhead q = Some x" by (auto simp: qrep_def)
  let ?l = "last (x # ys)"
  have l: "qprev q x = Some ?l" "x \<noteq> e" "?l \<noteq> e" "?l \<in> set xs"
    using circ e Cons by (auto simp: circ_def)
  let ?q = "q\<lparr>qnext := (qnext q)(e := Some x, ?l := Some e), qprev := (qprev q)(e := Some ?l, x := Some e)\<rparr>"
  have "enqueue e h q = Some (False, if h then ?q\<lparr>qhead := Some e\<rparr> else ?q)"
    using assms(2) h l(1,2,3) by (auto simp: enqueue_def Let_def fun_upd_twist)
  moreover have c: "circ (qnext ?q) (qprev ?q) (x # ys @ [e])"
    using circ_insert [OF circ _ d, of e] e Cons by simp
  then have "circ (qnext ?q) (qprev ?q) (e # x # ys)"
    using circ_rotate [of _ _ "x # ys" "[e]"] by simp
  moreover have "\<not> queued q y \<Longrightarrow> y \<noteq> x \<and> y \<noteq> ?l" for y
    using queued_mem [OF assms(1)] l(4) Cons by auto
  ultimately show ?thesis using c d e h Cons by (auto simp: qrep_def queued_def)
qed

lemma qrep_dequeue:
  assumes "qrep q xs" "e \<in> set xs"
  shows "\<exists>q'. dequeue e q = Some q' \<and> qrep q' (remove1 e xs) \<and> \<not> queued q' e \<and>
    (\<forall>x. \<not> queued q x \<longrightarrow> \<not> queued q' x)"
proof -
  from assms(2) obtain as bs where xs: "xs = as @ e # bs" by (auto dest: split_list)
  from assms(1) have d: "distinct xs" and hd: "qhead q = (case xs of [] \<Rightarrow> None | x # _ \<Rightarrow> Some x)"
    and "circ (qnext q) (qprev q) xs" by (auto simp: qrep_def)
  then have c: "circ (qnext q) (qprev q) (e # bs @ as)"
    using circ_rotate [of _ _ as "e # bs"] xs by simp
  have q: "queued q e" using assms queued_mem by metis
  have r: "remove1 e xs = as @ bs" using d xs by (simp add: remove1_append)
  show ?thesis
  proof (cases "bs @ as")
    case Nil
    with c q show ?thesis
      by (auto simp: dequeue_def r circ_def qrep_def queued_def)
  next
    case (Cons x ys)
    let ?l = "last (x # ys)"
    let ?q = "q\<lparr>qnext := (qnext q)(?l := qnext q e, e := None), qprev := (qprev q)(x := qprev q e, e := None),
               qhead := if as = [] then Some x else qhead q\<rparr>"
    have c': "circ (qnext q) (qprev q) (e # x # ys)" using c Cons by simp
    then have n: "qnext q e = Some x" "qprev q e = Some ?l" by (simp_all add: circ_def)
    have s: "set xs = insert e (set (x # ys))" using xs by (simp flip: Cons) blast
    have "distinct (e # bs @ as)" using d xs by auto
    then have "distinct (e # x # ys)" unfolding Cons .
    then have ne: "x \<noteq> e" "?l \<noteq> e" by (metis distinct.simps(2) last_in_set list.distinct(1) list.set_intros(1))+
    have h: "Some e = qhead q \<longleftrightarrow> as = []" using hd d xs by (cases as) auto
    have "circ (qnext ?q) (qprev ?q) (x # ys)"
      using circ_remove [OF c'] \<open>distinct (e # x # ys)\<close>
      by (subst circ_cong [where nx' = "(qnext q)(?l := qnext q e)" and pv' = "(qprev q)(x := qprev q e)"]) auto
    then have "circ (qnext ?q) (qprev ?q) (as @ bs)" using circ_rotate [of _ _ bs as] Cons by simp
    then have "qrep ?q (as @ bs)" using d xs hd Cons by (cases as) (auto simp: qrep_def)
    moreover have "dequeue e q = Some ?q"
      using q n ne h by (auto simp: dequeue_def Let_def)
    moreover have "\<not> queued ?q y" if "\<not> queued q y \<or> y = e" for y
      using that n ne queued_mem [OF assms(1), of x] queued_mem [OF assms(1), of ?l] s
      by (auto simp: queued_def split: if_splits)
    ultimately show ?thesis using r by auto
  qed
qed

lemma qrep_dequeue_head:
  assumes "qrep q xs"
  shows "\<exists>q'. dequeue_head q = Some (if xs = [] then None else Some (hd xs), q') \<and> qrep q' (tl xs) \<and>
    (xs \<noteq> [] \<longrightarrow> \<not> queued q' (hd xs)) \<and> (\<forall>x. \<not> queued q x \<longrightarrow> \<not> queued q' x)"
proof (cases xs)
  case Nil
  with assms show ?thesis by (simp add: dequeue_head_def qrep_def)
next
  case (Cons x ys)
  with assms have "qhead q = Some x" by (simp add: qrep_def)
  with qrep_dequeue [OF assms, of x] Cons show ?thesis by (auto simp: dequeue_head_def)
qed

interpretation pq: queue_impl qrep "\<lambda>q e. \<not> queued q e" enqueue dequeue dequeue_head
proof unfold_locales
  show "qrep q xs \<Longrightarrow> distinct xs" for q :: "'a queue" and xs by (simp add: qrep_def)
  show "qrep q xs \<Longrightarrow> \<not> queued q e \<Longrightarrow> e \<notin> set xs" for q :: "'a queue" and xs e
    using queued_mem by metis
qed (rule qrep_enqueue qrep_dequeue qrep_dequeue_head; assumption)+

interpretation lq: queue_impl "\<lambda>q xs. q = xs \<and> distinct xs" "\<lambda>q e. e \<notin> set q" lq_enqueue lq_dequeue lq_dequeue_head
  by unfold_locales
    (auto simp: lq_enqueue_def lq_dequeue_def lq_dequeue_head_def neq_Nil_conv split: list.splits
      dest: notin_set_remove1)

text \<open>A queue with no element and no link set, as the constructors leave it.\<close>

definition init_queue :: "'a queue" where
  "init_queue = \<lparr>qhead = None, qnext = (\<lambda>_. None), qprev = (\<lambda>_. None)\<rparr>"

lemma qrep_init: "qrep init_queue []"
  by (simp add: qrep_def init_queue_def circ_def)

section \<open>Properties\<close>

text \<open>
  C7: The pointer queue implements the list queue: on a well-linked queue that represents the list
  \<open>xs\<close>, enqueueing an unqueued element at the head or the tail, dequeueing any element and
  dequeueing the head pass their assertions, never follow a null link and give a well-linked queue
  that represents the list result, with the element unlinked after a dequeue.
\<close>

theorem queue_refines_list:
  assumes "qrep q xs"
  shows "(\<not> queued q e \<longrightarrow> (\<exists>q' r. enqueue e h q = Some (r, q') \<and>
            lq_enqueue e h xs = Some (r, if h then e # xs else xs @ [e]) \<and> qrep q' (if h then e # xs else xs @ [e]))) \<and>
         (x \<in> set xs \<longrightarrow> (\<exists>q' ys. dequeue x q = Some q' \<and> lq_dequeue x xs = Some ys \<and> qrep q' ys \<and> \<not> queued q' x)) \<and>
         (\<exists>r q' ys. dequeue_head q = Some (r, q') \<and> lq_dequeue_head xs = Some (r, ys) \<and> qrep q' ys)"
proof (intro conjI impI)
  assume "\<not> queued q e"
  then show "\<exists>q' r. enqueue e h q = Some (r, q') \<and> lq_enqueue e h xs = Some (r, if h then e # xs else xs @ [e]) \<and>
      qrep q' (if h then e # xs else xs @ [e])"
    using pq.enq_rep [OF assms, of e h] pq.idle_notin [OF assms, of e] by (auto simp: lq_enqueue_def)
next
  assume "x \<in> set xs"
  then show "\<exists>q' ys. dequeue x q = Some q' \<and> lq_dequeue x xs = Some ys \<and> qrep q' ys \<and> \<not> queued q' x"
    using pq.deq_rep [OF assms, of x] by (auto simp: lq_dequeue_def)
next
  show "\<exists>r q' ys. dequeue_head q = Some (r, q') \<and> lq_dequeue_head xs = Some (r, ys) \<and> qrep q' ys"
    using pq.deq_head_rep [OF assms] by (auto simp: lq_dequeue_head_def split: list.splits)
qed

theorem queue_refines_list_witness:
  "\<exists>q' r. enqueue (7 :: nat) True init_queue = Some (r, q') \<and> qrep q' [7]"
  using queue_refines_list [OF qrep_init, of "7 :: nat" True] by (auto simp: queued_def init_queue_def)

text \<open>
  The queue is first-in first-out: distinct unqueued elements enqueued at the tail of an empty
  queue come out of \<open>dequeue_head\<close> in the same order, and the queue is empty again.
\<close>

theorem queue_fifo:
  assumes "qrep q []" "distinct es" "\<forall>e\<in>set es. \<not> queued q e"
  shows "\<exists>q1 q2. enq_all enqueue es q = Some q1 \<and> deq_all dequeue_head (length es) q1 = Some (es, q2) \<and> qrep q2 []"
  by (rule pq.fifo [OF assms])

theorem queue_fifo_witness:
  "\<exists>q1 q2. enq_all enqueue [1, 2, 3 :: nat] init_queue = Some q1 \<and> deq_all dequeue_head 3 q1 = Some ([1, 2, 3], q2) \<and> qrep q2 []"
  using queue_fifo [OF qrep_init, of "[1, 2, 3 :: nat]"]
  by (simp add: queued_def init_queue_def eval_nat_numeral del: enq_all.simps deq_all.simps)

end
