(* ===== verification/Nova_Buddy.thy ===== *)
theory Nova_Buddy
  imports Nova_Queue
begin

text \<open>
  \<^verbatim>\<open>inc/buddy.hpp\<close>, \<^verbatim>\<open>src/buddy.cpp\<close>: the buddy allocator for physically contiguous page blocks.
  A \<open>Block *\<close> is its index in the block array; the freelists and the waitlist of the executing core are list queues
  (\<open>Nova_Queue\<close>). The allocator spinlock makes \<open>alloc\<close> and \<open>coalesce\<close> atomic. The operations are
  defined on \<open>'a buddy_scheme\<close>, so that the state of every component built on the allocator is
  a record extension of it.
\<close>

section \<open>State\<close>

datatype tag = USED | FREE

record block =
  b_ord :: nat
  b_tag :: tag

record buddy =
  min_idx :: nat
  max_idx :: nat
  mem_base :: u64
  blk_base :: u64
  blk :: "nat \<Rightarrow> block"
  freelist :: "nat \<Rightarrow> nat list"
  waitlist :: "nat list"
  mem :: "u64 \<Rightarrow> u64"

datatype fill = NONE | BITS0 | BITS1

abbreviation PAGE_BITS :: nat where "PAGE_BITS \<equiv> 12"

abbreviation PAGE_SIZE :: u64 where "PAGE_SIZE \<equiv> 4096"

abbreviation PTE_BPL :: nat where "PTE_BPL \<equiv> 9"

definition orders :: nat where
  "orders = PTE_BPL + 1"

text \<open>The size of \<open>class Block\<close>: two links, the order and the tag, padded to the pointer size.\<close>

abbreviation SIZEOF_BLOCK :: u64 where "SIZEOF_BLOCK \<equiv> 24"

section \<open>Operations\<close>

definition is_valid :: "'a buddy_scheme \<Rightarrow> nat \<Rightarrow> bool" where
  "is_valid s x \<longleftrightarrow> min_idx s \<le> x \<and> x < max_idx s"

definition index_to_page :: "'a buddy_scheme \<Rightarrow> nat \<Rightarrow> u64" where
  "index_to_page s x = mem_base s + of_nat x * PAGE_SIZE"

definition page_to_index :: "'a buddy_scheme \<Rightarrow> u64 \<Rightarrow> nat" where
  "page_to_index s x = unat ((x - mem_base s) div PAGE_SIZE)"

text \<open>The address of a block descriptor; the model refers to a descriptor by its index.\<close>

definition index_to_block :: "'a buddy_scheme \<Rightarrow> nat \<Rightarrow> u64" where
  "index_to_block s x = blk_base s + of_nat x * SIZEOF_BLOCK"

text \<open>\<open>Element::queued\<close> of a block: it is on one of the freelists or on the waitlist.\<close>

definition blk_queued :: "'a buddy_scheme \<Rightarrow> nat \<Rightarrow> bool" where
  "blk_queued s b \<longleftrightarrow> b \<in> set (waitlist s) \<or> (\<exists>k\<in>set [0..<orders]. b \<in> set (freelist s k))"

definition freelist_enqueue :: "nat \<Rightarrow> 'a buddy_scheme \<Rightarrow> 'a buddy_scheme option" where
  "freelist_enqueue b s = do {
     assert_that (\<not> blk_queued s b);
     let k = b_ord (blk s b);
     Some (s\<lparr>freelist := (freelist s)(k := b # freelist s k)\<rparr>)
   }"

definition freelist_dequeue :: "nat \<Rightarrow> 'a buddy_scheme \<Rightarrow> 'a buddy_scheme option" where
  "freelist_dequeue b s = do {
     let k = b_ord (blk s b);
     q \<leftarrow> lq_dequeue b (freelist s k);
     Some (s\<lparr>freelist := (freelist s)(k := q)\<rparr>)
   }"

definition freelist_dequeue_head :: "nat \<Rightarrow> 'a buddy_scheme \<Rightarrow> (nat option \<times> 'a buddy_scheme) option" where
  "freelist_dequeue_head k s = do {
     (r, q) \<leftarrow> lq_dequeue_head (freelist s k);
     Some (r, s\<lparr>freelist := (freelist s)(k := q)\<rparr>)
   }"

definition waitlist_enqueue :: "nat \<Rightarrow> 'a buddy_scheme \<Rightarrow> 'a buddy_scheme option" where
  "waitlist_enqueue b s = do {
     assert_that (\<not> blk_queued s b);
     Some (s\<lparr>waitlist := b # waitlist s\<rparr>)
   }"

text \<open>
  \<^verbatim>\<open>memset\<close> of \<^verbatim>\<open>inc/string.hpp\<close> at the granularity of 64-bit words, the unit in which the
  kernel reads every table it keeps in such memory: \<open>n\<close> words are set to the replicated byte \<open>c\<close>.
\<close>

fun memset :: "(u64 \<Rightarrow> u64) \<Rightarrow> u64 \<Rightarrow> u64 \<Rightarrow> nat \<Rightarrow> (u64 \<Rightarrow> u64)" where
  "memset m dst c 0 = m"
| "memset m dst c (Suc n) = memset (m(dst := c)) (dst + 8) c n"

text \<open>
  The splitting loop \<^verbatim>\<open>while (o-- != ord)\<close>: the upper half of the block goes back to the
  freelist until the block has the requested order. The loop starts with \<open>ord \<le> k\<close>, so it
  stops at \<open>0\<close> at the latest.
\<close>

fun split_block :: "nat \<Rightarrow> nat \<Rightarrow> nat \<Rightarrow> 'a buddy_scheme \<Rightarrow> 'a buddy_scheme option" where
  "split_block ord 0 b s = Some s"
| "split_block ord (Suc k) b s =
     (if Suc k = ord then Some s
      else do {
        let buddy = b + 2 ^ k;
        assert_that (b_ord (blk s buddy) = k);
        s \<leftarrow> freelist_enqueue buddy s;
        split_block ord k b s
      })"

definition fill_block :: "fill \<Rightarrow> u64 \<Rightarrow> nat \<Rightarrow> 'a buddy_scheme \<Rightarrow> 'a buddy_scheme" where
  "fill_block f ptr ord s =
     (if f \<noteq> NONE then s\<lparr>mem := memset (mem s) ptr (if f = BITS0 then 0 else - 1) (2 ^ (ord + PAGE_BITS) div 8)\<rparr>
      else s)"

text \<open>The search loop over the freelists, starting with order \<open>k\<close>.\<close>

function alloc_from :: "nat \<Rightarrow> fill \<Rightarrow> nat \<Rightarrow> 'a buddy_scheme \<Rightarrow> (u64 option \<times> 'a buddy_scheme) option" where
  "alloc_from ord f k s =
     (if k < orders then do {
        (r, s1) \<leftarrow> freelist_dequeue_head k s;
        case r of
          None \<Rightarrow> alloc_from ord f (Suc k) s1
        | Some b \<Rightarrow> do {
            s2 \<leftarrow> split_block ord k b s1;
            let s3 = s2\<lparr>blk := (blk s2)(b := \<lparr>b_ord = ord, b_tag = USED\<rparr>)\<rparr>;
            let ptr = index_to_page s3 b;
            Some (Some ptr, fill_block f ptr ord s3)
          }
      }
      else Some (None, s))"
  by pat_completeness auto
termination
  by (relation "measure (\<lambda>(ord, f, k, s). orders - k)") (auto simp: freelist_dequeue_head_def)

declare alloc_from.simps [simp del]

definition buddy_alloc :: "nat \<Rightarrow> fill \<Rightarrow> 'a buddy_scheme \<Rightarrow> (u64 option \<times> 'a buddy_scheme) option" where
  "buddy_alloc ord f s = alloc_from ord f ord s"

text \<open>The merging loop of \<open>coalesce\<close>: returns the block with its final size.\<close>

function merge_from :: "nat \<Rightarrow> nat \<Rightarrow> 'a buddy_scheme \<Rightarrow> (nat \<times> 'a buddy_scheme) option" where
  "merge_from k b s =
     (if k < orders - 1 then
        (let buddy = b XOR 2 ^ k
         in if \<not> is_valid s buddy then Some (b, s)
            else if b_tag (blk s buddy) \<noteq> FREE \<or> b_ord (blk s buddy) \<noteq> k then Some (b, s)
            else do {
              s \<leftarrow> freelist_dequeue buddy s;
              let b = (if buddy < b then buddy else b);
              let s = s\<lparr>blk := (blk s)(b := (blk s b)\<lparr>b_ord := Suc k\<rparr>)\<rparr>;
              merge_from (Suc k) b s
            })
      else Some (b, s))"
  by pat_completeness auto
termination
  by (relation "measure (\<lambda>(k, b, s). orders - k)") auto

declare merge_from.simps [simp del]

definition coalesce :: "nat \<Rightarrow> 'a buddy_scheme \<Rightarrow> 'a buddy_scheme option" where
  "coalesce b s = do {
     assert_that (b_tag (blk s b) = USED);
     let s = s\<lparr>blk := (blk s)(b := (blk s b)\<lparr>b_tag := FREE\<rparr>)\<rparr>;
     (b, s) \<leftarrow> merge_from (b_ord (blk s b)) b s;
     freelist_enqueue b s
   }"

definition buddy_free :: "u64 \<Rightarrow> 'a buddy_scheme \<Rightarrow> 'a buddy_scheme option" where
  "buddy_free ptr s = do {
     let idx = page_to_index s ptr;
     assert_that (is_valid s idx);
     coalesce idx s
   }"

definition buddy_wait :: "u64 \<Rightarrow> 'a buddy_scheme \<Rightarrow> 'a buddy_scheme option" where
  "buddy_wait ptr s = do {
     let idx = page_to_index s ptr;
     assert_that (is_valid s idx);
     waitlist_enqueue idx s
   }"

text \<open>\<open>free_wait\<close> drains the waitlist; the list bounds the number of iterations.\<close>

fun drain_waitlist :: "nat list \<Rightarrow> 'a buddy_scheme \<Rightarrow> 'a buddy_scheme option" where
  "drain_waitlist [] s = Some s"
| "drain_waitlist (b # w) s = do { s \<leftarrow> coalesce b (s\<lparr>waitlist := w\<rparr>); drain_waitlist w s }"

definition free_wait :: "'a buddy_scheme \<Rightarrow> 'a buddy_scheme option" where
  "free_wait s = drain_waitlist (waitlist s) s"

text \<open>
  \<open>init\<close>: the linker symbols \<^verbatim>\<open>KMEM_HVAS\<close>, \<^verbatim>\<open>KMEM_HVAF\<close> and \<^verbatim>\<open>KMEM_HVAE\<close> (start of the pool, first free
  page, end of the pool) are arguments; the block array is the zeroed memory at the end of the
  pool, so every block starts with order 0 and tag \<open>USED\<close>.
\<close>

definition pages_between :: "u64 \<Rightarrow> u64 \<Rightarrow> u64 list" where
  "pages_between a e = map (\<lambda>i. a + of_nat i * PAGE_SIZE) [0..<(unat e - unat a + 4095) div 4096]"

definition buddy_init :: "u64 \<Rightarrow> u64 \<Rightarrow> u64 \<Rightarrow> 'a buddy_scheme \<Rightarrow> 'a buddy_scheme option" where
  "buddy_init hvas hvaf hvae s = do {
     let virt = hvas;
     let sz = hvae - virt;
     let s = s\<lparr>mem_base := align_dn virt (2 ^ (PTE_BPL + PAGE_BITS))\<rparr>;
     let s = s\<lparr>min_idx := page_to_index s virt\<rparr>;
     let s = s\<lparr>max_idx := page_to_index s (virt + (sz div (PAGE_SIZE + SIZEOF_BLOCK)) * PAGE_SIZE)\<rparr>;
     let s = s\<lparr>blk_base := virt + sz - of_nat (max_idx s) * SIZEOF_BLOCK\<rparr>;
     foldM buddy_free (pages_between hvaf (index_to_page s (max_idx s))) s
   }"

section \<open>The allocator invariant\<close>

text \<open>
  A block is a pair of first index and order and covers \<open>span\<close>. The pool is tiled by the free
  blocks (on the freelists), the allocated blocks \<open>A\<close> and, inside an operation, the block \<open>X\<close> in
  the hands of the operation. The entries inside a block keep the orders and tags of the halves
  it was built from (\<open>inner\<close>), which the splitting loop of \<open>alloc\<close> relies on.
\<close>

fun span :: "nat \<times> nat \<Rightarrow> nat set" where
  "span (b, k) = {b..<b + 2 ^ k}"

declare span.simps [simp del]

definition tiles :: "(nat \<times> nat) set \<Rightarrow> nat \<Rightarrow> nat \<Rightarrow> bool" where
  "tiles S lo hi \<longleftrightarrow> (\<forall>x\<in>S. \<forall>y\<in>S. x \<noteq> y \<longrightarrow> span x \<inter> span y = {}) \<and> \<Union> (span ` S) = {lo..<hi}"

fun inner :: "(nat \<Rightarrow> block) \<Rightarrow> nat \<Rightarrow> nat \<Rightarrow> bool" where
  "inner f b 0 \<longleftrightarrow> True"
| "inner f b (Suc k) \<longleftrightarrow> f (b + 2 ^ k) = \<lparr>b_ord = k, b_tag = FREE\<rparr> \<and> inner f b k \<and> inner f (b + 2 ^ k) k"

definition body :: "'a buddy_scheme \<Rightarrow> nat \<times> nat \<Rightarrow> bool" where
  "body s = (\<lambda>(b, k). k < orders \<and> 2 ^ k dvd b \<and> min_idx s \<le> b \<and> b + 2 ^ k \<le> max_idx s \<and> inner (blk s) b k)"

definition headed :: "'a buddy_scheme \<Rightarrow> tag \<Rightarrow> nat \<times> nat \<Rightarrow> bool" where
  "headed s t = (\<lambda>(b, k). blk s b = \<lparr>b_ord = k, b_tag = t\<rparr>)"

definition free_blocks :: "'a buddy_scheme \<Rightarrow> (nat \<times> nat) set" where
  "free_blocks s = {(b, k). k < orders \<and> b \<in> set (freelist s k)}"

definition free_idx :: "'a buddy_scheme \<Rightarrow> nat set" where
  "free_idx s = \<Union> (span ` free_blocks s)"

definition coalesced :: "(nat \<times> nat) set \<Rightarrow> bool" where
  "coalesced F \<longleftrightarrow> (\<forall>(b, k)\<in>F. k < orders - 1 \<longrightarrow> (b XOR 2 ^ k, k) \<notin> F)"

definition geometry :: "'a buddy_scheme \<Rightarrow> bool" where
  "geometry s \<longleftrightarrow> unat (mem_base s) + max_idx s * 4096 \<le> 2 ^ 64 \<and> 4096 dvd unat (mem_base s) \<and> 0 < unat (mem_base s)"

definition binv :: "'a buddy_scheme \<Rightarrow> (nat \<times> nat) set \<Rightarrow> (nat \<times> nat) set \<Rightarrow> bool" where
  "binv s A X \<longleftrightarrow>
     (\<forall>k<orders. distinct (freelist s k)) \<and>
     (\<forall>x\<in>free_blocks s. body s x \<and> headed s FREE x) \<and>
     (\<forall>x\<in>A. body s x \<and> headed s USED x) \<and>
     (\<forall>x\<in>X. body s x) \<and>
     (\<forall>x\<in>X. x \<notin> free_blocks s \<and> x \<notin> A) \<and>
     tiles (free_blocks s \<union> A \<union> X) (min_idx s) (max_idx s) \<and>
     coalesced (free_blocks s) \<and>
     distinct (waitlist s) \<and> set (waitlist s) \<subseteq> fst ` A \<and>
     geometry s"

definition buddy_inv :: "'a buddy_scheme \<Rightarrow> (nat \<times> nat) set \<Rightarrow> bool" where
  "buddy_inv s A \<longleftrightarrow> binv s A {}"

subsection \<open>Spans and tilings\<close>

lemma span_ne: "span x \<noteq> {}"
  by (cases x) (simp add: span.simps)

lemma span_Suc: "span (b, Suc k) = span (b, k) \<union> span (b + 2 ^ k, k)"
  by (auto simp: span.simps)

lemma span_halves: "span (b, k) \<inter> span (b + 2 ^ k, k) = {}"
  by (auto simp: span.simps)

lemma fst_in_span: "fst x \<in> span x"
  by (cases x) (simp add: span.simps)

lemma span_mono: "j \<le> k \<Longrightarrow> span (b, j) \<subseteq> span (b, k)"
  by (auto simp: span.simps intro: order_less_le_trans)

lemma tiles_disjoint: "tiles S lo hi \<Longrightarrow> x \<in> S \<Longrightarrow> y \<in> S \<Longrightarrow> i \<in> span x \<Longrightarrow> i \<in> span y \<Longrightarrow> x = y"
  by (auto simp: tiles_def)

lemma tiles_cover: "tiles S lo hi \<Longrightarrow> lo \<le> i \<Longrightarrow> i < hi \<Longrightarrow> \<exists>x\<in>S. i \<in> span x"
  by (auto simp: tiles_def set_eq_iff)

definition disj :: "(nat \<times> nat) set \<Rightarrow> bool" where
  "disj S \<longleftrightarrow> (\<forall>x\<in>S. \<forall>y\<in>S. x \<noteq> y \<longrightarrow> span x \<inter> span y = {})"

lemma disj_insert: "disj (insert a S) \<longleftrightarrow> disj S \<and> (\<forall>x\<in>S. x \<noteq> a \<longrightarrow> span a \<inter> span x = {})"
  unfolding disj_def by (metis Int_commute insert_iff)

lemma tiles_disj: "tiles S lo hi \<longleftrightarrow> disj S \<and> \<Union> (span ` S) = {lo..<hi}"
  by (simp add: tiles_def disj_def)

lemma tiles_split:
  assumes "tiles (insert (b, Suc k) S) lo hi" "(b, Suc k) \<notin> S"
  shows "tiles (insert (b, k) (insert (b + 2 ^ k, k) S)) lo hi"
proof -
  have d: "disj S" "\<forall>x\<in>S. span (b, Suc k) \<inter> span x = {}"
    and u: "span (b, Suc k) \<union> \<Union> (span ` S) = {lo..<hi}"
    using assms by (auto simp: tiles_disj disj_insert)
  from d(2) have "\<forall>x\<in>S. span (b, k) \<inter> span x = {} \<and> span (b + 2 ^ k, k) \<inter> span x = {}"
    unfolding span_Suc by (simp add: Int_Un_distrib2)
  then have "disj (insert (b, k) (insert (b + 2 ^ k, k) S))"
    using d(1) span_halves [of b k] by (simp add: disj_insert)
  moreover have "\<Union> (span ` insert (b, k) (insert (b + 2 ^ k, k) S)) = {lo..<hi}"
    using u unfolding span_Suc by (simp add: Un_assoc)
  ultimately show ?thesis by (simp add: tiles_disj)
qed

lemma tiles_merge:
  assumes "tiles (insert (b, k) (insert (b + 2 ^ k, k) S)) lo hi" "(b, k) \<notin> S" "(b + 2 ^ k, k) \<notin> S"
  shows "tiles (insert (b, Suc k) S) lo hi"
proof -
  have d: "disj S" "\<forall>x\<in>S. span (b, k) \<inter> span x = {}" "\<forall>x\<in>S. span (b + 2 ^ k, k) \<inter> span x = {}"
    and u: "span (b, k) \<union> (span (b + 2 ^ k, k) \<union> \<Union> (span ` S)) = {lo..<hi}"
    using assms by (auto simp: tiles_disj disj_insert)
  have "\<forall>x\<in>S. span (b, Suc k) \<inter> span x = {}"
    using d(2,3) unfolding span_Suc by (simp add: Int_Un_distrib2)
  then have "disj (insert (b, Suc k) S)"
    using d(1) by (simp add: disj_insert)
  moreover have "\<Union> (span ` insert (b, Suc k) S) = {lo..<hi}"
    using u unfolding image_insert Union_insert span_Suc Un_assoc .
  ultimately show ?thesis by (simp add: tiles_disj)
qed

lemma inner_cong:
  assumes "\<And>i. b < i \<Longrightarrow> i < b + 2 ^ k \<Longrightarrow> f i = g i"
  shows "inner f b k = inner g b k"
  using assms
proof (induction k arbitrary: b)
  case (Suc k)
  have "inner f b k = inner g b k" "inner f (b + 2 ^ k) k = inner g (b + 2 ^ k) k"
    using Suc.prems by (auto intro!: Suc.IH)
  moreover have "f (b + 2 ^ k) = g (b + 2 ^ k)" using Suc.prems by simp
  ultimately show ?case by simp
qed simp

subsection \<open>Frame rules\<close>

text \<open>Changing the entry of one block leaves every disjoint block alone.\<close>

lemma body_blk_upd:
  assumes "b \<notin> span x \<or> b = fst x"
  shows "body (s\<lparr>blk := (blk s)(b := v)\<rparr>) x \<longleftrightarrow> body s x"
proof -
  obtain c k where x: "x = (c, k)" by (cases x)
  have "inner ((blk s)(b := v)) c k = inner (blk s) c k"
    using assms x by (intro inner_cong) (auto simp: span.simps)
  then show ?thesis by (simp add: body_def x)
qed

lemma headed_blk_upd:
  "headed (s\<lparr>blk := (blk s)(b := v)\<rparr>) t x \<longleftrightarrow> (if b = fst x then v = \<lparr>b_ord = snd x, b_tag = t\<rparr> else headed s t x)"
  by (cases x) (auto simp: headed_def)

lemma frame_simps [simp]:
  "body (s\<lparr>freelist := f\<rparr>) x = body s x" "body (s\<lparr>waitlist := w\<rparr>) x = body s x" "body (s\<lparr>mem := m\<rparr>) x = body s x"
  "headed (s\<lparr>freelist := f\<rparr>) t x = headed s t x" "headed (s\<lparr>waitlist := w\<rparr>) t x = headed s t x"
  "headed (s\<lparr>mem := m\<rparr>) t x = headed s t x"
  "geometry (s\<lparr>freelist := f\<rparr>) = geometry s" "geometry (s\<lparr>waitlist := w\<rparr>) = geometry s"
  "geometry (s\<lparr>mem := m\<rparr>) = geometry s" "geometry (s\<lparr>blk := f'\<rparr>) = geometry s"
  "free_blocks (s\<lparr>waitlist := w\<rparr>) = free_blocks s" "free_blocks (s\<lparr>mem := m\<rparr>) = free_blocks s"
  "free_blocks (s\<lparr>blk := f'\<rparr>) = free_blocks s"
  by (simp_all add: body_def headed_def geometry_def free_blocks_def split: prod.splits)

lemma binv_mem [simp]: "binv (s\<lparr>mem := m\<rparr>) A X = binv s A X"
  by (simp add: binv_def)

text \<open>Elementary facts of the invariant.\<close>

lemma binvD:
  assumes "binv s A X"
  shows "k < orders \<Longrightarrow> distinct (freelist s k)"
    and "x \<in> free_blocks s \<Longrightarrow> body s x" "x \<in> free_blocks s \<Longrightarrow> headed s FREE x"
    and "x \<in> A \<Longrightarrow> body s x" "x \<in> A \<Longrightarrow> headed s USED x"
    and "x \<in> X \<Longrightarrow> body s x" "x \<in> X \<Longrightarrow> x \<notin> free_blocks s" "x \<in> X \<Longrightarrow> x \<notin> A"
    and "tiles (free_blocks s \<union> A \<union> X) (min_idx s) (max_idx s)"
    and "coalesced (free_blocks s)" and "distinct (waitlist s)" "set (waitlist s) \<subseteq> fst ` A"
    and "geometry s"
  using assms by (auto simp: binv_def)

lemma binv_free_used: "binv s A X \<Longrightarrow> x \<in> free_blocks s \<Longrightarrow> x \<notin> A"
  using binvD(3,5) [of s A X x] by (cases x) (auto simp: headed_def)

text \<open>Two blocks of the tiling that share an index are the same block.\<close>

lemma binv_same:
  assumes "binv s A X" "x \<in> free_blocks s \<union> A \<union> X" "y \<in> free_blocks s \<union> A \<union> X" "i \<in> span x" "i \<in> span y"
  shows "x = y"
  using assms tiles_disjoint [OF binvD(9)] by blast

lemma binv_not_queued:
  assumes "binv s A {x}"
  shows "\<not> blk_queued s (fst x)"
proof
  assume "blk_queued s (fst x)"
  then consider "fst x \<in> set (waitlist s)" | k where "k < orders" "fst x \<in> set (freelist s k)"
    by (auto simp: blk_queued_def)
  then obtain y where "y \<in> free_blocks s \<union> A" "fst y = fst x"
    using binvD(12) [OF assms] by cases (force simp: free_blocks_def)+
  then have "y = x"
    using binv_same [OF assms, of y x "fst x"] fst_in_span [of x] fst_in_span [of y] by auto
  with \<open>y \<in> free_blocks s \<union> A\<close> binvD(7,8) [OF assms, of x] show False by auto
qed

lemma xor_pow2_swap: "(c :: nat) XOR 2 ^ k = u \<longleftrightarrow> c = u XOR 2 ^ k"
  by (metis xor.assoc xor.right_neutral xor_self_eq)

lemma xor_pow2_neq: "(c :: nat) XOR 2 ^ k \<noteq> c"
  by (metis power_not_zero xor.assoc xor.left_neutral xor_self_eq zero_neq_numeral)

lemma coalesced_insert:
  assumes "coalesced F" "k < orders - 1 \<Longrightarrow> (u XOR 2 ^ k, k) \<notin> F"
  shows "coalesced (insert (u, k) F)"
  using assms xor_pow2_neq [of u k] by (auto simp: coalesced_def xor_pow2_swap)

subsection \<open>Taking a block from and putting a block onto a freelist\<close>

lemma free_blocks_upd:
  "k < orders \<Longrightarrow> free_blocks (s\<lparr>freelist := (freelist s)(k := q)\<rparr>) =
     {(b, j) \<in> free_blocks s. j \<noteq> k} \<union> (\<lambda>b. (b, k)) ` set q"
  by (auto simp: free_blocks_def)

lemma binv_take:
  assumes "binv s A X" "k < orders" "b \<in> set (freelist s k)"
    and "s' = s\<lparr>freelist := (freelist s)(k := remove1 b (freelist s k))\<rparr>"
  shows "binv s' A (insert (b, k) X)" and "free_blocks s' = free_blocks s - {(b, k)}"
proof -
  have d: "distinct (freelist s k)" using binvD(1) [OF assms(1,2)] .
  show F: "free_blocks s' = free_blocks s - {(b, k)}"
    using d assms(2,4) by (auto simp: free_blocks_def)
  have x: "(b, k) \<in> free_blocks s" using assms(2,3) by (simp add: free_blocks_def)
  have "free_blocks s - {(b, k)} \<union> A \<union> insert (b, k) X = free_blocks s \<union> A \<union> X" using x by auto
  moreover have "coalesced (free_blocks s - {(b, k)})"
    using binvD(10) [OF assms(1)] by (auto simp: coalesced_def)
  moreover have "\<forall>j<orders. distinct (freelist s' j)" using binvD(1) [OF assms(1)] assms(4) by simp
  ultimately show "binv s' A (insert (b, k) X)"
    using assms(1,4) x binv_free_used [OF assms(1) x] unfolding binv_def F by simp
qed

lemma binv_put:
  assumes "binv s A {(b, k)}" "headed s FREE (b, k)" "k < orders - 1 \<Longrightarrow> (b XOR 2 ^ k, k) \<notin> free_blocks s"
    and "s' = s\<lparr>freelist := (freelist s)(k := b # freelist s k)\<rparr>"
  shows "freelist_enqueue b s = Some s'"
    and "binv s' A {}"
    and "free_blocks s' = insert (b, k) (free_blocks s)"
proof -
  have k: "k < orders" using binvD(6) [OF assms(1)] by (simp add: body_def)
  have nq: "\<not> blk_queued s b" using binv_not_queued [OF assms(1)] by simp
  then show "freelist_enqueue b s = Some s'"
    using assms(2,4) by (simp add: freelist_enqueue_def headed_def)
  show F: "free_blocks s' = insert (b, k) (free_blocks s)"
    using k assms(4) by (auto simp: free_blocks_def)
  have "\<forall>j<orders. distinct (freelist s' j)"
    using binvD(1) [OF assms(1)] nq k assms(4) by (auto simp: blk_queued_def)
  moreover have "coalesced (insert (b, k) (free_blocks s))"
    using assms(3) by (rule coalesced_insert [OF binvD(10) [OF assms(1)]])
  ultimately show "binv s' A {}"
    using assms(1,2,4) unfolding binv_def F by (auto simp: insert_commute)
qed

subsection \<open>Allocation\<close>

text \<open>One step of the splitting loop: the upper half becomes a free block.\<close>

lemma binv_split_step:
  assumes "binv s A {(b, Suc k)}"
  obtains s' where "b_ord (blk s (b + 2 ^ k)) = k" "freelist_enqueue (b + 2 ^ k) s = Some s'"
    "binv s' A {(b, k)}" "free_blocks s' = insert (b + 2 ^ k, k) (free_blocks s)"
    "blk s' = blk s" "mem_base s' = mem_base s" "waitlist s' = waitlist s"
    "s' = s\<lparr>freelist := freelist s'\<rparr>"
proof -
  let ?u = "b + 2 ^ k"
  have bd: "body s (b, Suc k)" using binvD(6) [OF assms] by simp
  then have u: "headed s FREE (?u, k)" "body s (?u, k)" "body s (b, k)" "2 ^ Suc k dvd b" "k < orders"
    by (auto simp: body_def headed_def elim!: dvdE)
  have ne: "(b, Suc k) \<notin> free_blocks s \<union> A" using binvD(7,8) [OF assms] by auto
  have t: "tiles (insert (b, Suc k) (free_blocks s \<union> A)) (min_idx s) (max_idx s)"
    using binvD(9) [OF assms] by simp
  note t' = tiles_split [OF t ne]
  have fresh: "x \<notin> free_blocks s \<union> A" if "x = (b, k) \<or> x = (?u, k)" for x
  proof
    assume x: "x \<in> free_blocks s \<union> A"
    have "fst x \<in> span (b, Suc k)" using that by (auto simp: span.simps)
    then have "x = (b, Suc k)" using binv_same [OF assms, of x "(b, Suc k)" "fst x"] x fst_in_span by auto
    with ne x show False by simp
  qed
  let ?s = "s\<lparr>freelist := (freelist s)(k := ?u # freelist s k)\<rparr>"
  have F: "free_blocks ?s = insert (?u, k) (free_blocks s)" using u(5) by (auto simp: free_blocks_def)
  have nw: "?u \<notin> set (waitlist s)" "j < orders \<Longrightarrow> ?u \<notin> set (freelist s j)" for j
  proof -
    have *: "x \<in> free_blocks s \<union> A \<Longrightarrow> fst x \<noteq> ?u" for x
      using binv_same [OF assms, of x "(b, Suc k)" ?u] fst_in_span [of x] ne by (auto simp: span.simps)
    show "?u \<notin> set (waitlist s)" using * binvD(12) [OF assms] by fastforce
    show "j < orders \<Longrightarrow> ?u \<notin> set (freelist s j)" using * [of "(?u, j)"] by (auto simp: free_blocks_def)
  qed
  have q: "freelist_enqueue ?u s = Some ?s"
    using u(1) nw by (auto simp: freelist_enqueue_def blk_queued_def headed_def)
  have bx: "?u XOR 2 ^ k = b" using xor_pow2_even [OF u(4)] by (metis xor.assoc xor.right_neutral xor_self_eq)
  have "coalesced (insert (?u, k) (free_blocks s))"
    using fresh [of "(b, k)"] bx by (intro coalesced_insert [OF binvD(10) [OF assms]]) simp
  then have "binv ?s A {(b, k)}"
    using assms u fresh t' binvD(1) [OF assms] nw unfolding binv_def F
    by (auto simp: insert_commute Un_assoc)
  with F q u(1) show ?thesis by (intro that [of ?s]) (auto simp: headed_def)
qed

lemma split_block_spec:
  assumes "binv s A {(b, k)}" "ord \<le> k"
  obtains s' where "split_block ord k b s = Some s'" "binv s' A {(b, ord)}" "s' = s\<lparr>freelist := freelist s'\<rparr>"
    "free_idx s' = free_idx s \<union> (span (b, k) - span (b, ord))"
  using assms
proof (induction k arbitrary: s thesis)
  case 0
  then show ?case by simp
next
  case (Suc k)
  show ?case
  proof (cases "Suc k = ord")
    case True
    with Suc.prems(2) show ?thesis by (intro Suc.prems(1) [of s]) auto
  next
    case False
    from binv_split_step [OF Suc.prems(2)] obtain s1 where
      s1: "b_ord (blk s (b + 2 ^ k)) = k" "freelist_enqueue (b + 2 ^ k) s = Some s1"
      "binv s1 A {(b, k)}" "free_blocks s1 = insert (b + 2 ^ k, k) (free_blocks s)" "s1 = s\<lparr>freelist := freelist s1\<rparr>"
      by blast
    from False Suc.prems have "ord \<le> k" by simp
    from Suc.IH [OF _ s1(3) this] obtain s2 where
      s2: "split_block ord k b s1 = Some s2" "binv s2 A {(b, ord)}" "s2 = s1\<lparr>freelist := freelist s2\<rparr>"
      "free_idx s2 = free_idx s1 \<union> (span (b, k) - span (b, ord))" by blast
    have "free_idx s1 = span (b + 2 ^ k, k) \<union> free_idx s" by (simp add: free_idx_def s1(4))
    moreover have "span (b, ord) \<subseteq> span (b, k)" using \<open>ord \<le> k\<close> by (rule span_mono)
    ultimately have "free_idx s2 = free_idx s \<union> (span (b, Suc k) - span (b, ord))"
      using span_halves [of b k] unfolding span_Suc s2(4) by blast
    moreover obtain f1 f2 where "s1 = s\<lparr>freelist := f1\<rparr>" "s2 = s1\<lparr>freelist := f2\<rparr>" using s1(5) s2(3) by blast
    then have "s2 = s\<lparr>freelist := freelist s2\<rparr>" by simp
    ultimately show ?thesis using s1(1,2) s2(1,2) False by (intro Suc.prems(1) [of s2]) auto
  qed
qed

lemma binv_alloc:
  assumes "binv s A {(b, k)}" "s' = s\<lparr>blk := (blk s)(b := \<lparr>b_ord = k, b_tag = USED\<rparr>)\<rparr>"
  shows "binv s' (insert (b, k) A) {}"
proof -
  have other: "b \<notin> span x" if "x \<in> free_blocks s \<union> A" for x
    using binv_same [OF assms(1), of x "(b, k)" b] that binvD(7,8) [OF assms(1), of "(b, k)"]
      fst_in_span [of "(b, k)"] by auto
  have "body s' x = body s x" if "x \<in> insert (b, k) (free_blocks s \<union> A)" for x
    unfolding assms(2) using that other [of x] by (intro body_blk_upd) auto
  moreover have "headed s' t x = headed s t x" if "x \<in> free_blocks s \<union> A" for x t
    using other [OF that] fst_in_span [of x] unfolding assms(2) headed_blk_upd by auto
  moreover have "headed s' USED (b, k)" by (simp add: assms(2) headed_def)
  ultimately show ?thesis
    using assms(1) unfolding binv_def by (auto simp: assms(2))
qed

lemma fill_block_frame:
  "fill_block f p ord s = s\<lparr>mem := mem (fill_block f p ord s)\<rparr>"
  by (simp add: fill_block_def)

lemma free_idx_frame [simp]:
  "free_idx (s\<lparr>mem := m\<rparr>) = free_idx s" "free_idx (s\<lparr>blk := f\<rparr>) = free_idx s" "free_idx (s\<lparr>waitlist := w\<rparr>) = free_idx s"
  by (simp_all add: free_idx_def)

text \<open>What an operation of the allocator leaves alone.\<close>

definition same_pool :: "'a buddy_scheme \<Rightarrow> 'a buddy_scheme \<Rightarrow> bool" where
  "same_pool s s' \<longleftrightarrow> min_idx s' = min_idx s \<and> max_idx s' = max_idx s \<and> mem_base s' = mem_base s \<and>
     blk_base s' = blk_base s \<and> buddy.more s' = buddy.more s"

lemma same_pool_refl [simp]: "same_pool s s"
  and same_pool_trans: "same_pool s t \<Longrightarrow> same_pool t u \<Longrightarrow> same_pool s u"
  by (auto simp: same_pool_def)

lemma same_pool_page: "same_pool s s' \<Longrightarrow> index_to_page s' = index_to_page s"
  by (rule ext) (simp add: same_pool_def index_to_page_def)

text \<open>What a successful allocation of order \<open>ord\<close> guarantees.\<close>

definition alloc_ok :: "nat \<Rightarrow> (nat \<times> nat) set \<Rightarrow> 'a buddy_scheme \<Rightarrow> nat \<Rightarrow> 'a buddy_scheme \<Rightarrow> bool" where
  "alloc_ok ord A s b s' \<longleftrightarrow> buddy_inv s' (insert (b, ord) A) \<and> span (b, ord) \<subseteq> free_idx s \<and>
     free_idx s' = free_idx s - span (b, ord) \<and> same_pool s s' \<and> waitlist s' = waitlist s"

lemma binv_X_not_free:
  assumes "binv s A {x}" shows "span x \<inter> free_idx s = {}"
  using binv_same [OF assms, of _ x] binvD(7) [OF assms, of x] by (auto simp: free_idx_def)

lemma alloc_from_spec:
  assumes "buddy_inv s A" "ord \<le> k" "\<forall>j. ord \<le> j \<and> j < k \<longrightarrow> freelist s j = []"
  shows "(\<exists>b s'. alloc_from ord f k s = Some (Some (index_to_page s b), s') \<and> alloc_ok ord A s b s') \<or>
         (alloc_from ord f k s = Some (None, s) \<and> (\<forall>j. ord \<le> j \<and> j < orders \<longrightarrow> freelist s j = []))"
  using assms
proof (induction "orders - k" arbitrary: k)
  case 0
  then show ?case by (auto simp: alloc_from.simps [of ord f k s])
next
  case (Suc n)
  then have k: "k < orders" by simp
  show ?case
  proof (cases "freelist s k")
    case Nil
    then have "freelist_dequeue_head k s = Some (None, s)"
      by (simp add: freelist_dequeue_head_def lq_dequeue_head_def fun_upd_idem)
    then have e: "alloc_from ord f k s = alloc_from ord f (Suc k) s"
      using k by (simp add: alloc_from.simps [of ord f k s])
    have "\<forall>j. ord \<le> j \<and> j < Suc k \<longrightarrow> freelist s j = []"
      using Suc.prems(3) Nil by (auto simp: less_Suc_eq)
    then show ?thesis unfolding e using Suc.hyps Suc.prems by simp
  next
    case (Cons b q)
    let ?s1 = "s\<lparr>freelist := (freelist s)(k := q)\<rparr>"
    have d: "freelist_dequeue_head k s = Some (Some b, ?s1)"
      by (simp add: freelist_dequeue_head_def lq_dequeue_head_def Cons)
    have s1: "binv ?s1 A {(b, k)}" "free_blocks ?s1 = free_blocks s - {(b, k)}"
      using binv_take [of s A "{}" k b ?s1] Suc.prems(1) k Cons by (auto simp: buddy_inv_def)
    have m: "(b, k) \<in> free_blocks s" using k Cons by (auto simp: free_blocks_def)
    from split_block_spec [OF s1(1) Suc.prems(2)] obtain s2 where
      s2: "split_block ord k b ?s1 = Some s2" "binv s2 A {(b, ord)}" "s2 = ?s1\<lparr>freelist := freelist s2\<rparr>"
      "free_idx s2 = free_idx ?s1 \<union> (span (b, k) - span (b, ord))" by blast
    let ?s3 = "s2\<lparr>blk := (blk s2)(b := \<lparr>b_ord = ord, b_tag = USED\<rparr>)\<rparr>"
    let ?s4 = "fill_block f (index_to_page ?s3 b) ord ?s3"
    have s3: "binv ?s3 (insert (b, ord) A) {}" using binv_alloc [OF s2(2)] by simp
    have s4: "?s4 = ?s3\<lparr>mem := mem ?s4\<rparr>" by (rule fill_block_frame)
    have i3: "buddy_inv ?s4 (insert (b, ord) A)" using s3 by (subst s4) (simp add: buddy_inv_def)
    have sub: "span (b, ord) \<subseteq> span (b, k)" using Suc.prems(2) by (rule span_mono)
    have "free_idx s = free_idx ?s1 \<union> span (b, k)" "free_idx ?s1 \<inter> span (b, k) = {}"
      using m s1(2) binv_X_not_free [OF s1(1)] unfolding free_idx_def by blast+
    with s2(4) sub have "free_idx s2 = free_idx s - span (b, ord)" "span (b, ord) \<subseteq> free_idx s" by auto
    moreover have "same_pool s ?s4" "waitlist ?s4 = waitlist s"
      by (subst s4, subst s2(3), simp add: same_pool_def)+
    moreover have "free_idx ?s4 = free_idx s2" by (subst s4) simp
    ultimately have "alloc_ok ord A s b ?s4" using i3 by (simp add: alloc_ok_def)
    moreover have "index_to_page ?s3 b = index_to_page s b"
      by (subst s2(3)) (simp add: index_to_page_def)
    ultimately show ?thesis
      using d s2(1) k by (auto simp: alloc_from.simps [of ord f k s] Let_def)
  qed
qed

text \<open>Allocation either returns a block that was free, or the pool has no block that is large enough.\<close>

lemma buddy_alloc_spec:
  assumes "buddy_inv s A"
  shows "(\<exists>b s'. buddy_alloc ord f s = Some (Some (index_to_page s b), s') \<and> alloc_ok ord A s b s') \<or>
         (buddy_alloc ord f s = Some (None, s) \<and> (\<forall>j. ord \<le> j \<and> j < orders \<longrightarrow> freelist s j = []))"
  unfolding buddy_alloc_def by (rule alloc_from_spec [OF assms]) auto

subsection \<open>Coalescing\<close>

text \<open>The heart of the merging loop: a valid buddy entry that is tagged free with the same order
  is the head of a free block of that order.\<close>

lemma aligned_same:
  fixes c d :: nat
  assumes "2 ^ j dvd c" "2 ^ p dvd d" "p \<le> j" "c \<in> span (d, p)"
  shows "c = d"
proof -
  have "2 ^ p dvd c" using assms(1,3) by (meson dvd_trans le_imp_power_dvd)
  then obtain x y where "c = 2 ^ p * x" "d = 2 ^ p * y" using assms(2) by (auto elim!: dvdE)
  with assms(4) have "2 ^ p * y \<le> 2 ^ p * x" "2 ^ p * x < 2 ^ p * Suc y" by (auto simp: span.simps)
  then have "y \<le> x" "x < Suc y" by (simp_all only: mult_le_cancel1 mult_less_cancel1)
  with \<open>c = 2 ^ p * x\<close> \<open>d = 2 ^ p * y\<close> show ?thesis by simp
qed

lemma buddy_in_aligned:
  fixes b d :: nat
  assumes "2 ^ k dvd b" "2 ^ p dvd d" "k < p" "b XOR 2 ^ k \<in> span (d, p)"
  shows "b \<in> span (d, p)"
proof -
  let ?m = "if 2 ^ Suc k dvd b then b else b - 2 ^ k"
  have m: "2 ^ Suc k dvd ?m" "b = ?m \<or> b = ?m + 2 ^ k" "b XOR 2 ^ k = ?m \<or> b XOR 2 ^ k = ?m + 2 ^ k"
    using xor_pow2_even [of k b] xor_pow2_odd [OF assms(1)] by auto
  have "2 ^ Suc k dvd d" using assms(2,3) by (meson Suc_leI dvd_trans le_imp_power_dvd)
  then obtain x y where xy: "?m = 2 ^ Suc k * x" "d = 2 ^ Suc k * y" using m(1) by (auto elim!: dvdE)
  obtain r where r: "p = Suc k + r" using assms(3) by (metis Suc_leI le_iff_add)
  have "0 < (2 :: nat) ^ k" by simp
  with assms(4) m(3) have "?m + 2 ^ Suc k > d" "?m < d + 2 ^ p"
    unfolding span.simps power_Suc atLeastLessThan_iff by linarith+
  then have "2 ^ Suc k * Suc x > 2 ^ Suc k * y" "2 ^ Suc k * x < 2 ^ Suc k * (y + 2 ^ r)"
    unfolding xy r by (simp_all add: algebra_simps power_add)
  then have "y \<le> x" "Suc x \<le> y + 2 ^ r" by (simp_all only: mult_less_cancel1) auto
  then have "2 ^ Suc k * y \<le> 2 ^ Suc k * x" "2 ^ Suc k * Suc x \<le> 2 ^ Suc k * (y + 2 ^ r)"
    by (simp_all only: mult_le_mono2)
  then have "d \<le> ?m" "?m + 2 ^ Suc k \<le> d + 2 ^ p" unfolding xy r by (simp_all add: algebra_simps power_add)
  with m(2) \<open>0 < 2 ^ k\<close> show ?thesis unfolding span.simps power_Suc atLeastLessThan_iff by linarith
qed

lemma buddy_is_free:
  assumes "binv s A {(b, k)}" "is_valid s (b XOR 2 ^ k)" "headed s FREE (b XOR 2 ^ k, k)"
  shows "(b XOR 2 ^ k, k) \<in> free_blocks s"
proof -
  let ?c = "b XOR 2 ^ k"
  have b: "2 ^ k dvd b" using binvD(6) [OF assms(1)] by (simp add: body_def)
  then have c: "2 ^ k dvd ?c" using xor_pow2_even [of k b] xor_pow2_odd [OF b]
    by (cases "2 ^ Suc k dvd b") (auto simp: dvd_diff_nat)
  obtain x where "x \<in> free_blocks s \<union> A \<union> {(b, k)}" "?c \<in> span x"
    using tiles_cover [OF binvD(9) [OF assms(1)]] assms(2) unfolding is_valid_def by blast
  then obtain d p where dp: "(d, p) \<in> free_blocks s \<union> A \<union> {(b, k)}" "?c \<in> span (d, p)" by (cases x) simp
  have "body s (d, p)" using dp(1) binvD(2,4,6) [OF assms(1)] by auto
  then have d: "2 ^ p dvd d" by (simp add: body_def)
  have "p \<le> k"
  proof (rule ccontr)
    assume "\<not> p \<le> k"
    then have "b \<in> span (d, p)" using buddy_in_aligned [OF b d _ dp(2)] by simp
    then have "(d, p) = (b, k)"
      using fst_in_span [of "(b, k)"] by (intro binv_same [OF assms(1) dp(1), of "(b, k)" b]) simp_all
    with \<open>\<not> p \<le> k\<close> show False by simp
  qed
  then have cd: "?c = d" using aligned_same [OF c d _ dp(2)] by simp
  then have "(d, p) \<noteq> (b, k)" using xor_pow2_neq [of b k] by auto
  moreover have "(d, p) \<notin> A" using binvD(5) [OF assms(1), of "(d, p)"] assms(3) cd by (auto simp: headed_def)
  ultimately have "(d, p) \<in> free_blocks s" using dp(1) by auto
  moreover then have "p = k" using binvD(3) [OF assms(1), of "(d, p)"] assms(3) cd by (auto simp: headed_def)
  ultimately show ?thesis using cd by simp
qed

lemma binv_join:
  assumes "binv s A {(m, k), (m + 2 ^ k, k)}" "2 ^ Suc k dvd m" "Suc k < orders" "headed s FREE (m + 2 ^ k, k)"
    and "s' = s\<lparr>blk := (blk s)(m := v)\<rparr>"
  shows "binv s' A {(m, Suc k)}"
proof -
  let ?S = "free_blocks s \<union> A"
  have l: "body s (m, k)" and u: "body s (m + 2 ^ k, k)" using binvD(6) [OF assms(1)] by auto
  have nin: "(m, k) \<notin> ?S" "(m + 2 ^ k, k) \<notin> ?S" using binvD(7,8) [OF assms(1)] by auto
  have t: "tiles (insert (m, k) (insert (m + 2 ^ k, k) ?S)) (min_idx s) (max_idx s)"
    using binvD(9) [OF assms(1)] by (simp add: Un_commute)
  note t' = tiles_merge [OF t nin]
  have other: "m \<notin> span x" if "x \<in> ?S" for x
    using binv_same [OF assms(1), of x "(m, k)" m] that nin fst_in_span [of "(m, k)"] by auto
  have "inner (blk s) m (Suc k)" using l u assms(4) by (simp add: body_def headed_def)
  then have "body s (m, Suc k)" using l u assms(2,3) by (simp add: body_def)
  moreover have "body s' x = body s x" if "x \<in> insert (m, Suc k) ?S" for x
    unfolding assms(5) using that other [of x] by (intro body_blk_upd) auto
  moreover have "headed s' t x = headed s t x" if "x \<in> ?S" for x t
    using other [OF that] fst_in_span [of x] unfolding assms(5) headed_blk_upd by auto
  moreover have "(m, Suc k) \<notin> ?S" using other [of "(m, Suc k)"] fst_in_span [of "(m, Suc k)"] by auto
  ultimately show ?thesis
    using assms(1) t' unfolding binv_def by (auto simp: assms(5))
qed

text \<open>What stays the same while the merging loop runs.\<close>

definition same_rest :: "'a buddy_scheme \<Rightarrow> 'a buddy_scheme \<Rightarrow> bool" where
  "same_rest s s' \<longleftrightarrow> same_pool s s' \<and> waitlist s' = waitlist s \<and> mem s' = mem s"

lemma same_rest_trans: "same_rest s t \<Longrightarrow> same_rest t u \<Longrightarrow> same_rest s u"
  by (auto simp: same_rest_def intro: same_pool_trans)

lemma merge_step:
  assumes "binv s A {(b, k)}" "headed s FREE (b, k)" "k < orders - 1"
    and "is_valid s (b XOR 2 ^ k)" "headed s FREE (b XOR 2 ^ k, k)"
    and "m = (if b XOR 2 ^ k < b then b XOR 2 ^ k else b)"
  obtains s1 s2 where "freelist_dequeue (b XOR 2 ^ k) s = Some s1"
    "s2 = s1\<lparr>blk := (blk s1)(m := (blk s1 m)\<lparr>b_ord := Suc k\<rparr>)\<rparr>"
    "binv s2 A {(m, Suc k)}" "headed s2 FREE (m, Suc k)"
    "free_idx s2 \<union> span (m, Suc k) = free_idx s \<union> span (b, k)" "same_rest s s2"
proof -
  let ?c = "b XOR 2 ^ k"
  have cf: "(?c, k) \<in> free_blocks s" using buddy_is_free [OF assms(1,4,5)] .
  then have cl: "?c \<in> set (freelist s k)" by (simp add: free_blocks_def)
  have b: "2 ^ k dvd b" using binvD(6) [OF assms(1)] by (simp add: body_def)
  let ?s1 = "s\<lparr>freelist := (freelist s)(k := remove1 ?c (freelist s k))\<rparr>"
  have dq: "freelist_dequeue ?c s = Some ?s1"
    using cl assms(5) by (simp add: freelist_dequeue_def lq_dequeue_def headed_def)
  have k: "k < orders" using assms(3) by simp
  note s1 = binv_take [OF assms(1) k cl refl]
  have mc: "2 ^ Suc k dvd m" "{(?c, k), (b, k)} = {(m, k), (m + 2 ^ k, k)}"
    by (cases rule: xor_pow2_halves [OF b assms(6)]; simp add: insert_commute)+
  then have hd: "headed ?s1 FREE (m, k)" "headed ?s1 FREE (m + 2 ^ k, k)"
    using assms(2,5) by (auto simp: doubleton_eq_iff)
  let ?s2 = "?s1\<lparr>blk := (blk ?s1)(m := (blk ?s1 m)\<lparr>b_ord := Suc k\<rparr>)\<rparr>"
  have "binv ?s2 A {(m, Suc k)}"
    using s1(1) mc assms(3) hd by (intro binv_join [OF _ _ _ hd(2) refl]) auto
  moreover have "headed ?s2 FREE (m, Suc k)" using hd(1) by (simp add: headed_def)
  moreover have "span (m, Suc k) = span (?c, k) \<union> span (b, k)"
    using mc(2) unfolding span_Suc by (auto simp: doubleton_eq_iff)
  then have "free_idx ?s2 \<union> span (m, Suc k) = free_idx s \<union> span (b, k)"
    using s1(2) cf by (auto simp: free_idx_def)
  moreover have "same_rest s ?s2" by (simp add: same_rest_def same_pool_def)
  ultimately show ?thesis using dq by (intro that [of ?s1 ?s2]) auto
qed

lemma merge_from_spec:
  assumes "binv s A {(b, k)}" "headed s FREE (b, k)"
  shows "\<exists>b' k' s'. merge_from k b s = Some (b', s') \<and> binv s' A {(b', k')} \<and> headed s' FREE (b', k') \<and>
    (k' < orders - 1 \<longrightarrow> (b' XOR 2 ^ k', k') \<notin> free_blocks s') \<and>
    free_idx s' \<union> span (b', k') = free_idx s \<union> span (b, k) \<and> same_rest s s'"
  using assms
proof (induction k b s rule: merge_from.induct)
  case (1 k b s)
  let ?c = "b XOR 2 ^ k"
  show ?case
  proof (cases "k < orders - 1 \<and> is_valid s ?c \<and> b_tag (blk s ?c) = FREE \<and> b_ord (blk s ?c) = k")
    case True
    then have "headed s FREE (?c, k)" by (simp add: headed_def)
    from merge_step [OF "1.prems" _ _ this refl] True obtain s1 s2 where
      s2: "freelist_dequeue ?c s = Some s1"
      "s2 = s1\<lparr>blk := (blk s1)((if ?c < b then ?c else b) := (blk s1 (if ?c < b then ?c else b))\<lparr>b_ord := Suc k\<rparr>)\<rparr>"
      "binv s2 A {(if ?c < b then ?c else b, Suc k)}" "headed s2 FREE (if ?c < b then ?c else b, Suc k)"
      "free_idx s2 \<union> span (if ?c < b then ?c else b, Suc k) = free_idx s \<union> span (b, k)" "same_rest s s2"
      by blast
    have "merge_from k b s = merge_from (Suc k) (if ?c < b then ?c else b) s2"
      using True s2(1,2) by (simp add: merge_from.simps [of k b s] Let_def)
    moreover have "\<exists>b' k' s'. merge_from (Suc k) (if ?c < b then ?c else b) s2 = Some (b', s') \<and> binv s' A {(b', k')} \<and>
      headed s' FREE (b', k') \<and> (k' < orders - 1 \<longrightarrow> (b' XOR 2 ^ k', k') \<notin> free_blocks s') \<and>
      free_idx s' \<union> span (b', k') = free_idx s2 \<union> span (if ?c < b then ?c else b, Suc k) \<and> same_rest s2 s'"
      using True by (intro "1.IH" [OF _ refl _ _ s2(1) refl s2(2) s2(3,4)]) simp_all
    ultimately show ?thesis unfolding s2(5) using same_rest_trans [OF s2(6)] by auto
  next
    case False
    then have "merge_from k b s = Some (b, s)" by (auto simp: merge_from.simps [of k b s] Let_def)
    moreover have "(?c, k) \<notin> free_blocks s" if "k < orders - 1"
    proof
      assume f: "(?c, k) \<in> free_blocks s"
      then have "body s (?c, k)" "headed s FREE (?c, k)" using binvD(2,3) [OF "1.prems"(1)] by auto
      then have "?c + 2 ^ k \<le> max_idx s" "min_idx s \<le> ?c" "blk s ?c = \<lparr>b_ord = k, b_tag = FREE\<rparr>"
        by (auto simp: body_def headed_def)
      with False that show False by (auto simp: is_valid_def intro: less_le_trans [of _ "?c + 2 ^ k"])
    qed
    ultimately show ?thesis using "1.prems" by (auto simp: same_rest_def)
  qed
qed

lemma binv_release:
  assumes "binv s A {}" "(b, k) \<in> A" "b \<notin> set (waitlist s)"
    and "s' = s\<lparr>blk := (blk s)(b := (blk s b)\<lparr>b_tag := FREE\<rparr>)\<rparr>"
  shows "binv s' (A - {(b, k)}) {(b, k)}" "headed s' FREE (b, k)"
proof -
  have h: "headed s USED (b, k)" using binvD(5) [OF assms(1,2)] .
  then show "headed s' FREE (b, k)" by (simp add: assms(4) headed_def)
  have nf: "(b, k) \<notin> free_blocks s" using binv_free_used [OF assms(1)] assms(2) by auto
  have other: "b \<notin> span x" if "x \<in> free_blocks s \<union> (A - {(b, k)})" for x
    using binv_same [OF assms(1), of x "(b, k)" b] that nf assms(2) fst_in_span [of "(b, k)"] by auto
  have bd: "body s' x = body s x" if "x \<in> insert (b, k) (free_blocks s \<union> (A - {(b, k)}))" for x
    unfolding assms(4) using that other [of x] by (intro body_blk_upd) auto
  have hd: "headed s' t x = headed s t x" if "x \<in> free_blocks s \<union> (A - {(b, k)})" for x t
    using other [OF that] fst_in_span [of x] unfolding assms(4) headed_blk_upd by auto
  have eq: "free_blocks s \<union> (A - {(b, k)}) \<union> {(b, k)} = free_blocks s \<union> A \<union> {}" using assms(2) by auto
  have fr: "free_blocks s' = free_blocks s" "waitlist s' = waitlist s" "min_idx s' = min_idx s"
    "max_idx s' = max_idx s" "freelist s' = freelist s" "geometry s' = geometry s" by (simp_all add: assms(4))
  have w: "set (waitlist s) \<subseteq> fst ` (A - {(b, k)})"
    using binvD(12) [OF assms(1)] assms(3) by force
  show "binv s' (A - {(b, k)}) {(b, k)}"
    unfolding binv_def fr eq using binvD [OF assms(1)] bd hd nf w assms(2) by simp
qed

lemma coalesce_spec:
  assumes "buddy_inv s A" "(b, k) \<in> A" "b \<notin> set (waitlist s)"
  shows "\<exists>s'. coalesce b s = Some s' \<and> buddy_inv s' (A - {(b, k)}) \<and>
    free_idx s' = free_idx s \<union> span (b, k) \<and> same_rest s s'"
proof -
  have i: "binv s A {}" using assms(1) by (simp add: buddy_inv_def)
  let ?s1 = "s\<lparr>blk := (blk s)(b := (blk s b)\<lparr>b_tag := FREE\<rparr>)\<rparr>"
  have h: "blk s b = \<lparr>b_ord = k, b_tag = USED\<rparr>" using binvD(5) [OF i assms(2)] by (simp add: headed_def)
  note r = binv_release [OF i assms(2,3) refl]
  from merge_from_spec [OF r] obtain b' k' s2 where
    m: "merge_from k b ?s1 = Some (b', s2)" "binv s2 (A - {(b, k)}) {(b', k')}" "headed s2 FREE (b', k')"
    "k' < orders - 1 \<longrightarrow> (b' XOR 2 ^ k', k') \<notin> free_blocks s2"
    "free_idx s2 \<union> span (b', k') = free_idx ?s1 \<union> span (b, k)" "same_rest ?s1 s2" by blast
  note p = binv_put [OF m(2,3) _ refl] m(4)
  let ?s3 = "s2\<lparr>freelist := (freelist s2)(k' := b' # freelist s2 k')\<rparr>"
  have "coalesce b s = Some ?s3" using h m(1) p by (simp add: coalesce_def Let_def)
  moreover have "buddy_inv ?s3 (A - {(b, k)})" using p by (simp add: buddy_inv_def)
  moreover have "free_idx ?s3 = free_idx s \<union> span (b, k)" using p m(5) by (simp add: free_idx_def Un_commute)
  moreover have "same_rest s ?s3" using m(6) by (simp add: same_rest_def same_pool_def)
  ultimately show ?thesis by blast
qed

subsection \<open>Pages and indices\<close>

lemma index_to_page_unat:
  assumes "geometry s" "x < max_idx s"
  shows "unat (index_to_page s x) = unat (mem_base s) + x * 4096"
proof -
  have "unat (mem_base s) + x * 4096 < 2 ^ 64" using assms by (simp add: geometry_def)
  then show ?thesis unfolding index_to_page_def
    by (simp add: unat_word_ariths unat_of_nat mod_simps take_bit_nat_eq_self_iff mod_less)
qed

lemma page_to_index_to_page:
  assumes "geometry s" "x < max_idx s"
  shows "page_to_index s (index_to_page s x) = x"
proof -
  have "x * 4096 < 2 ^ 64" using assms by (simp add: geometry_def)
  then have "unat (of_nat x * PAGE_SIZE) = x * 4096"
    by (simp add: unat_word_ariths unat_of_nat mod_simps mod_less)
  then show ?thesis by (simp add: page_to_index_def index_to_page_def unat_div_distrib)
qed

lemma allocated_idx:
  assumes "buddy_inv s A" "(b, k) \<in> A"
  shows "is_valid s b" "page_to_index s (index_to_page s b) = b"
proof -
  have "body s (b, k)" "geometry s" using assms binvD(4,13) [of s A "{}"] by (auto simp: buddy_inv_def)
  then have "min_idx s \<le> b" "b + 2 ^ k \<le> max_idx s" "geometry s" by (auto simp: body_def)
  moreover from this have "b < max_idx s" using zero_less_power [of "2 :: nat" k] by linarith
  ultimately show "is_valid s b" "page_to_index s (index_to_page s b) = b"
    by (simp_all add: is_valid_def page_to_index_to_page)
qed

subsection \<open>Freeing, waiting and draining\<close>

lemma buddy_free_spec:
  assumes "buddy_inv s A" "(b, k) \<in> A" "b \<notin> set (waitlist s)"
  shows "\<exists>s'. buddy_free (index_to_page s b) s = Some s' \<and> buddy_inv s' (A - {(b, k)}) \<and>
    free_idx s' = free_idx s \<union> span (b, k) \<and> same_rest s s'"
  using coalesce_spec [OF assms] allocated_idx [OF assms(1,2)] by (simp add: buddy_free_def)

lemma allocated_not_free:
  assumes "buddy_inv s A" "(b, k) \<in> A" "j < orders"
  shows "b \<notin> set (freelist s j)"
proof
  assume "b \<in> set (freelist s j)"
  then have f: "(b, j) \<in> free_blocks s" using assms(3) by (simp add: free_blocks_def)
  have i: "binv s A {}" using assms(1) by (simp add: buddy_inv_def)
  show False using binvD(3) [OF i f] binvD(5) [OF i assms(2)] by (simp add: headed_def)
qed

lemma buddy_wait_spec:
  assumes "buddy_inv s A" "(b, k) \<in> A" "b \<notin> set (waitlist s)"
  shows "buddy_wait (index_to_page s b) s = Some (s\<lparr>waitlist := b # waitlist s\<rparr>)"
    "buddy_inv (s\<lparr>waitlist := b # waitlist s\<rparr>) A"
proof -
  have "\<not> blk_queued s b" using assms(3) allocated_not_free [OF assms(1,2)] by (auto simp: blk_queued_def)
  then show "buddy_wait (index_to_page s b) s = Some (s\<lparr>waitlist := b # waitlist s\<rparr>)"
    using allocated_idx [OF assms(1,2)] by (simp add: buddy_wait_def waitlist_enqueue_def)
  have "b \<in> fst ` A" using assms(2) by force
  then show "buddy_inv (s\<lparr>waitlist := b # waitlist s\<rparr>) A"
    using assms(1,3) by (simp add: buddy_inv_def binv_def)
qed

lemma drain_waitlist_spec:
  assumes "buddy_inv s A" "waitlist s = w"
  shows "\<exists>s'. drain_waitlist w s = Some s' \<and> buddy_inv s' {x \<in> A. fst x \<notin> set w} \<and> waitlist s' = [] \<and>
    free_idx s' = free_idx s \<union> \<Union> (span ` {x \<in> A. fst x \<in> set w}) \<and> same_pool s s' \<and> mem s' = mem s"
  using assms
proof (induction w arbitrary: s A)
  case Nil
  then show ?case by simp
next
  case (Cons b w)
  have i: "binv s A {}" using Cons.prems(1) by (simp add: buddy_inv_def)
  have dw: "distinct (b # w)" "set (b # w) \<subseteq> fst ` A" using binvD(11,12) [OF i] Cons.prems(2) by auto
  then obtain k where k: "(b, k) \<in> A" by auto
  have uniq: "x = (b, k)" if "x \<in> A" "fst x = b" for x
    using binv_same [OF i, of x "(b, k)" b] that k fst_in_span [of x] fst_in_span [of "(b, k)"] by simp
  let ?s1 = "s\<lparr>waitlist := w\<rparr>"
  have "buddy_inv ?s1 A" using Cons.prems dw by (simp add: buddy_inv_def binv_def)
  from coalesce_spec [OF this k] dw(1) obtain s2 where
    s2: "coalesce b ?s1 = Some s2" "buddy_inv s2 (A - {(b, k)})" "free_idx s2 = free_idx s \<union> span (b, k)"
      "same_rest ?s1 s2" by auto
  have sp: "same_pool s s2" "waitlist s2 = w" "mem s2 = mem s" using s2(4) by (simp_all add: same_rest_def same_pool_def)
  from Cons.IH [OF s2(2) sp(2)] obtain s3 where
    s3: "drain_waitlist w s2 = Some s3" "buddy_inv s3 {x \<in> A - {(b, k)}. fst x \<notin> set w}" "waitlist s3 = []"
      "free_idx s3 = free_idx s2 \<union> \<Union> (span ` {x \<in> A - {(b, k)}. fst x \<in> set w})" "same_pool s2 s3" "mem s3 = mem s2"
    by blast
  have A1: "{x \<in> A - {(b, k)}. fst x \<notin> set w} = {x \<in> A. fst x \<notin> set (b # w)}"
    by (rule Collect_cong) (metis Diff_iff insert_iff empty_iff list.set(2) uniq fst_conv)
  have A2: "{x \<in> A. fst x \<in> set (b # w)} = insert (b, k) {x \<in> A - {(b, k)}. fst x \<in> set w}"
    unfolding insert_Collect
    by (rule Collect_cong) (metis Diff_iff insert_iff empty_iff list.set(2) uniq fst_conv k)
  have "free_idx s3 = free_idx s \<union> \<Union> (span ` {x \<in> A. fst x \<in> set (b # w)})"
    unfolding s3(4) s2(3) A2 by (simp add: Un_assoc)
  moreover have "drain_waitlist (b # w) s = Some s3" using s2(1) s3(1) by simp
  moreover have "mem s3 = mem s" using s3(6) sp(3) by simp
  moreover note s3(2) [unfolded A1] s3(3) same_pool_trans [OF sp(1) s3(5)]
  ultimately show ?case by blast
qed

lemma free_wait_spec:
  assumes "buddy_inv s A"
  shows "\<exists>s'. free_wait s = Some s' \<and> buddy_inv s' {x \<in> A. fst x \<notin> set (waitlist s)} \<and> waitlist s' = [] \<and>
    free_idx s' = free_idx s \<union> \<Union> (span ` {x \<in> A. fst x \<in> set (waitlist s)}) \<and> same_pool s s' \<and> mem s' = mem s"
  unfolding free_wait_def by (rule drain_waitlist_spec [OF assms refl])

subsection \<open>Initialisation\<close>

text \<open>Before \<open>init\<close> frees anything, every page of the pool is an allocated block of order 0.\<close>

definition boot_blocks :: "nat \<Rightarrow> nat \<Rightarrow> (nat \<times> nat) set" where
  "boot_blocks lo hi = (\<lambda>i. (i, 0)) ` {lo..<hi}"

lemma buddy_inv_boot:
  assumes "geometry s" "\<forall>i. blk s i = \<lparr>b_ord = 0, b_tag = USED\<rparr>" "\<forall>k. freelist s k = []" "waitlist s = []"
  shows "buddy_inv s (boot_blocks (min_idx s) (max_idx s))"
proof -
  have f: "free_blocks s = {}" using assms(3) by (simp add: free_blocks_def)
  have t: "tiles (boot_blocks (min_idx s) (max_idx s)) (min_idx s) (max_idx s)"
    by (auto simp: tiles_def boot_blocks_def span.simps)
  have "body s (i, 0)" "headed s USED (i, 0)" if "min_idx s \<le> i" "i < max_idx s" for i
    using that assms(2) by (simp_all add: body_def headed_def orders_def)
  then show ?thesis
    unfolding buddy_inv_def binv_def f using assms t by (auto simp: boot_blocks_def coalesced_def)
qed

lemma free_pages_spec:
  assumes "buddy_inv s (boot_blocks lo hi)" "free_idx s = {}" "waitlist s = []" "lo \<le> m" "m \<le> hi"
  shows "\<exists>s'. foldM buddy_free (map (index_to_page s) [m..<hi]) s = Some s' \<and>
    buddy_inv s' (boot_blocks lo m) \<and> free_idx s' = {m..<hi} \<and> same_rest s s'"
proof -
  let ?I = "\<lambda>xs t. \<exists>j. m \<le> j \<and> j \<le> hi \<and> xs = map (index_to_page s) [j..<hi] \<and> same_rest s t \<and>
    buddy_inv t (boot_blocks lo m \<union> boot_blocks j hi) \<and> free_idx t = {m..<j}"
  have start: "?I (map (index_to_page s) [m..<hi]) s"
  proof -
    have "boot_blocks lo m \<union> boot_blocks m hi = boot_blocks lo hi"
      unfolding boot_blocks_def image_Un [symmetric] using assms(4,5) by (simp add: ivl_disj_un_two(3))
    with assms show ?thesis by (intro exI [of _ m]) (simp add: same_rest_def)
  qed
  have step: "\<exists>t'. buddy_free x t = Some t' \<and> ?I xs t'" if I: "?I (x # xs) t" for x xs t
  proof -
    from I obtain j where j: "m \<le> j" "j \<le> hi" "x # xs = map (index_to_page s) [j..<hi]" "same_rest s t"
      "buddy_inv t (boot_blocks lo m \<union> boot_blocks j hi)" "free_idx t = {m..<j}"
      by (elim exE conjE) (rule that)
    then have lt: "j < hi" by (cases "j < hi") auto
    have "index_to_page t = index_to_page s" using j(4) by (simp add: same_rest_def same_pool_page)
    then have x: "x = index_to_page t j" "xs = map (index_to_page s) [Suc j..<hi]"
      using j(3) lt by (simp_all add: upt_conv_Cons)
    have in_A: "(j, 0) \<in> boot_blocks lo m \<union> boot_blocks j hi" using lt by (simp add: boot_blocks_def)
    have w: "j \<notin> set (waitlist t)" using j(4) assms(3) by (simp add: same_rest_def)
    from buddy_free_spec [OF j(5) in_A w] obtain t' where
      t': "buddy_free x t = Some t'" "buddy_inv t' ((boot_blocks lo m \<union> boot_blocks j hi) - {(j, 0)})"
        "free_idx t' = free_idx t \<union> span (j, 0)" "same_rest t t'" unfolding x(1) by blast
    have "(boot_blocks lo m \<union> boot_blocks j hi) - {(j, 0)} = boot_blocks lo m \<union> boot_blocks (Suc j) hi"
      using j(1) by (auto simp: boot_blocks_def)
    moreover have "free_idx t' = {m..<Suc j}" using t'(3) j(1,6) by (auto simp: span.simps)
    ultimately show ?thesis
      using t' x(2) lt j(1) same_rest_trans [OF j(4) t'(4)] by (intro exI [of _ t'] conjI exI [of _ "Suc j"]) auto
  qed
  have "\<exists>s'. foldM buddy_free (map (index_to_page s) [m..<hi]) s = Some s' \<and> ?I [] s'"
    by (rule foldM_invariant [where I = ?I, OF start]) (rule step)
  then obtain s' j where s': "foldM buddy_free (map (index_to_page s) [m..<hi]) s = Some s'" "m \<le> j" "j \<le> hi"
    "[] = map (index_to_page s) [j..<hi]" "same_rest s s'" "buddy_inv s' (boot_blocks lo m \<union> boot_blocks j hi)"
    "free_idx s' = {m..<j}" by (elim exE conjE) (rule that)
  then have "j = hi" by auto
  then show ?thesis using s' by (intro exI [of _ s']) (simp add: boot_blocks_def)
qed

text \<open>The layout that \<open>init\<close> computes from the linker symbols.\<close>

definition init_layout :: "u64 \<Rightarrow> u64 \<Rightarrow> 'a buddy_scheme \<Rightarrow> 'a buddy_scheme" where
  "init_layout hvas hvae s =
    (let s = s\<lparr>mem_base := align_dn hvas (2 ^ (PTE_BPL + PAGE_BITS))\<rparr>;
         s = s\<lparr>min_idx := page_to_index s hvas\<rparr>;
         s = s\<lparr>max_idx := page_to_index s (hvas + ((hvae - hvas) div (PAGE_SIZE + SIZEOF_BLOCK)) * PAGE_SIZE)\<rparr>
     in s\<lparr>blk_base := hvas + (hvae - hvas) - of_nat (max_idx s) * SIZEOF_BLOCK\<rparr>)"

lemma buddy_init_layout:
  "buddy_init hvas hvaf hvae s =
     (let t = init_layout hvas hvae s in foldM buddy_free (pages_between hvaf (index_to_page t (max_idx t))) t)"
  by (simp add: buddy_init_def init_layout_def Let_def)

lemma unat_sub_base:
  fixes x b :: u64
  assumes "unat b \<le> unat x" shows "unat ((x - b) div PAGE_SIZE) = (unat x - unat b) div 4096"
  using assms by (simp add: unat_div_distrib unat_sub word_le_nat_alt)

lemma init_layout_spec:
  assumes "4096 dvd unat hvas" "2 ^ 21 \<le> unat hvas" "unat hvas \<le> unat hvae" "t = init_layout hvas hvae s"
    and "n = (unat hvae - unat hvas) div 4120"
  shows "unat (mem_base t) + min_idx t * 4096 = unat hvas" "max_idx t = min_idx t + n"
    "unat (mem_base t) + max_idx t * 4096 = unat hvas + n * 4096" "geometry t"
    "i < max_idx t \<Longrightarrow> min_idx t \<le> i \<Longrightarrow> unat (index_to_block t i) = unat hvae - (max_idx t - i) * 24"
    "n * 4120 \<le> unat hvae - unat hvas"
proof -
  define B where "B = unat hvas - unat hvas mod 2 ^ 21"
  let ?V = "unat hvas"
  have mb: "mem_base t = align_dn hvas (2 ^ 21)" by (simp add: assms(4) init_layout_def Let_def)
  then have B: "unat (mem_base t) = B" using align_dn_pow2 [of 21 hvas] by (simp add: B_def)
  have n: "n * 4120 \<le> unat hvae - ?V" by (simp add: assms(5))
  then have lt: "?V + n * 4096 < 2 ^ 64" using u64_lt_pow [of hvae] assms(3) by linarith
  have q: "unat ((hvae - hvas) div (PAGE_SIZE + SIZEOF_BLOCK)) = n"
    using assms(3) by (simp add: unat_div_distrib unat_sub word_le_nat_alt assms(5))
  have e: "unat (hvas + (hvae - hvas) div (PAGE_SIZE + SIZEOF_BLOCK) * PAGE_SIZE) = ?V + n * 4096"
  proof -
    have "(hvae - hvas) div (PAGE_SIZE + SIZEOF_BLOCK) = of_nat n" using q by (rule word_eq_of_nat)
    moreover have "unat (hvas + of_nat n * PAGE_SIZE) = ?V + n * 4096"
      using lt by (simp add: unat_word_ariths unat_of_nat mod_simps mod_less)
    ultimately show ?thesis by simp
  qed
  have le: "unat (align_dn hvas (2 ^ 21)) \<le> ?V" using B mb by (simp add: B_def)
  have mn: "min_idx t = (?V - B) div 4096"
    using B unat_sub_base [of "align_dn hvas (2 ^ 21)" hvas] le mb
    by (simp add: assms(4) init_layout_def Let_def page_to_index_def)
  have mx: "max_idx t = (?V + n * 4096 - B) div 4096"
    using B unat_sub_base [of "align_dn hvas (2 ^ 21)"] le mb e
    by (simp add: assms(4) init_layout_def Let_def page_to_index_def)
  have dB: "4096 dvd ?V mod 2 ^ 21" "4096 dvd B" using assms(1) by (auto simp: B_def dvd_mod dvd_diff_nat)
  then obtain c where c: "?V mod 2 ^ 21 = 4096 * c" by (auto elim: dvdE)
  have Bc: "?V = B + 4096 * c" using mod_less_eq_dividend [of ?V "2 ^ 21"] c by (simp add: B_def)
  have "?V - B = 4096 * c" "?V + n * 4096 - B = 4096 * (c + n)" unfolding Bc by simp_all
  then have mc: "min_idx t = c" "max_idx t = c + n" unfolding mn mx by simp_all
  then show "max_idx t = min_idx t + n" by simp
  show v: "unat (mem_base t) + min_idx t * 4096 = unat hvas" unfolding B mc using Bc by simp
  show m: "unat (mem_base t) + max_idx t * 4096 = unat hvas + n * 4096" unfolding B mc using Bc by simp
  have "0 < B" using assms(2) mod_less_divisor [of "2 ^ 21" ?V] by (simp add: B_def)
  then show "geometry t" unfolding geometry_def m using lt B dB(2) by simp
  show "n * 4120 \<le> unat hvae - unat hvas" by (rule n)
  assume i: "i < max_idx t" "min_idx t \<le> i"
  have bb: "blk_base t = hvae - of_nat (max_idx t) * SIZEOF_BLOCK"
    by (simp add: assms(4) init_layout_def Let_def)
  have "index_to_block t i = hvae - of_nat ((max_idx t - i) * 24)"
    using i by (simp add: index_to_block_def bb of_nat_diff algebra_simps)
  moreover have "(max_idx t - i) * 24 \<le> unat hvae" using i mc n by linarith
  moreover from this have "unat (of_nat ((max_idx t - i) * 24) :: u64) = (max_idx t - i) * 24"
    using u64_lt_pow [of hvae] by (simp only: unat_of_nat len_of_numeral_defs(1)) simp
  ultimately show "unat (index_to_block t i) = unat hvae - (max_idx t - i) * 24"
    by (simp only: unat_sub word_le_nat_alt)
qed

lemma pages_between_index:
  assumes "geometry t" "unat p = unat (mem_base t) + m * 4096" "m \<le> max_idx t"
    and "unat (mem_base t) + max_idx t * 4096 < 2 ^ 64"
  shows "pages_between p (index_to_page t (max_idx t)) = map (index_to_page t) [m..<max_idx t]"
proof -
  have "unat (index_to_page t (max_idx t)) = unat (mem_base t) + max_idx t * 4096"
    using assms(4) by (simp add: index_to_page_def unat_word_ariths unat_of_nat mod_simps mod_less)
  then have len: "(unat (index_to_page t (max_idx t)) - unat p + 4095) div 4096 = max_idx t - m"
    using assms(2,3) by (simp add: diff_mult_distrib [symmetric])
  have p: "p = mem_base t + of_nat m * PAGE_SIZE" using word_eq_of_nat [OF assms(2)] by simp
  show ?thesis
    unfolding pages_between_def len by (rule nth_equalityI) (simp_all add: index_to_page_def p distrib_right)
qed

lemma buddy_init_spec:
  assumes "4096 dvd unat hvas" "2 ^ 21 \<le> unat hvas" "unat hvas \<le> unat hvaf" "unat hvas \<le> unat hvae"
    and "4096 dvd unat hvaf" "unat hvaf \<le> unat hvas + n * 4096" "n = (unat hvae - unat hvas) div 4120"
    and "\<forall>i. blk s i = \<lparr>b_ord = 0, b_tag = USED\<rparr>" "\<forall>k. freelist s k = []" "waitlist s = []"
  shows "\<exists>s'. buddy_init hvas hvaf hvae s = Some s' \<and> max_idx s' = min_idx s' + n \<and>
    index_to_page s' (min_idx s') = hvas \<and>
    buddy_inv s' (boot_blocks (min_idx s') (page_to_index s' hvaf)) \<and> free_idx s' = {page_to_index s' hvaf..<max_idx s'} \<and>
    (\<forall>i. is_valid s' i \<longrightarrow> unat hvas + n * 4096 \<le> unat (index_to_block s' i) \<and> unat (index_to_block s' i) + 24 \<le> unat hvae)"
proof -
  let ?t = "init_layout hvas hvae s"
  note L = init_layout_spec [OF assms(1,2,4) refl [of ?t] assms(7)]
  have fr: "blk ?t = blk s" "freelist ?t = freelist s" "waitlist ?t = waitlist s"
    by (simp_all add: init_layout_def Let_def)
  have "buddy_inv ?t (boot_blocks (min_idx ?t) (max_idx ?t))"
    by (rule buddy_inv_boot) (use L(4) fr assms(8-10) in simp_all)
  moreover have "free_idx ?t = {}" using assms(9) fr by (simp add: free_idx_def free_blocks_def)
  moreover obtain c where c: "unat hvaf = unat hvas + 4096 * c"
    using assms(1,3,5) by (metis dvd_diff_nat dvdE le_add_diff_inverse)
  have le: "c \<le> n" using assms(6) c by simp
  have lt: "unat (mem_base ?t) + max_idx ?t * 4096 < 2 ^ 64"
    unfolding L(3) using L(6) assms(4) u64_lt_pow [of hvae] by linarith
  have base: "unat hvaf = unat (mem_base ?t) + (min_idx ?t + c) * 4096" using c L(1) by (simp add: algebra_simps)
  then have idx: "page_to_index ?t hvaf = min_idx ?t + c" by (simp add: page_to_index_def unat_sub_base)
  have pages: "pages_between hvaf (index_to_page ?t (max_idx ?t)) = map (index_to_page ?t) [min_idx ?t + c..<max_idx ?t]"
    using base le L(2) lt by (intro pages_between_index [OF L(4)]) simp_all
  ultimately obtain s' where s': "foldM buddy_free (map (index_to_page ?t) [min_idx ?t + c..<max_idx ?t]) ?t = Some s'"
    "buddy_inv s' (boot_blocks (min_idx ?t) (min_idx ?t + c))" "free_idx s' = {min_idx ?t + c..<max_idx ?t}" "same_rest ?t s'"
    using free_pages_spec [of ?t "min_idx ?t" "max_idx ?t" "min_idx ?t + c"] L(2) le fr assms(10) by auto
  have eq: "min_idx s' = min_idx ?t" "max_idx s' = max_idx ?t" "index_to_page s' = index_to_page ?t"
    "page_to_index s' = page_to_index ?t" "index_to_block s' = index_to_block ?t"
    using s'(4) by (auto simp: same_rest_def same_pool_def index_to_page_def page_to_index_def index_to_block_def)
  have blocks: "unat hvas + n * 4096 \<le> unat (index_to_block ?t i) \<and> unat (index_to_block ?t i) + 24 \<le> unat hvae"
    if "is_valid s' i" for i
  proof -
    from that have i: "i < max_idx ?t" "min_idx ?t \<le> i" by (simp_all add: is_valid_def eq)
    then have "max_idx ?t - i \<le> n" "1 \<le> max_idx ?t - i" using L(2) by auto
    then show ?thesis unfolding L(5) [OF i] using L(6) assms(4) by linarith
  qed
  have hv: "index_to_page ?t (min_idx ?t) = hvas"
    using word_eq_of_nat [OF L(1) [symmetric]] by (simp add: index_to_page_def)
  have "buddy_init hvas hvaf hvae s = Some s'" unfolding buddy_init_layout Let_def pages by (rule s'(1))
  then show ?thesis
    by (intro exI [of _ s'] conjI allI impI) (simp_all add: eq idx s'(2,3) blocks hv L(2))
qed

section \<open>Memory contents\<close>

text \<open>What the fill loop leaves in memory.\<close>

lemma memset_apply:
  "memset m dst c n a = (if a \<in> (\<lambda>i. dst + of_nat (8 * i)) ` {..<n} then c else m a)"
proof (induction n arbitrary: m dst)
  case (Suc n)
  have "(\<lambda>i. dst + of_nat (8 * i)) ` {..<Suc n} = insert dst ((\<lambda>i. dst + 8 + of_nat (8 * i)) ` {..<n})"
    by (simp add: lessThan_Suc_eq_insert_0 image_image algebra_simps)
  then show ?case by (simp add: Suc.IH)
qed simp

definition page_words :: "u64 \<Rightarrow> u64 set" where
  "page_words p = (\<lambda>i. p + of_nat (8 * i)) ` {..<512}"

lemma memset_page: "memset m p c 512 a = (if a \<in> page_words p then c else m a)"
  by (simp add: memset_apply page_words_def)

text \<open>Words of different pages are different.\<close>

lemma page_words_disjoint:
  assumes "4096 dvd unat p" "4096 dvd unat q" "p \<noteq> q"
  shows "page_words p \<inter> page_words q = {}"
proof -
  have *: "unat a div 4096 = unat r div 4096" if r: "4096 dvd unat r" and a: "a \<in> page_words r" for a r
  proof -
    obtain i where i: "a = r + of_nat (8 * i)" "i < 512" using a by (auto simp: page_words_def)
    obtain c where c: "unat r = 4096 * c" using r by (elim dvdE)
    then have "4096 * c < 4096 * 2 ^ 52" using u64_lt [of r] by simp
    then have "c < 2 ^ 52" by simp
    then have "4096 * c + 8 * i < 2 ^ 64" using i(2) by simp
    then have "unat a = 4096 * c + 8 * i"
      unfolding i(1) using c by (simp add: unat_word_ariths unat_of_nat mod_simps)
    then show ?thesis using c i(2) by simp
  qed
  { fix a assume "a \<in> page_words p" "a \<in> page_words q"
    then have "unat p div 4096 = unat q div 4096" using * [OF assms(1)] * [OF assms(2)] by metis
    then have "unat p = unat q" using assms(1,2) by (metis dvd_mult_div_cancel)
    then have False using assms(3) by (simp add: word_unat_eq_iff) }
  then show ?thesis by auto
qed

section \<open>The page allocator contract\<close>

text \<open>
  What the clients of an allocator (slabs, capability tables, page tables, UTCBs for pages; kernel objects for
  the buffers of a slab cache) rely on: \<open>pinv s L\<close> says that the state is well formed and that the
  addresses of \<open>L\<close> are allocated.
\<close>

fun alloc_list :: "('s \<Rightarrow> (u64 option \<times> 's) option) \<Rightarrow> nat \<Rightarrow> 's \<Rightarrow> (u64 list \<times> 's) option" where
  "alloc_list al 0 s = Some ([], s)"
| "alloc_list al (Suc n) s = do {
     (r, s) \<leftarrow> al s;
     case r of None \<Rightarrow> Some ([], s)
     | Some p \<Rightarrow> do { (ps, s) \<leftarrow> alloc_list al n s; Some (p # ps, s) }
   }"

locale allocator =
  fixes pinv :: "'s \<Rightarrow> u64 set \<Rightarrow> bool"
    and al :: "'s \<Rightarrow> (u64 option \<times> 's) option"
    and fr :: "u64 \<Rightarrow> 's \<Rightarrow> 's option"
  assumes al_ok: "pinv s L \<Longrightarrow> al s = Some (None, s) \<or>
      (\<exists>p s'. al s = Some (Some p, s') \<and> p \<notin> L \<and> pinv s' (insert p L))"
    and fr_ok: "pinv s L \<Longrightarrow> p \<in> L \<Longrightarrow> \<exists>s'. fr p s = Some s' \<and> pinv s' (L - {p})"
begin

lemma alloc_list_ok:
  assumes "pinv s L"
  shows "\<exists>ps s'. alloc_list al n s = Some (ps, s') \<and> distinct ps \<and> set ps \<inter> L = {} \<and> length ps \<le> n \<and>
    pinv s' (L \<union> set ps)"
  using assms
proof (induction n arbitrary: s L)
  case (Suc n)
  from al_ok [OF Suc.prems] show ?case
  proof
    assume "al s = Some (None, s)"
    with Suc.prems show ?thesis by simp
  next
    assume "\<exists>p s'. al s = Some (Some p, s') \<and> p \<notin> L \<and> pinv s' (insert p L)"
    then obtain p s1 where s1: "al s = Some (Some p, s1)" "p \<notin> L" "pinv s1 (insert p L)" by blast
    from Suc.IH [OF s1(3)] obtain ps s' where
      "alloc_list al n s1 = Some (ps, s')" "distinct ps" "set ps \<inter> insert p L = {}" "length ps \<le> n"
      "pinv s' (insert p L \<union> set ps)" by blast
    with s1 show ?thesis by (intro exI [of _ "p # ps"] exI [of _ s']) auto
  qed
qed auto

lemma free_list_ok:
  assumes "pinv s (L \<union> set ps)" "distinct ps" "set ps \<inter> L = {}"
  shows "\<exists>s'. foldM fr ps s = Some s' \<and> pinv s' L"
  using assms
proof (induction ps arbitrary: s)
  case (Cons p ps)
  from fr_ok [OF Cons.prems(1), of p] obtain s1 where
    s1: "fr p s = Some s1" "pinv s1 (L \<union> set (p # ps) - {p})" by auto
  moreover have "L \<union> set (p # ps) - {p} = L \<union> set ps" using Cons.prems by auto
  ultimately show ?case using Cons.IH [of s1] Cons.prems by auto
qed simp

lemma alloc_free_ok:
  assumes "pinv s L"
  shows "\<exists>ps s1 s2. alloc_list al n s = Some (ps, s1) \<and> distinct ps \<and> set ps \<inter> L = {} \<and> pinv s1 (L \<union> set ps) \<and>
    foldM fr ps s1 = Some s2 \<and> pinv s2 L"
  using alloc_list_ok [OF assms, of n] free_list_ok by blast

end

text \<open>Whole pages are aligned and therefore disjoint.\<close>

locale page_allocator = allocator +
  assumes live_aligned: "pinv s L \<Longrightarrow> p \<in> L \<Longrightarrow> 4096 dvd unat p \<and> p \<noteq> 0"
begin

lemma live_disjoint:
  assumes "pinv s L" "p \<in> L" "q \<in> L" "p \<noteq> q" shows "page_words p \<inter> page_words q = {}"
  using assms live_aligned by (intro page_words_disjoint) auto

end

subsection \<open>The allocator provides the contract\<close>

definition page_inv :: "'a buddy_scheme \<Rightarrow> u64 set \<Rightarrow> bool" where
  "page_inv s L \<longleftrightarrow> (\<exists>A. buddy_inv s A \<and> L \<subseteq> index_to_page s ` {b. (b, 0) \<in> A \<and> b \<notin> set (waitlist s)})"

lemma index_to_page_inj:
  assumes "geometry s" "x < max_idx s" "y < max_idx s" "index_to_page s x = index_to_page s y"
  shows "x = y"
  using page_to_index_to_page assms by metis

lemma binv_used_not_free:
  assumes "binv s A {}" "x \<in> A" shows "span x \<inter> free_idx s = {}"
proof -
  have "x \<notin> free_blocks s" using binv_free_used [OF assms(1), of x] assms(2) by blast
  then show ?thesis using binv_same [OF assms(1), of _ x] assms(2) unfolding free_idx_def by blast
qed

lemma page_inv_alloc:
  assumes "page_inv s L"
  shows "buddy_alloc 0 f s = Some (None, s) \<or>
    (\<exists>p s'. buddy_alloc 0 f s = Some (Some p, s') \<and> p \<notin> L \<and> page_inv s' (insert p L))"
proof -
  from assms obtain A where A: "buddy_inv s A" "L \<subseteq> index_to_page s ` {b. (b, 0) \<in> A \<and> b \<notin> set (waitlist s)}"
    by (auto simp: page_inv_def)
  from buddy_alloc_spec [OF A(1), of 0 f] show ?thesis
  proof
    assume "\<exists>b s'. buddy_alloc 0 f s = Some (Some (index_to_page s b), s') \<and> alloc_ok 0 A s b s'"
    then obtain b s' where al: "buddy_alloc 0 f s = Some (Some (index_to_page s b), s')" and ok: "alloc_ok 0 A s b s'"
      by blast
    then have ok': "buddy_inv s' (insert (b, 0) A)" "span (b, 0) \<subseteq> free_idx s" "same_pool s s'" "waitlist s' = waitlist s"
      by (simp_all add: alloc_ok_def)
    have i: "binv s A {}" "geometry s" using A(1) binvD(13) by (auto simp: buddy_inv_def)
    have bA: "(b, k) \<notin> A" for k
      using binv_used_not_free [OF i(1), of "(b, k)"] ok'(2) fst_in_span [of "(b, k)"] fst_in_span [of "(b, 0)"] by auto
    have lt: "c < max_idx s" if "(c, 0) \<in> A" for c
      using allocated_idx(1) [OF A(1) that] by (simp add: is_valid_def)
    have bm: "b < max_idx s"
      using allocated_idx(1) [OF ok'(1), of b 0] ok'(3) by (simp add: is_valid_def same_pool_def)
    have "index_to_page s b \<notin> L"
    proof
      assume "index_to_page s b \<in> L"
      then obtain c where "(c, 0) \<in> A" "index_to_page s b = index_to_page s c" using A(2) by auto
      with index_to_page_inj [OF i(2) bm lt] bA show False by metis
    qed
    moreover have "b \<notin> set (waitlist s)" using binvD(12) [OF i(1)] bA by force
    then have "page_inv s' (insert (index_to_page s b) L)"
      unfolding page_inv_def using ok' A(2) same_pool_page [OF ok'(3)] by (intro exI [of _ "insert (b, 0) A"]) auto
    ultimately show ?thesis using al by blast
  qed blast
qed

lemma page_inv_free:
  assumes "page_inv s L" "p \<in> L"
  shows "\<exists>s'. buddy_free p s = Some s' \<and> page_inv s' (L - {p})"
proof -
  from assms obtain A b where A: "buddy_inv s A" "L \<subseteq> index_to_page s ` {b. (b, 0) \<in> A \<and> b \<notin> set (waitlist s)}"
    "p = index_to_page s b" "(b, 0) \<in> A" "b \<notin> set (waitlist s)" unfolding page_inv_def by blast
  from buddy_free_spec [OF A(1,4,5)] obtain s' where
    s': "buddy_free p s = Some s'" "buddy_inv s' (A - {(b, 0)})" "same_rest s s'" using A(3) by auto
  have "L - {p} \<subseteq> index_to_page s ` {c. (c, 0) \<in> A - {(b, 0)} \<and> c \<notin> set (waitlist s)}" using A(2,3) by auto
  then have "page_inv s' (L - {p})"
    using s'(2,3) same_pool_page [of s s'] by (auto simp: page_inv_def same_rest_def)
  with s'(1) show ?thesis by blast
qed

lemma page_inv_aligned:
  assumes "page_inv s L" "p \<in> L"
  shows "4096 dvd unat p \<and> p \<noteq> 0"
proof -
  from assms obtain A b where A: "buddy_inv s A" "p = index_to_page s b" "(b, 0) \<in> A" unfolding page_inv_def by blast
  have "b < max_idx s" "geometry s"
    using allocated_idx(1) [OF A(1,3)] A(1) by (simp_all add: is_valid_def buddy_inv_def binv_def)
  then have "unat p = unat (mem_base s) + b * 4096" "4096 dvd unat (mem_base s)" "0 < unat (mem_base s)"
    by (simp_all add: A(2) index_to_page_unat geometry_def)
  then show ?thesis by (auto simp: word_unat_eq_iff)
qed

interpretation pages: page_allocator page_inv "buddy_alloc 0 f" buddy_free
  by unfold_locales (rule page_inv_aligned page_inv_alloc page_inv_free; assumption)+

text \<open>The memory after an allocation, and what allocation and freeing leave alone.\<close>

lemma split_block_mem: "split_block ord k b s = Some s' \<Longrightarrow> mem s' = mem s"
  by (induction ord k b s rule: split_block.induct)
    (auto simp: freelist_enqueue_def Let_def split: if_splits bind_splits)

lemma alloc_from_mem:
  assumes "alloc_from ord f k s = Some (Some p, s')"
  shows "mem s' = (if f = NONE then mem s
    else memset (mem s) p (if f = BITS0 then 0 else - 1) (2 ^ (ord + PAGE_BITS) div 8))"
  using assms
proof (induction "orders - k" arbitrary: k s)
  case 0
  then show ?case by (simp add: alloc_from.simps [of ord f k s])
next
  case (Suc n)
  then have k: "k < orders" by simp
  show ?case
  proof (cases "freelist s k")
    case Nil
    then have "freelist_dequeue_head k s = Some (None, s)"
      by (simp add: freelist_dequeue_head_def lq_dequeue_head_def fun_upd_idem)
    with Suc.prems k have "alloc_from ord f (Suc k) s = Some (Some p, s')"
      by (simp add: alloc_from.simps [of ord f k s])
    then show ?thesis using Suc.hyps by (intro Suc.hyps(1)) auto
  next
    case (Cons b q)
    then have "freelist_dequeue_head k s = Some (Some b, s\<lparr>freelist := (freelist s)(k := q)\<rparr>)"
      by (simp add: freelist_dequeue_head_def lq_dequeue_head_def)
    with Suc.prems k show ?thesis
      by (auto simp: alloc_from.simps [of ord f k s] Let_def fill_block_def split: bind_splits dest!: split_block_mem)
  qed
qed

lemma buddy_alloc_mem:
  assumes "buddy_alloc 0 f s = Some (Some p, s')"
  shows "mem s' a = (if f \<noteq> NONE \<and> a \<in> page_words p then if f = BITS0 then 0 else - 1 else mem s a)"
  using alloc_from_mem [of 0 f 0 s p s'] assms by (auto simp: buddy_alloc_def memset_page)

section \<open>Properties\<close>

text \<open>A pool of two pages that form one free block, and the same pool with one page allocated.\<close>

definition pool2 :: buddy where
  "pool2 = \<lparr>min_idx = 0, max_idx = 2, mem_base = 0x200000, blk_base = 0x300000,
     blk = (\<lambda>i. if i = 0 then \<lparr>b_ord = 1, b_tag = FREE\<rparr> else \<lparr>b_ord = 0, b_tag = FREE\<rparr>),
     freelist = (\<lambda>k. if k = 1 then [0] else []), waitlist = [], mem = (\<lambda>a. a)\<rparr>"

definition pool2_used :: buddy where
  "pool2_used = pool2\<lparr>blk := (\<lambda>i. if i = 0 then \<lparr>b_ord = 0, b_tag = USED\<rparr> else \<lparr>b_ord = 0, b_tag = FREE\<rparr>),
     freelist := (\<lambda>k. if k = 0 then [1] else [])\<rparr>"

lemma pool2_fields:
  "min_idx pool2 = 0" "max_idx pool2 = 2" "waitlist pool2 = []" "geometry pool2"
  "freelist pool2 k = (if k = 1 then [0] else [])" "free_blocks pool2 = {(0, 1)}"
  "blk pool2 i = (if i = 0 then \<lparr>b_ord = 1, b_tag = FREE\<rparr> else \<lparr>b_ord = 0, b_tag = FREE\<rparr>)"
  by (auto simp: pool2_def geometry_def free_blocks_def orders_def split: if_splits)

lemma pool2_used_fields:
  "min_idx pool2_used = 0" "max_idx pool2_used = 2" "waitlist pool2_used = []" "geometry pool2_used"
  "freelist pool2_used k = (if k = 0 then [1] else [])" "free_blocks pool2_used = {(1, 0)}"
  "blk pool2_used i = (if i = 0 then \<lparr>b_ord = 0, b_tag = USED\<rparr> else \<lparr>b_ord = 0, b_tag = FREE\<rparr>)"
  by (auto simp: pool2_used_def pool2_def geometry_def free_blocks_def orders_def split: if_splits)

lemma pool2_inv: "buddy_inv pool2 {}"
proof -
  have "tiles {(0, 1)} 0 2" by (auto simp: tiles_def span.simps)
  then show ?thesis
    by (simp add: buddy_inv_def binv_def pool2_fields body_def headed_def orders_def coalesced_def)
qed

lemma pool2_used_inv: "buddy_inv pool2_used {(0, 0)}"
proof -
  have "tiles {(0, 0), (1, 0)} 0 2" by (auto simp: tiles_def span.simps)
  then show ?thesis
    by (simp add: buddy_inv_def binv_def pool2_used_fields body_def headed_def orders_def coalesced_def)
qed

text \<open>
  C8: \<open>Buddy::alloc\<close> on a well-formed allocator never fails an assertion. Either it returns a block of
  the requested order whose pages were all free, marks it allocated, takes exactly these pages out
  of the free memory, fills them as requested and keeps the invariant; or no freelist of that
  or a larger order has a block and nothing changes.
\<close>

theorem buddy_alloc_correct:
  assumes "buddy_inv s A"
  shows "(\<exists>b s'. buddy_alloc ord f s = Some (Some (index_to_page s b), s') \<and> buddy_inv s' (insert (b, ord) A) \<and>
            span (b, ord) \<subseteq> free_idx s \<and> free_idx s' = free_idx s - span (b, ord) \<and>
            same_pool s s' \<and> waitlist s' = waitlist s \<and>
            mem s' = (if f = NONE then mem s else
              memset (mem s) (index_to_page s b) (if f = BITS0 then 0 else - 1) (2 ^ (ord + PAGE_BITS) div 8))) \<or>
         (buddy_alloc ord f s = Some (None, s) \<and> (\<forall>j. ord \<le> j \<and> j < orders \<longrightarrow> freelist s j = []))"
  using buddy_alloc_spec [OF assms, of ord f] alloc_from_mem [of ord f ord s]
  unfolding buddy_alloc_def alloc_ok_def by blast

theorem buddy_alloc_correct_witness:
  "\<exists>b s'. buddy_alloc 0 BITS0 pool2 = Some (Some (index_to_page pool2 b), s') \<and> buddy_inv s' {(b, 0)}"
  using buddy_alloc_correct [OF pool2_inv, of 0 BITS0]
  by (auto simp: pool2_fields orders_def dest: spec [of _ 1])

text \<open>
  C9: \<open>Buddy::free\<close> of an allocated block passes its assertions, returns exactly the pages of
  the block to the free memory, and re-establishes the invariant: the pool stays tiled by aligned
  blocks and no two free buddies of the same order are left unmerged.
\<close>

theorem buddy_free_correct:
  assumes "buddy_inv s A" "(b, k) \<in> A" "b \<notin> set (waitlist s)"
  shows "\<exists>s'. buddy_free (index_to_page s b) s = Some s' \<and> buddy_inv s' (A - {(b, k)}) \<and>
    free_idx s' = free_idx s \<union> span (b, k) \<and> same_pool s s' \<and> mem s' = mem s \<and>
    (\<forall>(c, j)\<in>free_blocks s'. j < orders - 1 \<longrightarrow> (c XOR 2 ^ j, j) \<notin> free_blocks s')"
proof -
  from buddy_free_spec [OF assms] obtain s' where
    s': "buddy_free (index_to_page s b) s = Some s'" "buddy_inv s' (A - {(b, k)})"
      "free_idx s' = free_idx s \<union> span (b, k)" "same_rest s s'" by blast
  moreover have "coalesced (free_blocks s')" using s'(2) by (simp add: buddy_inv_def binv_def)
  ultimately show ?thesis by (intro exI [of _ s']) (simp add: coalesced_def same_rest_def)
qed

theorem buddy_free_correct_witness:
  "\<exists>s'. buddy_free (index_to_page pool2_used 0) pool2_used = Some s' \<and> buddy_inv s' {} \<and> mem s' = mem pool2_used"
  using buddy_free_correct [OF pool2_used_inv, of 0 0] by (auto simp: pool2_used_fields)

text \<open>
  Deferred frees: the blocks put on the waitlist by \<open>Buddy::wait\<close> stay allocated until \<open>Buddy::free_wait\<close>
  runs, which passes every assertion, frees exactly them and leaves the waitlist empty.
\<close>

theorem buddy_wait_free_wait:
  assumes "buddy_inv s A" "(b, k) \<in> A" "b \<notin> set (waitlist s)"
  shows "\<exists>s1 s2. buddy_wait (index_to_page s b) s = Some s1 \<and> buddy_inv s1 A \<and> free_idx s1 = free_idx s \<and>
    free_wait s1 = Some s2 \<and> buddy_inv s2 {x \<in> A. fst x \<notin> insert b (set (waitlist s))} \<and> waitlist s2 = [] \<and>
    span (b, k) \<subseteq> free_idx s2"
proof -
  let ?s1 = "s\<lparr>waitlist := b # waitlist s\<rparr>"
  note w = buddy_wait_spec [OF assms]
  from free_wait_spec [OF w(2)] obtain s2 where s2: "free_wait ?s1 = Some s2"
    "buddy_inv s2 {x \<in> A. fst x \<notin> insert b (set (waitlist s))}" "waitlist s2 = []"
    "free_idx s2 = free_idx s \<union> \<Union> (span ` {x \<in> A. fst x \<in> insert b (set (waitlist s))})" by auto
  moreover have "span (b, k) \<subseteq> free_idx s2" unfolding s2(4) using assms(2) by fastforce
  ultimately show ?thesis using w by (intro exI [of _ ?s1] exI [of _ s2]) simp
qed

theorem buddy_wait_free_wait_witness:
  "\<exists>s1 s2. buddy_wait (index_to_page pool2_used 0) pool2_used = Some s1 \<and> free_wait s1 = Some s2 \<and> buddy_inv s2 {}"
  using buddy_wait_free_wait [OF pool2_used_inv, of 0 0] by (auto simp: pool2_used_fields cong: conj_cong)

text \<open>
  C10: \<open>Buddy::init\<close>, on zeroed block descriptors and page-aligned linker symbols, frees every page
  from the first free page to the end of the pool without failing an assertion and establishes the
  allocator invariant; the pages below stay allocated, and the array of block descriptors
  lies between the end of the pool pages and the end of the region, so it overlaps no page.
\<close>

theorem buddy_init_correct:
  assumes "4096 dvd unat hvas" "2 ^ 21 \<le> unat hvas" "unat hvas \<le> unat hvaf" "unat hvas \<le> unat hvae"
    and "4096 dvd unat hvaf" "unat hvaf \<le> unat hvas + n * 4096" "n = (unat hvae - unat hvas) div 4120"
    and "\<forall>i. blk s i = \<lparr>b_ord = 0, b_tag = USED\<rparr>" "\<forall>k. freelist s k = []" "waitlist s = []"
  shows "\<exists>s'. buddy_init hvas hvaf hvae s = Some s' \<and> max_idx s' = min_idx s' + n \<and>
    index_to_page s' (min_idx s') = hvas \<and>
    buddy_inv s' (boot_blocks (min_idx s') (page_to_index s' hvaf)) \<and> free_idx s' = {page_to_index s' hvaf..<max_idx s'} \<and>
    (\<forall>i. is_valid s' i \<longrightarrow> unat hvas + n * 4096 \<le> unat (index_to_block s' i) \<and> unat (index_to_block s' i) + 24 \<le> unat hvae)"
  by (rule buddy_init_spec) (fact assms)+

definition boot_pool :: buddy where
  "boot_pool = \<lparr>min_idx = 0, max_idx = 0, mem_base = 0, blk_base = 0, blk = (\<lambda>_. \<lparr>b_ord = 0, b_tag = USED\<rparr>),
     freelist = (\<lambda>_. []), waitlist = [], mem = (\<lambda>_. 0)\<rparr>"

theorem buddy_init_correct_witness:
  "\<exists>s'. buddy_init 0x200000 0x201000 0x206000 boot_pool = Some s' \<and> max_idx s' = min_idx s' + 5"
proof -
  have "4096 dvd unat (0x200000 :: u64)" "2 ^ 21 \<le> unat (0x200000 :: u64)"
    "unat (0x200000 :: u64) \<le> unat (0x201000 :: u64)" "unat (0x200000 :: u64) \<le> unat (0x206000 :: u64)"
    "4096 dvd unat (0x201000 :: u64)" "unat (0x201000 :: u64) \<le> unat (0x200000 :: u64) + 5 * 4096"
    "5 = (unat (0x206000 :: u64) - unat (0x200000 :: u64)) div 4120"
    "\<forall>i. blk boot_pool i = \<lparr>b_ord = 0, b_tag = USED\<rparr>" "\<forall>k. freelist boot_pool k = []" "waitlist boot_pool = []"
    by (simp_all add: boot_pool_def)
  from buddy_init_correct [OF this] show ?thesis by blast
qed



end
