(* ===== verification/Nova_Radix.thy ===== *)
theory Nova_Radix
  imports Nova_Buddy
begin

text \<open>
  Trees of 512-entry tables in memory, the data structure behind the capability tables of
  \<^verbatim>\<open>src/space_obj.cpp\<close> and the page tables of \<^verbatim>\<open>src/ptab.cpp\<close>. The theory gives the state both
  share (table pages in the memory of the allocator, the root entry in the space object), the
  abstraction of such a tree to a functional tree, and the contract of an entry format
  (locale \<open>radix_fmt\<close>) under which the allocating walk is proved correct once.
\<close>

section \<open>State and locations\<close>

text \<open>\<open>root_of\<close> is the root member of the space object at an address.\<close>

record tables = buddy +
  root_of :: "u64 \<Rightarrow> u64"

datatype loc = Root u64 | Word u64

definition rd :: "'a tables_scheme \<Rightarrow> loc \<Rightarrow> u64" where
  "rd s a = (case a of Root r \<Rightarrow> root_of s r | Word w \<Rightarrow> mem s w)"

definition wr :: "loc \<Rightarrow> u64 \<Rightarrow> 'a tables_scheme \<Rightarrow> 'a tables_scheme" where
  "wr a v s = (case a of Root r \<Rightarrow> s\<lparr>root_of := (root_of s)(r := v)\<rparr> | Word w \<Rightarrow> s\<lparr>mem := (mem s)(w := v)\<rparr>)"

text \<open>\<^verbatim>\<open>Atomic::compare_exchange\<close>: on failure the expected value becomes the present one.\<close>

definition compare_exchange :: "loc \<Rightarrow> u64 \<Rightarrow> u64 \<Rightarrow> 'a tables_scheme \<Rightarrow> bool \<times> u64 \<times> 'a tables_scheme" where
  "compare_exchange a old new s = (if rd s a = old then (True, old, wr a new s) else (False, rd s a, s))"

text \<open>\<^verbatim>\<open>Atomic::exchange\<close>.\<close>

definition exchange :: "loc \<Rightarrow> u64 \<Rightarrow> 'a tables_scheme \<Rightarrow> u64 \<times> 'a tables_scheme" where
  "exchange a new s = (rd s a, wr a new s)"

text \<open>A table has 512 slots, nine bits of the index per level.\<close>

definition entries :: nat where
  "entries = 512"

definition slot :: "u64 \<Rightarrow> nat \<Rightarrow> u64" where
  "slot p k = p + of_nat (8 * k)"

definition idx :: "nat \<Rightarrow> nat \<Rightarrow> nat" where
  "idx l i = (i div entries ^ l) mod entries"

text \<open>The pointer returned by a walk: a slot, \<^verbatim>\<open>~0UL\<close> for a skippable hole, \<^verbatim>\<open>nullptr\<close> when out of memory.\<close>

datatype walk_result = Slot loc | Hole | Null

text \<open>The constructor of a table: slot \<open>k\<close> gets the value \<open>f k\<close>.\<close>

definition init_table :: "u64 \<Rightarrow> (nat \<Rightarrow> u64) \<Rightarrow> 'a tables_scheme \<Rightarrow> 'a tables_scheme" where
  "init_table p f s = s\<lparr>mem := fold (\<lambda>k m. m(slot p k := f k)) [0..<entries] (mem s)\<rparr>"

section \<open>Functional trees\<close>

datatype rt = Leaf u64 | Node u64 "rt list"

fun pages_of :: "rt \<Rightarrow> u64 list" where
  "pages_of (Leaf e) = []"
| "pages_of (Node p ts) = p # concat (map pages_of ts)"

text \<open>The leaf that an index selects, with its level.\<close>

fun tleaf :: "nat \<Rightarrow> rt \<Rightarrow> nat \<Rightarrow> nat \<times> u64" where
  "tleaf l (Leaf e) i = (l, e)"
| "tleaf 0 (Node p ts) i = (0, 0)"
| "tleaf (Suc l) (Node p ts) i = tleaf l (ts ! idx l i) i"

text \<open>\<open>ch l e\<close> is the table an entry \<open>e\<close> of level \<open>l\<close> refers to, if any.\<close>

type_synonym childf = "nat \<Rightarrow> u64 \<Rightarrow> u64 option"

fun rtree :: "childf \<Rightarrow> (u64 \<Rightarrow> u64) \<Rightarrow> nat \<Rightarrow> u64 \<Rightarrow> rt" where
  "rtree ch m 0 e = Leaf e"
| "rtree ch m (Suc l) e = (case ch (Suc l) e of None \<Rightarrow> Leaf e
     | Some p \<Rightarrow> Node p (map (\<lambda>k. rtree ch m l (m (slot p k))) [0..<entries]))"

text \<open>Replacing the subtree at level \<open>n\<close> on the path of index \<open>i\<close>.\<close>

fun tput :: "rt \<Rightarrow> nat \<Rightarrow> nat \<Rightarrow> nat \<Rightarrow> rt \<Rightarrow> rt" where
  "tput u i n 0 t = u"
| "tput u i n (Suc l) t = (if Suc l = n then u else
     (case t of Leaf e \<Rightarrow> Leaf e | Node p ts \<Rightarrow> Node p (ts[idx l i := tput u i n l (ts ! idx l i)])))"

text \<open>The slot at level \<open>n\<close> on the path of index \<open>i\<close> from an entry of level \<open>l\<close> at location \<open>a\<close>.\<close>

fun rslot :: "childf \<Rightarrow> 'a tables_scheme \<Rightarrow> nat \<Rightarrow> nat \<Rightarrow> nat \<Rightarrow> loc \<Rightarrow> loc option" where
  "rslot ch s n i 0 a = (if n = 0 then Some a else None)"
| "rslot ch s n i (Suc l) a = (if n = Suc l then Some a else
     (case ch (Suc l) (rd s a) of None \<Rightarrow> None | Some p \<Rightarrow> rslot ch s n i l (Word (slot p (idx l i)))))"

abbreviation stree :: "childf \<Rightarrow> 'a tables_scheme \<Rightarrow> nat \<Rightarrow> loc \<Rightarrow> rt" where
  "stree ch s l a \<equiv> rtree ch (mem s) l (rd s a)"

definition words_of :: "rt \<Rightarrow> u64 set" where
  "words_of t = \<Union> (page_words ` set (pages_of t))"

subsection \<open>Reading and writing locations\<close>

lemma rd_wr [simp]: "rd (wr a v s) b = (if a = b then v else rd s b)"
  by (auto simp: rd_def wr_def split: loc.splits)

lemma mem_wr: "mem (wr a v s) w = (if a = Word w then v else mem s w)"
  by (auto simp: wr_def split: loc.splits)

lemma rd_Word [simp]: "rd s (Word w) = mem s w"
  by (simp add: rd_def)

lemma page_words_slot: "page_words p = slot p ` {..<entries}"
  by (simp add: page_words_def slot_def entries_def)

lemma slot_in_page: "k < entries \<Longrightarrow> slot p k \<in> page_words p"
  by (simp add: page_words_slot)

lemma slot_inj:
  assumes "slot p j = slot p k" "j < entries" "k < entries" shows "j = k"
proof -
  have u: "unat (of_nat (8 * x) :: u64) = 8 * x" if "x < entries" for x
    using that unfolding unat_of_nat by (simp add: entries_def)
  have "(of_nat (8 * j) :: u64) = of_nat (8 * k)" using assms(1) by (simp add: slot_def)
  then have "8 * j = 8 * k" using u [OF assms(2)] u [OF assms(3)] by metis
  then show ?thesis by simp
qed

lemma idx_less [simp]: "idx l i < entries"
  by (simp add: idx_def entries_def)

lemma fold_slots:
  assumes "n \<le> entries"
  shows "k < n \<Longrightarrow> fold (\<lambda>k m. m(slot p k := f k)) [0..<n] m (slot p k) = f k"
    and "w \<notin> slot p ` {..<n} \<Longrightarrow> fold (\<lambda>k m. m(slot p k := f k)) [0..<n] m w = m w"
  using assms
proof (induction n)
  case (Suc n)
  { case 1
    with Suc show ?case using slot_inj [of p k n] by (auto simp: less_Suc_eq) }
  { case 2
    with Suc show ?case by (auto simp: lessThan_Suc) }
qed auto

lemma init_table_slot: "k < entries \<Longrightarrow> mem (init_table p f s) (slot p k) = f k"
  and init_table_other: "w \<notin> page_words p \<Longrightarrow> mem (init_table p f s) w = mem s w"
  by (simp_all add: init_table_def fold_slots page_words_slot)

text \<open>The allocator invariant does not look at table contents and roots.\<close>

definition same_alloc :: "'a buddy_scheme \<Rightarrow> 'b buddy_scheme \<Rightarrow> bool" where
  "same_alloc s s' \<longleftrightarrow> min_idx s' = min_idx s \<and> max_idx s' = max_idx s \<and> mem_base s' = mem_base s \<and> blk_base s' = blk_base s \<and>
     blk s' = blk s \<and> freelist s' = freelist s \<and> waitlist s' = waitlist s"

lemma page_inv_same_alloc:
  assumes "same_alloc s s'" shows "page_inv s' L = page_inv s L"
proof -
  from assms have e: "min_idx s' = min_idx s" "max_idx s' = max_idx s" "mem_base s' = mem_base s" "blk s' = blk s"
    "freelist s' = freelist s" "waitlist s' = waitlist s" by (simp_all add: same_alloc_def)
  have "body s' = body s" "headed s' = headed s" "free_blocks s' = free_blocks s" "geometry s' = geometry s"
    "index_to_page s' = index_to_page s"
    by (auto simp: fun_eq_iff body_def headed_def free_blocks_def geometry_def index_to_page_def e)
  then show ?thesis by (simp add: page_inv_def buddy_inv_def binv_def e)
qed

lemma same_alloc_wr [simp]: "same_alloc s (wr a v s)"
  by (simp add: same_alloc_def wr_def split: loc.splits)

lemma same_alloc_init_table [simp]: "same_alloc s (init_table p f s)"
  by (simp add: same_alloc_def init_table_def)

lemma root_of_init_table [simp]: "root_of (init_table p f s) = root_of s"
  by (simp add: init_table_def)

subsection \<open>Trees and memory\<close>

lemma rtree_Some [simp]: "ch (Suc l) e = Some p \<Longrightarrow>
    rtree ch m (Suc l) e = Node p (map (\<lambda>k. rtree ch m l (m (slot p k))) [0..<entries])"
  and rtree_None [simp]: "ch (Suc l) e = None \<Longrightarrow> rtree ch m (Suc l) e = Leaf e"
  by simp_all

declare rtree.simps(2) [simp del]

lemma length_tree: "rtree ch m l e = Node p ts \<Longrightarrow> length ts = entries"
  by (cases l) (auto simp: rtree.simps split: option.splits)

text \<open>A tree depends only on the words of its own pages.\<close>

lemma rtree_cong:
  assumes "\<And>w. w \<in> words_of (rtree ch m l e) \<Longrightarrow> m' w = m w"
  shows "rtree ch m' l e = rtree ch m l e"
  using assms
proof (induction l arbitrary: e)
  case (Suc l)
  show ?case
  proof (cases "ch (Suc l) e")
    case (Some p)
    have "rtree ch m' l (m' (slot p k)) = rtree ch m l (m (slot p k))" if k: "k \<in> set [0..<entries]" for k
    proof -
      have "m' (slot p k) = m (slot p k)"
        using k slot_in_page [of k p] Some by (intro Suc.prems) (auto simp: words_of_def)
      moreover have "rtree ch m' l (m (slot p k)) = rtree ch m l (m (slot p k))"
        using k Some by (intro Suc.IH Suc.prems) (auto simp: words_of_def)
      ultimately show ?thesis by simp
    qed
    then show ?thesis using Some by (simp cong: map_cong)
  qed simp
qed simp

lemma words_of_Node: "words_of (Node p ts) = page_words p \<union> (\<Union>k<length ts. words_of (ts ! k))"
  unfolding words_of_def pages_of.simps list.set set_concat_nth by simp

lemma words_of_Leaf [simp]: "words_of (Leaf e) = {}"
  by (simp add: words_of_def)

text \<open>Pages are page-aligned, so that different pages have different words.\<close>

definition aligned :: "u64 set \<Rightarrow> bool" where
  "aligned P \<longleftrightarrow> (\<forall>p\<in>P. 4096 dvd unat p)"

lemma words_disjoint:
  assumes "aligned (set (pages_of t) \<union> set (pages_of u))" "set (pages_of t) \<inter> set (pages_of u) = {}"
  shows "words_of t \<inter> words_of u = {}"
proof -
  have "page_words p \<inter> page_words q = {}" if "p \<in> set (pages_of t)" "q \<in> set (pages_of u)" for p q
    using that assms by (intro page_words_disjoint) (auto simp: aligned_def)
  then show ?thesis unfolding words_of_def by blast
qed

text \<open>A well-formed tree: its pages are distinct and aligned.\<close>

definition wf_rt :: "rt \<Rightarrow> bool" where
  "wf_rt t \<longleftrightarrow> distinct (pages_of t) \<and> aligned (set (pages_of t))"

lemma wf_rt_Leaf [simp]: "wf_rt (Leaf e)"
  by (simp add: wf_rt_def aligned_def)

lemma wf_rt_Node:
  assumes "wf_rt (Node p ts)"
  shows "k < length ts \<Longrightarrow> wf_rt (ts ! k)" "k < length ts \<Longrightarrow> page_words p \<inter> words_of (ts ! k) = {}"
    "j < length ts \<Longrightarrow> k < length ts \<Longrightarrow> j \<noteq> k \<Longrightarrow> words_of (ts ! j) \<inter> words_of (ts ! k) = {}"
proof -
  have d: "p \<notin> set (concat (map pages_of ts))" "distinct (concat (map pages_of ts))" and al: "aligned (set (pages_of (Node p ts)))"
    using assms by (auto simp: wf_rt_def)
  have al': "aligned (insert p (set (pages_of (ts ! k))))" if "k < length ts" for k
    using al that by (auto simp: aligned_def)
  show "wf_rt (ts ! k)" if "k < length ts"
    using d(2) that al' [OF that] unfolding wf_rt_def distinct_concat_nth by (simp add: aligned_def)
  show "page_words p \<inter> words_of (ts ! k) = {}" if "k < length ts"
    using words_disjoint [of "Node p []" "ts ! k"] d(1) that al' [OF that] by (auto simp: words_of_Node)
  show "words_of (ts ! j) \<inter> words_of (ts ! k) = {}" if "j < length ts" "k < length ts" "j \<noteq> k"
    using that d(2) al' [OF that(1)] al' [OF that(2)] unfolding distinct_concat_nth
    by (intro words_disjoint) (auto simp: aligned_def)
qed

text \<open>Replacing one child keeps a tree well formed when the new pages are not used elsewhere in it.\<close>

lemma wf_rt_update:
  assumes "wf_rt (Node p ts)" "k < length ts" "wf_rt t"
    and "set (pages_of t) \<inter> set (pages_of (Node p ts)) \<subseteq> set (pages_of (ts ! k))"
  shows "wf_rt (Node p (ts[k := t]))"
proof -
  have d: "p \<notin> set (concat (map pages_of ts))" "distinct (concat (map pages_of ts))" and al: "aligned (set (pages_of (Node p ts)))"
    using assms(1) by (auto simp: wf_rt_def)
  have pt: "p \<notin> set (pages_of t)" using assms(2,4) d(1) by auto
  have dj: "set (pages_of t) \<inter> set (pages_of (ts ! j)) = {}" if "j < length ts" "j \<noteq> k" for j
  proof -
    have "set (pages_of (ts ! j)) \<inter> set (pages_of (ts ! k)) = {}" using d(2) that assms(2) unfolding distinct_concat_nth by simp
    moreover have "set (pages_of (ts ! j)) \<subseteq> set (pages_of (Node p ts))" using that(1) by auto
    ultimately show ?thesis using assms(4) by blast
  qed
  have "distinct (concat (map pages_of (ts[k := t])))"
    using d(2) assms(2,3) dj unfolding distinct_concat_nth by (auto simp: nth_list_update wf_rt_def Int_commute)
  moreover have "set (concat (map pages_of (ts[k := t]))) \<subseteq> set (pages_of t) \<union> set (concat (map pages_of ts))"
    using set_update_subset_insert [of ts k t] by auto
  ultimately show ?thesis
    using pt d(1) al assms(3) by (auto simp: wf_rt_def aligned_def)
qed

text \<open>A change of memory below one child, and nowhere else in the tree.\<close>

lemma rtree_child:
  assumes "wf_rt (rtree ch m (Suc l) e)" "ch (Suc l) e = Some p" "k < entries"
    and "\<And>w. w \<in> words_of (rtree ch m (Suc l) e) \<Longrightarrow> w \<noteq> slot p k \<Longrightarrow> w \<notin> words_of (rtree ch m l (m (slot p k))) \<Longrightarrow> m' w = m w"
  shows "rtree ch m' (Suc l) e =
    Node p ((map (\<lambda>k. rtree ch m l (m (slot p k))) [0..<entries])[k := rtree ch m' l (m' (slot p k))])"
proof -
  let ?ts = "map (\<lambda>k. rtree ch m l (m (slot p k))) [0..<entries]"
  have t: "rtree ch m (Suc l) e = Node p ?ts" using assms(2) by simp
  note wf = wf_rt_Node [OF assms(1) [unfolded t]]
  have "rtree ch m' l (m' (slot p j)) = rtree ch m l (m (slot p j))" if j: "j < entries" "j \<noteq> k" for j
  proof -
    have "slot p j \<noteq> slot p k" using slot_inj assms(3) j by metis
    moreover have "slot p j \<notin> words_of (rtree ch m l (m (slot p k)))"
      using wf(2) [of k] assms(3) slot_in_page [OF j(1), of p] by auto
    moreover have "slot p j \<in> words_of (rtree ch m (Suc l) e)"
      using slot_in_page [OF j(1), of p] unfolding t words_of_Node by blast
    ultimately have eq: "m' (slot p j) = m (slot p j)" using assms(4) by metis
    have "rtree ch m' l (m (slot p j)) = rtree ch m l (m (slot p j))"
    proof (rule rtree_cong)
      fix w assume w: "w \<in> words_of (rtree ch m l (m (slot p j)))"
      then have "w \<in> words_of (rtree ch m (Suc l) e)" using j(1) unfolding t words_of_Node by auto
      moreover have "w \<noteq> slot p k" using wf(2) [of j] w j(1) slot_in_page [OF assms(3), of p] by auto
      moreover have "w \<notin> words_of (rtree ch m l (m (slot p k)))" using wf(3) [of j k] w j assms(3) by auto
      ultimately show "m' w = m w" using assms(4) by metis
    qed
    with eq show ?thesis by simp
  qed
  then have "map (\<lambda>j. rtree ch m' l (m' (slot p j))) [0..<entries] = ?ts[k := rtree ch m' l (m' (slot p k))]"
    using assms(3) by (intro nth_equalityI) (auto simp: nth_list_update)
  then show ?thesis using assms(2) by simp
qed

text \<open>The slot that a path leads to is the start of the path or a word of the tree.\<close>

lemma rslot_words:
  assumes "rslot ch s n i l a = Some b"
  shows "b = a \<or> (\<exists>w. b = Word w \<and> w \<in> words_of (stree ch s l a))"
    and "words_of (stree ch s n b) \<subseteq> words_of (stree ch s l a)"
  using assms
proof (induction l arbitrary: a)
  case (Suc l)
  have step: "rslot ch s n i l (Word (slot p (idx l i))) = Some b \<and> slot p (idx l i) \<in> words_of (stree ch s (Suc l) a) \<and>
      words_of (stree ch s l (Word (slot p (idx l i)))) \<subseteq> words_of (stree ch s (Suc l) a)"
    if "n \<noteq> Suc l" "ch (Suc l) (rd s a) = Some p" "rslot ch s n i (Suc l) a = Some b" for p a
    using that slot_in_page [OF idx_less, of p l i] by (force simp: words_of_Node)
  { case 1
    show ?case
    proof (cases "n = Suc l")
      case False
      with 1 obtain p where "ch (Suc l) (rd s a) = Some p" by (auto split: option.splits)
      note st = step [OF False this 1]
      from Suc.IH(1) [OF conjunct1 [OF st]] st show ?thesis by blast
    qed (use 1 in simp)
  }
  { case 2
    show ?case
    proof (cases "n = Suc l")
      case False
      with 2 obtain p where "ch (Suc l) (rd s a) = Some p" by (auto split: option.splits)
      note st = step [OF False this 2]
      from Suc.IH(2) [OF conjunct1 [OF st]] st show ?thesis by blast
    qed (use 2 in simp)
  }
qed (auto split: if_splits)

text \<open>Writing a subtree through the slot that a path leads to.\<close>

lemma rtree_put:
  assumes "rslot ch s n i l a = Some b" "wf_rt (stree ch s l a)" "\<And>w. a = Word w \<Longrightarrow> w \<notin> words_of (stree ch s l a)"
    and "a \<noteq> b \<Longrightarrow> rd s' a = rd s a"
    and "\<And>w. w \<in> words_of (stree ch s l a) \<Longrightarrow> b \<noteq> Word w \<Longrightarrow> w \<notin> words_of (stree ch s n b) \<Longrightarrow> mem s' w = mem s w"
  shows "stree ch s' l a = tput (stree ch s' n b) i n l (stree ch s l a)"
  using assms
proof (induction l arbitrary: a)
  case 0
  then show ?case by (simp split: if_splits)
next
  case (Suc l)
  show ?case
  proof (cases "n = Suc l")
    case True
    with Suc.prems(1) show ?thesis by simp
  next
    case False
    with Suc.prems(1) obtain p where p: "ch (Suc l) (rd s a) = Some p"
      and r: "rslot ch s n i l (Word (slot p (idx l i))) = Some b" by (auto split: option.splits)
    let ?c = "slot p (idx l i)"
    let ?ts = "map (\<lambda>k. rtree ch (mem s) l (mem s (slot p k))) [0..<entries]"
    have t: "stree ch s (Suc l) a = Node p ?ts" using p by simp
    note wf = wf_rt_Node [OF Suc.prems(2) [unfolded t]]
    have cw: "?c \<in> page_words p" by (simp add: slot_in_page)
    have wc: "wf_rt (stree ch s l (Word ?c))" using wf(1) [of "idx l i"] by simp
    have cn: "?c \<notin> words_of (stree ch s l (Word ?c))" using wf(2) [of "idx l i"] cw by auto
    have sub: "words_of (stree ch s l (Word ?c)) \<subseteq> words_of (stree ch s (Suc l) a)"
      unfolding t words_of_Node by force
    have bin: "b = Word ?c \<or> (\<exists>w. b = Word w \<and> w \<in> words_of (stree ch s l (Word ?c)))"
      and sb: "words_of (stree ch s n b) \<subseteq> words_of (stree ch s l (Word ?c))"
      using rslot_words [OF r] by auto
    have "?c \<in> words_of (stree ch s (Suc l) a)" using cw unfolding t words_of_Node by blast
    then have ab: "a \<noteq> b" using bin sub Suc.prems(3) by auto
    have "stree ch s' (Suc l) a = rtree ch (mem s') (Suc l) (rd s a)" using Suc.prems(4) ab by simp
    also have "\<dots> = Node p (?ts[idx l i := rtree ch (mem s') l (mem s' ?c)])"
      using Suc.prems(2) p bin sb by (intro rtree_child Suc.prems(5)) auto
    also have "rtree ch (mem s') l (mem s' ?c) = stree ch s' l (Word ?c)" by simp
    also have "\<dots> = tput (stree ch s' n b) i n l (stree ch s l (Word ?c))"
      using wc cn sub sb \<open>?c \<in> words_of (stree ch s (Suc l) a)\<close>
      by (intro Suc.IH [OF r]) (auto intro!: Suc.prems(5))
    finally show ?thesis using False t by simp
  qed
qed

lemma rslot_pages:
  "rslot ch s n i l a = Some b \<Longrightarrow> set (pages_of (stree ch s n b)) \<subseteq> set (pages_of (stree ch s l a))"
proof (induction l arbitrary: a)
  case (Suc l)
  show ?case
  proof (cases "n = Suc l")
    case False
    with Suc.prems obtain p where p: "ch (Suc l) (rd s a) = Some p"
      "rslot ch s n i l (Word (slot p (idx l i))) = Some b" by (auto split: option.splits)
    have "set (pages_of (stree ch s l (Word (slot p (idx l i))))) \<subseteq> set (pages_of (stree ch s (Suc l) a))"
      using p(1) idx_less [of l i] by auto
    then show ?thesis using Suc.IH [OF p(2)] by blast
  qed (use Suc.prems in simp)
qed (simp split: if_splits)

lemma rslot_wf: "rslot ch s n i l a = Some b \<Longrightarrow> wf_rt (stree ch s l a) \<Longrightarrow> wf_rt (stree ch s n b)"
proof (induction l arbitrary: a)
  case (Suc l)
  show ?case
  proof (cases "n = Suc l")
    case False
    with Suc.prems(1) obtain p where p: "ch (Suc l) (rd s a) = Some p"
      "rslot ch s n i l (Word (slot p (idx l i))) = Some b" by (auto split: option.splits)
    then have "wf_rt (stree ch s l (Word (slot p (idx l i))))"
      using wf_rt_Node(1) [of p "map (\<lambda>k. rtree ch (mem s) l (mem s (slot p k))) [0..<entries]" "idx l i"] Suc.prems(2) by simp
    then show ?thesis using Suc.IH [OF p(2)] by simp
  qed (use Suc.prems in simp)
qed (simp split: if_splits)

text \<open>The slot does not lie in the subtree it holds.\<close>

lemma rslot_own:
  assumes "rslot ch s n i l a = Some b" "wf_rt (stree ch s l a)" "\<And>w. a = Word w \<Longrightarrow> w \<notin> words_of (stree ch s l a)"
  shows "b = Word w \<Longrightarrow> w \<notin> words_of (stree ch s n b)"
  using assms
proof (induction l arbitrary: a)
  case (Suc l)
  show ?case
  proof (cases "n = Suc l")
    case False
    with Suc.prems(2) obtain p where p: "ch (Suc l) (rd s a) = Some p"
      "rslot ch s n i l (Word (slot p (idx l i))) = Some b" by (auto split: option.splits)
    let ?ts = "map (\<lambda>k. rtree ch (mem s) l (mem s (slot p k))) [0..<entries]"
    have t: "stree ch s (Suc l) a = Node p ?ts" using p(1) by simp
    note wf = wf_rt_Node [OF Suc.prems(3) [unfolded t], of "idx l i"]
    have "slot p (idx l i) \<notin> words_of (stree ch s l (Word (slot p (idx l i))))"
      using wf(2) slot_in_page [OF idx_less, of p l i] by auto
    then show ?thesis using Suc.IH [OF Suc.prems(1) p(2)] wf(1) by auto
  qed (use Suc.prems in auto)
qed (auto split: if_splits)

text \<open>Two indices that differ only in the slot of level \<open>n\<close> lead to slots of the same table, also after a write.\<close>

lemma rslot_sibling:
  assumes "rslot ch s n i l a = Some b" "n < l" "\<forall>m. n < m \<and> m < l \<longrightarrow> idx m i = idx m i'"
    and "wf_rt (stree ch s l a)" "\<And>w. a = Word w \<Longrightarrow> w \<notin> words_of (stree ch s l a)"
  shows "\<exists>p. b = Word (slot p (idx n i)) \<and> rslot ch s n i' l a = Some (Word (slot p (idx n i'))) \<and>
    rslot ch (wr b v s) n i' l a = Some (Word (slot p (idx n i')))"
  using assms
proof (induction l arbitrary: a)
  case (Suc l)
  then have ne: "n \<noteq> Suc l" by simp
  with Suc.prems(1) obtain p where p: "ch (Suc l) (rd s a) = Some p"
    "rslot ch s n i l (Word (slot p (idx l i))) = Some b" by (auto split: option.splits)
  let ?ts = "map (\<lambda>k. rtree ch (mem s) l (mem s (slot p k))) [0..<entries]"
  have t: "stree ch s (Suc l) a = Node p ?ts" using p(1) by simp
  note wf = wf_rt_Node [OF Suc.prems(4) [unfolded t], of "idx l i"]
  have sl: "slot p (idx l i) \<in> page_words p" by (simp add: slot_in_page)
  have own: "slot p (idx l i) \<notin> words_of (stree ch s l (Word (slot p (idx l i))))" using wf(2) sl by auto
  have "words_of (?ts ! idx l i) \<subseteq> words_of (Node p ?ts)" unfolding words_of_Node by force
  then have "\<exists>w. b = Word w \<and> w \<in> words_of (stree ch s (Suc l) a)"
    using rslot_words(1) [OF p(2)] sl unfolding t words_of_Node by auto
  then have "b \<noteq> a" using Suc.prems(5) by auto
  then have ra: "rd (wr b v s) a = rd s a" by simp
  show ?case
  proof (cases "n = l")
    case True
    with p have "b = Word (slot p (idx n i))" by (cases l) (auto split: if_splits)
    then show ?thesis using p(1) ra ne True by (cases n) auto
  next
    case False
    then have "idx l i = idx l i'" "n < l" using Suc.prems(2,3) by auto
    moreover from Suc.IH [OF p(2)] this Suc.prems(3) wf(1) own obtain q where
      "b = Word (slot q (idx n i)) \<and> rslot ch s n i' l (Word (slot p (idx l i))) = Some (Word (slot q (idx n i'))) \<and>
       rslot ch (wr b v s) n i' l (Word (slot p (idx l i))) = Some (Word (slot q (idx n i')))" by auto
    ultimately show ?thesis using p(1) ra ne by auto
  qed
qed simp

lemma rslot_cong: "mem s' = mem s \<Longrightarrow> root_of s' = root_of s \<Longrightarrow> rslot ch s' n i l a = rslot ch s n i l a"
  by (induction l arbitrary: a) (auto simp: rd_def split: option.splits loc.splits)

subsection \<open>Leaves after a replacement\<close>

fun full :: "rt \<Rightarrow> bool" where
  "full (Leaf e) \<longleftrightarrow> True"
| "full (Node p ts) \<longleftrightarrow> length ts = entries \<and> (\<forall>t\<in>set ts. full t)"

lemma full_rtree [simp]: "full (rtree ch m l e)"
  by (induction l arbitrary: e) (auto simp: rtree.simps split: option.splits)

fun tpath :: "nat \<Rightarrow> nat \<Rightarrow> nat \<Rightarrow> rt \<Rightarrow> bool" where
  "tpath n i 0 t \<longleftrightarrow> n = 0"
| "tpath n i (Suc l) t \<longleftrightarrow> n = Suc l \<or> (\<exists>p ts. t = Node p ts \<and> tpath n i l (ts ! idx l i))"

lemma rslot_tpath: "rslot ch s n i l a = Some b \<Longrightarrow> tpath n i l (stree ch s l a)"
proof (induction l arbitrary: a)
  case (Suc l)
  then show ?case using Suc.IH [of "Word (slot p (idx l i))" for p] by (auto split: if_splits option.splits)
qed (simp split: if_splits)

text \<open>The slot holds the leaf, or a subtree with the leaf, that the index selects.\<close>

lemma rslot_tleaf: "rslot ch s n i l a = Some b \<Longrightarrow> tleaf l (stree ch s l a) i = tleaf n (stree ch s n b) i"
proof (induction l arbitrary: a)
  case (Suc l)
  show ?case
  proof (cases "n = Suc l")
    case False
    with Suc.prems obtain p where p: "ch (Suc l) (rd s a) = Some p"
      "rslot ch s n i l (Word (slot p (idx l i))) = Some b" by (auto split: option.splits)
    then show ?thesis using Suc.IH [OF p(2)] by simp
  qed (use Suc.prems in simp)
qed (simp split: if_splits)

text \<open>Two indices select the same slot of level \<open>n\<close> below an entry of level \<open>l\<close>.\<close>

definition same_slot :: "nat \<Rightarrow> nat \<Rightarrow> nat \<Rightarrow> nat \<Rightarrow> bool" where
  "same_slot n l i j \<longleftrightarrow> (\<forall>m. n \<le> m \<and> m < l \<longrightarrow> idx m i = idx m j)"

lemma same_slot_Suc: "n \<le> l \<Longrightarrow> same_slot n (Suc l) i j \<longleftrightarrow> idx l i = idx l j \<and> same_slot n l i j"
  unfolding same_slot_def by (metis less_Suc_eq)

lemma tpath_le: "tpath n i l t \<Longrightarrow> n \<le> l"
  by (induction l arbitrary: t) force+

lemma tleaf_tput:
  assumes "tpath n i l t" "full t"
  shows "tleaf l (tput u i n l t) j = (if same_slot n l i j then tleaf n u j else tleaf l t j)"
  using assms
proof (induction l arbitrary: t)
  case 0
  then show ?case by (simp add: same_slot_def)
next
  case (Suc l)
  show ?case
  proof (cases "n = Suc l")
    case True
    then show ?thesis by (simp add: same_slot_def)
  next
    case False
    with Suc.prems(1) obtain p ts where t: "t = Node p ts" "tpath n i l (ts ! idx l i)" by auto
    have n: "n \<le> l" using t(2) by (rule tpath_le)
    have len: "length ts = entries" "full (ts ! idx l i)" using Suc.prems(2) t(1) by auto
    show ?thesis using False t(1) len Suc.IH [OF t(2) len(2)] same_slot_Suc [OF n, of i j]
      by (cases "idx l i = idx l j") auto
  qed
qed

lemma set_pages_tput: "set (pages_of (tput u i n l t)) \<subseteq> set (pages_of u) \<union> set (pages_of t)"
proof (induction l arbitrary: t)
  case (Suc l)
  show ?case
  proof (cases t)
    case (Node p ts)
    show ?thesis
    proof (cases "idx l i < length ts")
      case True
      then have "set (pages_of (tput u i n l (ts ! idx l i))) \<subseteq> set (pages_of u) \<union> set (concat (map pages_of ts))"
        using Suc.IH [of "ts ! idx l i"] by force
      then show ?thesis using Node set_update_subset_insert [of ts "idx l i" "tput u i n l (ts ! idx l i)"] by auto
    qed (use Node in \<open>auto simp: list_update_beyond\<close>)
  qed auto
qed simp

lemma wf_rt_tput_leaf: "wf_rt t \<Longrightarrow> wf_rt (tput (Leaf v) i n l t)"
proof (induction l arbitrary: t)
  case (Suc l)
  show ?case
  proof (cases t)
    case (Node p ts)
    show ?thesis
    proof (cases "idx l i < length ts")
      case True
      have "wf_rt (tput (Leaf v) i n l (ts ! idx l i))"
        using Suc wf_rt_Node(1) True unfolding Node by blast
      moreover have "set (pages_of (tput (Leaf v) i n l (ts ! idx l i))) \<subseteq> set (pages_of (ts ! idx l i))"
        using set_pages_tput [of "Leaf v" i n l "ts ! idx l i"] by simp
      ultimately have "wf_rt (Node p (ts[idx l i := tput (Leaf v) i n l (ts ! idx l i)]))"
        using wf_rt_update [OF Suc.prems [unfolded Node] True] by blast
      then show ?thesis using Node by simp
    qed (use Suc.prems Node in \<open>simp add: list_update_beyond\<close>)
  qed simp
qed simp

text \<open>A leaf that replaces the subtree of a slot drops the pages of that subtree.\<close>

lemma tput_drops:
  assumes "rslot ch s n i l a = Some b" "wf_rt (stree ch s l a)"
  shows "set (pages_of (tput (Leaf v) i n l (stree ch s l a))) \<inter> set (pages_of (stree ch s n b)) = {}"
  using assms
proof (induction l arbitrary: a)
  case (Suc l)
  show ?case
  proof (cases "n = Suc l")
    case False
    with Suc.prems(1) obtain p where p: "ch (Suc l) (rd s a) = Some p"
      "rslot ch s n i l (Word (slot p (idx l i))) = Some b" by (auto split: option.splits)
    let ?k = "idx l i" let ?ts = "map (\<lambda>k. rtree ch (mem s) l (mem s (slot p k))) [0..<entries]"
    have t: "stree ch s (Suc l) a = Node p ?ts" using p(1) by simp
    note wf = wf_rt_Node [OF Suc.prems(2) [unfolded t], of ?k]
    have c: "?ts ! ?k = stree ch s l (Word (slot p ?k))" by simp
    have IH: "set (pages_of (tput (Leaf v) i n l (?ts ! ?k))) \<inter> set (pages_of (stree ch s n b)) = {}"
      using Suc.IH [OF p(2)] wf(1) by simp
    have sub: "set (pages_of (stree ch s n b)) \<subseteq> set (pages_of (?ts ! ?k))" using rslot_pages [OF p(2)] c by simp
    have "distinct (pages_of (Node p ?ts))" using Suc.prems(2) unfolding t wf_rt_def by simp
    then have d: "p \<notin> set (concat (map pages_of ?ts))" "distinct (concat (map pages_of ?ts))" by auto
    have dj: "set (pages_of (?ts ! j)) \<inter> set (pages_of (?ts ! ?k)) = {}" if "j < entries" "j \<noteq> ?k" for j
      using d(2) that unfolding distinct_concat_nth by simp
    have np: "p \<notin> set (pages_of (?ts ! ?k))" using d(1) by auto
    have cov: "set (pages_of (Node p (?ts[?k := tput (Leaf v) i n l (?ts ! ?k)]))) \<subseteq>
      insert p (set (pages_of (tput (Leaf v) i n l (?ts ! ?k))) \<union> (\<Union>j\<in>{..<entries} - {?k}. set (pages_of (?ts ! j))))"
      unfolding pages_of.simps list.set set_concat_nth by (auto simp: nth_list_update split: if_splits)
    have "y \<notin> set (pages_of (stree ch s n b))" if "y \<in> set (pages_of (Node p (?ts[?k := tput (Leaf v) i n l (?ts ! ?k)])))" for y
    proof -
      from cov that consider "y = p" | "y \<in> set (pages_of (tput (Leaf v) i n l (?ts ! ?k)))"
        | j where "j < entries" "j \<noteq> ?k" "y \<in> set (pages_of (?ts ! j))" by blast
      then show ?thesis using sub np IH dj by cases blast+
    qed
    moreover have "tput (Leaf v) i n (Suc l) (stree ch s (Suc l) a) = Node p (?ts[?k := tput (Leaf v) i n l (?ts ! ?k)])"
      unfolding t using False by simp
    ultimately show ?thesis by (simp only: disjoint_iff) blast
  qed simp
qed (simp split: if_splits)

section \<open>Entry formats and the allocating walk\<close>

text \<open>
  The walk both kinds of tables perform: follow the entries for index \<open>i\<close> from location \<open>a\<close> at
  level \<open>l\<close> down to level \<open>n\<close>. Where an entry refers to no table, stop if it is empty and no entry
  is wanted, otherwise make a table whose slots are \<open>ne l v k\<close> for the old entry \<open>v\<close> and install \<open>mk l p\<close>
  with a compare-and-exchange; \<open>dr\<close> is the table an entry points to, \<open>h\<close> is what happens when the exchange finds a different entry.
\<close>

fun gwalk :: "childf \<Rightarrow> (u64 \<Rightarrow> u64) \<Rightarrow> (nat \<Rightarrow> u64 \<Rightarrow> u64) \<Rightarrow> (nat \<Rightarrow> u64 \<Rightarrow> nat \<Rightarrow> u64) \<Rightarrow>
    (nat \<Rightarrow> loc \<Rightarrow> u64 \<Rightarrow> u64 \<Rightarrow> 'a tables_scheme \<Rightarrow> (walk_result \<times> 'a tables_scheme) option) \<Rightarrow>
    nat \<Rightarrow> nat \<Rightarrow> bool \<Rightarrow> nat \<Rightarrow> loc \<Rightarrow> 'a tables_scheme \<Rightarrow> (walk_result \<times> 'a tables_scheme) option" where
  "gwalk ch dr mk ne h n i e 0 a s = Some (Slot a, s)"
| "gwalk ch dr mk ne h n i e (Suc l) a s = (if Suc l = n then Some (Slot a, s) else
     (case ch (Suc l) (rd s a) of
        Some p \<Rightarrow> gwalk ch dr mk ne h n i e l (Word (slot p (idx l i))) s
      | None \<Rightarrow> if rd s a = 0 \<and> \<not> e then Some (Hole, s) else do {
          (r, s1) \<leftarrow> buddy_alloc 0 NONE s;
          case r of None \<Rightarrow> Some (Null, s1)
          | Some p \<Rightarrow>
              let (ok, v, s2) = compare_exchange a (rd s a) (mk (Suc l) p) (init_table p (ne (Suc l) (rd s a)) s1)
              in if ok then gwalk ch dr mk ne h n i e l (Word (slot (dr (mk (Suc l) p)) (idx l i))) s2 else h l a v p s2
        }))"

fun leaves_ok :: "(nat \<Rightarrow> u64 \<Rightarrow> bool) \<Rightarrow> nat \<Rightarrow> rt \<Rightarrow> bool" where
  "leaves_ok ok l (Leaf e) \<longleftrightarrow> ok l e"
| "leaves_ok ok l (Node p ts) \<longleftrightarrow> (\<forall>t\<in>set ts. leaves_ok ok (l - 1) t)"

lemma leaves_ok_tput: "leaves_ok ok l t \<Longrightarrow> ok n v \<Longrightarrow> tpath n i l t \<Longrightarrow> full t \<Longrightarrow> leaves_ok ok l (tput (Leaf v) i n l t)"
proof (induction l arbitrary: t)
  case (Suc l)
  show ?case
  proof (cases "n = Suc l")
    case False
    with Suc.prems(3) obtain p ts where t: "t = Node p ts" "tpath n i l (ts ! idx l i)" by auto
    then have "leaves_ok ok l (tput (Leaf v) i n l (ts ! idx l i))" using Suc by auto
    then show ?thesis using t(1) False Suc.prems(1) set_update_subset_insert [of ts "idx l i"] by auto
  qed (use Suc.prems in simp)
qed simp

definition same_geometry :: "'a buddy_scheme \<Rightarrow> 'a buddy_scheme \<Rightarrow> bool" where
  "same_geometry s s' \<longleftrightarrow> min_idx s' = min_idx s \<and> max_idx s' = max_idx s \<and> mem_base s' = mem_base s"

text \<open>Every page of the pool can be referred to by an entry of the format.\<close>

definition pool_ok :: "(u64 \<Rightarrow> bool) \<Rightarrow> 'a buddy_scheme \<Rightarrow> bool" where
  "pool_ok okp s \<longleftrightarrow> (\<forall>b. is_valid s b \<longrightarrow> okp (index_to_page s b))"

lemma pool_ok_same: "same_geometry s s' \<Longrightarrow> pool_ok okp s' = pool_ok okp s"
  by (simp add: same_geometry_def pool_ok_def is_valid_def index_to_page_def)

lemma root_of_more: "buddy.more s' = buddy.more s \<Longrightarrow> root_of s' = root_of (s :: 'a tables_scheme)"
  by (cases s; cases s') simp

text \<open>Allocating a page for a table.\<close>

lemma table_alloc:
  fixes s :: "'a tables_scheme"
  assumes "page_inv s L"
  shows "buddy_alloc 0 NONE s = Some (None, s) \<or>
    (\<exists>p s1. buddy_alloc 0 NONE s = Some (Some p, s1) \<and> p \<notin> L \<and> page_inv s1 (insert p L) \<and> mem s1 = mem s \<and>
      root_of s1 = root_of s \<and> same_geometry s s1 \<and> (\<exists>b. is_valid s b \<and> p = index_to_page s b) \<and>
      4096 dvd unat p \<and> p \<noteq> 0)"
proof -
  obtain A where A: "buddy_inv s A" using assms by (auto simp: page_inv_def)
  from buddy_alloc_spec [OF A, of 0 NONE] show ?thesis
  proof
    assume "\<exists>b s1. buddy_alloc 0 NONE s = Some (Some (index_to_page s b), s1) \<and> alloc_ok 0 A s b s1"
    then obtain b s1 where al: "buddy_alloc 0 NONE s = Some (Some (index_to_page s b), s1)" and ok: "alloc_ok 0 A s b s1"
      by blast
    then have sp: "same_pool s s1" and i1: "buddy_inv s1 (insert (b, 0) A)" by (auto simp: alloc_ok_def)
    have "is_valid s b" using allocated_idx(1) [OF i1, of b 0] sp by (simp add: is_valid_def same_pool_def)
    moreover have p: "index_to_page s b \<notin> L" "page_inv s1 (insert (index_to_page s b) L)"
      using page_inv_alloc [OF assms, of NONE] al by auto
    moreover have "mem s1 = mem s" using buddy_alloc_mem [OF al] by auto
    moreover have "root_of s1 = root_of s" "same_geometry s s1"
      using sp root_of_more [of s1 s] by (auto simp: same_pool_def same_geometry_def)
    moreover have "4096 dvd unat (index_to_page s b) \<and> index_to_page s b \<noteq> 0"
      using page_inv_aligned [OF p(2)] by simp
    ultimately show ?thesis using al by blast
  qed blast
qed

text \<open>Freeing the page of a table.\<close>

lemma table_free:
  fixes s :: "'a tables_scheme"
  assumes "page_inv s L" "p \<in> L"
  shows "\<exists>s'. buddy_free p s = Some s' \<and> page_inv s' (L - {p}) \<and> mem s' = mem s \<and> root_of s' = root_of s \<and> same_geometry s s'"
proof -
  from assms obtain A b where A: "buddy_inv s A" "p = index_to_page s b" "(b, 0) \<in> A" "b \<notin> set (waitlist s)"
    unfolding page_inv_def by blast
  from buddy_free_spec [OF A(1,3,4)] obtain s1 where s1: "buddy_free p s = Some s1" "same_rest s s1" unfolding A(2) by blast
  moreover from page_inv_free [OF assms] s1(1) have "page_inv s1 (L - {p})" by auto
  ultimately show ?thesis using root_of_more [of s1 s] by (auto simp: same_rest_def same_pool_def same_geometry_def)
qed

text \<open>Handing the page of a table to the waitlist.\<close>

lemma table_wait:
  fixes s :: "'a tables_scheme"
  assumes "page_inv s L" "p \<in> L"
  shows "\<exists>s'. buddy_wait p s = Some s' \<and> page_inv s' (L - {p}) \<and> mem s' = mem s \<and> root_of s' = root_of s \<and> same_geometry s s'"
proof -
  from assms obtain A b where A: "buddy_inv s A" "L \<subseteq> index_to_page s ` {b. (b, 0) \<in> A \<and> b \<notin> set (waitlist s)}"
    "p = index_to_page s b" "(b, 0) \<in> A" "b \<notin> set (waitlist s)" unfolding page_inv_def by blast
  let ?s = "s\<lparr>waitlist := b # waitlist s\<rparr>"
  note w = buddy_wait_spec [OF A(1,4,5)]
  have "index_to_page ?s = index_to_page s" by (simp add: fun_eq_iff index_to_page_def)
  then have "L - {p} \<subseteq> index_to_page ?s ` {b. (b, 0) \<in> A \<and> b \<notin> set (waitlist ?s)}" using A(2,3) by auto
  then have "page_inv ?s (L - {p})" using w(2) unfolding page_inv_def by blast
  then show ?thesis using w(1) unfolding A(3) by (auto simp: same_geometry_def)
qed

text \<open>A loop over the slots of a table that gives up the pages \<open>P k\<close> below slot \<open>k\<close>.\<close>

lemma fold_release:
  fixes s :: "'a tables_scheme" and P :: "nat \<Rightarrow> u64 set"
  assumes "page_inv s L" "\<And>k. k < n \<Longrightarrow> P k \<subseteq> L" "\<And>j k. j < k \<Longrightarrow> k < n \<Longrightarrow> P j \<inter> P k = {}"
    and step: "\<And>k (s1 :: 'a tables_scheme) L1. k < n \<Longrightarrow> page_inv s1 L1 \<Longrightarrow> P k \<subseteq> L1 \<Longrightarrow> mem s1 = mem s \<Longrightarrow> root_of s1 = root_of s \<Longrightarrow>
      same_geometry s s1 \<Longrightarrow>
      \<exists>s2. f k s1 = Some s2 \<and> page_inv s2 (L1 - P k) \<and> mem s2 = mem s \<and> root_of s2 = root_of s \<and> same_geometry s s2"
  shows "\<exists>s'. foldM f [0..<n] s = Some s' \<and> page_inv s' (L - (\<Union>k<n. P k)) \<and> mem s' = mem s \<and> root_of s' = root_of s \<and> same_geometry s s'"
proof -
  let ?I = "\<lambda>xs (s' :: 'a tables_scheme). \<exists>k\<le>n. xs = [k..<n] \<and> page_inv s' (L - (\<Union>j<k. P j)) \<and> mem s' = mem s \<and>
    root_of s' = root_of s \<and> same_geometry s s'"
  have "?I [0..<n] s" using assms(1) by (intro exI [of _ 0]) (simp add: same_geometry_def)
  then have "\<exists>s1. foldM f [0..<n] s = Some s1 \<and> ?I [] s1"
  proof (rule foldM_invariant)
    fix i xs s1 assume "?I (i # xs) s1"
    then obtain k where k: "k \<le> n" "i # xs = [k..<n]" "page_inv s1 (L - (\<Union>j<k. P j))" "mem s1 = mem s" "root_of s1 = root_of s"
      "same_geometry s s1" by blast
    then have lt: "k < n" by (cases "k < n") auto
    then have ik: "i = k" "xs = [Suc k..<n]" using k(2) by (auto simp: upt_conv_Cons)
    have "P k \<subseteq> L - (\<Union>j<k. P j)" using assms(2,3) lt by blast
    from step [OF lt k(3) this k(4-6)] obtain s2 where s2: "f k s1 = Some s2" "page_inv s2 (L - (\<Union>j<k. P j) - P k)"
      "mem s2 = mem s" "root_of s2 = root_of s" "same_geometry s s2" by blast
    moreover have "L - (\<Union>j<k. P j) - P k = L - (\<Union>j<Suc k. P j)" by (auto simp: lessThan_Suc)
    ultimately show "\<exists>s2. f i s1 = Some s2 \<and> ?I xs s2" using ik lt by (intro exI [of _ s2] conjI exI [of _ "Suc k"]) auto
  qed
  then obtain s1 k where k: "foldM f [0..<n] s = Some s1" "k \<le> n" "[] = [k..<n]" "page_inv s1 (L - (\<Union>j<k. P j))"
    "mem s1 = mem s" "root_of s1 = root_of s" "same_geometry s s1" by blast
  then have "k = n" using upt_conv_Cons [of k n] by (cases "k < n") auto
  with k show ?thesis by blast
qed

locale radix_fmt =
  fixes ch :: childf
    and dr :: "u64 \<Rightarrow> u64"
    and mk :: "nat \<Rightarrow> u64 \<Rightarrow> u64"
    and ne :: "nat \<Rightarrow> u64 \<Rightarrow> nat \<Rightarrow> u64"
    and okp :: "u64 \<Rightarrow> bool"
    and okl :: "nat \<Rightarrow> u64 \<Rightarrow> bool"
    and sem :: "nat \<Rightarrow> u64 \<Rightarrow> nat \<Rightarrow> 'v"
    and top :: nat
  assumes ch_dr: "ch l v = Some p \<Longrightarrow> dr v = p"
    and mk_child: "0 < l \<Longrightarrow> l \<le> top \<Longrightarrow> okp p \<Longrightarrow> 4096 dvd unat p \<Longrightarrow> p \<noteq> 0 \<Longrightarrow> ch l (mk l p) = Some p"
    and ne_leaf: "0 < l \<Longrightarrow> l \<le> top \<Longrightarrow> okl l v \<Longrightarrow> ch l v = None \<Longrightarrow> k < entries \<Longrightarrow>
      ch (l - 1) (ne l v k) = None \<and> okl (l - 1) (ne l v k)"
    and ne_sem: "0 < l \<Longrightarrow> l \<le> top \<Longrightarrow> okl l v \<Longrightarrow> ch l v = None \<Longrightarrow> sem (l - 1) (ne l v (idx (l - 1) i)) i = sem l v i"
begin

text \<open>What an index of a tree means.\<close>

definition tsem :: "nat \<Rightarrow> rt \<Rightarrow> nat \<Rightarrow> 'v" where
  "tsem l t i = (case tleaf l t i of (j, v) \<Rightarrow> sem j v i)"

definition tree_ok :: "'a tables_scheme \<Rightarrow> u64 set \<Rightarrow> nat \<Rightarrow> loc \<Rightarrow> bool" where
  "tree_ok s L l a \<longleftrightarrow> page_inv s L \<and> wf_rt (stree ch s l a) \<and> set (pages_of (stree ch s l a)) \<subseteq> L \<and>
     leaves_ok okl l (stree ch s l a) \<and> pool_ok okp s \<and>
     (\<forall>w. a = Word w \<longrightarrow> w \<notin> words_of (stree ch s l a) \<and> (\<exists>q\<in>L. w \<in> page_words q))"

text \<open>\<open>s'\<close> has the same tree contents as \<open>s\<close>, with the new table pages \<open>N\<close>; nothing else changed.\<close>

definition grown :: "'a tables_scheme \<Rightarrow> u64 set \<Rightarrow> nat \<Rightarrow> loc \<Rightarrow> 'a tables_scheme \<Rightarrow> u64 set \<Rightarrow> bool" where
  "grown s L l a s' N \<longleftrightarrow> tree_ok s' (L \<union> N) l a \<and> N \<inter> L = {} \<and> same_geometry s s' \<and>
     set (pages_of (stree ch s' l a)) = set (pages_of (stree ch s l a)) \<union> N \<and>
     (\<forall>i. tsem l (stree ch s' l a) i = tsem l (stree ch s l a) i) \<and>
     (\<forall>w. w \<notin> words_of (stree ch s' l a) \<longrightarrow> a \<noteq> Word w \<longrightarrow> mem s' w = mem s w) \<and>
     (\<forall>r. a \<noteq> Root r \<longrightarrow> root_of s' r = root_of s r)"

lemma grown_refl: "tree_ok s L l a \<Longrightarrow> grown s L l a s {}"
  by (simp add: grown_def same_geometry_def)

lemma grown_trans:
  assumes "grown s L l a s1 N1" "grown s1 (L \<union> N1) l a s2 N2"
  shows "grown s L l a s2 (N1 \<union> N2)"
proof -
  have sub: "words_of (stree ch s1 l a) \<subseteq> words_of (stree ch s2 l a)"
    using assms(2) by (auto simp: grown_def words_of_def)
  have "mem s2 w = mem s w" if "w \<notin> words_of (stree ch s2 l a)" "a \<noteq> Word w" for w
    using assms that sub by (auto simp: grown_def)
  then show ?thesis
    using assms by (auto simp: grown_def same_geometry_def Un_assoc)
qed

lemma tree_ok_child:
  assumes "tree_ok s L (Suc l) a" "ch (Suc l) (rd s a) = Some p" "k < entries"
  shows "tree_ok s L l (Word (slot p k))" and "slot p k \<in> words_of (stree ch s (Suc l) a)"
    and "words_of (stree ch s l (Word (slot p k))) \<subseteq> words_of (stree ch s (Suc l) a)"
proof -
  let ?ts = "map (\<lambda>k. rtree ch (mem s) l (mem s (slot p k))) [0..<entries]"
  have t: "stree ch s (Suc l) a = Node p ?ts" using assms(2) by simp
  have inv: "wf_rt (Node p ?ts)" "set (pages_of (Node p ?ts)) \<subseteq> L" "leaves_ok okl (Suc l) (Node p ?ts)"
    using assms(1) unfolding tree_ok_def t by auto
  note wf = wf_rt_Node [OF inv(1), of k]
  have sl: "slot p k \<in> page_words p" using assms(3) by (rule slot_in_page)
  then show "slot p k \<in> words_of (stree ch s (Suc l) a)" unfolding t words_of_Node by blast
  show "words_of (stree ch s l (Word (slot p k))) \<subseteq> words_of (stree ch s (Suc l) a)"
    unfolding t words_of_Node using assms(3) by force
  have "set (pages_of (?ts ! k)) \<subseteq> set (pages_of (Node p ?ts))" using assms(3) by auto
  then have "set (pages_of (?ts ! k)) \<subseteq> L" "p \<in> L" using inv(2) by auto
  moreover have "leaves_ok okl l (?ts ! k)" using inv(3) assms(3) by simp
  moreover have "slot p k \<notin> words_of (?ts ! k)" using wf(2) sl assms(3) by auto
  ultimately show "tree_ok s L l (Word (slot p k))"
    using assms(1,3) wf(1) sl unfolding tree_ok_def by auto
qed

text \<open>Growing a child grows the tree.\<close>

lemma grown_child:
  assumes ok: "tree_ok s L (Suc l) a" and p: "ch (Suc l) (rd s a) = Some p" and k: "k < entries"
    and g: "grown s L l (Word (slot p k)) s' N"
  shows "grown s L (Suc l) a s' N" and "rd s' a = rd s a"
proof -
  let ?ts = "map (\<lambda>k. rtree ch (mem s) l (mem s (slot p k))) [0..<entries]"
  let ?c = "Word (slot p k)" let ?u = "stree ch s l ?c" let ?u' = "stree ch s' l ?c"
  have t: "stree ch s (Suc l) a = Node p ?ts" using p by simp
  note c = tree_ok_child [OF ok p k]
  have wf: "wf_rt (Node p ?ts)" and tL: "set (pages_of (Node p ?ts)) \<subseteq> L" and lo: "leaves_ok okl (Suc l) (Node p ?ts)"
    using ok unfolding tree_ok_def t by auto
  have g': "page_inv s' (L \<union> N)" "N \<inter> L = {}" "set (pages_of ?u') = set (pages_of ?u) \<union> N" "wf_rt ?u'"
    "leaves_ok okl l ?u'" "pool_ok okp s'"
    and gf: "\<And>w. w \<notin> words_of ?u' \<Longrightarrow> w \<noteq> slot p k \<Longrightarrow> mem s' w = mem s w" "root_of s' = root_of s"
    using g unfolding grown_def tree_ok_def by auto
  have al: "aligned (L \<union> N)" using page_inv_aligned [OF g'(1)] by (auto simp: aligned_def)
  have new: "w \<notin> words_of ?u'" if "w \<notin> words_of ?u" "w \<in> page_words q" "q \<in> L" for w q
  proof -
    have "w \<notin> page_words x" if "x \<in> N" for x
      using page_words_disjoint [of q x] al \<open>w \<in> page_words q\<close> \<open>q \<in> L\<close> that g'(2) by (auto simp: aligned_def)
    then show ?thesis using that(1) unfolding words_of_def g'(3) by blast
  qed
  have inL: "\<exists>q\<in>L. w \<in> page_words q" if "w \<in> words_of (Node p ?ts)" for w
    using that tL unfolding words_of_def by blast
  show ra: "rd s' a = rd s a"
  proof (cases a)
    case (Word w)
    then have w: "w \<notin> words_of (stree ch s (Suc l) a)" "\<exists>q\<in>L. w \<in> page_words q" using ok by (auto simp: tree_ok_def)
    then show ?thesis using new c(2,3) gf(1) [of w] Word by auto
  qed (simp add: rd_def gf(2))
  have t': "stree ch s' (Suc l) a = Node p (?ts[k := ?u'])"
  proof -
    have "rtree ch (mem s') (Suc l) (rd s a) = Node p (?ts[k := rtree ch (mem s') l (mem s' (slot p k))])"
    proof (rule rtree_child)
      fix w assume "w \<in> words_of (stree ch s (Suc l) a)" "w \<noteq> slot p k" "w \<notin> words_of (rtree ch (mem s) l (mem s (slot p k)))"
      then show "mem s' w = mem s w" using inL new gf(1) unfolding t by (metis rd_Word)
    qed (use wf t p k in auto)
    then show ?thesis by (simp add: ra)
  qed
  have len: "k < length ?ts" "?ts ! k = ?u" using k by auto
  have pg: "set (pages_of (Node p (?ts[k := ?u']))) = set (pages_of (Node p ?ts)) \<union> N"
    unfolding pages_of.simps list.set set_concat_nth using len g'(3) k
    by (auto simp: nth_list_update split: if_splits)
  have wf': "wf_rt (Node p (?ts[k := ?u']))"
    using wf_rt_update [OF wf len(1) g'(4)] g'(2,3) tL len(2) by auto
  have lo': "leaves_ok okl (Suc l) (Node p (?ts[k := ?u']))"
    using lo g'(5) set_update_subset_insert [of ?ts k ?u'] by (auto simp del: set_map)
  have sem: "tsem (Suc l) (Node p (?ts[k := ?u'])) i = tsem (Suc l) (Node p ?ts) i" for i
    using g k by (cases "idx l i = k") (auto simp: tsem_def grown_def)
  have sub: "words_of ?u' \<subseteq> words_of (Node p (?ts[k := ?u']))" "slot p k \<in> words_of (Node p (?ts[k := ?u']))"
    unfolding words_of_Node using k slot_in_page [OF k, of p] by force+
  have aw: "w \<notin> words_of (Node p (?ts[k := ?u'])) \<and> (\<exists>q\<in>L \<union> N. w \<in> page_words q)" if "a = Word w" for w
  proof -
    have w: "w \<notin> words_of (Node p ?ts)" "\<exists>q\<in>L. w \<in> page_words q" using ok that unfolding tree_ok_def t by auto
    then have "w \<notin> words_of ?u'" using new c(3) unfolding t by blast
    then show ?thesis using w g'(3) unfolding words_of_def pg by auto
  qed
  have "tree_ok s' (L \<union> N) (Suc l) a"
    unfolding tree_ok_def t' using g'(1,6) wf' pg tL lo' aw by auto
  moreover have "mem s' w = mem s w" if "w \<notin> words_of (Node p (?ts[k := ?u']))" for w
    using that sub gf(1) by blast
  moreover have "same_geometry s s'" using g by (simp add: grown_def)
  ultimately show "grown s L (Suc l) a s' N"
    unfolding grown_def t t' using pg sem gf(2) g'(2) by simp
qed

text \<open>Installing a new table in place of a leaf entry.\<close>

lemma grown_install:
  assumes ok: "tree_ok s L (Suc l) a" and leaf: "ch (Suc l) (rd s a) = None" and lt: "Suc l \<le> top"
    and s1: "page_inv s1 (insert p L)" "mem s1 = mem s" "root_of s1 = root_of s" "same_geometry s s1"
    and p: "p \<notin> L" "is_valid s b" "p = index_to_page s b" "4096 dvd unat p" "p \<noteq> 0"
    and s2: "s2 = wr a (mk (Suc l) p) (init_table p (ne (Suc l) (rd s a)) s1)"
  shows "grown s L (Suc l) a s2 {p}" and "ch (Suc l) (rd s2 a) = Some p"
    and "compare_exchange a (rd s a) (mk (Suc l) p) (init_table p (ne (Suc l) (rd s a)) s1) = (True, rd s a, s2)"
proof -
  have okl: "okl (Suc l) (rd s a)" and pool: "pool_ok okp s" using ok leaf by (auto simp: tree_ok_def)
  then have "okp p" using p(2,3) by (auto simp: pool_ok_def)
  then show r2: "ch (Suc l) (rd s2 a) = Some p" using mk_child [of "Suc l" p] lt p(4,5) s2 by simp
  have sa: "same_alloc s1 s2" using s2 by (auto simp: same_alloc_def init_table_def wr_def split: loc.splits)
  have al: "aligned (insert p L)" using page_inv_aligned [OF s1(1)] by (auto simp: aligned_def)
  have aw: "w \<notin> page_words p" "\<exists>q\<in>L. w \<in> page_words q" if a: "a = Word w" for w
  proof -
    show q: "\<exists>q\<in>L. w \<in> page_words q" using ok a by (auto simp: tree_ok_def)
    then show "w \<notin> page_words p"
      using al p(1) page_words_disjoint [of _ p] by (fastforce simp: aligned_def)
  qed
  have "rd (init_table p (ne (Suc l) (rd s a)) s1) a = rd s a"
    using aw(1) s1(2,3) by (auto simp: rd_def init_table_other split: loc.splits)
  then show "compare_exchange a (rd s a) (mk (Suc l) p) (init_table p (ne (Suc l) (rd s a)) s1) = (True, rd s a, s2)"
    by (simp add: compare_exchange_def s2)
  have m: "mem s2 (slot p k) = ne (Suc l) (rd s a) k" if "k < entries" for k
    using aw(1) slot_in_page [OF that, of p] by (auto simp: s2 mem_wr init_table_slot that)
  have sub: "rtree ch (mem s2) l (ne (Suc l) (rd s a) k) = Leaf (ne (Suc l) (rd s a) k)" if "k < entries" for k
    using ne_leaf [of "Suc l" "rd s a" k] lt okl leaf that by (cases l) auto
  have t: "stree ch s (Suc l) a = Leaf (rd s a)" using leaf by simp
  have t2: "stree ch s2 (Suc l) a = Node p (map (\<lambda>k. Leaf (ne (Suc l) (rd s a) k)) [0..<entries])"
    using r2 m sub by simp
  have w2: "words_of (stree ch s2 (Suc l) a) = page_words p" and p2: "pages_of (stree ch s2 (Suc l) a) = [p]"
    unfolding t2 by (simp_all add: words_of_def comp_def)
  have "leaves_ok okl (Suc l) (stree ch s2 (Suc l) a)"
    unfolding t2 using ne_leaf [of "Suc l" "rd s a"] lt okl leaf by auto
  moreover have geo: "same_geometry s s2" using sa s1(4) by (simp add: same_geometry_def same_alloc_def)
  moreover have "wf_rt (stree ch s2 (Suc l) a)" using p2 p(4) by (simp add: wf_rt_def aligned_def)
  ultimately have "tree_ok s2 (L \<union> {p}) (Suc l) a"
    unfolding tree_ok_def w2 p2 using page_inv_same_alloc [OF sa] s1(1) pool pool_ok_same [OF geo] aw by simp
  moreover have "tsem (Suc l) (stree ch s2 (Suc l) a) i = tsem (Suc l) (stree ch s (Suc l) a) i" for i
    unfolding t t2 using ne_sem [of "Suc l" "rd s a" i] lt okl leaf by (simp add: tsem_def)
  moreover have "mem s2 w = mem s w" if "w \<notin> page_words p" "a \<noteq> Word w" for w
    using that by (simp add: s2 mem_wr init_table_other s1(2))
  moreover have "root_of s2 r = root_of s r" if "a \<noteq> Root r" for r
    using that s1(3) by (auto simp: s2 wr_def split: loc.splits)
  ultimately show "grown s L (Suc l) a s2 {p}"
    unfolding grown_def w2 p2 using geo p(1) t by simp
qed

text \<open>The result of a walk.\<close>

definition walked :: "'a tables_scheme \<Rightarrow> nat \<Rightarrow> nat \<Rightarrow> bool \<Rightarrow> nat \<Rightarrow> loc \<Rightarrow> walk_result \<Rightarrow> bool" where
  "walked s n i e l a r \<longleftrightarrow> (case r of
     Slot b \<Rightarrow> rslot ch s n i l a = Some b
   | Hole \<Rightarrow> \<not> e \<and> snd (tleaf l (stree ch s l a) i) = 0 \<and> n < fst (tleaf l (stree ch s l a) i)
   | Null \<Rightarrow> True)"

lemma walked_child:
  assumes "walked s n i e l (Word (slot p (idx l i))) r" "ch (Suc l) (rd s a) = Some p" "n \<le> l"
  shows "walked s n i e (Suc l) a r"
  using assms by (auto simp: walked_def split: walk_result.splits)

lemma gwalk_spec:
  fixes s :: "'b tables_scheme"
  assumes "tree_ok s L l a" "l \<le> top" "n \<le> l"
  shows "\<exists>r s' N. gwalk ch dr mk ne h n i e l a s = Some (r, s') \<and> grown s L l a s' N \<and> walked s' n i e l a r"
  using assms
proof (induction l arbitrary: a s L)
  case 0
  then show ?case using grown_refl [OF 0(1)] by (auto simp: walked_def)
next
  case (Suc l)
  show ?case
  proof (cases "Suc l = n")
    case True
    then show ?thesis using grown_refl [OF Suc.prems(1)] by (auto simp: walked_def)
  next
    case False
    then have n: "n \<le> l" "l \<le> top" using Suc.prems by auto
    have step: "\<exists>r s' N. gwalk ch dr mk ne h n i e l (Word (slot p (idx l i))) s = Some (r, s') \<and>
        grown s L (Suc l) a s' N \<and> walked s' n i e (Suc l) a r"
      if ok: "tree_ok s L (Suc l) a" and p: "ch (Suc l) (rd s a) = Some p" for s :: "'b tables_scheme" and L p
    proof -
      from Suc.IH [OF tree_ok_child(1) [OF ok p idx_less] n(2,1)] obtain r s' N where
        w: "gwalk ch dr mk ne h n i e l (Word (slot p (idx l i))) s = Some (r, s')"
          "grown s L l (Word (slot p (idx l i))) s' N" "walked s' n i e l (Word (slot p (idx l i))) r" by blast
      note g = grown_child [OF ok p idx_less w(2)]
      show ?thesis using w(1) g(1) walked_child [OF w(3) _ n(1), of a] g(2) p by auto
    qed
    show ?thesis
    proof (cases "ch (Suc l) (rd s a)")
      case (Some p)
      with step [OF Suc.prems(1) Some] False show ?thesis by auto
    next
      case None
      show ?thesis
      proof (cases "rd s a = 0 \<and> \<not> e")
        case True
        then have "gwalk ch dr mk ne h n i e (Suc l) a s = Some (Hole, s)" using None False by simp
        moreover have "walked s n i e (Suc l) a Hole" using True None n by (simp add: walked_def)
        ultimately show ?thesis using grown_refl [OF Suc.prems(1)] by blast
      next
        case skip: False
        have inv: "page_inv s L" using Suc.prems(1) by (simp add: tree_ok_def)
        from table_alloc [OF inv] show ?thesis
        proof (elim disjE exE conjE)
          assume "buddy_alloc 0 NONE s = Some (None, s)"
          then have "gwalk ch dr mk ne h n i e (Suc l) a s = Some (Null, s)" using None False skip by auto
          then show ?thesis using grown_refl [OF Suc.prems(1)] by (auto simp: walked_def)
        next
          fix p s1 b
          assume al: "buddy_alloc 0 NONE s = Some (Some p, s1)" and p: "p \<notin> L" "is_valid s b" "p = index_to_page s b"
            "4096 dvd unat p" "p \<noteq> 0" and s1: "page_inv s1 (insert p L)" "mem s1 = mem s" "root_of s1 = root_of s" "same_geometry s s1"
          let ?s2 = "wr a (mk (Suc l) p) (init_table p (ne (Suc l) (rd s a)) s1)"
          note g = grown_install [OF Suc.prems(1) None Suc.prems(2) s1 p refl]
          have "tree_ok ?s2 (L \<union> {p}) (Suc l) a" using g(1) by (simp add: grown_def)
          from step [OF this g(2)] obtain r s' N where
            w: "gwalk ch dr mk ne h n i e l (Word (slot p (idx l i))) ?s2 = Some (r, s')"
              "grown ?s2 (L \<union> {p}) (Suc l) a s' N" "walked s' n i e (Suc l) a r" by blast
          have "dr (mk (Suc l) p) = p" using ch_dr [OF g(2)] by simp
          then have "gwalk ch dr mk ne h n i e (Suc l) a s = Some (r, s')" using None False skip al w(1) g(3) by auto
          then show ?thesis using grown_trans [OF g(1) w(2)] w(3) by blast
        qed
      qed
    qed
  qed
qed

text \<open>Writing a leaf entry through the slot of a finished walk.\<close>

lemma write_leaf:
  assumes ok: "tree_ok s L l a" and r: "rslot ch s n i l a = Some b" and v: "okl n v" "n = 0 \<or> ch n v = None"
  shows "stree ch (wr b v s) l a = tput (Leaf v) i n l (stree ch s l a)"
    and "tree_ok (wr b v s) L l a"
    and "tsem l (stree ch (wr b v s) l a) j = (if same_slot n l i j then sem n v j else tsem l (stree ch s l a) j)"
    and "w \<notin> words_of (stree ch s l a) \<Longrightarrow> a \<noteq> Word w \<Longrightarrow> mem (wr b v s) w = mem s w"
    and "a \<noteq> Root x \<Longrightarrow> root_of (wr b v s) x = root_of s x"
proof -
  let ?t = "stree ch s l a" let ?s = "wr b v s"
  note w = rslot_words [OF r]
  have lf: "stree ch ?s n b = Leaf v" using v(2) by (cases n) auto
  have tp: "tpath n i l ?t" using r by (rule rslot_tpath)
  show t': "stree ch ?s l a = tput (Leaf v) i n l ?t"
    using rtree_put [OF r, of ?s] ok lf by (auto simp: tree_ok_def mem_wr)
  have sub: "set (pages_of (tput (Leaf v) i n l ?t)) \<subseteq> set (pages_of ?t)"
    using set_pages_tput [of "Leaf v" i n l ?t] by simp
  then have "words_of (tput (Leaf v) i n l ?t) \<subseteq> words_of ?t" by (auto simp: words_of_def)
  moreover have "pool_ok okp ?s = pool_ok okp s"
    by (rule pool_ok_same) (simp add: same_geometry_def wr_def split: loc.splits)
  moreover have "page_inv ?s L = page_inv s L" by (rule page_inv_same_alloc) simp
  ultimately show "tree_ok ?s L l a"
    using ok wf_rt_tput_leaf leaves_ok_tput [where ok = okl, OF _ v(1) tp full_rtree] sub
    unfolding tree_ok_def t' by (auto simp: subset_iff)
  show "tsem l (stree ch ?s l a) j = (if same_slot n l i j then sem n v j else tsem l ?t j)"
    unfolding t' tsem_def tleaf_tput [OF tp full_rtree] by simp
  show "w \<notin> words_of ?t \<Longrightarrow> a \<noteq> Word w \<Longrightarrow> mem ?s w = mem s w" for w
    using w(1) by (auto simp: mem_wr)
  show "a \<noteq> Root x \<Longrightarrow> root_of ?s x = root_of s x"
    using w(1) by (auto simp: wr_def split: loc.splits)
qed

end

end
