(* ===== verification/Nova_Capability.thy ===== *)
theory Nova_Capability
  imports Nova_Prelude
begin

text \<open>
  \<^verbatim>\<open>inc/kobject.hpp\<close>, \<^verbatim>\<open>inc/capability.hpp\<close>, \<^verbatim>\<open>inc/status.hpp\<close>: kernel object headers,
  capabilities as machine words (object pointer in the upper bits, permissions in the lower
  five) and their validation. The header of the object at an address is a function
  \<open>u64 \<Rightarrow> khdr\<close>, the part of the kernel heap that the validation reads.
\<close>

section \<open>Kernel objects and status codes\<close>

datatype ktype = Type_PD | Type_EC | Type_SC | Type_PT | Type_SM

text \<open>The subtypes share their encoding: they are numbers that only mean something with the type.\<close>

type_synonym subtype = nat

definition Subtype_NONE :: subtype where "Subtype_NONE = 0"
definition EC_LOCAL :: subtype where "EC_LOCAL = 0"
definition EC_GLOBAL :: subtype where "EC_GLOBAL = 1"
definition EC_VCPU_REAL :: subtype where "EC_VCPU_REAL = 2"
definition EC_VCPU_OFFS :: subtype where "EC_VCPU_OFFS = 3"
definition Subtype_PD :: subtype where "Subtype_PD = 0"
definition Subtype_OBJ :: subtype where "Subtype_OBJ = 1"
definition Subtype_HST :: subtype where "Subtype_HST = 2"
definition Subtype_GST :: subtype where "Subtype_GST = 3"
definition Subtype_DMA :: subtype where "Subtype_DMA = 4"
definition Subtype_PIO :: subtype where "Subtype_PIO = 5"
definition Subtype_MSR :: subtype where "Subtype_MSR = 6"

lemmas subtype_defs = Subtype_NONE_def EC_LOCAL_def EC_GLOBAL_def EC_VCPU_REAL_def EC_VCPU_OFFS_def Subtype_PD_def
  Subtype_OBJ_def Subtype_HST_def Subtype_GST_def Subtype_DMA_def Subtype_PIO_def Subtype_MSR_def

record khdr =
  k_type :: ktype
  k_subtype :: subtype

datatype status = SUCCESS | TIMEOUT | ABORTED | OVRFLOW | BAD_HYP | BAD_CAP | BAD_PAR | BAD_FTR | BAD_CPU | BAD_DEV | INS_MEM

section \<open>Permissions\<close>

datatype perm_sp = SP_GRANT | SP_TAKE | SP_ASSIGN | SP_DEFINED_OBJ | SP_DEFINED_HST | SP_DEFINED_GST | SP_DEFINED_DMA
  | SP_DEFINED_PIO | SP_DEFINED_MSR

fun sp_bits :: "perm_sp \<Rightarrow> u64" where
  "sp_bits SP_GRANT = 1"
| "sp_bits SP_TAKE = 2"
| "sp_bits SP_ASSIGN = 4"
| "sp_bits SP_DEFINED_OBJ = 2 OR 1"
| "sp_bits SP_DEFINED_HST = 2 OR 1"
| "sp_bits SP_DEFINED_GST = 4 OR 1"
| "sp_bits SP_DEFINED_DMA = 4 OR 1"
| "sp_bits SP_DEFINED_PIO = 4 OR 2 OR 1"
| "sp_bits SP_DEFINED_MSR = 4 OR 2 OR 1"

datatype perm_pd = PD_PD | PD_EC | PD_SC | PD_PT | PD_SM | PD_DEFINED

fun pd_bits :: "perm_pd \<Rightarrow> u64" where
  "pd_bits PD_PD = 1"
| "pd_bits PD_EC = 2"
| "pd_bits PD_SC = 4"
| "pd_bits PD_PT = 8"
| "pd_bits PD_SM = 16"
| "pd_bits PD_DEFINED = 16 OR 8 OR 4 OR 2 OR 1"

datatype perm_ec = EC_CTRL | EC_BIND_PT | EC_BIND_SC | EC_DEFINED

fun ec_bits :: "perm_ec \<Rightarrow> u64" where
  "ec_bits EC_CTRL = 1"
| "ec_bits EC_BIND_PT = 4"
| "ec_bits EC_BIND_SC = 8"
| "ec_bits EC_DEFINED = 8 OR 4 OR 1"

datatype perm_sc = SC_CTRL | SC_DEFINED

fun sc_bits :: "perm_sc \<Rightarrow> u64" where
  "sc_bits SC_CTRL = 1"
| "sc_bits SC_DEFINED = 1"

datatype perm_pt = PT_CTRL | PT_CALL | PT_EVENT | PT_DEFINED

fun pt_bits :: "perm_pt \<Rightarrow> u64" where
  "pt_bits PT_CTRL = 1"
| "pt_bits PT_CALL = 2"
| "pt_bits PT_EVENT = 4"
| "pt_bits PT_DEFINED = 4 OR 2 OR 1"

datatype perm_sm = SM_CTRL_UP | SM_CTRL_DN | SM_ASSIGN | SM_DEFINED | SM_DEFINED_INT

fun sm_bits :: "perm_sm \<Rightarrow> u64" where
  "sm_bits SM_CTRL_UP = 1"
| "sm_bits SM_CTRL_DN = 2"
| "sm_bits SM_ASSIGN = 16"
| "sm_bits SM_DEFINED = 2 OR 1"
| "sm_bits SM_DEFINED_INT = 2 OR 16"

section \<open>Capabilities\<close>

type_synonym capability = u64

definition pmask :: u64 where
  "pmask = 32 - 1"

text \<open>The object capability constructor; the raw constructor is the identity, the null capability is 0.\<close>

definition cap_make :: "u64 \<Rightarrow> u64 \<Rightarrow> capability" where
  "cap_make ob p = (if p \<noteq> 0 then ob OR (p AND pmask) else 0)"

definition cap_obj :: "capability \<Rightarrow> u64" where
  "cap_obj c = c AND NOT pmask"

definition cap_prm :: "capability \<Rightarrow> u64" where
  "cap_prm c = c AND pmask"

definition validate_type :: "(u64 \<Rightarrow> khdr) \<Rightarrow> capability \<Rightarrow> ktype \<Rightarrow> u64 \<Rightarrow> bool" where
  "validate_type h c t p \<longleftrightarrow> cap_obj c \<noteq> 0 \<and> k_type (h (cap_obj c)) = t \<and> cap_prm c AND p = p"

definition validate_subtype :: "(u64 \<Rightarrow> khdr) \<Rightarrow> capability \<Rightarrow> ktype \<Rightarrow> subtype \<Rightarrow> u64 \<Rightarrow> bool" where
  "validate_subtype h c t st p \<longleftrightarrow>
     cap_obj c \<noteq> 0 \<and> k_type (h (cap_obj c)) = t \<and> k_subtype (h (cap_obj c)) = st \<and> cap_prm c AND p = p"

definition validate_sp :: "(u64 \<Rightarrow> khdr) \<Rightarrow> capability \<Rightarrow> perm_sp \<Rightarrow> subtype \<Rightarrow> bool" where
  "validate_sp h c p st = validate_subtype h c Type_PD st (sp_bits p)"

definition validate_pd :: "(u64 \<Rightarrow> khdr) \<Rightarrow> capability \<Rightarrow> perm_pd \<Rightarrow> bool" where
  "validate_pd h c p = validate_subtype h c Type_PD Subtype_PD (pd_bits p)"

definition validate_ec :: "(u64 \<Rightarrow> khdr) \<Rightarrow> capability \<Rightarrow> perm_ec \<Rightarrow> bool" where
  "validate_ec h c p = validate_type h c Type_EC (ec_bits p)"

definition validate_sc :: "(u64 \<Rightarrow> khdr) \<Rightarrow> capability \<Rightarrow> perm_sc \<Rightarrow> bool" where
  "validate_sc h c p = validate_type h c Type_SC (sc_bits p)"

definition validate_pt :: "(u64 \<Rightarrow> khdr) \<Rightarrow> capability \<Rightarrow> perm_pt \<Rightarrow> bool" where
  "validate_pt h c p = validate_type h c Type_PT (pt_bits p)"

definition validate_sm :: "(u64 \<Rightarrow> khdr) \<Rightarrow> capability \<Rightarrow> perm_sm \<Rightarrow> bool" where
  "validate_sm h c p = validate_type h c Type_SM (sm_bits p)"

text \<open>The two reference parameters that receive the subtypes are part of the result.\<close>

definition validate_take_grant :: "(u64 \<Rightarrow> khdr) \<Rightarrow> capability \<Rightarrow> capability \<Rightarrow> (subtype \<times> subtype) option" where
  "validate_take_grant h cst cdt =
     (if cap_prm cst AND sp_bits SP_TAKE = 0 \<or> cap_prm cdt AND sp_bits SP_GRANT = 0 then None
      else let s = cap_obj cst; d = cap_obj cdt
           in if k_type (h s) = Type_PD \<and> k_type (h d) = Type_PD then Some (k_subtype (h s), k_subtype (h d)) else None)"

section \<open>Words and permissions\<close>

lemma pmask_mask: "pmask = mask 5"
  by (simp add: pmask_def mask_eq_exp_minus_1)

text \<open>An object pointer is aligned to 32 bytes.\<close>

definition kaligned :: "u64 \<Rightarrow> bool" where
  "kaligned ob \<longleftrightarrow> ob AND pmask = 0"

lemma cap_prm_obj [simp]: "cap_prm (cap_obj c) = 0" "cap_obj (cap_obj c) = cap_obj c" "kaligned (cap_obj c)"
  "cap_prm (cap_prm c) = cap_prm c"
  by (auto simp: cap_prm_def cap_obj_def kaligned_def and.assoc)

lemma cap_make_obj: "kaligned ob \<Longrightarrow> p \<noteq> 0 \<Longrightarrow> cap_obj (cap_make ob p) = ob"
  and cap_make_prm: "kaligned ob \<Longrightarrow> cap_prm (cap_make ob p) = p AND pmask"
proof -
  assume a: "kaligned ob"
  then have "ob AND NOT pmask = ob" unfolding kaligned_def
    by (metis (no_types, lifting) and.commute bit.conj_cancel_right bit.conj_disj_distrib bit.disj_cancel_right and.right_neutral or.right_neutral)
  then show "p \<noteq> 0 \<Longrightarrow> cap_obj (cap_make ob p) = ob"
    by (simp add: cap_make_def cap_obj_def bit.conj_disj_distrib2 and.assoc)
  show "cap_prm (cap_make ob p) = p AND pmask"
    using a by (simp add: cap_make_def cap_prm_def kaligned_def bit.conj_disj_distrib2 and.assoc)
qed

lemma cap_split: "c = cap_obj c OR cap_prm c"
  by (simp add: cap_obj_def cap_prm_def flip: bit.conj_disj_distrib)

text \<open>The order of authority: the same object with at most the same permissions, or the null capability.\<close>

definition cap_le :: "capability \<Rightarrow> capability \<Rightarrow> bool" where
  "cap_le c d \<longleftrightarrow> c = 0 \<or> (cap_obj c = cap_obj d \<and> cap_prm c AND cap_prm d = cap_prm c)"

lemma cap_le_refl [simp]: "cap_le c c"
  by (simp add: cap_le_def)

lemma cap_le_trans: "cap_le a b \<Longrightarrow> cap_le b c \<Longrightarrow> cap_le a c"
  unfolding cap_le_def
  by (metis (no_types, lifting) and.assoc bit.conj_zero_left cap_obj_def cap_prm_def cap_split or.left_neutral and.left_commute
      bit.conj_zero_right)

text \<open>Masking permissions, as a delegation does, never adds authority.\<close>

lemma cap_mask_le: "cap_le (cap_make (cap_obj c) (cap_prm c AND p)) c"
proof (cases "cap_prm c AND p = 0")
  case False
  then have "cap_obj (cap_make (cap_obj c) (cap_prm c AND p)) = cap_obj c"
    "cap_prm (cap_make (cap_obj c) (cap_prm c AND p)) = (cap_prm c AND p) AND pmask"
    by (simp_all add: cap_make_obj cap_make_prm)
  then show ?thesis by (simp add: cap_le_def and.assoc and.left_commute and.commute)
qed (simp add: cap_make_def cap_le_def)

text \<open>Validation is monotone in authority.\<close>

lemma validate_type_mono: "cap_le c d \<Longrightarrow> validate_type h c t p \<Longrightarrow> validate_type h d t p"
  by (auto simp: cap_le_def validate_type_def cap_obj_def) (metis and.assoc and.commute)

lemma validate_subtype_mono: "cap_le c d \<Longrightarrow> validate_subtype h c t st p \<Longrightarrow> validate_subtype h d t st p"
  by (auto simp: cap_le_def validate_subtype_def cap_obj_def) (metis and.assoc and.commute)

end
