(* ===== verification/Nova_Space_Obj.thy ===== *)
theory Nova_Space_Obj
  imports Nova_Radix Nova_Capability
begin

text \<open>
  \<^verbatim>\<open>inc/space_obj.hpp\<close>, \<^verbatim>\<open>src/space_obj.cpp\<close>: object spaces, two-level trees of capability tables. An
  object space is the address of its \<open>Space_obj\<close>, whose \<open>root\<close> member is \<open>Root obj\<close>; the tables
  are pages of the allocator. Selectors are 64-bit words of which the walk uses 18 bits.
\<close>

section \<open>Operations\<close>

definition lev :: nat where
  "lev = 2"

definition bpl :: nat where
  "bpl = 9"

definition so_num :: u64 where
  "so_num = BIT64 (lev * bpl)"

definition NOVA_CON :: u64 where "NOVA_CON = so_num - 1"
definition NOVA_OBJ :: u64 where "NOVA_OBJ = so_num - 2"
definition NOVA_HST :: u64 where "NOVA_HST = so_num - 3"
definition NOVA_PIO :: u64 where "NOVA_PIO = so_num - 4"
definition NOVA_MSR :: u64 where "NOVA_MSR = so_num - 5"
definition ROOT_OBJ :: u64 where "ROOT_OBJ = so_num - 6"
definition ROOT_HST :: u64 where "ROOT_HST = so_num - 7"
definition ROOT_PIO :: u64 where "ROOT_PIO = so_num - 8"
definition NOVA_INT :: u64 where "NOVA_INT = 2 ^ 16"
definition NOVA_CPU :: u64 where "NOVA_CPU = 0"

text \<open>\<^verbatim>\<open>(sel >> l * bpl) % Captable::entries\<close>.\<close>

definition cap_index :: "u64 \<Rightarrow> nat \<Rightarrow> nat" where
  "cap_index sel l = unat (drop_bit (l * bpl) sel) mod entries"

text \<open>\<open>new Captable\<close>: a page whose slots are null.\<close>

definition captable_new :: "'a tables_scheme \<Rightarrow> (u64 option \<times> 'a tables_scheme) option" where
  "captable_new s = do {
     (r, s) \<leftarrow> buddy_alloc 0 NONE s;
     case r of None \<Rightarrow> Some (None, s) | Some p \<Rightarrow> Some (Some p, init_table p (\<lambda>_. 0) s)
   }"

text \<open>The walk from level \<open>l\<close>, whose entry is at \<open>ptr\<close>.\<close>

fun so_walk_from :: "u64 \<Rightarrow> bool \<Rightarrow> nat \<Rightarrow> loc \<Rightarrow> 'a tables_scheme \<Rightarrow> (walk_result \<times> 'a tables_scheme) option" where
  "so_walk_from sel e 0 ptr s = Some (Slot ptr, s)"
| "so_walk_from sel e (Suc l) ptr s =
     (let cte = rd s ptr in
      if cte = 0 then
        if \<not> e then Some (Hole, s)
        else do {
          (tbl, s) \<leftarrow> captable_new s;
          case tbl of
            None \<Rightarrow> Some (Null, s)
          | Some tbl \<Rightarrow>
              let (ok, cte, s) = compare_exchange ptr cte tbl s
              in if ok then so_walk_from sel e l (Word (slot tbl (cap_index sel l))) s
                 else do { s \<leftarrow> buddy_free tbl s; so_walk_from sel e l (Word (slot cte (cap_index sel l))) s }
        }
      else so_walk_from sel e l (Word (slot cte (cap_index sel l))) s)"

definition so_walk :: "u64 \<Rightarrow> u64 \<Rightarrow> bool \<Rightarrow> 'a tables_scheme \<Rightarrow> (walk_result \<times> 'a tables_scheme) option" where
  "so_walk obj sel e s = so_walk_from sel e lev (Root obj) s"

fun so_lookup_from :: "u64 \<Rightarrow> nat \<Rightarrow> loc \<Rightarrow> 'a tables_scheme \<Rightarrow> capability" where
  "so_lookup_from sel 0 ptr s = rd s ptr"
| "so_lookup_from sel (Suc l) ptr s =
     (let cte = rd s ptr in if cte = 0 then 0 else so_lookup_from sel l (Word (slot cte (cap_index sel l))) s)"

definition so_lookup :: "u64 \<Rightarrow> u64 \<Rightarrow> 'a tables_scheme \<Rightarrow> capability" where
  "so_lookup obj sel s = so_lookup_from sel lev (Root obj) s"

text \<open>\<open>update\<close> returns the status and the capability that was replaced (initially null).\<close>

definition so_update :: "u64 \<Rightarrow> u64 \<Rightarrow> capability \<Rightarrow> 'a tables_scheme \<Rightarrow> (status \<times> capability \<times> 'a tables_scheme) option" where
  "so_update obj sel cap s = do {
     (ptr, s) \<leftarrow> so_walk obj sel (cap_prm cap \<noteq> 0) s;
     case ptr of
       Null \<Rightarrow> Some (INS_MEM, 0, s)
     | Hole \<Rightarrow> Some (SUCCESS, 0, s)
     | Slot a \<Rightarrow> let (old, s) = exchange a cap s in Some (SUCCESS, old, s)
   }"

definition so_insert :: "u64 \<Rightarrow> u64 \<Rightarrow> capability \<Rightarrow> 'a tables_scheme \<Rightarrow> (status \<times> 'a tables_scheme) option" where
  "so_insert obj sel cap s = do {
     (ptr, s) \<leftarrow> so_walk obj sel True s;
     case ptr of
       Null \<Rightarrow> Some (INS_MEM, s)
     | Hole \<Rightarrow> None
     | Slot a \<Rightarrow> let (ok, _, s) = compare_exchange a 0 cap s in Some (if ok then SUCCESS else BAD_CAP, s)
   }"

text \<open>The loop of \<open>delegate\<close>: \<open>src\<close> and \<open>dst\<close> are the selectors of the next iteration.\<close>

function so_delegate_loop :: "u64 \<Rightarrow> u64 \<Rightarrow> u64 \<Rightarrow> u64 \<Rightarrow> u64 \<Rightarrow> u64 \<Rightarrow> 'a tables_scheme \<Rightarrow> (status \<times> 'a tables_scheme) option" where
  "so_delegate_loop this obj s_end pmm s_sel d_sel s =
     (if s_sel < s_end then do {
        let cap = so_lookup obj s_sel s;
        let ob = cap_obj cap;
        let p = cap_prm cap AND pmm;
        (sts, _, s) \<leftarrow> so_update this d_sel (cap_make ob p) s;
        if sts \<noteq> SUCCESS then Some (sts, s)
        else so_delegate_loop this obj s_end pmm (s_sel + 1) (d_sel + 1) s
      }
      else Some (SUCCESS, s))"
  by pat_completeness auto
termination
  by (relation "measure (\<lambda>(this, obj, s_end, pmm, s_sel, d_sel, s). unat s_end - unat s_sel)")
    (auto simp: unat_loop)

declare so_delegate_loop.simps [simp del]

definition so_delegate :: "u64 \<Rightarrow> u64 \<Rightarrow> u64 \<Rightarrow> u64 \<Rightarrow> nat \<Rightarrow> u64 \<Rightarrow> 'a tables_scheme \<Rightarrow> (status \<times> 'a tables_scheme) option" where
  "so_delegate this obj src dst ord pmm s =
     (let s_end = src + BITN ord; d_end = dst + BITN ord
      in if s_end > so_num \<or> d_end > so_num then Some (BAD_PAR, s)
         else so_delegate_loop this obj s_end pmm src dst s)"

text \<open>\<open>Captable::deallocate\<close> and the destructor.\<close>

fun captable_deallocate :: "nat \<Rightarrow> u64 \<Rightarrow> 'a tables_scheme \<Rightarrow> 'a tables_scheme option" where
  "captable_deallocate 0 p s = buddy_free p s"
| "captable_deallocate (Suc l) p s = do {
     s \<leftarrow> foldM (\<lambda>i s. if mem s (slot p i) \<noteq> 0 then captable_deallocate l (mem s (slot p i)) s else Some s) [0..<entries] s;
     buddy_free p s
   }"

definition so_destroy :: "u64 \<Rightarrow> 'a tables_scheme \<Rightarrow> 'a tables_scheme option" where
  "so_destroy obj s = (if root_of s obj \<noteq> 0 then captable_deallocate (lev - 1) (root_of s obj) s else Some s)"

section \<open>Capability tables as radix trees\<close>

definition cap_child :: childf where
  "cap_child l v = (if l = 0 \<or> v = 0 then None else Some v)"

interpretation ct: radix_fmt cap_child "\<lambda>v. v" "\<lambda>l p. p" "\<lambda>l v k. 0" "\<lambda>_. True" "\<lambda>_ _. True" "\<lambda>l v i. v" lev
  by unfold_locales (auto simp: cap_child_def split: if_splits)

lemma cap_index_idx: "cap_index sel l = idx l (unat sel)"
proof -
  have "entries ^ l = 2 ^ (l * bpl)" by (simp add: entries_def bpl_def mult.commute [of l] power_mult)
  then show ?thesis by (simp add: cap_index_def idx_def unat_drop_bit)
qed

lemma so_lookup_tree: "so_lookup_from sel l a s = ct.tsem l (stree cap_child s l a) (unat sel)"
proof (induction l arbitrary: a)
  case (Suc l)
  show ?case
  proof (cases "rd s a = 0")
    case False
    then have "cap_child (Suc l) (rd s a) = Some (rd s a)" by (simp add: cap_child_def)
    then show ?thesis using Suc.IH [of "Word (slot (rd s a) (cap_index sel l))"] False
      by (simp add: ct.tsem_def Let_def cap_index_idx)
  qed (simp add: ct.tsem_def cap_child_def)
qed (simp add: ct.tsem_def)

text \<open>What a failed exchange does: free the new table and continue with the present one.\<close>

definition so_lost :: "u64 \<Rightarrow> bool \<Rightarrow> nat \<Rightarrow> loc \<Rightarrow> u64 \<Rightarrow> u64 \<Rightarrow> 'a tables_scheme \<Rightarrow> (walk_result \<times> 'a tables_scheme) option" where
  "so_lost sel e l a v p s = do { s \<leftarrow> buddy_free p s; so_walk_from sel e l (Word (slot v (cap_index sel l))) s }"

lemma so_walk_gwalk:
  "so_walk_from sel e l a s = gwalk cap_child (\<lambda>v. v) (\<lambda>l p. p) (\<lambda>l v k. 0) (so_lost sel e) 0 (unat sel) e l a s"
proof (induction l arbitrary: a s)
  case (Suc l)
  then show ?case
    by (cases "buddy_alloc 0 NONE s")
      (auto simp: cap_child_def captable_new_def so_lost_def cap_index_idx Let_def split: option.splits prod.splits)
qed simp

text \<open>Selectors that differ by a multiple of the number of selectors name the same slot.\<close>

definition same_sel :: "u64 \<Rightarrow> u64 \<Rightarrow> bool" where
  "same_sel i j \<longleftrightarrow> i mod so_num = j mod so_num"

lemma so_num_val: "so_num = 262144"
  by (simp add: so_num_def lev_def bpl_def nova_bits)

lemma same_sel_slot: "same_sel i j \<longleftrightarrow> same_slot 0 lev (unat i) (unat j)"
proof -
  have "same_sel i j \<longleftrightarrow> unat i mod 262144 = unat j mod 262144"
    by (simp add: same_sel_def so_num_val word_unat_eq_iff unat_mod_distrib)
  also have "\<dots> \<longleftrightarrow> unat i mod 512 = unat j mod 512 \<and> unat i div 512 mod 512 = unat j div 512 mod 512"
  proof -
    have m: "x mod 262144 = 512 * (x div 512 mod 512) + x mod 512" for x :: nat
      using mod_mult2_eq [of x 512 512] by simp
    have "x mod 262144 mod 512 = x mod 512" "x mod 262144 div 512 = x div 512 mod 512" for x :: nat
      unfolding m by simp_all
    then show ?thesis using m by metis
  qed
  also have "\<dots> \<longleftrightarrow> same_slot 0 lev (unat i) (unat j)"
    by (auto simp: same_slot_def lev_def idx_def entries_def less_Suc_eq numeral_2_eq_2)
  finally show ?thesis .
qed

lemma so_lookup_from_cong:
  "\<forall>m<l. cap_index i m = cap_index j m \<Longrightarrow> so_lookup_from i l a s = so_lookup_from j l a s"
  by (induction l arbitrary: a) (simp_all add: Let_def)

lemma same_sel_lookup: "same_sel i j \<Longrightarrow> so_lookup x i s = so_lookup x j s"
  unfolding so_lookup_def same_sel_slot same_slot_def
  by (intro so_lookup_from_cong) (simp add: cap_index_idx)

section \<open>Object spaces\<close>

text \<open>
  \<open>spaces_ok s L S\<close>: the allocator is well formed with the live pages \<open>L\<close>, and the spaces \<open>S\<close> have
  well-formed tables in these pages that no two of them share.
\<close>

abbreviation so_tree :: "'a tables_scheme \<Rightarrow> u64 \<Rightarrow> rt" where
  "so_tree s obj \<equiv> stree cap_child s lev (Root obj)"

definition spaces_ok :: "'a tables_scheme \<Rightarrow> u64 set \<Rightarrow> u64 set \<Rightarrow> bool" where
  "spaces_ok s L S \<longleftrightarrow> page_inv s L \<and> (\<forall>x\<in>S. ct.tree_ok s L lev (Root x)) \<and>
     (\<forall>x\<in>S. \<forall>y\<in>S. x \<noteq> y \<longrightarrow> set (pages_of (so_tree s x)) \<inter> set (pages_of (so_tree s y)) = {})"

text \<open>A change inside the tree of one space, possibly with new pages, keeps the other spaces.\<close>

lemma spaces_change:
  assumes ok: "spaces_ok s L S" "x \<in> S" and x': "ct.tree_ok s' (L \<union> N) lev (Root x)" "N \<inter> L = {}"
    and pg: "set (pages_of (so_tree s' x)) \<subseteq> set (pages_of (so_tree s x)) \<union> N"
    and fr: "\<And>w. w \<notin> words_of (so_tree s x) \<union> words_of (so_tree s' x) \<Longrightarrow> mem s' w = mem s w"
      "\<And>y. y \<noteq> x \<Longrightarrow> root_of s' y = root_of s y"
  shows "spaces_ok s' (L \<union> N) S" and "y \<in> S \<Longrightarrow> y \<noteq> x \<Longrightarrow> so_lookup y j s' = so_lookup y j s"
proof -
  have inv: "page_inv s' (L \<union> N)" using x'(1) by (simp add: ct.tree_ok_def)
  have al: "aligned (L \<union> N)" using page_inv_aligned [OF inv] by (auto simp: aligned_def)
  have same: "so_tree s' y = so_tree s y" if y: "y \<in> S" "y \<noteq> x" for y
  proof -
    have dj: "set (pages_of (so_tree s y)) \<inter> set (pages_of (so_tree s x)) = {}" "set (pages_of (so_tree s y)) \<subseteq> L"
      using ok y by (auto simp: spaces_ok_def ct.tree_ok_def)
    moreover have "set (pages_of (so_tree s x)) \<subseteq> L" using ok by (auto simp: spaces_ok_def ct.tree_ok_def)
    ultimately have "words_of (so_tree s y) \<inter> words_of (so_tree s x) = {}" "words_of (so_tree s y) \<inter> words_of (so_tree s' x) = {}"
      using pg x'(2) al by (intro words_disjoint; force simp: aligned_def)+
    then have "rtree cap_child (mem s') lev (rd s (Root y)) = so_tree s y" by (intro rtree_cong fr) auto
    then show ?thesis using fr(2) [OF y(2)] by (simp add: rd_def)
  qed
  show "so_lookup y j s' = so_lookup y j s" if "y \<in> S" "y \<noteq> x"
    using same [OF that] by (simp add: so_lookup_def so_lookup_tree)
  have "ct.tree_ok s' (L \<union> N) lev (Root y)" if "y \<in> S" for y
  proof (cases "y = x")
    case False
    then show ?thesis using ok(1) that inv same [OF that False]
      unfolding ct.tree_ok_def spaces_ok_def by (auto simp: pool_ok_def)
  qed (use x' in simp)
  moreover have "set (pages_of (so_tree s' y)) \<inter> set (pages_of (so_tree s' z)) = {}" if "y \<in> S" "z \<in> S" "y \<noteq> z" for y z
  proof -
    have *: "set (pages_of (so_tree s' x)) \<inter> set (pages_of (so_tree s u)) = {}" if "u \<in> S" "u \<noteq> x" for u
      using ok that pg x'(2) unfolding spaces_ok_def ct.tree_ok_def by blast
    show ?thesis using that ok(1) same * by (cases "y = x"; cases "z = x") (auto simp: spaces_ok_def)
  qed
  ultimately show "spaces_ok s' (L \<union> N) S" using inv by (simp add: spaces_ok_def)
qed

text \<open>Walking for a selector changes no capability.\<close>

lemma so_walk_spec:
  assumes "spaces_ok s L S" "x \<in> S"
  shows "\<exists>r s' N. so_walk x sel e s = Some (r, s') \<and> spaces_ok s' (L \<union> N) S \<and> N \<inter> L = {} \<and>
    (\<forall>y\<in>S. \<forall>j. so_lookup y j s' = so_lookup y j s) \<and>
    (case r of Slot a \<Rightarrow> rslot cap_child s' 0 (unat sel) lev (Root x) = Some a
     | Hole \<Rightarrow> \<not> e \<and> so_lookup x sel s' = 0 | Null \<Rightarrow> True)"
proof -
  have ok: "ct.tree_ok s L lev (Root x)" using assms by (auto simp: spaces_ok_def)
  from ct.gwalk_spec [OF ok, of 0 "so_lost sel e" "unat sel" e] obtain r s' N where
    w: "so_walk x sel e s = Some (r, s')" "ct.grown s L lev (Root x) s' N" "ct.walked s' 0 (unat sel) e lev (Root x) r"
    by (auto simp: so_walk_def so_walk_gwalk)
  have g: "ct.tree_ok s' (L \<union> N) lev (Root x)" "N \<inter> L = {}" "set (pages_of (so_tree s' x)) = set (pages_of (so_tree s x)) \<union> N"
    "\<And>i. ct.tsem lev (so_tree s' x) i = ct.tsem lev (so_tree s x) i"
    "\<And>w. w \<notin> words_of (so_tree s' x) \<Longrightarrow> mem s' w = mem s w" "\<And>y. y \<noteq> x \<Longrightarrow> root_of s' y = root_of s y"
    using w(2) unfolding ct.grown_def by auto
  note c = spaces_change [OF assms g(1,2)]
  have sp: "spaces_ok s' (L \<union> N) S" using g by (intro c(1)) auto
  have "so_lookup y j s' = so_lookup y j s" if "y \<in> S" for y j
  proof (cases "y = x")
    case True
    then show ?thesis using g(4) by (simp add: so_lookup_def so_lookup_tree)
  next
    case False
    then show ?thesis using g that by (intro c(2)) auto
  qed
  moreover have "case r of Slot a \<Rightarrow> rslot cap_child s' 0 (unat sel) lev (Root x) = Some a
     | Hole \<Rightarrow> \<not> e \<and> so_lookup x sel s' = 0 | Null \<Rightarrow> True"
    using w(3) by (auto simp: ct.walked_def so_lookup_def so_lookup_tree ct.tsem_def split: walk_result.splits prod.splits)
  ultimately show ?thesis using w(1) sp g(2) by blast
qed

text \<open>Storing a capability through the slot of a walk.\<close>

lemma so_store:
  assumes "spaces_ok s L S" "x \<in> S" "rslot cap_child s 0 (unat sel) lev (Root x) = Some a"
  shows "spaces_ok (wr a cap s) L S" and "rd s a = so_lookup x sel s"
    and "y \<in> S \<Longrightarrow> so_lookup y j (wr a cap s) = (if y = x \<and> same_sel sel j then cap else so_lookup y j s)"
proof -
  have ok: "ct.tree_ok s L lev (Root x)" using assms by (auto simp: spaces_ok_def)
  let ?s = "wr a cap s"
  have z: "cap_child 0 v = None" for v by (simp add: cap_child_def)
  note wl = ct.write_leaf [OF ok assms(3), of cap]
  have t: "so_tree ?s x = tput (Leaf cap) (unat sel) 0 lev (so_tree s x)" using wl(1) by simp
  have pg: "set (pages_of (so_tree ?s x)) \<subseteq> set (pages_of (so_tree s x))"
    unfolding t using set_pages_tput [of "Leaf cap" "unat sel" 0 lev "so_tree s x"] by simp
  have fr: "mem ?s w = mem s w" if "w \<notin> words_of (so_tree s x) \<union> words_of (so_tree ?s x)" for w
    using wl(4) that by simp
  have fr': "root_of ?s y = root_of s y" if "y \<noteq> x" for y using wl(5) that by simp
  have ok': "ct.tree_ok ?s (L \<union> {}) lev (Root x)" "{} \<inter> L = {}" using wl(2) by simp_all
  have pg': "set (pages_of (so_tree ?s x)) \<subseteq> set (pages_of (so_tree s x)) \<union> {}" using pg by (simp del: rd_wr)
  note c = spaces_change [OF assms(1,2) ok' pg' fr fr']
  show "spaces_ok ?s L S" using c(1) by (simp del: rd_wr)
  show "so_lookup y j ?s = (if y = x \<and> same_sel sel j then cap else so_lookup y j s)" if "y \<in> S"
  proof (cases "y = x")
    case True
    then show ?thesis using wl(3) [of "unat j"] by (simp add: so_lookup_def so_lookup_tree same_sel_slot)
  next
    case False
    then show ?thesis using c(2) [OF _ _ that False] by (simp del: rd_wr)
  qed
  show "rd s a = so_lookup x sel s"
  proof -
    have "ct.tsem 0 (stree cap_child s 0 a) (unat sel) = ct.tsem lev (so_tree s x) (unat sel)"
      using rslot_tleaf [OF assms(3)] by (simp add: ct.tsem_def)
    then show ?thesis by (simp add: so_lookup_def so_lookup_tree ct.tsem_def)
  qed
qed

lemma so_update_spec:
  assumes "spaces_ok s L S" "x \<in> S" "cap = 0 \<or> cap_prm cap \<noteq> 0"
  shows "\<exists>sts old s' N. so_update x sel cap s = Some (sts, old, s') \<and> spaces_ok s' (L \<union> N) S \<and> N \<inter> L = {} \<and>
    (sts = SUCCESS \<and> old = so_lookup x sel s \<and>
       (\<forall>y\<in>S. \<forall>j. so_lookup y j s' = (if y = x \<and> same_sel sel j then cap else so_lookup y j s)) \<or>
     sts = INS_MEM \<and> (\<forall>y\<in>S. \<forall>j. so_lookup y j s' = so_lookup y j s))"
proof -
  from so_walk_spec [OF assms(1,2), of sel "cap_prm cap \<noteq> 0"] obtain r s1 N where
    w: "so_walk x sel (cap_prm cap \<noteq> 0) s = Some (r, s1)" "spaces_ok s1 (L \<union> N) S" "N \<inter> L = {}"
      "\<forall>y\<in>S. \<forall>j. so_lookup y j s1 = so_lookup y j s"
      "case r of Slot a \<Rightarrow> rslot cap_child s1 0 (unat sel) lev (Root x) = Some a
       | Hole \<Rightarrow> \<not> cap_prm cap \<noteq> 0 \<and> so_lookup x sel s1 = 0 | Null \<Rightarrow> True" by blast
  show ?thesis
  proof (cases r)
    case (Slot a)
    with w(5) have a: "rslot cap_child s1 0 (unat sel) lev (Root x) = Some a" by simp
    note st = so_store [OF w(2) assms(2) a]
    have "so_update x sel cap s = Some (SUCCESS, so_lookup x sel s, wr a cap s1)"
      using w(1,4) Slot st(2) assms(2) by (simp add: so_update_def exchange_def)
    then show ?thesis using st(1,3) w(3,4) by auto
  next
    case Hole
    with w(5) assms(3) have c: "cap = 0" "so_lookup x sel s1 = 0" by auto
    have "so_lookup x j s1 = 0" if "same_sel sel j" for j
      using same_sel_lookup [OF that, of x s1] c(2) by simp
    moreover have "so_update x sel cap s = Some (SUCCESS, so_lookup x sel s, s1)"
      using w(1,4) Hole c(2) assms(2) by (auto simp: so_update_def)
    ultimately show ?thesis using w(2-4) c(1) by auto
  next
    case Null
    then have "so_update x sel cap s = Some (INS_MEM, 0, s1)" using w(1) by (simp add: so_update_def)
    then show ?thesis using w(2-4) by blast
  qed
qed

lemma so_insert_spec:
  assumes "spaces_ok s L S" "x \<in> S"
  shows "\<exists>sts s' N. so_insert x sel cap s = Some (sts, s') \<and> spaces_ok s' (L \<union> N) S \<and> N \<inter> L = {} \<and>
    (if so_lookup x sel s \<noteq> 0 then sts \<in> {BAD_CAP, INS_MEM} else sts \<in> {SUCCESS, INS_MEM}) \<and>
    (\<forall>y\<in>S. \<forall>j. so_lookup y j s' = (if sts = SUCCESS \<and> y = x \<and> same_sel sel j then cap else so_lookup y j s))"
proof -
  from so_walk_spec [OF assms, of sel True] obtain r s1 N where
    w: "so_walk x sel True s = Some (r, s1)" "spaces_ok s1 (L \<union> N) S" "N \<inter> L = {}"
      "\<forall>y\<in>S. \<forall>j. so_lookup y j s1 = so_lookup y j s"
      "case r of Slot a \<Rightarrow> rslot cap_child s1 0 (unat sel) lev (Root x) = Some a
       | Hole \<Rightarrow> \<not> True \<and> so_lookup x sel s1 = 0 | Null \<Rightarrow> True" by blast
  show ?thesis
  proof (cases r)
    case (Slot a)
    with w(5) have a: "rslot cap_child s1 0 (unat sel) lev (Root x) = Some a" by simp
    note st = so_store [OF w(2) assms(2) a]
    show ?thesis
    proof (cases "so_lookup x sel s = 0")
      case True
      then have "so_insert x sel cap s = Some (SUCCESS, wr a cap s1)"
        using w(1,4) Slot st(2) assms(2) by (simp add: so_insert_def compare_exchange_def)
      then show ?thesis using st(1,3) w(3,4) True by auto
    next
      case False
      then have "so_insert x sel cap s = Some (BAD_CAP, s1)"
        using w(1,4) Slot st(2) assms(2) by (simp add: so_insert_def compare_exchange_def)
      then show ?thesis using w(2-4) False by auto
    qed
  next
    case Null
    then have "so_insert x sel cap s = Some (INS_MEM, s1)" using w(1) by (simp add: so_insert_def)
    then show ?thesis using w(2-4) by auto
  qed (use w(5) in simp)
qed

section \<open>Delegation\<close>

text \<open>The capability a delegation makes from \<open>c\<close>.\<close>

definition cap_mask :: "capability \<Rightarrow> u64 \<Rightarrow> capability" where
  "cap_mask c pmm = cap_make (cap_obj c) (cap_prm c AND pmm)"

lemma cap_mask_wf: "cap_mask c pmm = 0 \<or> cap_prm (cap_mask c pmm) \<noteq> 0"
proof (cases "cap_prm c AND pmm = 0")
  case False
  have "cap_prm (cap_mask c pmm) = (cap_prm c AND pmm) AND pmask" by (simp add: cap_mask_def cap_make_prm)
  also have "\<dots> = cap_prm c AND pmm" by (simp add: cap_prm_def and.assoc and.commute [of pmm] and.left_commute)
  finally show ?thesis using False by simp
qed (simp add: cap_mask_def cap_make_def)

text \<open>
  The loop of a delegation: every capability of the destination space is either untouched or below a
  capability that the source space had in the delegated range before; no other space changes.
\<close>

lemma so_delegate_loop_spec:
  assumes "spaces_ok s L S" "x \<in> S" "obj \<in> S"
  shows "\<exists>sts s' N. so_delegate_loop x obj s_end pmm s_sel d_sel s = Some (sts, s') \<and> spaces_ok s' (L \<union> N) S \<and> N \<inter> L = {} \<and>
    sts \<in> {SUCCESS, INS_MEM} \<and> (\<forall>y\<in>S - {x}. \<forall>j. so_lookup y j s' = so_lookup y j s) \<and>
    (\<forall>j. so_lookup x j s' = so_lookup x j s \<or>
      (\<exists>k. s_sel \<le> k \<and> k < s_end \<and> cap_le (so_lookup x j s') (so_lookup obj k s)))"
  using assms
proof (induction "unat s_end - unat s_sel" arbitrary: s_sel d_sel s L rule: less_induct)
  case less
  show ?case
  proof (cases "s_sel < s_end")
    case False
    then show ?thesis using less.prems by (intro exI [of _ SUCCESS] exI [of _ s] exI [of _ "{}"]) (simp add: so_delegate_loop.simps)
  next
    case True
    let ?c = "cap_mask (so_lookup obj s_sel s) pmm"
    from so_update_spec [OF less.prems(1,2) cap_mask_wf, of d_sel "so_lookup obj s_sel s" pmm] obtain sts old s1 N1 where
      u: "so_update x d_sel ?c s = Some (sts, old, s1)" "spaces_ok s1 (L \<union> N1) S" "N1 \<inter> L = {}"
        "sts = SUCCESS \<and> (\<forall>y\<in>S. \<forall>j. so_lookup y j s1 = (if y = x \<and> same_sel d_sel j then ?c else so_lookup y j s)) \<or>
         sts = INS_MEM \<and> (\<forall>y\<in>S. \<forall>j. so_lookup y j s1 = so_lookup y j s)" by blast
    have le: "cap_le ?c (so_lookup obj s_sel s)" unfolding cap_mask_def by (rule cap_mask_le)
    show ?thesis
    proof (cases "sts = SUCCESS")
      case False
      then have "so_delegate_loop x obj s_end pmm s_sel d_sel s = Some (sts, s1)"
        using True u(1) by (simp add: so_delegate_loop.simps [of x obj s_end pmm s_sel] Let_def cap_mask_def)
      then show ?thesis using u(2-4) False less.prems(2) by (intro exI [of _ sts] exI [of _ s1] exI [of _ N1]) auto
    next
      case sts: True
      then have c: "so_lookup y j s1 = (if y = x \<and> same_sel d_sel j then ?c else so_lookup y j s)" if "y \<in> S" for y j
        using u(4) that by auto
      have lp: "so_delegate_loop x obj s_end pmm s_sel d_sel s = so_delegate_loop x obj s_end pmm (s_sel + 1) (d_sel + 1) s1"
        using True u(1) sts by (simp add: so_delegate_loop.simps [of x obj s_end pmm s_sel] Let_def cap_mask_def)
      from less.hyps [OF unat_loop [OF True] u(2) less.prems(2,3), of "d_sel + 1"] obtain sts' s2 N2 where
        i: "so_delegate_loop x obj s_end pmm (s_sel + 1) (d_sel + 1) s1 = Some (sts', s2)" "spaces_ok s2 (L \<union> N1 \<union> N2) S"
          "N2 \<inter> (L \<union> N1) = {}" "sts' \<in> {SUCCESS, INS_MEM}" "\<forall>y\<in>S - {x}. \<forall>j. so_lookup y j s2 = so_lookup y j s1"
          "\<forall>j. so_lookup x j s2 = so_lookup x j s1 \<or>
             (\<exists>k. s_sel + 1 \<le> k \<and> k < s_end \<and> cap_le (so_lookup x j s2) (so_lookup obj k s1))" by blast
      have below: "\<exists>k. s_sel \<le> k \<and> k < s_end \<and> cap_le (so_lookup obj k' s1) (so_lookup obj k s)"
        if "s_sel + 1 \<le> k'" "k' < s_end" for k'
      proof (cases "obj = x \<and> same_sel d_sel k'")
        case True
        then show ?thesis using c [OF less.prems(3), of k'] le \<open>s_sel < s_end\<close> by auto
      next
        case False
        have "s_sel \<le> k'" using that(1) True unat_inc [OF True] by (simp add: word_le_nat_alt)
        then show ?thesis using c [OF less.prems(3), of k'] False that(2) by auto
      qed
      have fin: "so_lookup x j s2 = so_lookup x j s \<or>
          (\<exists>k. s_sel \<le> k \<and> k < s_end \<and> cap_le (so_lookup x j s2) (so_lookup obj k s))" for j
        using i(6) [rule_format, of j]
      proof
        assume "so_lookup x j s2 = so_lookup x j s1"
        then show ?thesis using c [OF less.prems(2), of j] le True by auto
      next
        assume "\<exists>k. s_sel + 1 \<le> k \<and> k < s_end \<and> cap_le (so_lookup x j s2) (so_lookup obj k s1)"
        then show ?thesis using below cap_le_trans by blast
      qed
      have "so_delegate_loop x obj s_end pmm s_sel d_sel s = Some (sts', s2)" using lp i(1) by simp
      moreover have "spaces_ok s2 (L \<union> (N1 \<union> N2)) S" "(N1 \<union> N2) \<inter> L = {}" using i(2,3) u(3) by (auto simp: Un_assoc)
      moreover have "\<forall>y\<in>S - {x}. \<forall>j. so_lookup y j s2 = so_lookup y j s" using i(5) c by simp
      ultimately show ?thesis using i(4) fin by blast
    qed
  qed
qed

text \<open>Selectors of one range do not alias.\<close>

lemma same_sel_inj:
  assumes "same_sel (d + a) (d + b)" "a < so_num" "b < so_num" shows "a = b"
proof -
  have m: "unat (d + c) mod 262144 = (unat d + unat c) mod 262144" for c
    by (simp add: unat_word_ariths mod_mod_cancel)
  have "unat (d + a) mod 262144 = unat (d + b) mod 262144"
    using assms(1) by (simp add: same_sel_def so_num_val word_unat_eq_iff unat_mod_distrib)
  then have "(int (unat d) + int (unat a)) mod 262144 = (int (unat d) + int (unat b)) mod 262144"
    unfolding m by (metis of_nat_add of_nat_numeral zmod_int)
  then have "262144 dvd int (unat a) - int (unat b)" by (simp add: mod_eq_dvd_iff)
  moreover have "unat a < 262144" "unat b < 262144" using assms(2,3) by (simp_all add: so_num_val word_less_nat_alt)
  ultimately have "unat a = unat b"
    using dvd_imp_le_int [of "int (unat a) - int (unat b)" 262144] by linarith
  then show ?thesis by (simp add: word_unat_eq_iff)
qed

text \<open>What a successful delegation from a different space stores.\<close>

lemma so_delegate_loop_exact:
  assumes "spaces_ok s L S" "x \<in> S" "obj \<in> S" "obj \<noteq> x" "s_end \<le> so_num" "s_sel \<le> s_end"
    and "so_delegate_loop x obj s_end pmm s_sel d_sel s = Some (SUCCESS, s')"
  shows "(\<forall>k. s_sel \<le> k \<and> k < s_end \<longrightarrow> so_lookup x (d_sel + (k - s_sel)) s' = cap_mask (so_lookup obj k s) pmm) \<and>
    (\<forall>j. (\<forall>k. s_sel \<le> k \<and> k < s_end \<longrightarrow> \<not> same_sel (d_sel + (k - s_sel)) j) \<longrightarrow> so_lookup x j s' = so_lookup x j s)"
  using assms
proof (induction "unat s_end - unat s_sel" arbitrary: s_sel d_sel s L rule: less_induct)
  case less
  show ?case
  proof (cases "s_sel < s_end")
    case False
    then show ?thesis using less.prems(7) by (auto simp: so_delegate_loop.simps [of x obj s_end pmm s_sel])
  next
    case True
    let ?c = "cap_mask (so_lookup obj s_sel s) pmm"
    from so_update_spec [OF less.prems(1,2) cap_mask_wf, of d_sel "so_lookup obj s_sel s" pmm] obtain sts old s1 N1 where
      u: "so_update x d_sel ?c s = Some (sts, old, s1)" "spaces_ok s1 (L \<union> N1) S"
        "sts = SUCCESS \<and> (\<forall>y\<in>S. \<forall>j. so_lookup y j s1 = (if y = x \<and> same_sel d_sel j then ?c else so_lookup y j s)) \<or>
         sts = INS_MEM \<and> (\<forall>y\<in>S. \<forall>j. so_lookup y j s1 = so_lookup y j s)" by blast
    have sts: "sts = SUCCESS" and lp: "so_delegate_loop x obj s_end pmm (s_sel + 1) (d_sel + 1) s1 = Some (SUCCESS, s')"
      using less.prems(7) True u(1)
      by (auto simp: so_delegate_loop.simps [of x obj s_end pmm s_sel] Let_def cap_mask_def split: if_splits)
    then have c: "so_lookup y j s1 = (if y = x \<and> same_sel d_sel j then ?c else so_lookup y j s)" if "y \<in> S" for y j
      using u(3) that by auto
    have inc: "unat (s_sel + 1) = Suc (unat s_sel)" using True by (rule unat_inc)
    then have le: "s_sel + 1 \<le> s_end" using True by (simp add: word_le_nat_alt word_less_nat_alt)
    note i = less.hyps [OF unat_loop [OF True] u(2) less.prems(2-5) le lp]
    have shift: "d_sel + 1 + (k - (s_sel + 1)) = d_sel + (k - s_sel)" for k by (simp add: algebra_simps)
    have rng: "s_sel \<le> k \<and> k < s_end \<longleftrightarrow> k = s_sel \<or> (s_sel + 1 \<le> k \<and> k < s_end)" for k
      using True inc by (auto simp: word_le_nat_alt word_less_nat_alt word_unat_eq_iff)
    have na: "\<not> same_sel (d_sel + (k - s_sel)) d_sel" if "s_sel + 1 \<le> k" "k < s_end" for k
    proof
      assume a: "same_sel (d_sel + (k - s_sel)) d_sel"
      have k: "s_sel \<le> k" "k \<noteq> s_sel" using that inc by (auto simp: word_le_nat_alt)
      then have "k - s_sel < so_num" using that(2) less.prems(5)
        by (simp add: word_less_nat_alt word_le_nat_alt unat_sub)
      then have "k - s_sel = 0" using same_sel_inj [of d_sel "k - s_sel" 0] a by (simp add: so_num_val)
      with k show False by simp
    qed
    have old: "so_lookup x j s' = so_lookup x j s1"
      if "\<forall>k. s_sel + 1 \<le> k \<and> k < s_end \<longrightarrow> \<not> same_sel (d_sel + (k - s_sel)) j" for j
      using i that unfolding shift by blast
    have first: "so_lookup x d_sel s' = ?c"
      using old [of d_sel] na c [OF less.prems(2), of d_sel] by (auto simp: same_sel_def)
    have rest: "so_lookup x (d_sel + (k - s_sel)) s' = cap_mask (so_lookup obj k s) pmm" if "s_sel + 1 \<le> k" "k < s_end" for k
      using i that c [OF less.prems(3), of k] less.prems(4) unfolding shift by auto
    have "so_lookup x (d_sel + (k - s_sel)) s' = cap_mask (so_lookup obj k s) pmm" if "s_sel \<le> k \<and> k < s_end" for k
      using that first rest unfolding rng by auto
    moreover have "so_lookup x j s' = so_lookup x j s"
      if n: "\<forall>k. s_sel \<le> k \<and> k < s_end \<longrightarrow> \<not> same_sel (d_sel + (k - s_sel)) j" for j
    proof -
      have "\<not> same_sel d_sel j" using n True by auto
      moreover have "so_lookup x j s' = so_lookup x j s1" using n rng by (intro old) blast
      ultimately show ?thesis using c [OF less.prems(2), of j] by simp
    qed
    ultimately show ?thesis by blast
  qed
qed

section \<open>Destruction\<close>

lemma cap_tree_Node:
  "p \<noteq> 0 \<Longrightarrow> rtree cap_child m (Suc l) p = Node p (map (\<lambda>k. rtree cap_child m l (m (slot p k))) [0..<entries])"
  by (simp add: cap_child_def)

lemma captable_deallocate_spec:
  fixes s :: "'a tables_scheme"
  assumes "page_inv s L" "wf_rt (rtree cap_child (mem s) (Suc l) p)" "set (pages_of (rtree cap_child (mem s) (Suc l) p)) \<subseteq> L" "p \<noteq> 0"
  shows "\<exists>s'. captable_deallocate l p s = Some s' \<and>
    page_inv s' (L - set (pages_of (rtree cap_child (mem s) (Suc l) p))) \<and> mem s' = mem s \<and> root_of s' = root_of s \<and> same_geometry s s'"
  using assms
proof (induction l arbitrary: s L p)
  case 0
  have t: "rtree cap_child (mem s) (Suc 0) p = Node p (map (\<lambda>k. Leaf (mem s (slot p k))) [0..<entries])"
    using cap_tree_Node [OF 0(4)] by simp
  then have "pages_of (rtree cap_child (mem s) (Suc 0) p) = [p]" by (simp add: comp_def)
  then show ?case using table_free [OF 0(1), of p] 0(3) by auto
next
  case (Suc l)
  let ?t = "\<lambda>k. rtree cap_child (mem s) (Suc l) (mem s (slot p k))"
  let ?f = "\<lambda>i (s :: 'a tables_scheme). if mem s (slot p i) \<noteq> 0 then captable_deallocate l (mem s (slot p i)) s else Some s"
  let ?P = "\<Union>k<entries. set (pages_of (?t k))"
  have t: "rtree cap_child (mem s) (Suc (Suc l)) p = Node p (map ?t [0..<entries])" using cap_tree_Node [OF Suc.prems(4)] .
  note wf = wf_rt_Node [OF Suc.prems(2) [unfolded t]]
  have dj: "distinct (concat (map pages_of (map ?t [0..<entries])))" "p \<notin> set (concat (map pages_of (map ?t [0..<entries])))"
    using Suc.prems(2) unfolding wf_rt_def t by auto
  have "\<exists>s1. foldM ?f [0..<entries] s = Some s1 \<and> page_inv s1 (L - ?P) \<and> mem s1 = mem s \<and> root_of s1 = root_of s \<and> same_geometry s s1"
  proof (rule fold_release [OF Suc.prems(1)])
    show "set (pages_of (?t k)) \<subseteq> L" if "k < entries" for k
    proof -
      have "set (pages_of (?t k)) \<subseteq> (\<Union>x\<in>{0..<entries}. set (pages_of (?t x)))" using that by auto
      also have "\<dots> \<subseteq> L" using Suc.prems(3) unfolding t by auto
      finally show ?thesis .
    qed
    show "set (pages_of (?t j)) \<inter> set (pages_of (?t k)) = {}" if "j < k" "k < entries" for j k
      using dj(1) that unfolding distinct_concat_nth by auto
  next
    fix k L1 and s1 :: "'a tables_scheme"
    assume k: "k < entries" "page_inv s1 L1" "set (pages_of (?t k)) \<subseteq> L1" "mem s1 = mem s" "root_of s1 = root_of s" "same_geometry s s1"
    show "\<exists>s2. ?f k s1 = Some s2 \<and> page_inv s2 (L1 - set (pages_of (?t k))) \<and> mem s2 = mem s \<and> root_of s2 = root_of s \<and> same_geometry s s2"
    proof (cases "mem s (slot p k) = 0")
      case True
      then show ?thesis using k by (simp add: cap_child_def)
    next
      case False
      then show ?thesis using Suc.IH [OF k(2), of "mem s (slot p k)"] wf(1) [of k] k by (auto simp: same_geometry_def)
    qed
  qed
  then obtain s1 where s1: "foldM ?f [0..<entries] s = Some s1" "page_inv s1 (L - ?P)" "mem s1 = mem s" "root_of s1 = root_of s"
    "same_geometry s s1" by blast
  have pages: "set (pages_of (Node p (map ?t [0..<entries]))) = insert p ?P" by (auto simp: lessThan_atLeast0)
  have "p \<in> L - ?P" using Suc.prems(3) dj(2) unfolding t by auto
  from table_free [OF s1(2) this] obtain s2 where "buddy_free p s1 = Some s2" "page_inv s2 (L - ?P - {p})"
    "mem s2 = mem s1" "root_of s2 = root_of s1" "same_geometry s1 s2" by blast
  moreover have "L - ?P - {p} = L - set (pages_of (Node p (map ?t [0..<entries])))" unfolding pages by auto
  ultimately show ?case using s1 unfolding t by (simp add: same_geometry_def)
qed

lemma so_destroy_spec:
  assumes "spaces_ok s L S" "x \<in> S"
  shows "\<exists>s'. so_destroy x s = Some s' \<and> spaces_ok s' (L - set (pages_of (so_tree s x))) (S - {x}) \<and>
    (\<forall>y\<in>S - {x}. \<forall>j. so_lookup y j s' = so_lookup y j s)"
proof -
  have ok: "page_inv s L" "wf_rt (so_tree s x)" "set (pages_of (so_tree s x)) \<subseteq> L"
    using assms by (auto simp: spaces_ok_def ct.tree_ok_def)
  have "\<exists>s'. so_destroy x s = Some s' \<and> page_inv s' (L - set (pages_of (so_tree s x))) \<and> mem s' = mem s \<and> root_of s' = root_of s"
  proof (cases "root_of s x = 0")
    case True
    then have "pages_of (so_tree s x) = []" by (simp add: lev_def numeral_2_eq_2 rd_def cap_child_def)
    then show ?thesis using True ok(1) by (simp add: so_destroy_def)
  next
    case False
    then show ?thesis using captable_deallocate_spec [OF ok(1), of "Suc 0" "root_of s x"] ok
      by (auto simp: so_destroy_def lev_def numeral_2_eq_2 rd_def)
  qed
  then obtain s' where s': "so_destroy x s = Some s'" "page_inv s' (L - set (pages_of (so_tree s x)))"
    "mem s' = mem s" "root_of s' = root_of s" by blast
  then have t: "so_tree s' y = so_tree s y" for y by (simp add: rd_def)
  have "ct.tree_ok s' (L - set (pages_of (so_tree s x))) lev (Root y)" if "y \<in> S" "y \<noteq> x" for y
  proof -
    have "set (pages_of (so_tree s x)) \<inter> set (pages_of (so_tree s y)) = {}" "ct.tree_ok s L lev (Root y)"
      using assms that unfolding spaces_ok_def by blast+
    then show ?thesis using s'(2) unfolding ct.tree_ok_def t by (auto simp: pool_ok_def)
  qed
  then have "spaces_ok s' (L - set (pages_of (so_tree s x))) (S - {x})"
    using assms s'(2) unfolding spaces_ok_def t by auto
  moreover have "so_lookup y j s' = so_lookup y j s" for y j
    using t [of y] by (simp add: so_lookup_def so_lookup_tree)
  ultimately show ?thesis using s'(1) by blast
qed

section \<open>Properties\<close>

text \<open>Two empty object spaces at the addresses 32 and 64 over a pool of two free pages.\<close>

definition spaces2 :: tables where
  "spaces2 = \<lparr>min_idx = min_idx pool2, max_idx = max_idx pool2, mem_base = mem_base pool2, blk_base = blk_base pool2,
     blk = blk pool2, freelist = freelist pool2, waitlist = waitlist pool2, mem = mem pool2, root_of = (\<lambda>_. 0)\<rparr>"

lemma spaces2_page_inv: "page_inv spaces2 {}"
proof -
  have "page_inv pool2 {}" using pool2_inv by (auto simp: page_inv_def)
  moreover have "same_alloc pool2 spaces2" by (simp add: same_alloc_def spaces2_def)
  ultimately show ?thesis using page_inv_same_alloc by blast
qed

lemma spaces2_ok: "spaces_ok spaces2 {} {32, 64}"
proof -
  have "so_tree spaces2 x = Leaf 0" for x by (simp add: spaces2_def rd_def lev_def numeral_2_eq_2 cap_child_def)
  then show ?thesis using spaces2_page_inv by (simp add: spaces_ok_def ct.tree_ok_def pool_ok_def)
qed

text \<open>
  C14: \<open>Space_obj::update\<close> never fails an assertion. If it returns SUCCESS, looking up the selector (or
  any alias of it) yields the new capability, every other selector and every other object space
  is unchanged and the old capability is returned; if it returns INS_MEM, no capability changed.
  The capability tables stay well formed and disjoint.
\<close>

theorem so_update_correct:
  assumes "spaces_ok s L S" "x \<in> S" "cap = 0 \<or> cap_prm cap \<noteq> 0"
  shows "\<exists>sts old s' N. so_update x sel cap s = Some (sts, old, s') \<and> spaces_ok s' (L \<union> N) S \<and> N \<inter> L = {} \<and>
    (sts = SUCCESS \<and> old = so_lookup x sel s \<and>
       (\<forall>y\<in>S. \<forall>j. so_lookup y j s' = (if y = x \<and> same_sel sel j then cap else so_lookup y j s)) \<or>
     sts = INS_MEM \<and> (\<forall>y\<in>S. \<forall>j. so_lookup y j s' = so_lookup y j s))"
  by (rule so_update_spec [OF assms])

theorem so_update_correct_witness:
  "\<exists>sts old s'. so_update 32 7 (cap_make 96 3) spaces2 = Some (sts, old, s')"
proof -
  have "cap_prm (cap_make 96 3) \<noteq> 0" by (simp add: cap_make_def cap_prm_def pmask_def)
  then show ?thesis using so_update_correct [OF spaces2_ok, of 32 "cap_make 96 3" 7] by blast
qed

text \<open>
  C15: \<open>Space_obj::insert\<close> is a compare-and-exchange against the null capability: it never overwrites a
  capability (an occupied slot gives BAD_CAP or INS_MEM and changes nothing) and on SUCCESS the
  slot was empty and now holds exactly the new capability.
\<close>

theorem so_insert_correct:
  assumes "spaces_ok s L S" "x \<in> S"
  shows "\<exists>sts s' N. so_insert x sel cap s = Some (sts, s') \<and> spaces_ok s' (L \<union> N) S \<and> N \<inter> L = {} \<and>
    (if so_lookup x sel s \<noteq> 0 then sts \<in> {BAD_CAP, INS_MEM} else sts \<in> {SUCCESS, INS_MEM}) \<and>
    (\<forall>y\<in>S. \<forall>j. so_lookup y j s' = (if sts = SUCCESS \<and> y = x \<and> same_sel sel j then cap else so_lookup y j s))"
  by (rule so_insert_spec [OF assms])

theorem so_insert_correct_witness:
  "\<exists>sts s'. so_insert 64 5 (cap_make 96 3) spaces2 = Some (sts, s') \<and> sts \<in> {SUCCESS, INS_MEM}"
proof -
  have "so_lookup 64 5 spaces2 = 0" by (simp add: so_lookup_def lev_def numeral_2_eq_2 spaces2_def rd_def)
  then show ?thesis using so_insert_correct [OF spaces2_ok, of 64 5 "cap_make 96 3"] by auto
qed

text \<open>
  C12: Delegation of object capabilities does not amplify authority: after \<open>Space_obj::delegate\<close>, also when it
  stops early or source and destination space are the same and the ranges overlap, every
  capability of the destination is either the one it was before, or is null or refers to the object of
  a capability that the source held in the delegated range, with a subset of its permissions.
  No other space changes, and a range outside the space is rejected with BAD_PAR and no change.
\<close>

theorem so_delegate_no_amplification:
  assumes "spaces_ok s L S" "x \<in> S" "obj \<in> S"
  shows "\<exists>sts s' N. so_delegate x obj src dst ord pmm s = Some (sts, s') \<and> spaces_ok s' (L \<union> N) S \<and> N \<inter> L = {} \<and>
    (sts = BAD_PAR \<longleftrightarrow> src + BITN ord > so_num \<or> dst + BITN ord > so_num) \<and> (sts = BAD_PAR \<longrightarrow> s' = s) \<and>
    (\<forall>y\<in>S - {x}. \<forall>j. so_lookup y j s' = so_lookup y j s) \<and>
    (\<forall>j. so_lookup x j s' = so_lookup x j s \<or>
      (\<exists>k. src \<le> k \<and> k < src + BITN ord \<and> cap_le (so_lookup x j s') (so_lookup obj k s)))"
proof (cases "src + BITN ord > so_num \<or> dst + BITN ord > so_num")
  case True
  then show ?thesis using assms(1)
    by (intro exI [of _ BAD_PAR] exI [of _ s] exI [of _ "{}"]) (auto simp: so_delegate_def)
next
  case False
  then have "so_delegate x obj src dst ord pmm s = so_delegate_loop x obj (src + BITN ord) pmm src dst s"
    by (auto simp: so_delegate_def)
  then show ?thesis using so_delegate_loop_spec [OF assms, of "src + BITN ord" pmm src dst] False by auto
qed

theorem so_delegate_no_amplification_witness:
  "\<exists>sts s'. so_delegate 32 64 0 16 2 3 spaces2 = Some (sts, s') \<and> sts \<noteq> BAD_PAR"
proof -
  have "\<not> (0 + BITN 2 > so_num \<or> 16 + BITN 2 > so_num)" by (simp add: nova_bits so_num_val)
  then show ?thesis using so_delegate_no_amplification [OF spaces2_ok, of 32 64 0 16 2 3] by auto
qed





end
