(* ===== verification/Nova_Ptab_Fmt.thy ===== *)
theory Nova_Ptab_Fmt
  imports Nova_Prelude
begin

text \<open>
  The page-table entry formats of the x86 port: \<^verbatim>\<open>inc/x86_64/paging.hpp\<close>, \<^verbatim>\<open>inc/x86_64/memattr.hpp\<close>,
  \<^verbatim>\<open>inc/x86_64/ptab_hpt.hpp\<close> (host), \<^verbatim>\<open>ptab_ept.hpp\<close> (guest), \<^verbatim>\<open>ptab_dpt.hpp\<close> (device), and the
  operations of \<open>Pagetable::Entry\<close>. A format, the template parameter \<open>T\<close> of \<open>Pagetable\<close>, is a
  record of its static and member functions. The locale \<open>pte_laws\<close> is what the table code relies on.
\<close>

section \<open>Permissions and memory attributes\<close>

type_synonym perms = u32

definition Paging_R :: perms where "Paging_R = BIT 0"
definition Paging_W :: perms where "Paging_W = BIT 1"
definition Paging_XU :: perms where "Paging_XU = BIT 2"
definition Paging_XS :: perms where "Paging_XS = BIT 3"
definition Paging_API :: perms where "Paging_API = Paging_XS OR Paging_XU OR Paging_W OR Paging_R"
definition Paging_U :: perms where "Paging_U = BIT 12"
definition Paging_K :: perms where "Paging_K = BIT 13"
definition Paging_G :: perms where "Paging_G = BIT 14"
definition Paging_SS :: perms where "Paging_SS = BIT 15"

lemmas paging_defs = Paging_R_def Paging_W_def Paging_XU_def Paging_XS_def Paging_API_def Paging_U_def Paging_K_def
  Paging_G_def Paging_SS_def

text \<open>A cacheability is the three PAT/PCD/PWT bits; all shareabilities of the port are 0.\<close>

type_synonym cacheability = u64
type_synonym shareability = u64

definition MEM_WB :: cacheability where "MEM_WB = 0"
definition MEM_WT :: cacheability where "MEM_WT = 1"
definition MEM_WC :: cacheability where "MEM_WC = 2"
definition MEM_UC :: cacheability where "MEM_UC = 3"
definition MEM_WP :: cacheability where "MEM_WP = 4"

definition PAT_ENC :: "nat \<Rightarrow> u64 \<Rightarrow> u64" where
  "PAT_ENC c t = push_bit (8 * c) t"

definition pat_val :: u64 where
  "pat_val = PAT_ENC 0 6 OR PAT_ENC 1 4 OR PAT_ENC 2 1 OR PAT_ENC 3 0 OR PAT_ENC 4 5"

definition pat_rev :: u64 where
  "pat_rev = PAT_ENC 6 0 OR PAT_ENC 4 1 OR PAT_ENC 1 2 OR PAT_ENC 0 3 OR PAT_ENC 5 4"

definition ca_to_ept :: "cacheability \<Rightarrow> u64" where
  "ca_to_ept ca = drop_bit (8 * unat ca) pat_val AND BIT64_RANGE 2 0"

definition ept_to_ca :: "u64 \<Rightarrow> cacheability" where
  "ept_to_ca e = drop_bit (8 * unat e) pat_rev AND BIT64_RANGE 2 0"

lemma ept_ca_roundtrip: "ca \<in> {MEM_WB, MEM_WT, MEM_WC, MEM_UC, MEM_WP} \<Longrightarrow> ept_to_ca (ca_to_ept ca) = ca"
  by (auto simp: MEM_WB_def MEM_WT_def MEM_WC_def MEM_UC_def MEM_WP_def ca_to_ept_def ept_to_ca_def pat_val_def pat_rev_def PAT_ENC_def BIT64_RANGE_def
      push_bit_eq_mult drop_bit_eq_div)

section \<open>Entries\<close>

text \<open>\<open>ifb b c\<close> is the C++ idiom \<open>b * !!c\<close>, \<open>tst v b\<close> is \<open>v & b\<close> as a condition.\<close>

definition ifb :: "'a::zero \<Rightarrow> bool \<Rightarrow> 'a" where
  "ifb b c = (if c then b else 0)"

definition tst :: "'a::len word \<Rightarrow> 'a word \<Rightarrow> bool" where
  "tst v b \<longleftrightarrow> v AND b \<noteq> 0"

record pte_fmt =
  pf_lev :: nat
  ADDR_MASK :: u64
  is_large :: "nat \<Rightarrow> u64 \<Rightarrow> bool"
  is_table :: "nat \<Rightarrow> u64 \<Rightarrow> bool"
  ptab_attr :: u64
  page_attr :: "nat \<Rightarrow> perms \<Rightarrow> cacheability \<Rightarrow> shareability \<Rightarrow> u64"
  page_pm :: "u64 \<Rightarrow> perms"
  page_ca :: "nat \<Rightarrow> u64 \<Rightarrow> cacheability"
  page_sh :: "u64 \<Rightarrow> shareability"

definition page_size :: "nat \<Rightarrow> u64" where
  "page_size k = BITN (k + 12)"

definition offs_mask :: "nat \<Rightarrow> u64" where
  "offs_mask k = page_size k - 1"

definition pte_addr :: "pte_fmt \<Rightarrow> nat \<Rightarrow> u64 \<Rightarrow> u64" where
  "pte_addr T l val = val AND ADDR_MASK T AND NOT (offs_mask (l * 9))"

definition pte_is_empty :: "u64 \<Rightarrow> bool" where
  "pte_is_empty val \<longleftrightarrow> val = 0"

subsection \<open>Host page tables\<close>

definition Hpt_is_large :: "nat \<Rightarrow> u64 \<Rightarrow> bool" where
  "Hpt_is_large l val \<longleftrightarrow> l \<noteq> 0 \<and> tst val (BIT64 7)"

definition Hpt_is_table :: "nat \<Rightarrow> u64 \<Rightarrow> bool" where
  "Hpt_is_table l val \<longleftrightarrow> l \<noteq> 0 \<and> \<not> tst val (BIT64 7)"

definition Hpt_ptab_attr :: u64 where
  "Hpt_ptab_attr = BIT64 5 OR BIT64 2 OR BIT64 1 OR BIT64 0"

definition Hpt_page_attr :: "nat \<Rightarrow> perms \<Rightarrow> cacheability \<Rightarrow> shareability \<Rightarrow> u64" where
  "Hpt_page_attr l pm ca sh = (if \<not> tst pm Paging_API then 0 else
     ifb (BIT64 6) (tst pm (Paging_SS OR Paging_W)) OR
     ifb (BIT64 8) (tst pm Paging_G) OR
     ifb (BIT64 9) (tst pm Paging_K) OR
     ifb (BIT64 2) (tst pm Paging_U) OR
     ifb (BIT64 63) (\<not> tst pm (Paging_XS OR Paging_XU)) OR
     ifb (BIT64 1) (tst pm Paging_W) OR
     ifb (BIT64 7) (l \<noteq> 0) OR BIT64 5 OR BIT64 0 OR
     push_bit (if l \<noteq> 0 then 10 else 5) (ca AND BIT64 2) OR push_bit 3 (ca AND BIT64_RANGE 1 0))"

definition Hpt_page_pm :: "u64 \<Rightarrow> perms" where
  "Hpt_page_pm val = (if val = 0 then 0 else
     ifb Paging_G (tst val (BIT64 8)) OR
     ifb Paging_K (tst val (BIT64 9)) OR
     ifb Paging_U (tst val (BIT64 2)) OR
     ifb (Paging_XS OR Paging_XU) (\<not> tst val (BIT64 63)) OR
     ifb Paging_W (tst val (BIT64 1)) OR
     ifb Paging_R (tst val (BIT64 0)))"

definition Hpt_page_ca :: "nat \<Rightarrow> u64 \<Rightarrow> cacheability" where
  "Hpt_page_ca l val = (drop_bit (if l \<noteq> 0 then 10 else 5) val AND BIT64 2) OR (drop_bit 3 val AND BIT64_RANGE 1 0)"

definition Hpt_page_sh :: "u64 \<Rightarrow> shareability" where
  "Hpt_page_sh val = 0"

definition Hpt :: pte_fmt where
  "Hpt = \<lparr>pf_lev = 4, ADDR_MASK = BIT64_RANGE 51 12, is_large = Hpt_is_large, is_table = Hpt_is_table, ptab_attr = Hpt_ptab_attr,
     page_attr = Hpt_page_attr, page_pm = Hpt_page_pm, page_ca = Hpt_page_ca, page_sh = Hpt_page_sh\<rparr>"

subsection \<open>Guest page tables\<close>

text \<open>\<open>mbec\<close> says whether the processor has mode-based execute control.\<close>

definition Ept_is_large :: "nat \<Rightarrow> u64 \<Rightarrow> bool" where
  "Ept_is_large l val \<longleftrightarrow> l \<noteq> 0 \<and> tst val (BIT64 7)"

definition Ept_is_table :: "nat \<Rightarrow> u64 \<Rightarrow> bool" where
  "Ept_is_table l val \<longleftrightarrow> l \<noteq> 0 \<and> \<not> tst val (BIT64 7)"

definition Ept_ptab_attr :: u64 where
  "Ept_ptab_attr = BIT64 10 OR BIT64 2 OR BIT64 1 OR BIT64 0"

definition Ept_page_attr :: "bool \<Rightarrow> nat \<Rightarrow> perms \<Rightarrow> cacheability \<Rightarrow> shareability \<Rightarrow> u64" where
  "Ept_page_attr mbec l pm ca sh = (if \<not> tst pm Paging_API then 0 else
     ifb (BIT64 2) (tst pm (if mbec then Paging_XS else Paging_XS OR Paging_XU)) OR
     ifb (BIT64 10) (tst pm (if mbec then Paging_XU else Paging_XS OR Paging_XU)) OR
     ifb (BIT64 1) (tst pm Paging_W) OR
     ifb (BIT64 0) (tst pm Paging_R) OR
     ifb (BIT64 7) (l \<noteq> 0) OR push_bit 3 (ca_to_ept ca))"

definition Ept_page_pm :: "u64 \<Rightarrow> perms" where
  "Ept_page_pm val = (if val = 0 then 0 else
     ifb Paging_XS (tst val (BIT64 2)) OR
     ifb Paging_XU (tst val (BIT64 10)) OR
     ifb Paging_W (tst val (BIT64 1)) OR
     ifb Paging_R (tst val (BIT64 0)))"

definition Ept_page_ca :: "nat \<Rightarrow> u64 \<Rightarrow> cacheability" where
  "Ept_page_ca l val = ept_to_ca (drop_bit 3 val AND BIT64_RANGE 2 0)"

definition Ept_page_sh :: "u64 \<Rightarrow> shareability" where
  "Ept_page_sh val = 0"

definition Ept :: "bool \<Rightarrow> pte_fmt" where
  "Ept mbec = \<lparr>pf_lev = 4, ADDR_MASK = BIT64_RANGE 51 12, is_large = Ept_is_large, is_table = Ept_is_table, ptab_attr = Ept_ptab_attr,
     page_attr = Ept_page_attr mbec, page_pm = Ept_page_pm, page_ca = Ept_page_ca, page_sh = Ept_page_sh\<rparr>"

subsection \<open>Device page tables\<close>

definition Dpt_is_large :: "nat \<Rightarrow> u64 \<Rightarrow> bool" where
  "Dpt_is_large l val \<longleftrightarrow> l \<noteq> 0 \<and> tst val (BIT64 7)"

definition Dpt_is_table :: "nat \<Rightarrow> u64 \<Rightarrow> bool" where
  "Dpt_is_table l val \<longleftrightarrow> l \<noteq> 0 \<and> \<not> tst val (BIT64 7)"

definition Dpt_ptab_attr :: u64 where
  "Dpt_ptab_attr = BIT64 1 OR BIT64 0"

definition Dpt_page_attr :: "nat \<Rightarrow> perms \<Rightarrow> cacheability \<Rightarrow> shareability \<Rightarrow> u64" where
  "Dpt_page_attr l pm ca sh = (if \<not> tst pm (Paging_W OR Paging_R) then 0 else
     ifb (BIT64 1) (tst pm Paging_W) OR ifb (BIT64 0) (tst pm Paging_R) OR ifb (BIT64 7) (l \<noteq> 0))"

definition Dpt_page_pm :: "u64 \<Rightarrow> perms" where
  "Dpt_page_pm val = (if val = 0 then 0 else
     ifb Paging_W (tst val (BIT64 1)) OR ifb Paging_R (tst val (BIT64 0)))"

definition Dpt_page_ca :: "nat \<Rightarrow> u64 \<Rightarrow> cacheability" where
  "Dpt_page_ca l val = MEM_WB"

definition Dpt_page_sh :: "u64 \<Rightarrow> shareability" where
  "Dpt_page_sh val = 0"

definition Dpt :: pte_fmt where
  "Dpt = \<lparr>pf_lev = 4, ADDR_MASK = BIT64_RANGE 51 12, is_large = Dpt_is_large, is_table = Dpt_is_table, ptab_attr = Dpt_ptab_attr,
     page_attr = Dpt_page_attr, page_pm = Dpt_page_pm, page_ca = Dpt_page_ca, page_sh = Dpt_page_sh\<rparr>"

section \<open>Bits of entries\<close>

lemma bit_BIT64: "bit (BIT64 k) n \<longleftrightarrow> n = k mod 64"
  by (auto simp: BIT64_def bit_simps)

lemma bit_BIT: "bit (BIT k) n \<longleftrightarrow> n = k mod 32"
  by (auto simp: BIT_def bit_simps)

lemma bit_ifb: "bit (ifb b c) n \<longleftrightarrow> c \<and> bit (b :: 'a::len word) n"
  by (simp add: ifb_def)

lemma tst_bit: "tst v b \<longleftrightarrow> (\<exists>n. bit v n \<and> bit b n)"
  by (auto simp: tst_def bit_eq_iff bit_simps dest: bit_imp_le_length)

lemma tst_BIT64: "tst v (BIT64 k) \<longleftrightarrow> bit v (k mod 64)"
  by (auto simp: tst_bit bit_BIT64)

lemma tst_BIT: "tst v (BIT k) \<longleftrightarrow> bit v (k mod 32)"
  by (auto simp: tst_bit bit_BIT)

lemma tst_or: "tst v (a OR b) \<longleftrightarrow> tst v a \<or> tst v b"
  by (auto simp: tst_bit bit_simps)

text \<open>The address bits of an entry of level \<open>l\<close>.\<close>

definition amask :: "nat \<Rightarrow> u64" where
  "amask l = BIT64_RANGE 51 12 AND NOT (offs_mask (l * 9))"

lemma bit_BIT64_RANGE_51_12: "bit (BIT64_RANGE 51 12) n \<longleftrightarrow> 12 \<le> n \<and> n < 52"
proof -
  have "BIT64_RANGE 51 12 = push_bit 12 (mask 40)" by (simp add: BIT64_RANGE_def push_bit_eq_mult mask_eq_exp_minus_1)
  then show ?thesis by (auto simp: bit_simps)
qed

lemma offs_mask_mask: "k < 52 \<Longrightarrow> offs_mask k = mask (k + 12)"
  by (simp add: offs_mask_def page_size_def nova_bits mask_eq_exp_minus_1)

lemma bit_amask: "l < 5 \<Longrightarrow> bit (amask l) n \<longleftrightarrow> 12 + 9 * l \<le> n \<and> n < 52"
  by (auto simp: amask_def bit_simps bit_BIT64_RANGE_51_12 offs_mask_mask)

lemma below_amask: "l < 5 \<Longrightarrow> p AND amask l = p \<Longrightarrow> bit p n \<Longrightarrow> 12 + 9 * l \<le> n \<and> n < 52"
  by (metis bit_amask bit_and_iff)

lemma bit_low_range: "h < 63 \<Longrightarrow> bit (BIT64_RANGE h 0) n \<longleftrightarrow> n \<le> h"
proof -
  assume h: "h < 63"
  then have e: "BIT64_RANGE h 0 = mask (Suc h)" by (simp add: BIT64_RANGE_def push_bit_eq_mult mask_eq_exp_minus_1)
  show ?thesis unfolding e using h by (auto simp: bit_mask_iff)
qed

lemmas entry_bits = bit_or_iff bit_and_iff bit_push_bit_iff bit_drop_bit_eq bit_low_range bit_BIT64 bit_BIT bit_ifb tst_BIT64
  tst_BIT tst_or

text \<open>What the page-table code relies on: \<open>a\<close> are the attribute bits of a leaf entry of level \<open>l\<close>.\<close>

definition leaf_attr :: "pte_fmt \<Rightarrow> nat \<Rightarrow> u64 \<Rightarrow> bool" where
  "leaf_attr T l a \<longleftrightarrow> a \<noteq> 0 \<and> (\<exists>pm ca sh. a = page_attr T l pm ca sh)"

text \<open>The attributes of the entries that replace a large-page entry \<open>v\<close> one level below.\<close>

definition sub_attr :: "pte_fmt \<Rightarrow> nat \<Rightarrow> u64 \<Rightarrow> u64" where
  "sub_attr T l v = page_attr T (l - 1) (page_pm T v) (page_ca T l v) (page_sh T v)"

locale pte_laws =
  fixes T :: pte_fmt
  assumes lev4: "pf_lev T = 4"
    and mask: "ADDR_MASK T = BIT64_RANGE 51 12"
    and attr_disj: "l < 4 \<Longrightarrow> leaf_attr T l a \<Longrightarrow> bit a n \<Longrightarrow> \<not> (12 + 9 * l \<le> n \<and> n < 52)"
    and leaf_kind: "0 < l \<Longrightarrow> l < 4 \<Longrightarrow> leaf_attr T l a \<Longrightarrow> p AND amask l = p \<Longrightarrow>
      is_large T l (p OR a) \<and> \<not> is_table T l (p OR a)"
    and sub_leaf: "0 < l \<Longrightarrow> l < 4 \<Longrightarrow> leaf_attr T l a \<Longrightarrow> p AND amask l = p \<Longrightarrow> leaf_attr T (l - 1) (sub_attr T l (p OR a))"
    and sub_same: "0 < l \<Longrightarrow> l < 4 \<Longrightarrow> leaf_attr T l a \<Longrightarrow> p AND amask l = p \<Longrightarrow> q AND amask (l - 1) = q \<Longrightarrow>
      page_pm T (q OR sub_attr T l (p OR a)) = page_pm T (p OR a) \<and>
      page_ca T (l - 1) (q OR sub_attr T l (p OR a)) = page_ca T l (p OR a) \<and>
      page_sh T (q OR sub_attr T l (p OR a)) = page_sh T (p OR a)"
    and attr_only: "l < 4 \<Longrightarrow> leaf_attr T l a \<Longrightarrow> p AND amask l = p \<Longrightarrow>
      page_pm T (p OR a) = page_pm T a \<and> page_ca T l (p OR a) = page_ca T l a \<and> page_sh T (p OR a) = page_sh T a"
    and kinds: "0 < l \<Longrightarrow> is_large T l v \<noteq> is_table T l v"
    and tab_kind: "0 < l \<Longrightarrow> x AND amask 0 = x \<Longrightarrow> is_table T l (x OR ptab_attr T) \<and> \<not> is_large T l (x OR ptab_attr T) \<and>
      is_table T l x \<and> \<not> is_large T l x"
    and tab_disj: "bit (ptab_attr T) n \<Longrightarrow> \<not> (12 \<le> n \<and> n < 52)"
begin

lemma addr_leaf:
  assumes "l < 4" "leaf_attr T l a" "p AND amask l = p"
  shows "pte_addr T l (p OR a) = p"
proof -
  have "pte_addr T l (p OR a) = (p OR a) AND amask l" by (simp add: pte_addr_def mask amask_def and.assoc)
  also have "\<dots> = p"
    using assms attr_disj [OF assms(1,2)] below_amask [of l p] bit_amask [of l]
    by (intro bit_eqI) (auto simp: bit_and_iff bit_or_iff)
  finally show ?thesis .
qed

lemma addr_table:
  assumes "x AND amask 0 = x"
  shows "pte_addr T 0 (x OR ptab_attr T) = x" "pte_addr T 0 x = x"
proof -
  have *: "pte_addr T 0 v = v AND amask 0" for v by (simp add: pte_addr_def mask amask_def and.assoc)
  show "pte_addr T 0 x = x" using assms by (simp add: *)
  show "pte_addr T 0 (x OR ptab_attr T) = x" unfolding *
    using assms tab_disj below_amask [of 0 x] bit_amask [of 0]
    by (intro bit_eqI) (auto simp: bit_and_iff bit_or_iff)
qed

end

subsection \<open>The three formats satisfy the laws\<close>

lemma below_amask_low: "l < 5 \<Longrightarrow> p AND amask l = p \<Longrightarrow> n < 12 + 9 * l \<or> 52 \<le> n \<Longrightarrow> \<not> bit p n"
  using below_amask by fastforce

lemma amask_mono: "l < 5 \<Longrightarrow> k \<le> l \<Longrightarrow> p AND amask l = p \<Longrightarrow> p AND amask k = p"
  using below_amask [of l p] bit_amask [of k] by (intro bit_eqI) (fastforce simp: bit_and_iff)

lemma leaf_attr_Hpt: "leaf_attr Hpt l a \<Longrightarrow> \<exists>pm ca. a = Hpt_page_attr l pm ca 0 \<and> tst pm Paging_API"
  by (auto simp: leaf_attr_def Hpt_def Hpt_page_attr_def split: if_splits)

lemma Hpt_attr_nz: "Hpt_page_attr l pm ca sh \<noteq> 0 \<longleftrightarrow> tst pm Paging_API"
proof -
  have "bit (Hpt_page_attr l pm ca sh) 0" if "tst pm Paging_API" using that by (simp add: Hpt_page_attr_def entry_bits)
  then show ?thesis by (auto simp: Hpt_page_attr_def split: if_splits)
qed

lemma Hpt_ca_bits:
  "bit (Hpt_page_ca l v) n \<longleftrightarrow> n = 2 \<and> bit v (if l = 0 then 7 else 12) \<or> n = 0 \<and> bit v 3 \<or> n = 1 \<and> bit v 4"
  by (cases "n \<le> 1") (auto simp: Hpt_page_ca_def entry_bits le_Suc_eq)

lemma Hpt_pm_bits:
  assumes "v \<noteq> 0"
  shows "bit (Hpt_page_pm v) 0 = bit v 0" "bit (Hpt_page_pm v) 1 = bit v 1" "bit (Hpt_page_pm v) 2 = (\<not> bit v 63)"
    "bit (Hpt_page_pm v) 3 = (\<not> bit v 63)" "bit (Hpt_page_pm v) 12 = bit v 2" "bit (Hpt_page_pm v) 13 = bit v 9"
    "bit (Hpt_page_pm v) 14 = bit v 8"
  using assms by (simp_all add: Hpt_page_pm_def paging_defs entry_bits)

lemma Hpt_attr_bits:
  assumes "tst pm Paging_API"
  shows "bit (Hpt_page_attr l pm ca sh) 0" "bit (Hpt_page_attr l pm ca sh) 1 = bit pm 1" "bit (Hpt_page_attr l pm ca sh) 2 = bit pm 12"
    "bit (Hpt_page_attr l pm ca sh) 8 = bit pm 14" "bit (Hpt_page_attr l pm ca sh) 9 = bit pm 13"
    "bit (Hpt_page_attr l pm ca sh) 63 = (\<not> bit pm 3 \<and> \<not> bit pm 2)" "bit (Hpt_page_attr l pm ca sh) 3 = bit ca 0"
    "bit (Hpt_page_attr l pm ca sh) 4 = bit ca 1" "bit (Hpt_page_attr l pm ca sh) (if l = 0 then 7 else 12) = bit ca 2"
  using assms by (simp_all add: Hpt_page_attr_def paging_defs entry_bits)

lemma Hpt_sub_same:
  assumes "v \<noteq> 0" "bit v 0" "\<And>n. n < 12 + 9 * k \<or> 52 \<le> n \<Longrightarrow> \<not> bit q n"
  shows "Hpt_page_pm (q OR Hpt_page_attr k (Hpt_page_pm v) (Hpt_page_ca (Suc k) v) 0) = Hpt_page_pm v \<and>
    Hpt_page_ca k (q OR Hpt_page_attr k (Hpt_page_pm v) (Hpt_page_ca (Suc k) v) 0) = Hpt_page_ca (Suc k) v"
proof -
  define m where "m = Hpt_page_pm v"
  define c where "c = Hpt_page_ca (Suc k) v"
  define u where "u = q OR Hpt_page_attr k m c 0"
  note mb = Hpt_pm_bits [OF assms(1), folded m_def]
  have "tst m Paging_API" using mb(1) assms(2) by (simp add: paging_defs entry_bits)
  note ab = Hpt_attr_bits [OF this, of k c 0]
  have ub: "bit u n = bit (Hpt_page_attr k m c 0) n" if "n < 12 + 9 * k \<or> 52 \<le> n" for n
    using assms(3) [OF that] by (simp add: u_def bit_or_iff)
  have u: "bit u 0" "bit u 1 = bit v 1" "bit u 2 = bit v 2" "bit u 8 = bit v 8" "bit u 9 = bit v 9"
    "bit u 63 = bit v 63" "bit u 3 = bit c 0" "bit u 4 = bit c 1" "bit u (if k = 0 then 7 else 12) = bit c 2"
    using ub [of 0] ub [of 1] ub [of 2] ub [of 8] ub [of 9] ub [of 63] ub [of 3] ub [of 4] ub [of "if k = 0 then 7 else 12"] ab mb
    by auto
  have "u \<noteq> 0" using u(1) by auto
  then have "Hpt_page_pm u = m"
    using assms(1,2) u by (simp add: m_def Hpt_page_pm_def tst_BIT64)
  moreover have "Hpt_page_ca k u = c"
    by (rule bit_eqI) (use u(7-9) in \<open>auto simp: Hpt_ca_bits c_def\<close>)
  ultimately show ?thesis by (simp add: u_def m_def c_def)
qed

text \<open>The address bits of a leaf entry do not show in its attributes.\<close>

lemma Hpt_attr_only:
  assumes "l < 4" "a \<noteq> 0" "p AND amask l = p"
  shows "Hpt_page_pm (p OR a) = Hpt_page_pm a" "Hpt_page_ca l (p OR a) = Hpt_page_ca l a"
proof -
  have p: "\<not> bit p n" if "n < 12 + 9 * l \<or> 52 \<le> n" for n using below_amask_low [of l p n] assms that by simp
  have "p OR a \<noteq> 0" using assms(2) by (simp add: or_eq_0_iff)
  then show "Hpt_page_pm (p OR a) = Hpt_page_pm a" using assms(2) p by (simp add: Hpt_page_pm_def tst_BIT64 bit_or_iff)
  have "bit (Hpt_page_ca l (p OR a)) n = bit (Hpt_page_ca l a) n" for n
    using p [of "10 + n"] p [of "5 + n"] p [of "3 + n"] by (auto simp: Hpt_page_ca_def entry_bits)
  then show "Hpt_page_ca l (p OR a) = Hpt_page_ca l a" by (simp add: bit_eq_iff)
qed

interpretation hpt: pte_laws Hpt
proof unfold_locales
  fix l a n assume l: "l < 4" "leaf_attr Hpt l a" "bit a n"
  from leaf_attr_Hpt [OF l(2)] obtain pm ca where "a = Hpt_page_attr l pm ca 0" "tst pm Paging_API" by blast
  with l(1,3) show "\<not> (12 + 9 * l \<le> n \<and> n < 52)"
    by (auto simp: Hpt_page_attr_def entry_bits split: if_splits)
next
  fix l a p assume l: "0 < l" "l < 4" "leaf_attr Hpt l a" "p AND amask l = p"
  from leaf_attr_Hpt [OF l(3)] obtain pm ca where a: "a = Hpt_page_attr l pm ca 0" "tst pm Paging_API" by blast
  have p: "\<not> bit p n" if "n < 12 + 9 * l \<or> 52 \<le> n" for n using below_amask_low [of l p n] l that by simp
  show "is_large Hpt l (p OR a) \<and> \<not> is_table Hpt l (p OR a)"
    using l(1) a by (simp add: Hpt_def Hpt_is_large_def Hpt_is_table_def Hpt_page_attr_def entry_bits)
  have b0: "bit (p OR a) 0" using a by (simp add: Hpt_page_attr_def entry_bits)
  then have nz: "p OR a \<noteq> 0" by auto
  have "bit (Hpt_page_pm (p OR a)) 0" using nz b0 by (simp add: Hpt_page_pm_def paging_defs entry_bits)
  then have api: "tst (Hpt_page_pm (p OR a)) Paging_API" by (simp add: paging_defs entry_bits)
  then show "leaf_attr Hpt (l - 1) (sub_attr Hpt l (p OR a))"
    by (auto simp: leaf_attr_def sub_attr_def Hpt_def Hpt_attr_nz)
  fix q assume q: "q AND amask (l - 1) = q"
  have q': "\<not> bit q n" if "n < 12 + 9 * (l - 1) \<or> 52 \<le> n" for n using below_amask_low [of "l - 1" q n] l q that by simp
  show "page_pm Hpt (q OR sub_attr Hpt l (p OR a)) = page_pm Hpt (p OR a) \<and>
      page_ca Hpt (l - 1) (q OR sub_attr Hpt l (p OR a)) = page_ca Hpt l (p OR a) \<and>
      page_sh Hpt (q OR sub_attr Hpt l (p OR a)) = page_sh Hpt (p OR a)"
    using Hpt_sub_same [OF nz b0, of "l - 1" q] q' l(1) by (simp add: sub_attr_def Hpt_def Hpt_page_sh_def)
next
  show "0 < l \<Longrightarrow> x AND amask 0 = x \<Longrightarrow> is_table Hpt l (x OR ptab_attr Hpt) \<and> \<not> is_large Hpt l (x OR ptab_attr Hpt) \<and>
      is_table Hpt l x \<and> \<not> is_large Hpt l x" for l x
    using below_amask_low [of 0 x 7] by (simp add: Hpt_def Hpt_is_table_def Hpt_is_large_def Hpt_ptab_attr_def entry_bits)
  show "bit (ptab_attr Hpt) n \<Longrightarrow> \<not> (12 \<le> n \<and> n < 52)" for n
    by (auto simp: Hpt_def Hpt_ptab_attr_def entry_bits)
next
  show "l < 4 \<Longrightarrow> leaf_attr Hpt l a \<Longrightarrow> p AND amask l = p \<Longrightarrow> page_pm Hpt (p OR a) = page_pm Hpt a \<and>
      page_ca Hpt l (p OR a) = page_ca Hpt l a \<and> page_sh Hpt (p OR a) = page_sh Hpt a" for l a p
    using Hpt_attr_only [of l a p] by (simp add: Hpt_def Hpt_page_sh_def leaf_attr_def)
qed (auto simp: Hpt_def Hpt_is_large_def Hpt_is_table_def)

text \<open>The extended page tables keep a memory type instead of the PAT bits; only five types are in use.\<close>

lemma ca_to_ept_range: "ca_to_ept ca \<in> {0, 1, 4, 5, 6}"
proof (cases "unat ca < 5")
  case True
  then have "unat ca \<in> {0, 1, 2, 3, 4}" by auto
  then show ?thesis
    by (elim insertE; simp add: ca_to_ept_def pat_val_def PAT_ENC_def BIT64_RANGE_def push_bit_eq_mult drop_bit_eq_div)
next
  case False
  have "drop_bit (8 * unat ca) pat_val = 0"
  proof -
    have "pat_val < 2 ^ 40" by (simp add: pat_val_def PAT_ENC_def push_bit_eq_mult)
    then have "unat pat_val < 2 ^ 40" by (simp add: word_less_nat_alt)
    then have "unat pat_val < 2 ^ (8 * unat ca)"
      using False power_increasing [of 40 "8 * unat ca" "2 :: nat"] by simp
    then have "unat (drop_bit (8 * unat ca) pat_val) = 0" by (simp add: unat_drop_bit)
    then show ?thesis by (simp add: word_unat_eq_iff)
  qed
  then show ?thesis by (simp add: ca_to_ept_def)
qed

lemma ept_type_roundtrip: "e \<in> {0, 1, 4, 5, 6} \<Longrightarrow> ca_to_ept (ept_to_ca e) = e"
  by (elim insertE; simp add: ca_to_ept_def ept_to_ca_def pat_val_def pat_rev_def PAT_ENC_def BIT64_RANGE_def push_bit_eq_mult drop_bit_eq_div)

lemma bit_ca_to_ept: "bit (ca_to_ept ca) n \<Longrightarrow> n \<le> 2"
  by (simp add: ca_to_ept_def entry_bits)

lemma Ept_attr_bits:
  assumes "tst pm Paging_API"
  shows "bit (Ept_page_attr mbec l pm ca sh) 0 = bit pm 0" "bit (Ept_page_attr mbec l pm ca sh) 1 = bit pm 1"
    "bit (Ept_page_attr mbec l pm ca sh) 2 = (bit pm 3 \<or> \<not> mbec \<and> bit pm 2)"
    "bit (Ept_page_attr mbec l pm ca sh) 10 = (bit pm 2 \<or> \<not> mbec \<and> bit pm 3)"
    "bit (Ept_page_attr mbec l pm ca sh) 3 = bit (ca_to_ept ca) 0" "bit (Ept_page_attr mbec l pm ca sh) 4 = bit (ca_to_ept ca) 1"
    "bit (Ept_page_attr mbec l pm ca sh) 5 = bit (ca_to_ept ca) 2" "bit (Ept_page_attr mbec l pm ca sh) 7 = (l \<noteq> 0)"
  using assms bit_ca_to_ept [of ca 4] bit_ca_to_ept [of ca 7]
  by (auto simp: Ept_page_attr_def paging_defs entry_bits)

lemma Ept_pm_bits:
  assumes "v \<noteq> 0"
  shows "bit (Ept_page_pm v) 0 = bit v 0" "bit (Ept_page_pm v) 1 = bit v 1" "bit (Ept_page_pm v) 2 = bit v 10"
    "bit (Ept_page_pm v) 3 = bit v 2"
  using assms by (simp_all add: Ept_page_pm_def paging_defs entry_bits)

lemma ept_field: "(\<And>n. n \<le> 2 \<Longrightarrow> bit u (3 + n) = bit e n) \<Longrightarrow> (\<And>n. bit e n \<Longrightarrow> n \<le> 2) \<Longrightarrow> drop_bit 3 u AND BIT64_RANGE 2 0 = e"
  by (rule bit_eqI) (auto simp: entry_bits)

lemma Ept_ca_field:
  assumes "tst pm Paging_API" "\<And>n. n < 12 \<Longrightarrow> \<not> bit q n"
  shows "Ept_page_ca k (q OR Ept_page_attr mbec l pm ca sh) = ept_to_ca (ca_to_ept ca)"
proof -
  let ?u = "q OR Ept_page_attr mbec l pm ca sh"
  note ab = Ept_attr_bits [OF assms(1), of mbec l ca sh]
  have "bit ?u (3 + n) = bit (ca_to_ept ca) n" if "n \<le> 2" for n
  proof -
    have "n = 0 \<or> n = 1 \<or> n = 2" using that by auto
    then show ?thesis using ab(5-7) assms(2) [of 3] assms(2) [of 4] assms(2) [of 5] by (elim disjE) (simp_all add: bit_or_iff)
  qed
  then have "drop_bit 3 ?u AND BIT64_RANGE 2 0 = ca_to_ept ca" using bit_ca_to_ept by (intro ept_field) auto
  then show ?thesis by (simp add: Ept_page_ca_def)
qed

lemma leaf_attr_Ept: "leaf_attr (Ept mbec) l a \<Longrightarrow> \<exists>pm ca. a = Ept_page_attr mbec l pm ca 0 \<and> tst pm Paging_API"
  by (auto simp: leaf_attr_def Ept_def Ept_page_attr_def split: if_splits)

lemma tst_API: "tst pm Paging_API \<longleftrightarrow> bit pm 0 \<or> bit pm 1 \<or> bit pm 2 \<or> bit pm 3"
  by (auto simp: paging_defs entry_bits)

lemma Ept_attr_nz: "tst pm Paging_API \<Longrightarrow> \<exists>n\<in>{0, 1, 2, 10}. bit (Ept_page_attr mbec l pm ca sh) n"
  using Ept_attr_bits [of pm mbec l ca sh] by (auto simp: tst_API)

lemma Ept_sub_same:
  assumes a: "tst pm Paging_API" "v = p OR Ept_page_attr mbec (Suc k) pm ca 0"
    and p: "\<And>n. n < 12 \<Longrightarrow> \<not> bit p n" and q: "\<And>n. n < 12 \<Longrightarrow> \<not> bit q n"
  shows "tst (Ept_page_pm v) Paging_API"
    and "Ept_page_pm (q OR Ept_page_attr mbec k (Ept_page_pm v) (Ept_page_ca (Suc k) v) 0) = Ept_page_pm v"
    and "Ept_page_ca k (q OR Ept_page_attr mbec k (Ept_page_pm v) (Ept_page_ca (Suc k) v) 0) = Ept_page_ca (Suc k) v"
proof -
  define m where "m = Ept_page_pm v"
  define c where "c = Ept_page_ca (Suc k) v"
  define u where "u = q OR Ept_page_attr mbec k m c 0"
  have vb: "bit v n = bit (Ept_page_attr mbec (Suc k) pm ca 0) n" if "n < 12" for n
    using p [OF that] by (simp add: a(2) bit_or_iff)
  obtain n where n: "n \<in> {0, 1, 2, 10}" "bit (Ept_page_attr mbec (Suc k) pm ca 0) n" using Ept_attr_nz [OF a(1)] by blast
  then have vn: "bit v n" using vb [of n] by auto
  then have v0: "v \<noteq> 0" by auto
  note mb = Ept_pm_bits [OF v0, folded m_def]
  show api: "tst (Ept_page_pm v) Paging_API" using vn n(1) mb unfolding tst_API m_def by auto
  note ab = Ept_attr_bits [OF api, folded m_def, of mbec k c 0] and ab0 = Ept_attr_bits [OF a(1), of mbec "Suc k" ca 0]
  have ub: "bit u n = bit (Ept_page_attr mbec k m c 0) n" if "n < 12" for n
    using q [OF that] by (simp add: u_def bit_or_iff)
  have x: "bit v 2 = (bit v 2 \<or> \<not> mbec \<and> bit v 10)" "bit v 10 = (bit v 10 \<or> \<not> mbec \<and> bit v 2)"
    using vb [of 2] vb [of 10] ab0(3,4) by auto
  have u: "bit u 0 = bit v 0" "bit u 1 = bit v 1" "bit u 2 = bit v 2" "bit u 10 = bit v 10"
    using ub [of 0] ub [of 1] ub [of 2] ub [of 10] ab mb x by auto
  have "u \<noteq> 0" using vn n(1) u by auto
  then show "Ept_page_pm (q OR Ept_page_attr mbec k (Ept_page_pm v) (Ept_page_ca (Suc k) v) 0) = Ept_page_pm v"
    using v0 u unfolding u_def m_def c_def by (simp add: Ept_page_pm_def [of "q OR _"] Ept_page_pm_def [of v] tst_BIT64)
  have "c = ept_to_ca (ca_to_ept ca)" unfolding c_def a(2) by (rule Ept_ca_field [OF a(1) p])
  then have "ept_to_ca (ca_to_ept c) = c" using ept_type_roundtrip [OF ca_to_ept_range] by simp
  then show "Ept_page_ca k (q OR Ept_page_attr mbec k (Ept_page_pm v) (Ept_page_ca (Suc k) v) 0) = Ept_page_ca (Suc k) v"
    using Ept_ca_field [OF api q, where k = k and mbec = mbec and l = k and ca = c and sh = 0] unfolding c_def by simp
qed

lemma Ept_attr_only:
  assumes "l < 4" "a \<noteq> 0" "p AND amask l = p"
  shows "Ept_page_pm (p OR a) = Ept_page_pm a" "Ept_page_ca l (p OR a) = Ept_page_ca l a"
proof -
  have p: "\<not> bit p n" if "n < 12" for n using below_amask_low [of l p n] assms that by simp
  have "p OR a \<noteq> 0" using assms(2) by (simp add: or_eq_0_iff)
  then show "Ept_page_pm (p OR a) = Ept_page_pm a" using assms(2) p by (simp add: Ept_page_pm_def tst_BIT64 bit_or_iff)
  have "drop_bit 3 (p OR a) AND BIT64_RANGE 2 0 = drop_bit 3 a AND BIT64_RANGE 2 0"
    by (rule bit_eqI) (use p in \<open>auto simp: entry_bits\<close>)
  then show "Ept_page_ca l (p OR a) = Ept_page_ca l a" by (simp add: Ept_page_ca_def)
qed

lemma Dpt_attr_only:
  assumes "l < 4" "a \<noteq> 0" "p AND amask l = p"
  shows "Dpt_page_pm (p OR a) = Dpt_page_pm a"
proof -
  have p: "\<not> bit p n" if "n < 12" for n using below_amask_low [of l p n] assms that by simp
  have "p OR a \<noteq> 0" using assms(2) by (simp add: or_eq_0_iff)
  then show "Dpt_page_pm (p OR a) = Dpt_page_pm a" using assms(2) p by (simp add: Dpt_page_pm_def tst_BIT64 bit_or_iff)
qed

interpretation ept: pte_laws "Ept mbec"
proof unfold_locales
  fix l a n assume l: "l < 4" "leaf_attr (Ept mbec) l a" "bit a n"
  from leaf_attr_Ept [OF l(2)] obtain pm ca where "a = Ept_page_attr mbec l pm ca 0" "tst pm Paging_API" by blast
  with l(1,3) show "\<not> (12 + 9 * l \<le> n \<and> n < 52)"
    using bit_ca_to_ept [of ca "n - 3"] by (auto simp: Ept_page_attr_def entry_bits split: if_splits)
next
  fix l a p assume l: "0 < l" "l < 4" "leaf_attr (Ept mbec) l a" "p AND amask l = p"
  from leaf_attr_Ept [OF l(3)] obtain pm ca where a: "a = Ept_page_attr mbec l pm ca 0" "tst pm Paging_API" by blast
  have p: "\<not> bit p n" if "n < 12" for n using below_amask_low [of l p n] l that by simp
  show "is_large (Ept mbec) l (p OR a) \<and> \<not> is_table (Ept mbec) l (p OR a)"
    using l(1) a Ept_attr_bits(8) [OF a(2)] by (simp add: Ept_def Ept_is_large_def Ept_is_table_def tst_BIT64 bit_or_iff)
  obtain k where k: "l = Suc k" using l(1) gr0_conv_Suc by auto
  have api: "tst (Ept_page_pm (p OR a)) Paging_API" using Ept_sub_same(1) [OF a(2), of "p OR a" p mbec k ca p] a(1) k p by simp
  have "Ept_page_attr mbec (l - 1) (Ept_page_pm (p OR a)) (Ept_page_ca l (p OR a)) (Ept_page_sh (p OR a)) \<noteq> 0"
    using Ept_attr_nz [OF api] by (metis bit_0_eq bot_apply bot_bool_def)
  then show "leaf_attr (Ept mbec) (l - 1) (sub_attr (Ept mbec) l (p OR a))"
    by (auto simp: leaf_attr_def sub_attr_def Ept_def)
  fix q assume q: "q AND amask (l - 1) = q"
  have "\<not> bit q n" if "n < 12" for n using below_amask_low [of "l - 1" q n] l q that by simp
  then show "page_pm (Ept mbec) (q OR sub_attr (Ept mbec) l (p OR a)) = page_pm (Ept mbec) (p OR a) \<and>
      page_ca (Ept mbec) (l - 1) (q OR sub_attr (Ept mbec) l (p OR a)) = page_ca (Ept mbec) l (p OR a) \<and>
      page_sh (Ept mbec) (q OR sub_attr (Ept mbec) l (p OR a)) = page_sh (Ept mbec) (p OR a)"
    using Ept_sub_same(2,3) [OF a(2), of "p OR a" p mbec k ca q] a(1) k p by (simp add: sub_attr_def Ept_def Ept_page_sh_def)
next
  show "0 < l \<Longrightarrow> x AND amask 0 = x \<Longrightarrow> is_table (Ept mbec) l (x OR ptab_attr (Ept mbec)) \<and>
      \<not> is_large (Ept mbec) l (x OR ptab_attr (Ept mbec)) \<and> is_table (Ept mbec) l x \<and> \<not> is_large (Ept mbec) l x" for l x
    using below_amask_low [of 0 x 7] by (simp add: Ept_def Ept_is_table_def Ept_is_large_def Ept_ptab_attr_def entry_bits)
  show "bit (ptab_attr (Ept mbec)) n \<Longrightarrow> \<not> (12 \<le> n \<and> n < 52)" for n
    by (auto simp: Ept_def Ept_ptab_attr_def entry_bits)
next
  show "l < 4 \<Longrightarrow> leaf_attr (Ept mbec) l a \<Longrightarrow> p AND amask l = p \<Longrightarrow> page_pm (Ept mbec) (p OR a) = page_pm (Ept mbec) a \<and>
      page_ca (Ept mbec) l (p OR a) = page_ca (Ept mbec) l a \<and> page_sh (Ept mbec) (p OR a) = page_sh (Ept mbec) a" for l a p
    using Ept_attr_only [of l a p] by (simp add: Ept_def Ept_page_sh_def leaf_attr_def)
qed (auto simp: Ept_def Ept_is_large_def Ept_is_table_def)

lemma Dpt_bits:
  "tst pm (Paging_W OR Paging_R) \<longleftrightarrow> bit pm 0 \<or> bit pm 1"
  "Dpt_page_attr l pm ca sh = (if bit pm 0 \<or> bit pm 1 then ifb (BIT64 1) (bit pm 1) OR ifb (BIT64 0) (bit pm 0) OR ifb (BIT64 7) (l \<noteq> 0) else 0)"
  by (auto simp: Dpt_page_attr_def paging_defs entry_bits)

lemma leaf_attr_Dpt: "leaf_attr Dpt l a \<Longrightarrow> \<exists>pm :: u32. (bit pm 0 \<or> bit pm 1) \<and>
    a = ifb (BIT64 1) (bit pm 1) OR ifb (BIT64 0) (bit pm 0) OR ifb (BIT64 7) (l \<noteq> 0)"
proof -
  assume "leaf_attr Dpt l a"
  then obtain pm ca sh where "a \<noteq> 0" "a = Dpt_page_attr l pm ca sh" by (auto simp: leaf_attr_def Dpt_def)
  then show ?thesis unfolding Dpt_bits by metis
qed

interpretation dpt: pte_laws Dpt
proof unfold_locales
  fix l a n assume l: "l < 4" "leaf_attr Dpt l a" "bit a n"
  from leaf_attr_Dpt [OF l(2)] obtain pm where
    "a = ifb (BIT64 1) (bit (pm :: u32) 1) OR ifb (BIT64 0) (bit pm 0) OR ifb (BIT64 7) (l \<noteq> 0)" by blast
  with l(1,3) show "\<not> (12 + 9 * l \<le> n \<and> n < 52)" by (auto simp: entry_bits)
next
  fix l a p assume l: "0 < l" "l < 4" "leaf_attr Dpt l a" "p AND amask l = p"
  from leaf_attr_Dpt [OF l(3)] obtain pm where pm: "bit pm 0 \<or> bit (pm :: u32) 1"
    and a: "a = ifb (BIT64 1) (bit pm 1) OR ifb (BIT64 0) (bit pm 0) OR ifb (BIT64 7) (l \<noteq> 0)" by blast
  have p: "\<not> bit p n" if "n < 12" for n using below_amask_low [of l p n] l that by simp
  show "is_large Dpt l (p OR a) \<and> \<not> is_table Dpt l (p OR a)"
    using l(1) a by (simp add: Dpt_def Dpt_is_large_def Dpt_is_table_def entry_bits)
  have b: "bit (p OR a) 0 = bit pm 0" "bit (p OR a) 1 = bit pm 1" using p [of 0] p [of 1] by (simp_all add: a entry_bits)
  then have nz: "p OR a \<noteq> 0" using pm by auto
  define m where "m = Dpt_page_pm (p OR a)"
  have m: "bit m 0 = bit pm 0" "bit m 1 = bit pm 1"
    using b nz by (simp_all add: m_def Dpt_page_pm_def paging_defs entry_bits)
  have sub: "sub_attr Dpt l (p OR a) = ifb (BIT64 1) (bit m 1) OR ifb (BIT64 0) (bit m 0) OR ifb (BIT64 7) (l - 1 \<noteq> 0)"
    using pm m by (simp add: sub_attr_def Dpt_def Dpt_bits m_def)
  have "bit (sub_attr Dpt l (p OR a)) 0 \<or> bit (sub_attr Dpt l (p OR a)) 1" using pm m by (auto simp: sub entry_bits)
  then show "leaf_attr Dpt (l - 1) (sub_attr Dpt l (p OR a))"
    by (auto simp: leaf_attr_def sub_attr_def Dpt_def)
  fix q assume q: "q AND amask (l - 1) = q"
  define u where "u = q OR sub_attr Dpt l (p OR a)"
  have "\<not> bit q n" if "n < 12" for n using below_amask_low [of "l - 1" q n] l q that by simp
  then have u: "bit u 0 = bit pm 0" "bit u 1 = bit pm 1" using m by (simp_all add: u_def sub entry_bits)
  then have "u \<noteq> 0" using pm by auto
  then have "Dpt_page_pm u = Dpt_page_pm (p OR a)" using nz u b by (simp add: Dpt_page_pm_def tst_BIT64)
  then show "page_pm Dpt (q OR sub_attr Dpt l (p OR a)) = page_pm Dpt (p OR a) \<and>
      page_ca Dpt (l - 1) (q OR sub_attr Dpt l (p OR a)) = page_ca Dpt l (p OR a) \<and>
      page_sh Dpt (q OR sub_attr Dpt l (p OR a)) = page_sh Dpt (p OR a)"
    unfolding u_def by (simp add: Dpt_def Dpt_page_ca_def Dpt_page_sh_def)
next
  show "0 < l \<Longrightarrow> x AND amask 0 = x \<Longrightarrow> is_table Dpt l (x OR ptab_attr Dpt) \<and> \<not> is_large Dpt l (x OR ptab_attr Dpt) \<and>
      is_table Dpt l x \<and> \<not> is_large Dpt l x" for l x
    using below_amask_low [of 0 x 7] by (simp add: Dpt_def Dpt_is_table_def Dpt_is_large_def Dpt_ptab_attr_def entry_bits)
  show "bit (ptab_attr Dpt) n \<Longrightarrow> \<not> (12 \<le> n \<and> n < 52)" for n
    by (auto simp: Dpt_def Dpt_ptab_attr_def entry_bits)
next
  show "l < 4 \<Longrightarrow> leaf_attr Dpt l a \<Longrightarrow> p AND amask l = p \<Longrightarrow> page_pm Dpt (p OR a) = page_pm Dpt a \<and>
      page_ca Dpt l (p OR a) = page_ca Dpt l a \<and> page_sh Dpt (p OR a) = page_sh Dpt a" for l a p
    using Dpt_attr_only [of l a p] by (simp add: Dpt_def Dpt_page_sh_def Dpt_page_ca_def leaf_attr_def)
qed (auto simp: Dpt_def Dpt_is_large_def Dpt_is_table_def)

end
