(* ===== verification/Nova_Ptab.thy ===== *)
theory Nova_Ptab
  imports Nova_Radix Nova_Ptab_Fmt Nova_Capability
begin

text \<open>
  \<^verbatim>\<open>inc/ptab.hpp\<close>, \<^verbatim>\<open>src/ptab.cpp\<close>: the generic page table. The template parameter \<open>T\<close> is a \<open>pte_fmt\<close>; \<open>off\<close> is the
  distance between kernel virtual and physical addresses (\<^verbatim>\<open>Kmem::offset\<close>), \<open>lim\<close> the static limit of the
  leaf order (\<^verbatim>\<open>Pagetable::lim\<close>). A page table is the address of its object, whose root entry is
  \<open>Root pt\<close>. Cache maintenance for non-coherent tables has no effect on the model.
\<close>

section \<open>Operations\<close>

definition ptr_to_phys :: "u64 \<Rightarrow> u64 \<Rightarrow> u64" where
  "ptr_to_phys off p = p - off"

definition phys_to_ptr :: "u64 \<Rightarrow> u64 \<Rightarrow> u64" where
  "phys_to_ptr off p = p + off"

text \<open>\<^verbatim>\<open>(v >> (l * bpl + PAGE_BITS)) % Table::entries\<close>.\<close>

definition pt_index :: "u64 \<Rightarrow> nat \<Rightarrow> nat" where
  "pt_index v l = unat (drop_bit (l * 9 + 12) v) mod entries"

text \<open>\<open>operator->\<close>: the table an entry refers to.\<close>

definition pte_table :: "pte_fmt \<Rightarrow> u64 \<Rightarrow> u64 \<Rightarrow> u64" where
  "pte_table T off val = phys_to_ptr off (pte_addr T 0 val)"

text \<open>\<open>new Table (p, s, nc)\<close>: slot \<open>i\<close> gets the value \<open>p + i * s\<close>.\<close>

definition table_new :: "u64 \<Rightarrow> u64 \<Rightarrow> 'a tables_scheme \<Rightarrow> (u64 option \<times> 'a tables_scheme) option" where
  "table_new p sz s = do {
     (r, s) \<leftarrow> buddy_alloc 0 NONE s;
     case r of None \<Rightarrow> Some (None, s) | Some tbl \<Rightarrow> Some (Some tbl, init_table tbl (\<lambda>i. p + of_nat i * sz) s)
   }"

text \<open>\<open>operator delete (ptr, wait)\<close>.\<close>

definition table_delete :: "u64 \<Rightarrow> bool \<Rightarrow> 'a tables_scheme \<Rightarrow> 'a tables_scheme option" where
  "table_delete ptr w s = (if w then buddy_wait ptr s else buddy_free ptr s)"

text \<open>
  The walk from level \<open>l\<close>, whose entry is at \<open>ptr\<close>, down to level \<open>n\<close>. A lost compare-and-exchange deletes
  the new table and starts over with the entry that is now in the slot; \<open>t\<close> bounds these retries,
  which cannot happen while the walk has the table to itself.
\<close>

function (sequential) pt_walk_from :: "pte_fmt \<Rightarrow> u64 \<Rightarrow> nat \<Rightarrow> u64 \<Rightarrow> nat \<Rightarrow> bool \<Rightarrow> nat \<Rightarrow> loc \<Rightarrow> 'a tables_scheme \<Rightarrow>
    (walk_result \<times> 'a tables_scheme) option" where
  "pt_walk_from T off t v n e l ptr s =
     (if l = n then Some (Slot ptr, s)
      else if l = 0 then None
      else do {
        let pte = rd s ptr;
        assert_that (pte_is_empty pte \<or> is_large T l pte \<noteq> is_table T l pte);
        if pte_is_empty pte \<and> \<not> e then Some (Hole, s)
        else if pte_is_empty pte \<or> is_large T l pte then do {
          let p = (if pte_is_empty pte then 0
            else pte_addr T l pte OR page_attr T (l - 1) (page_pm T pte) (page_ca T l pte) (page_sh T pte));
          let sz = (if pte_is_empty pte then 0 else page_size ((l - 1) * 9));
          (tbl, s) \<leftarrow> table_new p sz s;
          case tbl of
            None \<Rightarrow> Some (Null, s)
          | Some tbl \<Rightarrow> do {
              let tmp = ptr_to_phys off tbl OR (if l \<noteq> pf_lev T then ptab_attr T else 0);
              let (ok, pte, s) = compare_exchange ptr pte tmp s;
              if ok then pt_walk_from T off t v n e (l - 1) (Word (slot (pte_table T off tmp) (pt_index v (l - 1)))) s
              else do {
                s \<leftarrow> table_delete tbl False s;
                if t = 0 then None else pt_walk_from T off (t - 1) v n e l ptr s
              }
            }
        }
        else pt_walk_from T off t v n e (l - 1) (Word (slot (pte_table T off pte) (pt_index v (l - 1)))) s
      })"
  by pat_completeness auto
termination
  by (relation "measures [\<lambda>(T, off, t, v, n, e, l, ptr, s). l, \<lambda>(T, off, t, v, n, e, l, ptr, s). t]") auto

declare pt_walk_from.simps [simp del]

definition pt_walk :: "pte_fmt \<Rightarrow> u64 \<Rightarrow> u64 \<Rightarrow> u64 \<Rightarrow> nat \<Rightarrow> bool \<Rightarrow> 'a tables_scheme \<Rightarrow> (walk_result \<times> 'a tables_scheme) option" where
  "pt_walk T off pt v n e s = pt_walk_from T off 1 v n e (pf_lev T) (Root pt) s"

definition root_init :: "pte_fmt \<Rightarrow> u64 \<Rightarrow> u64 \<Rightarrow> nat \<Rightarrow> 'a tables_scheme \<Rightarrow> (walk_result \<times> 'a tables_scheme) option" where
  "root_init T off pt l s = pt_walk T off pt 0 l True s"

definition root_addr :: "pte_fmt \<Rightarrow> u64 \<Rightarrow> 'a tables_scheme \<Rightarrow> u64 option" where
  "root_addr T pt s = do { let val = root_of s pt; assert_that (val \<noteq> 0 \<and> val AND NOT (ADDR_MASK T) = 0); Some val }"

definition set_leaf_max :: "nat \<Rightarrow> nat \<Rightarrow> nat" where
  "set_leaf_max lim l = min lim (l * 9)"

text \<open>The result of \<open>lookup\<close>: permissions, physical address, page order, cacheability, shareability.\<close>

record translation =
  tr_pm :: perms
  tr_p :: u64
  tr_o :: nat
  tr_ca :: cacheability
  tr_sh :: shareability

text \<open>For a hole \<open>lookup\<close> leaves the attribute references alone; \<open>ca\<close> and \<open>sh\<close> are their values before.\<close>

fun pt_lookup_from :: "pte_fmt \<Rightarrow> u64 \<Rightarrow> u64 \<Rightarrow> cacheability \<Rightarrow> shareability \<Rightarrow> nat \<Rightarrow> loc \<Rightarrow> 'a tables_scheme \<Rightarrow> translation" where
  "pt_lookup_from T off v ca sh l ptr s =
     (let pte = rd s ptr in
      if pte_is_empty pte then \<lparr>tr_pm = 0, tr_p = 0, tr_o = l * 9, tr_ca = ca, tr_sh = sh\<rparr>
      else if is_table T l pte \<and> l \<noteq> 0
      then pt_lookup_from T off v ca sh (l - 1) (Word (slot (pte_table T off pte) (pt_index v (l - 1)))) s
      else \<lparr>tr_pm = page_pm T pte, tr_p = pte_addr T l pte OR (v AND offs_mask (l * 9)), tr_o = l * 9,
            tr_ca = page_ca T l pte, tr_sh = page_sh T pte\<rparr>)"

declare pt_lookup_from.simps [simp del]

definition pt_lookup :: "pte_fmt \<Rightarrow> u64 \<Rightarrow> u64 \<Rightarrow> u64 \<Rightarrow> cacheability \<Rightarrow> shareability \<Rightarrow> 'a tables_scheme \<Rightarrow> translation" where
  "pt_lookup T off pt v ca sh s = pt_lookup_from T off v ca sh (pf_lev T) (Root pt) s"

text \<open>\<open>Table::deallocate\<close>.\<close>

fun pt_deallocate :: "pte_fmt \<Rightarrow> u64 \<Rightarrow> nat \<Rightarrow> u64 \<Rightarrow> 'a tables_scheme \<Rightarrow> 'a tables_scheme option" where
  "pt_deallocate T off 0 tbl s = Some s"
| "pt_deallocate T off (Suc l) tbl s = do {
     s \<leftarrow> foldM (\<lambda>i s.
         let old = mem s (slot tbl i) in
         if pte_is_empty old then Some s
         else if is_table T (Suc l) old then pt_deallocate T off l (pte_table T off old) s
         else Some s) [0..<entries] s;
     table_delete tbl True s
   }"

text \<open>\<open>ptr[j]\<close>; a root entry is a single entry.\<close>

definition loc_plus :: "loc \<Rightarrow> nat \<Rightarrow> loc" where
  "loc_plus a j = (case a of Root r \<Rightarrow> Root r | Word w \<Rightarrow> Word (w + of_nat (8 * j)))"

text \<open>The loop over the slots that cover the range.\<close>

fun pt_fill :: "pte_fmt \<Rightarrow> u64 \<Rightarrow> nat \<Rightarrow> loc \<Rightarrow> u64 \<Rightarrow> nat \<Rightarrow> nat \<Rightarrow> u64 \<Rightarrow> 'a tables_scheme \<Rightarrow> 'a tables_scheme option" where
  "pt_fill T off l ptr sz j 0 e s = Some s"
| "pt_fill T off l ptr sz j (Suc n) e s = do {
     let (old, s) = exchange (loc_plus ptr j) e s;
     s \<leftarrow> (if pte_is_empty old then Some s
          else if is_table T l old then pt_deallocate T off (l - 1) (pte_table T off old) s
          else Some s);
     pt_fill T off l ptr sz (Suc j) n (e + sz) s
   }"

text \<open>The outer loop; \<open>k\<close> iterations are left. The increments are the 32-bit \<^verbatim>\<open>BIT (o + PAGE_BITS)\<close>.\<close>

fun pt_update_loop :: "pte_fmt \<Rightarrow> u64 \<Rightarrow> u64 \<Rightarrow> nat \<Rightarrow> u64 \<Rightarrow> nat \<Rightarrow> u64 \<Rightarrow> u64 \<Rightarrow> 'a tables_scheme \<Rightarrow> (status \<times> 'a tables_scheme) option" where
  "pt_update_loop T off pt k0 a 0 v p s = Some (SUCCESS, s)"
| "pt_update_loop T off pt k0 a (Suc k) v p s = do {
     let l = k0 div 9;
     let n = unat (BIT (k0 mod 9));
     (ptr, s) \<leftarrow> pt_walk T off pt v l (a \<noteq> 0) s;
     case ptr of
       Null \<Rightarrow> Some (INS_MEM, s)
     | Hole \<Rightarrow> pt_update_loop T off pt k0 a k (v + ucast (BIT (k0 + 12))) (p + ucast (BIT (k0 + 12))) s
     | Slot ptr \<Rightarrow> do {
         let e = (if a \<noteq> 0 then p OR a else 0);
         let sz = (if a \<noteq> 0 then page_size (l * 9) else 0);
         s \<leftarrow> pt_fill T off l ptr sz 0 n e s;
         pt_update_loop T off pt k0 a k (v + ucast (BIT (k0 + 12))) (p + ucast (BIT (k0 + 12))) s
       }
   }"

definition pt_update :: "pte_fmt \<Rightarrow> u64 \<Rightarrow> nat \<Rightarrow> u64 \<Rightarrow> u64 \<Rightarrow> u64 \<Rightarrow> nat \<Rightarrow> perms \<Rightarrow> cacheability \<Rightarrow> shareability \<Rightarrow>
    'a tables_scheme \<Rightarrow> (status \<times> 'a tables_scheme) option" where
  "pt_update T off lim pt v p ord pm ca sh s = do {
     assert_that (v AND offs_mask ord = 0);
     assert_that (p AND offs_mask ord = 0);
     let k0 = min ord lim;
     let a = page_attr T (k0 div 9) pm ca sh;
     pt_update_loop T off pt k0 a (unat (BIT (ord - k0))) v p s
   }"

text \<open>
  Host page tables: sharing the table that covers \<open>v\<close> but not \<open>w\<close>, and the temporary mapping of
  physical memory in the page table \<open>c\<close> that the core uses. \<open>v\<close> and \<open>w\<close> differ in a bit of the page number. Reading through the result \<open>Hole\<close> of a walk faults.
\<close>

definition hptp_share_from :: "u64 \<Rightarrow> u64 \<Rightarrow> u64 \<Rightarrow> u64 \<Rightarrow> u64 \<Rightarrow> 'a tables_scheme \<Rightarrow> (bool \<times> 'a tables_scheme) option" where
  "hptp_share_from off this src v w s = do {
     let l = nat ((bit_scan_reverse (v XOR w) - 12) div 9);
     (d, s) \<leftarrow> pt_walk Hpt off this v l True s;
     case d of
       Null \<Rightarrow> Some (False, s)
     | Hole \<Rightarrow> None
     | Slot d \<Rightarrow> do {
         (e, s) \<leftarrow> pt_walk Hpt off src v l False s;
         case e of
           Null \<Rightarrow> Some (False, s)
         | Hole \<Rightarrow> None
         | Slot e \<Rightarrow> if rd s d = rd s e then Some (False, s) else Some (True, wr d (rd s e) s)
       }
   }"

definition MMAP_CPU_TMAP :: u64 where
  "MMAP_CPU_TMAP = 0xffffffffbfa00000"

definition hptp_map :: "u64 \<Rightarrow> nat \<Rightarrow> u64 \<Rightarrow> u64 \<Rightarrow> bool \<Rightarrow> 'a tables_scheme \<Rightarrow> (u64 \<times> 'a tables_scheme) option" where
  "hptp_map off lim c p w s = do {
     let sz = page_size 9;
     let ofs = offs_mask 9 AND p;
     let p = p AND NOT ofs;
     let pm = ifb Paging_W w OR Paging_R;
     (_, s) \<leftarrow> pt_update Hpt off lim c MMAP_CPU_TMAP p 9 pm MEM_WB 0 s;
     (_, s) \<leftarrow> pt_update Hpt off lim c (MMAP_CPU_TMAP + sz) (p + sz) 9 pm MEM_WB 0 s;
     Some (MMAP_CPU_TMAP OR ofs, s)
   }"

section \<open>Page tables as radix trees\<close>

definition pt_child :: "pte_fmt \<Rightarrow> u64 \<Rightarrow> childf" where
  "pt_child T off l v = (if v = 0 \<or> l = 0 \<or> \<not> is_table T l v then None else Some (pte_table T off v))"

definition pt_mk :: "pte_fmt \<Rightarrow> u64 \<Rightarrow> nat \<Rightarrow> u64 \<Rightarrow> u64" where
  "pt_mk T off l p = ptr_to_phys off p OR (if l \<noteq> pf_lev T then ptab_attr T else 0)"

definition pt_ne :: "pte_fmt \<Rightarrow> nat \<Rightarrow> u64 \<Rightarrow> nat \<Rightarrow> u64" where
  "pt_ne T l v k = (if v = 0 then 0 else (pte_addr T l v OR sub_attr T l v) + of_nat k * page_size ((l - 1) * 9))"

text \<open>A table page must have a physical address that fits into the address field of an entry.\<close>

definition pt_okp :: "u64 \<Rightarrow> u64 \<Rightarrow> bool" where
  "pt_okp off p \<longleftrightarrow> ptr_to_phys off p AND amask 0 = ptr_to_phys off p \<and> ptr_to_phys off p \<noteq> 0"

text \<open>A leaf entry is empty or a page frame with attributes of the format.\<close>

definition pt_okl :: "pte_fmt \<Rightarrow> nat \<Rightarrow> u64 \<Rightarrow> bool" where
  "pt_okl T l v \<longleftrightarrow> v = 0 \<or> (l < 4 \<and> (\<exists>p a. v = p OR a \<and> leaf_attr T l a \<and> p AND amask l = p))"

text \<open>What a leaf entry of level \<open>l\<close> means for page number \<open>i\<close>.\<close>

definition pt_sem :: "pte_fmt \<Rightarrow> nat \<Rightarrow> u64 \<Rightarrow> nat \<Rightarrow> (u64 \<times> perms \<times> cacheability \<times> shareability) option" where
  "pt_sem T l v i = (if v = 0 then None
     else Some (pte_addr T l v + of_nat ((i mod entries ^ l) * 4096), page_pm T v, page_ca T l v, page_sh T v))"

lemma entries_power: "entries ^ l = 2 ^ (l * 9)"
  by (simp add: entries_def mult.commute [of l] power_mult)

lemma pt_index_idx: "pt_index v l = idx l (unat v div 4096)"
proof -
  have "unat v div 2 ^ (l * 9 + 12) = unat v div 4096 div 2 ^ (l * 9)" by (simp add: div_mult2_eq power_add mult.commute [of _ 4096])
  then show ?thesis by (simp add: pt_index_def idx_def entries_power unat_drop_bit)
qed

lemma bit_scaled: "k < 2 ^ r \<Longrightarrow> bit (of_nat k * 2 ^ m :: u64) n \<Longrightarrow> m \<le> n \<and> n < m + r"
proof -
  assume k: "k < 2 ^ r" and b: "bit (of_nat k * 2 ^ m :: u64) n"
  have "bit (push_bit m (of_nat k) :: u64) n" using b by (simp add: push_bit_eq_mult)
  then have mn: "m \<le> n" "bit (of_nat k :: u64) (n - m)" by (auto simp: bit_push_bit_iff)
  then have "bit k (n - m)" by (simp add: bit_of_nat_iff)
  then have "2 ^ (n - m) \<le> k" by (simp add: bit_iff_odd) (metis One_nat_def div_less even_zero not_le)
  then have "(2 :: nat) ^ (n - m) < 2 ^ r" using k by (rule le_less_trans)
  then have "n - m < r" by (rule power_less_imp_less_exp [rotated]) simp
  then show ?thesis using mn(1) by simp
qed

context pte_laws
begin

text \<open>The frame of page \<open>k\<close> of a run of \<open>2 ^ r\<close> pages of level \<open>l\<close> that starts at frame \<open>p\<close>.\<close>

lemma run_frame:
  assumes "l < 4" "12 + 9 * l + r \<le> 52" "\<And>n. bit p n \<Longrightarrow> 12 + 9 * l + r \<le> n \<and> n < 52" "k < 2 ^ r"
  shows "(p + of_nat k * page_size (l * 9)) AND amask l = p + of_nat k * page_size (l * 9)"
    and "leaf_attr T l a \<Longrightarrow> (p OR a) + of_nat k * page_size (l * 9) = (p + of_nat k * page_size (l * 9)) OR a"
proof -
  let ?K = "of_nat k * page_size (l * 9) :: u64"
  have K: "?K = of_nat k * 2 ^ (12 + l * 9)" using assms(1) by (simp add: page_size_def BITN_eq add.commute)
  have Kb: "12 + l * 9 \<le> n \<and> n < 12 + l * 9 + r" if "bit ?K n" for n
    using bit_scaled [OF assms(4), of "12 + l * 9" n] that unfolding K by simp
  note pb = assms(3)
  have dj: "p AND ?K = 0" by (rule bit_eqI) (use Kb pb in \<open>fastforce simp: bit_and_iff\<close>)
  then have pK: "p + ?K = p OR ?K" by (simp add: disjunctive_add_eq_or)
  have "bit (amask l) n" if "bit p n \<or> bit ?K n" for n
    using that Kb [of n] pb [of n] bit_amask [of l n] assms(1,2) by auto
  then show "(p + ?K) AND amask l = p + ?K" unfolding pK by (intro bit_eqI) (auto simp: bit_and_iff bit_or_iff)
  assume a: "leaf_attr T l a"
  have ab: "\<not> (12 + 9 * l \<le> n \<and> n < 52)" if "bit a n" for n using attr_disj [OF _ a that] assms(1) by simp
  have "(p OR a) AND ?K = 0"
    by (rule bit_eqI) (use Kb pb ab assms(1,2) in \<open>fastforce simp: bit_and_iff bit_or_iff\<close>)
  then have "(p OR a) + ?K = (p OR a) OR ?K" by (simp add: disjunctive_add_eq_or)
  then show "(p OR a) + ?K = (p + ?K) OR a" unfolding pK by (simp add: or.assoc or.commute [of a])
qed

text \<open>The frame of sub-page \<open>k\<close> of a large page with frame \<open>p\<close>.\<close>

lemma sub_frame:
  assumes "l < 3" "p AND amask (Suc l) = p" "k < 512"
  shows "(p + of_nat k * page_size (l * 9)) AND amask l = p + of_nat k * page_size (l * 9)"
    and "leaf_attr T l a \<Longrightarrow> (p OR a) + of_nat k * page_size (l * 9) = (p + of_nat k * page_size (l * 9)) OR a"
proof -
  have "12 + 9 * l + 9 \<le> n \<and> n < 52" if "bit p n" for n using below_amask [OF _ assms(2) that] assms(1) by simp
  note f = run_frame [of l 9 p k, OF _ _ this]
  show "(p + of_nat k * page_size (l * 9)) AND amask l = p + of_nat k * page_size (l * 9)"
    and "leaf_attr T l a \<Longrightarrow> (p OR a) + of_nat k * page_size (l * 9) = (p + of_nat k * page_size (l * 9)) OR a"
    using f assms(1,3) by simp_all
qed

lemma pt_ne_leaf:
  assumes "l < 4" "pt_okl T (Suc l) v" "pt_child T off (Suc l) v = None" "k < entries"
  shows "pt_child T off l (pt_ne T (Suc l) v k) = None \<and> pt_okl T l (pt_ne T (Suc l) v k)"
    and "pt_sem T l (pt_ne T (Suc l) v (idx l i)) i = pt_sem T (Suc l) v i"
proof -
  have "(pt_child T off l (pt_ne T (Suc l) v k) = None \<and> pt_okl T l (pt_ne T (Suc l) v k)) \<and>
      pt_sem T l (pt_ne T (Suc l) v (idx l i)) i = pt_sem T (Suc l) v i"
  proof (cases "v = 0")
    case True
    then show ?thesis by (simp add: pt_ne_def pt_child_def pt_okl_def pt_sem_def)
  next
    case False
    with assms(2) obtain p a where v: "v = p OR a" "leaf_attr T (Suc l) a" "p AND amask (Suc l) = p" and l3: "l < 3"
      by (auto simp: pt_okl_def)
    define b where "b = sub_attr T (Suc l) v"
    have sub: "leaf_attr T l b" using sub_leaf [of "Suc l" a p] v l3 by (simp add: b_def)
    have addr: "pte_addr T (Suc l) v = p" using addr_leaf [of "Suc l" a p] v l3 by simp
    have ne: "pt_ne T (Suc l) v j = (p + of_nat j * page_size (l * 9)) OR b" if "j < 512" for j
      using sub_frame(2) [OF l3 v(3) that sub] False by (simp add: pt_ne_def addr b_def)
    have nz: "x OR b \<noteq> 0" for x using sub by (auto simp: leaf_attr_def or_eq_0_iff)
    have k: "k < 512" "idx l i < 512" using assms(4) idx_less [of l i] by (simp_all add: entries_def)
    note fr = sub_frame(1) [OF l3 v(3)]
    have "pt_okl T l (pt_ne T (Suc l) v k)" unfolding ne [OF k(1)] pt_okl_def using fr [OF k(1)] sub l3 by auto
    moreover have "pt_child T off l (pt_ne T (Suc l) v k) = None"
    proof (cases "l = 0")
      case False
      then show ?thesis unfolding ne [OF k(1)] pt_child_def using leaf_kind [of l b] fr [OF k(1)] sub l3 by simp
    qed (simp add: pt_child_def)
    moreover have "pt_sem T l (pt_ne T (Suc l) v (idx l i)) i = pt_sem T (Suc l) v i"
    proof -
      let ?q = "p + of_nat (idx l i) * page_size (l * 9)"
      have at: "page_pm T (?q OR b) = page_pm T v \<and> page_ca T l (?q OR b) = page_ca T (Suc l) v \<and> page_sh T (?q OR b) = page_sh T v"
        using sub_same [of "Suc l" a p ?q] v l3 fr [OF k(2)] by (simp add: b_def)
      have "pte_addr T l (?q OR b) = ?q" using addr_leaf [of l b ?q] sub fr [OF k(2)] l3 by simp
      moreover have "?q + of_nat (i mod entries ^ l * 4096) = p + of_nat (i mod entries ^ Suc l * 4096)"
      proof -
        have "i mod entries ^ Suc l = idx l i * entries ^ l + i mod entries ^ l"
          using mod_mult2_eq [of i "entries ^ l" entries] by (simp add: idx_def mult.commute)
        then have "i mod entries ^ Suc l * 4096 = idx l i * 2 ^ (12 + l * 9) + i mod entries ^ l * 4096"
          by (simp add: entries_power power_add algebra_simps)
        moreover have "page_size (l * 9) = 2 ^ (12 + l * 9)" using l3 by (simp add: page_size_def BITN_eq add.commute)
        ultimately show ?thesis by simp
      qed
      ultimately show ?thesis unfolding ne [OF k(2)] pt_sem_def using at nz False addr by simp
    qed
    ultimately show ?thesis by blast
  qed
  then show "pt_child T off l (pt_ne T (Suc l) v k) = None \<and> pt_okl T l (pt_ne T (Suc l) v k)"
    and "pt_sem T l (pt_ne T (Suc l) v (idx l i)) i = pt_sem T (Suc l) v i" by blast+
qed

lemma pt_mk_child:
  assumes "0 < l" "l \<le> 4" "pt_okp off p"
  shows "pt_child T off l (pt_mk T off l p) = Some p"
proof -
  let ?x = "ptr_to_phys off p"
  have x: "?x AND amask 0 = ?x" "?x \<noteq> 0" using assms(3) by (auto simp: pt_okp_def)
  have "pte_addr T 0 (pt_mk T off l p) = ?x" using addr_table [OF x(1)] by (simp add: pt_mk_def)
  moreover have "is_table T l (pt_mk T off l p)" using tab_kind [OF assms(1) x(1)] by (auto simp: pt_mk_def)
  moreover have "pt_mk T off l p \<noteq> 0" using x(2) by (simp add: pt_mk_def or_eq_0_iff)
  ultimately show ?thesis using assms(1) by (simp add: pt_child_def pte_table_def phys_to_ptr_def ptr_to_phys_def)
qed

end

text \<open>A format that satisfies the laws makes page tables radix trees.\<close>

sublocale pte_laws \<subseteq> pt: radix_fmt "pt_child T off" "pte_table T off" "pt_mk T off" "pt_ne T" "pt_okp off" "pt_okl T" "pt_sem T" 4 for off
proof unfold_locales
  show "pt_child T off l v = Some p \<Longrightarrow> pte_table T off v = p" for l v p by (simp add: pt_child_def split: if_splits)
next
  fix l :: nat and p assume "0 < l" "l \<le> 4" "pt_okp off p"
  then show "pt_child T off l (pt_mk T off l p) = Some p" by (rule pt_mk_child)
next
  fix l :: nat and v k assume l: "0 < l" "l \<le> 4" "pt_okl T l v" "pt_child T off l v = None" "k < entries"
  then show "pt_child T off (l - 1) (pt_ne T l v k) = None \<and> pt_okl T (l - 1) (pt_ne T l v k)"
    using pt_ne_leaf(1) [of "l - 1" v off k] by simp
next
  fix l :: nat and v i assume l: "0 < l" "l \<le> 4" "pt_okl T l v" "pt_child T off l v = None"
  then show "pt_sem T (l - 1) (pt_ne T l v (idx (l - 1) i)) i = pt_sem T l v i"
    using pt_ne_leaf(2) [of "l - 1" v off 0 i] by (simp add: entries_def)
qed

section \<open>Walk and lookup\<close>

text \<open>What a lost exchange does.\<close>

definition pt_lost :: "pte_fmt \<Rightarrow> u64 \<Rightarrow> nat \<Rightarrow> u64 \<Rightarrow> nat \<Rightarrow> bool \<Rightarrow> nat \<Rightarrow> loc \<Rightarrow> u64 \<Rightarrow> u64 \<Rightarrow> 'a tables_scheme \<Rightarrow>
    (walk_result \<times> 'a tables_scheme) option" where
  "pt_lost T off t v n e l a pte p s = do {
     s \<leftarrow> table_delete p False s;
     if t = 0 then None else pt_walk_from T off (t - 1) v n e (Suc l) a s
   }"

text \<open>The abstract content of a page table: the translation of every page number.\<close>

definition pt_tree :: "pte_fmt \<Rightarrow> u64 \<Rightarrow> 'a tables_scheme \<Rightarrow> u64 \<Rightarrow> rt" where
  "pt_tree T off s pt = stree (pt_child T off) s (pf_lev T) (Root pt)"

context pte_laws
begin

lemma pt_walk_gwalk:
  "n \<le> l \<Longrightarrow> pt_walk_from T off t v n e l a s =
     gwalk (pt_child T off) (pte_table T off) (pt_mk T off) (pt_ne T) (pt_lost T off t v n e) n (unat v div 4096) e l a s"
proof (induction l arbitrary: a s)
  case 0
  then show ?case by (simp add: pt_walk_from.simps [of T off t v 0 e 0])
next
  case (Suc l)
  show ?case
  proof (cases "n = Suc l")
    case True
    then show ?thesis by (simp add: pt_walk_from.simps [of T off t v "Suc l" e "Suc l"])
  next
    case False
    then have n: "n \<le> l" using Suc.prems by simp
    have k: "is_large T (Suc l) (rd s a) \<noteq> is_table T (Suc l) (rd s a)" by (rule kinds) simp
    show ?thesis
    proof (cases "pt_child T off (Suc l) (rd s a)")
      case (Some p)
      then have "rd s a \<noteq> 0" "is_table T (Suc l) (rd s a)" "p = pte_table T off (rd s a)"
        by (auto simp: pt_child_def split: if_splits)
      then show ?thesis using False n k Some Suc.IH
        by (simp add: pt_walk_from.simps [of T off t v n e "Suc l"] pte_is_empty_def pt_index_idx Let_def)
    next
      case None
      then have c: "rd s a = 0 \<or> is_large T (Suc l) (rd s a)" using k by (auto simp: pt_child_def split: if_splits)
      show ?thesis
      proof (cases "rd s a = 0 \<and> \<not> e")
        case True
        then show ?thesis using False None by (simp add: pt_walk_from.simps [of T off t v n False "Suc l"] pte_is_empty_def Let_def)
      next
        case skip: False
        define v0 where "v0 = rd s a"
        have new: "table_new (if pte_is_empty v0 then 0 else pte_addr T (Suc l) v0 OR
              page_attr T (Suc l - 1) (page_pm T v0) (page_ca T (Suc l) v0) (page_sh T v0))
              (if pte_is_empty v0 then 0 else page_size ((Suc l - 1) * 9)) s =
            do { (r, s1) \<leftarrow> buddy_alloc 0 NONE s;
                 case r of None \<Rightarrow> Some (None, s1) | Some p \<Rightarrow> Some (Some p, init_table p (pt_ne T (Suc l) v0) s1) }"
        proof -
          have "pt_ne T (Suc l) v0 = (\<lambda>i. (if pte_is_empty v0 then 0 else pte_addr T (Suc l) v0 OR
              page_attr T (Suc l - 1) (page_pm T v0) (page_ca T (Suc l) v0) (page_sh T v0)) +
              of_nat i * (if pte_is_empty v0 then 0 else page_size ((Suc l - 1) * 9)))"
            by (auto simp: fun_eq_iff pt_ne_def sub_attr_def pte_is_empty_def)
          then show ?thesis by (simp only: table_new_def)
        qed
        have c': "pte_is_empty v0 \<or> is_large T (Suc l) v0" "\<not> (pte_is_empty v0 \<and> \<not> e)" "(pte_is_empty v0 \<or> is_large T (Suc l) v0 \<noteq> is_table T (Suc l) v0)"
          using c skip k by (auto simp: v0_def pte_is_empty_def)
        consider "buddy_alloc 0 NONE s = None" | s1 where "buddy_alloc 0 NONE s = Some (None, s1)"
          | p s1 where "buddy_alloc 0 NONE s = Some (Some p, s1)" by (metis option.exhaust surj_pair)
        then show ?thesis
        proof cases
          case 1
          then show ?thesis
            unfolding pt_walk_from.simps [of T off t v n e "Suc l"] gwalk.simps v0_def [symmetric] Let_def new
            using False c' None skip by (auto simp: v0_def pte_is_empty_def)
        next
          case (2 s1)
          then show ?thesis
            unfolding pt_walk_from.simps [of T off t v n e "Suc l"] gwalk.simps v0_def [symmetric] Let_def new
            using False c' None skip by (auto simp: v0_def pte_is_empty_def)
        next
          case (3 p s1)
          obtain ok u s2 where ce: "compare_exchange a v0 (pt_mk T off (Suc l) p) (init_table p (pt_ne T (Suc l) v0) s1) = (ok, u, s2)"
            by (metis surj_pair)
          show ?thesis
            unfolding pt_walk_from.simps [of T off t v n e "Suc l"] gwalk.simps v0_def [symmetric] Let_def new pt_mk_def [symmetric]
            using False c' 3 None [folded v0_def] skip [folded v0_def] Suc.IH [OF n] ce
            by (simp add: pte_is_empty_def pt_lost_def [of T off t v n e l a u p s2] pt_index_idx) blast
        qed
      qed
    qed
  qed
qed

text \<open>A lookup finds the leaf of the tree.\<close>

lemma pt_lookup_tleaf:
  assumes "tleaf l (stree (pt_child T off) s l a) (unat v div 4096) = (k, e)"
  shows "pt_lookup_from T off v ca sh l a s = (if e = 0 then \<lparr>tr_pm = 0, tr_p = 0, tr_o = k * 9, tr_ca = ca, tr_sh = sh\<rparr>
    else \<lparr>tr_pm = page_pm T e, tr_p = pte_addr T k e OR (v AND offs_mask (k * 9)), tr_o = k * 9, tr_ca = page_ca T k e, tr_sh = page_sh T e\<rparr>)"
  using assms
proof (induction l arbitrary: a)
  case 0
  then show ?case by (simp add: pt_lookup_from.simps [of T off v ca sh 0] pte_is_empty_def Let_def)
next
  case (Suc l)
  show ?case
  proof (cases "pt_child T off (Suc l) (rd s a)")
    case None
    then have "rd s a = 0 \<or> \<not> is_table T (Suc l) (rd s a)" by (auto simp: pt_child_def split: if_splits)
    then show ?thesis using Suc.prems None
      by (auto simp: pt_lookup_from.simps [of T off v ca sh "Suc l"] pte_is_empty_def Let_def)
  next
    case (Some p)
    then have c: "rd s a \<noteq> 0" "is_table T (Suc l) (rd s a)" "p = pte_table T off (rd s a)"
      by (auto simp: pt_child_def split: if_splits)
    have "tleaf l (stree (pt_child T off) s l (Word (slot p (idx l (unat v div 4096))))) (unat v div 4096) = (k, e)"
      using Suc.prems Some by simp
    from Suc.IH [OF this] show ?thesis using c
      by (simp add: pt_lookup_from.simps [of T off v ca sh "Suc l"] pte_is_empty_def Let_def pt_index_idx)
  qed
qed

end

section \<open>Deallocation\<close>

text \<open>The pages that deallocating a subtree gives up: the leaf-level tables are not among them.\<close>

fun freed :: "nat \<Rightarrow> rt \<Rightarrow> u64 list" where
  "freed l (Leaf e) = []"
| "freed 0 (Node p ts) = []"
| "freed (Suc l) (Node p ts) = (if l = 0 then [] else p # concat (map (freed l) ts))"

lemma freed_pages: "set (freed l t) \<subseteq> set (pages_of t)"
proof (induction t arbitrary: l)
  case (Node p ts)
  then show ?case by (cases l) (auto simp: subset_iff)
qed simp

context pte_laws
begin

lemma pt_deallocate_spec:
  fixes s :: "'a tables_scheme"
  assumes "page_inv s L" "wf_rt (rtree (pt_child T off) (mem s) (Suc l) e)" "pt_child T off (Suc l) e = Some p"
    and "set (freed (Suc l) (rtree (pt_child T off) (mem s) (Suc l) e)) \<subseteq> L"
  shows "\<exists>s'. pt_deallocate T off l p s = Some s' \<and> page_inv s' (L - set (freed (Suc l) (rtree (pt_child T off) (mem s) (Suc l) e))) \<and>
    mem s' = mem s \<and> root_of s' = root_of s \<and> same_geometry s s'"
  using assms
proof (induction l arbitrary: s L e p)
  case 0
  then show ?case by (simp add: same_geometry_def)
next
  case (Suc l)
  let ?t = "\<lambda>k. rtree (pt_child T off) (mem s) (Suc l) (mem s (slot p k))"
  let ?f = "\<lambda>i (s :: 'a tables_scheme). let old = mem s (slot p i) in if pte_is_empty old then Some s
    else if is_table T (Suc l) old then pt_deallocate T off l (pte_table T off old) s else Some s"
  let ?P = "\<lambda>k. set (freed (Suc l) (?t k))"
  have t: "rtree (pt_child T off) (mem s) (Suc (Suc l)) e = Node p (map ?t [0..<entries])" using Suc.prems(3) by simp
  note wf = wf_rt_Node [OF Suc.prems(2) [unfolded t]]
  have dj: "distinct (concat (map pages_of (map ?t [0..<entries])))" "p \<notin> set (concat (map pages_of (map ?t [0..<entries])))"
    using Suc.prems(2) unfolding wf_rt_def t by auto
  have fr: "set (freed (Suc (Suc l)) (Node p (map ?t [0..<entries]))) = insert p (\<Union>k<entries. ?P k)" by (auto simp: lessThan_atLeast0)
  then have sub: "p \<in> L" "(\<Union>k<entries. ?P k) \<subseteq> L" using Suc.prems(4) unfolding t by auto
  have "\<exists>s1. foldM ?f [0..<entries] s = Some s1 \<and> page_inv s1 (L - (\<Union>k<entries. ?P k)) \<and> mem s1 = mem s \<and>
      root_of s1 = root_of s \<and> same_geometry s s1"
  proof (rule fold_release [OF Suc.prems(1)])
    show "?P k \<subseteq> L" if "k < entries" for k using sub(2) that by blast
    show "?P j \<inter> ?P k = {}" if "j < k" "k < entries" for j k
    proof -
      have "set (pages_of (?t j)) \<inter> set (pages_of (?t k)) = {}" using dj(1) that unfolding distinct_concat_nth by auto
      then show ?thesis using freed_pages by blast
    qed
  next
    fix k L1 and s1 :: "'a tables_scheme"
    assume k: "k < entries" "page_inv s1 L1" "?P k \<subseteq> L1" "mem s1 = mem s" "root_of s1 = root_of s" "same_geometry s s1"
    show "\<exists>s2. ?f k s1 = Some s2 \<and> page_inv s2 (L1 - ?P k) \<and> mem s2 = mem s \<and> root_of s2 = root_of s \<and> same_geometry s s2"
    proof (cases "pt_child T off (Suc l) (mem s (slot p k))")
      case None
      then have "?t k = Leaf (mem s (slot p k))" "mem s (slot p k) = 0 \<or> \<not> is_table T (Suc l) (mem s (slot p k))"
        by (auto simp: pt_child_def split: if_splits)
      then show ?thesis using k by (auto simp: pte_is_empty_def Let_def)
    next
      case (Some q)
      then have q: "mem s (slot p k) \<noteq> 0" "is_table T (Suc l) (mem s (slot p k))" "q = pte_table T off (mem s (slot p k))"
        by (auto simp: pt_child_def split: if_splits)
      have "wf_rt (?t k)" using wf(1) [of k] k(1) by simp
      then have "\<exists>s2. pt_deallocate T off l q s1 = Some s2 \<and> page_inv s2 (L1 - ?P k) \<and> mem s2 = mem s1 \<and> root_of s2 = root_of s1 \<and> same_geometry s1 s2"
        using Suc.IH [OF k(2), of "mem s (slot p k)" q] Some k(3,4) by simp
      then show ?thesis using q k(4-6) by (auto simp: pte_is_empty_def Let_def same_geometry_def)
    qed
  qed
  then obtain s1 where s1: "foldM ?f [0..<entries] s = Some s1" "page_inv s1 (L - (\<Union>k<entries. ?P k))" "mem s1 = mem s"
    "root_of s1 = root_of s" "same_geometry s s1" by blast
  have "p \<notin> set (pages_of (?t k))" if "k < entries" for k using dj(2) that by auto
  then have "p \<in> L - (\<Union>k<entries. ?P k)" using sub(1) freed_pages by blast
  from table_wait [OF s1(2) this] obtain s2 where s2: "buddy_wait p s1 = Some s2" "page_inv s2 (L - (\<Union>k<entries. ?P k) - {p})"
    "mem s2 = mem s1" "root_of s2 = root_of s1" "same_geometry s1 s2" by blast
  moreover have "L - (\<Union>k<entries. ?P k) - {p} = L - set (freed (Suc (Suc l)) (Node p (map ?t [0..<entries])))" unfolding fr by auto
  ultimately show ?case using s1 unfolding t by (simp add: same_geometry_def table_delete_def)
qed

text \<open>Writing a leaf entry and giving up the tables below the old entry.\<close>

lemma pt_replace:
  fixes s :: "'a tables_scheme"
  assumes ok: "pt.tree_ok off s L 4 (Root pt)" and r: "rslot (pt_child T off) s n i 4 (Root pt) = Some b" and n: "n < 4"
    and v: "pt_okl T n v" "n = 0 \<or> pt_child T off n v = None"
  shows "\<exists>s2 D. (if pte_is_empty (rd s b) then Some (wr b v s)
       else if is_table T n (rd s b) then pt_deallocate T off (n - 1) (pte_table T off (rd s b)) (wr b v s)
       else Some (wr b v s)) = Some s2 \<and> pt.tree_ok off s2 (L - D) 4 (Root pt) \<and>
     D \<subseteq> set (pages_of (stree (pt_child T off) s 4 (Root pt))) \<and> mem s2 = mem (wr b v s) \<and> root_of s2 = root_of (wr b v s) \<and> same_geometry s s2"
proof -
  let ?c = "pt_child T off" let ?s1 = "wr b v s" let ?t = "stree ?c s n b" let ?D = "set (freed n ?t)"
  note w = pt.write_leaf [OF ok r v]
  have wf: "wf_rt (stree ?c s 4 (Root pt))" and pL: "set (pages_of (stree ?c s 4 (Root pt))) \<subseteq> L" and inv: "page_inv s L"
    using ok by (auto simp: pt.tree_ok_def)
  have inv1: "page_inv ?s1 L" using page_inv_same_alloc [of s ?s1 L] inv by simp
  have geo1: "same_geometry s ?s1" by (simp add: same_geometry_def wr_def split: loc.splits)
  have own: "x \<notin> words_of ?t" if "b = Word x" for x using rslot_own [OF r wf _ that] by simp
  have sub: "rtree ?c (mem ?s1) n (rd s b) = ?t" by (rule rtree_cong) (use own in \<open>auto simp: mem_wr\<close>)
  have D: "?D \<subseteq> set (pages_of (stree ?c s 4 (Root pt)))" using freed_pages rslot_pages [OF r] by blast
  have drop: "set (pages_of (stree ?c ?s1 4 (Root pt))) \<inter> ?D = {}"
    using tput_drops [OF r wf, of v] freed_pages unfolding w(1) by blast
  have step: "\<exists>s2. (if pte_is_empty (rd s b) then Some ?s1
       else if is_table T n (rd s b) then pt_deallocate T off (n - 1) (pte_table T off (rd s b)) ?s1 else Some ?s1) = Some s2 \<and>
      page_inv s2 (L - ?D) \<and> mem s2 = mem ?s1 \<and> root_of s2 = root_of ?s1 \<and> same_geometry ?s1 s2"
  proof (cases "?c n (rd s b)")
    case None
    then have "?t = Leaf (rd s b)" "rd s b = 0 \<or> n = 0 \<or> \<not> is_table T n (rd s b)"
      by (cases n; auto simp: pt_child_def split: if_splits)+
    then show ?thesis using inv1 by (auto simp: pte_is_empty_def same_geometry_def)
  next
    case (Some p)
    then obtain m where m: "n = Suc m" by (cases n) (auto simp: pt_child_def)
    have q: "rd s b \<noteq> 0" "is_table T n (rd s b)" "p = pte_table T off (rd s b)" using Some by (auto simp: pt_child_def split: if_splits)
    have "wf_rt (rtree ?c (mem ?s1) (Suc m) (rd s b))" "set (freed (Suc m) (rtree ?c (mem ?s1) (Suc m) (rd s b))) \<subseteq> L"
      using rslot_wf [OF r wf] sub D pL unfolding m by auto
    from pt_deallocate_spec [OF inv1 this(1) _ this(2), of p] Some sub q show ?thesis unfolding m by (auto simp: pte_is_empty_def)
  qed
  then obtain s2 where s2: "(if pte_is_empty (rd s b) then Some ?s1
       else if is_table T n (rd s b) then pt_deallocate T off (n - 1) (pte_table T off (rd s b)) ?s1 else Some ?s1) = Some s2"
     "page_inv s2 (L - ?D)" "mem s2 = mem ?s1" "root_of s2 = root_of ?s1" "same_geometry ?s1 s2" by blast
  have eq: "stree ?c s2 4 (Root pt) = stree ?c ?s1 4 (Root pt)" using s2(3,4) by (simp add: rd_def)
  have "pt.tree_ok off s2 (L - ?D) 4 (Root pt)"
    using w(2) s2(2) drop pool_ok_same [OF s2(5)] unfolding pt.tree_ok_def eq by auto
  moreover have "same_geometry s s2" using geo1 s2(5) by (simp add: same_geometry_def)
  ultimately show ?thesis using s2 D by blast
qed

end

lemma loc_plus_slot: "loc_plus (Word (slot q k)) j = Word (slot q (k + j))"
  by (simp add: loc_plus_def slot_def algebra_simps)

text \<open>Two page numbers that differ at most in the slots of level \<open>l\<close> and below.\<close>

definition same_table :: "nat \<Rightarrow> nat \<Rightarrow> nat \<Rightarrow> bool" where
  "same_table l i j \<longleftrightarrow> (\<forall>m. l < m \<and> m < 4 \<longrightarrow> idx m i = idx m j)"

lemma same_slot_table: "l < 4 \<Longrightarrow> same_slot l 4 i j \<longleftrightarrow> same_table l i j \<and> idx l i = idx l j"
  unfolding same_slot_def same_table_def by (metis le_neq_implies_less less_imp_le order_refl)

lemma idx_plus:
  assumes "idx l i + j < entries"
  shows "idx l (i + j * entries ^ l) = idx l i + j" and "l < m \<Longrightarrow> idx m (i + j * entries ^ l) = idx m i"
proof -
  let ?d = "i div entries ^ l"
  have pos: "0 < entries ^ l" by (simp add: entries_def)
  have d: "(i + j * entries ^ l) div entries ^ l = ?d + j" using pos by simp
  have j: "?d mod entries + j < entries" using assms by (simp add: idx_def)
  show "idx l (i + j * entries ^ l) = idx l i + j" unfolding idx_def d using j by (metis mod_add_left_eq mod_less)
  have dd: "(?d + j) div entries = ?d div entries"
    using j div_add1_eq [of ?d j entries] by (simp add: entries_def)
  assume "l < m"
  then obtain k where m: "m = Suc (l + k)" using less_imp_Suc_add by blast
  have "entries ^ m = entries ^ l * entries * entries ^ k" by (simp add: m power_add)
  then have "x div entries ^ m = x div entries ^ l div entries div entries ^ k" for x by (simp only: div_mult2_eq)
  then show "idx m (i + j * entries ^ l) = idx m i" unfolding idx_def using d dd by simp
qed

context pte_laws
begin

text \<open>The loop that fills slots \<open>idx l i + j\<close> to \<open>idx l i + j + n - 1\<close> of one table.\<close>

lemma pt_fill_spec:
  fixes s :: "'a tables_scheme"
  assumes "pt.tree_ok off s L 4 (Root pt)" "l < 4" "idx l i + j + n \<le> entries"
    and "\<And>x. same_table l i x \<Longrightarrow> rslot (pt_child T off) s l x 4 (Root pt) = Some (Word (slot q (idx l x)))"
    and "\<And>k. k < n \<Longrightarrow> pt_okl T l (e + of_nat k * sz) \<and> (l = 0 \<or> pt_child T off l (e + of_nat k * sz) = None)"
  shows "\<exists>s' D. pt_fill T off l (Word (slot q (idx l i))) sz j n e s = Some s' \<and> pt.tree_ok off s' (L - D) 4 (Root pt) \<and>
     same_geometry s s' \<and> D \<subseteq> set (pages_of (stree (pt_child T off) s 4 (Root pt))) \<and>
     set (pages_of (stree (pt_child T off) s' 4 (Root pt))) \<subseteq> set (pages_of (stree (pt_child T off) s 4 (Root pt))) \<and>
     (\<forall>x. pt.tsem 4 (stree (pt_child T off) s' 4 (Root pt)) x =
       (if same_table l i x \<and> idx l i + j \<le> idx l x \<and> idx l x < idx l i + j + n
        then pt_sem T l (e + of_nat (idx l x - (idx l i + j)) * sz) x else pt.tsem 4 (stree (pt_child T off) s 4 (Root pt)) x)) \<and>
     (\<forall>w. w \<notin> words_of (stree (pt_child T off) s 4 (Root pt)) \<longrightarrow> mem s' w = mem s w) \<and>
     (\<forall>y. y \<noteq> pt \<longrightarrow> root_of s' y = root_of s y)"
  using assms
proof (induction n arbitrary: s L j e)
  case 0
  then show ?case by (intro exI [of _ s] exI [of _ "{}"]) (auto simp: same_geometry_def)
next
  case (Suc n)
  let ?c = "pt_child T off" let ?i = "i + j * entries ^ l" let ?tr = "\<lambda>s :: 'a tables_scheme. stree ?c s 4 (Root pt)"
  have j: "idx l i + j < entries" using Suc.prems(3) by simp
  have ii: "idx l ?i = idx l i + j" "same_table l i ?i" using idx_plus [OF j] by (auto simp: same_table_def)
  let ?b = "Word (slot q (idx l i + j))"
  have r: "rslot ?c s l ?i 4 (Root pt) = Some ?b" using Suc.prems(4) [OF ii(2)] ii(1) by simp
  have v: "pt_okl T l e" "l = 0 \<or> ?c l e = None" using Suc.prems(5) [of 0] by auto
  from pt_replace [OF Suc.prems(1) r Suc.prems(2) v] obtain s2 D where
    s2: "(if pte_is_empty (rd s ?b) then Some (wr ?b e s)
       else if is_table T l (rd s ?b) then pt_deallocate T off (l - 1) (pte_table T off (rd s ?b)) (wr ?b e s)
       else Some (wr ?b e s)) = Some s2" "pt.tree_ok off s2 (L - D) 4 (Root pt)" "D \<subseteq> set (pages_of (?tr s))"
       "mem s2 = mem (wr ?b e s)" "root_of s2 = root_of (wr ?b e s)" "same_geometry s s2" by blast
  note w = pt.write_leaf [OF Suc.prems(1) r v]
  have tr2: "?tr s2 = ?tr (wr ?b e s)" using s2(4,5) by (simp add: rd_def)
  have wf: "wf_rt (?tr s)" using Suc.prems(1) by (simp add: pt.tree_ok_def)
  have next_table: "rslot ?c s2 l x 4 (Root pt) = Some (Word (slot q (idx l x)))" if x: "same_table l i x" for x
  proof -
    have "\<forall>m. l < m \<and> m < 4 \<longrightarrow> idx m ?i = idx m x" using ii(2) x by (simp add: same_table_def)
    from rslot_sibling [OF r Suc.prems(2) this wf, of e] obtain p where
      "?b = Word (slot p (idx l ?i))" "rslot ?c (wr ?b e s) l x 4 (Root pt) = Some (Word (slot p (idx l x)))" by auto
    then show ?thesis using rslot_cong [OF s2(4,5)] ii(1) by (simp add: slot_def)
  qed
  have "pt_okl T l (e + sz + of_nat k * sz) \<and> (l = 0 \<or> ?c l (e + sz + of_nat k * sz) = None)" if "k < n" for k
    using Suc.prems(5) [of "Suc k"] that by (simp add: algebra_simps)
  moreover have "idx l i + Suc j + n \<le> entries" using Suc.prems(3) by simp
  ultimately obtain s3 D3 where s3: "pt_fill T off l (Word (slot q (idx l i))) sz (Suc j) n (e + sz) s2 = Some s3"
    "pt.tree_ok off s3 (L - D - D3) 4 (Root pt)" "same_geometry s2 s3" "D3 \<subseteq> set (pages_of (?tr s2))"
    "set (pages_of (?tr s3)) \<subseteq> set (pages_of (?tr s2))"
    "\<forall>x. pt.tsem 4 (?tr s3) x = (if same_table l i x \<and> idx l i + Suc j \<le> idx l x \<and> idx l x < idx l i + Suc j + n
        then pt_sem T l (e + sz + of_nat (idx l x - (idx l i + Suc j)) * sz) x else pt.tsem 4 (?tr s2) x)"
    "\<forall>w. w \<notin> words_of (?tr s2) \<longrightarrow> mem s3 w = mem s2 w" "\<forall>y. y \<noteq> pt \<longrightarrow> root_of s3 y = root_of s2 y"
    using Suc.IH [OF s2(2) Suc.prems(2), of "Suc j" "e + sz"] next_table by blast
  have pg: "set (pages_of (?tr s2)) \<subseteq> set (pages_of (?tr s))"
    using set_pages_tput [of "Leaf e" ?i l 4 "?tr s"] unfolding tr2 w(1) by simp
  have fill: "pt_fill T off l (Word (slot q (idx l i))) sz j (Suc n) e s = Some s3"
    unfolding pt_fill.simps exchange_def loc_plus_slot Let_def prod.case s2(1) using s3(1) by simp
  have sem: "pt.tsem 4 (?tr s3) x = (if same_table l i x \<and> idx l i + j \<le> idx l x \<and> idx l x < idx l i + j + Suc n
        then pt_sem T l (e + of_nat (idx l x - (idx l i + j)) * sz) x else pt.tsem 4 (?tr s) x)" for x
  proof -
    have same: "same_slot l 4 ?i x \<longleftrightarrow> same_table l i x \<and> idx l x = idx l i + j"
    proof -
      have "same_table l ?i x \<longleftrightarrow> same_table l i x" using ii(2) unfolding same_table_def by metis
      then show ?thesis using same_slot_table [OF Suc.prems(2), of ?i x] ii(1) by (simp add: eq_commute)
    qed
    have step: "e + sz + of_nat (idx l x - (idx l i + Suc j)) * sz = e + of_nat (idx l x - (idx l i + j)) * sz" if "idx l i + Suc j \<le> idx l x"
    proof -
      have "idx l x - (idx l i + j) = Suc (idx l x - (idx l i + Suc j))" using that by simp
      then have "of_nat (idx l x - (idx l i + j)) = (of_nat (idx l x - (idx l i + Suc j)) + 1 :: u64)" by (simp only: of_nat_Suc add.commute)
      then show ?thesis by (simp add: algebra_simps)
    qed
    have s2x: "pt.tsem 4 (?tr s2) x = (if same_table l i x \<and> idx l x = idx l i + j then pt_sem T l e x else pt.tsem 4 (?tr s) x)"
      unfolding tr2 w(3) same by simp
    consider "\<not> same_table l i x \<or> idx l x < idx l i + j \<or> idx l i + j + Suc n \<le> idx l x" | "same_table l i x" "idx l x = idx l i + j"
      | "same_table l i x" "idx l i + Suc j \<le> idx l x" "idx l x < idx l i + Suc j + n" by linarith
    then show ?thesis using s3(6) [rule_format, of x] s2x step by cases (auto simp: add.assoc)
  qed
  have mem3: "mem s3 w = mem s w" if "w \<notin> words_of (?tr s)" for w
  proof -
    have "words_of (?tr s2) \<subseteq> words_of (?tr s)" using pg unfolding words_of_def by blast
    then show ?thesis using s3(7) that w(4) [of w] s2(4) by auto
  qed
  have "root_of s3 y = root_of s y" if "y \<noteq> pt" for y using s3(8) that w(5) [of y] s2(5) by simp
  moreover have "L - D - D3 = L - (D \<union> D3)" by auto
  moreover have "D \<union> D3 \<subseteq> set (pages_of (?tr s))" using s2(3) s3(4) pg by blast
  moreover have "same_geometry s s3" using s2(6) s3(3) by (simp add: same_geometry_def)
  ultimately show ?case using fill s3(2,5) pg sem mem3 by (intro exI [of _ s3] exI [of _ "D \<union> D3"]) auto
qed

end

section \<open>Regions\<close>

lemma div_idx: "i div entries ^ k = entries * (i div entries ^ Suc k) + idx k i"
proof -
  have "i div entries ^ Suc k = i div entries ^ k div entries" by (simp add: div_mult2_eq [symmetric] mult.commute)
  then show ?thesis by (simp add: idx_def)
qed

lemma same_table_div:
  assumes "l < 4" "i < entries ^ 4" "x < entries ^ 4"
  shows "same_table l i x \<longleftrightarrow> i div entries ^ Suc l = x div entries ^ Suc l"
proof
  assume eq: "i div entries ^ Suc l = x div entries ^ Suc l"
  have "y div entries ^ m = y div entries ^ Suc l div entries ^ (m - Suc l)" if "l < m" for m y
  proof -
    have "entries ^ m = entries ^ Suc l * entries ^ (m - Suc l)" using that by (simp only: power_add [symmetric]) simp
    then show ?thesis by (simp only: div_mult2_eq)
  qed
  then show "same_table l i x" using eq by (simp add: same_table_def idx_def)
next
  assume st: "same_table l i x"
  have "i div entries ^ (4 - d) = x div entries ^ (4 - d)" if "d \<le> 3 - l" for d
    using that
  proof (induction d)
    case 0
    then show ?case using assms by simp
  next
    case (Suc d)
    then have s: "Suc (4 - Suc d) = 4 - d" "l < 4 - Suc d" "4 - Suc d < 4" by auto
    then have "idx (4 - Suc d) i = idx (4 - Suc d) x" using st by (simp add: same_table_def)
    then show ?case using Suc div_idx [of i "4 - Suc d"] div_idx [of x "4 - Suc d"] unfolding s(1) by simp
  qed
  from this [of "3 - l"] assms(1) show "i div entries ^ Suc l = x div entries ^ Suc l" by (simp add: Suc_diff_le)
qed

lemma aligned_run:
  fixes A B :: nat
  assumes "r \<le> 9" "2 ^ r dvd A"
  shows "A mod 512 + 2 ^ r \<le> 512"
    and "A div 512 = B div 512 \<and> A mod 512 \<le> B mod 512 \<and> B mod 512 < A mod 512 + 2 ^ r \<longleftrightarrow> A \<le> B \<and> B < A + 2 ^ r"
proof -
  have t: "(512 :: nat) = 2 ^ r * 2 ^ (9 - r)" using assms(1) by (simp add: power_add [symmetric])
  have "2 ^ r dvd A mod 512" using assms(2) dvdI [OF t] by (rule dvd_mod)
  then obtain c where c: "A mod 512 = 2 ^ r * c" by blast
  have "2 ^ r * c < 2 ^ r * 2 ^ (9 - r)" using c t by (metis mod_less_divisor zero_less_numeral)
  then have "c < 2 ^ (9 - r)" by simp
  then have "2 ^ r * (c + 1) \<le> 2 ^ r * 2 ^ (9 - r)" by (intro mult_left_mono) auto
  then show le: "A mod 512 + 2 ^ r \<le> 512" using c t by (simp add: algebra_simps)
  have A: "A = 512 * (A div 512) + A mod 512" and B: "B = 512 * (B div 512) + B mod 512" by simp_all
  show "A div 512 = B div 512 \<and> A mod 512 \<le> B mod 512 \<and> B mod 512 < A mod 512 + 2 ^ r \<longleftrightarrow> A \<le> B \<and> B < A + 2 ^ r"
  proof
    assume "A \<le> B \<and> B < A + 2 ^ r"
    then obtain d where d: "B = A + d" "d < 2 ^ r" using le_Suc_ex by auto
    then have "A mod 512 + d < 512" using le by simp
    then have "B div 512 = A div 512" "B mod 512 = A mod 512 + d"
      using div_add1_eq [of A d 512] mod_add_left_eq [of A 512 d] d(1) by simp_all
    then show "A div 512 = B div 512 \<and> A mod 512 \<le> B mod 512 \<and> B mod 512 < A mod 512 + 2 ^ r" using d(2) by simp
  qed (use A B in linarith)
qed

lemma diff_run: "x = u + b + c \<Longrightarrow> i = u + a \<Longrightarrow> a \<le> b \<Longrightarrow> x - i = b - a + (c :: nat)"
  by simp

lemma region:
  assumes "l < 4" "r \<le> 9" "2 ^ (9 * l + r) dvd i" "i < entries ^ 4" "x < entries ^ 4"
  shows "same_table l i x \<and> idx l i \<le> idx l x \<and> idx l x < idx l i + 2 ^ r \<longleftrightarrow> i \<le> x \<and> x < i + 2 ^ (9 * l + r)"
    and "i \<le> x \<Longrightarrow> x < i + 2 ^ (9 * l + r) \<Longrightarrow> x - i = (idx l x - idx l i) * entries ^ l + x mod entries ^ l"
    and "idx l i + 2 ^ r \<le> entries"
proof -
  define E where "E = entries ^ l"
  have E: "0 < E" "E = 2 ^ (9 * l)" by (simp_all add: E_def entries_def power_mult)
  have eS: "entries ^ Suc l = E * 512" by (simp add: E_def entries_def)
  from assms(3) obtain c where c: "i = 2 ^ (9 * l + r) * c" by blast
  then have A: "i = E * (i div E)" "2 ^ r dvd i div E" by (simp_all add: E power_add)
  note run = aligned_run(1) [OF assms(2) A(2)] aligned_run(2) [OF assms(2) A(2), of "x div E"]
  have id: "idx l y = y div E mod 512" for y by (simp add: idx_def E_def entries_def)
  have dv: "y div entries ^ Suc l = y div E div 512" for y unfolding eS by (simp only: div_mult2_eq)
  have le: "i div E \<le> x div E \<longleftrightarrow> i \<le> x" using A(1) E(1) by (metis div_le_mono less_eq_div_iff_mult_less_eq mult.commute)
  have lt: "x div E < i div E + 2 ^ r \<longleftrightarrow> x < i + 2 ^ (9 * l + r)"
  proof -
    have "i + 2 ^ (9 * l + r) = (i div E + 2 ^ r) * E" using A(1) E(2) by (simp add: algebra_simps power_add)
    then show ?thesis using E(1) by (simp add: div_less_iff_less_mult)
  qed
  show iff: "same_table l i x \<and> idx l i \<le> idx l x \<and> idx l x < idx l i + 2 ^ r \<longleftrightarrow> i \<le> x \<and> x < i + 2 ^ (9 * l + r)"
    unfolding same_table_div [OF assms(1,4,5)] dv id run(2) le lt ..
  show "idx l i + 2 ^ r \<le> entries" using run(1) by (simp add: id entries_def)
  assume "i \<le> x" "x < i + 2 ^ (9 * l + r)"
  then have "i div E \<le> x div E" and s: "i div E div 512 = x div E div 512" "idx l i \<le> idx l x"
    using iff le unfolding same_table_div [OF assms(1,4,5)] dv by auto
  have d: "i div E = 512 * (i div E div 512) + idx l i" "x div E = 512 * (i div E div 512) + idx l x" unfolding id by (simp, simp add: s(1))
  have "x = E * (x div E) + x mod E" by simp
  then have "x = E * (512 * (i div E div 512)) + E * idx l x + x mod E" by (metis d(2) distrib_left)
  moreover have "i = E * (512 * (i div E div 512)) + E * idx l i" by (metis A(1) d(1) distrib_left)
  ultimately have "x - i = E * idx l x - E * idx l i + x mod E" using s(2) by (intro diff_run) auto
  then show "x - i = (idx l x - idx l i) * entries ^ l + x mod entries ^ l"
    unfolding E_def [symmetric] by (simp add: diff_mult_distrib2 mult.commute)
qed
text \<open>
  The abstract content of a page table: the frame and the attributes of every page number. A page
  table is well formed if its tree is, with the tables in the live pages \<open>L\<close>.
\<close>

definition pt_map :: "pte_fmt \<Rightarrow> u64 \<Rightarrow> u64 \<Rightarrow> 'a tables_scheme \<Rightarrow> nat \<Rightarrow> (u64 \<times> perms \<times> cacheability \<times> shareability) option" where
  "pt_map T off pt s x = (case tleaf 4 (stree (pt_child T off) s 4 (Root pt)) x of (k, e) \<Rightarrow> pt_sem T k e x)"

definition pt_ok :: "pte_fmt \<Rightarrow> u64 \<Rightarrow> 'a tables_scheme \<Rightarrow> u64 set \<Rightarrow> u64 \<Rightarrow> bool" where
  "pt_ok T off s L pt \<longleftrightarrow> radix_fmt.tree_ok (pt_child T off) (pt_okp off) (pt_okl T) s L 4 (Root pt)"

abbreviation pt_pages :: "pte_fmt \<Rightarrow> u64 \<Rightarrow> u64 \<Rightarrow> 'a tables_scheme \<Rightarrow> u64 set" where
  "pt_pages T off pt s \<equiv> set (pages_of (stree (pt_child T off) s 4 (Root pt)))"

text \<open>The live pages that are not tables of \<open>pt\<close>, and the other root entries, stay as they are.\<close>

definition pt_frame :: "pte_fmt \<Rightarrow> u64 \<Rightarrow> u64 \<Rightarrow> u64 set \<Rightarrow> 'a tables_scheme \<Rightarrow> u64 set \<Rightarrow> 'a tables_scheme \<Rightarrow> bool" where
  "pt_frame T off pt L s L' s' \<longleftrightarrow> (\<forall>q\<in>L. q \<notin> pt_pages T off pt s \<longrightarrow> q \<in> L' \<and> q \<notin> pt_pages T off pt s' \<and>
      (\<forall>w\<in>page_words q. mem s' w = mem s w)) \<and> (\<forall>y. y \<noteq> pt \<longrightarrow> root_of s' y = root_of s y)"

lemma pt_frame_refl: "pt_frame T off pt L s L s"
  by (simp add: pt_frame_def)

lemma pt_frame_trans: "pt_frame T off pt L s L1 s1 \<Longrightarrow> pt_frame T off pt L1 s1 L2 s2 \<Longrightarrow> pt_frame T off pt L s L2 s2"
  unfolding pt_frame_def by metis

text \<open>The translation that an update with attributes \<open>a\<close> installs for page \<open>x\<close> of a region that starts at page \<open>i\<close>.\<close>

definition new_map :: "pte_fmt \<Rightarrow> nat \<Rightarrow> u64 \<Rightarrow> u64 \<Rightarrow> nat \<Rightarrow> nat \<Rightarrow> (u64 \<times> perms \<times> cacheability \<times> shareability) option" where
  "new_map T l a p i x = (if a = 0 then None else Some (p + of_nat ((x - i) * 4096), page_pm T a, page_ca T l a, page_sh T a))"

text \<open>A leaf is the same for all indices that agree down to its level.\<close>

lemma tleaf_same: "same_slot k l i j \<Longrightarrow> k \<le> fst (tleaf l t i) \<Longrightarrow> tleaf l t j = tleaf l t i"
proof (induction l arbitrary: t)
  case (Suc l)
  show ?case
  proof (cases t)
    case (Node p ts)
    then have "k \<le> fst (tleaf l (ts ! idx l i) i)" using Suc.prems(2) by simp
    moreover have "fst (tleaf l u i) \<le> l" for u by (induction l u i rule: tleaf.induct) auto
    ultimately have "k \<le> l" by (meson le_trans)
    then show ?thesis using Node Suc same_slot_Suc [of k l i j] by simp
  qed simp
next
  case 0
  then show ?case by (cases t) auto
qed

context pte_laws
begin

lemma pt_map_tsem: "pt_map T off pt s x = pt.tsem 4 (stree (pt_child T off) s 4 (Root pt)) x"
  by (simp add: pt_map_def pt.tsem_def)

lemma pt_ok_tree: "pt_ok T off s L pt \<longleftrightarrow> pt.tree_ok off s L 4 (Root pt)"
  by (simp add: pt_ok_def)

lemma grown_frame:
  assumes "pt.grown off s L 4 (Root pt) s' N"
  shows "pt_frame T off pt L s (L \<union> N) s'"
proof -
  let ?t = "stree (pt_child T off) s' 4 (Root pt)"
  have g: "pt.tree_ok off s' (L \<union> N) 4 (Root pt)" "N \<inter> L = {}" "pt_pages T off pt s' = pt_pages T off pt s \<union> N"
    "\<And>w. w \<notin> words_of ?t \<Longrightarrow> mem s' w = mem s w" "\<And>y. y \<noteq> pt \<Longrightarrow> root_of s' y = root_of s y"
    using assms by (auto simp: pt.grown_def)
  have al: "aligned (L \<union> N)" using page_inv_aligned g(1) by (auto simp: aligned_def pt.tree_ok_def)
  have sub: "pt_pages T off pt s' \<subseteq> L \<union> N" using g(1) by (auto simp: pt.tree_ok_def)
  have "mem s' w = mem s w" if "q \<in> L" "q \<notin> pt_pages T off pt s" "w \<in> page_words q" for q w
  proof -
    have "page_words q \<inter> words_of ?t = {}"
      using words_disjoint [of "Node q []" ?t] al sub g(2,3) that by (auto simp: words_of_Node aligned_def)
    then show ?thesis using g(4) that(3) by blast
  qed
  then show ?thesis using g unfolding pt_frame_def by blast
qed

lemma fill_frame:
  assumes "pt_ok T off s L pt" "D \<subseteq> pt_pages T off pt s" "pt_pages T off pt s' \<subseteq> pt_pages T off pt s"
    and "\<forall>w. w \<notin> words_of (stree (pt_child T off) s 4 (Root pt)) \<longrightarrow> mem s' w = mem s w" "\<forall>y. y \<noteq> pt \<longrightarrow> root_of s' y = root_of s y"
  shows "pt_frame T off pt L s (L - D) s'"
proof -
  let ?t = "stree (pt_child T off) s 4 (Root pt)"
  have al: "aligned L" using page_inv_aligned assms(1) by (auto simp: aligned_def pt_ok_tree pt.tree_ok_def)
  have sub: "pt_pages T off pt s \<subseteq> L" using assms(1) by (auto simp: pt_ok_tree pt.tree_ok_def)
  have "mem s' w = mem s w" if "q \<in> L" "q \<notin> pt_pages T off pt s" "w \<in> page_words q" for q w
  proof -
    have "page_words q \<inter> words_of ?t = {}"
      using words_disjoint [of "Node q []" ?t] al sub that by (auto simp: words_of_Node aligned_def)
    then show ?thesis using assms(4) that(3) by blast
  qed
  then show ?thesis using assms(2,3,5) unfolding pt_frame_def by blast
qed

text \<open>Every walk succeeds and keeps the translations.\<close>

lemma pt_walk_spec:
  fixes s :: "'a tables_scheme"
  assumes "pt_ok T off s L pt" "n \<le> 4"
  shows "\<exists>r s' L'. pt_walk T off pt v n e s = Some (r, s') \<and> pt_ok T off s' L' pt \<and> pt_frame T off pt L s L' s' \<and>
     pt_map T off pt s' = pt_map T off pt s \<and>
     (case r of Slot b \<Rightarrow> rslot (pt_child T off) s' n (unat v div 4096) 4 (Root pt) = Some b
      | Hole \<Rightarrow> \<not> e \<and> (\<exists>k>n. tleaf 4 (stree (pt_child T off) s' 4 (Root pt)) (unat v div 4096) = (k, 0)) | Null \<Rightarrow> True)"
proof -
  from pt.gwalk_spec [OF assms(1) [unfolded pt_ok_tree] order_refl assms(2), of "pt_lost T off 1 v n e" "unat v div 4096" e]
  obtain r s' N where w: "pt_walk T off pt v n e s = Some (r, s')" "pt.grown off s L 4 (Root pt) s' N"
    "pt.walked off s' n (unat v div 4096) e 4 (Root pt) r"
    using pt_walk_gwalk [OF assms(2), of off 1 v e "Root pt" s] by (auto simp: pt_walk_def lev4)
  have "pt_ok T off s' (L \<union> N) pt" "pt_map T off pt s' = pt_map T off pt s"
    using w(2) by (auto simp: pt.grown_def pt_ok_tree pt_map_tsem fun_eq_iff)
  moreover have "case r of Slot b \<Rightarrow> rslot (pt_child T off) s' n (unat v div 4096) 4 (Root pt) = Some b
      | Hole \<Rightarrow> \<not> e \<and> (\<exists>k>n. tleaf 4 (stree (pt_child T off) s' 4 (Root pt)) (unat v div 4096) = (k, 0)) | Null \<Rightarrow> True"
    using w(3) by (cases "tleaf 4 (stree (pt_child T off) s' 4 (Root pt)) (unat v div 4096)")
      (auto simp: pt.walked_def split: walk_result.splits)
  ultimately show ?thesis using w(1) grown_frame [OF w(2)] by blast
qed

text \<open>The entries that the loop writes are leaf entries with the new translation.\<close>

lemma new_entry:
  assumes "l < 4" "r \<le> 9" "12 + 9 * l + r \<le> 52" "\<And>n. bit p n \<Longrightarrow> 12 + 9 * l + r \<le> n \<and> n < 52" "a = page_attr T l pm ca sh"
    and "e = (if a \<noteq> 0 then p OR a else 0)" "sz = (if a \<noteq> 0 then page_size (l * 9) else 0)" "k < 2 ^ r"
  shows "pt_okl T l (e + of_nat k * sz) \<and> (l = 0 \<or> pt_child T off l (e + of_nat k * sz) = None)"
    and "x - i = k * entries ^ l + x mod entries ^ l \<Longrightarrow> pt_sem T l (e + of_nat k * sz) x = new_map T l a p i x"
proof -
  have "(pt_okl T l (e + of_nat k * sz) \<and> (l = 0 \<or> pt_child T off l (e + of_nat k * sz) = None)) \<and>
    (x - i = k * entries ^ l + x mod entries ^ l \<longrightarrow> pt_sem T l (e + of_nat k * sz) x = new_map T l a p i x)"
  proof (cases "a = 0")
    case True
    then show ?thesis using assms(6,7) by (simp add: pt_okl_def pt_child_def pt_sem_def new_map_def)
  next
    case False
    then have la: "leaf_attr T l a" using assms(5) by (auto simp: leaf_attr_def)
    let ?q = "p + of_nat k * page_size (l * 9)"
    have q: "?q AND amask l = ?q" "e + of_nat k * sz = ?q OR a"
      using run_frame(1) [OF assms(1,3,4,8)] run_frame(2) [OF assms(1,3,4,8) la] False assms(6,7) by simp_all
    have "?q OR a \<noteq> 0" using False by (simp add: or_eq_0_iff)
    moreover have "pte_addr T l (?q OR a) = ?q" using addr_leaf [OF assms(1) la q(1)] .
    moreover have "?q + of_nat (x mod entries ^ l * 4096) = p + of_nat ((x - i) * 4096)" if "x - i = k * entries ^ l + x mod entries ^ l"
    proof -
      have "(x - i) * 4096 = k * 2 ^ (12 + l * 9) + x mod entries ^ l * 4096"
        unfolding that by (simp add: entries_power power_add algebra_simps)
      moreover have "page_size (l * 9) = 2 ^ (12 + l * 9)" using assms(1) by (simp add: page_size_def BITN_eq add.commute)
      ultimately show ?thesis by simp
    qed
    moreover have "l = 0 \<or> pt_child T off l (?q OR a) = None" using leaf_kind [OF _ assms(1) la q(1)] by (auto simp: pt_child_def)
    ultimately show ?thesis unfolding q(2) using q(1) la assms(1) False attr_only [OF assms(1) la q(1)]
      by (auto simp: pt_okl_def pt_sem_def new_map_def)
  qed
  then show "pt_okl T l (e + of_nat k * sz) \<and> (l = 0 \<or> pt_child T off l (e + of_nat k * sz) = None)"
    and "x - i = k * entries ^ l + x mod entries ^ l \<Longrightarrow> pt_sem T l (e + of_nat k * sz) x = new_map T l a p i x" by simp_all
qed

end

lemma bits_aligned:
  assumes "2 ^ k dvd unat (p :: u64)" "unat p < 2 ^ 52" "bit p n"
  shows "k \<le> n \<and> n < 52"
proof -
  have "bit (of_nat (unat p) :: u64) n" using assms(3) by simp
  then have b: "bit (unat p) n" unfolding bit_of_nat_iff by simp
  have "n < 52"
  proof (rule ccontr)
    assume "\<not> n < 52"
    then have "unat p < 2 ^ n" using assms(2) power_increasing [of 52 n "2 :: nat"] by simp
    then show False using b by (simp add: bit_iff_odd)
  qed
  moreover have "k \<le> n"
  proof (rule ccontr)
    assume "\<not> k \<le> n"
    then have "k = n + 1 + (k - Suc n)" by simp
    then have "2 ^ n * 2 dvd unat p" using assms(1) by (metis dvd_mult_left power_add power_one_right)
    then have "even (unat p div 2 ^ n)" by (metis dvd_mult_imp_div mult.commute)
    then show False using b by (simp add: bit_iff_odd)
  qed
  ultimately show ?thesis by simp
qed

context pte_laws
begin

lemma pt_region:
  fixes s :: "'a tables_scheme"
  assumes ok: "pt_ok T off s L pt" and l: "l < 4" "r \<le> 9" and i: "i = unat v div 4096" "2 ^ (9 * l + r) dvd i" "i + 2 ^ (9 * l + r) \<le> entries ^ 4"
    and p: "12 + 9 * l + r \<le> 52" "\<And>n. bit p n \<Longrightarrow> 12 + 9 * l + r \<le> n \<and> n < 52"
    and a: "a = page_attr T l pm ca sh" "e = (if a \<noteq> 0 then p OR a else 0)" "sz = (if a \<noteq> 0 then page_size (l * 9) else 0)"
  shows "\<exists>ptr s1 s' L'. pt_walk T off pt v l (a \<noteq> 0) s = Some (ptr, s1) \<and> pt_ok T off s' L' pt \<and> pt_frame T off pt L s L' s' \<and>
    (case ptr of Null \<Rightarrow> s' = s1 | Hole \<Rightarrow> s' = s1 | Slot b \<Rightarrow> pt_fill T off l b sz 0 (2 ^ r) e s1 = Some s') \<and>
    (\<forall>x<entries ^ 4. pt_map T off pt s' x =
      (if ptr \<noteq> Null \<and> i \<le> x \<and> x < i + 2 ^ (9 * l + r) then new_map T l a p i x else pt_map T off pt s x))"
proof -
  let ?c = "pt_child T off"
  have "l \<le> 4" using l(1) by simp
  from pt_walk_spec [OF ok this, of v "a \<noteq> 0"] obtain ptr s1 L1 where
    w: "pt_walk T off pt v l (a \<noteq> 0) s = Some (ptr, s1)" "pt_ok T off s1 L1 pt" "pt_frame T off pt L s L1 s1"
      "pt_map T off pt s1 = pt_map T off pt s"
      "case ptr of Slot b \<Rightarrow> rslot ?c s1 l i 4 (Root pt) = Some b
      | Hole \<Rightarrow> \<not> a \<noteq> 0 \<and> (\<exists>k>l. tleaf 4 (stree ?c s1 4 (Root pt)) i = (k, 0)) | Null \<Rightarrow> True"
    unfolding i(1) [symmetric] by blast
  have i4: "i < entries ^ 4" using i(3) less_le_trans [of i "i + 2 ^ (9 * l + r)"] by simp
  note reg = region [OF l i(2) i4]
  show ?thesis
  proof (cases ptr)
    case Null
    then show ?thesis using w by (intro exI [of _ Null] exI [of _ s1] exI [of _ L1]) auto
  next
    case Hole
    then obtain k where k: "a = 0" "l < k" "tleaf 4 (stree ?c s1 4 (Root pt)) i = (k, 0)" using w(5) by auto
    have "pt_map T off pt s1 x = None" if "x < entries ^ 4" "i \<le> x" "x < i + 2 ^ (9 * l + r)" for x
    proof -
      have "same_slot (Suc l) 4 i x" using reg(1) [OF that(1)] that(2,3) by (auto simp: same_slot_def same_table_def)
      from tleaf_same [OF this, of "stree ?c s1 4 (Root pt)"] k(2,3) show ?thesis by (simp add: pt_map_def pt_sem_def)
    qed
    then show ?thesis using w Hole k(1) by (intro exI [of _ Hole] exI [of _ s1] exI [of _ L1]) (auto simp: new_map_def)
  next
    case (Slot b)
    then have b: "rslot ?c s1 l i 4 (Root pt) = Some b" using w(5) by simp
    have wf: "wf_rt (stree ?c s1 4 (Root pt))" using w(2) by (simp add: pt_ok_tree pt.tree_ok_def)
    have sib: "\<exists>q. b = Word (slot q (idx l i)) \<and> rslot ?c s1 l x 4 (Root pt) = Some (Word (slot q (idx l x)))" if "same_table l i x" for x
      using rslot_sibling [OF b l(1) _ wf, of x] that by (auto simp: same_table_def)
    then obtain q where q: "b = Word (slot q (idx l i))" by (auto simp: same_table_def)
    have tab: "rslot ?c s1 l x 4 (Root pt) = Some (Word (slot q (idx l x)))" if "same_table l i x" for x
      using sib [OF that] q by (auto simp: slot_def)
    have ne: "pt_okl T l (e + of_nat k * sz) \<and> (l = 0 \<or> ?c l (e + of_nat k * sz) = None)" if "k < 2 ^ r" for k
      using new_entry(1) [OF l p a that] .
    have "idx l i + 0 + 2 ^ r \<le> entries" using reg(3) [of i] i4 by simp
    from pt_fill_spec [OF w(2) [unfolded pt_ok_tree] l(1) this tab ne] obtain s' D where
      f: "pt_fill T off l b sz 0 (2 ^ r) e s1 = Some s'" "pt_ok T off s' (L1 - D) pt" "D \<subseteq> pt_pages T off pt s1"
        "pt_pages T off pt s' \<subseteq> pt_pages T off pt s1"
        "\<forall>x. pt.tsem 4 (stree ?c s' 4 (Root pt)) x =
       (if same_table l i x \<and> idx l i + 0 \<le> idx l x \<and> idx l x < idx l i + 0 + 2 ^ r
        then pt_sem T l (e + of_nat (idx l x - (idx l i + 0)) * sz) x else pt.tsem 4 (stree ?c s1 4 (Root pt)) x)"
        "\<forall>w. w \<notin> words_of (stree ?c s1 4 (Root pt)) \<longrightarrow> mem s' w = mem s1 w" "\<forall>y. y \<noteq> pt \<longrightarrow> root_of s' y = root_of s1 y"
      unfolding q pt_ok_tree by blast
    have fr: "pt_frame T off pt L s (L1 - D) s'" using pt_frame_trans [OF w(3) fill_frame [OF w(2) f(3,4,6,7)]] .
    have "pt_map T off pt s' x = (if i \<le> x \<and> x < i + 2 ^ (9 * l + r) then new_map T l a p i x else pt_map T off pt s x)"
      if x: "x < entries ^ 4" for x
    proof (cases "i \<le> x \<and> x < i + 2 ^ (9 * l + r)")
      case True
      then have st: "same_table l i x" "idx l i \<le> idx l x" "idx l x < idx l i + 2 ^ r" using reg(1) [OF x] by auto
      then have "idx l x - idx l i < 2 ^ r" by auto
      from new_entry(2) [OF l p a this] reg(2) [OF x] True st f(5) show ?thesis by (simp add: pt_map_tsem)
    next
      case False
      then show ?thesis using f(5) reg(1) [OF x] w(4) by (auto simp: pt_map_tsem fun_eq_iff)
    qed
    then show ?thesis using w(1) f(1,2) fr Slot by (intro exI [of _ ptr] exI [of _ s1] exI [of _ s'] exI [of _ "L1 - D"]) auto
  qed
qed

text \<open>The loop over the regions of an update.\<close>

lemma pt_update_loop_spec:
  fixes s :: "'a tables_scheme"
  assumes "pt_ok T off s L pt" "l < 4" "r < 9" "ko = 9 * l + r" "n \<le> 1 \<or> ko + 12 < 32"
    and "2 ^ (ko + 12) dvd unat v" "unat v + n * 2 ^ (ko + 12) \<le> 2 ^ 48" "2 ^ (ko + 12) dvd unat p" "unat p + n * 2 ^ (ko + 12) \<le> 2 ^ 52"
    and "a = page_attr T l pm ca sh"
  shows "\<exists>sts s' L' c. pt_update_loop T off pt ko a n v p s = Some (sts, s') \<and> pt_ok T off s' L' pt \<and> pt_frame T off pt L s L' s' \<and>
     (sts = SUCCESS \<and> c = n \<or> sts = INS_MEM \<and> c < n) \<and>
     (\<forall>x<entries ^ 4. pt_map T off pt s' x = (if unat v div 4096 \<le> x \<and> x < unat v div 4096 + c * 2 ^ ko
        then new_map T l a p (unat v div 4096) x else pt_map T off pt s x))"
  using assms(1,5-9)
proof (induction n arbitrary: v p s L)
  case 0
  then show ?case by (auto intro: pt_frame_refl)
next
  case (Suc n)
  let ?i = "unat v div 4096" let ?e = "if a \<noteq> 0 then p OR a else 0" let ?sz = "if a \<noteq> 0 then page_size (l * 9) else 0"
  have lo: "ko div 9 = l" "unat (BIT (ko mod 9)) = 2 ^ r" using assms(2-4) by (simp_all add: unat_BIT)
  have pw: "(2 :: nat) ^ (ko + 12) = 2 ^ ko * 4096" by (simp add: power_add)
  obtain d where d: "unat v = 2 ^ ko * 4096 * d" using Suc.prems(3) pw by auto
  then have i: "?i = 2 ^ ko * d" by simp
  have vi: "unat v = ?i * 4096" using d by simp
  have fit: "?i + Suc n * 2 ^ ko \<le> entries ^ 4"
  proof -
    have "(?i + Suc n * 2 ^ ko) * 4096 \<le> 2 ^ 36 * 4096" using Suc.prems(4) vi pw by (simp add: algebra_simps)
    then show ?thesis by (simp add: entries_def)
  qed
  then have fit1: "?i + 2 ^ (9 * l + r) \<le> entries ^ 4" using assms(4) by simp
  have "unat p < 2 ^ 52" using Suc.prems(6) by (rule less_le_trans [rotated]) simp
  then have pb: "12 + 9 * l + r \<le> m \<and> m < 52" if "bit p m" for m
    using bits_aligned [OF Suc.prems(5) _ that] assms(4) by simp
  have "12 + 9 * l + r \<le> 52" "2 ^ (9 * l + r) dvd ?i" using assms(2-4) i by simp_all
  note reg = pt_region [OF Suc.prems(1) assms(2) less_imp_le [OF assms(3)] refl this(2) fit1 this(1) pb assms(10) refl refl]
  from reg obtain ptr s1 s' L' where
    w: "pt_walk T off pt v l (a \<noteq> 0) s = Some (ptr, s1)" "pt_ok T off s' L' pt" "pt_frame T off pt L s L' s'"
    "case ptr of Null \<Rightarrow> s' = s1 | Hole \<Rightarrow> s' = s1 | Slot b \<Rightarrow> pt_fill T off l b ?sz 0 (2 ^ r) ?e s1 = Some s'"
    "\<forall>x<entries ^ 4. pt_map T off pt s' x =
      (if ptr \<noteq> Null \<and> ?i \<le> x \<and> x < ?i + 2 ^ (9 * l + r) then new_map T l a p ?i x else pt_map T off pt s x)" by blast
  let ?v = "v + ucast (BIT (ko + 12))" let ?p = "p + ucast (BIT (ko + 12))"
  show ?case
  proof (cases "ptr = Null")
    case True
    then have "pt_update_loop T off pt ko a (Suc n) v p s = Some (INS_MEM, s')" using w(1,4) lo(1) by (simp add: Let_def)
    then show ?thesis using w(2,3,5) True by (intro exI [of _ INS_MEM] exI [of _ s'] exI [of _ L'] exI [of _ 0]) auto
  next
    case False
    then have run: "pt_update_loop T off pt ko a (Suc n) v p s = pt_update_loop T off pt ko a n ?v ?p s'"
      using w(1,4) lo by (auto simp: Let_def split: walk_result.splits)
    have m1: "\<forall>x<entries ^ 4. pt_map T off pt s' x = (if ?i \<le> x \<and> x < ?i + 2 ^ ko then new_map T l a p ?i x else pt_map T off pt s x)"
      using w(5) False assms(4) by simp
    show ?thesis
    proof (cases "n = 0")
      case True
      then show ?thesis using run w(2,3) m1 by (intro exI [of _ SUCCESS] exI [of _ s'] exI [of _ L'] exI [of _ 1]) simp
    next
      case nz: False
      then have ko: "ko + 12 < 32" using Suc.prems(2) by simp
      have step: "unat (ucast (BIT (ko + 12)) :: u64) = 2 ^ (ko + 12)"
        using ko by (simp add: unsigned_ucast_eq unat_BIT take_bit_nat_eq_self del: power_add)
      have uv: "unat ?v = unat v + 2 ^ (ko + 12)" "unat ?p = unat p + 2 ^ (ko + 12)"
        using Suc.prems(4,6) nz step by (simp_all add: unat_word_ariths)
      have i': "unat ?v div 4096 = ?i + 2 ^ ko" unfolding uv pw by simp
      have "n \<le> 1 \<or> ko + 12 < 32" "2 ^ (ko + 12) dvd unat ?v" "unat ?v + n * 2 ^ (ko + 12) \<le> 2 ^ 48" "2 ^ (ko + 12) dvd unat ?p"
        "unat ?p + n * 2 ^ (ko + 12) \<le> 2 ^ 52"
        unfolding uv using ko Suc.prems(3-6) by simp_all
      from Suc.IH [OF w(2) this] obtain sts s2 L2 c where
        r2: "pt_update_loop T off pt ko a n ?v ?p s' = Some (sts, s2)" "pt_ok T off s2 L2 pt" "pt_frame T off pt L' s' L2 s2"
          "sts = SUCCESS \<and> c = n \<or> sts = INS_MEM \<and> c < n"
          "\<forall>x<entries ^ 4. pt_map T off pt s2 x = (if ?i + 2 ^ ko \<le> x \<and> x < ?i + 2 ^ ko + c * 2 ^ ko
             then new_map T l a ?p (?i + 2 ^ ko) x else pt_map T off pt s' x)" unfolding i' by blast
      have nm: "new_map T l a ?p (?i + 2 ^ ko) x = new_map T l a p ?i x" if "?i + 2 ^ ko \<le> x" for x
      proof -
        have "(x - ?i) * 4096 = 2 ^ (ko + 12) + (x - (?i + 2 ^ ko)) * 4096" using that unfolding pw by (simp add: algebra_simps)
        moreover have "(ucast (BIT (ko + 12)) :: u64) = of_nat (2 ^ (ko + 12))" using word_eq_of_nat [OF step] by simp
        ultimately show ?thesis by (simp add: new_map_def add.assoc)
      qed
      have "pt_map T off pt s2 x = (if ?i \<le> x \<and> x < ?i + Suc c * 2 ^ ko then new_map T l a p ?i x else pt_map T off pt s x)"
        if x: "x < entries ^ 4" for x
      proof -
        have "?i + Suc c * 2 ^ ko = ?i + 2 ^ ko + c * 2 ^ ko" by simp
        then show ?thesis using r2(5) [rule_format, OF x] m1 [rule_format, OF x] nm [of x] by auto
      qed
      then show ?thesis using run r2(1,2,4) pt_frame_trans [OF w(3) r2(3)]
        by (intro exI [of _ sts] exI [of _ s2] exI [of _ L2] exI [of _ "Suc c"]) auto
    qed
  qed
qed
end

lemma unat_offs_mask: "k < 52 \<Longrightarrow> unat ((v :: u64) AND offs_mask k) = unat v mod 2 ^ (k + 12)"
proof -
  assume "k < 52"
  then have "v AND offs_mask k = take_bit (k + 12) v" by (simp add: offs_mask_mask take_bit_eq_mask)
  then have "unat (v AND offs_mask k) = take_bit (k + 12) (unat v)" by (simp only: unsigned_take_bit_eq)
  then show ?thesis by (simp only: take_bit_eq_mod)
qed

lemma offs_mask_zero: "k < 52 \<Longrightarrow> v AND offs_mask k = 0 \<longleftrightarrow> 2 ^ (k + 12) dvd unat (v :: u64)"
  using unat_offs_mask [of k v] by (simp only: word_unat_eq_iff unat_0 dvd_eq_mod_eq_0)

text \<open>The offset into a large page is the page number within it and the offset into the page.\<close>

lemma page_offset:
  assumes "k \<le> 4"
  shows "v AND offs_mask (k * 9) = of_nat ((unat v div 4096) mod entries ^ k * 4096) + (v AND offs_mask 0)"
proof -
  have m: "v AND offs_mask j = of_nat (unat v mod 2 ^ (j + 12))" if "j < 52" for j
    using word_eq_of_nat unat_offs_mask [OF that] by metis
  have "unat v mod 2 ^ (k * 9 + 12) = (unat v div 4096) mod entries ^ k * 4096 + unat v mod 2 ^ (0 + 12)"
    using mod_mult2_eq [of "unat v" 4096 "2 ^ (k * 9)"] by (simp add: entries_power power_add mult.commute [of _ 4096])
  then have "(of_nat (unat v mod 2 ^ (k * 9 + 12)) :: u64) = of_nat ((unat v div 4096) mod entries ^ k * 4096) + of_nat (unat v mod 2 ^ (0 + 12))"
    by (simp only: of_nat_add)
  then show ?thesis using m [of "k * 9"] m [of 0] assms by (simp only: m)
qed

lemma tleaf_ok: "leaves_ok ok l t \<Longrightarrow> full t \<Longrightarrow> tleaf l t i = (k, e) \<Longrightarrow> ok 0 0 \<Longrightarrow> ok k e \<and> k \<le> l"
proof (induction l t i arbitrary: k e rule: tleaf.induct)
  case (3 l p ts i)
  then have "ts ! idx l i \<in> set ts" by simp
  then show ?case using 3 by (auto simp: le_SucI)
qed auto

text \<open>An address with offset bits.\<close>

lemma or_offset: "k \<le> 4 \<Longrightarrow> pte_addr T k e OR (v AND offs_mask (k * 9)) = pte_addr T k e + (v AND offs_mask (k * 9))"
proof -
  have "pte_addr T k e AND (v AND offs_mask (k * 9)) = 0"
    by (rule bit_eqI) (auto simp: pte_addr_def bit_and_iff bit_not_iff)
  then show ?thesis by (simp add: disjunctive_add_eq_or)
qed

context pte_laws
begin

lemma pt_lookup_map:
  assumes "pt_ok T off s L pt"
  shows "case pt_map T off pt s (unat v div 4096) of
      None \<Rightarrow> tr_pm (pt_lookup T off pt v ca sh s) = 0 \<and> tr_p (pt_lookup T off pt v ca sh s) = 0 \<and>
        tr_ca (pt_lookup T off pt v ca sh s) = ca \<and> tr_sh (pt_lookup T off pt v ca sh s) = sh
    | Some (f, pm, c, h) \<Rightarrow> tr_pm (pt_lookup T off pt v ca sh s) = pm \<and> tr_p (pt_lookup T off pt v ca sh s) = f + (v AND offs_mask 0) \<and>
        tr_ca (pt_lookup T off pt v ca sh s) = c \<and> tr_sh (pt_lookup T off pt v ca sh s) = h"
proof -
  let ?t = "stree (pt_child T off) s 4 (Root pt)"
  obtain k e where l: "tleaf 4 ?t (unat v div 4096) = (k, e)" by (metis surj_pair)
  have "leaves_ok (pt_okl T) 4 ?t" using assms by (simp add: pt_ok_tree pt.tree_ok_def)
  from tleaf_ok [OF this _ l] have k: "k \<le> 4" by (simp add: pt_okl_def)
  have "pte_addr T k e OR (v AND offs_mask (k * 9)) = pte_addr T k e + of_nat ((unat v div 4096) mod entries ^ k * 4096) + (v AND offs_mask 0)"
  proof -
    have "pte_addr T k e + (v AND offs_mask (k * 9)) = pte_addr T k e + of_nat ((unat v div 4096) mod entries ^ k * 4096) + (v AND offs_mask 0)"
      by (simp only: page_offset [OF k, of v] add.assoc)
    then show ?thesis using or_offset [OF k, of T e v] by (simp only:)
  qed
  then show ?thesis using pt_lookup_tleaf [OF l] l by (simp add: pt_lookup_def lev4 pt_map_def pt_sem_def)
qed

lemma pt_update_spec:
  fixes s :: "'a tables_scheme"
  assumes "pt_ok T off s L pt" "lim \<le> 27" "ord \<le> lim \<or> lim < 20 \<and> ord < lim + 32"
    and "v AND offs_mask ord = 0" "p AND offs_mask ord = 0" "unat v + 2 ^ (ord + 12) \<le> 2 ^ 48" "unat p + 2 ^ (ord + 12) \<le> 2 ^ 52"
    and "ko = min ord lim" "a = page_attr T (ko div 9) pm ca sh"
  shows "\<exists>sts s' L' c. pt_update T off lim pt v p ord pm ca sh s = Some (sts, s') \<and> pt_ok T off s' L' pt \<and> pt_frame T off pt L s L' s' \<and>
     (sts = SUCCESS \<and> c = 2 ^ ord \<or> sts = INS_MEM \<and> c < 2 ^ ord \<and> 2 ^ ko dvd c) \<and>
     (\<forall>x<2 ^ 36. pt_map T off pt s' x = (if unat v div 4096 \<le> x \<and> x < unat v div 4096 + c
        then new_map T (ko div 9) a p (unat v div 4096) x else pt_map T off pt s x))"
proof -
  let ?n = "2 ^ (ord - ko) :: nat"
  have "2 ^ (ord + 12) \<le> (2 :: nat) ^ 48" using assms(6) by simp
  then have o48: "ord + 12 \<le> 48" by (rule power_le_imp_le_exp [rotated]) simp
  have al: "2 ^ (ord + 12) dvd unat v" "2 ^ (ord + 12) dvd unat p" using assms(4,5) o48 offs_mask_zero [of ord] by auto
  have ko: "ko \<le> ord" "ko \<le> 27" "ko = 9 * (ko div 9) + ko mod 9" "ord - ko < 32" using assms(2,3,8) by auto
  have n: "2 ^ (ord + 12) = ?n * 2 ^ (ko + 12)" using ko(1) by (simp add: power_add [symmetric])
  have dv: "2 ^ (ko + 12) dvd unat v" "2 ^ (ko + 12) dvd unat p" using al unfolding n by (auto intro: dvd_mult_right)
  have cnt: "unat (BIT (ord - ko)) = ?n" using ko(4) by (rule unat_BIT)
  have c1: "?n \<le> 1 \<or> ko + 12 < 32" using assms(3,8) by auto
  have nk: "?n * 2 ^ ko = 2 ^ ord" using ko(1) by (simp add: power_add [symmetric])
  have fits: "unat v + ?n * 2 ^ (ko + 12) \<le> 2 ^ 48" "unat p + ?n * 2 ^ (ko + 12) \<le> 2 ^ 52" using assms(6,7) unfolding n by auto
  have "ko div 9 < 4" "ko mod 9 < 9" using ko(2) by auto
  from pt_update_loop_spec [OF assms(1) this ko(3) c1 dv(1) fits(1) dv(2) fits(2) assms(9)] obtain sts s' L' c where
    u: "pt_update_loop T off pt ko a ?n v p s = Some (sts, s')" "pt_ok T off s' L' pt" "pt_frame T off pt L s L' s'"
     "sts = SUCCESS \<and> c = ?n \<or> sts = INS_MEM \<and> c < ?n"
     "\<forall>x<entries ^ 4. pt_map T off pt s' x = (if unat v div 4096 \<le> x \<and> x < unat v div 4096 + c * 2 ^ ko
        then new_map T (ko div 9) a p (unat v div 4096) x else pt_map T off pt s x)" by blast
  have "pt_update T off lim pt v p ord pm ca sh s = Some (sts, s')"
    using u(1) assms(4,5) cnt by (simp add: pt_update_def assms(8) [symmetric] assms(9) [symmetric] Let_def)
  moreover have "c < ?n \<Longrightarrow> c * 2 ^ ko < 2 ^ ord" unfolding nk [symmetric] by simp
  moreover have "entries ^ 4 = 2 ^ 36" by (simp add: entries_def)
  ultimately show ?thesis using u(2-5) nk by (intro exI [of _ sts] exI [of _ s'] exI [of _ L'] exI [of _ "c * 2 ^ ko"]) auto
qed
end

section \<open>Properties\<close>

definition x86_fmt :: "pte_fmt \<Rightarrow> bool" where
  "x86_fmt T \<longleftrightarrow> T = Hpt \<or> T = Dpt \<or> T = Ept True \<or> T = Ept False"

lemma x86_laws: "x86_fmt T \<Longrightarrow> pte_laws T"
  using hpt.pte_laws_axioms dpt.pte_laws_axioms ept.pte_laws_axioms by (auto simp: x86_fmt_def)

context pte_laws
begin

lemma pt_ok_unfold: "pt_ok T off s L pt \<longleftrightarrow> page_inv s L \<and> wf_rt (stree (pt_child T off) s 4 (Root pt)) \<and>
    pt_pages T off pt s \<subseteq> L \<and> leaves_ok (pt_okl T) 4 (stree (pt_child T off) s 4 (Root pt)) \<and> pool_ok (pt_okp off) s"
  by (simp add: pt_ok_tree pt.tree_ok_def)

end

text \<open>An empty page table at address 32 over a pool of two pages.\<close>

definition ptab2 :: tables where
  "ptab2 = \<lparr>min_idx = min_idx pool2, max_idx = max_idx pool2, mem_base = mem_base pool2, blk_base = blk_base pool2,
     blk = blk pool2, freelist = freelist pool2, waitlist = waitlist pool2, mem = mem pool2, root_of = (\<lambda>_. 0)\<rparr>"

lemma ptab2_ok: "x86_fmt T \<Longrightarrow> pt_ok T 0 ptab2 {} r"
proof -
  assume T: "x86_fmt T"
  have "page_inv pool2 {}" using pool2_inv by (auto simp: page_inv_def)
  moreover have "same_alloc pool2 ptab2" by (simp add: same_alloc_def ptab2_def)
  ultimately have "page_inv ptab2 {}" using page_inv_same_alloc by blast
  moreover have "stree (pt_child T 0) ptab2 4 (Root r) = Leaf 0"
    by (simp add: ptab2_def rd_def numeral_eq_Suc pt_child_def)
  moreover have "pool_ok (pt_okp 0) ptab2"
  proof -
    have "b = 0 \<or> b = 1" if "is_valid ptab2 b" for b using that by (auto simp: is_valid_def ptab2_def pool2_def)
    moreover have "pt_okp 0 (index_to_page ptab2 0)" "pt_okp 0 (index_to_page ptab2 1)"
      by (simp_all add: pt_okp_def ptr_to_phys_def index_to_page_def ptab2_def pool2_def amask_def BIT64_RANGE_def offs_mask_def page_size_def nova_bits)
    ultimately show ?thesis unfolding pool_ok_def by metis
  qed
  ultimately show ?thesis
    unfolding pte_laws.pt_ok_unfold [OF x86_laws [OF T]] by (simp add: pt_okl_def)
qed



text \<open>
  C18: \<open>Pagetable::lookup\<close> returns the translation of the page with the offset into it, for a page of
  any size, or no permissions and address 0 for an unmapped page.
\<close>

theorem pt_lookup_correct:
  assumes "x86_fmt T" "pt_ok T off s L pt"
  shows "case pt_map T off pt s (unat v div 4096) of
      None \<Rightarrow> tr_pm (pt_lookup T off pt v ca sh s) = 0 \<and> tr_p (pt_lookup T off pt v ca sh s) = 0 \<and>
        tr_ca (pt_lookup T off pt v ca sh s) = ca \<and> tr_sh (pt_lookup T off pt v ca sh s) = sh
    | Some (f, pm, c, h) \<Rightarrow> tr_pm (pt_lookup T off pt v ca sh s) = pm \<and> tr_p (pt_lookup T off pt v ca sh s) = f + (v AND offs_mask 0) \<and>
        tr_ca (pt_lookup T off pt v ca sh s) = c \<and> tr_sh (pt_lookup T off pt v ca sh s) = h"
  by (rule pte_laws.pt_lookup_map [OF x86_laws [OF assms(1)] assms(2)])

theorem pt_lookup_correct_witness:
  "tr_pm (pt_lookup Dpt 0 32 0x5123 MEM_UC 0 ptab2) = 0 \<and> tr_ca (pt_lookup Dpt 0 32 0x5123 MEM_UC 0 ptab2) = MEM_UC"
proof -
  have x: "x86_fmt Dpt" by (simp add: x86_fmt_def)
  have "stree (pt_child Dpt 0) ptab2 4 (Root 32) = Leaf 0" by (simp add: ptab2_def rd_def numeral_eq_Suc pt_child_def)
  then have "pt_map Dpt 0 32 ptab2 (unat (0x5123 :: u64) div 4096) = None" by (simp add: pt_map_def pt_sem_def)
  then show ?thesis using pt_lookup_correct [OF x ptab2_ok [OF x, of 32], of "0x5123" MEM_UC 0] by simp
qed

text \<open>
  The attributes of host page-table entries decode to the permissions they were made from: read access is
  implied, execute access is not separated into user and supervisor, the user, kernel and global bits and
  write access are exact, and the three cacheability bits survive for every page size.
\<close>

theorem hpt_attr_roundtrip:
  assumes "tst pm Paging_API" "l < 4" "p AND amask l = p" "\<forall>n. bit ca n \<longrightarrow> n < 3"
  shows "page_pm Hpt (p OR page_attr Hpt l pm ca sh) =
      (pm AND (Paging_G OR Paging_K OR Paging_U OR Paging_W)) OR Paging_R OR ifb (Paging_XS OR Paging_XU) (tst pm (Paging_XS OR Paging_XU)) \<and>
    page_ca Hpt l (p OR page_attr Hpt l pm ca sh) = ca \<and> pte_addr Hpt l (p OR page_attr Hpt l pm ca sh) = p"
proof -
  let ?a = "Hpt_page_attr l pm ca sh"
  have "bit ?a 0" using assms(1) by (simp add: Hpt_page_attr_def entry_bits)
  then have nz: "?a \<noteq> 0" by auto
  have la: "leaf_attr Hpt l ?a" using nz by (auto simp: leaf_attr_def Hpt_def)
  have "Hpt_page_pm ?a = (pm AND (Paging_G OR Paging_K OR Paging_U OR Paging_W)) OR Paging_R OR
      ifb (Paging_XS OR Paging_XU) (tst pm (Paging_XS OR Paging_XU))"
    using assms(1) nz by (intro bit_eqI) (auto simp: Hpt_page_pm_def Hpt_page_attr_def paging_defs entry_bits)
  moreover have "Hpt_page_ca l ?a = ca"
  proof (rule bit_eqI)
    fix n :: nat
    have b: "bit ?a 3 = bit ca 0" "bit ?a 4 = bit ca 1" "bit ?a (if l \<noteq> 0 then 12 else 7) = bit ca 2"
      using assms(1) by (auto simp: Hpt_page_attr_def entry_bits)
    have "n = 0 \<or> n = 1 \<or> n = 2 \<or> 3 \<le> n" by auto
    then show "bit (Hpt_page_ca l ?a) n = bit ca n"
      using b assms(4) by (elim disjE) (auto simp: Hpt_page_ca_def entry_bits)
  qed
  ultimately show ?thesis using Hpt_attr_only [OF assms(2) nz assms(3)] hpt.addr_leaf [OF assms(2) la assms(3)] by (simp add: Hpt_def)
qed

theorem hpt_attr_roundtrip_witness:
  "page_pm Hpt (0x200000 OR page_attr Hpt 1 (Paging_R OR Paging_W OR Paging_U) MEM_WP 0) = Paging_R OR Paging_W OR Paging_U \<and>
   page_ca Hpt 1 (0x200000 OR page_attr Hpt 1 (Paging_R OR Paging_W OR Paging_U) MEM_WP 0) = MEM_WP"
proof -
  let ?pm = "Paging_R OR Paging_W OR Paging_U"
  have "tst ?pm Paging_API" by (simp add: paging_defs tst_or tst_BIT entry_bits)
  moreover have "(0x200000 :: u64) AND amask 1 = 0x200000"
    by (simp add: amask_def BIT64_RANGE_def offs_mask_def page_size_def nova_bits)
  moreover have "\<forall>n. bit MEM_WP n \<longrightarrow> n < 3" 
  proof -
    have e: "MEM_WP = BIT64 2" by (simp add: MEM_WP_def BIT64_def)
    show ?thesis unfolding e bit_BIT64 by simp
  qed
  ultimately show ?thesis using hpt_attr_roundtrip [of ?pm 1 "0x200000" MEM_WP 0]
    by (simp add: paging_defs tst_or ifb_def BIT_def tst_def)
qed

text \<open>The largest leaf that an update uses after \<^verbatim>\<open>set_leaf_max (l)\<close> is at level \<open>l\<close>, counted from 0: for 2 and 3 it covers 1 GiB and 512 GiB, not 2 MiB and 1 GiB.\<close>

lemma leaf_max_level: "l \<le> 3 \<Longrightarrow> set_leaf_max 27 l div 9 = l"
  by (simp add: set_leaf_max_def min_def)

end
