(* ===== verification/Nova_Dll.thy ===== *)
theory Nova_Dll
  imports Nova_Prelude
begin

text \<open>
  Null-terminated doubly linked lists, the representation of the slab lists of \<^verbatim>\<open>src/slab.cpp\<close> and
  of the timeout lists of \<^verbatim>\<open>src/timeout.cpp\<close>. The links are two functions on addresses; \<open>dlinks\<close> relates
  them to the list of the linked elements, and insertion and removal are proved once for all link functions.
\<close>

definition first :: "u64 list \<Rightarrow> u64 \<Rightarrow> u64" where
  "first xs e = (case xs of [] \<Rightarrow> e | x # _ \<Rightarrow> x)"

definition lst :: "u64 \<Rightarrow> u64 list \<Rightarrow> u64" where
  "lst p xs = (if xs = [] then p else last xs)"

text \<open>The elements \<open>xs\<close> are linked, the first one back to \<open>p\<close> and the last one on to \<open>e\<close>.\<close>

fun dlinks :: "(u64 \<Rightarrow> u64) \<Rightarrow> (u64 \<Rightarrow> u64) \<Rightarrow> u64 \<Rightarrow> u64 list \<Rightarrow> u64 \<Rightarrow> bool" where
  "dlinks nx pv p [] e \<longleftrightarrow> True"
| "dlinks nx pv p (x # xs) e \<longleftrightarrow> pv x = p \<and> nx x = first xs e \<and> dlinks nx pv x xs e"

lemma first_simps [simp]: "first [] e = e" "first (x # xs) e = x" "first (xs @ ys) e = first xs (first ys e)"
  by (cases xs; simp add: first_def)+

lemma lst_simps [simp]: "lst p [] = p" "lst p (x # xs) = lst x xs" "lst p (xs @ ys) = lst (lst p xs) ys"
  by (auto simp: lst_def)

lemma dlinks_append [simp]: "dlinks nx pv p (xs @ ys) e \<longleftrightarrow> dlinks nx pv p xs (first ys e) \<and> dlinks nx pv (lst p xs) ys e"
  by (induction xs arbitrary: p) auto

lemma dlinks_cong: "(\<And>x. x \<in> set xs \<Longrightarrow> nx' x = nx x \<and> pv' x = pv x) \<Longrightarrow> dlinks nx' pv' p xs e \<longleftrightarrow> dlinks nx pv p xs e"
  by (induction xs arbitrary: p) auto

text \<open>Changing only where the end of a segment leads.\<close>

lemma dlinks_end:
  assumes "dlinks nx pv p (xs @ [x]) e" "distinct (xs @ [x])" "\<And>y. y \<in> set xs \<Longrightarrow> nx' y = nx y \<and> pv' y = pv y" "pv' x = pv x" "nx' x = e'"
  shows "dlinks nx' pv' p (xs @ [x]) e'"
  using assms dlinks_cong [of xs nx' nx pv' pv p x] by simp

lemma dlinks_start:
  assumes "dlinks nx pv p (x # xs) e" "\<And>y. y \<in> set xs \<Longrightarrow> nx' y = nx y \<and> pv' y = pv y" "nx' x = nx x" "pv' x = p'"
  shows "dlinks nx' pv' p' (x # xs) e"
  using assms dlinks_cong [of xs nx' nx pv' pv x e] by simp

text \<open>A well-formed list: linked, without repetition and without the null address.\<close>

definition dll :: "(u64 \<Rightarrow> u64) \<Rightarrow> (u64 \<Rightarrow> u64) \<Rightarrow> u64 list \<Rightarrow> bool" where
  "dll nx pv xs \<longleftrightarrow> dlinks nx pv 0 xs 0 \<and> distinct xs \<and> 0 \<notin> set xs"

lemma dll_Nil [simp]: "dll nx pv []"
  by (simp add: dll_def)

lemma dll_mid:
  assumes "dll nx pv (xs @ x # ys)"
  shows "nx x = first ys 0" "pv x = lst 0 xs"
  using assms by (auto simp: dll_def)

lemma dll_last: "dll nx pv (xs @ ys) \<Longrightarrow> xs \<noteq> [] \<Longrightarrow> nx (lst 0 xs) = first ys 0"
  by (cases xs rule: rev_cases) (auto simp: dll_def)

lemma dll_first: "dll nx pv (xs @ ys) \<Longrightarrow> ys \<noteq> [] \<Longrightarrow> pv (first ys 0) = lst 0 xs"
  by (cases ys) (auto simp: dll_def)

lemma first_nz: "0 \<notin> set xs \<Longrightarrow> first xs 0 = 0 \<longleftrightarrow> xs = []"
  by (cases xs) auto

lemma lst_nz: "0 \<notin> set xs \<Longrightarrow> lst 0 xs = 0 \<longleftrightarrow> xs = []"
  by (auto simp: lst_def dest: last_in_set)

lemma dll_cong: "(\<And>x. x \<in> set xs \<Longrightarrow> nx' x = nx x \<and> pv' x = pv x) \<Longrightarrow> dll nx' pv' xs \<longleftrightarrow> dll nx pv xs"
  using dlinks_cong [of xs nx' nx pv' pv 0 0] by (simp only: dll_def)

text \<open>A segment whose last element is redirected, and a segment whose first element is.\<close>

lemma dlinks_left:
  assumes "dlinks nx pv p xs e" "distinct xs" "\<And>y. y \<in> set xs \<Longrightarrow> y \<noteq> lst p xs \<Longrightarrow> nx' y = nx y" "\<And>y. y \<in> set xs \<Longrightarrow> pv' y = pv y"
    and "xs \<noteq> [] \<Longrightarrow> nx' (lst p xs) = e'"
  shows "dlinks nx' pv' p xs e'"
proof (cases xs rule: rev_cases)
  case (snoc ys y)
  then have l: "lst p xs = y" by simp
  have "nx' z = nx z \<and> pv' z = pv z" if "z \<in> set ys" for z
  proof -
    have "z \<in> set xs" "z \<noteq> y" using that assms(2) unfolding snoc by auto
    then show ?thesis using assms(3,4) l by metis
  qed
  moreover have "pv' y = pv y" "nx' y = e'" using assms(4) [of y] assms(5) l unfolding snoc by auto
  ultimately show ?thesis using dlinks_end [OF assms(1,2) [unfolded snoc], of nx' pv' e'] unfolding snoc by simp
qed simp

lemma dlinks_right:
  assumes "dlinks nx pv p xs e" "distinct xs" "\<And>y. y \<in> set xs \<Longrightarrow> y \<noteq> first xs e \<Longrightarrow> pv' y = pv y" "\<And>y. y \<in> set xs \<Longrightarrow> nx' y = nx y"
    and "xs \<noteq> [] \<Longrightarrow> pv' (first xs e) = p'"
  shows "dlinks nx' pv' p' xs e"
proof (cases xs)
  case (Cons y ys)
  have "nx' z = nx z \<and> pv' z = pv z" if "z \<in> set ys" for z
  proof -
    have "z \<in> set xs" "z \<noteq> first xs e" using that assms(2) unfolding Cons by auto
    then show ?thesis using assms(3,4) by metis
  qed
  moreover have "nx' y = nx y" "pv' y = p'" using assms(4) [of y] assms(5) unfolding Cons by auto
  ultimately show ?thesis using dlinks_start [OF assms(1) [unfolded Cons], of nx' pv' p'] unfolding Cons by simp
qed simp

lemma dll_insert:
  assumes d: "dll nx pv (xs @ ys)" and y: "y \<notin> set (xs @ ys)" "y \<noteq> 0"
    and n: "nx' y = first ys 0" "pv' y = lst 0 xs"
    and nx: "\<And>x. x \<in> set (xs @ ys) \<Longrightarrow> nx' x = (if x = lst 0 xs then y else nx x)"
    and pv: "\<And>x. x \<in> set (xs @ ys) \<Longrightarrow> pv' x = (if x = first ys 0 then y else pv x)"
  shows "dll nx' pv' (xs @ y # ys)"
proof -
  have d': "dlinks nx pv 0 xs (first ys 0)" "dlinks nx pv (lst 0 xs) ys 0" "distinct xs" "distinct ys" "set xs \<inter> set ys = {}" "0 \<notin> set xs" "0 \<notin> set ys"
    using d by (auto simp: dll_def)
  have lx: "lst 0 xs \<notin> set ys" using d' by (cases xs rule: rev_cases) auto
  have fy: "first ys 0 \<notin> set xs" using d' by (cases ys) auto
  have "dlinks nx' pv' 0 xs y"
    using nx pv fy d'(1,3) by (intro dlinks_left [OF d'(1,3)]) (auto simp: lst_def)
  moreover have "dlinks nx' pv' y ys 0"
    using nx pv lx d'(2,4) by (intro dlinks_right [OF d'(2,4)]) (auto simp: first_def split: list.splits)
  ultimately show ?thesis using d y n by (simp add: dll_def)
qed

lemma dll_remove:
  assumes d: "dll nx pv (xs @ y # ys)"
    and nx: "\<And>x. x \<in> set (xs @ ys) \<Longrightarrow> nx' x = (if x = lst 0 xs then first ys 0 else nx x)"
    and pv: "\<And>x. x \<in> set (xs @ ys) \<Longrightarrow> pv' x = (if x = first ys 0 then lst 0 xs else pv x)"
  shows "dll nx' pv' (xs @ ys)"
proof -
  have d': "dlinks nx pv 0 xs y" "dlinks nx pv y ys 0" "distinct xs" "distinct ys" "set xs \<inter> set ys = {}" "0 \<notin> set xs" "0 \<notin> set ys"
    using d by (auto simp: dll_def)
  have lx: "lst 0 xs \<notin> set ys" using d' by (cases xs rule: rev_cases) auto
  have fy: "first ys 0 \<notin> set xs" using d' by (cases ys) auto
  have "dlinks nx' pv' 0 xs (first ys 0)"
    using nx pv fy by (intro dlinks_left [OF d'(1,3)]) (auto simp: lst_def)
  moreover have "dlinks nx' pv' (lst 0 xs) ys 0"
    using nx pv lx by (intro dlinks_right [OF d'(2,4)]) (auto simp: first_def split: list.splits)
  ultimately show ?thesis using d by (simp add: dll_def)
qed

end
