(* ===== verification/Nova_Slab.thy ===== *)
theory Nova_Slab
  imports Nova_Radix Nova_Dll
begin

text \<open>
  \<^verbatim>\<open>inc/slab.hpp\<close>, \<^verbatim>\<open>src/slab.cpp\<close>: the allocator of kernel objects. A slab is a page; its metadata, which the
  code keeps in the first 40 bytes of the page, is the entry of \<open>smeta\<close> for the address of the page, and
  the link of a free buffer is the memory word at the address of the buffer. A cache is named by its address.
\<close>

section \<open>Operations\<close>

record slab_meta =
  m_cache :: u64
  m_prev :: u64
  m_next :: u64
  m_head :: u64
  m_acnt :: nat

record slab_cache =
  bsz :: nat
  bps :: nat
  curr :: u64
  head :: u64

record slabs = tables +
  smeta :: "u64 \<Rightarrow> slab_meta"
  scache :: "u64 \<Rightarrow> slab_cache"

text \<open>The size of \<open>Metadata\<close>: four pointers and a counter, padded.\<close>

definition sizeof_Metadata :: nat where
  "sizeof_Metadata = 40"

definition slab_cache_new :: "nat \<Rightarrow> nat \<Rightarrow> slab_cache" where
  "slab_cache_new sz al =
     (let b = unat (ucast (align_up (of_nat (max sz 8)) (of_nat (max al 8))) :: u16)
      in \<lparr>bsz = b, bps = (4096 - sizeof_Metadata) div b, curr = 0, head = 0\<rparr>)"

definition upd_meta :: "u64 \<Rightarrow> (slab_meta \<Rightarrow> slab_meta) \<Rightarrow> 'a slabs_scheme \<Rightarrow> 'a slabs_scheme" where
  "upd_meta x f s = s\<lparr>smeta := (smeta s)(x := f (smeta s x))\<rparr>"

definition upd_cache :: "u64 \<Rightarrow> (slab_cache \<Rightarrow> slab_cache) \<Rightarrow> 'a slabs_scheme \<Rightarrow> 'a slabs_scheme" where
  "upd_cache x f s = s\<lparr>scache := (scache s)(x := f (scache s x))\<rparr>"

definition meta_full :: "slab_meta \<Rightarrow> bool" where
  "meta_full m \<longleftrightarrow> m_acnt m = 0"

definition meta_empty :: "'a slabs_scheme \<Rightarrow> slab_meta \<Rightarrow> bool" where
  "meta_empty s m \<longleftrightarrow> m_acnt m = bps (scache s (m_cache m))"

definition meta_alloc :: "u64 \<Rightarrow> 'a slabs_scheme \<Rightarrow> u64 \<times> 'a slabs_scheme" where
  "meta_alloc x s =
     (let b = m_head (smeta s x)
      in (b, upd_meta x (\<lambda>m. m\<lparr>m_head := mem s b, m_acnt := m_acnt m - 1\<rparr>) s))"

definition meta_free :: "u64 \<Rightarrow> u64 \<Rightarrow> 'a slabs_scheme \<Rightarrow> bool \<times> 'a slabs_scheme" where
  "meta_free x p s =
     (let m = smeta s x
      in (m_acnt m = 0, (upd_meta x (\<lambda>m. m\<lparr>m_head := p, m_acnt := m_acnt m + 1\<rparr>) s)\<lparr>mem := (mem s)(p := m_head m)\<rparr>))"

text \<open>The constructor of a slab frees its buffers, counting down from \<open>i\<close>.\<close>

fun free_buffers :: "u64 \<Rightarrow> nat \<Rightarrow> nat \<Rightarrow> 'a slabs_scheme \<Rightarrow> 'a slabs_scheme" where
  "free_buffers x sz 0 s = s"
| "free_buffers x sz (Suc i) s = free_buffers x sz i (snd (meta_free x (x + 4096 - of_nat (Suc i * sz)) s))"

definition slab_ctor :: "u64 \<Rightarrow> u64 \<Rightarrow> 'a slabs_scheme \<Rightarrow> 'a slabs_scheme" where
  "slab_ctor c x s = free_buffers x (bsz (scache s c)) (bps (scache s c))
     (upd_meta x (\<lambda>_. \<lparr>m_cache = c, m_prev = 0, m_next = 0, m_head = 0, m_acnt = 0\<rparr>) s)"

definition from_buffer :: "u64 \<Rightarrow> u64" where
  "from_buffer p = p AND NOT 0xfff"

definition slab_new :: "u64 \<Rightarrow> 'a slabs_scheme \<Rightarrow> (u64 option \<times> 'a slabs_scheme) option" where
  "slab_new c s = do {
     (r, s) \<leftarrow> buddy_alloc 0 BITS0 s;
     case r of None \<Rightarrow> Some (None, s) | Some x \<Rightarrow> Some (Some x, slab_ctor c x s)
   }"

definition slab_delete :: "u64 \<Rightarrow> 'a slabs_scheme \<Rightarrow> 'a slabs_scheme option" where
  "slab_delete x s = (if x \<noteq> 0 then buddy_free x s else Some s)"

text \<open>Linking a new slab in front.\<close>

definition link_head :: "u64 \<Rightarrow> u64 \<Rightarrow> 'a slabs_scheme \<Rightarrow> 'a slabs_scheme" where
  "link_head this x s =
     (let h = head (scache s this);
          s = upd_meta x (\<lambda>m. m\<lparr>m_next := h\<rparr>) s;
          s = (if h \<noteq> 0 then upd_meta h (\<lambda>m. m\<lparr>m_prev := x\<rparr>) s else s)
      in upd_cache this (\<lambda>c. c\<lparr>head := x, curr := x\<rparr>) s)"

text \<open>The allocation in the current slab.\<close>

definition alloc_curr :: "u64 \<Rightarrow> 'a slabs_scheme \<Rightarrow> (u64 \<times> 'a slabs_scheme) option" where
  "alloc_curr this s = do {
     let x = curr (scache s this);
     assert_that (\<not> meta_full (smeta s x));
     assert_that (m_next (smeta s x) = 0 \<or> meta_full (smeta s (m_next (smeta s x))));
     let (p, s) = meta_alloc x s;
     let s = (if meta_full (smeta s x) then upd_cache this (\<lambda>c. c\<lparr>curr := m_prev (smeta s x)\<rparr>) s else s);
     Some (p, s)
   }"

definition slab_alloc :: "u64 \<Rightarrow> 'a slabs_scheme \<Rightarrow> (u64 option \<times> 'a slabs_scheme) option" where
  "slab_alloc this s =
     (if curr (scache s this) = 0 then do {
        (r, s) \<leftarrow> slab_new this s;
        case r of
          None \<Rightarrow> Some (None, s)
        | Some x \<Rightarrow> do { (p, s) \<leftarrow> alloc_curr this (link_head this x s); Some (Some p, s) }
      }
      else do { (p, s) \<leftarrow> alloc_curr this s; Some (Some p, s) })"

text \<open>Unlinking a slab from its neighbours.\<close>

definition unlink :: "u64 \<Rightarrow> 'a slabs_scheme \<Rightarrow> 'a slabs_scheme" where
  "unlink x s =
     (let pv = m_prev (smeta s x); nx = m_next (smeta s x);
          s = (if pv \<noteq> 0 then upd_meta pv (\<lambda>m. m\<lparr>m_next := nx\<rparr>) s else s)
      in if nx \<noteq> 0 then upd_meta nx (\<lambda>m. m\<lparr>m_prev := pv\<rparr>) s else s)"

text \<open>Requeueing a slab that was full: behind the current slab, or in front if there is none.\<close>

definition requeue_slab :: "u64 \<Rightarrow> u64 \<Rightarrow> 'a slabs_scheme \<Rightarrow> 'a slabs_scheme" where
  "requeue_slab this x s =
     (let s = unlink x s; c = curr (scache s this)
      in if c \<noteq> 0 then
           let n = m_next (smeta s c);
               s = upd_meta x (\<lambda>m. m\<lparr>m_prev := c, m_next := n\<rparr>) s;
               s = upd_meta n (\<lambda>m. m\<lparr>m_prev := x\<rparr>) s
           in upd_meta c (\<lambda>m. m\<lparr>m_next := x\<rparr>) s
         else
           let h = head (scache s this);
               s = upd_meta x (\<lambda>m. m\<lparr>m_prev := 0, m_next := h\<rparr>) s;
               s = upd_meta h (\<lambda>m. m\<lparr>m_prev := x\<rparr>) s
           in upd_cache this (\<lambda>c. c\<lparr>head := x\<rparr>) s)"

definition slab_free :: "u64 \<Rightarrow> u64 \<Rightarrow> 'a slabs_scheme \<Rightarrow> 'a slabs_scheme option" where
  "slab_free this p s = do {
     let x = from_buffer p;
     assert_that (m_cache (smeta s x) = this);
     let (was_full, s) = meta_free x p s;
     if meta_empty s (smeta s x) then
       let s = (if x = curr (scache s this) then upd_cache this (\<lambda>c. c\<lparr>curr := m_prev (smeta s x)\<rparr>) s else s);
           s = (if x = head (scache s this) then upd_cache this (\<lambda>c. c\<lparr>head := m_next (smeta s x)\<rparr>) s else s)
       in slab_delete x (unlink x s)
     else if was_full then
       let s = (if m_prev (smeta s x) \<noteq> 0 \<and> meta_full (smeta s (m_prev (smeta s x))) then requeue_slab this x s else s)
       in Some (upd_cache this (\<lambda>c. c\<lparr>curr := x\<rparr>) s)
     else Some s
   }"

section \<open>Buffers\<close>

definition buf :: "slab_cache \<Rightarrow> u64 \<Rightarrow> nat \<Rightarrow> u64" where
  "buf c x i = x + 4096 - of_nat (i * bsz c)"

definition bufs :: "slab_cache \<Rightarrow> u64 \<Rightarrow> u64 set" where
  "bufs c x = buf c x ` {1..bps c}"

definition cache_ok :: "slab_cache \<Rightarrow> bool" where
  "cache_ok c \<longleftrightarrow> 8 dvd bsz c \<and> 0 < bsz c \<and> 0 < bps c \<and> bps c * bsz c \<le> 4096 - sizeof_Metadata"

lemma buf_word:
  assumes "cache_ok c" "i \<in> {1..bps c}"
  shows "\<exists>k. buf c x i = x + of_nat (8 * k) \<and> 5 \<le> k \<and> k < 512 \<and> 8 * k + i * bsz c = 4096"
proof -
  have i: "i * bsz c \<le> 4056" "0 < i * bsz c" "8 dvd i * bsz c"
  proof -
    have "i * bsz c \<le> bps c * bsz c" using assms(2) by simp
    also have "\<dots> \<le> 4056" using assms(1) by (simp add: cache_ok_def sizeof_Metadata_def)
    finally show "i * bsz c \<le> 4056" .
    show "0 < i * bsz c" "8 dvd i * bsz c" using assms by (auto simp: cache_ok_def)
  qed
  then obtain j where j: "i * bsz c = 8 * j" by blast
  have k: "4096 = i * bsz c + 8 * (512 - j)" using i(1) j by simp
  have "(4096 :: u64) = of_nat 4096" by simp
  also have "\<dots> = of_nat (i * bsz c) + of_nat (8 * (512 - j))" using arg_cong [OF k, of "of_nat :: nat \<Rightarrow> u64"] by (simp only: of_nat_add)
  finally have "(4096 :: u64) - of_nat (i * bsz c) = of_nat (8 * (512 - j))" by (simp only: add_diff_cancel_left')
  then have "buf c x i = x + of_nat (8 * (512 - j))" unfolding buf_def add_diff_eq [symmetric] by (simp only:)
  moreover have "5 \<le> 512 - j" "512 - j < 512" "8 * (512 - j) + i * bsz c = 4096" using i j k by auto
  ultimately show ?thesis by blast
qed

lemma buf_page: "cache_ok c \<Longrightarrow> bufs c x \<subseteq> page_words x"
  using buf_word by (fastforce simp: bufs_def page_words_def)

lemma bufs_props:
  assumes "cache_ok c" "4096 dvd unat x" "x \<noteq> 0"
  shows "inj_on (buf c x) {1..bps c}" and "b \<in> bufs c x \<Longrightarrow> from_buffer b = x" and "0 \<notin> bufs c x"
proof -
  have sum: "unat (x + of_nat (8 * k)) = unat x + 8 * k" if "k < 512" for k
  proof -
    have "8 * k < 4096" using that by simp
    obtain q where q: "unat x = 4096 * q" using assms(2) by blast
    have "4096 * q < 4096 * 2 ^ 52" using u64_lt [of x] q by simp
    then have "q < 2 ^ 52" by simp
    then have "unat x + 8 * k < 2 ^ 64" using q that by simp
    then show ?thesis by (simp add: unat_word_ariths unat_of_nat take_bit_nat_eq_self)
  qed
  show "inj_on (buf c x) {1..bps c}"
  proof (rule inj_onI)
    fix i j assume ij: "i \<in> {1..bps c}" "j \<in> {1..bps c}" "buf c x i = buf c x j"
    from buf_word [OF assms(1) ij(1), of x] obtain k where k: "buf c x i = x + of_nat (8 * k)" "k < 512" "8 * k + i * bsz c = 4096"
      by (elim exE conjE) (rule that)
    from buf_word [OF assms(1) ij(2), of x] obtain l where l: "buf c x j = x + of_nat (8 * l)" "l < 512" "8 * l + j * bsz c = 4096"
      by (elim exE conjE) (rule that)
    have "unat x + 8 * k = unat x + 8 * l" using sum [OF k(2)] sum [OF l(2)] ij(3) k(1) l(1) by metis
    then have "i * bsz c = j * bsz c" using k(3) l(3) by linarith
    then show "i = j" using assms(1) by (simp add: cache_ok_def)
  qed
  show "from_buffer b = x" if b: "b \<in> bufs c x"
  proof -
    from b buf_word [OF assms(1)] obtain k where k: "b = x + of_nat (8 * k)" "k < 512" by (auto simp: bufs_def) metis
    have "unat (align_dn b (2 ^ 12)) = unat b - unat b mod 2 ^ 12" by (rule align_dn_pow2) simp
    also have "\<dots> = unat x" using sum [OF k(2)] k assms(2) by (auto elim!: dvdE)
    finally have "align_dn b (2 ^ 12) = x" by (simp add: word_unat_eq_iff)
    then show ?thesis by (simp add: from_buffer_def align_dn_def)
  qed
  show "0 \<notin> bufs c x"
  proof
    assume "0 \<in> bufs c x"
    with buf_word [OF assms(1)] obtain k where k: "0 = x + of_nat (8 * k)" "k < 512" by (auto simp: bufs_def) metis
    then have "unat (0 :: u64) = unat x + 8 * k" using sum [OF k(2)] by metis
    then show False using assms(3) by (simp add: word_unat_eq_iff)
  qed
qed

text \<open>The list of free buffers of a slab.\<close>

fun chain :: "(u64 \<Rightarrow> u64) \<Rightarrow> u64 \<Rightarrow> u64 list \<Rightarrow> bool" where
  "chain m h [] \<longleftrightarrow> h = 0"
| "chain m h (b # bs) \<longleftrightarrow> h = b \<and> b \<noteq> 0 \<and> chain m (m b) bs"

lemma chain_cong: "(\<And>b. b \<in> set bs \<Longrightarrow> m' b = m b) \<Longrightarrow> chain m' h bs = chain m h bs"
  by (induction bs arbitrary: h) auto

text \<open>A slab of cache \<open>this\<close> whose free buffers are those that are not in use.\<close>

definition slab_ok :: "u64 \<Rightarrow> slab_cache \<Rightarrow> (u64 \<Rightarrow> u64) \<Rightarrow> slab_meta \<Rightarrow> u64 \<Rightarrow> u64 set \<Rightarrow> bool" where
  "slab_ok this c m mt x A \<longleftrightarrow> m_cache mt = this \<and>
     (\<exists>fl. chain m (m_head mt) fl \<and> distinct fl \<and> set fl = bufs c x - A \<and> length fl = m_acnt mt)"

lemma slab_ok_cong:
  assumes "slab_ok this c m mt x A" "bufs c x - A' = bufs c x - A" "\<And>w. w \<in> bufs c x - A \<Longrightarrow> m' w = m w"
    and "m_cache mt' = m_cache mt" "m_head mt' = m_head mt" "m_acnt mt' = m_acnt mt" "bufs c' x = bufs c x"
  shows "slab_ok this c' m' mt' x A'"
proof -
  from assms(1) obtain fl where "chain m (m_head mt) fl" "distinct fl" "set fl = bufs c x - A" "length fl = m_acnt mt" "m_cache mt = this"
    by (auto simp: slab_ok_def)
  then show ?thesis using chain_cong [of fl m' m "m_head mt"] assms(2-7) unfolding slab_ok_def by (intro conjI exI [of _ fl]) auto
qed

section \<open>Invariant\<close>

abbreviation nxt :: "'a slabs_scheme \<Rightarrow> u64 \<Rightarrow> u64" where "nxt s x \<equiv> m_next (smeta s x)"
abbreviation prv :: "'a slabs_scheme \<Rightarrow> u64 \<Rightarrow> u64" where "prv s x \<equiv> m_prev (smeta s x)"
abbreviation acnt :: "'a slabs_scheme \<Rightarrow> u64 \<Rightarrow> nat" where "acnt s x \<equiv> m_acnt (smeta s x)"

text \<open>
  The slabs of a cache: the partial slabs \<open>ps\<close> precede the full slabs \<open>fs\<close>, the current slab is the last partial
  one, and the buffers in use are \<open>A\<close>. \<open>L\<close> are the live pages.
\<close>

definition slab_core :: "u64 \<Rightarrow> 'a slabs_scheme \<Rightarrow> u64 set \<Rightarrow> u64 list \<Rightarrow> u64 list \<Rightarrow> u64 set \<Rightarrow> bool" where
  "slab_core this s L ps fs A \<longleftrightarrow> page_inv s L \<and> set (ps @ fs) \<subseteq> L \<and> cache_ok (scache s this) \<and> dll (nxt s) (prv s) (ps @ fs) \<and>
     head (scache s this) = first (ps @ fs) 0 \<and> curr (scache s this) = lst 0 ps \<and>
     (\<forall>x\<in>set ps. acnt s x \<noteq> 0) \<and> (\<forall>x\<in>set fs. acnt s x = 0) \<and>
     (\<forall>x\<in>set (ps @ fs). slab_ok this (scache s this) (mem s) (smeta s x) x A) \<and> A \<subseteq> (\<Union>x\<in>set (ps @ fs). bufs (scache s this) x)"

text \<open>Between operations no slab is without used buffers.\<close>

definition slab_inv :: "u64 \<Rightarrow> 'a slabs_scheme \<Rightarrow> u64 set \<Rightarrow> u64 set \<Rightarrow> u64 set \<Rightarrow> bool" where
  "slab_inv this s L X A \<longleftrightarrow> (\<exists>ps fs. slab_core this s L ps fs A \<and> X = set (ps @ fs) \<and> (\<forall>x\<in>set (ps @ fs). acnt s x < bps (scache s this)))"

text \<open>What an operation on a cache with slabs \<open>X\<close> leaves alone.\<close>

definition slab_frame :: "u64 \<Rightarrow> u64 set \<Rightarrow> u64 set \<Rightarrow> 'a slabs_scheme \<Rightarrow> 'a slabs_scheme \<Rightarrow> bool" where
  "slab_frame this X A s s' \<longleftrightarrow> root_of s' = root_of s \<and> same_geometry s s' \<and> slabs.more s' = slabs.more s \<and>
     (\<forall>c. c \<noteq> this \<longrightarrow> scache s' c = scache s c) \<and> bsz (scache s' this) = bsz (scache s this) \<and> bps (scache s' this) = bps (scache s this) \<and>
     (\<forall>x. x \<notin> X \<longrightarrow> smeta s' x = smeta s x) \<and> (\<forall>w. (\<forall>x\<in>X. w \<notin> page_words x) \<or> w \<in> A \<longrightarrow> mem s' w = mem s w)"

lemma slab_core_page:
  assumes "slab_core this s L ps fs A" "x \<in> set (ps @ fs)"
  shows "4096 dvd unat x" "x \<noteq> 0" "slab_ok this (scache s this) (mem s) (smeta s x) x A"
  using assms page_inv_aligned [of s L x] by (auto simp: slab_core_def)

lemma bufs_disjoint:
  assumes "slab_core this s L ps fs A" "x \<in> set (ps @ fs)" "y \<in> set (ps @ fs)" "x \<noteq> y"
  shows "bufs (scache s this) x \<inter> bufs (scache s this) y = {}"
proof -
  have c: "cache_ok (scache s this)" using assms(1) by (simp add: slab_core_def)
  show ?thesis using bufs_props(2) [OF c slab_core_page(1,2) [OF assms(1,2)]] bufs_props(2) [OF c slab_core_page(1,2) [OF assms(1,3)]] assms(4) by blast
qed

lemma page_inv_upd [simp]: "page_inv (upd_meta x f s) L = page_inv s L" "page_inv (upd_cache c g s) L = page_inv s L"
  "page_inv (s\<lparr>mem := m\<rparr>) L = page_inv s L"
  by (rule page_inv_same_alloc, simp add: same_alloc_def upd_meta_def upd_cache_def)+

lemma upd_meta_simps [simp]: "smeta (upd_meta x f s) y = (if y = x then f (smeta s x) else smeta s y)" "scache (upd_meta x f s) = scache s"
  "mem (upd_meta x f s) = mem s" "root_of (upd_meta x f s) = root_of s" "slabs.more (upd_meta x f s) = slabs.more s"
  by (simp_all add: upd_meta_def)

lemma upd_cache_simps [simp]: "scache (upd_cache x g s) y = (if y = x then g (scache s x) else scache s y)" "smeta (upd_cache x g s) = smeta s"
  "mem (upd_cache x g s) = mem s" "root_of (upd_cache x g s) = root_of s" "slabs.more (upd_cache x g s) = slabs.more s"
  by (simp_all add: upd_cache_def)

lemma geometry_upd [simp]: "same_geometry s (upd_meta x f t) = same_geometry s t" "same_geometry s (upd_cache c g t) = same_geometry s t"
  "same_geometry s (t\<lparr>mem := m\<rparr>) = same_geometry s t" "same_geometry s s"
  by (simp_all add: same_geometry_def upd_meta_def upd_cache_def)

text \<open>Allocation in the current slab.\<close>

lemma alloc_curr_spec:
  assumes core: "slab_core this s L (ps @ [x]) fs A"
  shows "\<exists>p s' ps' fs'. alloc_curr this s = Some (p, s') \<and> p \<in> bufs (scache s this) x - A \<and> slab_core this s' L ps' fs' (insert p A) \<and>
     ps' @ fs' = ps @ x # fs \<and> (\<forall>y. acnt s' y = (if y = x then acnt s x - 1 else acnt s y)) \<and> slab_frame this (set (ps @ x # fs)) A s s' \<and> mem s' = mem s"
proof -
  let ?c = "scache s this"
  have d: "dll (nxt s) (prv s) (ps @ x # fs)" and cur: "curr ?c = x" and ac: "acnt s x \<noteq> 0" and ok: "cache_ok ?c"
    using core by (auto simp: slab_core_def)
  have nx: "nxt s x = first fs 0" and pv: "prv s x = lst 0 ps" using dll_mid [OF d] by auto
  have full: "nxt s x = 0 \<or> meta_full (smeta s (nxt s x))"
    using core unfolding nx by (cases fs) (auto simp: slab_core_def meta_full_def)
  from slab_core_page(3) [OF core, of x] obtain fl where
    fl: "chain (mem s) (m_head (smeta s x)) fl" "distinct fl" "set fl = bufs ?c x - A" "length fl = acnt s x" "m_cache (smeta s x) = this"
    by (auto simp: slab_ok_def)
  then obtain b bs where b: "fl = b # bs" using ac by (cases fl) auto
  let ?m = "(smeta s x)\<lparr>m_head := mem s b, m_acnt := acnt s x - 1\<rparr>"
  let ?s1 = "upd_meta x (\<lambda>m. m\<lparr>m_head := mem s b, m_acnt := m_acnt m - 1\<rparr>) s"
  let ?s' = "if acnt s x = 1 then upd_cache this (\<lambda>c. c\<lparr>curr := lst 0 ps\<rparr>) ?s1 else ?s1"
  have hb: "m_head (smeta s x) = b" using fl(1) b by simp
  have run: "alloc_curr this s = Some (b, ?s')"
    using ac full hb by (cases "acnt s x = 1") (auto simp: alloc_curr_def cur meta_alloc_def Let_def meta_full_def pv)
  have bA: "b \<in> bufs ?c x - A" using fl(3) b by auto
  have slx: "slab_ok this ?c (mem s) ?m x (insert b A)"
    using fl b unfolding slab_ok_def by (intro conjI exI [of _ bs]) auto
  have sly: "slab_ok this ?c (mem s) (smeta s y) y (insert b A)" if "y \<in> set (ps @ x # fs)" "y \<noteq> x" for y
  proof (rule slab_ok_cong [OF slab_core_page(3) [OF core]])
    show "bufs ?c y - insert b A = bufs ?c y - A" using bufs_disjoint [OF core, of y x] that bA by auto
  qed (use that in auto)
  have b': "bufs (scache ?s' this) = bufs ?c" "cache_ok (scache ?s' this) = cache_ok ?c" "slab_ok this (scache ?s' this) = slab_ok this ?c"
    by (auto simp: bufs_def buf_def cache_ok_def fun_eq_iff slab_ok_def)
  have sm: "smeta ?s' y = (if y = x then ?m else smeta s y)" for y by simp
  have ndis: "x \<notin> set ps" "x \<notin> set fs" using d by (auto simp: dll_def)
  have dl: "dll (nxt ?s') (prv ?s') (ps @ x # fs)" using d by (subst dll_cong [of _ _ "nxt s" _ "prv s"]) auto
  have rest: "page_inv ?s' L" "set (ps @ x # fs) \<subseteq> L" "head (scache ?s' this) = first (ps @ x # fs) 0"
    "insert b A \<subseteq> (\<Union>x\<in>set (ps @ x # fs). bufs ?c x)"
    using core bA by (auto simp: slab_core_def)
  have all: "\<forall>y\<in>set (ps @ x # fs). slab_ok this ?c (mem ?s') (smeta ?s' y) y (insert b A)"
    using slx sly unfolding sm by auto
  have "\<exists>ps' fs'. slab_core this ?s' L ps' fs' (insert b A) \<and> ps' @ fs' = ps @ x # fs"
  proof (cases "acnt s x = 1")
    case True
    have "slab_core this ?s' L ps (x # fs) (insert b A)"
      unfolding slab_core_def b' using core ndis dl rest all True ok by (auto simp: slab_core_def)
    then show ?thesis by blast
  next
    case False
    have "slab_core this ?s' L (ps @ [x]) fs (insert b A)"
      unfolding slab_core_def b' using core ndis dl rest all False ac ok by (auto simp: slab_core_def)
    then show ?thesis by force
  qed
  moreover have "\<forall>y. acnt ?s' y = (if y = x then acnt s x - 1 else acnt s y)" by simp
  moreover have "slab_frame this (set (ps @ x # fs)) A s ?s'" by (auto simp: slab_frame_def)
  moreover have "mem ?s' = mem s" by simp
  ultimately show ?thesis using run bA by blast
qed

text \<open>The constructor makes all buffers free.\<close>

lemma free_buffers_spec:
  assumes "cache_ok c" "4096 dvd unat x" "x \<noteq> 0" "i \<le> bps c"
    and "chain (mem s) (m_head (smeta s x)) fl" "distinct fl" "set fl = buf c x ` {Suc i..bps c}" "length fl = acnt s x"
  shows "\<exists>m mt. free_buffers x (bsz c) i s = s\<lparr>smeta := (smeta s)(x := mt), mem := m\<rparr> \<and>
    (\<exists>fl'. chain m (m_head mt) fl' \<and> distinct fl' \<and> set fl' = bufs c x \<and> length fl' = m_acnt mt) \<and> m_acnt mt = acnt s x + i \<and>
    m_cache mt = m_cache (smeta s x) \<and> m_prev mt = prv s x \<and> m_next mt = nxt s x \<and> (\<forall>w. w \<notin> bufs c x \<longrightarrow> m w = mem s w)"
  using assms(4-8)
proof (induction i arbitrary: s fl)
  case 0
  then show ?case by (intro exI [of _ "mem s"] exI [of _ "smeta s x"]) (auto simp: bufs_def)
next
  case (Suc i)
  let ?b = "buf c x (Suc i)"
  let ?s = "snd (meta_free x ?b s)"
  note inj = bufs_props(1) [OF assms(1-3)] and nz = bufs_props(3) [OF assms(1-3)]
  have bin: "?b \<in> bufs c x" using Suc.prems(1) by (auto simp: bufs_def)
  have nb: "?b \<notin> set fl"
  proof
    assume "?b \<in> set fl"
    then obtain j where j: "j \<in> {Suc (Suc i)..bps c}" "buf c x j = ?b" unfolding Suc.prems(4) by auto
    have "j = Suc i" by (rule inj_onD [OF inj j(2)]) (use j(1) Suc.prems(1) in auto)
    then show False using j(1) by simp
  qed
  have "{Suc i..bps c} = insert (Suc i) {Suc (Suc i)..bps c}" using Suc.prems(1) by auto
  then have st: "set (?b # fl) = buf c x ` {Suc i..bps c}" using Suc.prems(4) by simp
  have "chain ((mem s)(?b := m_head (smeta s x))) (m_head (smeta s x)) fl"
    using Suc.prems(2) nb by (subst chain_cong [of fl _ "mem s"]) auto
  then have ch: "chain (mem ?s) (m_head (smeta ?s x)) (?b # fl)"
    using nz bin by (auto simp: meta_free_def Let_def)
  have ln: "length (?b # fl) = acnt ?s x" using Suc.prems(5) by (simp add: meta_free_def Let_def)
  have "i \<le> bps c" "distinct (?b # fl)" using Suc.prems(1,3) nb by auto
  from Suc.IH [OF this(1) ch this(2) st ln] obtain m mt where
    r: "free_buffers x (bsz c) i ?s = ?s\<lparr>smeta := (smeta ?s)(x := mt), mem := m\<rparr>"
      "\<exists>fl'. chain m (m_head mt) fl' \<and> distinct fl' \<and> set fl' = bufs c x \<and> length fl' = m_acnt mt" "m_acnt mt = acnt ?s x + i"
      "m_cache mt = m_cache (smeta ?s x)" "m_prev mt = prv ?s x" "m_next mt = nxt ?s x" "\<forall>w. w \<notin> bufs c x \<longrightarrow> m w = mem ?s w" by blast
  have "free_buffers x (bsz c) (Suc i) s = s\<lparr>smeta := (smeta s)(x := mt), mem := m\<rparr>"
    using r(1) by (simp add: buf_def meta_free_def Let_def upd_meta_def)
  moreover have "m w = mem s w" if "w \<notin> bufs c x" for w using r(7) that bin by (auto simp: meta_free_def Let_def)
  moreover have "m_acnt mt = acnt s x + Suc i" "m_cache mt = m_cache (smeta s x)" "m_prev mt = prv s x" "m_next mt = nxt s x"
    using r(3-6) by (simp_all add: meta_free_def Let_def)
  ultimately show ?case using r(2) by blast
qed

text \<open>A new slab in front of the full slabs.\<close>

lemma link_new_spec:
  assumes core: "slab_core this s L [] fs A"
    and x: "page_inv s1 (insert x L)" "x \<notin> L" "4096 dvd unat x" "x \<noteq> 0" "\<forall>w. w \<notin> page_words x \<longrightarrow> mem s1 w = mem s w"
      "smeta s1 = smeta s" "scache s1 = scache s"
  shows "slab_core this (link_head this x (slab_ctor this x s1)) (insert x L) [x] fs A \<and>
     acnt (link_head this x (slab_ctor this x s1)) x = bps (scache s this) \<and>
     (\<forall>y. y \<noteq> x \<longrightarrow> acnt (link_head this x (slab_ctor this x s1)) y = acnt s y) \<and>
     slab_frame this (insert x (set fs)) A s1 (link_head this x (slab_ctor this x s1))"
proof -
  let ?c = "scache s this"
  let ?m0 = "\<lparr>m_cache = this, m_prev = 0, m_next = 0, m_head = 0, m_acnt = 0\<rparr>"
  let ?s0 = "upd_meta x (\<lambda>_. ?m0) s1"
  have ok: "cache_ok ?c" using core by (simp add: slab_core_def)
  have "chain (mem ?s0) (m_head (smeta ?s0 x)) []" "distinct ([] :: u64 list)" "set [] = buf ?c x ` {Suc (bps ?c)..bps ?c}" "length [] = acnt ?s0 x"
    by auto
  from free_buffers_spec [OF ok x(3,4) order_refl this] obtain m mt where
    r0: "free_buffers x (bsz ?c) (bps ?c) ?s0 = ?s0\<lparr>smeta := (smeta ?s0)(x := mt), mem := m\<rparr>"
      "\<exists>fl'. chain m (m_head mt) fl' \<and> distinct fl' \<and> set fl' = bufs ?c x \<and> length fl' = m_acnt mt" "m_acnt mt = acnt ?s0 x + bps ?c"
      "m_cache mt = m_cache (smeta ?s0 x)" "m_prev mt = prv ?s0 x" "m_next mt = nxt ?s0 x" "\<forall>w. w \<notin> bufs ?c x \<longrightarrow> m w = mem ?s0 w" by blast
  have r: "m_acnt mt = m_acnt mt" "m_acnt mt = m_acnt mt" "m_acnt mt = bps ?c" "m_cache mt = this" "m_prev mt = 0" "m_next mt = 0"
    "\<forall>w. w \<notin> bufs ?c x \<longrightarrow> m w = mem s1 w" using r0(3-7) by simp_all
  have ctor: "slab_ctor this x s1 = s1\<lparr>smeta := (smeta s)(x := mt), mem := m\<rparr>"
    using r0(1) x(6,7) by (simp add: slab_ctor_def upd_meta_def)
  let ?h = "head ?c" let ?s = "link_head this x (slab_ctor this x s1)"
  have h: "?h = first fs 0" using core by (simp add: slab_core_def)
  have nfs: "x \<notin> set fs" "0 \<notin> set fs" "distinct fs" using core x(2) by (auto simp: slab_core_def dll_def)
  have sm: "smeta ?s y = (if y = x then mt\<lparr>m_next := ?h\<rparr> else if y = ?h \<and> ?h \<noteq> 0 then (smeta s y)\<lparr>m_prev := x\<rparr> else smeta s y)" for y
    using nfs x(4) h x(7) unfolding link_head_def ctor Let_def by (cases fs) auto
  have al: "same_alloc s1 ?s" unfolding link_head_def ctor Let_def by (simp add: same_alloc_def upd_meta_def upd_cache_def)
  have mm: "mem ?s = m" "page_inv ?s (insert x L)" "root_of ?s = root_of s1" "same_geometry s1 ?s" "slabs.more ?s = slabs.more s1"
    using x(1) page_inv_same_alloc [OF al] al
    by (simp_all add: same_geometry_def same_alloc_def) (simp_all add: link_head_def ctor Let_def upd_meta_def upd_cache_def)
  have cc: "scache ?s c = (if c = this then ?c\<lparr>head := x, curr := x\<rparr> else scache s c)" for c
    using x(7) unfolding link_head_def ctor Let_def by auto
  have b': "bufs (scache ?s this) = bufs ?c" "cache_ok (scache ?s this) = cache_ok ?c" "slab_ok this (scache ?s this) = slab_ok this ?c"
    unfolding cc by (auto simp: bufs_def buf_def cache_ok_def fun_eq_iff slab_ok_def)
  have mfs: "m w = mem s w" if "y \<in> set fs" "w \<in> page_words y" for y w
  proof -
    have "4096 dvd unat y" using slab_core_page(1) [OF core] that(1) by simp
    then have "w \<notin> page_words x" using page_words_disjoint [of y x] x(3) nfs(1) that by blast
    then show ?thesis using r(7) x(5) buf_page [OF ok, of x] by auto
  qed
  have "dll (nxt ?s) (prv ?s) ([] @ x # fs)"
  proof (rule dll_insert)
    show "dll (nxt s) (prv s) ([] @ fs)" using core by (simp add: slab_core_def)
    show "y \<in> set ([] @ fs) \<Longrightarrow> nxt ?s y = (if y = lst 0 [] then x else nxt s y)" for y using nfs sm [of y] by auto
    show "y \<in> set ([] @ fs) \<Longrightarrow> prv ?s y = (if y = first fs 0 then x else prv s y)" for y using nfs sm [of y] h by auto
  qed (use nfs x(4) sm [of x] h r(5) in auto)
  moreover have "slab_ok this ?c m (smeta ?s x) x A"
  proof -
    have "A \<inter> bufs ?c x = {}"
    proof -
      have "bufs ?c y \<inter> bufs ?c x = {}" if "y \<in> set fs" for y
        using page_words_disjoint [of y x] slab_core_page(1) [OF core, of y] that x(3) nfs(1) buf_page [OF ok, of x] buf_page [OF ok, of y] by auto
      moreover have "A \<subseteq> (\<Union>y\<in>set fs. bufs ?c y)" using core by (simp add: slab_core_def)
      ultimately show ?thesis by blast
    qed
    then have "bufs ?c x - A = bufs ?c x" by blast
    then show ?thesis using r0(2) r(4) unfolding sm slab_ok_def by simp
  qed
  moreover have "slab_ok this ?c m (smeta ?s y) y A" if y: "y \<in> set fs" for y
  proof (rule slab_ok_cong [OF slab_core_page(3) [OF core]])
    show "\<And>w. w \<in> bufs ?c y - A \<Longrightarrow> m w = mem s w" using mfs [OF y] buf_page [OF ok, of y] by blast
  qed (use y nfs sm [of y] in auto)
  moreover have "\<forall>y\<in>set fs. acnt ?s y = 0"
  proof
    fix y assume "y \<in> set fs"
    then show "acnt ?s y = 0" using sm [of y] nfs(1) core by (auto simp: slab_core_def)
  qed
  moreover have "acnt ?s x = bps ?c" using sm [of x] r(3) by simp
  moreover have "0 < bps ?c" using ok by (simp add: cache_ok_def)
  ultimately have "slab_core this ?s (insert x L) [x] fs A" unfolding slab_core_def b' mm(1)
    using core nfs mm ok cc [of this] by (auto simp: slab_core_def)
  moreover have "slab_frame this (insert x (set fs)) A s1 ?s"
  proof -
    have "smeta ?s y = smeta s1 y" if "y \<notin> insert x (set fs)" for y
      using that sm [of y] h x(6) by (cases fs) auto
    moreover have "m w = mem s1 w" if "(\<forall>y\<in>insert x (set fs). w \<notin> page_words y) \<or> w \<in> A" for w
    proof -
      have "A \<subseteq> (\<Union>y\<in>set fs. bufs ?c y)" using core by (simp add: slab_core_def)
      then have "A \<subseteq> (\<Union>y\<in>set fs. page_words y)" using buf_page [OF ok] by blast
      moreover have "page_words y \<inter> page_words x = {}" if "y \<in> set fs" for y
        using page_words_disjoint [of y x] slab_core_page(1) [OF core, of y] that x(3) nfs(1) by auto
      ultimately have "w \<notin> page_words x" using that by blast
      then show ?thesis using r(7) buf_page [OF ok, of x] by blast
    qed
    ultimately show ?thesis unfolding slab_frame_def using mm cc x(7) by auto
  qed
  ultimately show ?thesis using sm r(3) by auto
qed

lemma slab_frame_trans: "slab_frame this X A s s1 \<Longrightarrow> slab_frame this X A s1 s2 \<Longrightarrow> slab_frame this X A s s2"
  unfolding slab_frame_def same_geometry_def by metis

lemma slabs_more: "buddy.more s' = buddy.more (s :: 'a slabs_scheme) \<Longrightarrow>
    root_of s' = root_of s \<and> smeta s' = smeta s \<and> scache s' = scache s \<and> slabs.more s' = slabs.more s"
  by (cases s; cases s') simp

lemma page_alloc:
  fixes s :: "'a slabs_scheme"
  assumes "page_inv s L"
  shows "buddy_alloc 0 f s = Some (None, s) \<or>
    (\<exists>x s1. buddy_alloc 0 f s = Some (Some x, s1) \<and> x \<notin> L \<and> page_inv s1 (insert x L) \<and> (\<forall>w. w \<notin> page_words x \<longrightarrow> mem s1 w = mem s w) \<and>
      root_of s1 = root_of s \<and> smeta s1 = smeta s \<and> scache s1 = scache s \<and> slabs.more s1 = slabs.more s \<and> same_geometry s s1)"
proof -
  obtain A where A: "buddy_inv s A" using assms by (auto simp: page_inv_def)
  from buddy_alloc_spec [OF A, of 0 f] show ?thesis
  proof
    assume "\<exists>b s1. buddy_alloc 0 f s = Some (Some (index_to_page s b), s1) \<and> alloc_ok 0 A s b s1"
    then obtain b s1 where al: "buddy_alloc 0 f s = Some (Some (index_to_page s b), s1)" and "alloc_ok 0 A s b s1" by blast
    then have sp: "same_pool s s1" by (auto simp: alloc_ok_def)
    have "index_to_page s b \<notin> L" "page_inv s1 (insert (index_to_page s b) L)" using page_inv_alloc [OF assms, of f] al by auto
    moreover have "same_geometry s s1" "buddy.more s1 = buddy.more s" using sp by (auto simp: same_pool_def same_geometry_def)
    ultimately show ?thesis using al slabs_more [of s1 s] buddy_alloc_mem [OF al] by auto
  qed blast
qed

lemma slab_alloc_spec:
  fixes s :: "'a slabs_scheme"
  assumes "slab_inv this s L X A"
  shows "slab_alloc this s = Some (None, s) \<or>
    (\<exists>p s' X'. slab_alloc this s = Some (Some p, s') \<and> p \<notin> A \<and> from_buffer p \<in> X' \<and> p \<in> bufs (scache s this) (from_buffer p) \<and>
      slab_inv this s' (L \<union> X') X' (insert p A) \<and> X \<subseteq> X' \<and> (X' - X) \<inter> L = {} \<and> slab_frame this X' A s s')"
proof -
  from assms obtain ps fs where core: "slab_core this s L ps fs A" and X: "X = set (ps @ fs)"
    and lt: "\<forall>x\<in>set (ps @ fs). acnt s x < bps (scache s this)" by (auto simp: slab_inv_def)
  have inv: "page_inv s L" and ok: "cache_ok (scache s this)" and XL: "X \<subseteq> L" using core X by (auto simp: slab_core_def)
  have nz: "0 \<notin> set ps" using core by (auto simp: slab_core_def dll_def)
  have cur: "curr (scache s this) = lst 0 ps" using core by (simp add: slab_core_def)
  show ?thesis
  proof (cases ps rule: rev_cases)
    case (snoc qs x)
    then have "curr (scache s this) \<noteq> 0" using cur nz by simp
    moreover from alloc_curr_spec [OF core [unfolded snoc]] obtain p s' ps' fs' where
      a: "alloc_curr this s = Some (p, s')" "p \<in> bufs (scache s this) x - A" "slab_core this s' L ps' fs' (insert p A)" "ps' @ fs' = qs @ x # fs"
        "\<forall>y. acnt s' y = (if y = x then acnt s x - 1 else acnt s y)" "slab_frame this (set (qs @ x # fs)) A s s'" by blast
    ultimately have run: "slab_alloc this s = Some (Some p, s')" by (simp add: slab_alloc_def)
    have Xe: "X = set (qs @ x # fs)" using X snoc by simp
    have xp: "from_buffer p = x" using bufs_props(2) [OF ok slab_core_page(1,2) [OF core, of x]] a(2) snoc by simp
    have "bps (scache s' this) = bps (scache s this)" using a(6) by (simp add: slab_frame_def)
    then have "\<forall>y\<in>set (ps' @ fs'). acnt s' y < bps (scache s' this)" using a(4,5) lt snoc by auto
    then have "slab_inv this s' L X (insert p A)" using a(3,4) Xe unfolding slab_inv_def by metis
    moreover have "L \<union> X = L" using XL by blast
    ultimately show ?thesis using run a(2,6) xp Xe by (intro disjI2 exI [of _ p] exI [of _ s'] exI [of _ X]) auto
  next
    case Nil
    then have c0: "curr (scache s this) = 0" and core0: "slab_core this s L [] fs A" using cur core by auto
    from page_alloc [OF inv, of BITS0] show ?thesis
    proof (elim disjE exE conjE)
      assume "buddy_alloc 0 BITS0 s = Some (None, s)"
      then show ?thesis using c0 by (simp add: slab_alloc_def slab_new_def)
    next
      fix x s1
      assume al: "buddy_alloc 0 BITS0 s = Some (Some x, s1)" and x: "x \<notin> L" "page_inv s1 (insert x L)" "\<forall>w. w \<notin> page_words x \<longrightarrow> mem s1 w = mem s w"
        and fr: "root_of s1 = root_of s" "smeta s1 = smeta s" "scache s1 = scache s" "slabs.more s1 = slabs.more s" "same_geometry s s1"
      let ?s2 = "link_head this x (slab_ctor this x s1)"
      have xa: "4096 dvd unat x" "x \<noteq> 0" using page_inv_aligned [OF x(2)] by auto
      from link_new_spec [OF core0 x(2,1) xa x(3) fr(2,3)] have
        l: "slab_core this ?s2 (insert x L) ([] @ [x]) fs A" "acnt ?s2 x = bps (scache s this)" "\<forall>y. y \<noteq> x \<longrightarrow> acnt ?s2 y = acnt s y"
          "slab_frame this (insert x (set fs)) A s1 ?s2" by auto
      from alloc_curr_spec [OF l(1)] obtain p s' ps' fs' where
        a: "alloc_curr this ?s2 = Some (p, s')" "p \<in> bufs (scache ?s2 this) x - A" "slab_core this s' (insert x L) ps' fs' (insert p A)" "ps' @ fs' = x # fs"
        "\<forall>y. acnt s' y = (if y = x then acnt ?s2 x - 1 else acnt ?s2 y)" "slab_frame this (insert x (set fs)) A ?s2 s'" by auto
      let ?X = "insert x X"
      have Xe: "X = set fs" using X Nil by simp
      have run: "slab_alloc this s = Some (Some p, s')" using c0 al a(1) by (simp add: slab_alloc_def slab_new_def)
      have bb: "bufs (scache ?s2 this) x = bufs (scache s this) x" using l(4) fr(3) by (auto simp: slab_frame_def bufs_def buf_def)
      have xp: "from_buffer p = x" using bufs_props(2) [OF ok xa] a(2) bb by simp
      have AX: "w \<notin> page_words x" if "(\<forall>y\<in>?X. w \<notin> page_words y) \<or> w \<in> A" for w
      proof -
        have "A \<subseteq> (\<Union>y\<in>set fs. bufs (scache s this) y)" using core0 by (simp add: slab_core_def)
        then have "A \<subseteq> (\<Union>y\<in>set fs. page_words y)" using buf_page [OF ok] by blast
        moreover have "page_words y \<inter> page_words x = {}" if "y \<in> set fs" for y
        proof -
          have "y \<noteq> x" using XL Xe x(1) that by blast
          then show ?thesis using page_words_disjoint [of y x] slab_core_page(1) [OF core0, of y] that xa(1) by auto
        qed
        ultimately show ?thesis using that by blast
      qed
      have f1: "slab_frame this ?X A s s1" unfolding slab_frame_def using fr x(3) AX by auto
      have frame: "slab_frame this ?X A s s'" using slab_frame_trans [OF slab_frame_trans [OF f1] ] l(4) a(6) Xe by metis
      have "bps (scache s' this) = bps (scache s this)" using frame by (simp add: slab_frame_def)
      moreover have "0 < bps (scache s this)" using ok by (simp add: cache_ok_def)
      ultimately have "\<forall>y\<in>set (ps' @ fs'). acnt s' y < bps (scache s' this)" using a(4,5) l(2,3) lt Nil by auto
      then have "slab_inv this s' (insert x L) ?X (insert p A)" using a(3,4) Xe unfolding slab_inv_def by (metis list.simps(15))
      moreover have "L \<union> ?X = insert x L" using XL by blast
      moreover have "(?X - X) \<inter> L = {}" using x(1) by blast
      ultimately show ?thesis using run a(2) bb xp frame by (intro disjI2 exI [of _ p] exI [of _ s'] exI [of _ ?X]) auto
    qed
  qed
qed

text \<open>Freeing a buffer in its slab.\<close>

lemma meta_free_spec:
  assumes core: "slab_core this s L ps fs A" and p: "p \<in> A" "x = from_buffer p" and s1: "s1 = snd (meta_free x p s)"
  shows "x \<in> set (ps @ fs)" "p \<in> bufs (scache s this) x" "fst (meta_free x p s) = (acnt s x = 0)"
    "\<forall>y\<in>set (ps @ fs). slab_ok this (scache s this) (mem s1) (smeta s1 y) y (A - {p})"
    "\<forall>y. acnt s1 y = (if y = x then acnt s x + 1 else acnt s y)" "\<forall>y. nxt s1 y = nxt s y" "\<forall>y. prv s1 y = prv s y" "scache s1 = scache s"
    "page_inv s1 L" "m_cache (smeta s x) = this" "slab_frame this (set (ps @ fs)) (A - {p}) s s1" "acnt s x + 1 \<le> bps (scache s this)"
    "acnt s x + 1 = bps (scache s this) \<Longrightarrow> A \<inter> bufs (scache s this) x = {p}"
proof -
  let ?c = "scache s this"
  have ok: "cache_ok ?c" and sub: "A \<subseteq> (\<Union>y\<in>set (ps @ fs). bufs ?c y)" and inv: "page_inv s L" using core by (auto simp: slab_core_def)
  from sub p(1) obtain y where y: "y \<in> set (ps @ fs)" "p \<in> bufs ?c y" by blast
  then have "x = y" using bufs_props(2) [OF ok slab_core_page(1,2) [OF core y(1)]] p(2) by simp
  with y show x: "x \<in> set (ps @ fs)" and px: "p \<in> bufs ?c x" by auto
  note pg = slab_core_page(1,2) [OF core x]
  from slab_core_page(3) [OF core x] obtain fl where
    fl: "chain (mem s) (m_head (smeta s x)) fl" "distinct fl" "set fl = bufs ?c x - A" "length fl = acnt s x" and mc: "m_cache (smeta s x) = this"
    by (auto simp: slab_ok_def)
  show "m_cache (smeta s x) = this" by (rule mc)
  show "fst (meta_free x p s) = (acnt s x = 0)" by (simp add: meta_free_def Let_def)
  have mem1: "mem s1 = (mem s)(p := m_head (smeta s x))" and sm1: "smeta s1 y = (if y = x then (smeta s x)\<lparr>m_head := p, m_acnt := acnt s x + 1\<rparr> else smeta s y)" for y
    using s1 by (simp_all add: meta_free_def Let_def)
  show "\<forall>y. acnt s1 y = (if y = x then acnt s x + 1 else acnt s y)" "\<forall>y. nxt s1 y = nxt s y" "\<forall>y. prv s1 y = prv s y" using sm1 by auto
  show sc: "scache s1 = scache s" using s1 by (simp add: meta_free_def Let_def)
  show "page_inv s1 L" using inv s1 by (simp add: meta_free_def Let_def)
  have pn: "p \<notin> set fl" using fl(3) p(1) by blast
  have "chain (mem s1) (m_head (smeta s x)) fl" using fl(1) pn unfolding mem1 by (subst chain_cong [of fl _ "mem s"]) auto
  then have ch: "chain (mem s1) p (p # fl)" using bufs_props(3) [OF ok pg] px by (auto simp: mem1)
  have st: "set (p # fl) = bufs ?c x - (A - {p})" using fl(3) px by auto
  have slx: "slab_ok this ?c (mem s1) (smeta s1 x) x (A - {p})"
    using ch pn fl(2,4) st mc unfolding slab_ok_def sm1 by (intro conjI exI [of _ "p # fl"]) auto
  have sly: "slab_ok this ?c (mem s1) (smeta s1 y) y (A - {p})" if "y \<in> set (ps @ fs)" "y \<noteq> x" for y
  proof (rule slab_ok_cong [OF slab_core_page(3) [OF core]])
    have "p \<notin> bufs ?c y" using bufs_disjoint [OF core that(1) x that(2)] px by blast
    then show "bufs ?c y - (A - {p}) = bufs ?c y - A" "\<And>w. w \<in> bufs ?c y - A \<Longrightarrow> mem s1 w = mem s w" by (auto simp: mem1)
  qed (use that sm1 [of y] in auto)
  show "\<forall>y\<in>set (ps @ fs). slab_ok this ?c (mem s1) (smeta s1 y) y (A - {p})" using slx sly by blast
  have fm: "mem s1 w = mem s w" if "(\<forall>y\<in>set (ps @ fs). w \<notin> page_words y) \<or> w \<in> A - {p}" for w
  proof -
    have "w \<noteq> p" using that px buf_page [OF ok, of x] x by blast
    then show ?thesis by (simp add: mem1)
  qed
  have fs: "smeta s1 y = smeta s y" if "y \<notin> set (ps @ fs)" for y using that x sm1 [of y] by auto
  have "root_of s1 = root_of s" "slabs.more s1 = slabs.more s" "same_geometry s s1" using s1 by (simp_all add: meta_free_def Let_def)
  then show "slab_frame this (set (ps @ fs)) (A - {p}) s s1"
    unfolding slab_frame_def sc using fm fs by (intro conjI allI impI refl) (simp_all only:)
  have card: "card (bufs ?c x) = bps ?c" using card_image [OF bufs_props(1) [OF ok pg]] by (simp add: bufs_def)
  have fin: "finite (bufs ?c x)" by (simp add: bufs_def)
  have len: "card (set (p # fl)) = acnt s x + 1" using pn fl(2,4) by (simp add: distinct_card)
  have sub1: "set (p # fl) \<subseteq> bufs ?c x" using st by blast
  then show "acnt s x + 1 \<le> bps ?c" using card_mono [OF fin, of "set (p # fl)"] card len by simp
  assume "acnt s x + 1 = bps ?c"
  then have "set (p # fl) = bufs ?c x" using card_subset_eq [OF fin, of "set (p # fl)", OF sub1] len card by metis
  then show "A \<inter> bufs ?c x = {p}" using st p(1) px by blast
qed

lemma unlink_simps [simp]:
  "nxt (unlink x s) y = (if y = prv s x \<and> y \<noteq> 0 then nxt s x else nxt s y)"
  "prv (unlink x s) y = (if y = nxt s x \<and> y \<noteq> 0 then prv s x else prv s y)"
  "m_cache (smeta (unlink x s) y) = m_cache (smeta s y)" "m_head (smeta (unlink x s) y) = m_head (smeta s y)" "acnt (unlink x s) y = acnt s y"
  "scache (unlink x s) = scache s" "mem (unlink x s) = mem s" "root_of (unlink x s) = root_of s" "slabs.more (unlink x s) = slabs.more s"
  "page_inv (unlink x s) L = page_inv s L" "same_geometry t (unlink x s) = same_geometry t s"
  by (auto simp: unlink_def Let_def)

lemma unlink_dll:
  assumes "dll (nxt s) (prv s) (as @ x # bs)"
  shows "dll (nxt (unlink x s)) (prv (unlink x s)) (as @ bs)" and "y \<notin> set (as @ x # bs) \<Longrightarrow> smeta (unlink x s) y = smeta s y"
proof -
  note m = dll_mid [OF assms]
  have nz: "0 \<notin> set (as @ bs)" using assms by (auto simp: dll_def)
  show "dll (nxt (unlink x s)) (prv (unlink x s)) (as @ bs)"
    using nz m by (intro dll_remove [OF assms]) auto
  assume y: "y \<notin> set (as @ x # bs)"
  have "y \<noteq> prv s x \<or> prv s x = 0" using y m(2) by (cases as rule: rev_cases) auto
  moreover have "y \<noteq> nxt s x \<or> nxt s x = 0" using y m(1) by (cases bs) auto
  ultimately show "smeta (unlink x s) y = smeta s y" by (auto simp: unlink_def Let_def)
qed

text \<open>The slab lists after the links have been changed.\<close>

lemma slab_core_relink:
  assumes ok: "\<forall>y\<in>set (ps @ fs). slab_ok this (scache s this) (mem s) (smeta s y) y A" "cache_ok (scache s this)"
    and same: "\<And>y. m_cache (smeta s' y) = m_cache (smeta s y)" "\<And>y. m_head (smeta s' y) = m_head (smeta s y)" "\<And>y. acnt s' y = acnt s y" "mem s' = mem s"
    and c: "bsz (scache s' this) = bsz (scache s this)" "bps (scache s' this) = bps (scache s this)"
    and l: "set (ps' @ fs') \<subseteq> set (ps @ fs)" "set (ps' @ fs') \<subseteq> L" "page_inv s' L" "dll (nxt s') (prv s') (ps' @ fs')"
      "head (scache s' this) = first (ps' @ fs') 0" "curr (scache s' this) = lst 0 ps'"
    and a: "\<forall>y\<in>set ps'. acnt s y \<noteq> 0" "\<forall>y\<in>set fs'. acnt s y = 0" "A \<subseteq> (\<Union>y\<in>set (ps' @ fs'). bufs (scache s this) y)"
  shows "slab_core this s' L ps' fs' A"
proof -
  have b: "bufs (scache s' this) = bufs (scache s this)" using c by (auto simp: bufs_def buf_def fun_eq_iff)
  have "cache_ok (scache s' this)" using ok(2) c by (simp add: cache_ok_def)
  moreover have "slab_ok this (scache s' this) (mem s') (smeta s' y) y A" if "y \<in> set (ps' @ fs')" for y
  proof (rule slab_ok_cong)
    show "slab_ok this (scache s this) (mem s) (smeta s y) y A" using ok(1) that l(1) by blast
  qed (use same b in simp_all)
  ultimately show ?thesis unfolding slab_core_def b same(3) using l a by blast
qed

text \<open>Removing a slab from its list.\<close>

lemma slab_lists_remove:
  assumes "distinct (ps @ fs)" "0 \<notin> set (ps @ fs)" "x \<in> set (ps @ fs)"
  obtains ps' fs' as bs where "ps @ fs = as @ x # bs" "ps' @ fs' = as @ bs" "set ps' \<subseteq> set ps" "set fs' \<subseteq> set fs"
    "lst 0 ps' = (if x = lst 0 ps then lst 0 as else lst 0 ps)" "first (as @ bs) 0 = (if x = first (ps @ fs) 0 then first bs 0 else first (ps @ fs) 0)"
proof (cases "x \<in> set ps")
  case True
  then obtain qs rs where q: "ps = qs @ x # rs" by (meson split_list)
  have "lst 0 (qs @ rs) = (if x = lst 0 ps then lst 0 qs else lst 0 ps)" using assms(1) q by (cases rs rule: rev_cases) auto
  moreover have "first (qs @ rs @ fs) 0 = (if x = first (ps @ fs) 0 then first (rs @ fs) 0 else first (ps @ fs) 0)" using assms(1) q by (cases qs) auto
  ultimately show ?thesis using q by (intro that [of qs "rs @ fs" "qs @ rs" fs]) auto
next
  case False
  then obtain f1 f2 where f: "fs = f1 @ x # f2" using assms(3) by (auto dest: split_list)
  have x: "x \<noteq> 0" "x \<notin> set ps" "x \<notin> set f1" using assms False f by auto
  have "lst 0 ps = (if x = lst 0 ps then lst 0 (ps @ f1) else lst 0 ps)" using x by (cases ps rule: rev_cases) auto
  moreover have "first ((ps @ f1) @ f2) 0 = (if x = first (ps @ fs) 0 then first f2 0 else first (ps @ fs) 0)" using x f by (cases ps; cases f1) auto
  ultimately show ?thesis using f by (intro that [of "ps @ f1" f2 ps "f1 @ f2"]) auto
qed

lemma page_free:
  fixes s :: "'a slabs_scheme"
  assumes "page_inv s L" "p \<in> L"
  shows "\<exists>s'. buddy_free p s = Some s' \<and> page_inv s' (L - {p}) \<and> mem s' = mem s \<and> root_of s' = root_of s \<and> smeta s' = smeta s \<and> scache s' = scache s \<and>
    slabs.more s' = slabs.more s \<and> same_geometry s s'"
proof -
  from assms obtain A b where A: "buddy_inv s A" "p = index_to_page s b" "(b, 0) \<in> A" "b \<notin> set (waitlist s)"
    unfolding page_inv_def by blast
  from buddy_free_spec [OF A(1,3,4)] obtain s1 where s1: "buddy_free p s = Some s1" "same_rest s s1" unfolding A(2) by blast
  moreover from page_inv_free [OF assms] s1(1) have "page_inv s1 (L - {p})" by auto
  ultimately show ?thesis using slabs_more [of s1 s] by (auto simp: same_rest_def same_pool_def same_geometry_def)
qed

lemma geometry_trans: "same_geometry s t \<Longrightarrow> same_geometry t u \<Longrightarrow> same_geometry s u"
  by (simp add: same_geometry_def)

lemma meta_free_dll:
  assumes "slab_core this s L ps fs A" "s1 = snd (meta_free x p s)"
  shows "dll (nxt s1) (prv s1) (ps @ fs)"
proof (rule iffD2 [OF dll_cong])
  show "dll (nxt s) (prv s) (ps @ fs)" using assms(1) by (simp add: slab_core_def)
qed (use assms(2) in \<open>auto simp: meta_free_def Let_def\<close>)

text \<open>The slab became empty and its page is freed.\<close>

lemma slab_free_empty:
  fixes s :: "'a slabs_scheme"
  assumes core: "slab_core this s L ps fs A" and p: "p \<in> A" "x = from_buffer p" and s1: "s1 = snd (meta_free x p s)"
    and e: "acnt s x + 1 = bps (scache s this)"
  shows "\<exists>s' ps' fs'. slab_free this p s = Some s' \<and> slab_core this s' (L - {x}) ps' fs' (A - {p}) \<and> set (ps' @ fs') = set (ps @ fs) - {x} \<and>
    (\<forall>y. acnt s' y = acnt s1 y) \<and> slab_frame this (set (ps @ fs)) (A - {p}) s s'"
proof -
  note m = meta_free_spec [OF core p s1]
  have d: "dll (nxt s1) (prv s1) (ps @ fs)" by (rule meta_free_dll [OF core s1])
  then have dz: "distinct (ps @ fs)" "0 \<notin> set (ps @ fs)" by (auto simp: dll_def)
  from slab_lists_remove [OF dz m(1)] obtain ps' fs' as bs where
    r: "ps @ fs = as @ x # bs" "ps' @ fs' = as @ bs" "set ps' \<subseteq> set ps" "set fs' \<subseteq> set fs"
      "lst 0 ps' = (if x = lst 0 ps then lst 0 as else lst 0 ps)" "first (as @ bs) 0 = (if x = first (ps @ fs) 0 then first bs 0 else first (ps @ fs) 0)" .
  note mid = dll_mid [OF d [unfolded r(1)]]
  let ?c = "scache s this"
  let ?s2 = "if x = curr (scache s1 this) then upd_cache this (\<lambda>c. c\<lparr>curr := m_prev (smeta s1 x)\<rparr>) s1 else s1"
  let ?s3 = "if x = head (scache ?s2 this) then upd_cache this (\<lambda>c. c\<lparr>head := m_next (smeta ?s2 x)\<rparr>) ?s2 else ?s2"
  let ?s4 = "unlink x ?s3"
  have s3: "smeta ?s3 = smeta s1" "mem ?s3 = mem s1" "page_inv ?s3 L" "same_geometry s1 ?s3" "root_of ?s3 = root_of s1" "slabs.more ?s3 = slabs.more s1"
    "\<And>c. c \<noteq> this \<Longrightarrow> scache ?s3 c = scache s1 c" "bsz (scache ?s3 this) = bsz ?c" "bps (scache ?s3 this) = bps ?c"
    "curr (scache ?s3 this) = lst 0 ps'" "head (scache ?s3 this) = first (as @ bs) 0"
    using m(8,9) core mid r(5,6) by (auto simp: slab_core_def)
  have u: "dll (nxt ?s4) (prv ?s4) (as @ bs)" "\<And>y. y \<notin> set (ps @ fs) \<Longrightarrow> smeta ?s4 y = smeta s1 y"
    using unlink_dll [of ?s3 as x bs] d unfolding s3(1) r(1) by auto
  have xL: "x \<in> L" "x \<noteq> 0" using core m(1) slab_core_page(2) [OF core m(1)] by (auto simp: slab_core_def)
  from page_free [of ?s4 L x] s3(3) xL obtain s' where
    f: "buddy_free x ?s4 = Some s'" "page_inv s' (L - {x})" "mem s' = mem ?s4" "root_of s' = root_of ?s4" "smeta s' = smeta ?s4" "scache s' = scache ?s4"
      "slabs.more s' = slabs.more ?s4" "same_geometry ?s4 s'" by auto
  have em: "meta_empty s1 (smeta s1 x)" using m(5,8,10) e s1 by (simp add: meta_empty_def meta_free_def Let_def)
  have mf: "meta_free x p s = (acnt s x = 0, s1)" using s1 m(3) by (simp add: prod_eq_iff)
  have "slab_free this p s = slab_delete x ?s4"
    unfolding slab_free_def p(2) [symmetric] Let_def mf using em m(10) by (simp only: prod.case simp_thms assert_that_simps if_True Option.bind.bind_lunit)
  then have run: "slab_free this p s = Some s'" using f(1) xL(2) by (simp add: slab_delete_def)
  have xs: "set (ps' @ fs') = set (ps @ fs) - {x}" using r(1,2) dz(1) by auto
  have "slab_core this s' (L - {x}) ps' fs' (A - {p})"
  proof (rule slab_core_relink [of ps fs this s1])
    show "set (ps' @ fs') \<subseteq> L - {x}" "set (ps' @ fs') \<subseteq> set (ps @ fs)" using xs core by (auto simp: slab_core_def)
    show "dll (nxt s') (prv s') (ps' @ fs')" using u(1) f(5) r(2) by simp
    show "\<forall>y\<in>set ps'. acnt s1 y \<noteq> 0" "\<forall>y\<in>set fs'. acnt s1 y = 0" using m(5) r(3,4) xs core by (auto simp: slab_core_def)
    have "A - {p} \<subseteq> (\<Union>y\<in>set (ps @ fs). bufs ?c y) - bufs ?c x" using core m(13) [OF e] by (auto simp: slab_core_def)
    then show "A - {p} \<subseteq> (\<Union>y\<in>set (ps' @ fs'). bufs (scache s1 this) y)" using xs m(8) by auto
    show "cache_ok (scache s1 this)" using core m(8) by (simp add: slab_core_def)
    show "\<forall>y\<in>set (ps @ fs). slab_ok this (scache s1 this) (mem s1) (smeta s1 y) y (A - {p})" using m(4,8) by simp
  qed (use f(2,3,5,6) s3(1,2,8-11) m(8) r(2) in simp_all)
  moreover have "\<forall>y. acnt s' y = acnt s1 y" using f(5) s3(1) by simp
  moreover have "slab_frame this (set (ps @ fs)) (A - {p}) s1 s'"
  proof -
    have "same_geometry s1 s'" using s3(4) by (intro geometry_trans [OF _ f(8)]) (simp only: unlink_simps)
    moreover have "\<And>c. c \<noteq> this \<Longrightarrow> scache s' c = scache s1 c" using f(6) s3(7) by simp
    ultimately show ?thesis unfolding slab_frame_def using f(3-7) s3(2,5-9) u(2) m(8) by (intro conjI allI impI) simp_all
  qed
  then have "slab_frame this (set (ps @ fs)) (A - {p}) s s'" by (rule slab_frame_trans [OF m(11)])
  ultimately show ?thesis using run xs by blast
qed

text \<open>The slab was partial and stays so.\<close>

lemma slab_free_partial:
  fixes s :: "'a slabs_scheme"
  assumes core: "slab_core this s L ps fs A" and p: "p \<in> A" "x = from_buffer p" and s1: "s1 = snd (meta_free x p s)"
    and e: "acnt s x + 1 \<noteq> bps (scache s this)" and z: "acnt s x \<noteq> 0"
  shows "slab_free this p s = Some s1" "slab_core this s1 L ps fs (A - {p})"
proof -
  note m = meta_free_spec [OF core p s1]
  have em: "\<not> meta_empty s1 (smeta s1 x)" using m(5,8,10) e s1 by (simp add: meta_empty_def meta_free_def Let_def)
  show "slab_free this p s = Some s1"
    using m(3,10) em z s1 unfolding slab_free_def p(2) [symmetric] by (simp add: Let_def split_def)
  have "slab_ok this (scache s1 this) (mem s1) (smeta s1 y) y (A - {p})" if "y \<in> set (ps @ fs)" for y using m(4,8) that by simp
  moreover have "dll (nxt s1) (prv s1) (ps @ fs)" by (rule meta_free_dll [OF core s1])
  moreover have "\<forall>y\<in>set ps. acnt s1 y \<noteq> 0" "\<forall>y\<in>set fs. acnt s1 y = 0" using m(5) core z by (auto simp: slab_core_def)
  ultimately show "slab_core this s1 L ps fs (A - {p})" using core m(8,9) unfolding slab_core_def by auto
qed

text \<open>Requeueing moves a full slab that follows a full slab behind the partial slabs.\<close>

lemma requeue_spec:
  assumes d: "dll (nxt s) (prv s) (ps @ f1 @ x # f2)" and f1: "f1 \<noteq> []" and c: "curr (scache s this) = lst 0 ps" "head (scache s this) = first (ps @ f1) 0"
  shows "dll (nxt (requeue_slab this x s)) (prv (requeue_slab this x s)) (ps @ x # f1 @ f2)"
    "head (scache (requeue_slab this x s) this) = first (ps @ x # f1 @ f2) 0"
    "y \<notin> set (ps @ f1 @ x # f2) \<Longrightarrow> smeta (requeue_slab this x s) y = smeta s y"
proof -
  let ?u = "unlink x s" and ?r = "requeue_slab this x s"
  have nz: "0 \<notin> set (ps @ f1 @ x # f2)" "distinct (ps @ f1 @ x # f2)" using d by (auto simp: dll_def)
  have u: "dll (nxt ?u) (prv ?u) (ps @ f1 @ f2)" "\<And>y. y \<notin> set (ps @ f1 @ x # f2) \<Longrightarrow> smeta ?u y = smeta s y"
    using unlink_dll [of s "ps @ f1" x f2] d by simp_all
  obtain h f1' where f: "f1 = h # f1'" using f1 by (cases f1) auto
  have h: "h \<noteq> 0" "h \<noteq> x" "h \<notin> set ps" using nz f by auto
  let ?c = "lst 0 ps"
  have links: "dll (nxt ?r) (prv ?r) (ps @ x # f1 @ f2) \<and> head (scache ?r this) = first (ps @ x # f1 @ f2) 0 \<and>
    (\<forall>y. y \<noteq> x \<and> y \<noteq> h \<and> y \<notin> set ps \<longrightarrow> smeta ?r y = smeta ?u y)"
  proof (cases ps rule: rev_cases)
    case Nil
    then have r: "?r = upd_cache this (\<lambda>c. c\<lparr>head := x\<rparr>) (upd_meta h (\<lambda>m. m\<lparr>m_prev := x\<rparr>) (upd_meta x (\<lambda>m. m\<lparr>m_prev := 0, m_next := h\<rparr>) ?u))"
      using c f by (simp add: requeue_slab_def Let_def)
    have "dll (nxt ?r) (prv ?r) ([] @ x # f1 @ f2)"
      using u(1) nz f h Nil unfolding r by (intro dll_insert [of "nxt ?u" "prv ?u"]) (auto simp del: unlink_simps)
    then show ?thesis unfolding r Nil by (simp del: unlink_simps)
  next
    case (snoc qs k)
    then have k: "k \<noteq> 0" "k \<noteq> x" "k \<noteq> h" using nz h by auto
    have n: "nxt ?u k = h" using dll_mid(1) [of "nxt ?u" "prv ?u" qs k "f1 @ f2"] u(1) snoc f by simp
    have r: "?r = upd_meta k (\<lambda>m. m\<lparr>m_next := x\<rparr>) (upd_meta h (\<lambda>m. m\<lparr>m_prev := x\<rparr>) (upd_meta x (\<lambda>m. m\<lparr>m_prev := k, m_next := h\<rparr>) ?u))"
      using c snoc k n by (simp add: requeue_slab_def Let_def del: unlink_simps(1-5))
    have "dll (nxt ?r) (prv ?r) (ps @ x # f1 @ f2)"
      using u(1) nz f h k snoc unfolding r by (intro dll_insert [of "nxt ?u" "prv ?u"]) (auto simp del: unlink_simps)
    moreover have "head (scache ?r this) = first (ps @ x # f1 @ f2) 0" using c snoc unfolding r by (cases qs) auto
    moreover have "smeta ?r y = smeta ?u y" if "y \<noteq> x" "y \<noteq> h" "y \<notin> set ps" for y using that snoc unfolding r by (simp del: unlink_simps)
    ultimately show ?thesis by blast
  qed
  then show "dll (nxt ?r) (prv ?r) (ps @ x # f1 @ f2)" "head (scache ?r this) = first (ps @ x # f1 @ f2) 0" by blast+
  assume y: "y \<notin> set (ps @ f1 @ x # f2)"
  then have "smeta ?r y = smeta ?u y" using links f by auto
  then show "smeta ?r y = smeta s y" using u(2) [OF y] by simp
qed

lemma requeue_simps [simp]:
  "m_cache (smeta (requeue_slab this x s) y) = m_cache (smeta s y)" "m_head (smeta (requeue_slab this x s) y) = m_head (smeta s y)"
  "acnt (requeue_slab this x s) y = acnt s y" "mem (requeue_slab this x s) = mem s" "root_of (requeue_slab this x s) = root_of s"
  "slabs.more (requeue_slab this x s) = slabs.more s" "page_inv (requeue_slab this x s) L = page_inv s L"
  "same_geometry t (requeue_slab this x s) = same_geometry t s" "c \<noteq> this \<Longrightarrow> scache (requeue_slab this x s) c = scache s c"
  "bsz (scache (requeue_slab this x s) this) = bsz (scache s this)" "bps (scache (requeue_slab this x s) this) = bps (scache s this)"
  by (cases "curr (scache s this) = 0"; simp add: requeue_slab_def Let_def del: unlink_simps(1,2))+

text \<open>The slab was full.\<close>

lemma slab_free_full:
  fixes s :: "'a slabs_scheme"
  assumes core: "slab_core this s L ps fs A" and p: "p \<in> A" "x = from_buffer p" and s1: "s1 = snd (meta_free x p s)"
    and e: "acnt s x + 1 \<noteq> bps (scache s this)" and z: "acnt s x = 0"
  shows "\<exists>s' ps' fs'. slab_free this p s = Some s' \<and> slab_core this s' L ps' fs' (A - {p}) \<and> set (ps' @ fs') = set (ps @ fs) \<and>
    (\<forall>y. acnt s' y = acnt s1 y) \<and> slab_frame this (set (ps @ fs)) (A - {p}) s s'"
proof -
  note m = meta_free_spec [OF core p s1]
  have d: "dll (nxt s1) (prv s1) (ps @ fs)" by (rule meta_free_dll [OF core s1])
  have a: "\<forall>y\<in>set ps. acnt s y \<noteq> 0" "\<forall>y\<in>set fs. acnt s y = 0" "head (scache s this) = first (ps @ fs) 0" "curr (scache s this) = lst 0 ps"
    using core by (auto simp: slab_core_def)
  then have "x \<in> set fs" using m(1) z by auto
  then obtain f1 f2 where f: "fs = f1 @ x # f2" by (meson split_list)
  have dz: "distinct (ps @ fs)" "0 \<notin> set (ps @ fs)" using d by (auto simp: dll_def)
  have pv: "prv s1 x = lst 0 (ps @ f1)" using dll_mid(2) [of _ _ "ps @ f1" x f2] d f by simp
  let ?q = "m_prev (smeta s1 x) \<noteq> 0 \<and> meta_full (smeta s1 (m_prev (smeta s1 x)))"
  have q: "?q \<longleftrightarrow> f1 \<noteq> []"
  proof (cases f1 rule: rev_cases)
    case Nil
    then show ?thesis using pv a(1) m(5) dz f by (cases ps rule: rev_cases) (auto simp: meta_full_def)
  next
    case (snoc g y)
    then show ?thesis using pv a(2) m(5) dz f by (auto simp: meta_full_def)
  qed
  let ?s2 = "if ?q then requeue_slab this x s1 else s1"
  let ?s' = "upd_cache this (\<lambda>c. c\<lparr>curr := x\<rparr>) ?s2"
  have mf: "meta_free x p s = (acnt s x = 0, s1)" using s1 m(3) by (simp add: prod_eq_iff)
  have em: "\<not> meta_empty s1 (smeta s1 x)" using m(5,8,10) e s1 by (simp add: meta_empty_def meta_free_def Let_def)
  have run: "slab_free this p s = Some ?s'"
    unfolding slab_free_def p(2) [symmetric] Let_def mf using em z m(10) by (simp only: prod.case simp_thms assert_that_simps if_True if_False Option.bind.bind_lunit)
  have s2: "dll (nxt ?s2) (prv ?s2) (ps @ x # f1 @ f2) \<and> head (scache ?s2 this) = first (ps @ x # f1 @ f2) 0 \<and> (\<forall>y. y \<notin> set (ps @ fs) \<longrightarrow> smeta ?s2 y = smeta s1 y)"
  proof (cases "f1 = []")
    case True
    then show ?thesis using d a(3) m(8) f q by auto
  next
    case False
    have "dll (nxt s1) (prv s1) (ps @ f1 @ x # f2)" "curr (scache s1 this) = lst 0 ps" "head (scache s1 this) = first (ps @ f1) 0"
      using d f a(3,4) m(8) False by (auto simp: neq_Nil_conv)
    from requeue_spec [OF this(1) False this(2,3)] show ?thesis using q False f by auto
  qed
  have same: "m_cache (smeta ?s' y) = m_cache (smeta s1 y)" "m_head (smeta ?s' y) = m_head (smeta s1 y)" "acnt ?s' y = acnt s1 y" "mem ?s' = mem s1"
    "bsz (scache ?s' this) = bsz (scache s1 this)" "bps (scache ?s' this) = bps (scache s1 this)" "page_inv ?s' L" "c \<noteq> this \<Longrightarrow> scache ?s' c = scache s1 c"
    "root_of ?s' = root_of s1" "slabs.more ?s' = slabs.more s1" "same_geometry s1 ?s'" for y c
    using m(9) by simp_all
  have "slab_core this ?s' L (ps @ [x]) (f1 @ f2) (A - {p})"
  proof (rule slab_core_relink [of ps fs this s1])
    show "set ((ps @ [x]) @ f1 @ f2) \<subseteq> L" "set ((ps @ [x]) @ f1 @ f2) \<subseteq> set (ps @ fs)" using f core by (auto simp: slab_core_def)
    show "dll (nxt ?s') (prv ?s') ((ps @ [x]) @ f1 @ f2)" using s2 by simp
    show "\<forall>y\<in>set (ps @ [x]). acnt s1 y \<noteq> 0" "\<forall>y\<in>set (f1 @ f2). acnt s1 y = 0" using m(5) a(1,2) dz f by auto
    show "A - {p} \<subseteq> (\<Union>y\<in>set ((ps @ [x]) @ f1 @ f2). bufs (scache s1 this) y)" using core f m(8) by (auto simp: slab_core_def)
    show "cache_ok (scache s1 this)" using core m(8) by (simp add: slab_core_def)
    show "\<forall>y\<in>set (ps @ fs). slab_ok this (scache s1 this) (mem s1) (smeta s1 y) y (A - {p})" using m(4,8) by simp
    show "head (scache ?s' this) = first ((ps @ [x]) @ f1 @ f2) 0" using s2 by simp
  qed (use same in simp_all)
  moreover have "slab_frame this (set (ps @ fs)) (A - {p}) s1 ?s'"
    unfolding slab_frame_def using same s2 by (intro conjI allI impI) simp_all
  then have "slab_frame this (set (ps @ fs)) (A - {p}) s ?s'" by (rule slab_frame_trans [OF m(11)])
  moreover have "set ((ps @ [x]) @ f1 @ f2) = set (ps @ fs)" using f by auto
  ultimately show ?thesis using run same(3) by blast
qed

lemma slab_free_spec:
  fixes s :: "'a slabs_scheme"
  assumes inv: "slab_inv this s L X A" and p: "p \<in> A"
  shows "\<exists>s' X'. slab_free this p s = Some s' \<and> slab_inv this s' (L - (X - X')) X' (A - {p}) \<and> X' \<subseteq> X \<and> X - X' \<subseteq> {from_buffer p} \<and>
    slab_frame this X (A - {p}) s s'"
proof -
  let ?x = "from_buffer p" and ?c = "scache s this"
  from inv obtain ps fs where core: "slab_core this s L ps fs A" and X: "X = set (ps @ fs)" and lt: "\<forall>y\<in>set (ps @ fs). acnt s y < bps ?c"
    by (auto simp: slab_inv_def)
  let ?s1 = "snd (meta_free ?x p s)"
  note m = meta_free_spec [OF core p refl refl]
  have fin: "slab_inv this s' L' (set (ps' @ fs')) (A - {p})"
    if "slab_core this s' L' ps' fs' (A - {p})" "set (ps' @ fs') \<subseteq> set (ps @ fs)" "\<forall>y. acnt s' y = acnt ?s1 y" "slab_frame this X (A - {p}) s s'"
      "?x \<in> set (ps' @ fs') \<Longrightarrow> acnt s ?x + 1 \<noteq> bps ?c" for s' L' ps' fs'
  proof -
    note sub = that(2,5) and r = that(1,3)
    have "bps (scache s' this) = bps ?c" using that(4) by (simp add: slab_frame_def)
    moreover have "acnt ?s1 y < bps ?c" if y: "y \<in> set (ps' @ fs')" for y
      using sub y m(5,12) lt by (cases "y = ?x") force+
    ultimately show ?thesis using r unfolding slab_inv_def by (intro exI [of _ ps'] exI [of _ fs']) simp
  qed
  show ?thesis
  proof (cases "acnt s ?x + 1 = bps ?c")
    case True
    from slab_free_empty [OF core p refl refl True] obtain s' ps' fs' where r: "slab_free this p s = Some s'" "slab_core this s' (L - {?x}) ps' fs' (A - {p})"
      "set (ps' @ fs') = set (ps @ fs) - {?x}" "\<forall>y. acnt s' y = acnt ?s1 y" "slab_frame this X (A - {p}) s s'" unfolding X by blast
    moreover have "slab_inv this s' (L - {?x}) (set (ps' @ fs')) (A - {p})" by (rule fin [OF r(2)]) (use r in auto)
    moreover have "X - set (ps' @ fs') = {?x}" using r(3) X m(1) by blast
    ultimately show ?thesis using X by (intro exI [of _ s'] exI [of _ "set (ps' @ fs')"]) auto
  next
    case False
    have "\<exists>s' ps' fs'. slab_free this p s = Some s' \<and> slab_core this s' L ps' fs' (A - {p}) \<and> set (ps' @ fs') = set (ps @ fs) \<and>
      (\<forall>y. acnt s' y = acnt ?s1 y) \<and> slab_frame this X (A - {p}) s s'"
    proof (cases "acnt s ?x = 0")
      case True
      show ?thesis unfolding X by (rule slab_free_full [OF core p refl refl False True])
    next
      case nz: False
      show ?thesis using slab_free_partial [OF core p refl refl False nz] m(11) unfolding X by blast
    qed
    then obtain s' ps' fs' where r: "slab_free this p s = Some s'" "slab_core this s' L ps' fs' (A - {p})" "set (ps' @ fs') = set (ps @ fs)"
      "\<forall>y. acnt s' y = acnt ?s1 y" "slab_frame this X (A - {p}) s s'" by blast
    have "slab_inv this s' L (set (ps' @ fs')) (A - {p})" by (rule fin [OF r(2)]) (use r False in auto)
    then show ?thesis using r(1,3,5) X by (intro exI [of _ s'] exI [of _ X]) auto
  qed
qed

section \<open>The slab cache provides the allocator contract\<close>

definition objects_inv :: "u64 \<Rightarrow> 'a slabs_scheme \<Rightarrow> u64 set \<Rightarrow> bool" where
  "objects_inv this s A \<longleftrightarrow> (\<exists>L X. slab_inv this s L X A)"

interpretation objects: allocator "objects_inv this" "slab_alloc this" "slab_free this" for this
proof unfold_locales
  fix s :: "'a slabs_scheme" and A p
  assume "objects_inv this s A"
  then obtain L X where i: "slab_inv this s L X A" by (auto simp: objects_inv_def)
  show "slab_alloc this s = Some (None, s) \<or> (\<exists>p s'. slab_alloc this s = Some (Some p, s') \<and> p \<notin> A \<and> objects_inv this s' (insert p A))"
    using slab_alloc_spec [OF i] unfolding objects_inv_def by blast
  show "\<exists>s'. slab_free this p s = Some s' \<and> objects_inv this s' (A - {p})" if "p \<in> A"
    using slab_free_spec [OF i that] unfolding objects_inv_def by blast
qed

section \<open>Objects in memory\<close>

lemma buf_unat:
  assumes "cache_ok c" "4096 dvd unat x" "x \<noteq> 0" "i \<in> {1..bps c}"
  shows "unat (buf c x i) = unat x + 4096 - i * bsz c" "i * bsz c \<le> 4096 - sizeof_Metadata"
proof -
  from buf_word [OF assms(1,4), of x] obtain k where k: "buf c x i = x + of_nat (8 * k)" "5 \<le> k" "k < 512" "8 * k + i * bsz c = 4096"
    by (elim exE conjE) (rule that)
  show "i * bsz c \<le> 4096 - sizeof_Metadata" using k(2,4) by (simp add: sizeof_Metadata_def)
  obtain q where q: "unat x = 4096 * q" using assms(2) by blast
  have "4096 * q < 4096 * 2 ^ 52" using u64_lt [of x] q by simp
  then have "unat x + 8 * k < 2 ^ 64" using q k(3) by simp
  then have "unat (buf c x i) = unat x + 8 * k" unfolding k(1) by (simp add: unat_word_ariths unat_of_nat take_bit_nat_eq_self)
  then show "unat (buf c x i) = unat x + 4096 - i * bsz c" using k(4) by simp
qed

lemma slab_inv_obj:
  assumes "slab_inv this s L X A" "p \<in> A"
  obtains x i where "x \<in> X" "x = from_buffer p" "x \<in> L" "4096 dvd unat x" "x \<noteq> 0" "i \<in> {1..bps (scache s this)}" "p = buf (scache s this) x i"
proof -
  from assms(1) obtain ps fs where core: "slab_core this s L ps fs A" and X: "X = set (ps @ fs)" by (auto simp: slab_inv_def)
  have A: "A \<subseteq> (\<Union>x\<in>set (ps @ fs). bufs (scache s this) x)" and ok: "cache_ok (scache s this)" and XL: "X \<subseteq> L" using core X by (auto simp: slab_core_def)
  from A assms(2) obtain x where x: "x \<in> set (ps @ fs)" "p \<in> bufs (scache s this) x" by blast
  note pg = slab_core_page(1,2) [OF core x(1)]
  from x(2) obtain i where i: "i \<in> {1..bps (scache s this)}" "p = buf (scache s this) x i" by (auto simp: bufs_def)
  have "x = from_buffer p" "x \<in> X" "x \<in> L" using bufs_props(2) [OF ok pg x(2)] x X XL by blast+
  then show ?thesis using pg i by (intro that)
qed

text \<open>An empty cache for objects of 2000 bytes over a pool of two free pages.\<close>

definition slab2 :: slabs where
  "slab2 = \<lparr>min_idx = min_idx pool2, max_idx = max_idx pool2, mem_base = mem_base pool2, blk_base = blk_base pool2, blk = blk pool2,
     freelist = freelist pool2, waitlist = [], mem = mem pool2, root_of = (\<lambda>_. 0),
     smeta = (\<lambda>_. \<lparr>m_cache = 0, m_prev = 0, m_next = 0, m_head = 0, m_acnt = 0\<rparr>), scache = (\<lambda>_. slab_cache_new 2000 8)\<rparr>"

lemma slab2_inv: "slab_inv 0x1000 slab2 {} {} {}"
proof -
  have c: "slab_cache_new 2000 8 = \<lparr>bsz = 2000, bps = 2, curr = 0, head = 0\<rparr>"
    by (simp add: slab_cache_new_def sizeof_Metadata_def align_up_def align_dn_def Let_def)
  have "page_inv slab2 {} = page_inv pool2 {}" by (rule page_inv_same_alloc) (simp add: same_alloc_def slab2_def pool2_fields)
  moreover have "page_inv pool2 {}" using pool2_inv by (auto simp: page_inv_def)
  ultimately have "page_inv slab2 {}" by simp
  then have "slab_core 0x1000 slab2 {} [] [] {}"
    unfolding slab_core_def by (simp add: slab2_def c cache_ok_def sizeof_Metadata_def)
  then show ?thesis unfolding slab_inv_def by (intro exI [of _ "[]"]) simp
qed
text \<open>The same cache with one page in use, both objects of which are allocated.\<close>

definition slab2_used :: slabs where
  "slab2_used = slab2\<lparr>blk := blk pool2_used, freelist := freelist pool2_used,
     smeta := (\<lambda>_. \<lparr>m_cache = 0x1000, m_prev = 0, m_next = 0, m_head = 0, m_acnt = 0\<rparr>),
     scache := (\<lambda>_. \<lparr>bsz = 2000, bps = 2, curr = 0, head = 0x200000\<rparr>)\<rparr>"

lemma slab2_used_inv: "slab_inv 0x1000 slab2_used {0x200000} {0x200000} {0x200830, 0x200060}"
proof -
  let ?c = "\<lparr>bsz = 2000, bps = 2, curr = 0, head = 0x200000\<rparr>"
  have b: "bufs ?c 0x200000 = {0x200830, 0x200060}"
    by (simp add: bufs_def buf_def numeral_2_eq_2 atLeastAtMostSuc_conv insert_commute)
  have "page_inv slab2_used {0x200000} = page_inv pool2_used {0x200000}"
    by (rule page_inv_same_alloc) (simp add: same_alloc_def slab2_used_def slab2_def pool2_fields pool2_used_def pool2_def)
  moreover have "index_to_page pool2_used 0 = 0x200000" by (simp add: index_to_page_def pool2_used_def pool2_def)
  then have "page_inv pool2_used {0x200000}" using pool2_used_inv by (auto simp: page_inv_def pool2_used_fields intro!: exI [of _ "{(0, 0)}"])
  ultimately have "page_inv slab2_used {0x200000}" by simp
  then have "slab_core 0x1000 slab2_used {0x200000} [] [0x200000] {0x200830, 0x200060}"
    unfolding slab_core_def by (simp add: slab2_used_def b cache_ok_def sizeof_Metadata_def slab_ok_def dll_def)
  then show ?thesis unfolding slab_inv_def by (intro exI [of _ "[]"] exI [of _ "[0x200000]"]) (simp add: slab2_used_def)
qed


text \<open>
  C19: \<open>Slab_cache::alloc\<close> passes its assertions. It returns an object that was not in use, in one of the slabs of the
  cache, taking at most one new page, and keeps the order of partial and full slabs, the free lists and the counters; objects in
  use, other caches and all other memory keep their contents. If the page allocator is exhausted nothing changes.
\<close>

theorem slab_alloc_correct:
  assumes "slab_inv this s L X A"
  shows "slab_alloc this s = Some (None, s) \<or>
    (\<exists>p s' X'. slab_alloc this s = Some (Some p, s') \<and> p \<notin> A \<and> p \<in> bufs (scache s this) (from_buffer p) \<and> X \<subseteq> X' \<and> (X' - X) \<inter> L = {} \<and>
      slab_inv this s' (L \<union> X') X' (insert p A) \<and> slab_frame this X' A s s')"
  using slab_alloc_spec [OF assms] by blast

theorem slab_alloc_correct_witness:
  "slab_alloc 0x1000 slab2 = Some (None, slab2) \<or> (\<exists>p s' X'. slab_alloc 0x1000 slab2 = Some (Some p, s') \<and> slab_inv 0x1000 s' X' X' {p})"
  using slab_alloc_correct [OF slab2_inv] by auto



text \<open>
  C22: Allocating any number of objects and freeing them again never fails an assertion; the objects are new and pairwise
  distinct while they are in use, and the cache ends with the original objects.
\<close>

theorem slab_alloc_free_roundtrip:
  assumes "slab_inv this s L X A"
  shows "\<exists>ps s1 s2 L1 X1 L2 X2. alloc_list (slab_alloc this) n s = Some (ps, s1) \<and> distinct ps \<and> set ps \<inter> A = {} \<and>
    slab_inv this s1 L1 X1 (A \<union> set ps) \<and> foldM (slab_free this) ps s1 = Some s2 \<and> slab_inv this s2 L2 X2 A"
proof -
  have "objects_inv this s A" using assms by (auto simp: objects_inv_def)
  from objects.alloc_free_ok [OF this, of n] show ?thesis unfolding objects_inv_def by blast
qed

theorem slab_alloc_free_roundtrip_witness:
  "\<exists>ps s1 s2 L2 X2. alloc_list (slab_alloc 0x1000) 3 slab2 = Some (ps, s1) \<and> foldM (slab_free 0x1000) ps s1 = Some s2 \<and> slab_inv 0x1000 s2 L2 X2 {}"
  using slab_alloc_free_roundtrip [OF slab2_inv, of 3] by blast

end
