(* ===== verification/Nova_Timeout.thy ===== *)
theory Nova_Timeout
  imports Nova_Dll
begin

text \<open>
  \<^verbatim>\<open>inc/timeout.hpp\<close>, \<^verbatim>\<open>src/timeout.cpp\<close>, \<^verbatim>\<open>inc/stc.hpp\<close> and the deadline interface of \<^verbatim>\<open>inc/x86_64/timer.hpp\<close>: the list of
  pending timeouts of a core, sorted by deadline. A timeout is named by its address; \<open>dln\<close> is the deadline that was
  programmed last. The operations are related to insertion into and removal from a sorted list.
\<close>

section \<open>Operations\<close>

record timeout =
  t_time :: u64
  t_prev :: u64
  t_next :: u64

record timers =
  tmo :: "u64 \<Rightarrow> timeout"
  tlist :: u64
  dln :: u64

definition upd_tmo :: "u64 \<Rightarrow> (timeout \<Rightarrow> timeout) \<Rightarrow> 'a timers_scheme \<Rightarrow> 'a timers_scheme" where
  "upd_tmo x f s = s\<lparr>tmo := (tmo s)(x := f (tmo s x))\<rparr>"

definition timer_set_dln :: "u64 \<Rightarrow> 'a timers_scheme \<Rightarrow> 'a timers_scheme" where
  "timer_set_dln t s = s\<lparr>dln := t\<rparr>"

definition timer_stop :: "'a timers_scheme \<Rightarrow> 'a timers_scheme" where
  "timer_stop s = s"

definition timeout_sync :: "'a timers_scheme \<Rightarrow> 'a timers_scheme" where
  "timeout_sync s = (if tlist s \<noteq> 0 then timer_set_dln (t_time (tmo s (tlist s))) s else timer_stop s)"

text \<open>The search for the predecessor of a timeout with deadline \<open>t\<close>; it does not return on a cyclic list.\<close>

partial_function (option) timeout_find :: "(u64 \<Rightarrow> timeout) \<Rightarrow> u64 \<Rightarrow> u64 \<Rightarrow> u64 \<Rightarrow> u64 option" where
  "timeout_find m t p n = (if n = 0 then Some p else if t \<le> t_time (m n) then Some p else timeout_find m t n (t_next (m n)))"

declare timeout_find.simps [code]

definition timeout_enqueue :: "u64 \<Rightarrow> u64 \<Rightarrow> 'a timers_scheme \<Rightarrow> 'a timers_scheme option" where
  "timeout_enqueue this t s = do {
     assert_that (this \<noteq> tlist s);
     assert_that (t_prev (tmo s this) = 0);
     assert_that (t_next (tmo s this) = 0);
     let s = upd_tmo this (\<lambda>x. x\<lparr>t_time := t\<rparr>) s;
     p \<leftarrow> timeout_find (tmo s) t 0 (tlist s);
     let s = upd_tmo this (\<lambda>x. x\<lparr>t_prev := p\<rparr>) s;
     let s = (if p = 0 then timeout_sync ((upd_tmo this (\<lambda>x. x\<lparr>t_next := tlist s\<rparr>) s)\<lparr>tlist := this\<rparr>)
              else upd_tmo p (\<lambda>x. x\<lparr>t_next := this\<rparr>) (upd_tmo this (\<lambda>x. x\<lparr>t_next := t_next (tmo s p)\<rparr>) s));
     let n = t_next (tmo s this);
     Some (if n \<noteq> 0 then upd_tmo n (\<lambda>x. x\<lparr>t_prev := this\<rparr>) s else s)
   }"

definition timeout_unlink :: "u64 \<Rightarrow> 'a timers_scheme \<Rightarrow> 'a timers_scheme" where
  "timeout_unlink this s =
     (let p = t_prev (tmo s this); n = t_next (tmo s this);
          s = (if n \<noteq> 0 then upd_tmo n (\<lambda>x. x\<lparr>t_prev := p\<rparr>) s else s);
          s = (if p \<noteq> 0 then upd_tmo p (\<lambda>x. x\<lparr>t_next := n\<rparr>) s else timeout_sync (s\<lparr>tlist := n\<rparr>))
      in upd_tmo this (\<lambda>x. x\<lparr>t_prev := 0, t_next := 0\<rparr>) s)"

definition timeout_dequeue :: "u64 \<Rightarrow> 'a timers_scheme \<Rightarrow> (u64 \<times> 'a timers_scheme) option" where
  "timeout_dequeue this s = do {
     let s = (if tlist s = this \<or> t_prev (tmo s this) \<noteq> 0 then timeout_unlink this s else s);
     assert_that (this \<noteq> tlist s);
     assert_that (t_prev (tmo s this) = 0);
     assert_that (t_next (tmo s this) = 0);
     Some (t_time (tmo s this), s)
   }"

text \<open>
  The timer interrupt: triggering a timeout is the virtual function \<open>trig\<close> and \<open>clk i\<close> is the time read in iteration \<open>i\<close>.
\<close>

partial_function (option) timeout_check ::
  "(u64 \<Rightarrow> 'a timers_scheme \<Rightarrow> 'a timers_scheme option) \<Rightarrow> (nat \<Rightarrow> u64) \<Rightarrow> nat \<Rightarrow> 'a timers_scheme \<Rightarrow> 'a timers_scheme option" where
  "timeout_check trig clk i s =
     (if tlist s \<noteq> 0 \<and> t_time (tmo s (tlist s)) \<le> clk i then do {
        (d, s1) \<leftarrow> timeout_dequeue (tlist s) s;
        s2 \<leftarrow> trig (tlist s) s1;
        timeout_check trig clk (Suc i) s2
      } else Some s)"

text \<open>Conversion between milliseconds and ticks of a clock with frequency \<open>freq\<close>.\<close>

definition ticks_to_ms :: "u64 \<Rightarrow> u64 \<Rightarrow> u64" where
  "ticks_to_ms freq ticks = ticks * 1000 div freq"

definition ms_to_ticks :: "u64 \<Rightarrow> u32 \<Rightarrow> u64" where
  "ms_to_ticks freq ms = freq * ucast ms div 1000"

section \<open>The list of pending timeouts\<close>

abbreviation tnext :: "'a timers_scheme \<Rightarrow> u64 \<Rightarrow> u64" where "tnext s x \<equiv> t_next (tmo s x)"
abbreviation tprev :: "'a timers_scheme \<Rightarrow> u64 \<Rightarrow> u64" where "tprev s x \<equiv> t_prev (tmo s x)"
abbreviation ttime :: "'a timers_scheme \<Rightarrow> u64 \<Rightarrow> u64" where "ttime s x \<equiv> t_time (tmo s x)"

definition trep :: "'a timers_scheme \<Rightarrow> u64 list \<Rightarrow> bool" where
  "trep s xs \<longleftrightarrow> dll (tnext s) (tprev s) xs \<and> tlist s = first xs 0 \<and> sorted (map (ttime s) xs) \<and>
     (\<forall>x. x \<notin> set xs \<longrightarrow> tprev s x = 0 \<and> tnext s x = 0) \<and> (xs \<noteq> [] \<longrightarrow> dln s = ttime s (hd xs))"

text \<open>The position before the first timeout that is not earlier.\<close>

definition tl_insert :: "(u64 \<Rightarrow> u64) \<Rightarrow> u64 \<Rightarrow> u64 \<Rightarrow> u64 list \<Rightarrow> u64 list" where
  "tl_insert tm t x xs = takeWhile (\<lambda>y. tm y < t) xs @ x # dropWhile (\<lambda>y. tm y < t) xs"

lemma upd_tmo_simps [simp]: "tmo (upd_tmo x f s) y = (if y = x then f (tmo s x) else tmo s y)" "tlist (upd_tmo x f s) = tlist s"
  "dln (upd_tmo x f s) = dln s" "timers.more (upd_tmo x f s) = timers.more s"
  by (simp_all add: upd_tmo_def)

lemma timeout_sync_simps [simp]: "tmo (timeout_sync s) = tmo s" "tlist (timeout_sync s) = tlist s" "timers.more (timeout_sync s) = timers.more s"
  "dln (timeout_sync s) = (if tlist s \<noteq> 0 then t_time (tmo s (tlist s)) else dln s)"
  by (simp_all add: timeout_sync_def timer_set_dln_def timer_stop_def)

lemma timeout_find_spec:
  assumes "dlinks (\<lambda>x. t_next (m x)) pv p xs 0" "0 \<notin> set xs"
  shows "timeout_find m t p (first xs 0) = Some (lst p (takeWhile (\<lambda>y. t_time (m y) < t) xs))"
  using assms
proof (induction xs arbitrary: p)
  case Nil
  then show ?case by (simp add: timeout_find.simps)
next
  case (Cons x xs)
  then show ?case by (subst timeout_find.simps) (auto simp: not_less)
qed

lemma sorted_tl_insert:
  assumes "sorted (map tm xs)" "tm x = t"
  shows "sorted (map tm (tl_insert tm t x xs))"
proof -
  have d: "\<forall>y\<in>set (dropWhile (\<lambda>y. tm y < t) xs). t \<le> tm y"
    using assms(1) by (induction xs) (auto simp: not_less)
  have "sorted (map tm (takeWhile (\<lambda>y. tm y < t) xs @ dropWhile (\<lambda>y. tm y < t) xs))" using assms(1) by simp
  then have "sorted (map tm (takeWhile (\<lambda>y. tm y < t) xs))" "sorted (map tm (dropWhile (\<lambda>y. tm y < t) xs))"
    unfolding map_append sorted_append by blast+
  then show ?thesis using d assms(2) unfolding tl_insert_def by (fastforce simp: sorted_append dest: set_takeWhileD)
qed

text \<open>Linking a timeout behind the elements \<open>p\<close>, where the search has stopped.\<close>

lemma timeout_enqueue_links:
  assumes d: "dll (tnext s) (tprev s) (p @ q)" and x: "x \<notin> set (p @ q)" "x \<noteq> 0" "tprev s x = 0" "tnext s x = 0" and h: "tlist s = first (p @ q) 0"
    and find: "timeout_find (tmo (upd_tmo x (\<lambda>y. y\<lparr>t_time := t\<rparr>) s)) t 0 (tlist s) = Some (lst 0 p)"
  obtains s' where "timeout_enqueue x t s = Some s'" "dll (tnext s') (tprev s') (p @ x # q)" "tlist s' = first (p @ x # q) 0"
    "timers.more s' = timers.more s" "dln s' = (if p = [] then t else dln s)" "\<And>y. ttime s' y = (if y = x then t else ttime s y)"
    "\<And>y. y \<notin> set (p @ x # q) \<Longrightarrow> tprev s' y = tprev s y \<and> tnext s' y = tnext s y"
proof -
  have nz: "0 \<notin> set p" "0 \<notin> set q" using d by (auto simp: dll_def)
  have xl: "x \<noteq> tlist s" using h x by (cases p; cases q) auto
  have fq: "first q 0 \<noteq> 0 \<longleftrightarrow> q \<noteq> []" "lst 0 p \<noteq> 0 \<longleftrightarrow> p \<noteq> []" using first_nz [OF nz(2)] lst_nz [OF nz(1)] by auto
  have lx: "lst 0 p \<noteq> x" "first q 0 \<noteq> x" using x by (auto simp: lst_def first_def split: list.splits)
  have nl: "p \<noteq> [] \<Longrightarrow> tnext s (lst 0 p) = first q 0" by (rule dll_last [OF d])
  obtain s' where s': "timeout_enqueue x t s = Some s'"
    "\<And>y. tnext s' y = (if y = x then first q 0 else if y = lst 0 p \<and> p \<noteq> [] then x else tnext s y)"
    "\<And>y. tprev s' y = (if y = x then lst 0 p else if y = first q 0 \<and> q \<noteq> [] then x else tprev s y)"
    "\<And>y. ttime s' y = (if y = x then t else ttime s y)" "tlist s' = first (p @ x # q) 0" "timers.more s' = timers.more s" "dln s' = (if p = [] then t else dln s)"
  proof (cases "p = []")
    case True
    then show ?thesis using that find xl x(2-4) h fq(1) lx(2) by (simp add: timeout_enqueue_def Let_def)
  next
    case False
    then have "first (p @ x # q) 0 = tlist s" using h by (cases p) auto
    then show ?thesis using that find xl x(2-4) fq lx nl False by (simp add: timeout_enqueue_def Let_def)
  qed
  have dl: "dll (tnext s') (tprev s') (p @ x # q)"
  proof (rule dll_insert [OF d x(1,2)])
    fix y assume "y \<in> set (p @ q)"
    then have "y \<noteq> 0" "y \<noteq> x" using nz x(1) by auto
    then show "tnext s' y = (if y = lst 0 p then x else tnext s y)" "tprev s' y = (if y = first q 0 then x else tprev s y)"
      using s'(2,3) [of y] fq by metis+
  qed (use s'(2,3) in simp_all)
  have fr: "tprev s' y = tprev s y \<and> tnext s' y = tnext s y" if "y \<notin> set (p @ x # q)" for y
  proof -
    have "y \<noteq> x" "p \<noteq> [] \<Longrightarrow> y \<noteq> lst 0 p" "q \<noteq> [] \<Longrightarrow> y \<noteq> first q 0" using that by (auto simp: lst_def first_def split: list.splits)
    then show ?thesis using s'(2,3) [of y] by metis
  qed
  show ?thesis by (rule that [OF s'(1) dl s'(5,6,7,4) fr])
qed

text \<open>Enqueueing inserts into the sorted list and programs the deadline of its head.\<close>

lemma timeout_enqueue_spec:
  assumes r: "trep s xs" and x: "x \<notin> set xs" "x \<noteq> 0"
  shows "\<exists>s'. timeout_enqueue x t s = Some s' \<and> trep s' (tl_insert (ttime s) t x xs) \<and> timers.more s' = timers.more s \<and>
    (\<forall>y. ttime s' y = (if y = x then t else ttime s y))"
proof -
  define p q where pq: "p = takeWhile (\<lambda>y. ttime s y < t) xs" "q = dropWhile (\<lambda>y. ttime s y < t) xs"
  then have xs: "xs = p @ q" and ins: "tl_insert (ttime s) t x xs = p @ x # q" by (auto simp: tl_insert_def)
  have d: "dll (tnext s) (tprev s) (p @ q)" and h: "tlist s = first (p @ q) 0" and fr: "tprev s x = 0" "tnext s x = 0"
    and so: "sorted (map (ttime s) (p @ q))" and dl: "p @ q \<noteq> [] \<Longrightarrow> dln s = ttime s (hd (p @ q))"
    and out: "\<And>y. y \<notin> set (p @ q) \<Longrightarrow> tprev s y = 0 \<and> tnext s y = 0"
    using r x unfolding xs by (auto simp: trep_def)
  have nz: "0 \<notin> set (p @ q)" "x \<notin> set (p @ q)" using d x xs by (auto simp: dll_def)
  let ?s1 = "upd_tmo x (\<lambda>y. y\<lparr>t_time := t\<rparr>) s"
  have tw: "takeWhile (\<lambda>y. t_time (tmo ?s1 y) < t) (p @ q) = p"
    using x unfolding xs [symmetric] by (subst pq(1)) (intro takeWhile_cong, auto)
  have "dll (tnext ?s1) (tprev ?s1) (p @ q) = dll (tnext s) (tprev s) (p @ q)" by (rule dll_cong) simp
  then have "dlinks (\<lambda>y. t_next (tmo ?s1 y)) (tprev ?s1) 0 (p @ q) 0" using d unfolding dll_def by blast
  from timeout_find_spec [OF this nz(1), of t] have find: "timeout_find (tmo ?s1) t 0 (tlist s) = Some (lst 0 p)" by (simp only: tw h)
  from timeout_enqueue_links [OF d nz(2) x(2) fr h find] obtain s' where
    s': "timeout_enqueue x t s = Some s'" "dll (tnext s') (tprev s') (p @ x # q)" "tlist s' = first (p @ x # q) 0"
      "timers.more s' = timers.more s" "dln s' = (if p = [] then t else dln s)" and tm: "\<And>y. ttime s' y = (if y = x then t else ttime s y)"
      and fr': "\<And>y. y \<notin> set (p @ x # q) \<Longrightarrow> tprev s' y = tprev s y \<and> tnext s' y = tnext s y" by blast
  have "map (ttime s') (p @ x # q) = map ((ttime s)(x := t)) (p @ x # q)" using tm by auto
  moreover have "sorted (map ((ttime s)(x := t)) (tl_insert ((ttime s)(x := t)) t x (p @ q)))"
    using so nz(2) by (intro sorted_tl_insert) (simp_all add: map_fun_upd)
  moreover have "tl_insert ((ttime s)(x := t)) t x (p @ q) = p @ x # q"
  proof -
    have "takeWhile (\<lambda>y. ((ttime s)(x := t)) y < t) xs = p" "dropWhile (\<lambda>y. ((ttime s)(x := t)) y < t) xs = q"
      unfolding pq using x by (intro takeWhile_cong dropWhile_cong; auto)+
    then show ?thesis unfolding xs [symmetric] tl_insert_def by simp
  qed
  ultimately have "sorted (map (ttime s') (p @ x # q))" by (simp only:)
  moreover have "dln s' = ttime s' (hd (p @ x # q))" using s'(5) tm dl nz(2) by (cases p) auto
  ultimately have "trep s' (p @ x # q)" unfolding trep_def using s'(2,3) fr' out by auto
  then show ?thesis using s'(1,4) tm ins by auto
qed
text \<open>Dequeueing removes a timeout; one that is not pending is left as it is.\<close>

lemma timeout_dequeue_idle:
  assumes r: "trep s xs" and x: "x \<notin> set xs" "x \<noteq> 0"
  shows "timeout_dequeue x s = Some (ttime s x, s)"
proof -
  have p: "tprev s x = 0" "tnext s x = 0" "tlist s = first xs 0" using r x by (auto simp: trep_def)
  have "tlist s \<noteq> x" using p(3) x by (cases xs) auto
  then show ?thesis using p by (simp add: timeout_dequeue_def Let_def)
qed

lemma timeout_unlink_links:
  assumes d: "dll (tnext s) (tprev s) (p @ x # q)" and s': "s' = timeout_unlink x s"
  shows "dll (tnext s') (tprev s') (p @ q)" "tlist s' = (if p = [] then first q 0 else tlist s)" "timers.more s' = timers.more s"
    "dln s' = (if p = [] \<and> q \<noteq> [] then ttime s (first q 0) else dln s)" "\<And>y. ttime s' y = ttime s y" "tprev s' x = 0" "tnext s' x = 0"
    "\<And>y. y \<notin> set (p @ x # q) \<Longrightarrow> tprev s' y = tprev s y \<and> tnext s' y = tnext s y"
proof -
  have nz: "0 \<notin> set p" "0 \<notin> set q" "x \<noteq> 0" "x \<notin> set p" "x \<notin> set q" using d by (auto simp: dll_def)
  note m = dll_mid [OF d]
  have e: "first q 0 \<noteq> 0 \<longleftrightarrow> q \<noteq> []" "lst 0 p \<noteq> 0 \<longleftrightarrow> p \<noteq> []" using first_nz [OF nz(2)] lst_nz [OF nz(1)] by auto
  have lx: "lst 0 p \<noteq> x" "first q 0 \<noteq> x" using nz by (auto simp: lst_def first_def split: list.splits)
  have l: "tnext s' y = (if y = x then 0 else if y = lst 0 p \<and> p \<noteq> [] then first q 0 else tnext s y)"
    "tprev s' y = (if y = x then 0 else if y = first q 0 \<and> q \<noteq> [] then lst 0 p else tprev s y)" for y
    unfolding s' using m e lx by (auto simp: timeout_unlink_def Let_def)
  show "dll (tnext s') (tprev s') (p @ q)"
  proof (rule dll_remove [OF d])
    fix y assume "y \<in> set (p @ q)"
    then have "y \<noteq> 0" "y \<noteq> x" using nz by auto
    then show "tnext s' y = (if y = lst 0 p then first q 0 else tnext s y)" "tprev s' y = (if y = first q 0 then lst 0 p else tprev s y)"
      using l [of y] e by metis+
  qed
  show "tprev s' y = tprev s y \<and> tnext s' y = tnext s y" if "y \<notin> set (p @ x # q)" for y
  proof -
    have "y \<noteq> x" "p \<noteq> [] \<Longrightarrow> y \<noteq> lst 0 p" "q \<noteq> [] \<Longrightarrow> y \<noteq> first q 0" using that by (auto simp: lst_def first_def split: list.splits)
    then show ?thesis using l [of y] by metis
  qed
  show "tprev s' x = 0" "tnext s' x = 0" using l [of x] by simp_all
  show "tlist s' = (if p = [] then first q 0 else tlist s)" "timers.more s' = timers.more s" "\<And>y. ttime s' y = ttime s y"
    "dln s' = (if p = [] \<and> q \<noteq> [] then ttime s (first q 0) else dln s)"
    unfolding s' using m e by (auto simp: timeout_unlink_def Let_def)
qed

lemma timeout_dequeue_spec:
  assumes r: "trep s xs" and x: "x \<in> set xs"
  shows "\<exists>s'. timeout_dequeue x s = Some (ttime s x, s') \<and> trep s' (remove1 x xs) \<and> timers.more s' = timers.more s \<and> (\<forall>y. ttime s' y = ttime s y)"
proof -
  from x obtain p q where xs: "xs = p @ x # q" by (meson split_list)
  have d: "dll (tnext s) (tprev s) (p @ x # q)" and h: "tlist s = first xs 0" and so: "sorted (map (ttime s) xs)" and dl: "dln s = ttime s (hd xs)"
    and out: "\<And>y. y \<notin> set xs \<Longrightarrow> tprev s y = 0 \<and> tnext s y = 0" using r x xs by (auto simp: trep_def)
  have nz: "0 \<notin> set p" "x \<noteq> 0" "x \<notin> set p" "x \<notin> set q" using d by (auto simp: dll_def)
  define s' where s': "s' = timeout_unlink x s"
  note u = timeout_unlink_links [OF d s']
  have "tlist s = x \<or> tprev s x \<noteq> 0" using h xs dll_mid(2) [OF d] lst_nz [OF nz(1)] by (cases p) auto
  moreover have "x \<noteq> tlist s'" using u(2) h xs nz by (cases p; cases q) auto
  ultimately have run: "timeout_dequeue x s = Some (ttime s x, s')"
    using u(5-7) unfolding timeout_dequeue_def s' [symmetric] by (simp add: Let_def)
  have rm: "remove1 x xs = p @ q" using xs nz by (simp add: remove1_append)
  have "map (ttime s') (p @ q) = map (ttime s) (p @ q)" using u(5) by simp
  moreover have "sorted (map (ttime s) (p @ q))" using so xs by (auto simp: sorted_append)
  moreover have "p @ q \<noteq> [] \<longrightarrow> dln s' = ttime s' (hd (p @ q))" using u(4,5) dl xs by (cases p; cases q) auto
  moreover have "tlist s' = first (p @ q) 0" using u(2) h xs by (cases p) auto
  moreover have "tprev s' y = 0 \<and> tnext s' y = 0" if "y \<notin> set (p @ q)" for y
    using that u(6,7) u(8) [of y] out [of y] xs by (cases "y = x") auto
  ultimately have "trep s' (p @ q)" using u(1) unfolding trep_def by metis
  then show ?thesis using run rm u(3,5) by auto
qed

section \<open>The timer interrupt\<close>

text \<open>
  What the timer interrupt relies on: \<open>pend s xs\<close> says that the state is well formed with the timeouts \<open>xs\<close> pending, and triggering the
  first one after it has been dequeued succeeds and leaves the others pending.
\<close>

locale timeout_handler =
  fixes pend :: "'a timers_scheme \<Rightarrow> u64 list \<Rightarrow> bool"
    and trig :: "u64 \<Rightarrow> 'a timers_scheme \<Rightarrow> 'a timers_scheme option"
    and fired :: "u64 \<Rightarrow> 'a timers_scheme \<Rightarrow> bool"
  assumes pend_trep: "pend s xs \<Longrightarrow> trep s xs"
    and trig_ok: "pend s (x # xs) \<Longrightarrow> timeout_dequeue x s = Some (t, s1) \<Longrightarrow>
      \<exists>s2. trig x s1 = Some s2 \<and> pend s2 xs \<and> tmo s2 = tmo s1 \<and> fired x s2 \<and> (\<forall>y. fired y s \<longrightarrow> fired y s2)"
begin

lemma check_ok:
  assumes "pend s xs"
  shows "\<exists>n s'. timeout_check trig clk i s = Some s' \<and> pend s' (drop n xs) \<and> n \<le> length xs \<and>
    (\<forall>k<n. ttime s (xs ! k) \<le> clk (i + k)) \<and> (n < length xs \<longrightarrow> clk (i + n) < ttime s (xs ! n)) \<and>
    (\<forall>k<n. fired (xs ! k) s') \<and> (\<forall>y. fired y s \<longrightarrow> fired y s')"
  using assms
proof (induction xs arbitrary: s i)
  case Nil
  then have "tlist s = 0" using pend_trep [of s "[]"] by (simp add: trep_def)
  then show ?case using Nil by (intro exI [of _ 0] exI [of _ s]) (simp add: timeout_check.simps)
next
  case (Cons x xs)
  have r: "trep s (x # xs)" by (rule pend_trep [OF Cons.prems])
  then have h: "tlist s = x" "x \<noteq> 0" by (auto simp: trep_def dll_def)
  show ?case
  proof (cases "ttime s x \<le> clk i")
    case False
    then show ?thesis using h Cons.prems by (intro exI [of _ 0] exI [of _ s]) (simp add: timeout_check.simps)
  next
    case True
    from timeout_dequeue_spec [OF r, of x] obtain s1 where s1: "timeout_dequeue x s = Some (ttime s x, s1)" "\<forall>y. ttime s1 y = ttime s y" by auto
    from trig_ok [OF Cons.prems s1(1)] obtain s2 where s2: "trig x s1 = Some s2" "pend s2 xs" "tmo s2 = tmo s1" "fired x s2" "\<forall>y. fired y s \<longrightarrow> fired y s2" by blast
    from Cons.IH [OF s2(2), of "Suc i"] obtain n s' where
      n: "timeout_check trig clk (Suc i) s2 = Some s'" "pend s' (drop n xs)" "n \<le> length xs" "\<forall>k<n. ttime s2 (xs ! k) \<le> clk (Suc i + k)"
        "n < length xs \<longrightarrow> clk (Suc i + n) < ttime s2 (xs ! n)" "\<forall>k<n. fired (xs ! k) s'" "\<forall>y. fired y s2 \<longrightarrow> fired y s'" by blast
    have "timeout_check trig clk i s = Some s'" using h True s1(1) s2(1) n(1) by (subst timeout_check.simps) simp
    moreover have "ttime s ((x # xs) ! k) \<le> clk (i + k)" if "k < Suc n" for k
      using that n(4) True s1(2) s2(3) by (cases k) auto
    moreover have "fired ((x # xs) ! k) s'" if "k < Suc n" for k using that n(6,7) s2(4) by (cases k) auto
    ultimately show ?thesis using n(2,3,5,7) s1(2) s2(3,5) by (intro exI [of _ "Suc n"] exI [of _ s']) simp
  qed
qed

end

text \<open>
  C23: \<open>Timeout::enqueue\<close> of a timeout that is not pending passes its assertions and terminates; it inserts the timeout in front of
  the first pending one that is not earlier, keeps the list sorted and programs the timer for the earliest deadline.
\<close>

theorem timeout_enqueue_sorted:
  assumes "trep s xs" "x \<notin> set xs" "x \<noteq> 0"
  shows "\<exists>s'. timeout_enqueue x t s = Some s' \<and> trep s' (tl_insert (ttime s) t x xs) \<and> sorted (map (ttime s') (tl_insert (ttime s) t x xs)) \<and>
    dln s' = ttime s' (hd (tl_insert (ttime s) t x xs)) \<and> (\<forall>y. ttime s' y = (if y = x then t else ttime s y))"
proof -
  have "tl_insert (ttime s) t x xs \<noteq> []" by (simp add: tl_insert_def)
  with timeout_enqueue_spec [OF assms, of t] show ?thesis unfolding trep_def by blast
qed

definition timers0 :: timers where
  "timers0 = \<lparr>tmo = (\<lambda>_. \<lparr>t_time = 0, t_prev = 0, t_next = 0\<rparr>), tlist = 0, dln = 0\<rparr>"

lemma timers0_rep: "trep timers0 []"
  by (simp add: trep_def timers0_def)

theorem timeout_enqueue_sorted_witness:
  "\<exists>s'. timeout_enqueue 0x1000 50 timers0 = Some s' \<and> trep s' [0x1000] \<and> dln s' = 50"
  using timeout_enqueue_sorted [OF timers0_rep, of "0x1000" 50] by (auto simp: tl_insert_def)

text \<open>
  \<open>Timeout::dequeue\<close> undoes \<open>Timeout::enqueue\<close>: a timeout enqueued with a deadline is dequeued with this deadline, the other timeouts stay
  pending in their order, and a second dequeue changes nothing.
\<close>

theorem timeout_dequeue_enqueue:
  assumes "trep s xs" "x \<notin> set xs" "x \<noteq> 0"
  shows "\<exists>s1 s2. timeout_enqueue x t s = Some s1 \<and> timeout_dequeue x s1 = Some (t, s2) \<and> trep s2 xs \<and> timeout_dequeue x s2 = Some (t, s2)"
proof -
  let ?ys = "tl_insert (ttime s) t x xs"
  from timeout_enqueue_spec [OF assms, of t] obtain s1 where
    s1: "timeout_enqueue x t s = Some s1" "trep s1 ?ys" "ttime s1 x = t" by auto
  have x: "x \<in> set ?ys" and rm: "remove1 x ?ys = xs"
    using assms(2) by (auto simp: tl_insert_def remove1_append dest: set_takeWhileD)
  from timeout_dequeue_spec [OF s1(2) x] obtain s2 where
    s2: "timeout_dequeue x s1 = Some (t, s2)" "trep s2 xs" "ttime s2 x = t" using s1(3) rm by auto
  from timeout_dequeue_idle [OF s2(2) assms(2,3)] s2 s1 show ?thesis by auto
qed

theorem timeout_dequeue_enqueue_witness:
  "\<exists>s1 s2. timeout_enqueue 0x1000 50 timers0 = Some s1 \<and> timeout_dequeue 0x1000 s1 = Some (50, s2) \<and> trep s2 []"
  using timeout_dequeue_enqueue [OF timers0_rep, of "0x1000" 50] by auto

text \<open>
  Converting a wall-clock budget to ticks does not wrap for clock frequencies below 4.2 GHz, and gives at least one
  tick for every millisecond when the frequency is at least 1 kHz.
\<close>

lemma ms_to_ticks_exact:
  assumes "unat freq < 2 ^ 32"
  shows "unat (ms_to_ticks freq ms) = unat freq * unat ms div 1000 \<and> (1000 \<le> unat freq \<longrightarrow> unat ms \<le> unat (ms_to_ticks freq ms))"
proof -
  have m: "unat ms < 2 ^ 32" using unsigned_less [of ms] by simp
  have "unat freq * unat ms < 2 ^ 32 * 2 ^ 32" using assms m by (intro mult_strict_mono) auto
  moreover have "take_bit 64 (unat ms) = unat ms" using m by (intro take_bit_nat_eq_self) simp
  ultimately have "unat (freq * ucast ms) = unat freq * unat ms"
    by (simp add: unat_word_ariths unsigned_ucast_eq unsigned_take_bit_eq)
  then have e: "unat (ms_to_ticks freq ms) = unat freq * unat ms div 1000" by (simp add: ms_to_ticks_def unat_div)
  moreover have "unat ms \<le> unat freq * unat ms div 1000" if "1000 \<le> unat freq"
    using div_le_mono [OF mult_le_mono1 [OF that, of "unat ms"], of 1000] by simp
  ultimately show ?thesis by simp
qed

end
