(* ===== verification/Nova_Struct.thy ===== *)
theory Nova_Struct
  imports Nova_Prelude
begin

text \<open>
  Structures in memory: a field is its byte offset and size, the memory is a function from the addresses of 64-bit words to their contents, and fields
  do not cross a word boundary. The UTCB of \<^verbatim>\<open>inc/x86_64/utcb_arch.hpp\<close> and the VMCB of \<^verbatim>\<open>inc/x86_64/svm.hpp\<close> are such structures, so that the words that
  IPC copies and the fields that state transfer reads are the same memory.
\<close>

type_synonym field = "nat \<times> nat"
type_synonym memory = "u64 \<Rightarrow> u64"

definition fword :: "field \<Rightarrow> nat" where
  "fword f = fst f div 8"

definition fshift :: "field \<Rightarrow> nat" where
  "fshift f = 8 * (fst f mod 8)"

definition sget :: "memory \<Rightarrow> u64 \<Rightarrow> field \<Rightarrow> u64" where
  "sget m b f = take_bit (8 * snd f) (drop_bit (fshift f) (m (b + of_nat (8 * fword f))))"

definition sset :: "u64 \<Rightarrow> field \<Rightarrow> u64 \<Rightarrow> memory \<Rightarrow> memory" where
  "sset b f v m =
     (let w = b + of_nat (8 * fword f)
      in m(w := (m w AND NOT (push_bit (fshift f) (mask (8 * snd f)))) OR push_bit (fshift f) (take_bit (8 * snd f) v)))"

text \<open>A block of assignments, in order.\<close>

definition puts :: "u64 \<Rightarrow> (field \<times> u64) list \<Rightarrow> memory \<Rightarrow> memory" where
  "puts b xs m = fold (\<lambda>(f, v). sset b f v) xs m"

definition field_ok :: "field \<Rightarrow> bool" where
  "field_ok f \<longleftrightarrow> fst f < 4096 \<and> fst f mod 8 + snd f \<le> 8"

definition disjoint_fields :: "field \<Rightarrow> field \<Rightarrow> bool" where
  "disjoint_fields f g \<longleftrightarrow> fst f + snd f \<le> fst g \<or> fst g + snd g \<le> fst f"

lemma fword_inj:
  assumes "field_ok f" "field_ok g" "b + of_nat (8 * fword f) = (b + of_nat (8 * fword g) :: u64)"
  shows "fword f = fword g"
proof -
  have lt: "8 * fword f < 4096" "8 * fword g < 4096" using assms(1,2) by (auto simp: field_ok_def fword_def)
  have "(of_nat (8 * fword f) :: u64) = of_nat (8 * fword g)" using assms(3) by simp
  then have "unat (of_nat (8 * fword f) :: u64) = unat (of_nat (8 * fword g) :: u64)" by simp
  moreover have "unat (of_nat k :: u64) = k" if "k < 4096" for k using that by (simp add: unat_of_nat take_bit_nat_eq_self)
  ultimately have "8 * fword f = 8 * fword g" using lt by metis
  then show ?thesis by simp
qed

lemma sget_sset_same: "field_ok f \<Longrightarrow> sget (sset b f v m) b f = take_bit (8 * snd f) v"
  by (rule bit_word_eqI)
    (auto simp: sget_def sset_def Let_def field_ok_def fshift_def bit_take_bit_iff bit_drop_bit_eq bit_or_iff bit_and_iff bit_not_iff bit_push_bit_iff bit_mask_iff)

lemma sget_sset_other:
  assumes "field_ok f" "field_ok g" "disjoint_fields f g"
  shows "sget (sset b f v m) b g = sget m b g"
proof (cases "fword f = fword g")
  case False
  then have "b + of_nat (8 * fword f) \<noteq> (b + of_nat (8 * fword g) :: u64)" using fword_inj [OF assms(1,2), of b] by blast
  then show ?thesis by (simp add: sget_def sset_def Let_def)
next
  case True
  have "fst f = 8 * fword f + fst f mod 8" "fst g = 8 * fword g + fst g mod 8" by (simp_all add: fword_def)
  then have d: "fst f mod 8 + snd f \<le> fst g mod 8 \<or> fst g mod 8 + snd g \<le> fst f mod 8"
    using assms(3) True by (simp add: disjoint_fields_def) linarith
  show ?thesis
  proof (rule bit_word_eqI)
    fix n
    have "n < 8 * snd g \<Longrightarrow> fshift g + n < fshift f \<or> fshift f + 8 * snd f \<le> fshift g + n" using d by (auto simp: fshift_def)
    moreover have "n < 8 * snd g \<Longrightarrow> fshift g + n < 64" using assms(2) by (auto simp: field_ok_def fshift_def)
    ultimately show "bit (sget (sset b f v m) b g) n = bit (sget m b g) n"
      using True by (auto simp: sget_def sset_def Let_def bit_take_bit_iff bit_drop_bit_eq bit_or_iff bit_and_iff bit_not_iff bit_push_bit_iff bit_mask_iff)
  qed
qed

text \<open>The words of the page that no field of a block touches, and other pages, keep their contents.\<close>

lemma sset_frame: "w \<noteq> b + of_nat (8 * fword f) \<Longrightarrow> sset b f v m w = m w"
  by (simp add: sset_def Let_def)

text \<open>A layout: the fields of a structure in the order of their offsets, without overlap.\<close>

fun layout :: "field list \<Rightarrow> bool" where
  "layout [] \<longleftrightarrow> True"
| "layout [f] \<longleftrightarrow> field_ok f"
| "layout (f # g # fs) \<longleftrightarrow> field_ok f \<and> fst f + snd f \<le> fst g \<and> 0 < snd f \<and> layout (g # fs)"

lemma layout_after: "layout (f # fs) \<Longrightarrow> g \<in> set fs \<Longrightarrow> fst f + snd f \<le> fst g"
proof (induction fs arbitrary: f)
  case (Cons h fs)
  then show ?case by (cases "g = h") (force dest: Cons.IH)+
qed simp

lemma layout_Cons: "layout (f # fs) \<Longrightarrow> layout fs \<and> field_ok f"
  by (cases fs) auto

lemma layout_fields:
  assumes "layout fs" "f \<in> set fs"
  shows "field_ok f" and "g \<in> set fs \<Longrightarrow> f \<noteq> g \<Longrightarrow> disjoint_fields f g"
proof -
  show "field_ok f" using assms
  proof (induction fs)
    case (Cons h fs)
    then show ?case using layout_Cons [OF Cons.prems(1)] by auto
  qed simp
  show "disjoint_fields f g" if "g \<in> set fs" "f \<noteq> g"
    using assms that
  proof (induction fs)
    case (Cons h fs)
    then show ?case using layout_after [OF Cons.prems(1), of f] layout_after [OF Cons.prems(1), of g] layout_Cons [OF Cons.prems(1)]
      by (auto simp: disjoint_fields_def)
  qed simp
qed

text \<open>Reading a field after a block of assignments to fields of the same layout: the last assigned value, or what was there.\<close>

lemma puts_Nil [simp]: "puts b [] m = m"
  and puts_Cons: "puts b ((f, v) # xs) m = puts b xs (sset b f v m)"
  and puts_append: "puts b (xs @ ys) m = puts b ys (puts b xs m)"
  by (simp_all add: puts_def)

lemma sget_puts:
  assumes "layout fs" "fst ` set xs \<subseteq> set fs" "f \<in> set fs" "distinct (map fst xs)"
  shows "sget (puts b xs m) b f = (case map_of xs f of Some v \<Rightarrow> take_bit (8 * snd f) v | None \<Rightarrow> sget m b f)"
  using assms(2,4)
proof (induction xs arbitrary: m)
  case (Cons a xs)
  obtain g v where a: "a = (g, v)" by fastforce
  have g: "g \<in> set fs" "field_ok g" using Cons.prems(1) a layout_fields(1) [OF assms(1), of g] by auto
  have IH: "sget (puts b xs (sset b g v m)) b f = (case map_of xs f of Some v \<Rightarrow> take_bit (8 * snd f) v | None \<Rightarrow> sget (sset b g v m) b f)"
    using Cons by auto
  show ?case
  proof (cases "g = f")
    case True
    then have "map_of xs f = None" using Cons.prems(2) a by (auto simp: map_of_eq_None_iff)
    then show ?thesis using IH True a g(2) by (simp add: puts_Cons sget_sset_same)
  next
    case False
    then have "sget (sset b g v m) b f = sget m b f"
      using sget_sset_other [OF g(2) layout_fields(1) [OF assms(1,3)]] layout_fields(2) [OF assms(1) g(1) assms(3)] by blast
    then show ?thesis using IH False a by (simp add: puts_Cons split: option.splits)
  qed
qed simp

lemma puts_frame:
  assumes "\<forall>f\<in>fst ` set xs. field_ok f" "\<forall>k<512. w \<noteq> b + of_nat (8 * k)"
  shows "puts b xs m w = m w"
  using assms(1)
proof (induction xs arbitrary: m)
  case (Cons a xs)
  obtain f v where a: "a = (f, v)" by fastforce
  then have "fword f < 512" using Cons.prems by (auto simp: field_ok_def fword_def)
  then have "w \<noteq> b + of_nat (8 * fword f)" using assms(2) by blast
  then show ?case using Cons by (simp add: a puts_Cons sset_frame)
qed simp

end
