(* ===== verification/Nova_Vmx.thy ===== *)
theory Nova_Vmx
  imports Nova_Struct
begin

text \<open>
  \<^verbatim>\<open>inc/x86_64/vmx.hpp\<close>, \<^verbatim>\<open>inc/x86_64/svm.hpp\<close>: the virtual-machine control structures. A VMCS is a function from field encodings to
  values, accessed by \<^verbatim>\<open>VMREAD\<close> and \<^verbatim>\<open>VMWRITE\<close>, whose width is part of the encoding; a VMCB is a structure in memory.
\<close>

section \<open>Field encodings of the VMCS\<close>

type_synonym encoding = nat


text \<open>16-Bit Control Fields\<close>

definition VMCS_VPID :: encoding where "VMCS_VPID = 0x0000"
definition VMCS_POSTED_INT_NOTIFICATION :: encoding where "VMCS_POSTED_INT_NOTIFICATION = 0x0002"
definition VMCS_EPTP_INDEX :: encoding where "VMCS_EPTP_INDEX = 0x0004"
definition VMCS_HLAT_PREFIX_SIZE :: encoding where "VMCS_HLAT_PREFIX_SIZE = 0x0006"
definition VMCS_LAST_PID_PTR :: encoding where "VMCS_LAST_PID_PTR = 0x0008"

text \<open>16-Bit Guest State Fields\<close>

definition VMCS_GUEST_SEL_ES :: encoding where "VMCS_GUEST_SEL_ES = 0x0800"
definition VMCS_GUEST_SEL_CS :: encoding where "VMCS_GUEST_SEL_CS = 0x0802"
definition VMCS_GUEST_SEL_SS :: encoding where "VMCS_GUEST_SEL_SS = 0x0804"
definition VMCS_GUEST_SEL_DS :: encoding where "VMCS_GUEST_SEL_DS = 0x0806"
definition VMCS_GUEST_SEL_FS :: encoding where "VMCS_GUEST_SEL_FS = 0x0808"
definition VMCS_GUEST_SEL_GS :: encoding where "VMCS_GUEST_SEL_GS = 0x080a"
definition VMCS_GUEST_SEL_LDTR :: encoding where "VMCS_GUEST_SEL_LDTR = 0x080c"
definition VMCS_GUEST_SEL_TR :: encoding where "VMCS_GUEST_SEL_TR = 0x080e"
definition VMCS_GUEST_INT_STATUS :: encoding where "VMCS_GUEST_INT_STATUS = 0x0810"
definition VMCS_PML_INDEX :: encoding where "VMCS_PML_INDEX = 0x0812"
definition VMCS_GUEST_UINV :: encoding where "VMCS_GUEST_UINV = 0x0814"

text \<open>16-Bit Host State Fields\<close>

definition VMCS_HOST_SEL_ES :: encoding where "VMCS_HOST_SEL_ES = 0x0c00"
definition VMCS_HOST_SEL_CS :: encoding where "VMCS_HOST_SEL_CS = 0x0c02"
definition VMCS_HOST_SEL_SS :: encoding where "VMCS_HOST_SEL_SS = 0x0c04"
definition VMCS_HOST_SEL_DS :: encoding where "VMCS_HOST_SEL_DS = 0x0c06"
definition VMCS_HOST_SEL_FS :: encoding where "VMCS_HOST_SEL_FS = 0x0c08"
definition VMCS_HOST_SEL_GS :: encoding where "VMCS_HOST_SEL_GS = 0x0c0a"
definition VMCS_HOST_SEL_TR :: encoding where "VMCS_HOST_SEL_TR = 0x0c0c"

text \<open>64-Bit Control Fields\<close>

definition VMCS_BITMAP_IO_A :: encoding where "VMCS_BITMAP_IO_A = 0x2000"
definition VMCS_BITMAP_IO_B :: encoding where "VMCS_BITMAP_IO_B = 0x2002"
definition VMCS_BITMAP_MSR :: encoding where "VMCS_BITMAP_MSR = 0x2004"
definition VMCS_EXI_MSR_ST_ADDR :: encoding where "VMCS_EXI_MSR_ST_ADDR = 0x2006"
definition VMCS_EXI_MSR_LD_ADDR :: encoding where "VMCS_EXI_MSR_LD_ADDR = 0x2008"
definition VMCS_ENT_MSR_LD_ADDR :: encoding where "VMCS_ENT_MSR_LD_ADDR = 0x200a"
definition VMCS_EXEC_VMCS_PTR :: encoding where "VMCS_EXEC_VMCS_PTR = 0x200c"
definition VMCS_PML_ADDRESS :: encoding where "VMCS_PML_ADDRESS = 0x200e"
definition VMCS_TSC_OFFSET :: encoding where "VMCS_TSC_OFFSET = 0x2010"
definition VMCS_APIC_VIRT_ADDR :: encoding where "VMCS_APIC_VIRT_ADDR = 0x2012"
definition VMCS_APIC_ACCS_ADDR :: encoding where "VMCS_APIC_ACCS_ADDR = 0x2014"
definition VMCS_POSTED_INT_DESC_ADDR :: encoding where "VMCS_POSTED_INT_DESC_ADDR = 0x2016"
definition VMCS_VMFUNC_CONTROLS :: encoding where "VMCS_VMFUNC_CONTROLS = 0x2018"
definition VMCS_EPTP :: encoding where "VMCS_EPTP = 0x201a"
definition VMCS_BITMAP_EOI0 :: encoding where "VMCS_BITMAP_EOI0 = 0x201c"
definition VMCS_BITMAP_EOI1 :: encoding where "VMCS_BITMAP_EOI1 = 0x201e"
definition VMCS_BITMAP_EOI2 :: encoding where "VMCS_BITMAP_EOI2 = 0x2020"
definition VMCS_BITMAP_EOI3 :: encoding where "VMCS_BITMAP_EOI3 = 0x2022"
definition VMCS_EPTP_LIST :: encoding where "VMCS_EPTP_LIST = 0x2024"
definition VMCS_BITMAP_VMREAD :: encoding where "VMCS_BITMAP_VMREAD = 0x2026"
definition VMCS_BITMAP_VMWRITE :: encoding where "VMCS_BITMAP_VMWRITE = 0x2028"
definition VMCS_VE_INFO_ADDRESS :: encoding where "VMCS_VE_INFO_ADDRESS = 0x202a"
definition VMCS_BITMAP_XSS :: encoding where "VMCS_BITMAP_XSS = 0x202c"
definition VMCS_BITMAP_ENCLS :: encoding where "VMCS_BITMAP_ENCLS = 0x202e"
definition VMCS_SPP_TABLE_PTR :: encoding where "VMCS_SPP_TABLE_PTR = 0x2030"
definition VMCS_TSC_MULTIPLIER :: encoding where "VMCS_TSC_MULTIPLIER = 0x2032"
definition VMCS_CPU_CONTROLS_TER :: encoding where "VMCS_CPU_CONTROLS_TER = 0x2034"
definition VMCS_BITMAP_ENCLV :: encoding where "VMCS_BITMAP_ENCLV = 0x2036"
definition VMCS_PASID_DIR_ADDR_LO :: encoding where "VMCS_PASID_DIR_ADDR_LO = 0x2038"
definition VMCS_PASID_DIR_ADDR_HI :: encoding where "VMCS_PASID_DIR_ADDR_HI = 0x203a"
definition VMCS_SHARED_EPTP :: encoding where "VMCS_SHARED_EPTP = 0x203c"
definition VMCS_BITMAP_PCONFIG :: encoding where "VMCS_BITMAP_PCONFIG = 0x203e"
definition VMCS_HLATP :: encoding where "VMCS_HLATP = 0x2040"
definition VMCS_PID_PTR :: encoding where "VMCS_PID_PTR = 0x2042"
definition VMCS_EXI_CONTROLS_SEC :: encoding where "VMCS_EXI_CONTROLS_SEC = 0x2044"
definition VMCS_INJ_EVENT_DATA :: encoding where "VMCS_INJ_EVENT_DATA = 0x2052"

text \<open>64-Bit R/O Data Fields\<close>

definition VMCS_GUEST_PHYSICAL_ADDRESS :: encoding where "VMCS_GUEST_PHYSICAL_ADDRESS = 0x2400"
definition VMCS_ORG_EVENT_DATA :: encoding where "VMCS_ORG_EVENT_DATA = 0x2404"

text \<open>64-Bit Guest State Fields\<close>

definition VMCS_VMCS_LINK_PTR :: encoding where "VMCS_VMCS_LINK_PTR = 0x2800"
definition VMCS_GUEST_DEBUGCTL :: encoding where "VMCS_GUEST_DEBUGCTL = 0x2802"
definition VMCS_GUEST_PAT :: encoding where "VMCS_GUEST_PAT = 0x2804"
definition VMCS_GUEST_EFER :: encoding where "VMCS_GUEST_EFER = 0x2806"
definition VMCS_GUEST_PERF_GLOBAL_CTRL :: encoding where "VMCS_GUEST_PERF_GLOBAL_CTRL = 0x2808"
definition VMCS_GUEST_PDPTE0 :: encoding where "VMCS_GUEST_PDPTE0 = 0x280a"
definition VMCS_GUEST_PDPTE1 :: encoding where "VMCS_GUEST_PDPTE1 = 0x280c"
definition VMCS_GUEST_PDPTE2 :: encoding where "VMCS_GUEST_PDPTE2 = 0x280e"
definition VMCS_GUEST_PDPTE3 :: encoding where "VMCS_GUEST_PDPTE3 = 0x2810"
definition VMCS_GUEST_BNDCFGS :: encoding where "VMCS_GUEST_BNDCFGS = 0x2812"
definition VMCS_GUEST_RTIT_CTL :: encoding where "VMCS_GUEST_RTIT_CTL = 0x2814"
definition VMCS_GUEST_LBR_CTL :: encoding where "VMCS_GUEST_LBR_CTL = 0x2816"
definition VMCS_GUEST_PKRS :: encoding where "VMCS_GUEST_PKRS = 0x2818"
definition VMCS_GUEST_FRED_CONFIG :: encoding where "VMCS_GUEST_FRED_CONFIG = 0x281a"
definition VMCS_GUEST_FRED_RSP1 :: encoding where "VMCS_GUEST_FRED_RSP1 = 0x281c"
definition VMCS_GUEST_FRED_RSP2 :: encoding where "VMCS_GUEST_FRED_RSP2 = 0x281e"
definition VMCS_GUEST_FRED_RSP3 :: encoding where "VMCS_GUEST_FRED_RSP3 = 0x2820"
definition VMCS_GUEST_FRED_STKLVLS :: encoding where "VMCS_GUEST_FRED_STKLVLS = 0x2822"
definition VMCS_GUEST_FRED_SSP1 :: encoding where "VMCS_GUEST_FRED_SSP1 = 0x2824"
definition VMCS_GUEST_FRED_SSP2 :: encoding where "VMCS_GUEST_FRED_SSP2 = 0x2826"
definition VMCS_GUEST_FRED_SSP3 :: encoding where "VMCS_GUEST_FRED_SSP3 = 0x2828"
definition VMCS_GUEST_FMASK :: encoding where "VMCS_GUEST_FMASK = 0x282a"
definition VMCS_GUEST_PL0_SSP :: encoding where "VMCS_GUEST_PL0_SSP = 0x282c"

text \<open>64-Bit Host State Fields\<close>

definition VMCS_HOST_PAT :: encoding where "VMCS_HOST_PAT = 0x2c00"
definition VMCS_HOST_EFER :: encoding where "VMCS_HOST_EFER = 0x2c02"
definition VMCS_HOST_PERF_GLOBAL_CTRL :: encoding where "VMCS_HOST_PERF_GLOBAL_CTRL = 0x2c04"
definition VMCS_HOST_PKRS :: encoding where "VMCS_HOST_PKRS = 0x2c06"
definition VMCS_HOST_FRED_CONFIG :: encoding where "VMCS_HOST_FRED_CONFIG = 0x2c08"
definition VMCS_HOST_FRED_RSP1 :: encoding where "VMCS_HOST_FRED_RSP1 = 0x2c0a"
definition VMCS_HOST_FRED_RSP2 :: encoding where "VMCS_HOST_FRED_RSP2 = 0x2c0c"
definition VMCS_HOST_FRED_RSP3 :: encoding where "VMCS_HOST_FRED_RSP3 = 0x2c0e"
definition VMCS_HOST_FRED_STKLVLS :: encoding where "VMCS_HOST_FRED_STKLVLS = 0x2c10"
definition VMCS_HOST_FRED_SSP1 :: encoding where "VMCS_HOST_FRED_SSP1 = 0x2c12"
definition VMCS_HOST_FRED_SSP2 :: encoding where "VMCS_HOST_FRED_SSP2 = 0x2c14"
definition VMCS_HOST_FRED_SSP3 :: encoding where "VMCS_HOST_FRED_SSP3 = 0x2c16"
definition VMCS_HOST_FMASK :: encoding where "VMCS_HOST_FMASK = 0x2c18"

text \<open>32-Bit Control Fields\<close>

definition VMCS_PIN_CONTROLS :: encoding where "VMCS_PIN_CONTROLS = 0x4000"
definition VMCS_CPU_CONTROLS_PRI :: encoding where "VMCS_CPU_CONTROLS_PRI = 0x4002"
definition VMCS_BITMAP_EXC :: encoding where "VMCS_BITMAP_EXC = 0x4004"
definition VMCS_PF_ERROR_MASK :: encoding where "VMCS_PF_ERROR_MASK = 0x4006"
definition VMCS_PF_ERROR_MATCH :: encoding where "VMCS_PF_ERROR_MATCH = 0x4008"
definition VMCS_CR3_TARGET_COUNT :: encoding where "VMCS_CR3_TARGET_COUNT = 0x400a"
definition VMCS_EXI_CONTROLS_PRI :: encoding where "VMCS_EXI_CONTROLS_PRI = 0x400c"
definition VMCS_EXI_MSR_ST_CNT :: encoding where "VMCS_EXI_MSR_ST_CNT = 0x400e"
definition VMCS_EXI_MSR_LD_CNT :: encoding where "VMCS_EXI_MSR_LD_CNT = 0x4010"
definition VMCS_ENT_CONTROLS :: encoding where "VMCS_ENT_CONTROLS = 0x4012"
definition VMCS_ENT_MSR_LD_CNT :: encoding where "VMCS_ENT_MSR_LD_CNT = 0x4014"
definition VMCS_INJ_EVENT_IDENT :: encoding where "VMCS_INJ_EVENT_IDENT = 0x4016"
definition VMCS_INJ_EVENT_ERROR :: encoding where "VMCS_INJ_EVENT_ERROR = 0x4018"
definition VMCS_ENT_INST_LEN :: encoding where "VMCS_ENT_INST_LEN = 0x401a"
definition VMCS_TPR_THRESHOLD :: encoding where "VMCS_TPR_THRESHOLD = 0x401c"
definition VMCS_CPU_CONTROLS_SEC :: encoding where "VMCS_CPU_CONTROLS_SEC = 0x401e"
definition VMCS_PLE_GAP :: encoding where "VMCS_PLE_GAP = 0x4020"
definition VMCS_PLE_WINDOW :: encoding where "VMCS_PLE_WINDOW = 0x4022"
definition VMCS_NOTIFY_WINDOW :: encoding where "VMCS_NOTIFY_WINDOW = 0x4024"

text \<open>32-Bit R/O Data Fields\<close>

definition VMCS_VMX_INST_ERROR :: encoding where "VMCS_VMX_INST_ERROR = 0x4400"
definition VMCS_EXI_REASON :: encoding where "VMCS_EXI_REASON = 0x4402"
definition VMCS_EXI_EVENT_IDENT :: encoding where "VMCS_EXI_EVENT_IDENT = 0x4404"
definition VMCS_EXI_EVENT_ERROR :: encoding where "VMCS_EXI_EVENT_ERROR = 0x4406"
definition VMCS_ORG_EVENT_IDENT :: encoding where "VMCS_ORG_EVENT_IDENT = 0x4408"
definition VMCS_ORG_EVENT_ERROR :: encoding where "VMCS_ORG_EVENT_ERROR = 0x440a"
definition VMCS_EXI_INST_LEN :: encoding where "VMCS_EXI_INST_LEN = 0x440c"
definition VMCS_EXI_INST_INFO :: encoding where "VMCS_EXI_INST_INFO = 0x440e"

text \<open>32-Bit Guest State Fields\<close>

definition VMCS_GUEST_LIMIT_ES :: encoding where "VMCS_GUEST_LIMIT_ES = 0x4800"
definition VMCS_GUEST_LIMIT_CS :: encoding where "VMCS_GUEST_LIMIT_CS = 0x4802"
definition VMCS_GUEST_LIMIT_SS :: encoding where "VMCS_GUEST_LIMIT_SS = 0x4804"
definition VMCS_GUEST_LIMIT_DS :: encoding where "VMCS_GUEST_LIMIT_DS = 0x4806"
definition VMCS_GUEST_LIMIT_FS :: encoding where "VMCS_GUEST_LIMIT_FS = 0x4808"
definition VMCS_GUEST_LIMIT_GS :: encoding where "VMCS_GUEST_LIMIT_GS = 0x480a"
definition VMCS_GUEST_LIMIT_LDTR :: encoding where "VMCS_GUEST_LIMIT_LDTR = 0x480c"
definition VMCS_GUEST_LIMIT_TR :: encoding where "VMCS_GUEST_LIMIT_TR = 0x480e"
definition VMCS_GUEST_LIMIT_GDTR :: encoding where "VMCS_GUEST_LIMIT_GDTR = 0x4810"
definition VMCS_GUEST_LIMIT_IDTR :: encoding where "VMCS_GUEST_LIMIT_IDTR = 0x4812"
definition VMCS_GUEST_AR_ES :: encoding where "VMCS_GUEST_AR_ES = 0x4814"
definition VMCS_GUEST_AR_CS :: encoding where "VMCS_GUEST_AR_CS = 0x4816"
definition VMCS_GUEST_AR_SS :: encoding where "VMCS_GUEST_AR_SS = 0x4818"
definition VMCS_GUEST_AR_DS :: encoding where "VMCS_GUEST_AR_DS = 0x481a"
definition VMCS_GUEST_AR_FS :: encoding where "VMCS_GUEST_AR_FS = 0x481c"
definition VMCS_GUEST_AR_GS :: encoding where "VMCS_GUEST_AR_GS = 0x481e"
definition VMCS_GUEST_AR_LDTR :: encoding where "VMCS_GUEST_AR_LDTR = 0x4820"
definition VMCS_GUEST_AR_TR :: encoding where "VMCS_GUEST_AR_TR = 0x4822"
definition VMCS_GUEST_INTR_STATE :: encoding where "VMCS_GUEST_INTR_STATE = 0x4824"
definition VMCS_GUEST_ACTV_STATE :: encoding where "VMCS_GUEST_ACTV_STATE = 0x4826"
definition VMCS_GUEST_SMBASE :: encoding where "VMCS_GUEST_SMBASE = 0x4828"
definition VMCS_GUEST_SYSENTER_CS :: encoding where "VMCS_GUEST_SYSENTER_CS = 0x482a"
definition VMCS_PREEMPTION_TIMER :: encoding where "VMCS_PREEMPTION_TIMER = 0x482e"

text \<open>32-Bit Host State Fields\<close>

definition VMCS_HOST_SYSENTER_CS :: encoding where "VMCS_HOST_SYSENTER_CS = 0x4c00"

text \<open>Natural-Width Control Fields\<close>

definition VMCS_CR0_MASK :: encoding where "VMCS_CR0_MASK = 0x6000"
definition VMCS_CR4_MASK :: encoding where "VMCS_CR4_MASK = 0x6002"
definition VMCS_CR0_READ_SHADOW :: encoding where "VMCS_CR0_READ_SHADOW = 0x6004"
definition VMCS_CR4_READ_SHADOW :: encoding where "VMCS_CR4_READ_SHADOW = 0x6006"
definition VMCS_CR3_TARGET_0 :: encoding where "VMCS_CR3_TARGET_0 = 0x6008"
definition VMCS_CR3_TARGET_1 :: encoding where "VMCS_CR3_TARGET_1 = 0x600a"
definition VMCS_CR3_TARGET_2 :: encoding where "VMCS_CR3_TARGET_2 = 0x600c"
definition VMCS_CR3_TARGET_3 :: encoding where "VMCS_CR3_TARGET_3 = 0x600e"

text \<open>Natural-Width R/O Data Fields\<close>

definition VMCS_EXI_QUALIFICATION :: encoding where "VMCS_EXI_QUALIFICATION = 0x6400"
definition VMCS_IO_RCX :: encoding where "VMCS_IO_RCX = 0x6402"
definition VMCS_IO_RSI :: encoding where "VMCS_IO_RSI = 0x6404"
definition VMCS_IO_RDI :: encoding where "VMCS_IO_RDI = 0x6406"
definition VMCS_IO_RIP :: encoding where "VMCS_IO_RIP = 0x6408"
definition VMCS_GUEST_LINEAR_ADDRESS :: encoding where "VMCS_GUEST_LINEAR_ADDRESS = 0x640a"

text \<open>Natural-Width Guest State Fields\<close>

definition VMCS_GUEST_CR0 :: encoding where "VMCS_GUEST_CR0 = 0x6800"
definition VMCS_GUEST_CR3 :: encoding where "VMCS_GUEST_CR3 = 0x6802"
definition VMCS_GUEST_CR4 :: encoding where "VMCS_GUEST_CR4 = 0x6804"
definition VMCS_GUEST_BASE_ES :: encoding where "VMCS_GUEST_BASE_ES = 0x6806"
definition VMCS_GUEST_BASE_CS :: encoding where "VMCS_GUEST_BASE_CS = 0x6808"
definition VMCS_GUEST_BASE_SS :: encoding where "VMCS_GUEST_BASE_SS = 0x680a"
definition VMCS_GUEST_BASE_DS :: encoding where "VMCS_GUEST_BASE_DS = 0x680c"
definition VMCS_GUEST_BASE_FS :: encoding where "VMCS_GUEST_BASE_FS = 0x680e"
definition VMCS_GUEST_BASE_GS :: encoding where "VMCS_GUEST_BASE_GS = 0x6810"
definition VMCS_GUEST_BASE_LDTR :: encoding where "VMCS_GUEST_BASE_LDTR = 0x6812"
definition VMCS_GUEST_BASE_TR :: encoding where "VMCS_GUEST_BASE_TR = 0x6814"
definition VMCS_GUEST_BASE_GDTR :: encoding where "VMCS_GUEST_BASE_GDTR = 0x6816"
definition VMCS_GUEST_BASE_IDTR :: encoding where "VMCS_GUEST_BASE_IDTR = 0x6818"
definition VMCS_GUEST_DR7 :: encoding where "VMCS_GUEST_DR7 = 0x681a"
definition VMCS_GUEST_RSP :: encoding where "VMCS_GUEST_RSP = 0x681c"
definition VMCS_GUEST_RIP :: encoding where "VMCS_GUEST_RIP = 0x681e"
definition VMCS_GUEST_RFLAGS :: encoding where "VMCS_GUEST_RFLAGS = 0x6820"
definition VMCS_GUEST_PENDING_DEBUG :: encoding where "VMCS_GUEST_PENDING_DEBUG = 0x6822"
definition VMCS_GUEST_SYSENTER_ESP :: encoding where "VMCS_GUEST_SYSENTER_ESP = 0x6824"
definition VMCS_GUEST_SYSENTER_EIP :: encoding where "VMCS_GUEST_SYSENTER_EIP = 0x6826"
definition VMCS_GUEST_S_CET :: encoding where "VMCS_GUEST_S_CET = 0x6828"
definition VMCS_GUEST_SSP :: encoding where "VMCS_GUEST_SSP = 0x682a"
definition VMCS_GUEST_SSP_TABLE_ADDR :: encoding where "VMCS_GUEST_SSP_TABLE_ADDR = 0x682c"

text \<open>Natural-Width Host State Fields\<close>

definition VMCS_HOST_CR0 :: encoding where "VMCS_HOST_CR0 = 0x6c00"
definition VMCS_HOST_CR3 :: encoding where "VMCS_HOST_CR3 = 0x6c02"
definition VMCS_HOST_CR4 :: encoding where "VMCS_HOST_CR4 = 0x6c04"
definition VMCS_HOST_BASE_FS :: encoding where "VMCS_HOST_BASE_FS = 0x6c06"
definition VMCS_HOST_BASE_GS :: encoding where "VMCS_HOST_BASE_GS = 0x6c08"
definition VMCS_HOST_BASE_TR :: encoding where "VMCS_HOST_BASE_TR = 0x6c0a"
definition VMCS_HOST_BASE_GDTR :: encoding where "VMCS_HOST_BASE_GDTR = 0x6c0c"
definition VMCS_HOST_BASE_IDTR :: encoding where "VMCS_HOST_BASE_IDTR = 0x6c0e"
definition VMCS_HOST_SYSENTER_ESP :: encoding where "VMCS_HOST_SYSENTER_ESP = 0x6c10"
definition VMCS_HOST_SYSENTER_EIP :: encoding where "VMCS_HOST_SYSENTER_EIP = 0x6c12"
definition VMCS_HOST_RSP :: encoding where "VMCS_HOST_RSP = 0x6c14"
definition VMCS_HOST_RIP :: encoding where "VMCS_HOST_RIP = 0x6c16"
definition VMCS_HOST_S_CET :: encoding where "VMCS_HOST_S_CET = 0x6c18"
definition VMCS_HOST_SSP :: encoding where "VMCS_HOST_SSP = 0x6c1a"
definition VMCS_HOST_SSP_TABLE_ADDR :: encoding where "VMCS_HOST_SSP_TABLE_ADDR = 0x6c1c"

lemmas vmcs_defs =
  VMCS_VPID_def VMCS_POSTED_INT_NOTIFICATION_def VMCS_EPTP_INDEX_def VMCS_HLAT_PREFIX_SIZE_def VMCS_LAST_PID_PTR_def VMCS_GUEST_SEL_ES_def
  VMCS_GUEST_SEL_CS_def VMCS_GUEST_SEL_SS_def VMCS_GUEST_SEL_DS_def VMCS_GUEST_SEL_FS_def VMCS_GUEST_SEL_GS_def VMCS_GUEST_SEL_LDTR_def
  VMCS_GUEST_SEL_TR_def VMCS_GUEST_INT_STATUS_def VMCS_PML_INDEX_def VMCS_GUEST_UINV_def VMCS_HOST_SEL_ES_def VMCS_HOST_SEL_CS_def
  VMCS_HOST_SEL_SS_def VMCS_HOST_SEL_DS_def VMCS_HOST_SEL_FS_def VMCS_HOST_SEL_GS_def VMCS_HOST_SEL_TR_def VMCS_BITMAP_IO_A_def
  VMCS_BITMAP_IO_B_def VMCS_BITMAP_MSR_def VMCS_EXI_MSR_ST_ADDR_def VMCS_EXI_MSR_LD_ADDR_def VMCS_ENT_MSR_LD_ADDR_def VMCS_EXEC_VMCS_PTR_def
  VMCS_PML_ADDRESS_def VMCS_TSC_OFFSET_def VMCS_APIC_VIRT_ADDR_def VMCS_APIC_ACCS_ADDR_def VMCS_POSTED_INT_DESC_ADDR_def VMCS_VMFUNC_CONTROLS_def
  VMCS_EPTP_def VMCS_BITMAP_EOI0_def VMCS_BITMAP_EOI1_def VMCS_BITMAP_EOI2_def VMCS_BITMAP_EOI3_def VMCS_EPTP_LIST_def
  VMCS_BITMAP_VMREAD_def VMCS_BITMAP_VMWRITE_def VMCS_VE_INFO_ADDRESS_def VMCS_BITMAP_XSS_def VMCS_BITMAP_ENCLS_def VMCS_SPP_TABLE_PTR_def
  VMCS_TSC_MULTIPLIER_def VMCS_CPU_CONTROLS_TER_def VMCS_BITMAP_ENCLV_def VMCS_PASID_DIR_ADDR_LO_def VMCS_PASID_DIR_ADDR_HI_def VMCS_SHARED_EPTP_def
  VMCS_BITMAP_PCONFIG_def VMCS_HLATP_def VMCS_PID_PTR_def VMCS_EXI_CONTROLS_SEC_def VMCS_INJ_EVENT_DATA_def VMCS_GUEST_PHYSICAL_ADDRESS_def
  VMCS_ORG_EVENT_DATA_def VMCS_VMCS_LINK_PTR_def VMCS_GUEST_DEBUGCTL_def VMCS_GUEST_PAT_def VMCS_GUEST_EFER_def VMCS_GUEST_PERF_GLOBAL_CTRL_def
  VMCS_GUEST_PDPTE0_def VMCS_GUEST_PDPTE1_def VMCS_GUEST_PDPTE2_def VMCS_GUEST_PDPTE3_def VMCS_GUEST_BNDCFGS_def VMCS_GUEST_RTIT_CTL_def
  VMCS_GUEST_LBR_CTL_def VMCS_GUEST_PKRS_def VMCS_GUEST_FRED_CONFIG_def VMCS_GUEST_FRED_RSP1_def VMCS_GUEST_FRED_RSP2_def VMCS_GUEST_FRED_RSP3_def
  VMCS_GUEST_FRED_STKLVLS_def VMCS_GUEST_FRED_SSP1_def VMCS_GUEST_FRED_SSP2_def VMCS_GUEST_FRED_SSP3_def VMCS_GUEST_FMASK_def VMCS_GUEST_PL0_SSP_def
  VMCS_HOST_PAT_def VMCS_HOST_EFER_def VMCS_HOST_PERF_GLOBAL_CTRL_def VMCS_HOST_PKRS_def VMCS_HOST_FRED_CONFIG_def VMCS_HOST_FRED_RSP1_def
  VMCS_HOST_FRED_RSP2_def VMCS_HOST_FRED_RSP3_def VMCS_HOST_FRED_STKLVLS_def VMCS_HOST_FRED_SSP1_def VMCS_HOST_FRED_SSP2_def VMCS_HOST_FRED_SSP3_def
  VMCS_HOST_FMASK_def VMCS_PIN_CONTROLS_def VMCS_CPU_CONTROLS_PRI_def VMCS_BITMAP_EXC_def VMCS_PF_ERROR_MASK_def VMCS_PF_ERROR_MATCH_def
  VMCS_CR3_TARGET_COUNT_def VMCS_EXI_CONTROLS_PRI_def VMCS_EXI_MSR_ST_CNT_def VMCS_EXI_MSR_LD_CNT_def VMCS_ENT_CONTROLS_def VMCS_ENT_MSR_LD_CNT_def
  VMCS_INJ_EVENT_IDENT_def VMCS_INJ_EVENT_ERROR_def VMCS_ENT_INST_LEN_def VMCS_TPR_THRESHOLD_def VMCS_CPU_CONTROLS_SEC_def VMCS_PLE_GAP_def
  VMCS_PLE_WINDOW_def VMCS_NOTIFY_WINDOW_def VMCS_VMX_INST_ERROR_def VMCS_EXI_REASON_def VMCS_EXI_EVENT_IDENT_def VMCS_EXI_EVENT_ERROR_def
  VMCS_ORG_EVENT_IDENT_def VMCS_ORG_EVENT_ERROR_def VMCS_EXI_INST_LEN_def VMCS_EXI_INST_INFO_def VMCS_GUEST_LIMIT_ES_def VMCS_GUEST_LIMIT_CS_def
  VMCS_GUEST_LIMIT_SS_def VMCS_GUEST_LIMIT_DS_def VMCS_GUEST_LIMIT_FS_def VMCS_GUEST_LIMIT_GS_def VMCS_GUEST_LIMIT_LDTR_def VMCS_GUEST_LIMIT_TR_def
  VMCS_GUEST_LIMIT_GDTR_def VMCS_GUEST_LIMIT_IDTR_def VMCS_GUEST_AR_ES_def VMCS_GUEST_AR_CS_def VMCS_GUEST_AR_SS_def VMCS_GUEST_AR_DS_def
  VMCS_GUEST_AR_FS_def VMCS_GUEST_AR_GS_def VMCS_GUEST_AR_LDTR_def VMCS_GUEST_AR_TR_def VMCS_GUEST_INTR_STATE_def VMCS_GUEST_ACTV_STATE_def
  VMCS_GUEST_SMBASE_def VMCS_GUEST_SYSENTER_CS_def VMCS_PREEMPTION_TIMER_def VMCS_HOST_SYSENTER_CS_def VMCS_CR0_MASK_def VMCS_CR4_MASK_def
  VMCS_CR0_READ_SHADOW_def VMCS_CR4_READ_SHADOW_def VMCS_CR3_TARGET_0_def VMCS_CR3_TARGET_1_def VMCS_CR3_TARGET_2_def VMCS_CR3_TARGET_3_def
  VMCS_EXI_QUALIFICATION_def VMCS_IO_RCX_def VMCS_IO_RSI_def VMCS_IO_RDI_def VMCS_IO_RIP_def VMCS_GUEST_LINEAR_ADDRESS_def
  VMCS_GUEST_CR0_def VMCS_GUEST_CR3_def VMCS_GUEST_CR4_def VMCS_GUEST_BASE_ES_def VMCS_GUEST_BASE_CS_def VMCS_GUEST_BASE_SS_def
  VMCS_GUEST_BASE_DS_def VMCS_GUEST_BASE_FS_def VMCS_GUEST_BASE_GS_def VMCS_GUEST_BASE_LDTR_def VMCS_GUEST_BASE_TR_def VMCS_GUEST_BASE_GDTR_def
  VMCS_GUEST_BASE_IDTR_def VMCS_GUEST_DR7_def VMCS_GUEST_RSP_def VMCS_GUEST_RIP_def VMCS_GUEST_RFLAGS_def VMCS_GUEST_PENDING_DEBUG_def
  VMCS_GUEST_SYSENTER_ESP_def VMCS_GUEST_SYSENTER_EIP_def VMCS_GUEST_S_CET_def VMCS_GUEST_SSP_def VMCS_GUEST_SSP_TABLE_ADDR_def VMCS_HOST_CR0_def
  VMCS_HOST_CR3_def VMCS_HOST_CR4_def VMCS_HOST_BASE_FS_def VMCS_HOST_BASE_GS_def VMCS_HOST_BASE_TR_def VMCS_HOST_BASE_GDTR_def
  VMCS_HOST_BASE_IDTR_def VMCS_HOST_SYSENTER_ESP_def VMCS_HOST_SYSENTER_EIP_def VMCS_HOST_RSP_def VMCS_HOST_RIP_def VMCS_HOST_S_CET_def
  VMCS_HOST_SSP_def VMCS_HOST_SSP_TABLE_ADDR_def

section \<open>Accessing the VMCS\<close>

type_synonym vmcs = "encoding \<Rightarrow> u64"

text \<open>Bits 14 and 13 of an encoding are the width of the field: 16, 64, 32 bits or natural width. Writing a narrower field ignores the high bits.\<close>

definition vmcs_width :: "encoding \<Rightarrow> nat" where
  "vmcs_width e = (let w = e div 0x2000 mod 4 in if w = 0 then 16 else if w = 2 then 32 else 64)"

definition vmcs_read :: "vmcs \<Rightarrow> encoding \<Rightarrow> u64" where
  "vmcs_read m e = m e"

definition vmcs_write :: "encoding \<Rightarrow> u64 \<Rightarrow> vmcs \<Rightarrow> vmcs" where
  "vmcs_write e v m = m(e := take_bit (vmcs_width e) v)"

definition vmcs_puts :: "(encoding \<times> u64) list \<Rightarrow> vmcs \<Rightarrow> vmcs" where
  "vmcs_puts xs m = fold (\<lambda>(e, v). vmcs_write e v) xs m"

lemma vmcs_puts_simps [simp]: "vmcs_puts [] m = m" "vmcs_puts ((e, v) # xs) m = vmcs_puts xs (vmcs_write e v m)"
  by (simp_all add: vmcs_puts_def)

lemma vmcs_read_write [simp]: "vmcs_read (vmcs_write e v m) f = (if f = e then take_bit (vmcs_width e) v else vmcs_read m f)"
  by (simp add: vmcs_read_def vmcs_write_def)

section \<open>Controls\<close>

text \<open>What the processor supports, read from its capability registers at boot.\<close>

record vmx_caps =
  cpu_pri_clr :: u32
  cpu_pri_set :: u32
  cpu_sec_clr :: u32
  cpu_sec_set :: u32
  cpu_ter_clr :: u64
  cpu_ter_set :: u64
  fix_cr0_clr :: u64
  fix_cr0_set :: u64
  fix_cr4_clr :: u64
  fix_cr4_set :: u64
  ept_vpid :: u64

definition VMX_ENT_GUEST_64 :: u32 where "VMX_ENT_GUEST_64 = BIT 9"
definition VMX_CPU_INTR_WINDOW :: u32 where "VMX_CPU_INTR_WINDOW = BIT 2"
definition VMX_CPU_TERTIARY :: u32 where "VMX_CPU_TERTIARY = BIT 17"
definition VMX_CPU_CR8_LOAD :: u32 where "VMX_CPU_CR8_LOAD = BIT 19"
definition VMX_CPU_CR8_STORE :: u32 where "VMX_CPU_CR8_STORE = BIT 20"
definition VMX_CPU_TPR_SHADOW :: u32 where "VMX_CPU_TPR_SHADOW = BIT 21"
definition VMX_CPU_NMI_WINDOW :: u32 where "VMX_CPU_NMI_WINDOW = BIT 22"
definition VMX_CPU_SECONDARY :: u32 where "VMX_CPU_SECONDARY = BIT 31"
definition VMX_CPU_EPT :: u32 where "VMX_CPU_EPT = BIT 1"
definition VMX_CPU_VPID :: u32 where "VMX_CPU_VPID = BIT 5"
definition VMX_CPU_URG :: u32 where "VMX_CPU_URG = BIT 7"
definition VMX_CPU_MBEC :: u32 where "VMX_CPU_MBEC = BIT 22"

definition has_cpu_sec :: "vmx_caps \<Rightarrow> bool" where "has_cpu_sec c \<longleftrightarrow> cpu_pri_clr c AND VMX_CPU_SECONDARY \<noteq> 0"
definition has_cpu_ter :: "vmx_caps \<Rightarrow> bool" where "has_cpu_ter c \<longleftrightarrow> cpu_pri_clr c AND VMX_CPU_TERTIARY \<noteq> 0"
definition has_ept :: "vmx_caps \<Rightarrow> bool" where "has_ept c \<longleftrightarrow> cpu_sec_clr c AND VMX_CPU_EPT \<noteq> 0"
definition has_vpid :: "vmx_caps \<Rightarrow> bool" where "has_vpid c \<longleftrightarrow> cpu_sec_clr c AND VMX_CPU_VPID \<noteq> 0"
definition has_urg :: "vmx_caps \<Rightarrow> bool" where "has_urg c \<longleftrightarrow> cpu_sec_clr c AND VMX_CPU_URG \<noteq> 0"
definition has_mbec :: "vmx_caps \<Rightarrow> bool" where "has_mbec c \<longleftrightarrow> cpu_sec_clr c AND VMX_CPU_MBEC \<noteq> 0"
definition has_invvpid_sgl :: "vmx_caps \<Rightarrow> bool" where "has_invvpid_sgl c \<longleftrightarrow> ept_vpid c AND BIT64 41 \<noteq> 0"

definition vmcs_vpid :: "vmx_caps \<Rightarrow> vmcs \<Rightarrow> u16" where
  "vmcs_vpid c m = (if has_vpid c then ucast (vmcs_read m VMCS_VPID) else 0)"

section \<open>Fields of the VMCB\<close>

definition VMCB_intercept_cr :: field where "VMCB_intercept_cr = (0x0, 4)"
definition VMCB_intercept_dr :: field where "VMCB_intercept_dr = (0x4, 4)"
definition VMCB_intercept_exc :: field where "VMCB_intercept_exc = (0x8, 4)"
definition VMCB_intercept_cpu0 :: field where "VMCB_intercept_cpu0 = (0xc, 4)"
definition VMCB_intercept_cpu1 :: field where "VMCB_intercept_cpu1 = (0x10, 4)"
definition VMCB_intercept_cpu2 :: field where "VMCB_intercept_cpu2 = (0x14, 4)"
definition VMCB_base_io :: field where "VMCB_base_io = (0x40, 8)"
definition VMCB_base_msr :: field where "VMCB_base_msr = (0x48, 8)"
definition VMCB_tsc_offset :: field where "VMCB_tsc_offset = (0x50, 8)"
definition VMCB_asid :: field where "VMCB_asid = (0x58, 4)"
definition VMCB_tlb_control :: field where "VMCB_tlb_control = (0x5c, 4)"
definition VMCB_int_control :: field where "VMCB_int_control = (0x60, 8)"
definition VMCB_int_shadow :: field where "VMCB_int_shadow = (0x68, 8)"
definition VMCB_exitcode :: field where "VMCB_exitcode = (0x70, 8)"
definition VMCB_exitinfo1 :: field where "VMCB_exitinfo1 = (0x78, 8)"
definition VMCB_exitinfo2 :: field where "VMCB_exitinfo2 = (0x80, 8)"
definition VMCB_exitintinfo :: field where "VMCB_exitintinfo = (0x88, 8)"
definition VMCB_npt_control :: field where "VMCB_npt_control = (0x90, 8)"
definition VMCB_inj_control :: field where "VMCB_inj_control = (0xa8, 8)"
definition VMCB_npt_cr3 :: field where "VMCB_npt_cr3 = (0xb0, 8)"
definition VMCB_lbr :: field where "VMCB_lbr = (0xb8, 8)"
definition VMCB_efer :: field where "VMCB_efer = (0x4d0, 8)"
definition VMCB_cr4 :: field where "VMCB_cr4 = (0x548, 8)"
definition VMCB_cr3 :: field where "VMCB_cr3 = (0x550, 8)"
definition VMCB_cr0 :: field where "VMCB_cr0 = (0x558, 8)"
definition VMCB_dr7 :: field where "VMCB_dr7 = (0x560, 8)"
definition VMCB_dr6 :: field where "VMCB_dr6 = (0x568, 8)"
definition VMCB_rflags :: field where "VMCB_rflags = (0x570, 8)"
definition VMCB_rip :: field where "VMCB_rip = (0x578, 8)"
definition VMCB_rsp :: field where "VMCB_rsp = (0x5d8, 8)"
definition VMCB_rax :: field where "VMCB_rax = (0x5f8, 8)"
definition VMCB_star :: field where "VMCB_star = (0x600, 8)"
definition VMCB_lstar :: field where "VMCB_lstar = (0x608, 8)"
definition VMCB_cstar :: field where "VMCB_cstar = (0x610, 8)"
definition VMCB_sfmask :: field where "VMCB_sfmask = (0x618, 8)"
definition VMCB_kernel_gs_base :: field where "VMCB_kernel_gs_base = (0x620, 8)"
definition VMCB_sysenter_cs :: field where "VMCB_sysenter_cs = (0x628, 8)"
definition VMCB_sysenter_esp :: field where "VMCB_sysenter_esp = (0x630, 8)"
definition VMCB_sysenter_eip :: field where "VMCB_sysenter_eip = (0x638, 8)"
definition VMCB_cr2 :: field where "VMCB_cr2 = (0x640, 8)"
definition VMCB_nrip :: field where "VMCB_nrip = (0x648, 8)"
definition VMCB_g_pat :: field where "VMCB_g_pat = (0x668, 8)"

text \<open>The segment registers, each 16 bytes: selector, attributes, limit and base.\<close>

definition VMCB_es :: nat where "VMCB_es = 0x400"
definition VMCB_cs :: nat where "VMCB_cs = 0x410"
definition VMCB_ss :: nat where "VMCB_ss = 0x420"
definition VMCB_ds :: nat where "VMCB_ds = 0x430"
definition VMCB_fs :: nat where "VMCB_fs = 0x440"
definition VMCB_gs :: nat where "VMCB_gs = 0x450"
definition VMCB_gdtr :: nat where "VMCB_gdtr = 0x460"
definition VMCB_ldtr :: nat where "VMCB_ldtr = 0x470"
definition VMCB_idtr :: nat where "VMCB_idtr = 0x480"
definition VMCB_tr :: nat where "VMCB_tr = 0x490"

lemmas vmcb_defs =
  VMCB_intercept_cr_def VMCB_intercept_dr_def VMCB_intercept_exc_def VMCB_intercept_cpu0_def VMCB_intercept_cpu1_def VMCB_intercept_cpu2_def VMCB_base_io_def VMCB_base_msr_def
  VMCB_tsc_offset_def VMCB_asid_def VMCB_tlb_control_def VMCB_int_control_def VMCB_int_shadow_def VMCB_exitcode_def VMCB_exitinfo1_def VMCB_exitinfo2_def
  VMCB_exitintinfo_def VMCB_npt_control_def VMCB_inj_control_def VMCB_npt_cr3_def VMCB_lbr_def VMCB_efer_def VMCB_cr4_def VMCB_cr3_def
  VMCB_cr0_def VMCB_dr7_def VMCB_dr6_def VMCB_rflags_def VMCB_rip_def VMCB_rsp_def VMCB_rax_def VMCB_star_def
  VMCB_lstar_def VMCB_cstar_def VMCB_sfmask_def VMCB_kernel_gs_base_def VMCB_sysenter_cs_def VMCB_sysenter_esp_def VMCB_sysenter_eip_def VMCB_cr2_def
  VMCB_nrip_def VMCB_g_pat_def VMCB_es_def VMCB_cs_def VMCB_ss_def VMCB_ds_def VMCB_fs_def VMCB_gs_def
  VMCB_gdtr_def VMCB_ldtr_def VMCB_idtr_def VMCB_tr_def

definition SVM_CPU_VINTR :: u32 where "SVM_CPU_VINTR = BIT 4"

text \<open>The intercepts that the hypervisor always requests.\<close>

definition force_ctrl0 :: u32 where
  "force_ctrl0 = BIT 0 OR BIT 1 OR BIT 3 OR BIT 22 OR BIT 24 OR BIT 27 OR BIT 28 OR BIT 31"

definition force_ctrl1 :: u32 where
  "force_ctrl1 = BIT 2 OR BIT 3 OR BIT 5 OR BIT 6"

end
