(* ===== verification/Nova_Regs.thy ===== *)
theory Nova_Regs
  imports Nova_Vmx
begin

text \<open>
  \<^verbatim>\<open>inc/x86_64/regs.hpp\<close>, \<^verbatim>\<open>src/x86_64/regs.cpp\<close>, the hazards of \<^verbatim>\<open>inc/hazard.hpp\<close> and the constraints on guest state of \<^verbatim>\<open>inc/x86_64/cpu.hpp\<close> and
  \<^verbatim>\<open>inc/x86_64/fpu.hpp\<close>: the register state of an execution context and how the control fields of a virtual CPU are derived from it.
\<close>

section \<open>Register state\<close>

datatype gpr = RAX | RCX | RDX | RBX | RBP | RSI | RDI | R8 | R9 | R10 | R11 | R12 | R13 | R14 | R15

text \<open>
  \<^verbatim>\<open>Exc_regs\<close> overlays the exception frame of threads with the control state of virtual CPUs; an EC only uses one of the two, except that
  the event selector \<open>vec\<close> belongs to both.
\<close>

record exc_regs =
  sys :: "gpr \<Rightarrow> u64"
  cr2 :: u64
  err :: u64
  vec :: u64
  rip :: u64
  cs :: u64
  rfl :: u64
  rsp :: u64
  ss :: u64
  offset_tsc :: u64
  shadow_cr0 :: u64
  shadow_cr4 :: u64
  intcpt_cr0 :: u64
  intcpt_cr4 :: u64
  intcpt_exc :: u32
  fpu_on :: bool

record cpu_state =
  star :: u64
  lstar :: u64
  fmask :: u64
  kernel_gs_base :: u64

record fpu_state =
  xcr :: u64
  xss :: u64

record cpu_regs =
  vmcb :: u64
  exc :: exc_regs
  cpu_st :: cpu_state
  fpu_st :: fpu_state
  r_obj :: u64
  r_hst :: u64
  r_gst :: u64
  r_pio :: u64
  r_msr :: u64
  r_hazard :: u32

section \<open>Hazards\<close>

definition HZD_SCHED :: u32 where "HZD_SCHED = BIT 0"
definition HZD_SLEEP :: u32 where "HZD_SLEEP = BIT 1"
definition HZD_RCU :: u32 where "HZD_RCU = BIT 2"
definition HZD_BOOT_HST :: u32 where "HZD_BOOT_HST = BIT 8"
definition HZD_BOOT_GST :: u32 where "HZD_BOOT_GST = BIT 9"
definition HZD_FPU :: u32 where "HZD_FPU = BIT 16"
definition HZD_TSC :: u32 where "HZD_TSC = BIT 29"
definition HZD_RECALL :: u32 where "HZD_RECALL = BIT 30"
definition HZD_ILLEGAL :: u32 where "HZD_ILLEGAL = BIT 31"

lemmas hazard_defs = HZD_SCHED_def HZD_SLEEP_def HZD_RCU_def HZD_BOOT_HST_def HZD_BOOT_GST_def HZD_FPU_def HZD_TSC_def HZD_RECALL_def HZD_ILLEGAL_def

section \<open>Register flags\<close>

definition RFL_VIP :: u64 where "RFL_VIP = BIT64 20"
definition RFL_VIF :: u64 where "RFL_VIF = BIT64 19"
definition RFL_AC :: u64 where "RFL_AC = BIT64 18"
definition RFL_VM :: u64 where "RFL_VM = BIT64 17"
definition RFL_RF :: u64 where "RFL_RF = BIT64 16"
definition RFL_NT :: u64 where "RFL_NT = BIT64 14"
definition RFL_IOPL :: u64 where "RFL_IOPL = BIT64_RANGE 13 12"
definition RFL_IF :: u64 where "RFL_IF = BIT64 9"
definition RFL_1 :: u64 where "RFL_1 = BIT64 1"
definition CR0_TS :: u64 where "CR0_TS = BIT64 3"
definition EFER_LMA :: u64 where "EFER_LMA = BIT64 10"
definition EXC_NM :: nat where "EXC_NM = 7"
definition EXC_AC :: nat where "EXC_AC = 17"

lemmas rfl_defs = RFL_VIP_def RFL_VIF_def RFL_AC_def RFL_VM_def RFL_RF_def RFL_NT_def RFL_IOPL_def RFL_IF_def RFL_1_def

section \<open>Control registers of a virtual CPU\<close>

text \<open>The bits of CR0 and CR4 that the hypervisor forces, and those that the guest does not own. SVM has no fixed bits.\<close>

definition set_cr0 :: "vmx_caps \<Rightarrow> exc_regs \<Rightarrow> u64" where
  "set_cr0 T e = fix_cr0_set T OR (if fpu_on e then 0 else CR0_TS)"

definition set_cr4 :: "vmx_caps \<Rightarrow> u64" where
  "set_cr4 T = fix_cr4_set T"

definition msk_cr0 :: "vmx_caps \<Rightarrow> exc_regs \<Rightarrow> u64" where
  "msk_cr0 T e = fix_cr0_clr T OR set_cr0 T e"

definition msk_cr4 :: "vmx_caps \<Rightarrow> u64" where
  "msk_cr4 T = fix_cr4_clr T OR set_cr4 T"

definition set_exc :: "exc_regs \<Rightarrow> u32" where
  "set_exc e = BIT EXC_AC OR (if fpu_on e then 0 else BIT EXC_NM)"

definition svm_caps :: vmx_caps where
  "svm_caps = \<lparr>cpu_pri_clr = 0, cpu_pri_set = 0, cpu_sec_clr = 0, cpu_sec_set = 0, cpu_ter_clr = 0, cpu_ter_set = 0,
     fix_cr0_clr = 0, fix_cr0_set = 0, fix_cr4_clr = 0, fix_cr4_set = 0, ept_vpid = 0\<rparr>"

definition vmx_get_gst_cr0 :: "vmx_caps \<Rightarrow> exc_regs \<Rightarrow> vmcs \<Rightarrow> u64" where
  "vmx_get_gst_cr0 T e m = (let msk = msk_cr0 T e in (vmcs_read m VMCS_GUEST_CR0 AND NOT msk) OR (shadow_cr0 e AND msk))"

definition vmx_get_gst_cr4 :: "vmx_caps \<Rightarrow> exc_regs \<Rightarrow> vmcs \<Rightarrow> u64" where
  "vmx_get_gst_cr4 T e m = (let msk = msk_cr4 T in (vmcs_read m VMCS_GUEST_CR4 AND NOT msk) OR (shadow_cr4 e AND msk))"

definition vmx_set_gst_cr0 :: "vmx_caps \<Rightarrow> u64 \<Rightarrow> exc_regs \<times> vmcs \<Rightarrow> exc_regs \<times> vmcs" where
  "vmx_set_gst_cr0 T v = (\<lambda>(e, m).
     (e\<lparr>shadow_cr0 := v\<rparr>, vmcs_puts [(VMCS_CR0_READ_SHADOW, v), (VMCS_GUEST_CR0, (v AND NOT (msk_cr0 T e)) OR set_cr0 T e)] m))"

definition vmx_set_gst_cr4 :: "vmx_caps \<Rightarrow> u64 \<Rightarrow> exc_regs \<times> vmcs \<Rightarrow> exc_regs \<times> vmcs" where
  "vmx_set_gst_cr4 T v = (\<lambda>(e, m).
     (e\<lparr>shadow_cr4 := v\<rparr>, vmcs_puts [(VMCS_CR4_READ_SHADOW, v), (VMCS_GUEST_CR4, (v AND NOT (msk_cr4 T)) OR set_cr4 T)] m))"

definition vmx_set_msk_cr0 :: "vmx_caps \<Rightarrow> exc_regs \<Rightarrow> vmcs \<Rightarrow> vmcs" where
  "vmx_set_msk_cr0 T e = vmcs_write VMCS_CR0_MASK (msk_cr0 T e OR intcpt_cr0 e)"

definition vmx_set_msk_cr4 :: "vmx_caps \<Rightarrow> exc_regs \<Rightarrow> vmcs \<Rightarrow> vmcs" where
  "vmx_set_msk_cr4 T e = vmcs_write VMCS_CR4_MASK (msk_cr4 T OR intcpt_cr4 e)"

definition vmx_set_bmp_exc :: "exc_regs \<Rightarrow> vmcs \<Rightarrow> vmcs" where
  "vmx_set_bmp_exc e = vmcs_write VMCS_BITMAP_EXC (ucast (set_exc e OR intcpt_exc e))"

definition vmx_set_cpu_pri :: "vmx_caps \<Rightarrow> u32 \<Rightarrow> vmcs \<Rightarrow> vmcs" where
  "vmx_set_cpu_pri T val =
     (let val = (if val AND VMX_CPU_TPR_SHADOW = 0 then val OR (VMX_CPU_CR8_LOAD OR VMX_CPU_CR8_STORE) else val)
      in vmcs_write VMCS_CPU_CONTROLS_PRI (ucast ((val OR cpu_pri_set T) AND cpu_pri_clr T)))"

definition vmx_set_cpu_sec :: "vmx_caps \<Rightarrow> u32 \<Rightarrow> vmcs \<Rightarrow> vmcs" where
  "vmx_set_cpu_sec T val = vmcs_write VMCS_CPU_CONTROLS_SEC (ucast ((val OR cpu_sec_set T) AND cpu_sec_clr T))"

definition vmx_set_cpu_ter :: "vmx_caps \<Rightarrow> u64 \<Rightarrow> vmcs \<Rightarrow> vmcs" where
  "vmx_set_cpu_ter T val = vmcs_write VMCS_CPU_CONTROLS_TER ((val OR cpu_ter_set T) AND cpu_ter_clr T)"

text \<open>The same for a VMCB at address \<open>v\<close>.\<close>

definition svm_set_bmp_exc :: "u64 \<Rightarrow> exc_regs \<Rightarrow> memory \<Rightarrow> memory" where
  "svm_set_bmp_exc v e = sset v VMCB_intercept_exc (ucast (set_exc e OR intcpt_exc e))"

definition svm_set_cpu_pri :: "u64 \<Rightarrow> exc_regs \<Rightarrow> u32 \<Rightarrow> memory \<Rightarrow> memory" where
  "svm_set_cpu_pri v e val =
     (let msk = (if msk_cr0 svm_caps e \<noteq> 0 then BIT 0 else 0) OR (if msk_cr4 svm_caps \<noteq> 0 then BIT 4 else 0) :: u32
      in puts v [(VMCB_npt_control, 1), (VMCB_intercept_cr, ucast (push_bit 16 msk OR msk)), (VMCB_intercept_cpu0, ucast (val OR force_ctrl0))])"

definition svm_set_cpu_sec :: "u64 \<Rightarrow> u32 \<Rightarrow> memory \<Rightarrow> memory" where
  "svm_set_cpu_sec v val = sset v VMCB_intercept_cpu1 (ucast (val OR force_ctrl1))"

text \<open>Switching the FPU of a virtual CPU on or off.\<close>

definition fpu_ctrl_vmx :: "vmx_caps \<Rightarrow> bool \<Rightarrow> exc_regs \<times> vmcs \<Rightarrow> exc_regs \<times> vmcs" where
  "fpu_ctrl_vmx T on = (\<lambda>(e, m).
     let cr0 = vmx_get_gst_cr0 T e m;
         (e, m) = vmx_set_gst_cr0 T cr0 (e\<lparr>fpu_on := on\<rparr>, m)
     in (e, vmx_set_bmp_exc e (vmx_set_msk_cr0 T e m)))"

definition fpu_ctrl_svm :: "u64 \<Rightarrow> bool \<Rightarrow> exc_regs \<times> memory \<Rightarrow> exc_regs \<times> memory" where
  "fpu_ctrl_svm v on = (\<lambda>(e, m).
     let e = e\<lparr>fpu_on := on\<rparr>; m = svm_set_bmp_exc v e m
     in (e, svm_set_cpu_pri v e (ucast (sget m v VMCB_intercept_cpu0)) m))"

section \<open>Constraints on guest state\<close>

definition constrain_canon :: "u64 \<Rightarrow> u64" where
  "constrain_canon v = signed_take_bit 47 v"

definition constrain_star :: "u64 \<Rightarrow> u64" where
  "constrain_star v = v AND BIT64_RANGE 63 32"

definition constrain_fmask :: "u64 \<Rightarrow> u64" where
  "constrain_fmask v = v AND BIT64_RANGE 31 0"

definition XSTATE_AVX512 :: u64 where "XSTATE_AVX512 = BIT64_RANGE 7 5"
definition XSTATE_AVX :: u64 where "XSTATE_AVX = BIT64 2"
definition XSTATE_SSE :: u64 where "XSTATE_SSE = BIT64 1"
definition XSTATE_X87 :: u64 where "XSTATE_X87 = BIT64 0"

definition constrain_xcr :: "u64 \<Rightarrow> u64 \<Rightarrow> u64" where
  "constrain_xcr hxcr v =
     (let v = (if v AND XSTATE_AVX512 \<noteq> 0 then v OR (XSTATE_AVX512 OR XSTATE_AVX) else v);
          v = (if v AND XSTATE_AVX \<noteq> 0 then v OR XSTATE_SSE else v);
          v = v OR XSTATE_X87
      in hxcr AND v)"

definition constrain_xss :: "u64 \<Rightarrow> u64 \<Rightarrow> u64" where
  "constrain_xss hxss v = hxss AND v"

text \<open>The register state of a new context, and the values that the instruction \<^verbatim>\<open>XSETBV\<close> accepts among the components NOVA manages.\<close>

definition exc_zero :: exc_regs where
  "exc_zero = \<lparr>sys = (\<lambda>_. 0), cr2 = 0, err = 0, vec = 0, rip = 0, cs = 0, rfl = 0, rsp = 0, ss = 0, offset_tsc = 0, shadow_cr0 = 0, shadow_cr4 = 0, intcpt_cr0 = 0, intcpt_cr4 = 0,
     intcpt_exc = 0, fpu_on = False\<rparr>"

definition xsetbv_ok :: "u64 \<Rightarrow> bool" where
  "xsetbv_ok x \<longleftrightarrow> bit x 0 \<and> (bit x 2 \<longrightarrow> bit x 1) \<and> (bit x 5 \<or> bit x 6 \<or> bit x 7 \<longrightarrow> bit x 5 \<and> bit x 6 \<and> bit x 7 \<and> bit x 2)"

lemma xs_bits: "bit XSTATE_AVX512 n \<longleftrightarrow> n \<in> {5, 6, 7}" "bit XSTATE_AVX n \<longleftrightarrow> n = 2" "bit XSTATE_SSE n \<longleftrightarrow> n = 1" "bit XSTATE_X87 n \<longleftrightarrow> n = 0"
proof -
  have e: "XSTATE_AVX512 = mask 8 AND NOT (mask 5)" by (simp add: XSTATE_AVX512_def BIT64_RANGE_def mask_numeral)
  have "bit XSTATE_AVX512 n \<longleftrightarrow> n < 8 \<and> \<not> n < 5" unfolding e bit_and_iff bit_not_iff bit_mask_iff by auto
  then show "bit XSTATE_AVX512 n \<longleftrightarrow> n \<in> {5, 6, 7}" by auto
qed (unfold XSTATE_AVX_def XSTATE_SSE_def XSTATE_X87_def BIT64_def bit_push_bit_iff bit_1_iff, auto)

section \<open>Control registers as the guest sees them\<close>

lemma take_bit_64 [simp]: "take_bit 64 (v :: u64) = v"
  by (rule bit_word_eqI) (auto simp: bit_take_bit_iff)

lemma vmcs_width_nat [simp]: "vmcs_width VMCS_GUEST_CR0 = 64" "vmcs_width VMCS_GUEST_CR4 = 64" "vmcs_width VMCS_CR0_READ_SHADOW = 64" "vmcs_width VMCS_CR4_READ_SHADOW = 64"
  "vmcs_width VMCS_CR0_MASK = 64" "vmcs_width VMCS_CR4_MASK = 64" "vmcs_width VMCS_BITMAP_EXC = 32"
  by (simp_all add: vmcs_width_def VMCS_GUEST_CR0_def VMCS_GUEST_CR4_def VMCS_CR0_READ_SHADOW_def VMCS_CR4_READ_SHADOW_def VMCS_CR0_MASK_def VMCS_CR4_MASK_def VMCS_BITMAP_EXC_def)

lemma cr_distinct [simp]:
  "VMCS_GUEST_CR0 \<noteq> VMCS_GUEST_CR4" "VMCS_GUEST_CR0 \<noteq> VMCS_CR0_READ_SHADOW" "VMCS_GUEST_CR0 \<noteq> VMCS_CR4_READ_SHADOW" "VMCS_GUEST_CR0 \<noteq>
  VMCS_CR0_MASK" "VMCS_GUEST_CR0 \<noteq> VMCS_CR4_MASK" "VMCS_GUEST_CR0 \<noteq> VMCS_BITMAP_EXC" "VMCS_GUEST_CR4 \<noteq> VMCS_GUEST_CR0" "VMCS_GUEST_CR4
  \<noteq> VMCS_CR0_READ_SHADOW" "VMCS_GUEST_CR4 \<noteq> VMCS_CR4_READ_SHADOW" "VMCS_GUEST_CR4 \<noteq> VMCS_CR0_MASK" "VMCS_GUEST_CR4 \<noteq> VMCS_CR4_MASK"
  "VMCS_GUEST_CR4 \<noteq> VMCS_BITMAP_EXC" "VMCS_CR0_READ_SHADOW \<noteq> VMCS_GUEST_CR0" "VMCS_CR0_READ_SHADOW \<noteq> VMCS_GUEST_CR4" "VMCS_CR0_READ_SHADOW
  \<noteq> VMCS_CR4_READ_SHADOW" "VMCS_CR0_READ_SHADOW \<noteq> VMCS_CR0_MASK" "VMCS_CR0_READ_SHADOW \<noteq> VMCS_CR4_MASK" "VMCS_CR0_READ_SHADOW \<noteq>
  VMCS_BITMAP_EXC" "VMCS_CR4_READ_SHADOW \<noteq> VMCS_GUEST_CR0" "VMCS_CR4_READ_SHADOW \<noteq> VMCS_GUEST_CR4" "VMCS_CR4_READ_SHADOW \<noteq>
  VMCS_CR0_READ_SHADOW" "VMCS_CR4_READ_SHADOW \<noteq> VMCS_CR0_MASK" "VMCS_CR4_READ_SHADOW \<noteq> VMCS_CR4_MASK" "VMCS_CR4_READ_SHADOW \<noteq>
  VMCS_BITMAP_EXC" "VMCS_CR0_MASK \<noteq> VMCS_GUEST_CR0" "VMCS_CR0_MASK \<noteq> VMCS_GUEST_CR4" "VMCS_CR0_MASK \<noteq> VMCS_CR0_READ_SHADOW" "VMCS_CR0_MASK
  \<noteq> VMCS_CR4_READ_SHADOW" "VMCS_CR0_MASK \<noteq> VMCS_CR4_MASK" "VMCS_CR0_MASK \<noteq> VMCS_BITMAP_EXC" "VMCS_CR4_MASK \<noteq> VMCS_GUEST_CR0"
  "VMCS_CR4_MASK \<noteq> VMCS_GUEST_CR4" "VMCS_CR4_MASK \<noteq> VMCS_CR0_READ_SHADOW" "VMCS_CR4_MASK \<noteq> VMCS_CR4_READ_SHADOW" "VMCS_CR4_MASK \<noteq>
  VMCS_CR0_MASK" "VMCS_CR4_MASK \<noteq> VMCS_BITMAP_EXC" "VMCS_BITMAP_EXC \<noteq> VMCS_GUEST_CR0" "VMCS_BITMAP_EXC \<noteq> VMCS_GUEST_CR4" "VMCS_BITMAP_EXC
  \<noteq> VMCS_CR0_READ_SHADOW" "VMCS_BITMAP_EXC \<noteq> VMCS_CR4_READ_SHADOW" "VMCS_BITMAP_EXC \<noteq> VMCS_CR0_MASK" "VMCS_BITMAP_EXC \<noteq> VMCS_CR4_MASK"
  by (simp_all add: VMCS_GUEST_CR0_def VMCS_GUEST_CR4_def VMCS_CR0_READ_SHADOW_def VMCS_CR4_READ_SHADOW_def VMCS_CR0_MASK_def VMCS_CR4_MASK_def VMCS_BITMAP_EXC_def)

lemma and_nonzero: "(v :: u64) AND m \<noteq> 0 \<longleftrightarrow> (\<exists>n. bit v n \<and> bit m n)"
proof
  assume "v AND m \<noteq> 0"
  then obtain n where "bit (v AND m) n" using bit_word_eqI [of "v AND m" 0] by auto
  then show "\<exists>n. bit v n \<and> bit m n" by (auto simp: bit_and_iff)
next
  assume "\<exists>n. bit v n \<and> bit m n"
  then obtain n where "bit (v AND m) n" by (auto simp: bit_and_iff)
  then show "v AND m \<noteq> 0" by auto
qed

lemma and_kill: "s AND (NOT s AND a) = 0" "s AND (a AND NOT s) = (0 :: 'a :: len word)"
  by (rule bit_word_eqI, auto simp: bit_and_iff bit_not_iff)+

lemma set_exc_shadow [simp]: "set_exc (e\<lparr>shadow_cr0 := v\<rparr>) = set_exc e" "set_exc (e\<lparr>shadow_cr4 := v\<rparr>) = set_exc e"
  by (simp_all add: set_exc_def)

lemma get_set_bits: "m = c OR s \<Longrightarrow> (((v AND NOT m) OR s) AND NOT m) OR (v AND m) = (v :: u64)"
  by (rule bit_word_eqI) (auto simp: bit_and_iff bit_or_iff bit_not_iff)

lemma vmx_set_cr0D:
  assumes "vmx_set_gst_cr0 T v (e, m) = (e', m')"
  shows "e' = e\<lparr>shadow_cr0 := v\<rparr>" "vmcs_read m' VMCS_GUEST_CR0 = (v AND NOT (msk_cr0 T e)) OR set_cr0 T e" "vmcs_read m' VMCS_GUEST_CR4 = vmcs_read m VMCS_GUEST_CR4"
  using assms by (auto simp: vmx_set_gst_cr0_def)

lemma vmx_set_cr4D:
  assumes "vmx_set_gst_cr4 T v (e, m) = (e', m')"
  shows "e' = e\<lparr>shadow_cr4 := v\<rparr>" "vmcs_read m' VMCS_GUEST_CR4 = (v AND NOT (msk_cr4 T)) OR set_cr4 T" "vmcs_read m' VMCS_GUEST_CR0 = vmcs_read m VMCS_GUEST_CR0"
  using assms by (auto simp: vmx_set_gst_cr4_def)

lemma cr0_shadow [simp]: "set_cr0 T (e\<lparr>shadow_cr0 := v\<rparr>) = set_cr0 T e" "msk_cr0 T (e\<lparr>shadow_cr0 := v\<rparr>) = msk_cr0 T e"
  "set_cr0 T (e\<lparr>shadow_cr4 := v\<rparr>) = set_cr0 T e" "msk_cr0 T (e\<lparr>shadow_cr4 := v\<rparr>) = msk_cr0 T e"
  by (simp_all add: msk_cr0_def set_cr0_def)

lemma vmx_get_set_cr0: "vmx_set_gst_cr0 T v (e, m) = (e', m') \<Longrightarrow> vmx_get_gst_cr0 T e' m' = v"
  by (frule vmx_set_cr0D(1), frule vmx_set_cr0D(2)) (simp add: vmx_get_gst_cr0_def Let_def get_set_bits [OF msk_cr0_def])

lemma vmx_get_set_cr4: "vmx_set_gst_cr4 T v (e, m) = (e', m') \<Longrightarrow> vmx_get_gst_cr4 T e' m' = v"
  by (frule vmx_set_cr4D(1), frule vmx_set_cr4D(2)) (simp add: vmx_get_gst_cr4_def Let_def get_set_bits [OF msk_cr4_def])

text \<open>
  A guest reads back the control register values that were written for it, while the values the processor uses have all bits set that the hypervisor forces, the TS bit among them as
  long as the FPU is not available, and none that must be clear.
\<close>

theorem guest_cr_roundtrip:
  assumes "vmx_set_gst_cr0 T v (e, m) = (e1, m1)" "vmx_set_gst_cr4 T w (e1, m1) = (e2, m2)"
  shows "vmx_get_gst_cr0 T e2 m2 = v \<and> vmx_get_gst_cr4 T e2 m2 = w \<and>
    vmcs_read m2 VMCS_GUEST_CR0 AND (fix_cr0_clr T OR fix_cr0_set T) = fix_cr0_set T OR ((if fpu_on e then 0 else CR0_TS) AND fix_cr0_clr T) \<and>
    (\<not> fpu_on e \<longrightarrow> vmcs_read m2 VMCS_GUEST_CR0 AND CR0_TS = CR0_TS) \<and>
    vmcs_read m2 VMCS_GUEST_CR4 AND (fix_cr4_clr T OR fix_cr4_set T) = fix_cr4_set T"
proof -
  note d0 = vmx_set_cr0D [OF assms(1)] and d4 = vmx_set_cr4D [OF assms(2)]
  have c0: "vmcs_read m2 VMCS_GUEST_CR0 = (v AND NOT (msk_cr0 T e)) OR set_cr0 T e" and c4: "vmcs_read m2 VMCS_GUEST_CR4 = (w AND NOT (msk_cr4 T)) OR set_cr4 T"
    using d0 d4 by simp_all
  have "vmx_get_gst_cr0 T e2 m2 = v" using vmx_get_set_cr0 [OF assms(1)] d0 d4 by (simp add: vmx_get_gst_cr0_def Let_def)
  moreover have "vmx_get_gst_cr4 T e2 m2 = w" by (rule vmx_get_set_cr4 [OF assms(2)])
  moreover have "((v AND NOT (c OR (f OR t))) OR (f OR t)) AND (c OR f) = f OR (t AND c)" for c f t :: u64
    by (rule bit_word_eqI) (auto simp: bit_and_iff bit_or_iff bit_not_iff)
  moreover have "((w AND NOT (c OR f)) OR f) AND (c OR f) = f" for c f :: u64
    by (rule bit_word_eqI) (auto simp: bit_and_iff bit_or_iff bit_not_iff)
  moreover have "((v AND NOT (c OR (f OR t))) OR (f OR t)) AND t = t" for c f t :: u64
    by (rule bit_word_eqI) (auto simp: bit_and_iff bit_or_iff bit_not_iff)
  ultimately show ?thesis unfolding c0 c4 msk_cr0_def msk_cr4_def set_cr0_def set_cr4_def by simp
qed

theorem guest_cr_roundtrip_witness:
  "\<exists>e2 m2. vmx_set_gst_cr4 svm_caps 0x20 (vmx_set_gst_cr0 svm_caps 0x11 (exc_zero, \<lambda>_. 0)) = (e2, m2) \<and> vmx_get_gst_cr0 svm_caps e2 m2 = 0x11 \<and>
    vmcs_read m2 VMCS_GUEST_CR0 AND CR0_TS = CR0_TS"
proof -
  obtain e1 m1 where 1: "vmx_set_gst_cr0 svm_caps 0x11 (exc_zero, \<lambda>_. 0) = (e1, m1)" by fastforce
  obtain e2 m2 where 2: "vmx_set_gst_cr4 svm_caps 0x20 (e1, m1) = (e2, m2)" by fastforce
  have "\<not> fpu_on exc_zero" by (simp add: exc_zero_def)
  then show ?thesis using guest_cr_roundtrip [OF 1 2] 1 2 by simp
qed

lemma constrain_xcr_ok:
  assumes "xsetbv_ok h"
  shows "xsetbv_ok (constrain_xcr h v) \<and> (constrain_xcr h v) AND NOT h = 0 \<and> (v AND h = v \<and> xsetbv_ok v \<longrightarrow> constrain_xcr h v = v)"
proof -
  define A where "A \<longleftrightarrow> bit v 5 \<or> bit v 6 \<or> bit v 7"
  define v1 where "v1 = (if v AND XSTATE_AVX512 \<noteq> 0 then v OR (XSTATE_AVX512 OR XSTATE_AVX) else v)"
  define v2 where "v2 = (if v1 AND XSTATE_AVX \<noteq> 0 then v1 OR XSTATE_SSE else v1)"
  define w where "w = v2 OR XSTATE_X87"
  have c: "constrain_xcr h v = h AND w" by (simp add: constrain_xcr_def w_def v2_def v1_def Let_def)
  have "bit v1 n \<longleftrightarrow> bit v n \<or> A \<and> (n \<in> {5, 6, 7} \<or> n = 2)" for n unfolding v1_def and_nonzero xs_bits A_def by (auto simp: bit_or_iff xs_bits)
  moreover have "bit v2 n \<longleftrightarrow> bit v1 n \<or> bit v1 2 \<and> n = 1" for n unfolding v2_def and_nonzero xs_bits by (auto simp: bit_or_iff xs_bits)
  ultimately have b: "bit w n \<longleftrightarrow> bit v n \<or> A \<and> (n \<in> {5, 6, 7} \<or> n = 2) \<or> (bit v 2 \<or> A) \<and> n = 1 \<or> n = 0" for n
    unfolding w_def by (auto simp: bit_or_iff xs_bits)
  have "bit w 0" "bit w 1 \<longleftrightarrow> bit v 1 \<or> bit v 2 \<or> A" "bit w 2 \<longleftrightarrow> bit v 2 \<or> A" "bit w 5 = A" "bit w 6 = A" "bit w 7 = A" unfolding b by (auto simp: A_def)
  then have "xsetbv_ok (h AND w)" using assms unfolding xsetbv_ok_def bit_and_iff by metis
  moreover have "(h AND w) AND NOT h = 0" by (rule bit_word_eqI) (auto simp: bit_and_iff bit_not_iff)
  moreover have "h AND w = v" if "v AND h = v" "xsetbv_ok v"
  proof (rule bit_word_eqI)
    fix n
    have "bit v n \<Longrightarrow> bit h n" using that(1) by (metis bit_and_iff)
    moreover have "A \<Longrightarrow> bit v 2 \<and> bit v 5 \<and> bit v 6 \<and> bit v 7" "bit v 2 \<Longrightarrow> bit v 1" "bit v 0" using that(2) unfolding xsetbv_ok_def A_def by blast+
    then have "bit w n \<Longrightarrow> bit v n" unfolding b by (elim disjE conjE insertE emptyE; hypsubst?; blast)
    ultimately show "bit (h AND w) n = bit v n" unfolding bit_and_iff using b by blast
  qed
  ultimately show ?thesis unfolding c by simp
qed

text \<open>
  C27: The value of XCR0 that is loaded for a guest never faults: whatever the monitor provides, the constrained value is a subset of the host's components, contains the x87 component, contains
  SSE if it contains AVX, and contains all parts of AVX-512 and AVX if it contains one of them.
\<close>

theorem constrain_xcr_valid:
  assumes "xsetbv_ok h"
  shows "xsetbv_ok (constrain_xcr h v) \<and> (constrain_xcr h v) AND NOT h = 0 \<and> (v AND h = v \<and> xsetbv_ok v \<longrightarrow> constrain_xcr h v = v)"
  by (rule constrain_xcr_ok [OF assms])

theorem constrain_xcr_valid_witness: "xsetbv_ok (constrain_xcr 0xe7 0x20)"
proof -
  have "xsetbv_ok 0xe7" by (simp add: xsetbv_ok_def)
  then show ?thesis using constrain_xcr_valid [of "0xe7" "0x20"] by blast
qed

end
