(* ===== verification/Nova_Kernel.thy ===== *)
theory Nova_Kernel
  imports Nova_Timeout Nova_Slab Nova_Space_Obj Nova_Regs
begin

text \<open>
  The state of the kernel as one core sees it: the kernel objects of \<^verbatim>\<open>inc/ec.hpp\<close>, \<^verbatim>\<open>inc/sc.hpp\<close>, \<^verbatim>\<open>inc/pt.hpp\<close>, \<^verbatim>\<open>inc/sm.hpp\<close>, \<^verbatim>\<open>inc/pd.hpp\<close>
  and \<^verbatim>\<open>inc/space.hpp\<close> by their addresses, the allocators and tables (\<open>heap\<close>), the core-local state of the executing core and the release
  queues of all cores. An object pointer is its address, \<^verbatim>\<open>nullptr\<close> is 0. The membership of an element in an intrusive queue is the list of the
  queue together with the flag that its link is set, which is what \<^verbatim>\<open>queued()\<close> reads.
\<close>

section \<open>Kernel objects\<close>

text \<open>The continuations of an EC.\<close>

datatype cont = Cont_null | Ret_hypercall | Ret_exception | Ret_vmx | Ret_svm | Idle | Recv_kern | Recv_user | Send_msg cont
  | Sys_ipc_call | Sys_finish status bool | Dead | Blocking

record ec =
  regs :: cpu_regs
  evt :: u64
  ec_cpu :: nat
  fpu :: u64
  utcb :: u64
  callee :: u64
  caller :: u64
  cont :: cont
  tmo_sm :: u64
  ec_queue :: "u64 list"
  ec_linked :: bool

record sc =
  sc_ec :: u64
  budget :: u64
  sc_cpu :: nat
  cos :: u16
  prio :: nat
  used :: u64
  left :: u64
  last_t :: u64
  sc_linked :: bool

record pt =
  pt_ec :: u64
  pt_ip :: u64
  pt_id :: u64
  pt_mtd :: u32

record sm =
  counter :: u64
  sm_id :: u32
  sm_queue :: "u64 list"

record pd =
  spaces :: u32
  space_obj :: u64
  space_hst :: u64
  space_pio :: u64

text \<open>A space belongs to a PD; a port or register space also has a bitmap, and a port space may be mapped in a host space. A host space has a set of cores
  on which it has been prepared for execution, and a tag for the translation caches. \<open>sp_tlb\<close> is the set of cores that must flush
  translations of a host space (\<^verbatim>\<open>htlb\<close>) or guest space (\<^verbatim>\<open>gtlb\<close>) before they use it.\<close>

record space =
  sp_pd :: u64
  sp_bmp :: u64
  sp_hst :: u64
  sp_cpus :: u64
  sp_pcid :: u16
  sp_tlb :: u64

datatype request = RRQ | RKE

text \<open>The content of the floating-point registers, or of a memory area they are saved to.\<close>

type_synonym fpu_img = "u64 list"

text \<open>The tags that have been given out last are \<open>vpids\<close> for the virtual CPUs of a core and \<open>pcids\<close> for host spaces. The last four fields are the interrupt table: the configuration, the semaphore, the I/O APIC (0 for a message-signalled interrupt) and the mask, trigger
  and polarity bits of the redirection entry.\<close>

record kern = timers +
  heap :: slabs
  hdr :: "u64 \<Rightarrow> khdr"
  pds :: "u64 \<Rightarrow> pd"
  spcs :: "u64 \<Rightarrow> space"
  ecs :: "u64 \<Rightarrow> ec"
  scs :: "u64 \<Rightarrow> sc"
  pts :: "u64 \<Rightarrow> pt"
  sms :: "u64 \<Rightarrow> sm"
  cpu_id :: nat
  cpu_hazard :: u32
  ready :: "nat \<Rightarrow> u64 list"
  prio_top :: nat
  release :: "nat \<Rightarrow> u64 list"
  sc_current :: u64
  ec_current :: "nat \<Rightarrow> u64"
  hst_cur :: u64
  donations :: u32
  ipis :: "(request \<times> nat) list"
  vmcss :: "u64 \<Rightarrow> vmcs"
  vmcs_cur :: u64
  fpowner :: u64
  fpu_reg :: fpu_img
  fpu_mem :: "u64 \<Rightarrow> fpu_img"
  vpids :: "nat \<Rightarrow> u16"
  pcids :: u16
  int_conf :: "nat \<Rightarrow> u64"
  int_sm :: "nat \<Rightarrow> u64"
  int_ioapic :: "nat \<Rightarrow> u64"
  int_rte :: "nat \<Rightarrow> bool \<times> bool \<times> bool"

text \<open>What is fixed at boot: the clock frequency, the virtualization features, the floating-point state components of the host and the
  distance between kernel virtual and physical addresses.\<close>

record platform =
  p_freq :: u64
  p_vmx :: bool
  p_svm :: bool
  p_caps :: vmx_caps
  p_hfpu :: fpu_state
  p_off :: u64

text \<open>The timeout of an EC is named by the address of the EC, the budget timeout of the core by an address that is not aligned.\<close>

definition budget_timeout :: u64 where
  "budget_timeout = 1"

section \<open>Updates of single objects\<close>

definition upd_ec :: "u64 \<Rightarrow> (ec \<Rightarrow> ec) \<Rightarrow> 'a kern_scheme \<Rightarrow> 'a kern_scheme" where
  "upd_ec x f s = s\<lparr>ecs := (ecs s)(x := f (ecs s x))\<rparr>"

definition upd_sc :: "u64 \<Rightarrow> (sc \<Rightarrow> sc) \<Rightarrow> 'a kern_scheme \<Rightarrow> 'a kern_scheme" where
  "upd_sc x f s = s\<lparr>scs := (scs s)(x := f (scs s x))\<rparr>"

definition upd_sm :: "u64 \<Rightarrow> (sm \<Rightarrow> sm) \<Rightarrow> 'a kern_scheme \<Rightarrow> 'a kern_scheme" where
  "upd_sm x f s = s\<lparr>sms := (sms s)(x := f (sms s x))\<rparr>"

definition upd_pt :: "u64 \<Rightarrow> (pt \<Rightarrow> pt) \<Rightarrow> 'a kern_scheme \<Rightarrow> 'a kern_scheme" where
  "upd_pt x f s = s\<lparr>pts := (pts s)(x := f (pts s x))\<rparr>"

definition upd_pd :: "u64 \<Rightarrow> (pd \<Rightarrow> pd) \<Rightarrow> 'a kern_scheme \<Rightarrow> 'a kern_scheme" where
  "upd_pd x f s = s\<lparr>pds := (pds s)(x := f (pds s x))\<rparr>"

definition upd_regs :: "u64 \<Rightarrow> (cpu_regs \<Rightarrow> cpu_regs) \<Rightarrow> 'a kern_scheme \<Rightarrow> 'a kern_scheme" where
  "upd_regs x f s = upd_ec x (\<lambda>e. e\<lparr>regs := f (regs e)\<rparr>) s"

definition upd_exc :: "u64 \<Rightarrow> (exc_regs \<Rightarrow> exc_regs) \<Rightarrow> 'a kern_scheme \<Rightarrow> 'a kern_scheme" where
  "upd_exc x f s = upd_regs x (\<lambda>r. r\<lparr>exc := f (exc r)\<rparr>) s"

definition set_gpr :: "u64 \<Rightarrow> gpr \<Rightarrow> u64 \<Rightarrow> 'a kern_scheme \<Rightarrow> 'a kern_scheme" where
  "set_gpr x r v s = upd_exc x (\<lambda>e. e\<lparr>sys := (sys e)(r := v)\<rparr>) s"

text \<open>\<^verbatim>\<open>Hazard::set\<close> and \<^verbatim>\<open>Hazard::clr\<close> on the hazard of an EC, and on the hazard of the core.\<close>

definition hazard_set :: "u64 \<Rightarrow> u32 \<Rightarrow> 'a kern_scheme \<Rightarrow> 'a kern_scheme" where
  "hazard_set x h s = upd_regs x (\<lambda>r. r\<lparr>r_hazard := r_hazard r OR h\<rparr>) s"

definition hazard_clr :: "u64 \<Rightarrow> u32 \<Rightarrow> 'a kern_scheme \<Rightarrow> 'a kern_scheme" where
  "hazard_clr x h s = upd_regs x (\<lambda>r. r\<lparr>r_hazard := r_hazard r AND NOT h\<rparr>) s"

definition cpu_hazard_set :: "u32 \<Rightarrow> 'a kern_scheme \<Rightarrow> 'a kern_scheme" where
  "cpu_hazard_set h s = s\<lparr>cpu_hazard := cpu_hazard s OR h\<rparr>"

definition cpu_hazard_clr :: "u32 \<Rightarrow> 'a kern_scheme \<Rightarrow> 'a kern_scheme" where
  "cpu_hazard_clr h s = s\<lparr>cpu_hazard := cpu_hazard s AND NOT h\<rparr>"

text \<open>An inter-processor interrupt; the log is what the interrupt controller has been asked to send.\<close>

definition send_cpu :: "request \<Rightarrow> nat \<Rightarrow> 'a kern_scheme \<Rightarrow> 'a kern_scheme" where
  "send_cpu r c s = s\<lparr>ipis := ipis s @ [(r, c)]\<rparr>"

lemma upd_simps [simp]:
  "ecs (upd_ec x f s) y = (if y = x then f (ecs s x) else ecs s y)"
  "scs (upd_sc x g s) y = (if y = x then g (scs s x) else scs s y)"
  "sms (upd_sm x h s) y = (if y = x then h (sms s x) else sms s y)"
  "pts (upd_pt x i s) y = (if y = x then i (pts s x) else pts s y)"
  "pds (upd_pd x j s) y = (if y = x then j (pds s x) else pds s y)"
  by (simp_all add: upd_ec_def upd_sc_def upd_sm_def upd_pt_def upd_pd_def)

lemma upd_ec_frame [simp]:
  "heap (upd_ec x f s) = heap s" "hdr (upd_ec x f s) = hdr s" "pds (upd_ec x f s) = pds s" "spcs (upd_ec x f s) = spcs s" "scs (upd_ec x f s) = scs s"
  "pts (upd_ec x f s) = pts s" "sms (upd_ec x f s) = sms s" "cpu_id (upd_ec x f s) = cpu_id s" "cpu_hazard (upd_ec x f s) = cpu_hazard s"
  "ready (upd_ec x f s) = ready s" "prio_top (upd_ec x f s) = prio_top s" "release (upd_ec x f s) = release s" "sc_current (upd_ec x f s) = sc_current s"
  "ec_current (upd_ec x f s) = ec_current s" "hst_cur (upd_ec x f s) = hst_cur s" "donations (upd_ec x f s) = donations s" "ipis (upd_ec x f s) = ipis s" "kern.more (upd_ec x f s) = kern.more s"
  "vmcss (upd_ec x f s) = vmcss s" "vmcs_cur (upd_ec x f s) = vmcs_cur s" "fpowner (upd_ec x f s) = fpowner s"
  "int_conf (upd_ec x f s) = int_conf s" "int_sm (upd_ec x f s) = int_sm s" "int_ioapic (upd_ec x f s) = int_ioapic s" "int_rte (upd_ec x f s) = int_rte s"
  "fpu_reg (upd_ec x f s) = fpu_reg s" "fpu_mem (upd_ec x f s) = fpu_mem s" "tmo (upd_ec x f s) = tmo s" "tlist (upd_ec x f s) = tlist s" "dln (upd_ec x f s) = dln s"
  by (simp_all add: upd_ec_def)

lemma upd_sc_frame [simp]:
  "heap (upd_sc x f s) = heap s" "hdr (upd_sc x f s) = hdr s" "pds (upd_sc x f s) = pds s" "spcs (upd_sc x f s) = spcs s" "ecs (upd_sc x f s) = ecs s"
  "pts (upd_sc x f s) = pts s" "sms (upd_sc x f s) = sms s" "cpu_id (upd_sc x f s) = cpu_id s" "cpu_hazard (upd_sc x f s) = cpu_hazard s"
  "ready (upd_sc x f s) = ready s" "prio_top (upd_sc x f s) = prio_top s" "release (upd_sc x f s) = release s" "sc_current (upd_sc x f s) = sc_current s"
  "ec_current (upd_sc x f s) = ec_current s" "hst_cur (upd_sc x f s) = hst_cur s" "donations (upd_sc x f s) = donations s" "ipis (upd_sc x f s) = ipis s" "kern.more (upd_sc x f s) = kern.more s"
  "vmcss (upd_sc x f s) = vmcss s" "vmcs_cur (upd_sc x f s) = vmcs_cur s" "fpowner (upd_sc x f s) = fpowner s"
  "int_conf (upd_sc x f s) = int_conf s" "int_sm (upd_sc x f s) = int_sm s" "int_ioapic (upd_sc x f s) = int_ioapic s" "int_rte (upd_sc x f s) = int_rte s"
  "fpu_reg (upd_sc x f s) = fpu_reg s" "fpu_mem (upd_sc x f s) = fpu_mem s" "tmo (upd_sc x f s) = tmo s" "tlist (upd_sc x f s) = tlist s" "dln (upd_sc x f s) = dln s"
  by (simp_all add: upd_sc_def)

lemma upd_sm_frame [simp]:
  "heap (upd_sm x f s) = heap s" "hdr (upd_sm x f s) = hdr s" "pds (upd_sm x f s) = pds s" "spcs (upd_sm x f s) = spcs s" "ecs (upd_sm x f s) = ecs s"
  "pts (upd_sm x f s) = pts s" "scs (upd_sm x f s) = scs s" "cpu_id (upd_sm x f s) = cpu_id s" "cpu_hazard (upd_sm x f s) = cpu_hazard s"
  "ready (upd_sm x f s) = ready s" "prio_top (upd_sm x f s) = prio_top s" "release (upd_sm x f s) = release s" "sc_current (upd_sm x f s) = sc_current s"
  "ec_current (upd_sm x f s) = ec_current s" "hst_cur (upd_sm x f s) = hst_cur s" "donations (upd_sm x f s) = donations s" "ipis (upd_sm x f s) = ipis s" "kern.more (upd_sm x f s) = kern.more s"
  "vmcss (upd_sm x f s) = vmcss s" "vmcs_cur (upd_sm x f s) = vmcs_cur s" "fpowner (upd_sm x f s) = fpowner s"
  "int_conf (upd_sm x f s) = int_conf s" "int_sm (upd_sm x f s) = int_sm s" "int_ioapic (upd_sm x f s) = int_ioapic s" "int_rte (upd_sm x f s) = int_rte s"
  "fpu_reg (upd_sm x f s) = fpu_reg s" "fpu_mem (upd_sm x f s) = fpu_mem s" "tmo (upd_sm x f s) = tmo s" "tlist (upd_sm x f s) = tlist s" "dln (upd_sm x f s) = dln s"
  by (simp_all add: upd_sm_def)

end
