(* ===== verification/Nova_Sched.thy ===== *)
theory Nova_Sched
  imports Nova_Kernel
begin

text \<open>
  \<^verbatim>\<open>inc/sc.hpp\<close>, \<^verbatim>\<open>src/sc.cpp\<close>: the ready queue of a core, one FIFO queue per priority, and the release queues through which other cores hand
  over scheduling contexts. The time \<open>t\<close> is what \<^verbatim>\<open>Timer::time()\<close> returned.
\<close>

section \<open>Operations\<close>

definition priorities :: nat where
  "priorities = 128"

definition sc_new :: "u64 \<Rightarrow> nat \<Rightarrow> u64 \<Rightarrow> u16 \<Rightarrow> nat \<Rightarrow> u16 \<Rightarrow> sc" where
  "sc_new freq n e b p c = \<lparr>sc_ec = e, budget = ms_to_ticks freq (ucast b), sc_cpu = n, cos = c, prio = p, used = 0, left = 0, last_t = 0, sc_linked = False\<rparr>"

text \<open>Queue operations on an SC: the queue is updated by the caller, the link by these functions.\<close>

definition sc_enqueue :: "u64 \<Rightarrow> bool \<Rightarrow> u64 list \<Rightarrow> 'a kern_scheme \<Rightarrow> (bool \<times> u64 list \<times> 'a kern_scheme) option" where
  "sc_enqueue x h q s = do {
     assert_that (\<not> sc_linked (scs s x));
     (r, q) \<leftarrow> lq_enqueue x h q;
     Some (r, q, upd_sc x (\<lambda>c. c\<lparr>sc_linked := True\<rparr>) s)
   }"

definition sc_dequeue_head :: "u64 list \<Rightarrow> 'a kern_scheme \<Rightarrow> (u64 option \<times> u64 list \<times> 'a kern_scheme) option" where
  "sc_dequeue_head q s = do {
     (r, q) \<leftarrow> lq_dequeue_head q;
     case r of None \<Rightarrow> Some (None, q, s) | Some x \<Rightarrow> Some (Some x, q, upd_sc x (\<lambda>c. c\<lparr>sc_linked := False\<rparr>) s)
   }"

text \<open>Preemption of the current SC, and the refill of an exhausted budget.\<close>

definition ready_hazard :: "u64 \<Rightarrow> 'a kern_scheme \<Rightarrow> 'a kern_scheme" where
  "ready_hazard x s =
     (if prio (scs s x) > prio (scs s (sc_current s)) \<or> (x \<noteq> sc_current s \<and> prio (scs s x) = prio (scs s (sc_current s)) \<and> left (scs s x) \<noteq> 0)
      then cpu_hazard_set HZD_SCHED s else s)"

definition sc_refill :: "u64 \<Rightarrow> sc \<Rightarrow> sc" where
  "sc_refill t c = (if left c = 0 then c\<lparr>left := budget c\<rparr> else c)\<lparr>last_t := t\<rparr>"

definition ready_enqueue :: "u64 \<Rightarrow> u64 \<Rightarrow> 'a kern_scheme \<Rightarrow> 'a kern_scheme option" where
  "ready_enqueue x t s = do {
     let p = prio (scs s x);
     assert_that (sc_cpu (scs s x) = cpu_id s);
     assert_that (p < priorities);
     (r, q, s) \<leftarrow> sc_enqueue x (left (scs s x) \<noteq> 0) (ready s p) (if p > prio_top s then s\<lparr>prio_top := p\<rparr> else s);
     Some (upd_sc x (sc_refill t) (ready_hazard x (s\<lparr>ready := (ready s)(p := q)\<rparr>)))
   }"

text \<open>The loop that lowers the top priority to that of a non-empty queue.\<close>

fun lower_top :: "(nat \<Rightarrow> u64 list) \<Rightarrow> nat \<Rightarrow> nat" where
  "lower_top q 0 = 0"
| "lower_top q (Suc n) = (if q (Suc n) = [] then lower_top q n else Suc n)"

definition adjust_offset_ticks :: "u64 \<Rightarrow> u64 \<Rightarrow> 'a kern_scheme \<Rightarrow> 'a kern_scheme" where
  "adjust_offset_ticks e t s =
     (if k_subtype (hdr s e) = EC_VCPU_OFFS then hazard_set e HZD_TSC (upd_exc e (\<lambda>x. x\<lparr>offset_tsc := offset_tsc x - t\<rparr>) s) else s)"

definition ready_adjust :: "u64 \<Rightarrow> u64 \<Rightarrow> 'a kern_scheme \<Rightarrow> 'a kern_scheme" where
  "ready_adjust x t s =
     (if sc_ec (scs s x) \<noteq> sc_ec (scs s (sc_current s)) then adjust_offset_ticks (sc_ec (scs s x)) (t - last_t (scs s x)) s else s)"

definition ready_dequeue :: "u64 \<Rightarrow> 'a kern_scheme \<Rightarrow> (u64 \<times> 'a kern_scheme) option" where
  "ready_dequeue t s = do {
     (r, q, s) \<leftarrow> sc_dequeue_head (ready s (prio_top s)) s;
     let s = s\<lparr>ready := (ready s)(prio_top s := q)\<rparr>;
     x \<leftarrow> r;
     assert_that (sc_cpu (scs s x) = cpu_id s);
     assert_that (prio (scs s x) < priorities);
     let s = s\<lparr>prio_top := lower_top (ready s) (prio_top s)\<rparr>;
     Some (x, upd_sc x (\<lambda>c. c\<lparr>last_t := t\<rparr>) (ready_adjust x t s))
   }"

definition release_enqueue :: "u64 \<Rightarrow> 'a kern_scheme \<Rightarrow> 'a kern_scheme option" where
  "release_enqueue x s = do {
     let n = sc_cpu (scs s x);
     (notify, q, s) \<leftarrow> sc_enqueue x False (release s n) s;
     let s = s\<lparr>release := (release s)(n := q)\<rparr>;
     Some (if notify then send_cpu RRQ n s else s)
   }"

definition release_dequeue :: "'a kern_scheme \<Rightarrow> (u64 option \<times> 'a kern_scheme) option" where
  "release_dequeue s = do {
     (r, q, s) \<leftarrow> sc_dequeue_head (release s (cpu_id s)) s;
     Some (r, s\<lparr>release := (release s)(cpu_id s := q)\<rparr>)
   }"

definition sched_unblock :: "u64 \<Rightarrow> u64 \<Rightarrow> 'a kern_scheme \<Rightarrow> 'a kern_scheme option" where
  "sched_unblock x t s = (if cpu_id s = sc_cpu (scs s x) then ready_enqueue x t s else release_enqueue x s)"

partial_function (option) sched_requeue :: "u64 \<Rightarrow> 'a kern_scheme \<Rightarrow> 'a kern_scheme option" where
  "sched_requeue t s = do {
     (r, s) \<leftarrow> release_dequeue s;
     case r of None \<Rightarrow> Some s | Some x \<Rightarrow> do { s \<leftarrow> ready_enqueue x t s; sched_requeue t s }
   }"

section \<open>Invariant\<close>

text \<open>The queues an SC can be in: the ready queue of a priority, the release queue of a core, the queue of a blocked EC.\<close>

datatype sc_q = Q_ready nat | Q_release nat | Q_ec u64

fun sq :: "'a kern_scheme \<Rightarrow> sc_q \<Rightarrow> u64 list" where
  "sq s (Q_ready p) = ready s p"
| "sq s (Q_release c) = release s c"
| "sq s (Q_ec e) = ec_queue (ecs s e)"

fun sq_ok :: "nat \<Rightarrow> sc \<Rightarrow> sc_q \<Rightarrow> bool" where
  "sq_ok me x (Q_ready p) \<longleftrightarrow> prio x = p \<and> sc_cpu x = me \<and> p < priorities"
| "sq_ok me x (Q_release c) \<longleftrightarrow> sc_cpu x = c \<and> prio x < priorities"
| "sq_ok me x (Q_ec e) \<longleftrightarrow> prio x < priorities"

definition queues_inv :: "'a kern_scheme \<Rightarrow> bool" where
  "queues_inv s \<longleftrightarrow> (\<forall>q. distinct (sq s q)) \<and> (\<forall>q x. x \<in> set (sq s q) \<longrightarrow> sc_linked (scs s x) \<and> sq_ok (cpu_id s) (scs s x) q) \<and>
     (\<forall>q q' x. x \<in> set (sq s q) \<longrightarrow> x \<in> set (sq s q') \<longrightarrow> q = q')"

text \<open>The top priority is that of the highest non-empty ready queue, or 0.\<close>

definition top_inv :: "(nat \<Rightarrow> u64 list) \<Rightarrow> nat \<Rightarrow> bool" where
  "top_inv r n \<longleftrightarrow> (\<forall>p. r p \<noteq> [] \<longrightarrow> p \<le> n) \<and> (r n \<noteq> [] \<or> n = 0)"

definition sched_inv :: "'a kern_scheme \<Rightarrow> bool" where
  "sched_inv s \<longleftrightarrow> queues_inv s \<and> top_inv (ready s) (prio_top s)"

lemma lower_top_inv:
  assumes "\<forall>p. r p \<noteq> [] \<longrightarrow> p \<le> n" shows "top_inv r (lower_top r n)"
  using assms
proof (induction n)
  case 0
  then show ?case by (simp add: top_inv_def)
next
  case (Suc n)
  show ?case
  proof (cases "r (Suc n) = []")
    case True
    then have "\<forall>p. r p \<noteq> [] \<longrightarrow> p \<le> n" using Suc.prems by (metis le_SucE)
    with Suc.IH True show ?thesis by simp
  qed (use Suc.prems in \<open>simp add: top_inv_def\<close>)
qed

text \<open>Putting an SC that is in no queue into one, and taking one out.\<close>

lemma queues_inv_add:
  assumes i: "queues_inv s" and x: "\<not> sc_linked (scs s x)" "sq_ok (cpu_id s) (scs s x) q"
    and q: "distinct (sq s' q)" "set (sq s' q) = insert x (set (sq s q))" "\<And>q'. q' \<noteq> q \<Longrightarrow> sq s' q' = sq s q'"
    and sc: "sc_linked (scs s' x)" "\<And>y. sc_linked (scs s y) \<Longrightarrow> sc_linked (scs s' y)"
      "\<And>y. prio (scs s' y) = prio (scs s y) \<and> sc_cpu (scs s' y) = sc_cpu (scs s y)" "cpu_id s' = cpu_id s"
  shows "queues_inv s'"
proof -
  have ok: "sq_ok (cpu_id s') (scs s' y) k = sq_ok (cpu_id s) (scs s y) k" for y k using sc(3,4) by (cases k) auto
  have mem: "y \<in> set (sq s' k) \<longleftrightarrow> y \<in> set (sq s k) \<or> (y = x \<and> k = q)" for y k using q(2,3) by (cases "k = q") auto
  have nx: "x \<notin> set (sq s k)" for k using i x(1) unfolding queues_inv_def by blast
  have "distinct (sq s' k)" for k using q(1,3) i unfolding queues_inv_def by (cases "k = q") auto
  moreover have "sc_linked (scs s' y) \<and> sq_ok (cpu_id s') (scs s' y) k" if "y \<in> set (sq s' k)" for y k
    using that i x(2) sc(1,2) unfolding mem ok queues_inv_def by blast
  moreover have "k = k'" if "y \<in> set (sq s' k)" "y \<in> set (sq s' k')" for y k k'
    using that nx i unfolding mem queues_inv_def by blast
  ultimately show ?thesis unfolding queues_inv_def by blast
qed

lemma queues_inv_remove:
  assumes i: "queues_inv s" and q: "sq s q = x # sq s' q" "\<And>q'. q' \<noteq> q \<Longrightarrow> sq s' q' = sq s q'"
    and sc: "\<And>y. y \<noteq> x \<Longrightarrow> sc_linked (scs s' y) = sc_linked (scs s y)"
      "\<And>y. prio (scs s' y) = prio (scs s y) \<and> sc_cpu (scs s' y) = sc_cpu (scs s y)" "cpu_id s' = cpu_id s"
  shows "queues_inv s'"
proof -
  have ok: "sq_ok (cpu_id s') (scs s' y) k = sq_ok (cpu_id s) (scs s y) k" for y k using sc(2,3) by (cases k) auto
  have dq: "distinct (x # sq s' q)" using i q(1) unfolding queues_inv_def by metis
  have mem: "y \<in> set (sq s' k) \<Longrightarrow> y \<in> set (sq s k) \<and> y \<noteq> x" for y k
  proof (cases "k = q")
    case False
    assume "y \<in> set (sq s' k)"
    then have "y \<in> set (sq s k)" using q(2) False by simp
    moreover have "x \<in> set (sq s q)" using q(1) by simp
    ultimately show ?thesis using i False unfolding queues_inv_def by blast
  qed (use q(1) dq in auto)
  have "distinct (sq s' k)" for k using dq q(2) i unfolding queues_inv_def by (cases "k = q") auto
  moreover have "sc_linked (scs s' y) \<and> sq_ok (cpu_id s') (scs s' y) k" if "y \<in> set (sq s' k)" for y k
    using mem [OF that] i sc(1) unfolding ok queues_inv_def by blast
  moreover have "k = k'" if "y \<in> set (sq s' k)" "y \<in> set (sq s' k')" for y k k'
    using mem [OF that(1)] mem [OF that(2)] i unfolding queues_inv_def by blast
  ultimately show ?thesis unfolding queues_inv_def by blast
qed

section \<open>The operations on well-formed queues\<close>

lemma cpu_hazard_frame [simp]:
  "heap (cpu_hazard_set h s) = heap s" "hdr (cpu_hazard_set h s) = hdr s" "pds (cpu_hazard_set h s) = pds s" "spcs (cpu_hazard_set h s) = spcs s" "ecs (cpu_hazard_set h s) = ecs s"
  "pts (cpu_hazard_set h s) = pts s" "sms (cpu_hazard_set h s) = sms s" "cpu_id (cpu_hazard_set h s) = cpu_id s" "scs (cpu_hazard_set h s) = scs s"
  "ready (cpu_hazard_set h s) = ready s" "prio_top (cpu_hazard_set h s) = prio_top s" "release (cpu_hazard_set h s) = release s" "sc_current (cpu_hazard_set h s) = sc_current s"
  "ec_current (cpu_hazard_set h s) = ec_current s" "donations (cpu_hazard_set h s) = donations s" "ipis (cpu_hazard_set h s) = ipis s" "kern.more (cpu_hazard_set h s) = kern.more s"
  "vmcss (cpu_hazard_set h s) = vmcss s" "vmcs_cur (cpu_hazard_set h s) = vmcs_cur s" "fpowner (cpu_hazard_set h s) = fpowner s"
  "int_conf (cpu_hazard_set h s) = int_conf s" "int_sm (cpu_hazard_set h s) = int_sm s" "int_ioapic (cpu_hazard_set h s) = int_ioapic s" "int_rte (cpu_hazard_set h s) = int_rte s"
  "fpu_reg (cpu_hazard_set h s) = fpu_reg s" "fpu_mem (cpu_hazard_set h s) = fpu_mem s" "tmo (cpu_hazard_set h s) = tmo s" "tlist (cpu_hazard_set h s) = tlist s" "dln (cpu_hazard_set h s) = dln s"
  by (simp_all add: cpu_hazard_set_def)

lemma ready_hazard_frame [simp]:
  "heap (ready_hazard x s) = heap s" "hdr (ready_hazard x s) = hdr s" "pds (ready_hazard x s) = pds s" "spcs (ready_hazard x s) = spcs s" "ecs (ready_hazard x s) = ecs s"
  "pts (ready_hazard x s) = pts s" "sms (ready_hazard x s) = sms s" "cpu_id (ready_hazard x s) = cpu_id s" "scs (ready_hazard x s) = scs s"
  "ready (ready_hazard x s) = ready s" "prio_top (ready_hazard x s) = prio_top s" "release (ready_hazard x s) = release s" "sc_current (ready_hazard x s) = sc_current s"
  "ec_current (ready_hazard x s) = ec_current s" "donations (ready_hazard x s) = donations s" "ipis (ready_hazard x s) = ipis s" "kern.more (ready_hazard x s) = kern.more s"
  "vmcss (ready_hazard x s) = vmcss s" "vmcs_cur (ready_hazard x s) = vmcs_cur s" "fpowner (ready_hazard x s) = fpowner s"
  "int_conf (ready_hazard x s) = int_conf s" "int_sm (ready_hazard x s) = int_sm s" "int_ioapic (ready_hazard x s) = int_ioapic s" "int_rte (ready_hazard x s) = int_rte s"
  "fpu_reg (ready_hazard x s) = fpu_reg s" "fpu_mem (ready_hazard x s) = fpu_mem s" "tmo (ready_hazard x s) = tmo s" "tlist (ready_hazard x s) = tlist s" "dln (ready_hazard x s) = dln s"
  by (simp_all add: ready_hazard_def)

lemma sched_hazard_set: "cpu_hazard (cpu_hazard_set HZD_SCHED s) AND HZD_SCHED \<noteq> 0"
proof -
  have "(h OR HZD_SCHED) AND HZD_SCHED = HZD_SCHED" for h by (rule bit_eqI) (auto simp: bit_and_iff bit_or_iff)
  then show ?thesis by (simp add: cpu_hazard_set_def hazard_defs BIT_def)
qed

lemma ready_hazard_sched [simp]:
  "cpu_hazard (ready_hazard x s) OR HZD_SCHED = cpu_hazard s OR HZD_SCHED"
  "cpu_hazard s AND HZD_SCHED \<noteq> 0 \<Longrightarrow> cpu_hazard (ready_hazard x s) AND HZD_SCHED \<noteq> 0"
  using sched_hazard_set [of s] by (simp_all add: ready_hazard_def cpu_hazard_set_def or.assoc)

lemma queues_linked: "queues_inv s \<Longrightarrow> x \<in> set (sq s q) \<Longrightarrow> sc_linked (scs s x)"
  by (simp add: queues_inv_def)

lemma ready_enqueue_run:
  assumes "queues_inv s" "\<not> sc_linked (scs s x)" "sc_cpu (scs s x) = cpu_id s" "p = prio (scs s x)" "p < priorities"
  shows "ready_enqueue x t s = Some (upd_sc x (sc_refill t) (ready_hazard x ((upd_sc x (\<lambda>c. c\<lparr>sc_linked := True\<rparr>) (if p > prio_top s then s\<lparr>prio_top := p\<rparr> else s))
    \<lparr>ready := (ready s)(p := (if left (scs s x) \<noteq> 0 then x # ready s p else ready s p @ [x]))\<rparr>)))"
proof -
  have "x \<notin> set (ready s p)" using queues_linked [OF assms(1), of x "Q_ready p"] assms(2) by auto
  then show ?thesis using assms(2,3,5) unfolding ready_enqueue_def assms(4) [symmetric]
    by (simp add: Let_def sc_enqueue_def lq_enqueue_def)
qed

text \<open>The state outside the scheduler.\<close>

definition sched_frame :: "'a kern_scheme \<Rightarrow> 'a kern_scheme \<Rightarrow> bool" where
  "sched_frame s s' \<longleftrightarrow> heap s' = heap s \<and> hdr s' = hdr s \<and> pds s' = pds s \<and> spcs s' = spcs s \<and> pts s' = pts s \<and> sms s' = sms s \<and>
     cpu_id s' = cpu_id s \<and> ec_current s' = ec_current s \<and> donations s' = donations s \<and> kern.more s' = kern.more s \<and>
     tmo s' = tmo s \<and> tlist s' = tlist s \<and> dln s' = dln s \<and> sc_current s' = sc_current s \<and> vmcss s' = vmcss s \<and> vmcs_cur s' = vmcs_cur s \<and>
     fpowner s' = fpowner s \<and> fpu_reg s' = fpu_reg s \<and> fpu_mem s' = fpu_mem s \<and> int_conf s' = int_conf s \<and> int_sm s' = int_sm s \<and> int_ioapic s' = int_ioapic s \<and> int_rte s' = int_rte s \<and>
     cpu_hazard s' OR HZD_SCHED = cpu_hazard s OR HZD_SCHED \<and> (cpu_hazard s AND HZD_SCHED \<noteq> 0 \<longrightarrow> cpu_hazard s' AND HZD_SCHED \<noteq> 0) \<and>
     (\<forall>y. prio (scs s' y) = prio (scs s y) \<and> sc_cpu (scs s' y) = sc_cpu (scs s y) \<and> sc_ec (scs s' y) = sc_ec (scs s y) \<and> budget (scs s' y) = budget (scs s y) \<and> used (scs s' y) = used (scs s y))"

lemma sched_frame_trans [trans]: "sched_frame a b \<Longrightarrow> sched_frame b c \<Longrightarrow> sched_frame a c"
  by (simp add: sched_frame_def)

lemma ready_enqueue_fields:
  assumes "queues_inv s" "\<not> sc_linked (scs s x)" "sc_cpu (scs s x) = cpu_id s" "p = prio (scs s x)" "p < priorities"
    and "ready_enqueue x t s = Some s'"
  shows "ready s' = (ready s)(p := (if left (scs s x) \<noteq> 0 then x # ready s p else ready s p @ [x]))" "prio_top s' = max (prio_top s) p"
    "scs s' y = (if y = x then sc_refill t ((scs s x)\<lparr>sc_linked := True\<rparr>) else scs s y)"
    "sched_frame s s'" "ecs s' = ecs s" "release s' = release s" "ipis s' = ipis s"
  using assms(6) unfolding ready_enqueue_run [OF assms(1-5)] by (auto simp: sched_frame_def sc_refill_def)

lemma ready_enqueue_spec:
  assumes i: "sched_inv s" and x: "\<not> sc_linked (scs s x)" "sc_cpu (scs s x) = cpu_id s" "prio (scs s x) < priorities"
  obtains s' where "ready_enqueue x t s = Some s'" "sched_inv s'" "sched_frame s s'" "release s' = release s" "ecs s' = ecs s" "ipis s' = ipis s"
    "\<And>y. y \<noteq> x \<Longrightarrow> scs s' y = scs s y" "ready s' = (ready s)(prio (scs s x) := (if left (scs s x) \<noteq> 0 then x # ready s (prio (scs s x)) else ready s (prio (scs s x)) @ [x]))"
    "scs s' x = sc_refill t ((scs s x)\<lparr>sc_linked := True\<rparr>)"
proof -
  let ?p = "prio (scs s x)"
  have q: "queues_inv s" and tp: "top_inv (ready s) (prio_top s)" using i by (auto simp: sched_inv_def)
  from ready_enqueue_run [OF q x(1,2) refl x(3)] obtain s' where s': "ready_enqueue x t s = Some s'" by blast
  note f = ready_enqueue_fields [OF q x(1,2) refl x(3) s']
  have sc: "cpu_id s' = cpu_id s" "\<And>y. prio (scs s' y) = prio (scs s y) \<and> sc_cpu (scs s' y) = sc_cpu (scs s y)" using f(4) by (auto simp: sched_frame_def)
  have nx: "x \<notin> set (ready s ?p)" using queues_linked [OF q, of x "Q_ready ?p"] x(1) by auto
  have "queues_inv s'"
  proof (rule queues_inv_add [OF q x(1), of "Q_ready ?p"])
    have "distinct (ready s ?p)" using q unfolding queues_inv_def by (metis sq.simps(1))
    then show "distinct (sq s' (Q_ready ?p))" using f(1) nx by simp
    show "sq s' k = sq s k" if "k \<noteq> Q_ready ?p" for k using f(1,5,6) that by (cases k) auto
    show "sc_linked (scs s y) \<Longrightarrow> sc_linked (scs s' y)" for y using f(3) [of y] by (auto simp: sc_refill_def)
  qed (use f(1,3) x sc in \<open>auto simp: sc_refill_def\<close>)
  moreover have "top_inv (ready s') (prio_top s')" using tp f(1,2) unfolding top_inv_def by (auto simp: max_def)
  ultimately show ?thesis using that [OF s'] f by (simp add: sched_inv_def)
qed

text \<open>Two ECs that differ in their registers only.\<close>

definition same_but_regs :: "ec \<Rightarrow> ec \<Rightarrow> bool" where
  "same_but_regs e e' \<longleftrightarrow> e' = e\<lparr>regs := regs e'\<rparr>"

lemma same_but_regs [simp]: "same_but_regs e e" "same_but_regs e (e\<lparr>regs := r\<rparr>)"
  by (simp_all add: same_but_regs_def)

lemma same_but_regsD:
  assumes "same_but_regs e e'"
  shows "ec_queue e' = ec_queue e" "callee e' = callee e" "caller e' = caller e" "cont e' = cont e" "ec_cpu e' = ec_cpu e" "ec_linked e' = ec_linked e"
    "tmo_sm e' = tmo_sm e" "utcb e' = utcb e" "fpu e' = fpu e" "evt e' = evt e"
  by (subst assms [unfolded same_but_regs_def], simp)+

lemma same_but_regs_trans: "same_but_regs a b \<Longrightarrow> same_but_regs b c \<Longrightarrow> same_but_regs a c"
  by (cases a; cases b; cases c) (simp add: same_but_regs_def)

lemma upd_regs_frame [simp]:
  "heap (upd_regs x f s) = heap s" "hdr (upd_regs x f s) = hdr s" "pds (upd_regs x f s) = pds s" "spcs (upd_regs x f s) = spcs s" "scs (upd_regs x f s) = scs s"
  "pts (upd_regs x f s) = pts s" "sms (upd_regs x f s) = sms s" "cpu_id (upd_regs x f s) = cpu_id s" "cpu_hazard (upd_regs x f s) = cpu_hazard s"
  "ready (upd_regs x f s) = ready s" "prio_top (upd_regs x f s) = prio_top s" "release (upd_regs x f s) = release s" "sc_current (upd_regs x f s) = sc_current s"
  "ec_current (upd_regs x f s) = ec_current s" "donations (upd_regs x f s) = donations s" "ipis (upd_regs x f s) = ipis s" "kern.more (upd_regs x f s) = kern.more s"
  "vmcss (upd_regs x f s) = vmcss s" "vmcs_cur (upd_regs x f s) = vmcs_cur s" "fpowner (upd_regs x f s) = fpowner s"
  "int_conf (upd_regs x f s) = int_conf s" "int_sm (upd_regs x f s) = int_sm s" "int_ioapic (upd_regs x f s) = int_ioapic s" "int_rte (upd_regs x f s) = int_rte s"
  "fpu_reg (upd_regs x f s) = fpu_reg s" "fpu_mem (upd_regs x f s) = fpu_mem s" "tmo (upd_regs x f s) = tmo s" "tlist (upd_regs x f s) = tlist s" "dln (upd_regs x f s) = dln s" "same_but_regs (ecs s y) (ecs (upd_regs x f s) y)"
  by (simp_all add: upd_regs_def)

lemma adjust_frame:
  "\<exists>f. adjust_offset_ticks e t s = upd_regs e f s"
proof (cases "k_subtype (hdr s e) = EC_VCPU_OFFS")
  case True
  then show ?thesis by (intro exI) (simp add: adjust_offset_ticks_def hazard_set_def upd_exc_def upd_regs_def upd_ec_def; rule refl)
next
  case False
  then show ?thesis by (intro exI [of _ "\<lambda>r. r"]) (simp add: adjust_offset_ticks_def upd_regs_def upd_ec_def)
qed

lemma ready_adjust_regs: "\<exists>e f. ready_adjust x t s = upd_regs e f s"
proof (cases "sc_ec (scs s x) \<noteq> sc_ec (scs s (sc_current s))")
  case True
  then show ?thesis using adjust_frame by (simp add: ready_adjust_def) blast
next
  case False
  then show ?thesis by (intro exI [of _ 0] exI [of _ "\<lambda>r. r"]) (simp add: ready_adjust_def upd_regs_def upd_ec_def)
qed

lemma ready_dequeue_spec:
  assumes i: "sched_inv s" and ne: "ready s p \<noteq> []"
  obtains x s' where "ready_dequeue t s = Some (x, s')" "sched_inv s'" "sched_frame s s'" "ready s (prio (scs s x)) = x # ready s' (prio (scs s x))"
    "\<And>q. prio (scs s x) < q \<Longrightarrow> ready s q = []" "\<And>q. q \<noteq> prio (scs s x) \<Longrightarrow> ready s' q = ready s q" "release s' = release s" "ipis s' = ipis s"
    "\<And>e. same_but_regs (ecs s e) (ecs s' e)" "scs s' x = (scs s x)\<lparr>sc_linked := False, last_t := t\<rparr>" "\<And>y. y \<noteq> x \<Longrightarrow> scs s' y = scs s y"
    "cpu_hazard s' = cpu_hazard s"
proof -
  have q: "queues_inv s" and tp: "top_inv (ready s) (prio_top s)" using i by (auto simp: sched_inv_def)
  let ?n = "prio_top s"
  have "ready s ?n \<noteq> []" using tp ne unfolding top_inv_def by (metis le_zero_eq)
  then obtain x xs where x: "ready s ?n = x # xs" by (cases "ready s ?n") auto
  then have ok: "sc_linked (scs s x)" "prio (scs s x) = ?n" "sc_cpu (scs s x) = cpu_id s" "?n < priorities"
    using q unfolding queues_inv_def by (metis list.set_intros(1) sq.simps(1) sq_ok.simps(1))+
  let ?r = "(ready s)(?n := xs)"
  define s1 where s1: "s1 = (upd_sc x (\<lambda>c. c\<lparr>sc_linked := False\<rparr>) s)\<lparr>ready := ?r, prio_top := lower_top ?r ?n\<rparr>"
  obtain e f where f: "ready_adjust x t s1 = upd_regs e f s1" using ready_adjust_regs by blast
  define s' where s': "s' = upd_sc x (\<lambda>c. c\<lparr>last_t := t\<rparr>) (upd_regs e f s1)"
  have run: "ready_dequeue t s = Some (x, s')"
    unfolding s' f [symmetric] unfolding s1 using x ok by (simp add: ready_dequeue_def sc_dequeue_head_def lq_dequeue_head_def Let_def)
  have fl: "ready s' = ?r" "prio_top s' = lower_top ?r ?n" "release s' = release s" "ipis s' = ipis s" "\<And>e. same_but_regs (ecs s e) (ecs s' e)"
    "\<And>y. scs s' y = (if y = x then (scs s x)\<lparr>sc_linked := False, last_t := t\<rparr> else scs s y)" "sched_frame s s'" "cpu_hazard s' = cpu_hazard s"
    by (simp_all add: s' upd_regs_def sched_frame_def s1)
  have "queues_inv s'"
  proof (rule queues_inv_remove [OF q, of "Q_ready ?n" x])
    show "sq s' k = sq s k" if "k \<noteq> Q_ready ?n" for k using fl(1,3) same_but_regsD(1) [OF fl(5)] that by (cases k) auto
    show "cpu_id s' = cpu_id s" "\<And>y. prio (scs s' y) = prio (scs s y) \<and> sc_cpu (scs s' y) = sc_cpu (scs s y)" using fl(7) by (simp_all add: sched_frame_def)
  qed (use x fl(1,6) in auto)
  moreover have "\<forall>p. ?r p \<noteq> [] \<longrightarrow> p \<le> ?n" using tp by (auto simp: top_inv_def)
  then have "top_inv (ready s') (prio_top s')" unfolding fl(1,2) by (rule lower_top_inv)
  ultimately have inv: "sched_inv s'" by (simp add: sched_inv_def)
  have hi: "ready s k = []" if "?n < k" for k using tp that by (force simp: top_inv_def)
  show ?thesis by (rule that [OF run inv fl(7)]) (use x ok(2) fl hi in simp_all)
qed

text \<open>Release queues.\<close>

lemma release_enqueue_spec:
  assumes i: "sched_inv s" and x: "\<not> sc_linked (scs s x)" "prio (scs s x) < priorities" and n: "n = sc_cpu (scs s x)"
  obtains s' where "release_enqueue x s = Some s'" "sched_inv s'" "sched_frame s s'" "release s' = (release s)(n := release s n @ [x])" "ready s' = ready s" "ecs s' = ecs s"
    "ipis s' = (if release s n = [] then ipis s @ [(RRQ, n)] else ipis s)" "\<And>y. scs s' y = (if y = x then (scs s x)\<lparr>sc_linked := True\<rparr> else scs s y)"
proof -
  have q: "queues_inv s" and tp: "top_inv (ready s) (prio_top s)" using i by (auto simp: sched_inv_def)
  have nx: "x \<notin> set (release s n)" using queues_linked [OF q, of x "Q_release n"] x(1) by auto
  define s1 where s1: "s1 = (upd_sc x (\<lambda>c. c\<lparr>sc_linked := True\<rparr>) s)\<lparr>release := (release s)(n := release s n @ [x])\<rparr>"
  define s' where s': "s' = (if release s n = [] then send_cpu RRQ n s1 else s1)"
  have run: "release_enqueue x s = Some s'"
    unfolding release_enqueue_def n [symmetric] using x(1) nx by (simp add: s' s1 Let_def sc_enqueue_def lq_enqueue_def)
  have fl: "release s' = (release s)(n := release s n @ [x])" "ready s' = ready s" "prio_top s' = prio_top s" "ecs s' = ecs s"
    "\<And>y. scs s' y = (if y = x then (scs s x)\<lparr>sc_linked := True\<rparr> else scs s y)" "sched_frame s s'"
    "ipis s' = (if release s n = [] then ipis s @ [(RRQ, n)] else ipis s)"
    by (simp_all add: s' s1 send_cpu_def sched_frame_def)
  have "queues_inv s'"
  proof (rule queues_inv_add [OF q x(1), of "Q_release n"])
    have "distinct (release s n)" using q unfolding queues_inv_def by (metis sq.simps(2))
    then show "distinct (sq s' (Q_release n))" using fl(1) nx by simp
    show "sq s' k = sq s k" if "k \<noteq> Q_release n" for k using fl(1,2,4) that by (cases k) auto
  qed (use fl(1,5,6) x n in \<open>auto simp: sched_frame_def\<close>)
  then have "sched_inv s'" using tp fl(2,3) by (simp add: sched_inv_def)
  then show ?thesis using that [OF run] fl by simp
qed

lemma release_dequeue_spec:
  assumes i: "sched_inv s" and x: "release s (cpu_id s) = x # xs"
  obtains s' where "release_dequeue s = Some (Some x, s')" "sched_inv s'" "sched_frame s s'" "release s' = (release s)(cpu_id s := xs)" "ready s' = ready s" "ecs s' = ecs s"
    "ipis s' = ipis s" "\<And>y. scs s' y = (if y = x then (scs s x)\<lparr>sc_linked := False\<rparr> else scs s y)"
    "sc_cpu (scs s x) = cpu_id s" "prio (scs s x) < priorities"
proof -
  have q: "queues_inv s" and tp: "top_inv (ready s) (prio_top s)" using i by (auto simp: sched_inv_def)
  have ok: "sc_cpu (scs s x) = cpu_id s" "prio (scs s x) < priorities"
    using q x unfolding queues_inv_def by (metis list.set_intros(1) sq.simps(2) sq_ok.simps(2))+
  define s' where s': "s' = (upd_sc x (\<lambda>c. c\<lparr>sc_linked := False\<rparr>) s)\<lparr>release := (release s)(cpu_id s := xs)\<rparr>"
  have run: "release_dequeue s = Some (Some x, s')" using x by (simp add: release_dequeue_def sc_dequeue_head_def lq_dequeue_head_def s')
  have fl: "release s' = (release s)(cpu_id s := xs)" "ready s' = ready s" "prio_top s' = prio_top s" "ecs s' = ecs s" "ipis s' = ipis s"
    "\<And>y. scs s' y = (if y = x then (scs s x)\<lparr>sc_linked := False\<rparr> else scs s y)" "sched_frame s s'"
    by (simp_all add: s' sched_frame_def)
  have "queues_inv s'"
  proof (rule queues_inv_remove [OF q, of "Q_release (cpu_id s)" x])
    show "sq s' k = sq s k" if "k \<noteq> Q_release (cpu_id s)" for k using fl(1,2,4) that by (cases k) auto
  qed (use x fl(1,6,7) in \<open>auto simp: sched_frame_def\<close>)
  then have "sched_inv s'" using tp fl(2,3) by (simp add: sched_inv_def)
  then show ?thesis using that [OF run] fl ok by simp
qed

text \<open>Unblocking an SC that is in no queue.\<close>

lemma sched_unblock_spec:
  assumes "sched_inv s" "\<not> sc_linked (scs s x)" "prio (scs s x) < priorities"
  obtains s' where "sched_unblock x t s = Some s'" "sched_inv s'" "sched_frame s s'" "ecs s' = ecs s" "\<And>y. y \<noteq> x \<Longrightarrow> scs s' y = scs s y" "sc_linked (scs s' x)"
    "x \<in> set (ready s' (prio (scs s x))) \<or> x \<in> set (release s' (sc_cpu (scs s x)))"
    "\<And>p y. y \<in> set (ready s p) \<Longrightarrow> y \<in> set (ready s' p)" "\<And>c y. y \<in> set (release s c) \<Longrightarrow> y \<in> set (release s' c)"
proof (cases "cpu_id s = sc_cpu (scs s x)")
  case True
  from ready_enqueue_spec [OF assms(1,2) True [symmetric] assms(3), of t] obtain s' where
    r: "ready_enqueue x t s = Some s'" "sched_inv s'" "sched_frame s s'" "ecs s' = ecs s" "\<And>y. y \<noteq> x \<Longrightarrow> scs s' y = scs s y" "release s' = release s"
    "ready s' = (ready s)(prio (scs s x) := (if left (scs s x) \<noteq> 0 then x # ready s (prio (scs s x)) else ready s (prio (scs s x)) @ [x]))"
    "scs s' x = sc_refill t ((scs s x)\<lparr>sc_linked := True\<rparr>)" by blast
  show ?thesis by (rule that [of s']) (use r True in \<open>auto simp: sched_unblock_def sc_refill_def\<close>)
next
  case False
  from release_enqueue_spec [OF assms(1,2,3) refl] obtain s' where
    r: "release_enqueue x s = Some s'" "sched_inv s'" "sched_frame s s'" "release s' = (release s)(sc_cpu (scs s x) := release s (sc_cpu (scs s x)) @ [x])" "ready s' = ready s"
    "ecs s' = ecs s" "\<And>y. scs s' y = (if y = x then (scs s x)\<lparr>sc_linked := True\<rparr> else scs s y)" by blast
  show ?thesis by (rule that [of s']) (use r False in \<open>auto simp: sched_unblock_def\<close>)
qed

text \<open>Requeueing moves the whole release queue of the core.\<close>

lemma sched_requeue_spec:
  assumes "sched_inv s" "release s (cpu_id s) = xs"
  shows "\<exists>s'. sched_requeue t s = Some s' \<and> sched_inv s' \<and> sched_frame s s' \<and> ecs s' = ecs s \<and> release s' = (release s)(cpu_id s := []) \<and>
    (\<forall>x. x \<in> set xs \<longrightarrow> x \<in> set (ready s' (prio (scs s x)))) \<and> (\<forall>p x. x \<in> set (ready s p) \<longrightarrow> x \<in> set (ready s' p))"
  using assms
proof (induction xs arbitrary: s)
  case Nil
  then show ?case by (intro exI [of _ s]) (auto simp: sched_requeue.simps release_dequeue_def sc_dequeue_head_def lq_dequeue_head_def sched_frame_def fun_upd_idem)
next
  case (Cons x xs)
  from release_dequeue_spec [OF Cons.prems] obtain s1 where
    s1: "release_dequeue s = Some (Some x, s1)" "sched_inv s1" "sched_frame s s1" "release s1 = (release s)(cpu_id s := xs)" "ready s1 = ready s"
      "\<And>y. scs s1 y = (if y = x then (scs s x)\<lparr>sc_linked := False\<rparr> else scs s y)" "sc_cpu (scs s x) = cpu_id s" "prio (scs s x) < priorities" "ecs s1 = ecs s" by blast
  have c1: "cpu_id s1 = cpu_id s" using s1(3) by (simp add: sched_frame_def)
  have "\<not> sc_linked (scs s1 x)" "sc_cpu (scs s1 x) = cpu_id s1" "prio (scs s1 x) < priorities" using s1(6-8) c1 by simp_all
  from ready_enqueue_spec [OF s1(2) this, of t] obtain s2 where
    s2: "ready_enqueue x t s1 = Some s2" "sched_inv s2" "sched_frame s1 s2" "release s2 = release s1"
      "ready s2 = (ready s1)(prio (scs s1 x) := (if left (scs s1 x) \<noteq> 0 then x # ready s1 (prio (scs s1 x)) else ready s1 (prio (scs s1 x)) @ [x]))" "ecs s2 = ecs s1" by blast
  have c2: "cpu_id s2 = cpu_id s" using s2(3) c1 by (simp add: sched_frame_def)
  have "release s2 (cpu_id s2) = xs" using s1(4) s2(4) c2 by simp
  from Cons.IH [OF s2(2) this] obtain s' where
    s': "sched_requeue t s2 = Some s'" "sched_inv s'" "sched_frame s2 s'" "release s' = (release s2)(cpu_id s2 := [])"
      "\<forall>x. x \<in> set xs \<longrightarrow> x \<in> set (ready s' (prio (scs s2 x)))" "\<forall>p x. x \<in> set (ready s2 p) \<longrightarrow> x \<in> set (ready s' p)" "ecs s' = ecs s2" by blast
  have pr: "prio (scs s2 y) = prio (scs s y)" for y using s1(3) s2(3) by (simp add: sched_frame_def)
  have "sched_requeue t s = Some s'" using s1(1) s2(1) s'(1) by (subst sched_requeue.simps) simp
  moreover have "sched_frame s s'" using s1(3) s2(3) s'(3) sched_frame_trans by blast
  moreover have "ecs s' = ecs s" using s1(9) s2(6) s'(7) by simp
  moreover have "release s' = (release s)(cpu_id s := [])" using s'(4) s2(4) s1(4) c2 by simp
  moreover have sub: "y \<in> set (ready s' p)" if "y \<in> set (ready s p)" for p y
  proof -
    have "y \<in> set (ready s2 p)" using that s2(5) s1(5) by (cases "p = prio (scs s1 x)") auto
    then show ?thesis using s'(6) by blast
  qed
  moreover have "x \<in> set (ready s2 (prio (scs s x)))" using s2(5) s1(6) by auto
  then have "y \<in> set (ready s' (prio (scs s y)))" if "y \<in> set (x # xs)" for y using that s'(5,6) pr by auto
  ultimately show ?case using s'(2) by blast
qed

section \<open>Scheduling policy\<close>

text \<open>An idle core with the SCs 0x100 (priority 0, current), 0x200 (priority 5, ready) and 0x300 (priority 5, released by another core).\<close>

definition exc0 :: exc_regs where
  "exc0 = \<lparr>sys = (\<lambda>_. 0), cr2 = 0, err = 0, vec = 0, rip = 0, cs = 0x2b, rfl = 0x40202, rsp = 0, ss = 0x23, offset_tsc = 0, shadow_cr0 = 0, shadow_cr4 = 0,
     intcpt_cr0 = 0, intcpt_cr4 = 0, intcpt_exc = 0, fpu_on = False\<rparr>"

definition regs0 :: cpu_regs where
  "regs0 = \<lparr>vmcb = 0, exc = exc0, cpu_st = \<lparr>star = 0, lstar = 0, fmask = 0, kernel_gs_base = 0\<rparr>, fpu_st = \<lparr>xcr = 1, xss = 0\<rparr>, r_obj = 0, r_hst = 0, r_gst = 0,
     r_pio = 0, r_msr = 0, r_hazard = 0\<rparr>"

definition ec0 :: ec where
  "ec0 = \<lparr>regs = regs0, evt = 0, ec_cpu = 0, fpu = 0, utcb = 0, callee = 0, caller = 0, cont = Idle, tmo_sm = 0, ec_queue = [], ec_linked = False\<rparr>"

definition sc0 :: sc where
  "sc0 = \<lparr>sc_ec = 0, budget = 100, sc_cpu = 0, cos = 0, prio = 0, used = 0, left = 0, last_t = 0, sc_linked = False\<rparr>"

definition kern0 :: kern where
  "kern0 = \<lparr>tmo = tmo timers0, tlist = 0, dln = 0, heap = slab2, hdr = (\<lambda>_. \<lparr>k_type = Type_EC, k_subtype = EC_GLOBAL\<rparr>),
     pds = (\<lambda>_. \<lparr>spaces = 0, space_obj = 0, space_hst = 0, space_pio = 0\<rparr>), spcs = (\<lambda>_. \<lparr>sp_pd = 0, sp_bmp = 0, sp_hst = 0, sp_cpus = 0, sp_pcid = 0, sp_tlb = 0\<rparr>), ecs = (\<lambda>_. ec0),
     scs = (\<lambda>x. if x = 0x200 \<or> x = 0x300 then sc0\<lparr>prio := 5, sc_linked := True\<rparr> else sc0),
     pts = (\<lambda>_. \<lparr>pt_ec = 0, pt_ip = 0, pt_id = 0, pt_mtd = 0\<rparr>), sms = (\<lambda>_. \<lparr>counter = 0, sm_id = 0, sm_queue = []\<rparr>), cpu_id = 0, cpu_hazard = 0,
     ready = (\<lambda>p. if p = 5 then [0x200] else []), prio_top = 5, release = (\<lambda>c. if c = 0 then [0x300] else []), sc_current = 0x100,
     ec_current = (\<lambda>_. 0), hst_cur = 0, donations = 0, ipis = [], vmcss = (\<lambda>_ _. 0), vmcs_cur = 0,
     fpowner = 0, fpu_reg = [], fpu_mem = (\<lambda>_. []), vpids = (\<lambda>_. 0), pcids = 0, int_conf = (\<lambda>_. 1), int_sm = (\<lambda>_. 0), int_ioapic = (\<lambda>_. 0), int_rte = (\<lambda>_. (True, False, False))\<rparr>"

lemma kern0_inv: "sched_inv kern0"
proof -
  have sq: "sq kern0 (Q_ready p) = (if p = 5 then [0x200] else [])" "sq kern0 (Q_release c) = (if c = 0 then [0x300] else [])" "sq kern0 (Q_ec e) = []" for p c e
    by (simp_all add: kern0_def ec0_def)
  have "distinct (sq kern0 q)" for q by (cases q) (simp_all only: sq, auto)
  moreover have "sc_linked (scs kern0 x) \<and> sq_ok (cpu_id kern0) (scs kern0 x) q" if "x \<in> set (sq kern0 q)" for q x
    using that by (cases q) (auto simp: sq kern0_def sc0_def priorities_def ec0_def split: if_splits)
  moreover have "q = q'" if "x \<in> set (sq kern0 q)" "x \<in> set (sq kern0 q')" for q q' x
    using that unfolding atomize_imp by (cases q; cases q') (auto simp only: sq split: if_splits; simp)+
  ultimately have "queues_inv kern0" unfolding queues_inv_def by blast
  then show ?thesis by (simp add: sched_inv_def top_inv_def kern0_def)
qed

text \<open>
  C24: The scheduler picks the highest priority first and serves equal priorities in queue order: with some SC ready, \<open>Scheduler::Ready::dequeue\<close> passes its
  assertions and returns the head of the highest non-empty ready queue, unlinks exactly this SC and keeps the queue invariant.
\<close>

theorem sched_highest_first:
  assumes "sched_inv s" "ready s p \<noteq> []"
  shows "\<exists>x s'. ready_dequeue t s = Some (x, s') \<and> p \<le> prio (scs s x) \<and> (\<forall>q. prio (scs s x) < q \<longrightarrow> ready s q = []) \<and>
    ready s (prio (scs s x)) = x # ready s' (prio (scs s x)) \<and> (\<forall>q. q \<noteq> prio (scs s x) \<longrightarrow> ready s' q = ready s q) \<and>
    \<not> sc_linked (scs s' x) \<and> sched_inv s' \<and> sched_frame s s'"
proof -
  obtain x s' where
    r: "ready_dequeue t s = Some (x, s')" "sched_inv s'" "sched_frame s s'" "ready s (prio (scs s x)) = x # ready s' (prio (scs s x))"
      "\<And>q. prio (scs s x) < q \<Longrightarrow> ready s q = []" "\<And>q. q \<noteq> prio (scs s x) \<Longrightarrow> ready s' q = ready s q" "scs s' x = (scs s x)\<lparr>sc_linked := False, last_t := t\<rparr>"
    by (rule ready_dequeue_spec [OF assms, of t]) (rule that)
  moreover have "p \<le> prio (scs s x)" using r(5) assms(2) by (meson not_le)
  ultimately show ?thesis by auto
qed

theorem sched_highest_first_witness: "\<exists>x s'. ready_dequeue 7 kern0 = Some (x, s') \<and> 5 \<le> prio (scs kern0 x) \<and> sched_inv s'"
proof -
  have "ready kern0 5 \<noteq> []" by (simp add: kern0_def)
  from sched_highest_first [OF kern0_inv this, of 7] show ?thesis by blast
qed



text \<open>
  C26: \<open>Scheduler::requeue\<close> terminates and moves every SC that other cores have released to this core into the ready queue of its priority,
  leaving the release queue empty and all SCs that were ready where they are.
\<close>

theorem sched_requeue_correct:
  assumes "sched_inv s"
  shows "\<exists>s'. sched_requeue t s = Some s' \<and> sched_inv s' \<and> sched_frame s s' \<and> release s' = (release s)(cpu_id s := []) \<and>
    (\<forall>x. x \<in> set (release s (cpu_id s)) \<longrightarrow> x \<in> set (ready s' (prio (scs s x)))) \<and> (\<forall>p x. x \<in> set (ready s p) \<longrightarrow> x \<in> set (ready s' p))"
  using sched_requeue_spec [OF assms refl] by blast

theorem sched_requeue_correct_witness: "\<exists>s'. sched_requeue 7 kern0 = Some s' \<and> release s' 0 = [] \<and> 0x300 \<in> set (ready s' 5)"
proof -
  have "release kern0 (cpu_id kern0) = [0x300]" "prio (scs kern0 0x300) = 5" "cpu_id kern0 = 0" by (simp_all add: kern0_def)
  with sched_requeue_correct [OF kern0_inv, of 7] show ?thesis by auto
qed

end
