(* ===== verification/Nova_Ec.thy ===== *)
theory Nova_Ec
  imports Nova_Sched
begin

text \<open>
  \<^verbatim>\<open>inc/ec.hpp\<close> and \<^verbatim>\<open>src/ec.cpp\<close> and the scheduling loop of \<^verbatim>\<open>src/sc.cpp\<close>: execution contexts that call each other, block and
  unblock, and lazy switching of the FPU. A function that does not return in C++ because it makes an EC current ends with the address of this EC, whose continuation is invoked next.
  \<open>t\<close> is the time of the operation.
\<close>

section \<open>Partners\<close>

definition is_vcpu :: "u64 \<Rightarrow> 'a kern_scheme \<Rightarrow> bool" where
  "is_vcpu x s \<longleftrightarrow> k_subtype (hdr s x) \<ge> EC_VCPU_REAL"

definition set_partner :: "u64 \<Rightarrow> u64 \<Rightarrow> 'a kern_scheme \<Rightarrow> 'a kern_scheme" where
  "set_partner this e s =
     (let s = upd_ec this (\<lambda>x. x\<lparr>callee := e\<rparr>) s;
          s = upd_ec e (\<lambda>x. x\<lparr>caller := this\<rparr>) s
      in s\<lparr>donations := donations s + 1\<rparr>)"

definition clr_partner :: "u64 \<Rightarrow> 'a kern_scheme \<Rightarrow> (bool \<times> 'a kern_scheme) option" where
  "clr_partner this s = do {
     let e = callee (ecs s this);
     assert_that (e \<noteq> 0);
     let s = upd_ec e (\<lambda>x. x\<lparr>caller := 0\<rparr>) s;
     let s = upd_ec this (\<lambda>x. x\<lparr>callee := 0\<rparr>) s;
     Some (donations s \<noteq> 0, s\<lparr>donations := donations s - 1\<rparr>)
   }"

section \<open>Blocking\<close>

definition ec_block :: "u64 \<Rightarrow> 'a kern_scheme \<Rightarrow> 'a kern_scheme" where
  "ec_block x s = upd_ec x (\<lambda>e. e\<lparr>cont := Blocking\<rparr>) s"

definition ec_unblock :: "u64 \<Rightarrow> cont \<Rightarrow> 'a kern_scheme \<Rightarrow> 'a kern_scheme" where
  "ec_unblock x c s = upd_ec x (\<lambda>e. e\<lparr>cont := c\<rparr>) s"

definition blocked :: "ec \<Rightarrow> bool" where
  "blocked e \<longleftrightarrow> cont e = Blocking \<or> cont e = Cont_null"

definition block_sc :: "u64 \<Rightarrow> 'a kern_scheme \<Rightarrow> (bool \<times> 'a kern_scheme) option" where
  "block_sc x s =
     (if \<not> blocked (ecs s x) then Some (False, s)
      else do {
        (_, q, s) \<leftarrow> sc_enqueue (sc_current s) False (ec_queue (ecs s x)) s;
        Some (True, upd_ec x (\<lambda>e. e\<lparr>ec_queue := q\<rparr>) s)
      })"

partial_function (option) unblock_sc :: "u64 \<Rightarrow> u64 \<Rightarrow> 'a kern_scheme \<Rightarrow> 'a kern_scheme option" where
  "unblock_sc x t s = do {
     (r, q, s1) \<leftarrow> sc_dequeue_head (ec_queue (ecs s x)) s;
     case r of
       None \<Rightarrow> Some (upd_ec x (\<lambda>e. e\<lparr>ec_queue := q\<rparr>) s1)
     | Some y \<Rightarrow> do { s2 \<leftarrow> sched_unblock y t (upd_ec x (\<lambda>e. e\<lparr>ec_queue := q\<rparr>) s1); unblock_sc x t s2 }
   }"

definition set_timeout :: "u64 \<Rightarrow> u64 \<Rightarrow> u64 \<Rightarrow> 'a kern_scheme \<Rightarrow> 'a kern_scheme option" where
  "set_timeout x t sm s = timeout_enqueue x t (upd_ec x (\<lambda>e. e\<lparr>tmo_sm := sm\<rparr>) s)"

definition clr_timeout :: "u64 \<Rightarrow> 'a kern_scheme \<Rightarrow> 'a kern_scheme option" where
  "clr_timeout x s = map_option snd (timeout_dequeue x s)"

section \<open>Lazy switching of the FPU\<close>

text \<open>
  The registers and the save areas hold the state components that NOVA manages. \<^verbatim>\<open>Fpu::enable\<close> and \<^verbatim>\<open>Fpu::disable\<close> also write the TS bit of CR0, of which the
  FPU hazard of the core is the copy.
\<close>

definition fpu_enable :: "'a kern_scheme \<Rightarrow> 'a kern_scheme" where
  "fpu_enable s = cpu_hazard_set HZD_FPU s"

definition fpu_disable :: "'a kern_scheme \<Rightarrow> 'a kern_scheme" where
  "fpu_disable s = cpu_hazard_clr HZD_FPU s"

definition vmcs_make_current :: "u64 \<Rightarrow> 'a kern_scheme \<Rightarrow> 'a kern_scheme" where
  "vmcs_make_current v s = s\<lparr>vmcs_cur := v\<rparr>"

definition fpu_ctrl :: "platform \<Rightarrow> bool \<Rightarrow> u64 \<Rightarrow> 'a kern_scheme \<Rightarrow> 'a kern_scheme" where
  "fpu_ctrl P on x s =
     (let v = vmcb (regs (ecs s x)); e = exc (regs (ecs s x))
      in if p_vmx P
         then let (e, m) = fpu_ctrl_vmx (p_caps P) on (e, vmcss s v)
              in upd_exc x (\<lambda>_. e) ((vmcs_make_current v s)\<lparr>vmcss := (vmcss s)(v := m)\<rparr>)
         else let (e, m) = fpu_ctrl_svm v on (e, mem (heap s))
              in upd_exc x (\<lambda>_. e) (s\<lparr>heap := (heap s)\<lparr>mem := m\<rparr>\<rparr>))"

definition fpu_load :: "platform \<Rightarrow> u64 \<Rightarrow> 'a kern_scheme \<Rightarrow> 'a kern_scheme option" where
  "fpu_load P x s = do {
     assert_that (fpu (ecs s x) \<noteq> 0);
     let s = (if utcb (ecs s x) = 0 then fpu_ctrl P True x s else s);
     let s = s\<lparr>fpu_reg := fpu_mem s (fpu (ecs s x))\<rparr>;
     Some (hazard_set x HZD_FPU s)
   }"

definition fpu_save :: "platform \<Rightarrow> u64 \<Rightarrow> 'a kern_scheme \<Rightarrow> 'a kern_scheme option" where
  "fpu_save P x s = do {
     assert_that (fpu (ecs s x) \<noteq> 0);
     let s = (if utcb (ecs s x) = 0 then fpu_ctrl P False x s else s);
     let s = s\<lparr>fpu_mem := (fpu_mem s)(fpu (ecs s x) := fpu_reg s)\<rparr>;
     Some (hazard_clr x HZD_FPU s)
   }"

definition switch_fpu :: "platform \<Rightarrow> u64 \<Rightarrow> 'a kern_scheme \<Rightarrow> (bool \<times> 'a kern_scheme) option" where
  "switch_fpu P x s = do {
     assert_that (x \<noteq> 0 \<longrightarrow> fpowner s \<noteq> x \<and> cpu_hazard s AND HZD_FPU = 0);
     if x \<noteq> 0 \<and> fpu (ecs s x) = 0 then Some (False, s)
     else do {
       let s = fpu_enable s;
       s \<leftarrow> (if fpowner s \<noteq> 0 then fpu_save P (fpowner s) s else Some s);
       let s = s\<lparr>fpowner := x\<rparr>;
       s \<leftarrow> (if x \<noteq> 0 then fpu_load P x s else Some s);
       Some (True, s)
     }
   }"

section \<open>Activation and scheduling\<close>

text \<open>The chain of callees ends at the EC that runs on behalf of the callers; the loop does not return on a cyclic chain.\<close>

partial_function (option) callee_chain :: "u64 \<Rightarrow> u32 \<Rightarrow> 'a kern_scheme \<Rightarrow> (u64 \<times> u32) option" where
  "callee_chain e n s = (if callee (ecs s e) = 0 then Some (e, n) else callee_chain (callee (ecs s e)) (n + 1) s)"

text \<open>\<^verbatim>\<open>Space_hst::make_current\<close>: a core that is marked in the space loads the page table with a flush of the translations, otherwise the page table is loaded only if it changes.\<close>

definition hst_make_current :: "u64 \<Rightarrow> 'a kern_scheme \<Rightarrow> 'a kern_scheme" where
  "hst_make_current h s =
     (let b = BITN (cpu_id s mod 64)
      in if sp_tlb (spcs s h) AND b \<noteq> 0 then s\<lparr>spcs := (spcs s)(h := (spcs s h)\<lparr>sp_tlb := sp_tlb (spcs s h) AND NOT b\<rparr>), hst_cur := h\<rparr>
         else if hst_cur s = h then s else s\<lparr>hst_cur := h\<rparr>)"

text \<open>\<^verbatim>\<open>Ec_arch::make_current\<close>: the stack and task-state switch have no counterpart.\<close>

definition make_current :: "u64 \<Rightarrow> 'a kern_scheme \<Rightarrow> 'a kern_scheme option" where
  "make_current x s = do {
     assert_that (r_hst (regs (ecs s x)) \<noteq> 0);
     let s = hst_make_current (r_hst (regs (ecs s x))) s;
     Some (s\<lparr>ec_current := (ec_current s)(cpu_id s := x)\<rparr>)
   }"

text \<open>\<open>activate\<close> returns only if the current SC has been blocked on the EC.\<close>

definition activate :: "u64 \<Rightarrow> 'a kern_scheme \<Rightarrow> (u64 option \<times> 'a kern_scheme) option" where
  "activate x s = do {
     (e, n) \<leftarrow> callee_chain x 0 s;
     let s = s\<lparr>donations := n\<rparr>;
     if \<not> blocked (ecs s e) then do { s \<leftarrow> make_current e s; Some (Some e, s) }
     else do {
       (b, s) \<leftarrow> block_sc e s;
       if \<not> b then do { s \<leftarrow> make_current e s; Some (Some e, s) } else Some (None, s)
     }
   }"

text \<open>Class-of-service switching (\<^verbatim>\<open>Cos::make_current\<close>) writes model-specific registers only.\<close>

partial_function (option) schedule_loop :: "u64 \<Rightarrow> 'a kern_scheme \<Rightarrow> (u64 \<times> 'a kern_scheme) option" where
  "schedule_loop t s = do {
     (x, s1) \<leftarrow> ready_dequeue t s;
     s2 \<leftarrow> timeout_enqueue budget_timeout (t + left (scs s1 x)) (s1\<lparr>sc_current := x\<rparr>);
     (r, s3) \<leftarrow> activate (sc_ec (scs s2 x)) s2;
     case r of
       Some e \<Rightarrow> Some (e, s3)
     | None \<Rightarrow> do { (_, s4) \<leftarrow> timeout_dequeue budget_timeout s3; schedule_loop t s4 }
   }"

text \<open>What the current SC is charged for: the time since it was dispatched, and what is left of its budget.\<close>

definition sc_charge :: "u64 \<Rightarrow> u64 \<Rightarrow> sc \<Rightarrow> sc" where
  "sc_charge t d c = c\<lparr>used := used c + (t - last_t c), left := (if d > t then d - t else 0)\<rparr>"

definition schedule :: "bool \<Rightarrow> u64 \<Rightarrow> 'a kern_scheme \<Rightarrow> (u64 \<times> 'a kern_scheme) option" where
  "schedule bl t s = do {
     let c = sc_current s;
     assert_that (c \<noteq> 0);
     assert_that (bl \<or> \<not> sc_linked (scs s c));
     (d, s) \<leftarrow> timeout_dequeue budget_timeout s;
     let s = cpu_hazard_clr HZD_SCHED (upd_sc c (sc_charge t d) s);
     s \<leftarrow> (if bl then Some s else ready_enqueue c t s);
     schedule_loop t s
   }"

text \<open>
  Helping: the interrupts that are taken at the preemption point are an arbitrary change \<open>pp\<close> of the state. \<open>None\<close> is returned when the function returns,
  because the EC to be helped is dead.
\<close>

definition ec_help :: "('a kern_scheme \<Rightarrow> 'a kern_scheme) \<Rightarrow> u64 \<Rightarrow> u64 \<Rightarrow> cont \<Rightarrow> u64 \<Rightarrow> 'a kern_scheme \<Rightarrow> (u64 option \<times> 'a kern_scheme) option" where
  "ec_help pp this e c t s =
     (if cont (ecs s e) = Dead then Some (None, s)
      else do {
        let s = pp (upd_ec this (\<lambda>x. x\<lparr>cont := c\<rparr>) s);
        if cpu_hazard s AND HZD_SCHED \<noteq> 0 then do { (x, s) \<leftarrow> schedule False t s; Some (Some x, s) }
        else do {
          (r, s) \<leftarrow> activate e s;
          case r of Some x \<Rightarrow> Some (Some x, s) | None \<Rightarrow> do { (x, s) \<leftarrow> schedule True t s; Some (Some x, s) }
        }
      })"

section \<open>Rendezvous and reply\<close>

text \<open>The instruction pointer of a hypercall is in \<^verbatim>\<open>rcx\<close>, the first two parameters are in \<^verbatim>\<open>rdi\<close> and \<^verbatim>\<open>rsi\<close>.\<close>

definition rendezvous :: "u64 \<Rightarrow> u64 \<Rightarrow> cont \<Rightarrow> cont \<Rightarrow> u64 \<Rightarrow> u64 \<Rightarrow> u64 \<Rightarrow> 'a kern_scheme \<Rightarrow> (u64 option \<times> 'a kern_scheme) option" where
  "rendezvous this e c ce ip i mtd s =
     (if cont (ecs s e) \<noteq> Cont_null then Some (None, s)
      else do {
        let s = set_partner this e (upd_ec this (\<lambda>x. x\<lparr>cont := c\<rparr>) s);
        let s = upd_ec e (\<lambda>x. x\<lparr>cont := ce\<rparr>) s;
        let s = upd_exc e (\<lambda>r. r\<lparr>sys := (sys r)(RCX := ip, RDI := i, RSI := mtd)\<rparr>) s;
        s \<leftarrow> make_current e s;
        Some (Some e, s)
      })"

definition reply :: "u64 \<Rightarrow> cont \<Rightarrow> u64 \<Rightarrow> 'a kern_scheme \<Rightarrow> (u64 \<times> 'a kern_scheme) option" where
  "reply this c t s = do {
     let s = upd_ec this (\<lambda>x. x\<lparr>cont := c\<rparr>) s;
     let e = caller (ecs s this);
     if e \<noteq> 0 then do {
       assert_that (k_subtype (hdr s this) = EC_LOCAL);
       (b, s) \<leftarrow> clr_partner e s;
       if b then do { s \<leftarrow> make_current e s; Some (e, s) }
       else do {
         (r, s) \<leftarrow> activate (sc_ec (scs s (sc_current s))) s;
         case r of Some x \<Rightarrow> Some (x, s) | None \<Rightarrow> schedule True t s
       }
     }
     else schedule True t s
   }"

definition kill :: "u64 \<Rightarrow> u64 \<Rightarrow> 'a kern_scheme \<Rightarrow> (u64 \<times> 'a kern_scheme) option" where
  "kill this t s = do {
     let e = caller (ecs s this);
     let s = (if e \<noteq> 0 then upd_ec e (\<lambda>x. x\<lparr>cont := (if cont x = Ret_hypercall then Sys_finish ABORTED False else Dead)\<rparr>) s else s);
     reply this Dead t s
   }"

lemma hst_make_current_frame [simp]:
  "heap (hst_make_current h s) = heap s" "hdr (hst_make_current h s) = hdr s" "pds (hst_make_current h s) = pds s" "ecs (hst_make_current h s) = ecs s" "scs (hst_make_current h s) = scs s"
  "pts (hst_make_current h s) = pts s" "sms (hst_make_current h s) = sms s" "cpu_id (hst_make_current h s) = cpu_id s" "cpu_hazard (hst_make_current h s) = cpu_hazard s"
  "ready (hst_make_current h s) = ready s" "prio_top (hst_make_current h s) = prio_top s" "release (hst_make_current h s) = release s" "sc_current (hst_make_current h s) = sc_current s"
  "ec_current (hst_make_current h s) = ec_current s" "donations (hst_make_current h s) = donations s" "ipis (hst_make_current h s) = ipis s" "hst_cur (hst_make_current h s) = h"
  by (simp_all add: hst_make_current_def Let_def)

section \<open>FPU ownership\<close>

text \<open>The owner of the FPU has a save area, save areas are not shared, and the FPU hazard marks exactly the owner.\<close>

definition fpu_inv :: "'a kern_scheme \<Rightarrow> bool" where
  "fpu_inv s \<longleftrightarrow> (fpowner s \<noteq> 0 \<longrightarrow> fpu (ecs s (fpowner s)) \<noteq> 0) \<and> (\<forall>x y. fpu (ecs s x) \<noteq> 0 \<longrightarrow> fpu (ecs s x) = fpu (ecs s y) \<longrightarrow> x = y) \<and>
     (\<forall>x. x \<noteq> 0 \<longrightarrow> (bit (r_hazard (regs (ecs s x))) 16 \<longleftrightarrow> x = fpowner s))"

text \<open>The floating-point state of an EC: in the registers if it is the owner, in its save area otherwise.\<close>

definition fpu_view :: "'a kern_scheme \<Rightarrow> u64 \<Rightarrow> fpu_img" where
  "fpu_view s x = (if x = fpowner s then fpu_reg s else fpu_mem s (fpu (ecs s x)))"

lemma fpu_ctrl_frame [simp]:
  "fpowner (fpu_ctrl P on x s) = fpowner s" "fpu_reg (fpu_ctrl P on x s) = fpu_reg s" "fpu_mem (fpu_ctrl P on x s) = fpu_mem s"
  "fpu (ecs (fpu_ctrl P on x s) y) = fpu (ecs s y)" "r_hazard (regs (ecs (fpu_ctrl P on x s) y)) = r_hazard (regs (ecs s y))" "utcb (ecs (fpu_ctrl P on x s) y) = utcb (ecs s y)"
  by (simp_all add: fpu_ctrl_def Let_def case_prod_unfold upd_exc_def upd_regs_def vmcs_make_current_def upd_ec_def)

lemma bit_FPU: "bit (HZD_FPU) n \<longleftrightarrow> n = 16"
  unfolding HZD_FPU_def BIT_def bit_push_bit_iff bit_1_iff by auto

lemma fpu_save_spec:
  assumes "fpu (ecs s x) \<noteq> 0"
  obtains s' where "fpu_save P x s = Some s'" "fpowner s' = fpowner s" "fpu_reg s' = fpu_reg s" "fpu_mem s' = (fpu_mem s)(fpu (ecs s x) := fpu_reg s)"
    "\<And>y. fpu (ecs s' y) = fpu (ecs s y)" "\<And>y. bit (r_hazard (regs (ecs s' y))) 16 \<longleftrightarrow> y \<noteq> x \<and> bit (r_hazard (regs (ecs s y))) 16"
proof -
  define s1 where s1: "s1 = (if utcb (ecs s x) = 0 then fpu_ctrl P False x s else s)"
  have f: "fpowner s1 = fpowner s" "fpu_reg s1 = fpu_reg s" "fpu_mem s1 = fpu_mem s" "fpu (ecs s1 y) = fpu (ecs s y)" "r_hazard (regs (ecs s1 y)) = r_hazard (regs (ecs s y))" for y
    by (simp_all add: s1)
  show ?thesis
  proof (rule that)
    show "fpu_save P x s = Some (hazard_clr x HZD_FPU (s1\<lparr>fpu_mem := (fpu_mem s1)(fpu (ecs s1 x) := fpu_reg s1)\<rparr>))"
      using assms by (simp add: fpu_save_def s1 Let_def)
  qed (auto simp: hazard_clr_def upd_regs_def f bit_and_iff bit_not_iff bit_FPU)
qed

lemma fpu_load_spec:
  assumes "fpu (ecs s x) \<noteq> 0"
  obtains s' where "fpu_load P x s = Some s'" "fpowner s' = fpowner s" "fpu_reg s' = fpu_mem s (fpu (ecs s x))" "fpu_mem s' = fpu_mem s"
    "\<And>y. fpu (ecs s' y) = fpu (ecs s y)" "\<And>y. bit (r_hazard (regs (ecs s' y))) 16 \<longleftrightarrow> y = x \<or> bit (r_hazard (regs (ecs s y))) 16"
proof -
  define s1 where s1: "s1 = (if utcb (ecs s x) = 0 then fpu_ctrl P True x s else s)"
  have f: "fpowner s1 = fpowner s" "fpu_reg s1 = fpu_reg s" "fpu_mem s1 = fpu_mem s" "fpu (ecs s1 y) = fpu (ecs s y)" "r_hazard (regs (ecs s1 y)) = r_hazard (regs (ecs s y))" for y
    by (simp_all add: s1)
  show ?thesis
  proof (rule that)
    show "fpu_load P x s = Some (hazard_set x HZD_FPU (s1\<lparr>fpu_reg := fpu_mem s1 (fpu (ecs s1 x))\<rparr>))"
      using assms by (simp add: fpu_load_def s1 Let_def)
  qed (auto simp: hazard_set_def upd_regs_def f bit_or_iff bit_FPU)
qed

text \<open>
  C28: Lazy FPU switching isolates execution contexts: \<^verbatim>\<open>Ec::switch_fpu\<close> to an eligible EC passes its assertions, makes it the owner, marks exactly the owner with the
  FPU hazard, and keeps the floating-point state of every EC, whether it was in the registers or in a save area.
\<close>

theorem switch_fpu_isolates:
  assumes "fpu_inv s" "x \<noteq> 0" "fpowner s \<noteq> x" "cpu_hazard s AND HZD_FPU = 0" "fpu (ecs s x) \<noteq> 0"
  shows "\<exists>s'. switch_fpu P x s = Some (True, s') \<and> fpowner s' = x \<and> fpu_inv s' \<and> (\<forall>y. y \<noteq> 0 \<longrightarrow> fpu (ecs s y) \<noteq> 0 \<longrightarrow> fpu_view s' y = fpu_view s y)"
proof -
  let ?o = "fpowner s"
  define s0 where s0: "s0 = fpu_enable s"
  have e: "ecs s0 = ecs s" "fpowner s0 = fpowner s" "fpu_reg s0 = fpu_reg s" "fpu_mem s0 = fpu_mem s" by (simp_all add: s0 fpu_enable_def)
  have inv: "?o \<noteq> 0 \<Longrightarrow> fpu (ecs s ?o) \<noteq> 0" "\<And>a b. fpu (ecs s a) \<noteq> 0 \<Longrightarrow> fpu (ecs s a) = fpu (ecs s b) \<Longrightarrow> a = b"
    "\<And>a. a \<noteq> 0 \<Longrightarrow> bit (r_hazard (regs (ecs s a))) 16 \<longleftrightarrow> a = ?o" using assms(1) unfolding fpu_inv_def by blast+
  obtain s1 where s1: "(if fpowner s0 \<noteq> 0 then fpu_save P (fpowner s0) s0 else Some s0) = Some s1"
    "fpu_mem s1 = (if ?o \<noteq> 0 then (fpu_mem s)(fpu (ecs s ?o) := fpu_reg s) else fpu_mem s)"
    "\<And>y. fpu (ecs s1 y) = fpu (ecs s y)" "\<And>y. y \<noteq> 0 \<Longrightarrow> \<not> bit (r_hazard (regs (ecs s1 y))) 16"
  proof (cases "?o = 0")
    case True
    show ?thesis by (rule that [of s0]) (use True inv(3) in \<open>auto simp: e\<close>)
  next
    case False
    from inv(1) [OF False] have "fpu (ecs s0 ?o) \<noteq> 0" by (simp add: e)
    then obtain s1 where "fpu_save P ?o s0 = Some s1" "fpu_mem s1 = (fpu_mem s)(fpu (ecs s ?o) := fpu_reg s)"
      "\<And>y. fpu (ecs s1 y) = fpu (ecs s y)" "\<And>y. bit (r_hazard (regs (ecs s1 y))) 16 \<longleftrightarrow> y \<noteq> ?o \<and> bit (r_hazard (regs (ecs s y))) 16"
      using fpu_save_spec [of s0 ?o P] unfolding e by metis
    then show ?thesis using False inv(3) e(2) by (intro that [of s1]) auto
  qed
  let ?s1 = "s1\<lparr>fpowner := x\<rparr>"
  have "fpu (ecs ?s1 x) \<noteq> 0" using assms(5) s1(3) by simp
  then obtain s2 where r2: "fpu_load P x ?s1 = Some s2" "fpowner s2 = fpowner ?s1" "fpu_reg s2 = fpu_mem ?s1 (fpu (ecs ?s1 x))"
    "fpu_mem s2 = fpu_mem ?s1" "\<And>y. fpu (ecs s2 y) = fpu (ecs ?s1 y)" "\<And>y. bit (r_hazard (regs (ecs s2 y))) 16 \<longleftrightarrow> y = x \<or> bit (r_hazard (regs (ecs ?s1 y))) 16"
    by (rule fpu_load_spec) (rule that)
  then have s2: "fpu_load P x ?s1 = Some s2" "fpowner s2 = x" "fpu_reg s2 = fpu_mem s1 (fpu (ecs s x))" "fpu_mem s2 = fpu_mem s1"
    "\<And>y. fpu (ecs s2 y) = fpu (ecs s y)" "\<And>y. bit (r_hazard (regs (ecs s2 y))) 16 \<longleftrightarrow> y = x \<or> bit (r_hazard (regs (ecs s1 y))) 16"
    using s1(3) by simp_all
  have "switch_fpu P x s = Some (True, s2)" using assms(2-5) s1(1) s2(1) by (simp add: switch_fpu_def Let_def s0 [symmetric])
  moreover have "fpu_inv s2" using inv(2) assms(5) s1(4) unfolding fpu_inv_def s2(2,5,6) by blast
  moreover have "fpu_view s2 y = fpu_view s y" if "y \<noteq> 0" "fpu (ecs s y) \<noteq> 0" for y
    using that assms(3) inv(2) [of y ?o] inv(2) [of x ?o] assms(5) by (auto simp: fpu_view_def s2(2-5) s1(2))
  ultimately show ?thesis using s2(2) by blast
qed

definition kern_fpu :: kern where
  "kern_fpu = kern0\<lparr>ecs := (ecs kern0)(0x400 := ec0\<lparr>fpu := 0x800, utcb := 0x1000, regs := regs0\<lparr>r_hazard := HZD_FPU\<rparr>\<rparr>, 0x410 := ec0\<lparr>fpu := 0x900, utcb := 0x2000\<rparr>),
     fpowner := 0x400, fpu_reg := [1, 2], fpu_mem := (\<lambda>_. [])(0x900 := [3])\<rparr>"

definition plat0 :: platform where
  "plat0 = \<lparr>p_freq = 1000000, p_vmx = True, p_svm = False, p_caps = svm_caps, p_hfpu = \<lparr>xcr = 7, xss = 0\<rparr>, p_off = 0\<rparr>"

theorem switch_fpu_isolates_witness:
  "\<exists>s'. switch_fpu plat0 0x410 kern_fpu = Some (True, s') \<and> fpowner s' = 0x410 \<and> fpu_view s' 0x400 = [1, 2] \<and> fpu_view s' 0x410 = [3]"
proof -
  have i: "fpu_inv kern_fpu" by (simp add: fpu_inv_def kern_fpu_def kern0_def ec0_def regs0_def bit_FPU)
  have h: "fpowner kern_fpu \<noteq> 0x410" "cpu_hazard kern_fpu AND HZD_FPU = 0" "fpu (ecs kern_fpu 0x410) \<noteq> 0" "fpu (ecs kern_fpu 0x400) \<noteq> 0"
    "fpu_view kern_fpu 0x400 = [1, 2]" "fpu_view kern_fpu 0x410 = [3]" by (simp_all add: kern_fpu_def kern0_def fpu_view_def)
  have "(0x410 :: u64) \<noteq> 0" "(0x400 :: u64) \<noteq> 0" by simp_all
  then show ?thesis using switch_fpu_isolates [OF i _ h(1-3), of plat0] h(3-6) by metis
qed

text \<open>The invariant of the queues depends on the queues and the SCs.\<close>

lemma sched_inv_cong:
  assumes "sched_inv s" "ready s' = ready s" "prio_top s' = prio_top s" "release s' = release s" "scs s' = scs s" "cpu_id s' = cpu_id s"
    "\<And>x. ec_queue (ecs s' x) = ec_queue (ecs s x)"
  shows "sched_inv s'"
proof -
  have "sq s' q = sq s q" for q using assms(2,4,7) by (cases q) auto
  then show ?thesis using assms unfolding sched_inv_def queues_inv_def by simp
qed

section \<open>Activation\<close>

text \<open>The ECs that are called, one by another, starting from \<open>x\<close>.\<close>

fun call_path :: "'a kern_scheme \<Rightarrow> u64 \<Rightarrow> u64 list \<Rightarrow> bool" where
  "call_path s x [] \<longleftrightarrow> callee (ecs s x) = 0"
| "call_path s x (y # ys) \<longleftrightarrow> callee (ecs s x) = y \<and> y \<noteq> 0 \<and> call_path s y ys"

lemma callee_chain_path: "call_path s x ys \<Longrightarrow> callee_chain x n s = Some (last (x # ys), n + of_nat (length ys))"
proof (induction ys arbitrary: x n)
  case Nil
  then show ?case by (simp add: callee_chain.simps)
next
  case (Cons y ys)
  then have "callee_chain y (n + 1) s = Some (last (y # ys), n + 1 + of_nat (length ys))" by simp
  then show ?case using Cons.prems by (subst callee_chain.simps) (simp add: algebra_simps)
qed

text \<open>
  C29: Activation follows the chain of calls and donates the SC to its end: with a finite chain, \<^verbatim>\<open>Ec::activate\<close> terminates and counts the donations. If the EC at the end is
  not blocked it becomes current; if it is blocked, the current SC is queued there, to be unblocked with the EC, and nothing becomes current.
\<close>

theorem activate_follows_calls:
  assumes "call_path s x ys" "e = last (x # ys)" "r_hst (regs (ecs s e)) \<noteq> 0" "queues_inv s" "\<not> sc_linked (scs s (sc_current s))"
  shows "if blocked (ecs s e)
    then \<exists>s'. activate x s = Some (None, s') \<and> ec_queue (ecs s' e) = ec_queue (ecs s e) @ [sc_current s] \<and> sc_linked (scs s' (sc_current s)) \<and> ec_current s' = ec_current s \<and>
      donations s' = of_nat (length ys)
    else activate x s = Some (Some e, (hst_make_current (r_hst (regs (ecs s e))) (s\<lparr>donations := of_nat (length ys)\<rparr>))\<lparr>ec_current := (ec_current s)(cpu_id s := e)\<rparr>)"
proof -
  have c: "callee_chain x 0 s = Some (e, of_nat (length ys))" using callee_chain_path [OF assms(1), of 0] assms(2) by simp
  have "sc_current s \<notin> set (ec_queue (ecs s e))" using queues_linked [OF assms(4), of "sc_current s" "Q_ec e"] assms(5) by auto
  then show ?thesis using c assms(3,5) by (simp add: activate_def Let_def make_current_def block_sc_def sc_enqueue_def lq_enqueue_def)
qed

definition kern_ipc :: kern where
  "kern_ipc = kern0\<lparr>hdr := (hdr kern0)(0x410 := \<lparr>k_type = Type_EC, k_subtype = EC_LOCAL\<rparr>),
     ecs := (\<lambda>_. ec0\<lparr>regs := regs0\<lparr>r_hst := 0x700\<rparr>\<rparr>)(0x410 := ec0\<lparr>cont := Cont_null, regs := regs0\<lparr>r_hst := 0x700\<rparr>\<rparr>, 0x420 := ec0\<lparr>callee := 0x410\<rparr>)\<rparr>"

lemma kern_ipc_inv: "sched_inv kern_ipc"
  by (rule sched_inv_cong [OF kern0_inv]) (simp_all add: kern_ipc_def kern0_def ec0_def)

theorem activate_follows_calls_witness:
  "\<exists>s'. activate 0x420 kern_ipc = Some (None, s') \<and> ec_queue (ecs s' 0x410) = [0x100] \<and> donations s' = 1"
proof -
  have h: "call_path kern_ipc 0x420 [0x410]" "0x410 = last [0x420, 0x410 :: u64]" "r_hst (regs (ecs kern_ipc 0x410)) \<noteq> 0" "\<not> sc_linked (scs kern_ipc (sc_current kern_ipc))"
    "blocked (ecs kern_ipc 0x410)" "ec_queue (ecs kern_ipc 0x410) = []" "sc_current kern_ipc = 0x100"
    by (simp_all add: kern_ipc_def ec0_def kern0_def sc0_def blocked_def)
  have "queues_inv kern_ipc" using kern_ipc_inv by (simp add: sched_inv_def)
  from activate_follows_calls [OF h(1-3) this h(4)] h(5-7) show ?thesis by auto
qed

section \<open>Call and reply\<close>

text \<open>
  A call and its reply bypass the scheduler and undo each other: a rendezvous with a waiting EC makes this EC current with the entry point, portal identifier and message
  descriptor in its registers, and the reply makes the caller current again, clears the partner relation and the donation, and leaves the EC waiting. A rendezvous with an EC that is
  not waiting has no effect.
\<close>

theorem call_reply_roundtrip:
  assumes "this \<noteq> e" "this \<noteq> 0" "e \<noteq> 0" "k_subtype (hdr s e) = EC_LOCAL" "donations s \<noteq> - 1" "r_hst (regs (ecs s this)) \<noteq> 0" "r_hst (regs (ecs s e)) \<noteq> 0"
    and "callee (ecs s this) = 0" "caller (ecs s e) = 0"
  shows "(cont (ecs s e) \<noteq> Cont_null \<longrightarrow> rendezvous this e c ce ip i mtd s = Some (None, s)) \<and>
    (cont (ecs s e) = Cont_null \<longrightarrow> (\<exists>s1 s2. rendezvous this e c ce ip i mtd s = Some (Some e, s1) \<and> ec_current s1 (cpu_id s1) = e \<and> cont (ecs s1 e) = ce \<and>
      (let g = sys (exc (regs (ecs s1 e))) in g RCX = ip \<and> g RDI = i \<and> g RSI = mtd) \<and> callee (ecs s1 this) = e \<and> caller (ecs s1 e) = this \<and>
      reply e Cont_null t s1 = Some (this, s2) \<and> ec_current s2 (cpu_id s2) = this \<and> ecs s2 this = (ecs s this)\<lparr>cont := c\<rparr> \<and>
      ecs s2 e = (ecs s e)\<lparr>regs := regs (ecs s1 e)\<rparr> \<and> donations s2 = donations s))"
proof (intro conjI impI)
  assume w: "cont (ecs s e) = Cont_null"
  define s0 where s0: "s0 = upd_exc e (\<lambda>r. r\<lparr>sys := (sys r)(RCX := ip, RDI := i, RSI := mtd)\<rparr>) (upd_ec e (\<lambda>x. x\<lparr>cont := ce\<rparr>) (set_partner this e (upd_ec this (\<lambda>x. x\<lparr>cont := c\<rparr>) s)))"
  define s1 where s1: "s1 = (hst_make_current (r_hst (regs (ecs s0 e))) s0)\<lparr>ec_current := (ec_current s0)(cpu_id s0 := e)\<rparr>"
  have e: "ecs s1 this = (ecs s this)\<lparr>cont := c, callee := e\<rparr>" "ecs s1 e = (ecs s e)\<lparr>caller := this, cont := ce, regs := regs (ecs s1 e)\<rparr>"
    "sys (exc (regs (ecs s1 e))) = (sys (exc (regs (ecs s e))))(RCX := ip, RDI := i, RSI := mtd)" "r_hst (regs (ecs s1 e)) = r_hst (regs (ecs s e))"
    "donations s1 = donations s + 1" "hdr s1 = hdr s" "ec_current s1 (cpu_id s1) = e"
    using assms(1) by (simp_all add: s1 s0 set_partner_def upd_exc_def upd_regs_def Let_def)
  have run: "rendezvous this e c ce ip i mtd s = Some (Some e, s1)" using w e(4) assms(7) by (simp add: rendezvous_def Let_def s1 s0 make_current_def upd_exc_def upd_regs_def set_partner_def)
  define s2 where s2: "s2 = (hst_make_current (r_hst (regs (ecs s1 this))) ((upd_ec this (\<lambda>x. x\<lparr>callee := 0\<rparr>) (upd_ec e (\<lambda>x. x\<lparr>caller := 0\<rparr>) (upd_ec e (\<lambda>x. x\<lparr>cont := Cont_null\<rparr>) s1)))
    \<lparr>donations := donations s1 - 1\<rparr>))\<lparr>ec_current := (ec_current s1)(cpu_id s1 := this)\<rparr>"
  have f: "callee (ecs s1 this) = e" "caller (ecs s1 e) = this" "cont (ecs s1 e) = ce" "r_hst (regs (ecs s1 this)) = r_hst (regs (ecs s this))" by (subst e, simp)+
  have "donations s1 \<noteq> 0" using assms(5) e(5) by (metis add_eq_0_iff2)
  then have rep: "reply e Cont_null t s1 = Some (this, s2)"
    using assms(1-4,6) f e(6) by (simp add: reply_def Let_def clr_partner_def make_current_def s2)
  have "ecs s2 this = (ecs s this)\<lparr>cont := c\<rparr>" using assms(1,8) e(1) by (simp add: s2)
  moreover have "ecs s2 e = (ecs s e)\<lparr>regs := regs (ecs s1 e)\<rparr>" using assms(1,9) w by (simp add: s2) (subst e(2), simp)
  moreover have "ec_current s2 (cpu_id s2) = this" "donations s2 = donations s" by (simp_all add: s2 e(5))
  ultimately show "\<exists>s1 s2. rendezvous this e c ce ip i mtd s = Some (Some e, s1) \<and> ec_current s1 (cpu_id s1) = e \<and> cont (ecs s1 e) = ce \<and>
      (let g = sys (exc (regs (ecs s1 e))) in g RCX = ip \<and> g RDI = i \<and> g RSI = mtd) \<and> callee (ecs s1 this) = e \<and> caller (ecs s1 e) = this \<and>
      reply e Cont_null t s1 = Some (this, s2) \<and> ec_current s2 (cpu_id s2) = this \<and> ecs s2 this = (ecs s this)\<lparr>cont := c\<rparr> \<and>
      ecs s2 e = (ecs s e)\<lparr>regs := regs (ecs s1 e)\<rparr> \<and> donations s2 = donations s"
    using run rep f e(3,7) by (intro exI [of _ s1] exI [of _ s2]) simp
qed (simp add: rendezvous_def)

theorem call_reply_roundtrip_witness:
  "\<exists>s1 s2. rendezvous 0x400 0x410 Ret_hypercall Recv_user 0x1000 7 3 kern_ipc = Some (Some 0x410, s1) \<and> reply 0x410 Cont_null 5 s1 = Some (0x400, s2) \<and>
    cont (ecs s2 0x400) = Ret_hypercall"
proof -
  have h: "(0x400 :: u64) \<noteq> 0x410" "(0x400 :: u64) \<noteq> 0" "(0x410 :: u64) \<noteq> 0" "k_subtype (hdr kern_ipc 0x410) = EC_LOCAL" "donations kern_ipc \<noteq> - 1"
    "r_hst (regs (ecs kern_ipc 0x400)) \<noteq> 0" "r_hst (regs (ecs kern_ipc 0x410)) \<noteq> 0" "callee (ecs kern_ipc 0x400) = 0" "caller (ecs kern_ipc 0x410) = 0"
    "cont (ecs kern_ipc 0x410) = Cont_null" by (simp_all add: kern_ipc_def kern0_def ec0_def)
  show ?thesis using call_reply_roundtrip [OF h(1-9), of Ret_hypercall Recv_user "0x1000" 7 3 5] h(10) by auto
qed

end
