(* ===== verification/Nova_Sm.thy ===== *)
theory Nova_Sm
  imports Nova_Ec
begin

text \<open>
  \<^verbatim>\<open>inc/sm.hpp\<close> and the triggers of timeouts: counting semaphores with a queue of blocked execution contexts, operated from several cores.
\<close>

section \<open>Semaphores\<close>

definition sm_new :: "u64 \<Rightarrow> u32 \<Rightarrow> sm" where
  "sm_new c i = \<lparr>counter = c, sm_id = i, sm_queue = []\<rparr>"

text \<open>Queue operations on an EC.\<close>

definition ec_enqueue_tail :: "u64 \<Rightarrow> u64 \<Rightarrow> 'a kern_scheme \<Rightarrow> 'a kern_scheme option" where
  "ec_enqueue_tail m x s = do {
     assert_that (\<not> ec_linked (ecs s x));
     (r, q) \<leftarrow> lq_enqueue x False (sm_queue (sms s m));
     Some (upd_ec x (\<lambda>e. e\<lparr>ec_linked := True\<rparr>) (upd_sm m (\<lambda>z. z\<lparr>sm_queue := q\<rparr>) s))
   }"

definition ec_dequeue :: "u64 \<Rightarrow> u64 \<Rightarrow> 'a kern_scheme \<Rightarrow> 'a kern_scheme option" where
  "ec_dequeue m x s = do {
     assert_that (ec_linked (ecs s x));
     q \<leftarrow> lq_dequeue x (sm_queue (sms s m));
     Some (upd_ec x (\<lambda>e. e\<lparr>ec_linked := False\<rparr>) (upd_sm m (\<lambda>z. z\<lparr>sm_queue := q\<rparr>) s))
   }"

text \<open>
  \<^verbatim>\<open>Sm::dn\<close> has two parts, between which other cores can run: the section under the lock of the semaphore, and blocking the SC. The first part
  returns false if the semaphore was taken.
\<close>

definition sm_dn_lock :: "u64 \<Rightarrow> u64 \<Rightarrow> bool \<Rightarrow> 'a kern_scheme \<Rightarrow> (bool \<times> 'a kern_scheme) option" where
  "sm_dn_lock m this zc s =
     (if counter (sms s m) \<noteq> 0 then Some (False, upd_sm m (\<lambda>z. z\<lparr>counter := (if zc then 0 else counter z - 1)\<rparr>) s)
      else do { s \<leftarrow> ec_enqueue_tail m this (ec_block this s); Some (True, s) })"

text \<open>The second part returns the EC that is scheduled next, or nothing if the EC has been unblocked in the meantime.\<close>

definition sm_dn_block :: "u64 \<Rightarrow> u64 \<Rightarrow> u64 \<Rightarrow> u64 \<Rightarrow> 'a kern_scheme \<Rightarrow> (u64 option \<times> 'a kern_scheme) option" where
  "sm_dn_block m this tmo_t t s = do {
     (b, s) \<leftarrow> block_sc this s;
     if b then do {
       s \<leftarrow> (if tmo_t \<noteq> 0 then set_timeout this tmo_t m s else Some s);
       (x, s) \<leftarrow> schedule True t s;
       Some (Some x, s)
     }
     else Some (None, s)
   }"

definition sm_dn :: "u64 \<Rightarrow> u64 \<Rightarrow> bool \<Rightarrow> u64 \<Rightarrow> u64 \<Rightarrow> 'a kern_scheme \<Rightarrow> (u64 option \<times> 'a kern_scheme) option" where
  "sm_dn m this zc tmo_t t s = do {
     (b, s) \<leftarrow> sm_dn_lock m this zc s;
     if b then sm_dn_block m this tmo_t t s else Some (None, s)
   }"

definition sm_up :: "u64 \<Rightarrow> u64 \<Rightarrow> 'a kern_scheme \<Rightarrow> (bool \<times> 'a kern_scheme) option" where
  "sm_up m t s =
     (case sm_queue (sms s m) of
        [] \<Rightarrow> if counter (sms s m) = - 1 then Some (False, s) else Some (True, upd_sm m (\<lambda>z. z\<lparr>counter := counter z + 1\<rparr>) s)
      | x # _ \<Rightarrow> do {
          s \<leftarrow> ec_dequeue m x s;
          s \<leftarrow> unblock_sc x t (ec_unblock x (Sys_finish SUCCESS True) s);
          Some (True, s)
        })"

definition sm_timeout :: "u64 \<Rightarrow> u64 \<Rightarrow> u64 \<Rightarrow> 'a kern_scheme \<Rightarrow> 'a kern_scheme option" where
  "sm_timeout m x t s =
     (if \<not> blocked (ecs s x) then Some s
      else do {
        s \<leftarrow> ec_dequeue m x s;
        unblock_sc x t (ec_unblock x (Sys_finish TIMEOUT False) s)
      })"

text \<open>The virtual function \<^verbatim>\<open>Timeout::trigger\<close>: the budget timeout raises the scheduling hazard, the timeout of an EC times out its semaphore operation.\<close>

definition timeout_trigger :: "u64 \<Rightarrow> u64 \<Rightarrow> 'a kern_scheme \<Rightarrow> 'a kern_scheme option" where
  "timeout_trigger t x s = (if x = budget_timeout then Some (cpu_hazard_set HZD_SCHED s) else sm_timeout (tmo_sm (ecs s x)) x t s)"

text \<open>
  Another core sees the same kernel objects, allocators, release queues and interrupts, and its own ready queue, timers, hazards and current SC:
  \<open>share s l\<close> is the view of the core with the local state \<open>l\<close>. \<open>on_core l f\<close> performs \<open>f\<close> there.
\<close>

definition share :: "'a kern_scheme \<Rightarrow> 'a kern_scheme \<Rightarrow> 'a kern_scheme" where
  "share s l = l\<lparr>heap := heap s, hdr := hdr s, pds := pds s, spcs := spcs s, ecs := ecs s, scs := scs s, pts := pts s, sms := sms s, release := release s,
     ec_current := ec_current s, ipis := ipis s, vmcss := vmcss s, fpu_mem := fpu_mem s,
     vpids := vpids s, pcids := pcids s, int_conf := int_conf s, int_sm := int_sm s, int_ioapic := int_ioapic s, int_rte := int_rte s\<rparr>"

definition on_core :: "'a kern_scheme \<Rightarrow> ('a kern_scheme \<Rightarrow> ('b \<times> 'a kern_scheme) option) \<Rightarrow> 'a kern_scheme \<Rightarrow> ('b \<times> 'a kern_scheme) option" where
  "on_core l f s = do { (r, l') \<leftarrow> f (share s l); Some (r, share l' s) }"

section \<open>Invariant of semaphores\<close>

text \<open>An EC waits at one semaphore at most, while it is blocked; nobody waits at a semaphore whose counter is not zero.\<close>

definition sm_inv :: "'a kern_scheme \<Rightarrow> bool" where
  "sm_inv s \<longleftrightarrow> (\<forall>m. distinct (sm_queue (sms s m))) \<and> (\<forall>m x. x \<in> set (sm_queue (sms s m)) \<longrightarrow> ec_linked (ecs s x) \<and> cont (ecs s x) = Blocking) \<and>
     (\<forall>m m' x. x \<in> set (sm_queue (sms s m)) \<longrightarrow> x \<in> set (sm_queue (sms s m')) \<longrightarrow> m = m') \<and> (\<forall>m. counter (sms s m) \<noteq> 0 \<longrightarrow> sm_queue (sms s m) = [])"

lemma sm_invD:
  assumes "sm_inv s"
  shows "distinct (sm_queue (sms s m))" "x \<in> set (sm_queue (sms s m)) \<Longrightarrow> ec_linked (ecs s x) \<and> cont (ecs s x) = Blocking"
    "x \<in> set (sm_queue (sms s m)) \<Longrightarrow> x \<in> set (sm_queue (sms s m')) \<Longrightarrow> m = m'" "counter (sms s m) \<noteq> 0 \<Longrightarrow> sm_queue (sms s m) = []"
  using assms unfolding sm_inv_def by blast+

text \<open>The invariant depends on the semaphores and on the link and continuation of the ECs.\<close>

lemma sm_inv_cong:
  assumes "sm_inv s" "sms s' = sms s" "\<And>x. ec_linked (ecs s' x) = ec_linked (ecs s x) \<and> cont (ecs s' x) = cont (ecs s x)"
  shows "sm_inv s'"
  using assms unfolding sm_inv_def by simp

section \<open>Unblocking\<close>

lemma ec_dequeue_sc:
  assumes i: "sched_inv s" and q: "ec_queue (ecs s x) = y # ys"
    and s1: "s1 = upd_ec x (\<lambda>e. e\<lparr>ec_queue := ys\<rparr>) (upd_sc y (\<lambda>c. c\<lparr>sc_linked := False\<rparr>) s)"
  shows "sched_inv s1" "sched_frame s s1" "prio (scs s y) < priorities"
proof -
  have qi: "queues_inv s" and tp: "top_inv (ready s) (prio_top s)" using i by (auto simp: sched_inv_def)
  have "y \<in> set (sq s (Q_ec x))" using q by simp
  then have "sq_ok (cpu_id s) (scs s y) (Q_ec x)" using qi unfolding queues_inv_def by blast
  then show "prio (scs s y) < priorities" by simp
  have "queues_inv s1"
  proof (rule queues_inv_remove [OF qi, of "Q_ec x" y])
    show "sq s1 k = sq s k" if "k \<noteq> Q_ec x" for k using that by (cases k) (auto simp: s1)
  qed (auto simp: s1 q)
  then show "sched_inv s1" using tp by (simp add: sched_inv_def s1)
  show "sched_frame s s1" by (simp add: sched_frame_def s1)
qed

lemma unblock_sc_spec:
  assumes "sched_inv s" "ec_queue (ecs s x) = ys"
  shows "\<exists>s'. unblock_sc x t s = Some s' \<and> sched_inv s' \<and> sched_frame s s' \<and> ecs s' = (ecs s)(x := (ecs s x)\<lparr>ec_queue := []\<rparr>) \<and>
    (\<forall>y. y \<in> set ys \<longrightarrow> y \<in> set (ready s' (prio (scs s y))) \<or> y \<in> set (release s' (sc_cpu (scs s y)))) \<and>
    (\<forall>p y. y \<in> set (ready s p) \<longrightarrow> y \<in> set (ready s' p)) \<and> (\<forall>c y. y \<in> set (release s c) \<longrightarrow> y \<in> set (release s' c))"
  using assms
proof (induction ys arbitrary: s)
  case Nil
  have "unblock_sc x t s = Some (upd_ec x (\<lambda>e. e\<lparr>ec_queue := []\<rparr>) s)"
    using Nil.prems(2) by (simp add: unblock_sc.simps sc_dequeue_head_def lq_dequeue_head_def)
  moreover have "sched_inv (upd_ec x (\<lambda>e. e\<lparr>ec_queue := []\<rparr>) s)" by (rule sched_inv_cong [OF Nil.prems(1)]) (simp_all add: Nil.prems(2))
  ultimately show ?case by (intro exI conjI) (auto simp: sched_frame_def fun_eq_iff)
next
  case (Cons y ys)
  define s1 where s1: "s1 = upd_ec x (\<lambda>e. e\<lparr>ec_queue := ys\<rparr>) (upd_sc y (\<lambda>c. c\<lparr>sc_linked := False\<rparr>) s)"
  note d = ec_dequeue_sc [OF Cons.prems s1]
  have u: "\<not> sc_linked (scs s1 y)" "prio (scs s1 y) < priorities" using d(3) by (simp_all add: s1)
  obtain s2 where
    s2: "sched_unblock y t s1 = Some s2" "sched_inv s2" "sched_frame s1 s2" "ecs s2 = ecs s1"
      "y \<in> set (ready s2 (prio (scs s1 y))) \<or> y \<in> set (release s2 (sc_cpu (scs s1 y)))"
      "\<And>p y. y \<in> set (ready s1 p) \<Longrightarrow> y \<in> set (ready s2 p)" "\<And>c y. y \<in> set (release s1 c) \<Longrightarrow> y \<in> set (release s2 c)" by (rule sched_unblock_spec [OF d(1) u, of t]) (rule that)
  have "ec_queue (ecs s2 x) = ys" by (simp add: s2(4) s1)
  from Cons.IH [OF s2(2) this] obtain s' where
    s': "unblock_sc x t s2 = Some s'" "sched_inv s'" "sched_frame s2 s'" "ecs s' = (ecs s2)(x := (ecs s2 x)\<lparr>ec_queue := []\<rparr>)"
      "\<forall>y. y \<in> set ys \<longrightarrow> y \<in> set (ready s' (prio (scs s2 y))) \<or> y \<in> set (release s' (sc_cpu (scs s2 y)))"
      "\<forall>p y. y \<in> set (ready s2 p) \<longrightarrow> y \<in> set (ready s' p)" "\<forall>c y. y \<in> set (release s2 c) \<longrightarrow> y \<in> set (release s' c)" by blast
  have fr: "sched_frame s s2" using d(2) s2(3) by (rule sched_frame_trans)
  have pr: "prio (scs s2 z) = prio (scs s z)" "sc_cpu (scs s2 z) = sc_cpu (scs s z)" for z using fr by (simp_all add: sched_frame_def)
  have run: "unblock_sc x t s = Some s'"
    using s2(1) s'(1) Cons.prems(2) unfolding s1 by (subst unblock_sc.simps) (simp add: sc_dequeue_head_def lq_dequeue_head_def)
  have "y \<in> set (ready s' (prio (scs s y))) \<or> y \<in> set (release s' (sc_cpu (scs s y)))"
    using s2(5) s'(6,7) by (auto simp: s1)
  then have "z \<in> set (ready s' (prio (scs s z))) \<or> z \<in> set (release s' (sc_cpu (scs s z)))" if "z \<in> set (y # ys)" for z
    using that s'(5) pr by auto
  moreover have "z \<in> set (ready s' p)" if "z \<in> set (ready s p)" for z p using that s2(6) [of z p] s'(6) by (simp add: s1)
  moreover have "z \<in> set (release s' c)" if "z \<in> set (release s c)" for z c using that s2(7) [of z c] s'(7) by (simp add: s1)
  moreover have "ecs s' = (ecs s)(x := (ecs s x)\<lparr>ec_queue := []\<rparr>)" by (simp add: s'(4) s2(4) s1 fun_eq_iff)
  moreover have "sched_frame s s'" using fr s'(3) by (rule sched_frame_trans)
  ultimately show ?case using run s'(2) by blast
qed

section \<open>Semaphore operations on well-formed states\<close>

text \<open>Waking up one waiter, the part that \<^verbatim>\<open>Sm::up\<close> and \<^verbatim>\<open>Sm::timeout\<close> share.\<close>

lemma ec_dequeue_run:
  assumes "sm_inv s" "x \<in> set (sm_queue (sms s m))"
  shows "ec_dequeue m x s = Some (upd_ec x (\<lambda>e. e\<lparr>ec_linked := False\<rparr>) (upd_sm m (\<lambda>z. z\<lparr>sm_queue := remove1 x (sm_queue z)\<rparr>) s))"
  using sm_invD(2) [OF assms] assms(2) by (simp add: ec_dequeue_def lq_dequeue_def upd_sm_def)

lemma sm_wake_inv:
  assumes i: "sm_inv s" and x: "x \<in> set (sm_queue (sms s m))"
    and s': "sms s' = (sms s)(m := (sms s m)\<lparr>sm_queue := remove1 x (sm_queue (sms s m))\<rparr>)" "\<And>y. y \<noteq> x \<Longrightarrow> ecs s' y = ecs s y"
  shows "sm_inv s'"
proof -
  have mem: "y \<in> set (sm_queue (sms s' k)) \<Longrightarrow> y \<in> set (sm_queue (sms s k)) \<and> y \<noteq> x" for y k
  proof (cases "k = m")
    case True
    then show "y \<in> set (sm_queue (sms s' k)) \<Longrightarrow> ?thesis" using s'(1) sm_invD(1) [OF i, of m] by simp
  next
    case False
    then show "y \<in> set (sm_queue (sms s' k)) \<Longrightarrow> ?thesis" using s'(1) sm_invD(3) [OF i x] by auto
  qed
  have "distinct (sm_queue (sms s' k))" for k using sm_invD(1) [OF i, of k] s'(1) by (cases "k = m") auto
  moreover have "ec_linked (ecs s' y) \<and> cont (ecs s' y) = Blocking" if "y \<in> set (sm_queue (sms s' k))" for y k
    using mem [OF that] sm_invD(2) [OF i] s'(2) by metis
  moreover have "k = k'" if "y \<in> set (sm_queue (sms s' k))" "y \<in> set (sm_queue (sms s' k'))" for y k k'
    using mem [OF that(1)] mem [OF that(2)] sm_invD(3) [OF i] by blast
  moreover have "sm_queue (sms s' k) = []" if "counter (sms s' k) \<noteq> 0" for k
    using that sm_invD(4) [OF i, of k] x s'(1) by (cases "k = m") auto
  ultimately show ?thesis unfolding sm_inv_def by blast
qed

definition runnable :: "'a kern_scheme \<Rightarrow> u64 \<Rightarrow> bool" where
  "runnable s y \<longleftrightarrow> y \<in> set (ready s (prio (scs s y))) \<or> y \<in> set (release s (sc_cpu (scs s y)))"

lemma sm_wake_spec:
  assumes k: "sched_inv s" "sm_inv s" and x: "x \<in> set (sm_queue (sms s m))"
  shows "\<exists>s'. do { s1 \<leftarrow> ec_dequeue m x s; unblock_sc x t (ec_unblock x c s1) } = Some s' \<and> sched_inv s' \<and> sm_inv s' \<and>
    sched_frame (s\<lparr>sms := sms s'\<rparr>) s' \<and> sms s' = (sms s)(m := (sms s m)\<lparr>sm_queue := remove1 x (sm_queue (sms s m))\<rparr>) \<and>
    ecs s' = (ecs s)(x := (ecs s x)\<lparr>cont := c, ec_linked := False, ec_queue := []\<rparr>) \<and>
    (\<forall>y. y \<in> set (ec_queue (ecs s x)) \<longrightarrow> runnable s' y) \<and> (\<forall>y. runnable s y \<longrightarrow> runnable s' y)"
proof -
  define s1 where s1: "s1 = upd_ec x (\<lambda>e. e\<lparr>ec_linked := False\<rparr>) (upd_sm m (\<lambda>z. z\<lparr>sm_queue := remove1 x (sm_queue z)\<rparr>) s)"
  define s2 where s2: "s2 = ec_unblock x c s1"
  have "sched_inv s2" by (rule sched_inv_cong [OF k(1)]) (simp_all add: s2 s1 ec_unblock_def)
  from unblock_sc_spec [OF this refl, of x t] obtain s' where
    s': "unblock_sc x t s2 = Some s'" "sched_inv s'" "sched_frame s2 s'" "ecs s' = (ecs s2)(x := (ecs s2 x)\<lparr>ec_queue := []\<rparr>)"
      "\<forall>y. y \<in> set (ec_queue (ecs s2 x)) \<longrightarrow> y \<in> set (ready s' (prio (scs s2 y))) \<or> y \<in> set (release s' (sc_cpu (scs s2 y)))"
      "\<forall>p y. y \<in> set (ready s2 p) \<longrightarrow> y \<in> set (ready s' p)" "\<forall>c y. y \<in> set (release s2 c) \<longrightarrow> y \<in> set (release s' c)" by blast
  have sms: "sms s' = (sms s)(m := (sms s m)\<lparr>sm_queue := remove1 x (sm_queue (sms s m))\<rparr>)"
    using s'(3) by (simp add: sched_frame_def s2 s1 ec_unblock_def fun_eq_iff)
  have ecs: "ecs s' = (ecs s)(x := (ecs s x)\<lparr>cont := c, ec_linked := False, ec_queue := []\<rparr>)" by (simp add: s'(4) s2 s1 ec_unblock_def fun_eq_iff)
  have inv: "sm_inv s'" by (rule sm_wake_inv [OF k(2) x sms]) (simp add: ecs)
  have sc: "prio (scs s' y) = prio (scs s y)" "sc_cpu (scs s' y) = sc_cpu (scs s y)" for y using s'(3) by (simp_all add: sched_frame_def s2 s1 ec_unblock_def)
  have q: "ec_queue (ecs s2 x) = ec_queue (ecs s x)" "scs s2 = scs s" "ready s2 = ready s" "release s2 = release s" by (simp_all add: s2 s1 ec_unblock_def)
  have "sched_frame (s\<lparr>sms := sms s'\<rparr>) s2" using s'(3) by (simp add: sched_frame_def s2 s1 ec_unblock_def)
  then have fr: "sched_frame (s\<lparr>sms := sms s'\<rparr>) s'" using s'(3) by (rule sched_frame_trans)
  have "runnable s' y" if "y \<in> set (ec_queue (ecs s x))" for y using s'(5) that unfolding runnable_def q sc by blast
  moreover have "runnable s' y" if "runnable s y" for y using s'(6,7) that unfolding runnable_def q sc by blast
  moreover have "do { s1 \<leftarrow> ec_dequeue m x s; unblock_sc x t (ec_unblock x c s1) } = Some s'"
    using s'(1) unfolding s2 s1 ec_dequeue_run [OF k(2) x] by simp
  ultimately show ?thesis using s'(2) inv fr sms ecs by blast
qed

lemma sm_up_spec:
  assumes k: "sched_inv s" "sm_inv s" and q: "sm_queue (sms s m) = x # xs"
  shows "\<exists>s'. sm_up m t s = Some (True, s') \<and> sched_inv s' \<and> sm_inv s' \<and> sched_frame (s\<lparr>sms := sms s'\<rparr>) s' \<and>
    sms s' = (sms s)(m := (sms s m)\<lparr>sm_queue := xs\<rparr>) \<and> ecs s' = (ecs s)(x := (ecs s x)\<lparr>cont := Sys_finish SUCCESS True, ec_linked := False, ec_queue := []\<rparr>) \<and>
    (\<forall>y. y \<in> set (ec_queue (ecs s x)) \<longrightarrow> runnable s' y) \<and> (\<forall>y. runnable s y \<longrightarrow> runnable s' y)"
proof -
  have x: "x \<in> set (sm_queue (sms s m))" "remove1 x (sm_queue (sms s m)) = xs" using q by simp_all
  from sm_wake_spec [OF k x(1), of t "Sys_finish SUCCESS True"] obtain s' where
    s': "do { s1 \<leftarrow> ec_dequeue m x s; unblock_sc x t (ec_unblock x (Sys_finish SUCCESS True) s1) } = Some s'" and
    r: "sched_inv s'" "sm_inv s'" "sched_frame (s\<lparr>sms := sms s'\<rparr>) s'" "sms s' = (sms s)(m := (sms s m)\<lparr>sm_queue := xs\<rparr>)"
      "ecs s' = (ecs s)(x := (ecs s x)\<lparr>cont := Sys_finish SUCCESS True, ec_linked := False, ec_queue := []\<rparr>)"
      "\<forall>y. y \<in> set (ec_queue (ecs s x)) \<longrightarrow> runnable s' y" "\<forall>y. runnable s y \<longrightarrow> runnable s' y" unfolding x(2) by blast
  have "sm_up m t s = Some (True, s')" using s' by (auto simp: sm_up_def q bind_eq_Some_conv)
  then show ?thesis using r by blast
qed

lemma sm_dn_lock_inv:
  assumes i: "sm_inv s" and x: "\<not> ec_linked (ecs s x)" and r: "sm_dn_lock m x zc s = Some (b, s')"
  shows "sm_inv s'"
proof -
  have nx: "x \<notin> set (sm_queue (sms s k))" for k using sm_invD(2) [OF i, of x k] x by blast
  show ?thesis
  proof (cases "counter (sms s m) = 0")
    case False
    then have "sm_queue (sms s m) = []" by (rule sm_invD(4) [OF i])
    moreover have s': "s' = upd_sm m (\<lambda>z. z\<lparr>counter := (if zc then 0 else counter z - 1)\<rparr>) s" using r False by (simp add: sm_dn_lock_def)
    ultimately have q: "sm_queue (sms s' k) = sm_queue (sms s k)" "counter (sms s' k) \<noteq> 0 \<longrightarrow> sm_queue (sms s k) = []" for k
      using sm_invD(4) [OF i, of k] by simp_all
    have e: "ecs s' = ecs s" by (simp add: s')
    show ?thesis using i q(2) unfolding sm_inv_def e q(1) by blast
  next
    case True
    then have s': "s' = upd_ec x (\<lambda>e. e\<lparr>ec_linked := True\<rparr>) (upd_sm m (\<lambda>z. z\<lparr>sm_queue := sm_queue z @ [x]\<rparr>) (ec_block x s))"
      using r x nx by (simp add: sm_dn_lock_def ec_enqueue_tail_def ec_block_def lq_enqueue_def upd_sm_def)
    have mem: "y \<in> set (sm_queue (sms s' k)) \<longleftrightarrow> y \<in> set (sm_queue (sms s k)) \<or> (y = x \<and> k = m)" for y k by (auto simp: s' ec_block_def)
    have "distinct (sm_queue (sms s' k))" for k using sm_invD(1) [OF i, of k] nx by (cases "k = m") (simp_all add: s' ec_block_def)
    moreover have "ec_linked (ecs s' y) \<and> cont (ecs s' y) = Blocking" if "y \<in> set (sm_queue (sms s' k))" for y k
      using that sm_invD(2) [OF i, of y k] unfolding mem by (auto simp: s' ec_block_def)
    moreover have "k = k'" if "y \<in> set (sm_queue (sms s' k))" "y \<in> set (sm_queue (sms s' k'))" for y k k'
      using that sm_invD(3) [OF i] nx unfolding mem by blast
    moreover have "sm_queue (sms s' k) = []" if "counter (sms s' k) \<noteq> 0" for k
      using that True sm_invD(4) [OF i, of k] by (auto simp: s' ec_block_def split: if_splits)
    ultimately show ?thesis unfolding sm_inv_def by blast
  qed
qed

section \<open>Views of other cores\<close>

lemma share_simps [simp]:
  "heap (share s l) = heap s" "hdr (share s l) = hdr s" "ecs (share s l) = ecs s" "scs (share s l) = scs s" "sms (share s l) = sms s" "release (share s l) = release s"
  "ready (share s l) = ready l" "prio_top (share s l) = prio_top l" "cpu_id (share s l) = cpu_id l" "sc_current (share s l) = sc_current l"
  by (simp_all add: share_def)

lemma sm_inv_share [simp]: "sm_inv (share s l) = sm_inv s"
  by (simp add: sm_inv_def)

lemma idle_view:
  assumes "sched_inv s" "ready l = (\<lambda>_. [])" "prio_top l = 0"
  shows "sched_inv (share s l)"
proof -
  have i: "queues_inv s" using assms(1) by (simp add: sched_inv_def)
  have m: "x \<in> set (sq s k) \<and> sq_ok (cpu_id l) (scs s x) k" if "x \<in> set (sq (share s l) k)" for x k
  proof (cases k)
    case (Q_ready p)
    then show ?thesis using that assms(2) by simp
  next
    case (Q_release c)
    then have "x \<in> set (sq s (Q_release c))" using that by simp
    then have "x \<in> set (sq s (Q_release c)) \<and> sq_ok (cpu_id s) (scs s x) (Q_release c)" using i unfolding queues_inv_def by blast
    then show ?thesis using Q_release by simp
  next
    case (Q_ec e)
    then have "x \<in> set (sq s (Q_ec e))" using that by simp
    then have "x \<in> set (sq s (Q_ec e)) \<and> sq_ok (cpu_id s) (scs s x) (Q_ec e)" using i unfolding queues_inv_def by blast
    then show ?thesis using Q_ec by simp
  qed
  have "distinct (sq s k)" for k using i unfolding queues_inv_def by blast
  then have "distinct (sq (share s l) k)" for k using assms(2) by (cases k) (simp, metis sq.simps(2) share_simps(6), metis sq.simps(3) share_simps(3))
  then have "queues_inv (share s l)" using m i unfolding queues_inv_def by (metis share_simps(4,9))
  then show ?thesis using assms(2,3) by (simp add: sched_inv_def top_inv_def)
qed

lemma block_sc_spec:
  assumes i: "sched_inv s" and y: "\<not> sc_linked (scs s y)" "prio (scs s y) < priorities"
    and s': "ready s' = ready s" "prio_top s' = prio_top s" "release s' = release s" "cpu_id s' = cpu_id s"
      "scs s' = (scs s)(y := (scs s y)\<lparr>sc_linked := True\<rparr>)" "ecs s' = (ecs s)(x := (ecs s x)\<lparr>ec_queue := ec_queue (ecs s x) @ [y]\<rparr>)"
  shows "sched_inv s'"
proof -
  have q: "queues_inv s" and tp: "top_inv (ready s) (prio_top s)" using i by (auto simp: sched_inv_def)
  have "y \<notin> set (sq s (Q_ec x))" using queues_linked [OF q, of y "Q_ec x"] y(1) by blast
  moreover have "distinct (sq s (Q_ec x))" using q unfolding queues_inv_def by blast
  ultimately have d: "distinct (sq s' (Q_ec x))" by (simp add: s')
  have "sq s' k = sq s k" if "k \<noteq> Q_ec x" for k using that by (cases k) (auto simp: s')
  then have "queues_inv s'" by (intro queues_inv_add [OF q y(1) _ d]) (auto simp: s' y(2))
  then show ?thesis using tp s'(1,2) by (simp add: sched_inv_def)
qed

lemma dn_block_view:
  assumes i: "sched_inv v" and y: "\<not> sc_linked (scs v y)" "prio (scs v y) < priorities"
  shows "sched_inv (upd_ec x (\<lambda>e. e\<lparr>ec_queue := ec_queue (ecs v x) @ [y]\<rparr>) (upd_sc y (\<lambda>c. c\<lparr>sc_linked := True\<rparr>) v))"
  by (rule block_sc_spec [OF i y, where x = x]) (simp_all add: fun_eq_iff)

lemma share_upd [simp]: "share (upd_ec x f s) l = upd_ec x f (share s l)" "share (upd_sc y g s) l = upd_sc y g (share s l)"
  by (simp_all add: share_def upd_ec_def upd_sc_def)

text \<open>The state after the first part of \<^verbatim>\<open>Sm::dn\<close>, if it has to block.\<close>

lemma sm_dn_lock_run:
  assumes i: "sm_inv s" and x: "\<not> ec_linked (ecs s x)" and c: "counter (sms s m) = 0"
  shows "sm_dn_lock m x zc s = Some (True, upd_ec x (\<lambda>e. e\<lparr>cont := Blocking, ec_linked := True\<rparr>) (upd_sm m (\<lambda>z. z\<lparr>sm_queue := sm_queue z @ [x]\<rparr>) s))"
proof -
  have "x \<notin> set (sm_queue (sms s m))" using sm_invD(2) [OF i, of x m] x by blast
  then show ?thesis using x c by (simp add: sm_dn_lock_def ec_enqueue_tail_def ec_block_def lq_enqueue_def upd_sm_def upd_ec_def)
qed

section \<open>Counting semaphores\<close>

text \<open>A counting semaphore: its value and the waiters in order of arrival.\<close>

definition cs_up :: "u64 \<times> u64 list \<Rightarrow> bool \<times> u64 \<times> u64 list" where
  "cs_up = (\<lambda>(n, q). case q of [] \<Rightarrow> if n = - 1 then (False, n, []) else (True, n + 1, []) | x # q \<Rightarrow> (True, n, q))"

definition cs_dn :: "bool \<Rightarrow> u64 \<Rightarrow> u64 \<times> u64 list \<Rightarrow> bool \<times> u64 \<times> u64 list" where
  "cs_dn zc x = (\<lambda>(n, q). if n \<noteq> 0 then (False, if zc then 0 else n - 1, q) else (True, n, q @ [x]))"

abbreviation cs_abs :: "'a kern_scheme \<Rightarrow> u64 \<Rightarrow> u64 \<times> u64 list" where
  "cs_abs s m \<equiv> (counter (sms s m), sm_queue (sms s m))"

lemma sm_up_counting:
  assumes k: "sched_inv s" "sm_inv s"
  shows "\<exists>r s'. sm_up m t s = Some (r, s') \<and> (r, cs_abs s' m) = cs_up (cs_abs s m) \<and> (\<forall>m'. m' \<noteq> m \<longrightarrow> sms s' m' = sms s m') \<and> sched_inv s' \<and> sm_inv s'"
proof (cases "sm_queue (sms s m)")
  case (Cons x xs)
  from sm_up_spec [OF k Cons, of t] obtain s' where "sm_up m t s = Some (True, s')" "sched_inv s'" "sm_inv s'" "sms s' = (sms s)(m := (sms s m)\<lparr>sm_queue := xs\<rparr>)" by blast
  then show ?thesis by (intro exI conjI) (simp_all add: cs_up_def Cons)
next
  case Nil
  show ?thesis
  proof (cases "counter (sms s m) = - 1")
    case True
    then show ?thesis using k Nil by (intro exI [of _ False] exI [of _ s]) (simp add: sm_up_def cs_up_def)
  next
    case False
    define s' where s': "s' = upd_sm m (\<lambda>z. z\<lparr>counter := counter z + 1\<rparr>) s"
    have q: "sm_queue (sms s' k) = sm_queue (sms s k)" "counter (sms s' k) \<noteq> 0 \<longrightarrow> sm_queue (sms s k) = []" for k
      using sm_invD(4) [OF k(2), of k] Nil by (simp_all add: s')
    have e: "ecs s' = ecs s" by (simp add: s')
    have "sm_inv s'" using k(2) q(2) unfolding sm_inv_def e q(1) by blast
    moreover have "sched_inv s'" by (rule sched_inv_cong [OF k(1)]) (simp_all add: s')
    moreover have "sm_up m t s = Some (True, s')" using Nil False by (simp add: sm_up_def s')
    ultimately show ?thesis using Nil False by (intro exI conjI) (simp_all add: s' cs_up_def)
  qed
qed

lemma sm_dn_counting:
  assumes k: "sched_inv s" "sm_inv s" and x: "\<not> ec_linked (ecs s x)"
  shows "\<exists>r s'. sm_dn_lock m x zc s = Some (r, s') \<and> (r, cs_abs s' m) = cs_dn zc x (cs_abs s m) \<and> (\<forall>m'. m' \<noteq> m \<longrightarrow> sms s' m' = sms s m') \<and> sched_inv s' \<and> sm_inv s' \<and>
    (r \<longrightarrow> cont (ecs s' x) = Blocking)"
proof (cases "counter (sms s m) = 0")
  case True
  note r = sm_dn_lock_run [OF k(2) x True, of zc]
  show ?thesis
  proof (intro exI conjI, rule r)
    show "sched_inv (upd_ec x (\<lambda>e. e\<lparr>cont := Blocking, ec_linked := True\<rparr>) (upd_sm m (\<lambda>z. z\<lparr>sm_queue := sm_queue z @ [x]\<rparr>) s))" by (rule sched_inv_cong [OF k(1)]) simp_all
  qed (use True sm_dn_lock_inv [OF k(2) x r] in \<open>simp_all add: cs_dn_def\<close>)
next
  case False
  define s' where s': "s' = upd_sm m (\<lambda>z. z\<lparr>counter := (if zc then 0 else counter z - 1)\<rparr>) s"
  have r: "sm_dn_lock m x zc s = Some (False, s')" using False by (simp add: sm_dn_lock_def s')
  have "sched_inv s'" by (rule sched_inv_cong [OF k(1)]) (simp_all add: s')
  then show ?thesis using r sm_dn_lock_inv [OF k(2) x r] False by (intro exI [of _ False] exI [of _ s']) (simp add: s' cs_dn_def)
qed

section \<open>Wakeups are not lost\<close>

text \<open>Another core that performs \<^verbatim>\<open>Sm::up\<close> on a semaphore with a single waiter.\<close>

lemma remote_up:
  assumes k: "sched_inv (share s l)" "sm_inv s" and q: "sm_queue (sms s m) = [x]"
  shows "\<exists>s'. on_core l (sm_up m t) s = Some (True, s') \<and> cont (ecs s' x) = Sys_finish SUCCESS True \<and> sm_queue (sms s' m) = [] \<and> counter (sms s' m) = counter (sms s m) \<and>
    (\<forall>y. y \<in> set (ec_queue (ecs s x)) \<longrightarrow> sc_cpu (scs s y) \<noteq> cpu_id l \<longrightarrow> y \<in> set (release s' (sc_cpu (scs s' y))))"
proof -
  have "sm_inv (share s l)" "sm_queue (sms (share s l) m) = x # []" using k(2) q by simp_all
  from sm_up_spec [OF k(1) this, of t] obtain l' where
    l': "sm_up m t (share s l) = Some (True, l')" "sched_inv l'" "sched_frame ((share s l)\<lparr>sms := sms l'\<rparr>) l'"
      "sms l' = (sms s)(m := (sms s m)\<lparr>sm_queue := []\<rparr>)" "ecs l' = (ecs s)(x := (ecs s x)\<lparr>cont := Sys_finish SUCCESS True, ec_linked := False, ec_queue := []\<rparr>)"
      "\<forall>y. y \<in> set (ec_queue (ecs s x)) \<longrightarrow> runnable l' y" unfolding share_simps by blast
  have cp: "cpu_id l' = cpu_id l" "\<And>y. sc_cpu (scs l' y) = sc_cpu (scs s y)" using l'(3) by (simp_all add: sched_frame_def)
  have "y \<in> set (release l' (sc_cpu (scs l' y)))" if y: "y \<in> set (ec_queue (ecs s x))" "sc_cpu (scs s y) \<noteq> cpu_id l" for y
  proof (rule ccontr)
    assume "y \<notin> set (release l' (sc_cpu (scs l' y)))"
    then have "y \<in> set (sq l' (Q_ready (prio (scs l' y))))" using l'(6) y(1) by (auto simp: runnable_def)
    then have "sq_ok (cpu_id l') (scs l' y) (Q_ready (prio (scs l' y)))" using l'(2) unfolding sched_inv_def queues_inv_def by blast
    then show False using cp y(2) by simp
  qed
  then show ?thesis using l'(1,4,5) by (intro exI [of _ "share l' s"]) (simp add: on_core_def)
qed

text \<open>
  C30: \<^verbatim>\<open>Sm::up\<close> and the locked part of \<^verbatim>\<open>Sm::dn\<close> implement a counting semaphore with a FIFO queue of waiters: \<open>up\<close> passes the semaphore to the longest waiter if there is
  one, fails if the counter would overflow and counts otherwise; \<open>dn\<close> takes the semaphore (all of it if asked to) or appends the caller, marked as blocked. Other
  semaphores do not change, nobody waits while the counter is not zero, and the scheduler queues stay well formed.
\<close>

theorem sm_refines_counting:
  assumes "sched_inv s" "sm_inv s" "\<not> ec_linked (ecs s x)"
  shows "(\<exists>r s'. sm_up m t s = Some (r, s') \<and> (r, cs_abs s' m) = cs_up (cs_abs s m) \<and> (\<forall>m'. m' \<noteq> m \<longrightarrow> sms s' m' = sms s m') \<and> sched_inv s' \<and> sm_inv s') \<and>
    (\<exists>r s'. sm_dn_lock m x zc s = Some (r, s') \<and> (r, cs_abs s' m) = cs_dn zc x (cs_abs s m) \<and> (\<forall>m'. m' \<noteq> m \<longrightarrow> sms s' m' = sms s m') \<and> sched_inv s' \<and> sm_inv s' \<and>
      (r \<longrightarrow> cont (ecs s' x) = Blocking))"
  using sm_up_counting [OF assms(1,2)] sm_dn_counting [OF assms] by blast

lemma kern0_sm_inv: "sm_inv kern0"
  by (simp add: sm_inv_def kern0_def)

theorem sm_refines_counting_witness:
  "(\<exists>r s'. sm_up 0x500 7 kern0 = Some (r, s') \<and> (r, cs_abs s' 0x500) = cs_up (0, []) \<and> (\<forall>m'. m' \<noteq> 0x500 \<longrightarrow> sms s' m' = sms kern0 m') \<and> sched_inv s' \<and> sm_inv s') \<and>
    (\<exists>r s'. sm_dn_lock 0x500 0x400 False kern0 = Some (r, s') \<and> (r, cs_abs s' 0x500) = cs_dn False 0x400 (0, []) \<and> (\<forall>m'. m' \<noteq> 0x500 \<longrightarrow> sms s' m' = sms kern0 m') \<and>
      sched_inv s' \<and> sm_inv s' \<and> (r \<longrightarrow> cont (ecs s' 0x400) = Blocking))"
proof -
  have "\<not> ec_linked (ecs kern0 0x400)" "cs_abs kern0 0x500 = (0, [])" by (simp_all add: kern0_def ec0_def)
  then show ?thesis using sm_refines_counting [OF kern0_inv kern0_sm_inv, of "0x400" "0x500" 7 False] by simp
qed

text \<open>
  C31: No wakeup is lost when a core blocks in \<^verbatim>\<open>Sm::dn\<close> while another core performs \<^verbatim>\<open>Sm::up\<close>. The first part of \<open>dn\<close> leaves the EC blocked in the queue. If the \<open>up\<close>
  comes before the second part, the second part refuses to block the SC and the EC continues. If it comes after, the SC that was blocked is in the release queue
  of its core, and the EC can be activated. In both cases the EC no longer waits.
\<close>

theorem sm_no_lost_wakeup:
  assumes "sched_inv s" "sched_inv (share s l)" "sm_inv s" "\<not> ec_linked (ecs s x)" "cs_abs s m = (0, [])"
    and "y = sc_current s" "\<not> sc_linked (scs s y)" "prio (scs s y) < priorities" "sc_cpu (scs s y) = cpu_id s" "cpu_id l \<noteq> cpu_id s"
  shows "\<exists>s1. sm_dn_lock m x zc s = Some (True, s1) \<and>
    (\<exists>s2. on_core l (sm_up m t) s1 = Some (True, s2) \<and> block_sc x s2 = Some (False, s2) \<and> cont (ecs s2 x) = Sys_finish SUCCESS True \<and> cs_abs s2 m = (0, [])) \<and>
    (\<exists>s2 s3. block_sc x s1 = Some (True, s2) \<and> on_core l (sm_up m t) s2 = Some (True, s3) \<and> y \<in> set (release s3 (sc_cpu (scs s3 y))) \<and>
      cont (ecs s3 x) = Sys_finish SUCCESS True \<and> cs_abs s3 m = (0, []))"
proof -
  define s1 where s1: "s1 = upd_ec x (\<lambda>e. e\<lparr>cont := Blocking, ec_linked := True\<rparr>) (upd_sm m (\<lambda>z. z\<lparr>sm_queue := sm_queue z @ [x]\<rparr>) s)"
  have z: "counter (sms s m) = 0" "sm_queue (sms s m) = []" using assms(5) by simp_all
  have r1: "sm_dn_lock m x zc s = Some (True, s1)" unfolding s1 by (rule sm_dn_lock_run [OF assms(3,4) z(1)])
  have i1: "sm_inv s1" by (rule sm_dn_lock_inv [OF assms(3,4) r1])
  have v1: "sched_inv (share s1 l)" by (rule sched_inv_cong [OF assms(2)]) (simp_all add: s1)
  have q1: "sm_queue (sms s1 m) = [x]" "counter (sms s1 m) = 0" using z by (simp_all add: s1)
  define s2 where s2: "s2 = upd_ec x (\<lambda>e. e\<lparr>ec_queue := ec_queue (ecs s1 x) @ [y]\<rparr>) (upd_sc y (\<lambda>c. c\<lparr>sc_linked := True\<rparr>) s1)"
  have y1: "\<not> sc_linked (scs s1 y)" "prio (scs s1 y) < priorities" "sc_current s1 = y" "blocked (ecs s1 x)" using assms(6-8) by (simp_all add: s1 blocked_def)
  have "y \<notin> set (ec_queue (ecs s x))" using assms(1,7) queues_linked [of s y "Q_ec x"] unfolding sched_inv_def by auto
  then have r2: "block_sc x s1 = Some (True, s2)" using y1(1,3,4) by (simp add: block_sc_def s2 sc_enqueue_def lq_enqueue_def s1)
  have v2: "sched_inv (share s2 l)" unfolding s2 share_upd using dn_block_view [OF v1, of y x] y1(1,2) by simp
  have i2: "sm_inv s2" by (rule sm_inv_cong [OF i1]) (simp_all add: s2 fun_eq_iff)
  have q2: "sm_queue (sms s2 m) = [x]" "counter (sms s2 m) = 0" "y \<in> set (ec_queue (ecs s2 x))" "sc_cpu (scs s2 y) \<noteq> cpu_id l"
    using q1 assms(9,10) by (simp_all add: s2 s1)
  from remote_up [OF v1 i1 q1(1), of t] obtain a where
    a: "on_core l (sm_up m t) s1 = Some (True, a)" "cont (ecs a x) = Sys_finish SUCCESS True" "sm_queue (sms a m) = []" "counter (sms a m) = counter (sms s1 m)" by blast
  have "block_sc x a = Some (False, a)" using a(2) by (simp add: block_sc_def blocked_def)
  moreover from remote_up [OF v2 i2 q2(1), of t] obtain b where
    "on_core l (sm_up m t) s2 = Some (True, b)" "cont (ecs b x) = Sys_finish SUCCESS True" "sm_queue (sms b m) = []" "counter (sms b m) = counter (sms s2 m)"
      "y \<in> set (release b (sc_cpu (scs b y)))" using q2(3,4) by blast
  ultimately show ?thesis using r1 r2 a q1(2) q2(2) by (intro exI [of _ s1]) simp
qed

theorem sm_no_lost_wakeup_witness:
  "\<exists>s1. sm_dn_lock 0x500 0x400 False kern0 = Some (True, s1) \<and>
    (\<exists>s2 s3. block_sc 0x400 s1 = Some (True, s2) \<and> on_core (kern0\<lparr>ready := \<lambda>_. [], prio_top := 0, cpu_id := 1\<rparr>) (sm_up 0x500 7) s2 = Some (True, s3) \<and>
      0x100 \<in> set (release s3 (sc_cpu (scs s3 0x100))))"
proof -
  let ?l = "kern0\<lparr>ready := \<lambda>_. [], prio_top := 0, cpu_id := 1\<rparr>"
  have v: "sched_inv (share kern0 ?l)" by (rule idle_view [OF kern0_inv]) simp_all
  have h: "\<not> ec_linked (ecs kern0 0x400)" "cs_abs kern0 0x500 = (0, [])" "0x100 = sc_current kern0" "\<not> sc_linked (scs kern0 0x100)" "prio (scs kern0 0x100) < priorities"
    "sc_cpu (scs kern0 0x100) = cpu_id kern0" "cpu_id ?l \<noteq> cpu_id kern0" by (simp_all add: kern0_def ec0_def sc0_def priorities_def)
  show ?thesis using sm_no_lost_wakeup [OF kern0_inv v kern0_sm_inv h, of False 7] by blast
qed

section \<open>Timeouts of semaphore operations\<close>

text \<open>The list of pending timeouts and the state agree if every blocked EC with a pending timeout waits at the semaphore the timeout is for.\<close>

definition kern_pend :: "'a kern_scheme \<Rightarrow> u64 list \<Rightarrow> bool" where
  "kern_pend s xs \<longleftrightarrow> trep s xs \<and> sched_inv s \<and> sm_inv s \<and>
     (\<forall>x\<in>set xs. x \<noteq> budget_timeout \<longrightarrow> blocked (ecs s x) \<longrightarrow> x \<in> set (sm_queue (sms s (tmo_sm (ecs s x)))))"

text \<open>What a trigger brings about: rescheduling, or an EC that is not blocked.\<close>

definition kern_fired :: "u64 \<Rightarrow> 'a kern_scheme \<Rightarrow> bool" where
  "kern_fired x s \<longleftrightarrow> (if x = budget_timeout then cpu_hazard s AND HZD_SCHED \<noteq> 0 else \<not> blocked (ecs s x))"

lemma timers_more:
  assumes "timers.more s' = timers.more (s :: 'a kern_scheme)"
  shows "ecs s' = ecs s" "scs s' = scs s" "sms s' = sms s" "ready s' = ready s" "prio_top s' = prio_top s" "release s' = release s" "cpu_id s' = cpu_id s"
    "cpu_hazard s' = cpu_hazard s"
  using assms by (cases s; cases s'; simp)+

lemma trep_frame: "tmo s' = tmo s \<Longrightarrow> tlist s' = tlist s \<Longrightarrow> dln s' = dln s \<Longrightarrow> trep s' xs = trep s xs"
  by (simp add: trep_def)

lemma pend_trigger:
  assumes p: "kern_pend s (x # xs)" and d: "timeout_dequeue x s = Some (d, s1)"
  shows "\<exists>s2. timeout_trigger t x s1 = Some s2 \<and> kern_pend s2 xs \<and> tmo s2 = tmo s1 \<and> kern_fired x s2 \<and> (\<forall>y. kern_fired y s \<longrightarrow> kern_fired y s2)"
proof -
  have r: "trep s (x # xs)" using p by (simp add: kern_pend_def)
  from timeout_dequeue_spec [OF r, of x] d have r1: "trep s1 xs" and m: "timers.more s1 = timers.more s" by auto
  note f = timers_more [OF m]
  have k: "sched_inv s1" "sm_inv s1" using p sched_inv_cong [of s s1] sm_inv_cong [of s s1] f by (simp_all add: kern_pend_def)
  have w: "y \<in> set (sm_queue (sms s1 (tmo_sm (ecs s1 y))))" if "y \<in> set (x # xs)" "y \<noteq> budget_timeout" "blocked (ecs s1 y)" for y
    using p that unfolding kern_pend_def f by blast
  have fd: "kern_fired y s1 = kern_fired y s" for y by (simp add: kern_fired_def f)
  have dx: "x \<notin> set xs" using r by (auto simp: trep_def dll_def)
  show ?thesis
  proof (cases "x = budget_timeout")
    case True
    define s2 where s2: "s2 = cpu_hazard_set HZD_SCHED s1"
    have "timeout_trigger t x s1 = Some s2" using True by (simp add: timeout_trigger_def s2)
    moreover have "sched_inv s2" "sm_inv s2" using sched_inv_cong [OF k(1), of s2] sm_inv_cong [OF k(2), of s2] by (simp_all add: s2)
    then have "kern_pend s2 xs" using r1 w by (auto simp: kern_pend_def s2 trep_frame [of s2 s1, unfolded s2])
    moreover have h: "cpu_hazard s2 AND HZD_SCHED \<noteq> 0" unfolding s2 by (rule sched_hazard_set)
    moreover have "kern_fired y s2" if "kern_fired y s" for y using that h unfolding fd [symmetric] by (simp add: kern_fired_def s2)
    moreover have "kern_fired x s2" "tmo s2 = tmo s1" using h True by (simp_all add: kern_fired_def s2)
    ultimately show ?thesis by blast
  next
    case nb: False
    show ?thesis
    proof (cases "blocked (ecs s1 x)")
      case False
      then have "timeout_trigger t x s1 = Some s1" using nb by (simp add: timeout_trigger_def sm_timeout_def)
      moreover have "kern_pend s1 xs" using r1 k w by (simp add: kern_pend_def)
      ultimately show ?thesis using False nb fd by (intro exI [of _ s1]) (simp add: kern_fired_def)
    next
      case True
      from sm_wake_spec [OF k w, of x t "Sys_finish TIMEOUT False"] True nb obtain s2 where
        s2: "do { s \<leftarrow> ec_dequeue (tmo_sm (ecs s1 x)) x s1; unblock_sc x t (ec_unblock x (Sys_finish TIMEOUT False) s) } = Some s2" "sched_inv s2" "sm_inv s2"
          "sched_frame (s1\<lparr>sms := sms s2\<rparr>) s2"
          "sms s2 = (sms s1)(tmo_sm (ecs s1 x) := (sms s1 (tmo_sm (ecs s1 x)))\<lparr>sm_queue := remove1 x (sm_queue (sms s1 (tmo_sm (ecs s1 x))))\<rparr>)"
          "ecs s2 = (ecs s1)(x := (ecs s1 x)\<lparr>cont := Sys_finish TIMEOUT False, ec_linked := False, ec_queue := []\<rparr>)" by auto
      have "timeout_trigger t x s1 = Some s2" using s2(1) True nb by (simp add: timeout_trigger_def sm_timeout_def)
      moreover have "trep s2 xs" using r1 trep_frame [of s2 s1] s2(4) by (simp add: sched_frame_def)
      moreover have "y \<in> set (sm_queue (sms s2 (tmo_sm (ecs s2 y))))" if "y \<in> set xs" "y \<noteq> budget_timeout" "blocked (ecs s2 y)" for y
        using w [of y] that dx unfolding s2(5,6) by auto
      ultimately have "timeout_trigger t x s1 = Some s2" "kern_pend s2 xs" using s2(2,3) unfolding kern_pend_def by blast+
      moreover have "tmo s2 = tmo s1" "kern_fired x s2" using s2(4,6) nb by (simp_all add: sched_frame_def kern_fired_def blocked_def)
      moreover have "kern_fired y s2" if "kern_fired y s" for y
      proof (cases "y = budget_timeout")
        case True
        then show ?thesis using that s2(4) by (simp add: kern_fired_def sched_frame_def f)
      next
        case False
        then show ?thesis using that s2(6) by (simp add: kern_fired_def f blocked_def)
      qed
      ultimately show ?thesis by blast
    qed
  qed
qed

interpretation hypercall_timeouts: timeout_handler kern_pend "timeout_trigger t" kern_fired for t
proof unfold_locales
  fix s :: "'a kern_scheme" and xs x d s1
  show "kern_pend s xs \<Longrightarrow> trep s xs" by (simp add: kern_pend_def)
  show "kern_pend s (x # xs) \<Longrightarrow> timeout_dequeue x s = Some (d, s1) \<Longrightarrow>
    \<exists>s2. timeout_trigger t x s1 = Some s2 \<and> kern_pend s2 xs \<and> tmo s2 = tmo s1 \<and> kern_fired x s2 \<and> (\<forall>y. kern_fired y s \<longrightarrow> kern_fired y s2)"
    by (rule pend_trigger)
qed

text \<open>
  C32: \<^verbatim>\<open>Timeout::check\<close> terminates and triggers exactly the timeouts that are due, in order of their deadlines: an EC whose semaphore operation timed out is no longer blocked
  and an exhausted budget requests rescheduling. The remaining timeouts stay pending with deadlines in the future, and the semaphore and scheduler queues stay well formed,
  even if an EC was woken up before its timeout was checked.
\<close>

theorem timeout_check_wakes:
  assumes "kern_pend s xs"
  shows "\<exists>n s'. timeout_check (timeout_trigger t) clk 0 s = Some s' \<and> n \<le> length xs \<and> kern_pend s' (drop n xs) \<and> (\<forall>k<n. ttime s (xs ! k) \<le> clk k) \<and>
    (n < length xs \<longrightarrow> clk n < ttime s (xs ! n)) \<and> (\<forall>k<n. kern_fired (xs ! k) s')"
  using hypercall_timeouts.check_ok [OF assms, of t clk 0] by auto

definition kern_wait :: kern where
  "kern_wait = kern0\<lparr>ecs := (ecs kern0)(0x400 := ec0\<lparr>cont := Blocking, ec_linked := True, tmo_sm := 0x500\<rparr>), sms := (sms kern0)(0x500 := (sms kern0 0x500)\<lparr>sm_queue := [0x400]\<rparr>),
     tmo := (tmo kern0)(0x400 := \<lparr>t_time = 9, t_prev = 0, t_next = 0\<rparr>), tlist := 0x400, dln := 9\<rparr>"

lemma kern_wait_pend: "kern_pend kern_wait [0x400]"
proof -
  have "sched_inv kern_wait" by (rule sched_inv_cong [OF kern0_inv]) (simp_all add: kern_wait_def kern0_def ec0_def)
  moreover have "sm_inv kern_wait" by (simp add: sm_inv_def kern_wait_def kern0_def)
  moreover have "trep kern_wait [0x400]" by (simp add: trep_def dll_def kern_wait_def kern0_def timers0_def)
  ultimately show ?thesis by (simp add: kern_pend_def kern_wait_def)
qed

theorem timeout_check_wakes_witness:
  "\<exists>s'. timeout_check (timeout_trigger 10) (\<lambda>_. 10) 0 kern_wait = Some s' \<and> \<not> blocked (ecs s' 0x400)"
proof -
  obtain n s' where n: "timeout_check (timeout_trigger 10) (\<lambda>_. 10) 0 kern_wait = Some s'" "n < 1 \<longrightarrow> 10 < ttime kern_wait ([0x400] ! n)" "\<forall>k<n. kern_fired ([0x400] ! k) s'"
    using timeout_check_wakes [OF kern_wait_pend, of 10 "\<lambda>_. 10"] by (metis One_nat_def length_Cons list.size(3))
  have "ttime kern_wait 0x400 = 9" by (simp add: kern_wait_def)
  then have "n \<noteq> 0" using n(2) by (intro notI) simp
  then have "kern_fired 0x400 s'" using n(3) by force
  then show ?thesis using n(1) by (simp add: kern_fired_def budget_timeout_def)
qed

end
