(* ===== verification/Nova_Utcb.thy ===== *)
theory Nova_Utcb
  imports Nova_Ec Nova_Ptab
begin

text \<open>
  \<^verbatim>\<open>inc/x86_64/utcb_arch.hpp\<close>, \<^verbatim>\<open>src/x86_64/utcb_arch.cpp\<close>: the transfer of architectural state between an execution context and a UTCB, selected by a message
  transfer descriptor. The UTCB at address \<open>u\<close> is a structure in memory. A load is the list of assignments to its fields; a save updates the register state and
  the virtual-machine control structure. The pages of VMCBs and UTCBs are different ones, so that a load reads the VMCB as it was at the start.
\<close>

section \<open>Message transfer descriptors\<close>

definition item :: "u32 \<Rightarrow> u32 \<Rightarrow> bool" where
  "item m x \<longleftrightarrow> m AND x \<noteq> 0"

definition MTD_POISON :: u32 where "MTD_POISON = BIT 0"
definition MTD_GPR_0_7 :: u32 where "MTD_GPR_0_7 = BIT 1"
definition MTD_GPR_8_15 :: u32 where "MTD_GPR_8_15 = BIT 2"
definition MTD_RFLAGS :: u32 where "MTD_RFLAGS = BIT 3"
definition MTD_RIP :: u32 where "MTD_RIP = BIT 4"
definition MTD_STA :: u32 where "MTD_STA = BIT 5"
definition MTD_QUAL :: u32 where "MTD_QUAL = BIT 6"
definition MTD_CTRL :: u32 where "MTD_CTRL = BIT 7"
definition MTD_TPR :: u32 where "MTD_TPR = BIT 8"
definition MTD_INJ :: u32 where "MTD_INJ = BIT 9"
definition MTD_CS_SS :: u32 where "MTD_CS_SS = BIT 10"
definition MTD_DS_ES :: u32 where "MTD_DS_ES = BIT 11"
definition MTD_FS_GS :: u32 where "MTD_FS_GS = BIT 12"
definition MTD_TR :: u32 where "MTD_TR = BIT 13"
definition MTD_LDTR :: u32 where "MTD_LDTR = BIT 14"
definition MTD_GDTR :: u32 where "MTD_GDTR = BIT 15"
definition MTD_IDTR :: u32 where "MTD_IDTR = BIT 16"
definition MTD_PDPTE :: u32 where "MTD_PDPTE = BIT 17"
definition MTD_CR :: u32 where "MTD_CR = BIT 18"
definition MTD_DR :: u32 where "MTD_DR = BIT 19"
definition MTD_XSAVE :: u32 where "MTD_XSAVE = BIT 20"
definition MTD_SYSCALL :: u32 where "MTD_SYSCALL = BIT 21"
definition MTD_SYSENTER :: u32 where "MTD_SYSENTER = BIT 22"
definition MTD_PAT :: u32 where "MTD_PAT = BIT 23"
definition MTD_EFER :: u32 where "MTD_EFER = BIT 24"
definition MTD_KERNEL_GS_BASE :: u32 where "MTD_KERNEL_GS_BASE = BIT 25"
definition MTD_TLB :: u32 where "MTD_TLB = BIT 29"
definition MTD_FPU :: u32 where "MTD_FPU = BIT 30"
definition MTD_SPACES :: u32 where "MTD_SPACES = BIT 31"

lemmas mtd_defs =
  MTD_POISON_def MTD_GPR_0_7_def MTD_GPR_8_15_def MTD_RFLAGS_def MTD_RIP_def MTD_STA_def MTD_QUAL_def MTD_CTRL_def MTD_TPR_def MTD_INJ_def MTD_CS_SS_def
  MTD_DS_ES_def MTD_FS_GS_def MTD_TR_def MTD_LDTR_def MTD_GDTR_def MTD_IDTR_def MTD_PDPTE_def MTD_CR_def MTD_DR_def MTD_XSAVE_def MTD_SYSCALL_def
  MTD_SYSENTER_def MTD_PAT_def MTD_EFER_def MTD_KERNEL_GS_BASE_def MTD_TLB_def MTD_FPU_def MTD_SPACES_def

text \<open>The number of words of a user message.\<close>

definition mtd_count :: "u32 \<Rightarrow> nat" where
  "mtd_count m = unat m mod 512 + 1"

fun copy_words :: "nat \<Rightarrow> u64 \<Rightarrow> u64 \<Rightarrow> memory \<Rightarrow> memory" where
  "copy_words 0 src dst m = m"
| "copy_words (Suc i) src dst m = (let m = copy_words i src dst m in m(dst + of_nat (8 * i) := m (src + of_nat (8 * i))))"

definition utcb_copy :: "u32 \<Rightarrow> u64 \<Rightarrow> u64 \<Rightarrow> memory \<Rightarrow> memory" where
  "utcb_copy m src dst = copy_words (mtd_count m) src dst"

section \<open>Fields of the UTCB\<close>

definition UTCB_rax :: field where "UTCB_rax = (0x0, 8)"
definition UTCB_rcx :: field where "UTCB_rcx = (0x8, 8)"
definition UTCB_rdx :: field where "UTCB_rdx = (0x10, 8)"
definition UTCB_rbx :: field where "UTCB_rbx = (0x18, 8)"
definition UTCB_rsp :: field where "UTCB_rsp = (0x20, 8)"
definition UTCB_rbp :: field where "UTCB_rbp = (0x28, 8)"
definition UTCB_rsi :: field where "UTCB_rsi = (0x30, 8)"
definition UTCB_rdi :: field where "UTCB_rdi = (0x38, 8)"
definition UTCB_r8 :: field where "UTCB_r8 = (0x40, 8)"
definition UTCB_r9 :: field where "UTCB_r9 = (0x48, 8)"
definition UTCB_r10 :: field where "UTCB_r10 = (0x50, 8)"
definition UTCB_r11 :: field where "UTCB_r11 = (0x58, 8)"
definition UTCB_r12 :: field where "UTCB_r12 = (0x60, 8)"
definition UTCB_r13 :: field where "UTCB_r13 = (0x68, 8)"
definition UTCB_r14 :: field where "UTCB_r14 = (0x70, 8)"
definition UTCB_r15 :: field where "UTCB_r15 = (0x78, 8)"
definition UTCB_rfl :: field where "UTCB_rfl = (0x80, 8)"
definition UTCB_rip :: field where "UTCB_rip = (0x88, 8)"
definition UTCB_inst_len :: field where "UTCB_inst_len = (0x90, 4)"
definition UTCB_inst_info :: field where "UTCB_inst_info = (0x94, 4)"
definition UTCB_intr_state :: field where "UTCB_intr_state = (0x98, 4)"
definition UTCB_actv_state :: field where "UTCB_actv_state = (0x9c, 4)"
definition UTCB_qual0 :: field where "UTCB_qual0 = (0xa0, 8)"
definition UTCB_qual1 :: field where "UTCB_qual1 = (0xa8, 8)"
definition UTCB_qual2 :: field where "UTCB_qual2 = (0xb0, 8)"
definition UTCB_reserved :: field where "UTCB_reserved = (0xb8, 8)"
definition UTCB_ctrl_pri :: field where "UTCB_ctrl_pri = (0xc0, 4)"
definition UTCB_ctrl_sec :: field where "UTCB_ctrl_sec = (0xc4, 4)"
definition UTCB_ctrl_ter :: field where "UTCB_ctrl_ter = (0xc8, 8)"
definition UTCB_intcpt_cr0 :: field where "UTCB_intcpt_cr0 = (0xd0, 8)"
definition UTCB_intcpt_cr4 :: field where "UTCB_intcpt_cr4 = (0xd8, 8)"
definition UTCB_intcpt_exc :: field where "UTCB_intcpt_exc = (0xe0, 4)"
definition UTCB_pfe_mask :: field where "UTCB_pfe_mask = (0xe4, 4)"
definition UTCB_pfe_match :: field where "UTCB_pfe_match = (0xe8, 4)"
definition UTCB_tpr_threshold :: field where "UTCB_tpr_threshold = (0xec, 4)"
definition UTCB_intr_info :: field where "UTCB_intr_info = (0xf0, 4)"
definition UTCB_intr_errc :: field where "UTCB_intr_errc = (0xf4, 4)"
definition UTCB_vect_info :: field where "UTCB_vect_info = (0xf8, 4)"
definition UTCB_vect_errc :: field where "UTCB_vect_errc = (0xfc, 4)"
definition UTCB_pdpte0 :: field where "UTCB_pdpte0 = (0x1a0, 8)"
definition UTCB_pdpte1 :: field where "UTCB_pdpte1 = (0x1a8, 8)"
definition UTCB_pdpte2 :: field where "UTCB_pdpte2 = (0x1b0, 8)"
definition UTCB_pdpte3 :: field where "UTCB_pdpte3 = (0x1b8, 8)"
definition UTCB_cr0 :: field where "UTCB_cr0 = (0x1c0, 8)"
definition UTCB_cr2 :: field where "UTCB_cr2 = (0x1c8, 8)"
definition UTCB_cr3 :: field where "UTCB_cr3 = (0x1d0, 8)"
definition UTCB_cr4 :: field where "UTCB_cr4 = (0x1d8, 8)"
definition UTCB_cr8 :: field where "UTCB_cr8 = (0x1e0, 8)"
definition UTCB_dr7 :: field where "UTCB_dr7 = (0x1e8, 8)"
definition UTCB_xcr0 :: field where "UTCB_xcr0 = (0x1f0, 8)"
definition UTCB_xss :: field where "UTCB_xss = (0x1f8, 8)"
definition UTCB_sysenter_cs :: field where "UTCB_sysenter_cs = (0x200, 8)"
definition UTCB_sysenter_esp :: field where "UTCB_sysenter_esp = (0x208, 8)"
definition UTCB_sysenter_eip :: field where "UTCB_sysenter_eip = (0x210, 8)"
definition UTCB_pat :: field where "UTCB_pat = (0x218, 8)"
definition UTCB_efer :: field where "UTCB_efer = (0x220, 8)"
definition UTCB_star :: field where "UTCB_star = (0x228, 8)"
definition UTCB_lstar :: field where "UTCB_lstar = (0x230, 8)"
definition UTCB_fmask :: field where "UTCB_fmask = (0x238, 8)"
definition UTCB_kernel_gs_base :: field where "UTCB_kernel_gs_base = (0x240, 8)"
definition UTCB_sel_gst :: field where "UTCB_sel_gst = (0x248, 8)"
definition UTCB_sel_pio :: field where "UTCB_sel_pio = (0x250, 8)"
definition UTCB_sel_msr :: field where "UTCB_sel_msr = (0x258, 8)"

text \<open>Segments: selector, attributes, limit and base.\<close>

definition UTCB_cs :: nat where "UTCB_cs = 0x100"
definition UTCB_ss :: nat where "UTCB_ss = 0x110"
definition UTCB_ds :: nat where "UTCB_ds = 0x120"
definition UTCB_es :: nat where "UTCB_es = 0x130"
definition UTCB_fs :: nat where "UTCB_fs = 0x140"
definition UTCB_gs :: nat where "UTCB_gs = 0x150"
definition UTCB_tr :: nat where "UTCB_tr = 0x160"
definition UTCB_ld :: nat where "UTCB_ld = 0x170"
definition UTCB_gd :: nat where "UTCB_gd = 0x180"
definition UTCB_id :: nat where "UTCB_id = 0x190"

definition seg_sel :: "nat \<Rightarrow> field" where
  "seg_sel b = (b + 0, 2)"

definition seg_ar :: "nat \<Rightarrow> field" where
  "seg_ar b = (b + 2, 2)"

definition seg_limit :: "nat \<Rightarrow> field" where
  "seg_limit b = (b + 4, 4)"

definition seg_base :: "nat \<Rightarrow> field" where
  "seg_base b = (b + 8, 8)"

lemmas utcb_defs =
  UTCB_rax_def UTCB_rcx_def UTCB_rdx_def UTCB_rbx_def UTCB_rsp_def UTCB_rbp_def UTCB_rsi_def UTCB_rdi_def UTCB_r8_def UTCB_r9_def UTCB_r10_def
  UTCB_r11_def UTCB_r12_def UTCB_r13_def UTCB_r14_def UTCB_r15_def UTCB_rfl_def UTCB_rip_def UTCB_inst_len_def UTCB_inst_info_def UTCB_intr_state_def
  UTCB_actv_state_def UTCB_qual0_def UTCB_qual1_def UTCB_qual2_def UTCB_reserved_def UTCB_ctrl_pri_def UTCB_ctrl_sec_def UTCB_ctrl_ter_def
  UTCB_intcpt_cr0_def UTCB_intcpt_cr4_def UTCB_intcpt_exc_def UTCB_pfe_mask_def UTCB_pfe_match_def UTCB_tpr_threshold_def UTCB_intr_info_def
  UTCB_intr_errc_def UTCB_vect_info_def UTCB_vect_errc_def UTCB_pdpte0_def UTCB_pdpte1_def UTCB_pdpte2_def UTCB_pdpte3_def UTCB_cr0_def UTCB_cr2_def
  UTCB_cr3_def UTCB_cr4_def UTCB_cr8_def UTCB_dr7_def UTCB_xcr0_def UTCB_xss_def UTCB_sysenter_cs_def UTCB_sysenter_esp_def UTCB_sysenter_eip_def
  UTCB_pat_def UTCB_efer_def UTCB_star_def UTCB_lstar_def UTCB_fmask_def UTCB_kernel_gs_base_def UTCB_sel_gst_def UTCB_sel_pio_def UTCB_sel_msr_def
  UTCB_cs_def UTCB_ss_def UTCB_ds_def UTCB_es_def UTCB_fs_def UTCB_gs_def UTCB_tr_def UTCB_ld_def UTCB_gd_def UTCB_id_def seg_sel_def seg_ar_def
  seg_limit_def seg_base_def

definition utcb_fields :: "field list" where
  "utcb_fields = [UTCB_rax, UTCB_rcx, UTCB_rdx, UTCB_rbx, UTCB_rsp, UTCB_rbp, UTCB_rsi, UTCB_rdi, UTCB_r8, UTCB_r9, UTCB_r10, UTCB_r11, UTCB_r12, UTCB_r13, UTCB_r14,
     UTCB_r15, UTCB_rfl, UTCB_rip, UTCB_inst_len, UTCB_inst_info, UTCB_intr_state, UTCB_actv_state, UTCB_qual0, UTCB_qual1, UTCB_qual2, UTCB_reserved,
     UTCB_ctrl_pri, UTCB_ctrl_sec, UTCB_ctrl_ter, UTCB_intcpt_cr0, UTCB_intcpt_cr4, UTCB_intcpt_exc, UTCB_pfe_mask, UTCB_pfe_match, UTCB_tpr_threshold,
     UTCB_intr_info, UTCB_intr_errc, UTCB_vect_info, UTCB_vect_errc, seg_sel UTCB_cs, seg_ar UTCB_cs, seg_limit UTCB_cs, seg_base UTCB_cs, seg_sel UTCB_ss,
     seg_ar UTCB_ss, seg_limit UTCB_ss, seg_base UTCB_ss, seg_sel UTCB_ds, seg_ar UTCB_ds, seg_limit UTCB_ds, seg_base UTCB_ds, seg_sel UTCB_es, seg_ar
     UTCB_es, seg_limit UTCB_es, seg_base UTCB_es, seg_sel UTCB_fs, seg_ar UTCB_fs, seg_limit UTCB_fs, seg_base UTCB_fs, seg_sel UTCB_gs, seg_ar UTCB_gs,
     seg_limit UTCB_gs, seg_base UTCB_gs, seg_sel UTCB_tr, seg_ar UTCB_tr, seg_limit UTCB_tr, seg_base UTCB_tr, seg_sel UTCB_ld, seg_ar UTCB_ld, seg_limit
     UTCB_ld, seg_base UTCB_ld, seg_sel UTCB_gd, seg_ar UTCB_gd, seg_limit UTCB_gd, seg_base UTCB_gd, seg_sel UTCB_id, seg_ar UTCB_id, seg_limit UTCB_id,
     seg_base UTCB_id, UTCB_pdpte0, UTCB_pdpte1, UTCB_pdpte2, UTCB_pdpte3, UTCB_cr0, UTCB_cr2, UTCB_cr3, UTCB_cr4, UTCB_cr8, UTCB_dr7, UTCB_xcr0, UTCB_xss,
     UTCB_sysenter_cs, UTCB_sysenter_esp, UTCB_sysenter_eip, UTCB_pat, UTCB_efer, UTCB_star, UTCB_lstar, UTCB_fmask, UTCB_kernel_gs_base, UTCB_sel_gst,
     UTCB_sel_pio, UTCB_sel_msr]"

text \<open>The layout has the size that the source asserts.\<close>

lemma utcb_layout: "layout utcb_fields"
  by (simp add: utcb_fields_def utcb_defs field_ok_def)


section \<open>Exceptions\<close>

definition load_exc_items :: "u32 \<Rightarrow> exc_regs \<Rightarrow> (field \<times> u64) list" where
  "load_exc_items m e =
     (if item m MTD_GPR_0_7 then [(UTCB_rax, sys e RAX), (UTCB_rcx, sys e RCX), (UTCB_rdx, sys e RDX), (UTCB_rbx, sys e RBX), (UTCB_rsp, rsp e), (UTCB_rbp, sys e RBP),
         (UTCB_rsi, sys e RSI), (UTCB_rdi, sys e RDI)] else []) @
     (if item m MTD_GPR_8_15 then [(UTCB_r8, sys e R8), (UTCB_r9, sys e R9), (UTCB_r10, sys e R10), (UTCB_r11, sys e R11), (UTCB_r12, sys e R12), (UTCB_r13, sys e R13),
         (UTCB_r14, sys e R14), (UTCB_r15, sys e R15)] else []) @
     (if item m MTD_RFLAGS then [(UTCB_rfl, rfl e)] else []) @
     (if item m MTD_RIP then [(UTCB_rip, rip e)] else []) @
     (if item m MTD_QUAL then [(UTCB_qual0, err e), (UTCB_qual1, cr2 e)] else [])"

definition load_exc :: "u32 \<Rightarrow> exc_regs \<Rightarrow> u64 \<Rightarrow> memory \<Rightarrow> memory" where
  "load_exc m e u = puts u (load_exc_items m e)"

text \<open>The general-purpose registers that are saved from a UTCB.\<close>

definition save_gpr_lo :: "memory \<Rightarrow> u64 \<Rightarrow> (gpr \<Rightarrow> u64) \<Rightarrow> (gpr \<Rightarrow> u64)" where
  "save_gpr_lo M u r = r(RAX := sget M u UTCB_rax, RCX := sget M u UTCB_rcx, RDX := sget M u UTCB_rdx, RBX := sget M u UTCB_rbx, RBP := sget M u UTCB_rbp, RSI :=
     sget M u UTCB_rsi, RDI := sget M u UTCB_rdi)"

definition save_gpr_hi :: "memory \<Rightarrow> u64 \<Rightarrow> (gpr \<Rightarrow> u64) \<Rightarrow> (gpr \<Rightarrow> u64)" where
  "save_gpr_hi M u r = r(R8 := sget M u UTCB_r8, R9 := sget M u UTCB_r9, R10 := sget M u UTCB_r10, R11 := sget M u UTCB_r11, R12 := sget M u UTCB_r12, R13 := sget M
     u UTCB_r13, R14 := sget M u UTCB_r14, R15 := sget M u UTCB_r15)"

definition save_exc :: "u32 \<Rightarrow> memory \<Rightarrow> u64 \<Rightarrow> exc_regs \<Rightarrow> bool \<times> exc_regs" where
  "save_exc m M u e =
     (if item m MTD_POISON then (False, e)
      else
        let e = (if item m MTD_GPR_0_7 then e\<lparr>sys := save_gpr_lo M u (sys e), rsp := sget M u UTCB_rsp\<rparr> else e);
            e = (if item m MTD_GPR_8_15 then e\<lparr>sys := save_gpr_hi M u (sys e)\<rparr> else e);
            e = (if item m MTD_RFLAGS
                 then e\<lparr>rfl := (sget M u UTCB_rfl AND NOT (RFL_VIP OR RFL_VIF OR RFL_VM OR RFL_RF OR RFL_NT OR RFL_IOPL)) OR RFL_AC OR RFL_IF OR RFL_1\<rparr> else e);
            e = (if item m MTD_RIP then e\<lparr>rip := sget M u UTCB_rip\<rparr> else e)
        in (True, e))"

section \<open>Virtual CPUs with VMX\<close>

definition EVENT_RECALL :: u64 where "EVENT_RECALL = 256 + 1"

definition set_vmx :: "nat \<Rightarrow> u64 \<Rightarrow> u64 \<Rightarrow> u64 \<Rightarrow> u64 \<Rightarrow> (field \<times> u64) list" where
  "set_vmx g s bs l a = [(seg_sel g, s), (seg_ar g, (drop_bit 4 a AND 0x1f00) OR (a AND 0xff)), (seg_limit g, l), (seg_base g, bs)]"

definition load_vmx_gpr :: "u32 \<Rightarrow> exc_regs \<Rightarrow> vmcs \<Rightarrow> (field \<times> u64) list" where
  "load_vmx_gpr m e v =
     (if item m MTD_GPR_0_7 then [(UTCB_rax, sys e RAX), (UTCB_rcx, sys e RCX), (UTCB_rdx, sys e RDX), (UTCB_rbx, sys e RBX), (UTCB_rbp, sys e RBP), (UTCB_rsi, sys e RSI),
         (UTCB_rdi, sys e RDI), (UTCB_rsp, vmcs_read v VMCS_GUEST_RSP)] else []) @
     (if item m MTD_GPR_8_15 then [(UTCB_r8, sys e R8), (UTCB_r9, sys e R9), (UTCB_r10, sys e R10), (UTCB_r11, sys e R11), (UTCB_r12, sys e R12), (UTCB_r13, sys e R13),
         (UTCB_r14, sys e R14), (UTCB_r15, sys e R15)] else []) @
     (if item m MTD_RFLAGS then [(UTCB_rfl, vmcs_read v VMCS_GUEST_RFLAGS)] else []) @
     (if item m MTD_RIP then [(UTCB_rip, vmcs_read v VMCS_GUEST_RIP), (UTCB_inst_len, vmcs_read v VMCS_EXI_INST_LEN), (UTCB_inst_info, vmcs_read v VMCS_EXI_INST_INFO)] else []) @
     (if item m MTD_STA then [(UTCB_intr_state, vmcs_read v VMCS_GUEST_INTR_STATE), (UTCB_actv_state, vmcs_read v VMCS_GUEST_ACTV_STATE)] else []) @
     (if item m MTD_QUAL then [(UTCB_qual0, vmcs_read v VMCS_EXI_QUALIFICATION), (UTCB_qual1, vmcs_read v VMCS_GUEST_LINEAR_ADDRESS), (UTCB_qual2, vmcs_read v
         VMCS_GUEST_PHYSICAL_ADDRESS)] else [])"

definition load_vmx_inj :: "u32 \<Rightarrow> exc_regs \<Rightarrow> vmcs \<Rightarrow> (field \<times> u64) list" where
  "load_vmx_inj m e v =
     (if item m MTD_INJ then
        (if vec e = 33 \<or> vec e = EVENT_RECALL then [(UTCB_intr_info, vmcs_read v VMCS_INJ_EVENT_IDENT), (UTCB_intr_errc, vmcs_read v VMCS_INJ_EVENT_ERROR)]
         else [(UTCB_intr_info, vmcs_read v VMCS_EXI_EVENT_IDENT), (UTCB_intr_errc, vmcs_read v VMCS_EXI_EVENT_ERROR), (UTCB_vect_info, vmcs_read v
            VMCS_ORG_EVENT_IDENT), (UTCB_vect_errc, vmcs_read v VMCS_ORG_EVENT_ERROR)])
      else [])"

definition load_vmx_seg :: "u32 \<Rightarrow> vmcs \<Rightarrow> (field \<times> u64) list" where
  "load_vmx_seg m v =
     (if item m MTD_CS_SS then set_vmx UTCB_cs (vmcs_read v VMCS_GUEST_SEL_CS) (vmcs_read v VMCS_GUEST_BASE_CS) (vmcs_read v VMCS_GUEST_LIMIT_CS) (vmcs_read v VMCS_GUEST_AR_CS) @
        set_vmx UTCB_ss (vmcs_read v VMCS_GUEST_SEL_SS) (vmcs_read v VMCS_GUEST_BASE_SS) (vmcs_read v VMCS_GUEST_LIMIT_SS) (vmcs_read v VMCS_GUEST_AR_SS) else []) @
     (if item m MTD_DS_ES then set_vmx UTCB_ds (vmcs_read v VMCS_GUEST_SEL_DS) (vmcs_read v VMCS_GUEST_BASE_DS) (vmcs_read v VMCS_GUEST_LIMIT_DS) (vmcs_read v VMCS_GUEST_AR_DS) @
        set_vmx UTCB_es (vmcs_read v VMCS_GUEST_SEL_ES) (vmcs_read v VMCS_GUEST_BASE_ES) (vmcs_read v VMCS_GUEST_LIMIT_ES) (vmcs_read v VMCS_GUEST_AR_ES) else []) @
     (if item m MTD_FS_GS then set_vmx UTCB_fs (vmcs_read v VMCS_GUEST_SEL_FS) (vmcs_read v VMCS_GUEST_BASE_FS) (vmcs_read v VMCS_GUEST_LIMIT_FS) (vmcs_read v VMCS_GUEST_AR_FS) @
        set_vmx UTCB_gs (vmcs_read v VMCS_GUEST_SEL_GS) (vmcs_read v VMCS_GUEST_BASE_GS) (vmcs_read v VMCS_GUEST_LIMIT_GS) (vmcs_read v VMCS_GUEST_AR_GS) else []) @
     (if item m MTD_TR then set_vmx UTCB_tr (vmcs_read v VMCS_GUEST_SEL_TR) (vmcs_read v VMCS_GUEST_BASE_TR) (vmcs_read v VMCS_GUEST_LIMIT_TR) (vmcs_read v VMCS_GUEST_AR_TR) else []) @
     (if item m MTD_LDTR then set_vmx UTCB_ld (vmcs_read v VMCS_GUEST_SEL_LDTR) (vmcs_read v VMCS_GUEST_BASE_LDTR) (vmcs_read v VMCS_GUEST_LIMIT_LDTR) (vmcs_read v VMCS_GUEST_AR_LDTR) else []) @
     (if item m MTD_GDTR then set_vmx UTCB_gd 0 (vmcs_read v VMCS_GUEST_BASE_GDTR) (vmcs_read v VMCS_GUEST_LIMIT_GDTR) 0 else []) @
     (if item m MTD_IDTR then set_vmx UTCB_id 0 (vmcs_read v VMCS_GUEST_BASE_IDTR) (vmcs_read v VMCS_GUEST_LIMIT_IDTR) 0 else [])"

definition load_vmx_cr :: "vmx_caps \<Rightarrow> u32 \<Rightarrow> cpu_regs \<Rightarrow> vmcs \<Rightarrow> (field \<times> u64) list" where
  "load_vmx_cr T m c v =
     (if item m MTD_PDPTE then [(UTCB_pdpte0, vmcs_read v VMCS_GUEST_PDPTE0), (UTCB_pdpte1, vmcs_read v VMCS_GUEST_PDPTE1), (UTCB_pdpte2, vmcs_read v VMCS_GUEST_PDPTE2),
         (UTCB_pdpte3, vmcs_read v VMCS_GUEST_PDPTE3)] else []) @
     (if item m MTD_CR then [(UTCB_cr0, vmx_get_gst_cr0 T (exc c) v), (UTCB_cr4, vmx_get_gst_cr4 T (exc c) v), (UTCB_cr2, cr2 (exc c)), (UTCB_cr3, vmcs_read v
         VMCS_GUEST_CR3)] else []) @
     (if item m MTD_DR then [(UTCB_dr7, vmcs_read v VMCS_GUEST_DR7)] else []) @
     (if item m MTD_XSAVE then [(UTCB_xcr0, xcr (fpu_st c)), (UTCB_xss, xss (fpu_st c))] else []) @
     (if item m MTD_SYSCALL then [(UTCB_star, star (cpu_st c)), (UTCB_lstar, lstar (cpu_st c)), (UTCB_fmask, fmask (cpu_st c))] else []) @
     (if item m MTD_SYSENTER then [(UTCB_sysenter_cs, vmcs_read v VMCS_GUEST_SYSENTER_CS), (UTCB_sysenter_esp, vmcs_read v VMCS_GUEST_SYSENTER_ESP), (UTCB_sysenter_eip,
         vmcs_read v VMCS_GUEST_SYSENTER_EIP)] else []) @
     (if item m MTD_PAT then [(UTCB_pat, vmcs_read v VMCS_GUEST_PAT)] else []) @
     (if item m MTD_EFER then [(UTCB_efer, vmcs_read v VMCS_GUEST_EFER)] else []) @
     (if item m MTD_KERNEL_GS_BASE then [(UTCB_kernel_gs_base, kernel_gs_base (cpu_st c))] else [])"

definition load_vmx :: "vmx_caps \<Rightarrow> u32 \<Rightarrow> cpu_regs \<Rightarrow> vmcs \<Rightarrow> u64 \<Rightarrow> memory \<Rightarrow> memory" where
  "load_vmx T m c v u = puts u (load_vmx_gpr m (exc c) v @ load_vmx_inj m (exc c) v @ load_vmx_seg m v @ load_vmx_cr T m c v)"

definition save_vmx_gpr :: "u32 \<Rightarrow> memory \<Rightarrow> u64 \<Rightarrow> exc_regs \<times> vmcs \<Rightarrow> exc_regs \<times> vmcs" where
  "save_vmx_gpr m M u = (\<lambda>(e, v).
     let e = (if item m MTD_GPR_0_7 then e\<lparr>sys := save_gpr_lo M u (sys e)\<rparr> else e);
         e = (if item m MTD_GPR_8_15 then e\<lparr>sys := save_gpr_hi M u (sys e)\<rparr> else e);
         v = vmcs_puts (
     (if item m MTD_GPR_0_7 then [(VMCS_GUEST_RSP, sget M u UTCB_rsp)] else []) @
     (if item m MTD_RFLAGS then [(VMCS_GUEST_RFLAGS, sget M u UTCB_rfl)] else []) @
     (if item m MTD_RIP then [(VMCS_GUEST_RIP, sget M u UTCB_rip), (VMCS_ENT_INST_LEN, sget M u UTCB_inst_len)] else []) @
     (if item m MTD_STA then [(VMCS_GUEST_INTR_STATE, sget M u UTCB_intr_state), (VMCS_GUEST_ACTV_STATE, sget M u UTCB_actv_state)] else [])) v
     in (e, v))"

definition save_vmx_ctrl :: "vmx_caps \<Rightarrow> u32 \<Rightarrow> memory \<Rightarrow> u64 \<Rightarrow> exc_regs \<times> vmcs \<Rightarrow> exc_regs \<times> vmcs" where
  "save_vmx_ctrl T m M u = (\<lambda>(e, v).
     let (e, v) =
           (if item m MTD_CTRL then
              let e = e\<lparr>intcpt_cr0 := sget M u UTCB_intcpt_cr0, intcpt_cr4 := sget M u UTCB_intcpt_cr4, intcpt_exc := ucast (sget M u UTCB_intcpt_exc)\<rparr>;
                  v = vmx_set_bmp_exc e (vmx_set_msk_cr4 T e (vmx_set_msk_cr0 T e v));
                  v = vmx_set_cpu_pri T (ucast (sget M u UTCB_ctrl_pri)) v;
                  v = vmx_set_cpu_sec T (ucast (sget M u UTCB_ctrl_sec)) v;
                  v = vmx_set_cpu_ter T (sget M u UTCB_ctrl_ter) v
              in (e, vmcs_puts [(VMCS_PF_ERROR_MASK, sget M u UTCB_pfe_mask), (VMCS_PF_ERROR_MATCH, sget M u UTCB_pfe_match)] v)
            else (e, v));
         v = (if item m MTD_TPR then vmcs_write VMCS_TPR_THRESHOLD (sget M u UTCB_tpr_threshold) v else v)
     in (e, v))"

text \<open>Event injection: the window-exiting controls follow bits 12 and 13 of the interruption information.\<close>

definition save_vmx_inj :: "vmx_caps \<Rightarrow> u32 \<Rightarrow> memory \<Rightarrow> u64 \<Rightarrow> vmcs \<Rightarrow> vmcs" where
  "save_vmx_inj T m M u v =
     (if item m MTD_INJ then
        let val = ucast (vmcs_read v VMCS_CPU_CONTROLS_PRI) :: u32;
            info = sget M u UTCB_intr_info;
            val = (if info AND 0x1000 \<noteq> 0 then val OR VMX_CPU_INTR_WINDOW else val AND NOT VMX_CPU_INTR_WINDOW);
            val = (if info AND 0x2000 \<noteq> 0 then val OR VMX_CPU_NMI_WINDOW else val AND NOT VMX_CPU_NMI_WINDOW)
        in vmcs_puts [(VMCS_INJ_EVENT_IDENT, info AND NOT 0x3000), (VMCS_INJ_EVENT_ERROR, sget M u UTCB_intr_errc)] (vmx_set_cpu_pri T val v)
      else v)"

definition vmx_ar :: "u64 \<Rightarrow> u64" where
  "vmx_ar a = (push_bit 4 a AND 0x1f000) OR (a AND 0xff)"

definition save_vmx_seg :: "u32 \<Rightarrow> memory \<Rightarrow> u64 \<Rightarrow> vmcs \<Rightarrow> vmcs" where
  "save_vmx_seg m M u = vmcs_puts (
     (if item m MTD_CS_SS then [(VMCS_GUEST_SEL_CS, sget M u (seg_sel UTCB_cs)), (VMCS_GUEST_BASE_CS, sget M u (seg_base UTCB_cs)), (VMCS_GUEST_LIMIT_CS, sget M u
         (seg_limit UTCB_cs)), (VMCS_GUEST_AR_CS, vmx_ar (sget M u (seg_ar UTCB_cs))), (VMCS_GUEST_SEL_SS, sget M u (seg_sel UTCB_ss)),
         (VMCS_GUEST_BASE_SS, sget M u (seg_base UTCB_ss)), (VMCS_GUEST_LIMIT_SS, sget M u (seg_limit UTCB_ss)), (VMCS_GUEST_AR_SS, vmx_ar (sget M u
         (seg_ar UTCB_ss)))] else []) @
     (if item m MTD_DS_ES then [(VMCS_GUEST_SEL_DS, sget M u (seg_sel UTCB_ds)), (VMCS_GUEST_BASE_DS, sget M u (seg_base UTCB_ds)), (VMCS_GUEST_LIMIT_DS, sget M u
         (seg_limit UTCB_ds)), (VMCS_GUEST_AR_DS, vmx_ar (sget M u (seg_ar UTCB_ds))), (VMCS_GUEST_SEL_ES, sget M u (seg_sel UTCB_es)),
         (VMCS_GUEST_BASE_ES, sget M u (seg_base UTCB_es)), (VMCS_GUEST_LIMIT_ES, sget M u (seg_limit UTCB_es)), (VMCS_GUEST_AR_ES, vmx_ar (sget M u
         (seg_ar UTCB_es)))] else []) @
     (if item m MTD_FS_GS then [(VMCS_GUEST_SEL_FS, sget M u (seg_sel UTCB_fs)), (VMCS_GUEST_BASE_FS, sget M u (seg_base UTCB_fs)), (VMCS_GUEST_LIMIT_FS, sget M u
         (seg_limit UTCB_fs)), (VMCS_GUEST_AR_FS, vmx_ar (sget M u (seg_ar UTCB_fs))), (VMCS_GUEST_SEL_GS, sget M u (seg_sel UTCB_gs)),
         (VMCS_GUEST_BASE_GS, sget M u (seg_base UTCB_gs)), (VMCS_GUEST_LIMIT_GS, sget M u (seg_limit UTCB_gs)), (VMCS_GUEST_AR_GS, vmx_ar (sget M u
         (seg_ar UTCB_gs)))] else []) @
     (if item m MTD_TR then [(VMCS_GUEST_SEL_TR, sget M u (seg_sel UTCB_tr)), (VMCS_GUEST_BASE_TR, sget M u (seg_base UTCB_tr)), (VMCS_GUEST_LIMIT_TR, sget M u
         (seg_limit UTCB_tr)), (VMCS_GUEST_AR_TR, vmx_ar (sget M u (seg_ar UTCB_tr)))] else []) @
     (if item m MTD_LDTR then [(VMCS_GUEST_SEL_LDTR, sget M u (seg_sel UTCB_ld)), (VMCS_GUEST_BASE_LDTR, sget M u (seg_base UTCB_ld)), (VMCS_GUEST_LIMIT_LDTR, sget M u
         (seg_limit UTCB_ld)), (VMCS_GUEST_AR_LDTR, vmx_ar (sget M u (seg_ar UTCB_ld)))] else []) @
     (if item m MTD_GDTR then [(VMCS_GUEST_BASE_GDTR, sget M u (seg_base UTCB_gd)), (VMCS_GUEST_LIMIT_GDTR, sget M u (seg_limit UTCB_gd))] else []) @
     (if item m MTD_IDTR then [(VMCS_GUEST_BASE_IDTR, sget M u (seg_base UTCB_id)), (VMCS_GUEST_LIMIT_IDTR, sget M u (seg_limit UTCB_id))] else []) @
     (if item m MTD_PDPTE then [(VMCS_GUEST_PDPTE0, sget M u UTCB_pdpte0), (VMCS_GUEST_PDPTE1, sget M u UTCB_pdpte1), (VMCS_GUEST_PDPTE2, sget M u UTCB_pdpte2),
         (VMCS_GUEST_PDPTE3, sget M u UTCB_pdpte3)] else []))"

definition save_vmx_cr :: "vmx_caps \<Rightarrow> u32 \<Rightarrow> memory \<Rightarrow> u64 \<Rightarrow> exc_regs \<times> vmcs \<Rightarrow> exc_regs \<times> vmcs" where
  "save_vmx_cr T m M u = (\<lambda>(e, v).
     let (e, v) =
           (if item m MTD_CR then
              let (e, v) = vmx_set_gst_cr4 T (sget M u UTCB_cr4) (vmx_set_gst_cr0 T (sget M u UTCB_cr0) (e, v))
              in (e\<lparr>cr2 := sget M u UTCB_cr2\<rparr>, vmcs_write VMCS_GUEST_CR3 (sget M u UTCB_cr3) v)
            else (e, v));
         v = (if item m MTD_DR then vmcs_write VMCS_GUEST_DR7 (sget M u UTCB_dr7) v else v)
     in (e, v))"

text \<open>The state that is switched by the hypervisor is constrained so that loading it cannot fault.\<close>

definition save_xsave :: "fpu_state \<Rightarrow> u32 \<Rightarrow> memory \<Rightarrow> u64 \<Rightarrow> fpu_state \<Rightarrow> fpu_state" where
  "save_xsave H m M u f =
     (if item m MTD_XSAVE then \<lparr>xcr = constrain_xcr (xcr H) (sget M u UTCB_xcr0), xss = constrain_xss (xss H) (sget M u UTCB_xss)\<rparr> else f)"

definition save_vmx_cpu :: "u32 \<Rightarrow> memory \<Rightarrow> u64 \<Rightarrow> cpu_state \<Rightarrow> cpu_state" where
  "save_vmx_cpu m M u p =
     (let p = (if item m MTD_SYSCALL
               then p\<lparr>star := constrain_star (sget M u UTCB_star), lstar := constrain_canon (sget M u UTCB_lstar), fmask := constrain_fmask (sget M u UTCB_fmask)\<rparr> else p)
      in if item m MTD_KERNEL_GS_BASE then p\<lparr>kernel_gs_base := constrain_canon (sget M u UTCB_kernel_gs_base)\<rparr> else p)"

definition save_vmx_msr :: "u32 \<Rightarrow> memory \<Rightarrow> u64 \<Rightarrow> vmcs \<Rightarrow> vmcs" where
  "save_vmx_msr m M u v =
     (let v = vmcs_puts (
     (if item m MTD_SYSENTER then [(VMCS_GUEST_SYSENTER_CS, sget M u UTCB_sysenter_cs), (VMCS_GUEST_SYSENTER_ESP, sget M u UTCB_sysenter_esp), (VMCS_GUEST_SYSENTER_EIP, sget M
         u UTCB_sysenter_eip)] else []) @
     (if item m MTD_PAT then [(VMCS_GUEST_PAT, sget M u UTCB_pat)] else [])) v
      in if item m MTD_EFER then
           let efer = sget M u UTCB_efer;
               v = vmcs_write VMCS_GUEST_EFER efer v;
               ent = ucast (vmcs_read v VMCS_ENT_CONTROLS) :: u32;
               ent = (if efer AND EFER_LMA \<noteq> 0 then ent OR VMX_ENT_GUEST_64 else ent AND NOT VMX_ENT_GUEST_64)
           in vmcs_write VMCS_ENT_CONTROLS (ucast ent) v
         else v)"

definition save_vmx_state :: "vmx_caps \<Rightarrow> fpu_state \<Rightarrow> u32 \<Rightarrow> memory \<Rightarrow> u64 \<Rightarrow> cpu_regs \<times> vmcs \<Rightarrow> cpu_regs \<times> vmcs" where
  "save_vmx_state T H m M u = (\<lambda>(c, v).
     let (e, v) = save_vmx_gpr m M u (exc c, v);
         (e, v) = save_vmx_ctrl T m M u (e, v);
         v = save_vmx_seg m M u (save_vmx_inj T m M u v);
         (e, v) = save_vmx_cr T m M u (e, v);
         v = save_vmx_msr m M u v
     in (c\<lparr>exc := e, fpu_st := save_xsave H m M u (fpu_st c), cpu_st := save_vmx_cpu m M u (cpu_st c)\<rparr>, v))"

section \<open>Spaces of a virtual CPU\<close>

text \<open>The page table of a host or guest space is named by an address inside the space.\<close>

definition ptab_of :: "u64 \<Rightarrow> u64" where
  "ptab_of x = x + 16"

definition assign_spaces :: "u64 \<Rightarrow> u64 \<Rightarrow> u64 \<Rightarrow> 'a kern_scheme \<Rightarrow> bool \<times> 'a kern_scheme" where
  "assign_spaces x u obj s =
     (let M = mem (heap s);
          cgst = so_lookup obj (sget M u UTCB_sel_gst) (heap s);
          cpio = so_lookup obj (sget M u UTCB_sel_pio) (heap s);
          cmsr = so_lookup obj (sget M u UTCB_sel_msr) (heap s)
      in if \<not> validate_sp (hdr s) cgst SP_ASSIGN Subtype_GST \<or> \<not> validate_sp (hdr s) cpio SP_ASSIGN Subtype_PIO \<or> \<not> validate_sp (hdr s) cmsr SP_ASSIGN Subtype_MSR
         then (False, s)
         else
           let own = sp_pd (spcs s (r_obj (regs (ecs s x))))
           in if sp_pd (spcs s (cap_obj cgst)) \<noteq> own \<or> sp_pd (spcs s (cap_obj cpio)) \<noteq> own \<or> sp_pd (spcs s (cap_obj cmsr)) \<noteq> own then (False, s)
              else (True, hazard_clr x HZD_ILLEGAL (upd_regs x (\<lambda>r. r\<lparr>r_gst := cap_obj cgst, r_pio := cap_obj cpio, r_msr := cap_obj cmsr\<rparr>) s)))"

definition pio_phys :: "u64 \<Rightarrow> u64 \<Rightarrow> 'a kern_scheme \<Rightarrow> u64" where
  "pio_phys off x s = ptr_to_phys off (sp_bmp (spcs s x))"

definition msr_phys :: "u64 \<Rightarrow> u64 \<Rightarrow> 'a kern_scheme \<Rightarrow> u64" where
  "msr_phys off x s = ptr_to_phys off (sp_bmp (spcs s x))"

definition gst_phys :: "u64 \<Rightarrow> 'a kern_scheme \<Rightarrow> u64 option" where
  "gst_phys x s = root_addr (Ept True) (ptab_of x) (heap s)"

text \<open>Invalidation of guest TLB entries (\<^verbatim>\<open>MTD_TLB\<close>) changes no state of the model.\<close>

definition save_vmx :: "platform \<Rightarrow> u32 \<Rightarrow> u64 \<Rightarrow> u64 \<Rightarrow> u64 \<Rightarrow> 'a kern_scheme \<Rightarrow> (bool \<times> 'a kern_scheme) option" where
  "save_vmx P m u x obj s = do {
     let a = vmcb (regs (ecs s x));
     let s = vmcs_make_current a s;
     if item m MTD_POISON then Some (False, s)
     else do {
       let (c, v) = save_vmx_state (p_caps P) (p_hfpu P) m (mem (heap s)) u (regs (ecs s x), vmcss s a);
       let s = upd_regs x (\<lambda>_. c) (s\<lparr>vmcss := (vmcss s)(a := v)\<rparr>);
       if \<not> item m MTD_SPACES then Some (True, s)
       else do {
         let (b, s) = assign_spaces x u obj s;
         if \<not> b then Some (False, s)
         else do {
           let r = regs (ecs s x);
           gst \<leftarrow> gst_phys (r_gst r) s;
           let v = vmcs_puts [(VMCS_EPTP, gst OR push_bit 3 3 OR 6), (VMCS_BITMAP_IO_A, pio_phys (p_off P) (r_pio r) s),
             (VMCS_BITMAP_IO_B, pio_phys (p_off P) (r_pio r) s + 0x1000), (VMCS_BITMAP_MSR, msr_phys (p_off P) (r_msr r) s)] (vmcss s a);
           Some (True, s\<lparr>vmcss := (vmcss s)(a := v)\<rparr>)
         }
       }
     }
   }"

section \<open>Virtual CPUs with SVM\<close>

text \<open>\<open>M\<close> is the memory, \<open>v\<close> the address of the VMCB.\<close>

definition load_svm_gpr :: "u32 \<Rightarrow> exc_regs \<Rightarrow> memory \<Rightarrow> u64 \<Rightarrow> (field \<times> u64) list" where
  "load_svm_gpr m e M v =
     (if item m MTD_GPR_0_7 then [(UTCB_rax, sget M v VMCB_rax), (UTCB_rcx, sys e RCX), (UTCB_rdx, sys e RDX), (UTCB_rbx, sys e RBX), (UTCB_rsp, sget M v VMCB_rsp),
         (UTCB_rbp, sys e RBP), (UTCB_rsi, sys e RSI), (UTCB_rdi, sys e RDI)] else []) @
     (if item m MTD_GPR_8_15 then [(UTCB_r8, sys e R8), (UTCB_r9, sys e R9), (UTCB_r10, sys e R10), (UTCB_r11, sys e R11), (UTCB_r12, sys e R12), (UTCB_r13, sys e R13),
         (UTCB_r14, sys e R14), (UTCB_r15, sys e R15)] else []) @
     (if item m MTD_RFLAGS then [(UTCB_rfl, sget M v VMCB_rflags)] else []) @
     (if item m MTD_RIP then [(UTCB_rip, sget M v VMCB_rip)] else []) @
     (if item m MTD_STA then [(UTCB_intr_state, sget M v VMCB_int_shadow), (UTCB_actv_state, 0)] else []) @
     (if item m MTD_QUAL then [(UTCB_qual0, sget M v VMCB_exitinfo1), (UTCB_qual1, sget M v VMCB_exitinfo2)] else [])"

definition load_svm_inj :: "u32 \<Rightarrow> exc_regs \<Rightarrow> memory \<Rightarrow> u64 \<Rightarrow> (field \<times> u64) list" where
  "load_svm_inj m e M v =
     (if item m MTD_INJ then
        (if vec e = 256 - 3 \<or> vec e = EVENT_RECALL
         then [(UTCB_intr_info, sget M v VMCB_inj_control), (UTCB_intr_errc, drop_bit 32 (sget M v VMCB_inj_control))]
         else [(UTCB_intr_info, sget M v VMCB_exitcode), (UTCB_intr_errc, sget M v VMCB_exitinfo1), (UTCB_vect_info, sget M v VMCB_exitintinfo),
           (UTCB_vect_errc, drop_bit 32 (sget M v VMCB_exitintinfo))])
      else [])"

definition load_svm_seg :: "u32 \<Rightarrow> memory \<Rightarrow> u64 \<Rightarrow> (field \<times> u64) list" where
  "load_svm_seg m M v =
     (if item m MTD_CS_SS then [(seg_sel UTCB_cs, sget M v (seg_sel VMCB_cs)), (seg_ar UTCB_cs, sget M v (seg_ar VMCB_cs)), (seg_limit UTCB_cs, sget M v (seg_limit
         VMCB_cs)), (seg_base UTCB_cs, sget M v (seg_base VMCB_cs)), (seg_sel UTCB_ss, sget M v (seg_sel VMCB_ss)), (seg_ar UTCB_ss, sget M v (seg_ar
         VMCB_ss)), (seg_limit UTCB_ss, sget M v (seg_limit VMCB_ss)), (seg_base UTCB_ss, sget M v (seg_base VMCB_ss))] else []) @
     (if item m MTD_DS_ES then [(seg_sel UTCB_ds, sget M v (seg_sel VMCB_ds)), (seg_ar UTCB_ds, sget M v (seg_ar VMCB_ds)), (seg_limit UTCB_ds, sget M v (seg_limit
         VMCB_ds)), (seg_base UTCB_ds, sget M v (seg_base VMCB_ds)), (seg_sel UTCB_es, sget M v (seg_sel VMCB_es)), (seg_ar UTCB_es, sget M v (seg_ar
         VMCB_es)), (seg_limit UTCB_es, sget M v (seg_limit VMCB_es)), (seg_base UTCB_es, sget M v (seg_base VMCB_es))] else []) @
     (if item m MTD_FS_GS then [(seg_sel UTCB_fs, sget M v (seg_sel VMCB_fs)), (seg_ar UTCB_fs, sget M v (seg_ar VMCB_fs)), (seg_limit UTCB_fs, sget M v (seg_limit
         VMCB_fs)), (seg_base UTCB_fs, sget M v (seg_base VMCB_fs)), (seg_sel UTCB_gs, sget M v (seg_sel VMCB_gs)), (seg_ar UTCB_gs, sget M v (seg_ar
         VMCB_gs)), (seg_limit UTCB_gs, sget M v (seg_limit VMCB_gs)), (seg_base UTCB_gs, sget M v (seg_base VMCB_gs))] else []) @
     (if item m MTD_TR then [(seg_sel UTCB_tr, sget M v (seg_sel VMCB_tr)), (seg_ar UTCB_tr, sget M v (seg_ar VMCB_tr)), (seg_limit UTCB_tr, sget M v (seg_limit
         VMCB_tr)), (seg_base UTCB_tr, sget M v (seg_base VMCB_tr))] else []) @
     (if item m MTD_LDTR then [(seg_sel UTCB_ld, sget M v (seg_sel VMCB_ldtr)), (seg_ar UTCB_ld, sget M v (seg_ar VMCB_ldtr)), (seg_limit UTCB_ld, sget M v (seg_limit
         VMCB_ldtr)), (seg_base UTCB_ld, sget M v (seg_base VMCB_ldtr))] else []) @
     (if item m MTD_GDTR then [(seg_sel UTCB_gd, sget M v (seg_sel VMCB_gdtr)), (seg_ar UTCB_gd, sget M v (seg_ar VMCB_gdtr)), (seg_limit UTCB_gd, sget M v (seg_limit
         VMCB_gdtr)), (seg_base UTCB_gd, sget M v (seg_base VMCB_gdtr))] else []) @
     (if item m MTD_IDTR then [(seg_sel UTCB_id, sget M v (seg_sel VMCB_idtr)), (seg_ar UTCB_id, sget M v (seg_ar VMCB_idtr)), (seg_limit UTCB_id, sget M v (seg_limit
         VMCB_idtr)), (seg_base UTCB_id, sget M v (seg_base VMCB_idtr))] else [])"

definition load_svm_cr :: "u32 \<Rightarrow> cpu_regs \<Rightarrow> memory \<Rightarrow> u64 \<Rightarrow> (field \<times> u64) list" where
  "load_svm_cr m c M v =
     (if item m MTD_CR then [(UTCB_cr0, sget M v VMCB_cr0), (UTCB_cr2, sget M v VMCB_cr2), (UTCB_cr3, sget M v VMCB_cr3), (UTCB_cr4, sget M v VMCB_cr4)] else []) @
     (if item m MTD_DR then [(UTCB_dr7, sget M v VMCB_dr7)] else []) @
     (if item m MTD_XSAVE then [(UTCB_xcr0, xcr (fpu_st c)), (UTCB_xss, xss (fpu_st c))] else []) @
     (if item m MTD_SYSCALL then [(UTCB_star, sget M v VMCB_star), (UTCB_lstar, sget M v VMCB_lstar), (UTCB_fmask, sget M v VMCB_sfmask)] else []) @
     (if item m MTD_SYSENTER then [(UTCB_sysenter_cs, sget M v VMCB_sysenter_cs), (UTCB_sysenter_esp, sget M v VMCB_sysenter_esp), (UTCB_sysenter_eip, sget M v
         VMCB_sysenter_eip)] else []) @
     (if item m MTD_PAT then [(UTCB_pat, sget M v VMCB_g_pat)] else []) @
     (if item m MTD_EFER then [(UTCB_efer, sget M v VMCB_efer)] else []) @
     (if item m MTD_KERNEL_GS_BASE then [(UTCB_kernel_gs_base, sget M v VMCB_kernel_gs_base)] else [])"

definition load_svm :: "u32 \<Rightarrow> cpu_regs \<Rightarrow> u64 \<Rightarrow> memory \<Rightarrow> memory" where
  "load_svm m c u M = (let v = vmcb c in puts u (load_svm_gpr m (exc c) M v @ load_svm_inj m (exc c) M v @ load_svm_seg m M v @ load_svm_cr m c M v) M)"

text \<open>The assignments to the VMCB that only copy; control and event injection are separate.\<close>

definition save_svm_gpr :: "u32 \<Rightarrow> memory \<Rightarrow> u64 \<Rightarrow> (field \<times> u64) list" where
  "save_svm_gpr m M u =
     (if item m MTD_GPR_0_7 then [(VMCB_rax, sget M u UTCB_rax), (VMCB_rsp, sget M u UTCB_rsp)] else []) @
     (if item m MTD_RFLAGS then [(VMCB_rflags, sget M u UTCB_rfl)] else []) @
     (if item m MTD_RIP then [(VMCB_rip, sget M u UTCB_rip)] else []) @
     (if item m MTD_STA then [(VMCB_int_shadow, sget M u UTCB_intr_state)] else [])"

definition save_svm_regs :: "u32 \<Rightarrow> memory \<Rightarrow> u64 \<Rightarrow> exc_regs \<Rightarrow> exc_regs" where
  "save_svm_regs m M u e =
     (let e = (if item m MTD_GPR_0_7 then e\<lparr>sys := (save_gpr_lo M u (sys e))(RAX := sys e RAX)\<rparr> else e)
      in if item m MTD_GPR_8_15 then e\<lparr>sys := save_gpr_hi M u (sys e)\<rparr> else e)"

definition save_svm_ctrl :: "u32 \<Rightarrow> u64 \<Rightarrow> u64 \<Rightarrow> exc_regs \<times> memory \<Rightarrow> exc_regs \<times> memory" where
  "save_svm_ctrl m u v = (\<lambda>(e, M).
     if item m MTD_CTRL then
       let e = e\<lparr>intcpt_cr0 := sget M u UTCB_intcpt_cr0, intcpt_cr4 := sget M u UTCB_intcpt_cr4, intcpt_exc := ucast (sget M u UTCB_intcpt_exc)\<rparr>
       in (e, svm_set_cpu_sec v (ucast (sget M u UTCB_ctrl_sec)) (svm_set_cpu_pri v e (ucast (sget M u UTCB_ctrl_pri)) (svm_set_bmp_exc v e M)))
     else (e, M))"

definition save_svm_inj :: "u32 \<Rightarrow> u64 \<Rightarrow> u64 \<Rightarrow> memory \<Rightarrow> memory" where
  "save_svm_inj m u v M =
     (if item m MTD_INJ then
        let info = sget M u UTCB_intr_info; errc = sget M u UTCB_intr_errc; w = push_bit 8 1 OR push_bit 20 1;
            ic = sget M v VMCB_int_control; cpu = sget M v VMCB_intercept_cpu0;
            M = (if info AND 0x1000 \<noteq> 0 then puts v [(VMCB_int_control, ic OR w), (VMCB_intercept_cpu0, cpu OR ucast SVM_CPU_VINTR)] M
                 else puts v [(VMCB_int_control, ic AND NOT w), (VMCB_intercept_cpu0, cpu AND ucast (NOT SVM_CPU_VINTR))] M)
        in sset v VMCB_inj_control (push_bit 32 errc OR (info AND NOT 0x3000)) M
      else M)"

definition save_svm_seg :: "u32 \<Rightarrow> memory \<Rightarrow> u64 \<Rightarrow> (field \<times> u64) list" where
  "save_svm_seg m M u =
     (if item m MTD_CS_SS then [(seg_sel VMCB_cs, sget M u (seg_sel UTCB_cs)), (seg_ar VMCB_cs, sget M u (seg_ar UTCB_cs)), (seg_limit VMCB_cs, sget M u (seg_limit
         UTCB_cs)), (seg_base VMCB_cs, sget M u (seg_base UTCB_cs)), (seg_sel VMCB_ss, sget M u (seg_sel UTCB_ss)), (seg_ar VMCB_ss, sget M u (seg_ar
         UTCB_ss)), (seg_limit VMCB_ss, sget M u (seg_limit UTCB_ss)), (seg_base VMCB_ss, sget M u (seg_base UTCB_ss))] else []) @
     (if item m MTD_DS_ES then [(seg_sel VMCB_ds, sget M u (seg_sel UTCB_ds)), (seg_ar VMCB_ds, sget M u (seg_ar UTCB_ds)), (seg_limit VMCB_ds, sget M u (seg_limit
         UTCB_ds)), (seg_base VMCB_ds, sget M u (seg_base UTCB_ds)), (seg_sel VMCB_es, sget M u (seg_sel UTCB_es)), (seg_ar VMCB_es, sget M u (seg_ar
         UTCB_es)), (seg_limit VMCB_es, sget M u (seg_limit UTCB_es)), (seg_base VMCB_es, sget M u (seg_base UTCB_es))] else []) @
     (if item m MTD_FS_GS then [(seg_sel VMCB_fs, sget M u (seg_sel UTCB_fs)), (seg_ar VMCB_fs, sget M u (seg_ar UTCB_fs)), (seg_limit VMCB_fs, sget M u (seg_limit
         UTCB_fs)), (seg_base VMCB_fs, sget M u (seg_base UTCB_fs)), (seg_sel VMCB_gs, sget M u (seg_sel UTCB_gs)), (seg_ar VMCB_gs, sget M u (seg_ar
         UTCB_gs)), (seg_limit VMCB_gs, sget M u (seg_limit UTCB_gs)), (seg_base VMCB_gs, sget M u (seg_base UTCB_gs))] else []) @
     (if item m MTD_TR then [(seg_sel VMCB_tr, sget M u (seg_sel UTCB_tr)), (seg_ar VMCB_tr, sget M u (seg_ar UTCB_tr)), (seg_limit VMCB_tr, sget M u (seg_limit
         UTCB_tr)), (seg_base VMCB_tr, sget M u (seg_base UTCB_tr))] else []) @
     (if item m MTD_LDTR then [(seg_sel VMCB_ldtr, sget M u (seg_sel UTCB_ld)), (seg_ar VMCB_ldtr, sget M u (seg_ar UTCB_ld)), (seg_limit VMCB_ldtr, sget M u (seg_limit
         UTCB_ld)), (seg_base VMCB_ldtr, sget M u (seg_base UTCB_ld))] else []) @
     (if item m MTD_GDTR then [(seg_sel VMCB_gdtr, sget M u (seg_sel UTCB_gd)), (seg_ar VMCB_gdtr, sget M u (seg_ar UTCB_gd)), (seg_limit VMCB_gdtr, sget M u (seg_limit
         UTCB_gd)), (seg_base VMCB_gdtr, sget M u (seg_base UTCB_gd))] else []) @
     (if item m MTD_IDTR then [(seg_sel VMCB_idtr, sget M u (seg_sel UTCB_id)), (seg_ar VMCB_idtr, sget M u (seg_ar UTCB_id)), (seg_limit VMCB_idtr, sget M u (seg_limit
         UTCB_id)), (seg_base VMCB_idtr, sget M u (seg_base UTCB_id))] else [])"

definition save_svm_cr :: "u32 \<Rightarrow> memory \<Rightarrow> u64 \<Rightarrow> (field \<times> u64) list" where
  "save_svm_cr m M u =
     (if item m MTD_CR then [(VMCB_cr0, sget M u UTCB_cr0), (VMCB_cr2, sget M u UTCB_cr2), (VMCB_cr3, sget M u UTCB_cr3), (VMCB_cr4, sget M u UTCB_cr4)] else []) @
     (if item m MTD_DR then [(VMCB_dr7, sget M u UTCB_dr7)] else []) @
     (if item m MTD_SYSCALL then [(VMCB_star, constrain_star (sget M u UTCB_star)), (VMCB_lstar, constrain_canon (sget M u UTCB_lstar)), (VMCB_sfmask, constrain_fmask (sget M
         u UTCB_fmask))] else []) @
     (if item m MTD_SYSENTER then [(VMCB_sysenter_cs, sget M u UTCB_sysenter_cs), (VMCB_sysenter_esp, sget M u UTCB_sysenter_esp), (VMCB_sysenter_eip, sget M u
         UTCB_sysenter_eip)] else []) @
     (if item m MTD_PAT then [(VMCB_g_pat, sget M u UTCB_pat)] else []) @
     (if item m MTD_EFER then [(VMCB_efer, sget M u UTCB_efer)] else []) @
     (if item m MTD_KERNEL_GS_BASE then [(VMCB_kernel_gs_base, constrain_canon (sget M u UTCB_kernel_gs_base))] else [])"

definition save_svm_state :: "fpu_state \<Rightarrow> u32 \<Rightarrow> u64 \<Rightarrow> cpu_regs \<times> memory \<Rightarrow> cpu_regs \<times> memory" where
  "save_svm_state H m u = (\<lambda>(c, M).
     let v = vmcb c;
         e = save_svm_regs m M u (exc c);
         M = puts v (save_svm_gpr m M u) M;
         (e, M) = save_svm_ctrl m u v (e, M);
         M = save_svm_inj m u v M;
         M = puts v (save_svm_seg m M u @ save_svm_cr m M u) M;
         M = (if item m MTD_TLB \<and> sget M v VMCB_asid \<noteq> 0 then sset v VMCB_tlb_control 3 M else M)
     in (c\<lparr>exc := e, fpu_st := save_xsave H m M u (fpu_st c)\<rparr>, M))"

definition save_svm :: "platform \<Rightarrow> u32 \<Rightarrow> u64 \<Rightarrow> u64 \<Rightarrow> u64 \<Rightarrow> 'a kern_scheme \<Rightarrow> (bool \<times> 'a kern_scheme) option" where
  "save_svm P m u x obj s =
     (if item m MTD_POISON then Some (False, s)
      else do {
        let (c, M) = save_svm_state (p_hfpu P) m u (regs (ecs s x), mem (heap s));
        let s = upd_regs x (\<lambda>_. c) (s\<lparr>heap := (heap s)\<lparr>mem := M\<rparr>\<rparr>);
        if \<not> item m MTD_SPACES then Some (True, s)
        else do {
          let (b, s) = assign_spaces x u obj s;
          if \<not> b then Some (False, s)
          else do {
            let r = regs (ecs s x);
            gst \<leftarrow> gst_phys (r_gst r) s;
            let M = puts (vmcb r) [(VMCB_npt_cr3, gst), (VMCB_base_io, pio_phys (p_off P) (r_pio r) s), (VMCB_base_msr, msr_phys (p_off P) (r_msr r) s)] (mem (heap s));
            Some (True, s\<lparr>heap := (heap s)\<lparr>mem := M\<rparr>\<rparr>)
          }
        }
      })"

section \<open>State transfer of an execution context\<close>

text \<open>\<^verbatim>\<open>Ec_arch::state_load\<close> and \<^verbatim>\<open>Ec_arch::state_save\<close>: the state of \<open>x\<close> and the UTCB of \<open>self\<close>.\<close>

definition state_load :: "platform \<Rightarrow> u64 \<Rightarrow> u64 \<Rightarrow> u32 \<Rightarrow> 'a kern_scheme \<Rightarrow> 'a kern_scheme option" where
  "state_load P x self m s = do {
     let r = regs (ecs s x);
     let u = utcb (ecs s self);
     let M = mem (heap s);
     case cont (ecs s x) of
       Ret_vmx \<Rightarrow> Some ((vmcs_make_current (vmcb r) s)\<lparr>heap := (heap s)\<lparr>mem := load_vmx (p_caps P) m r (vmcss s (vmcb r)) u M\<rparr>\<rparr>)
     | Ret_svm \<Rightarrow> Some (s\<lparr>heap := (heap s)\<lparr>mem := load_svm m r u M\<rparr>\<rparr>)
     | Ret_exception \<Rightarrow> Some (s\<lparr>heap := (heap s)\<lparr>mem := load_exc m (exc r) u M\<rparr>\<rparr>)
     | _ \<Rightarrow> None
   }"

definition state_save :: "platform \<Rightarrow> u64 \<Rightarrow> u64 \<Rightarrow> u32 \<Rightarrow> 'a kern_scheme \<Rightarrow> (bool \<times> 'a kern_scheme) option" where
  "state_save P x self m s = do {
     let u = utcb (ecs s self);
     let obj = r_obj (regs (ecs s self));
     case cont (ecs s x) of
       Ret_vmx \<Rightarrow> save_vmx P m u x obj s
     | Ret_svm \<Rightarrow> save_svm P m u x obj s
     | Ret_exception \<Rightarrow> (let (b, e) = save_exc m (mem (heap s)) u (exc (regs (ecs s x))) in Some (b, upd_exc x (\<lambda>_. e) s))
     | _ \<Rightarrow> None
   }"

end
