(* ===== verification/Nova_Transfer.thy ===== *)
theory Nova_Transfer
  imports Nova_Utcb
begin

text \<open>
  Properties of the state transfer of \<^verbatim>\<open>src/x86_64/utcb_arch.cpp\<close>: a UTCB holds exactly the selected registers, and a monitor can neither raise the privileges of a thread nor
  weaken the isolation of a virtual CPU.
\<close>

section \<open>Reading a UTCB after a load\<close>

lemma sget_puts_last:
  assumes "layout fs" "fst ` set xs \<subseteq> set fs" "f \<in> set fs"
  shows "sget (puts b xs m) b f = (case map_of (rev xs) f of Some v \<Rightarrow> take_bit (8 * snd f) v | None \<Rightarrow> sget m b f)"
  using assms(2)
proof (induction xs arbitrary: m)
  case (Cons a xs)
  obtain g v where a: "a = (g, v)" by fastforce
  have g: "g \<in> set fs" "field_ok g" using Cons.prems a layout_fields(1) [OF assms(1), of g] by auto
  have "sget (sset b g v m) b f = (if g = f then take_bit (8 * snd f) v else sget m b f)"
    using sget_sset_same [OF g(2)] sget_sset_other [OF g(2) layout_fields(1) [OF assms(1,3)]] layout_fields(2) [OF assms(1) g(1) assms(3)] by auto
  moreover have "sget (puts b xs (sset b g v m)) b f = (case map_of (rev xs) f of Some v \<Rightarrow> take_bit (8 * snd f) v | None \<Rightarrow> sget (sset b g v m) b f)"
    using Cons by auto
  ultimately show ?case by (auto simp: a puts_Cons map_add_def split: option.splits)
qed simp

lemma utcb_mem [simp]:
  "UTCB_rax \<in> set utcb_fields" "UTCB_rcx \<in> set utcb_fields" "UTCB_rdx \<in> set utcb_fields" "UTCB_rbx \<in> set utcb_fields" "UTCB_rsp \<in> set utcb_fields" "UTCB_rbp \<in> set utcb_fields"
  "UTCB_rsi \<in> set utcb_fields" "UTCB_rdi \<in> set utcb_fields" "UTCB_r8 \<in> set utcb_fields" "UTCB_r9 \<in> set utcb_fields" "UTCB_r10 \<in> set utcb_fields" "UTCB_r11 \<in> set utcb_fields"
  "UTCB_r12 \<in> set utcb_fields" "UTCB_r13 \<in> set utcb_fields" "UTCB_r14 \<in> set utcb_fields" "UTCB_r15 \<in> set utcb_fields" "UTCB_rfl \<in> set utcb_fields" "UTCB_rip \<in> set utcb_fields"
  "UTCB_qual0 \<in> set utcb_fields" "UTCB_qual1 \<in> set utcb_fields"
  by (simp_all add: utcb_fields_def)

lemma sget_load_exc:
  assumes "f \<in> set utcb_fields"
  shows "sget (load_exc m e u M) u f = (case map_of (rev (load_exc_items m e)) f of Some v \<Rightarrow> take_bit (8 * snd f) v | None \<Rightarrow> sget M u f)"
proof -
  have "fst ` set (load_exc_items m e) \<subseteq> set utcb_fields" by (auto simp: load_exc_items_def)
  then show ?thesis unfolding load_exc_def by (rule sget_puts_last [OF utcb_layout _ assms])
qed

lemma load_exc_get:
  "sget (load_exc m e u M) u UTCB_rax = (if item m MTD_GPR_0_7 then sys e RAX else sget M u UTCB_rax)"
  "sget (load_exc m e u M) u UTCB_rcx = (if item m MTD_GPR_0_7 then sys e RCX else sget M u UTCB_rcx)"
  "sget (load_exc m e u M) u UTCB_rdx = (if item m MTD_GPR_0_7 then sys e RDX else sget M u UTCB_rdx)"
  "sget (load_exc m e u M) u UTCB_rbx = (if item m MTD_GPR_0_7 then sys e RBX else sget M u UTCB_rbx)"
  "sget (load_exc m e u M) u UTCB_rbp = (if item m MTD_GPR_0_7 then sys e RBP else sget M u UTCB_rbp)"
  "sget (load_exc m e u M) u UTCB_rsi = (if item m MTD_GPR_0_7 then sys e RSI else sget M u UTCB_rsi)"
  "sget (load_exc m e u M) u UTCB_rdi = (if item m MTD_GPR_0_7 then sys e RDI else sget M u UTCB_rdi)"
  "sget (load_exc m e u M) u UTCB_r8 = (if item m MTD_GPR_8_15 then sys e R8 else sget M u UTCB_r8)"
  "sget (load_exc m e u M) u UTCB_r9 = (if item m MTD_GPR_8_15 then sys e R9 else sget M u UTCB_r9)"
  "sget (load_exc m e u M) u UTCB_r10 = (if item m MTD_GPR_8_15 then sys e R10 else sget M u UTCB_r10)"
  "sget (load_exc m e u M) u UTCB_r11 = (if item m MTD_GPR_8_15 then sys e R11 else sget M u UTCB_r11)"
  "sget (load_exc m e u M) u UTCB_r12 = (if item m MTD_GPR_8_15 then sys e R12 else sget M u UTCB_r12)"
  "sget (load_exc m e u M) u UTCB_r13 = (if item m MTD_GPR_8_15 then sys e R13 else sget M u UTCB_r13)"
  "sget (load_exc m e u M) u UTCB_r14 = (if item m MTD_GPR_8_15 then sys e R14 else sget M u UTCB_r14)"
  "sget (load_exc m e u M) u UTCB_r15 = (if item m MTD_GPR_8_15 then sys e R15 else sget M u UTCB_r15)"
  "sget (load_exc m e u M) u UTCB_rsp = (if item m MTD_GPR_0_7 then rsp e else sget M u UTCB_rsp)"
  "sget (load_exc m e u M) u UTCB_rfl = (if item m MTD_RFLAGS then rfl e else sget M u UTCB_rfl)"
  "sget (load_exc m e u M) u UTCB_rip = (if item m MTD_RIP then rip e else sget M u UTCB_rip)"
  "sget (load_exc m e u M) u UTCB_qual0 = (if item m MTD_QUAL then err e else sget M u UTCB_qual0)"
  "sget (load_exc m e u M) u UTCB_qual1 = (if item m MTD_QUAL then cr2 e else sget M u UTCB_qual1)"
  by (simp_all only: sget_load_exc utcb_mem, simp_all add: load_exc_items_def utcb_defs)

section \<open>Threads\<close>

text \<open>What a monitor can never set in the flags of a thread, and what is always set.\<close>

definition rfl_safe :: "u64 \<Rightarrow> bool" where
  "rfl_safe r \<longleftrightarrow> r AND (RFL_VIP OR RFL_VIF OR RFL_VM OR RFL_RF OR RFL_NT OR RFL_IOPL) = 0 \<and> r AND (RFL_AC OR RFL_IF OR RFL_1) = RFL_AC OR RFL_IF OR RFL_1"

definition rfl_clean :: "u64 \<Rightarrow> u64" where
  "rfl_clean r = (r AND NOT (RFL_VIP OR RFL_VIF OR RFL_VM OR RFL_RF OR RFL_NT OR RFL_IOPL)) OR RFL_AC OR RFL_IF OR RFL_1"

lemma rfl_clean_safe: "rfl_safe (rfl_clean r)"
proof -
  let ?c = "RFL_VIP OR RFL_VIF OR RFL_VM OR RFL_RF OR RFL_NT OR RFL_IOPL" and ?s = "RFL_AC OR RFL_IF OR RFL_1"
  have d: "?c AND ?s = 0" by (simp add: rfl_defs BIT64_def BIT64_RANGE_def)
  have r: "rfl_clean r = (r AND NOT ?c) OR ?s" by (simp add: rfl_clean_def or.assoc)
  have k: "((r AND NOT c) OR s) AND c = c AND s" "((r AND NOT c) OR s) AND s = s" for c s :: u64
    by (rule bit_word_eqI, auto simp: bit_and_iff bit_or_iff bit_not_iff)+
  show ?thesis unfolding rfl_safe_def r k by (rule conjI [OF d refl])
qed

text \<open>
  C33: A reply cannot give a thread privileges: whatever the descriptor and the UTCB contain, \<^verbatim>\<open>save_exc\<close> keeps the code and stack segments, and leaves the flags with interrupts enabled and
  without I/O privilege, virtual-8086 mode and the other system flags. A poisoned descriptor changes nothing and is reported.
\<close>

theorem save_exc_confined:
  assumes "save_exc m M u e = (b, e')" "rfl_safe (rfl e)"
  shows "rfl_safe (rfl e') \<and> cs e' = cs e \<and> ss e' = ss e \<and> err e' = err e \<and> vec e' = vec e \<and> cr2 e' = cr2 e \<and> (b \<longleftrightarrow> \<not> item m MTD_POISON) \<and> (\<not> b \<longrightarrow> e' = e)"
  using assms rfl_clean_safe [of "sget M u UTCB_rfl"] unfolding save_exc_def rfl_clean_def Let_def by (auto split: if_splits)

theorem save_exc_confined_witness:
  "\<exists>e'. save_exc MTD_RFLAGS (\<lambda>_. - 1) 0x1000 (exc_zero\<lparr>rfl := rfl_clean 0\<rparr>) = (True, e') \<and> rfl_safe (rfl e')"
proof -
  obtain b e' where r: "save_exc MTD_RFLAGS (\<lambda>_. - 1) 0x1000 (exc_zero\<lparr>rfl := rfl_clean 0\<rparr>) = (b, e')" by fastforce
  have "\<not> item MTD_RFLAGS MTD_POISON" by (simp add: item_def mtd_defs BIT_def)
  then show ?thesis using save_exc_confined [OF r] rfl_clean_safe [of 0] r by simp
qed

definition lo_gpr :: "gpr \<Rightarrow> bool" where
  "lo_gpr r \<longleftrightarrow> r \<in> {RAX, RCX, RDX, RBX, RBP, RSI, RDI}"



section \<open>Virtual CPUs\<close>

text \<open>Bits 11 and 10 of an encoding are the area of the VMCS: control, exit information, guest state, host state.\<close>

definition vmcs_area :: "encoding \<Rightarrow> nat" where
  "vmcs_area f = f div 0x400 mod 4"

text \<open>The control fields that a monitor has an influence on.\<close>

definition monitor_ctrl :: "encoding set" where
  "monitor_ctrl = {VMCS_ENT_INST_LEN, VMCS_CR0_MASK, VMCS_CR4_MASK, VMCS_CR0_READ_SHADOW, VMCS_CR4_READ_SHADOW, VMCS_BITMAP_EXC, VMCS_CPU_CONTROLS_PRI, VMCS_CPU_CONTROLS_SEC,
     VMCS_CPU_CONTROLS_TER, VMCS_PF_ERROR_MASK, VMCS_PF_ERROR_MATCH, VMCS_TPR_THRESHOLD, VMCS_INJ_EVENT_IDENT, VMCS_INJ_EVENT_ERROR, VMCS_ENT_CONTROLS}"

lemma vmcs_puts_frame: "f \<notin> fst ` set xs \<Longrightarrow> vmcs_read (vmcs_puts xs v) f = vmcs_read v f"
  by (induction xs arbitrary: v) auto

text \<open>The fields that restrict a virtual CPU.\<close>

definition guard_fields :: "encoding set" where
  "guard_fields = {VMCS_CPU_CONTROLS_PRI, VMCS_CPU_CONTROLS_SEC, VMCS_CPU_CONTROLS_TER, VMCS_CR0_MASK, VMCS_CR4_MASK, VMCS_BITMAP_EXC, VMCS_GUEST_CR0, VMCS_GUEST_CR4}"

lemma seg_keeps: "vmcs_area f \<noteq> 2 \<or> f \<in> guard_fields \<Longrightarrow> vmcs_read (save_vmx_seg m M u v) f = vmcs_read v f"
  unfolding save_vmx_seg_def by (rule vmcs_puts_frame) (auto simp: vmcs_area_def guard_fields_def vmcs_defs split: if_splits)

lemma gpr_keeps:
  assumes "save_vmx_gpr m M u (e, v) = (e', v')"
  shows "vmcs_area f \<noteq> 2 \<and> f \<noteq> VMCS_ENT_INST_LEN \<or> f \<in> guard_fields \<Longrightarrow> vmcs_read v' f = vmcs_read v f" "fpu_on e' = fpu_on e" "intcpt_exc e' = intcpt_exc e"
proof -
  have v: "v' = snd (save_vmx_gpr m M u (e, v))" using assms by simp
  show "vmcs_area f \<noteq> 2 \<and> f \<noteq> VMCS_ENT_INST_LEN \<or> f \<in> guard_fields \<Longrightarrow> vmcs_read v' f = vmcs_read v f"
    unfolding v save_vmx_gpr_def Let_def prod.case snd_conv
    by (rule vmcs_puts_frame) (auto simp: vmcs_area_def guard_fields_def vmcs_defs split: if_splits)
qed (use assms in \<open>auto simp: save_vmx_gpr_def Let_def split: if_splits\<close>)

lemma msr_keeps: "vmcs_area f \<noteq> 2 \<and> f \<noteq> VMCS_ENT_CONTROLS \<or> f \<in> guard_fields \<Longrightarrow> vmcs_read (save_vmx_msr m M u v) f = vmcs_read v f"
  unfolding save_vmx_msr_def Let_def
  by (auto simp: vmcs_area_def guard_fields_def vmcs_defs vmcs_puts_frame split: if_splits)

text \<open>Control values: only allowed bits, and all required ones. Control registers: the forced bits are set, the bits that are not the guest's are intercepted.\<close>

definition ctrl_ok :: "'a :: len word \<Rightarrow> 'a word \<Rightarrow> 'a word \<Rightarrow> bool" where
  "ctrl_ok st cl x \<longleftrightarrow> x AND NOT cl = 0 \<and> (st AND cl) AND NOT x = 0"

definition vmx_inv :: "vmx_caps \<Rightarrow> exc_regs \<Rightarrow> vmcs \<Rightarrow> bool" where
  "vmx_inv T e v \<longleftrightarrow> ctrl_ok (cpu_pri_set T) (cpu_pri_clr T) (ucast (vmcs_read v VMCS_CPU_CONTROLS_PRI)) \<and>
     ctrl_ok (cpu_sec_set T) (cpu_sec_clr T) (ucast (vmcs_read v VMCS_CPU_CONTROLS_SEC)) \<and> ctrl_ok (cpu_ter_set T) (cpu_ter_clr T) (vmcs_read v VMCS_CPU_CONTROLS_TER) \<and>
     set_cr0 T e AND NOT (vmcs_read v VMCS_GUEST_CR0) = 0 \<and> set_cr4 T AND NOT (vmcs_read v VMCS_GUEST_CR4) = 0 \<and>
     msk_cr0 T e AND NOT (vmcs_read v VMCS_CR0_MASK) = 0 \<and> msk_cr4 T AND NOT (vmcs_read v VMCS_CR4_MASK) = 0 \<and>
     set_exc e AND NOT (ucast (vmcs_read v VMCS_BITMAP_EXC)) = 0"

lemma vmx_inv_cong:
  assumes "vmx_inv T e v" "\<And>f. f \<in> guard_fields \<Longrightarrow> vmcs_read v' f = vmcs_read v f" "fpu_on e' = fpu_on e"
  shows "vmx_inv T e' v'"
  using assms unfolding vmx_inv_def guard_fields_def by (simp add: set_cr0_def msk_cr0_def set_exc_def)

lemma ctrl_ok_force: "ctrl_ok st cl ((x OR st) AND cl)"
  unfolding ctrl_ok_def by (intro conjI; rule bit_word_eqI; auto simp: bit_and_iff bit_or_iff bit_not_iff)

lemma ucast_take [simp]: "take_bit 32 (ucast (x :: u32)) = (ucast x :: u64)" "ucast (ucast (x :: u32) :: u64) = x"
proof -
  show "take_bit 32 (ucast x) = (ucast x :: u64)" by (rule bit_word_eqI) (auto simp: bit_take_bit_iff bit_ucast_iff dest: bit_imp_le_length)
  show "ucast (ucast x :: u64) = x" by (rule bit_word_eqI) (auto simp: bit_ucast_iff)
qed

lemma vmcs_width_ctrl [simp]: "vmcs_width VMCS_CPU_CONTROLS_PRI = 32" "vmcs_width VMCS_CPU_CONTROLS_SEC = 32" "vmcs_width VMCS_CPU_CONTROLS_TER = 64"
  by (simp_all add: vmcs_width_def VMCS_CPU_CONTROLS_PRI_def VMCS_CPU_CONTROLS_SEC_def VMCS_CPU_CONTROLS_TER_def)

lemma ctrl_distinct [simp]:
  "VMCS_CPU_CONTROLS_PRI \<noteq> VMCS_CPU_CONTROLS_SEC" "VMCS_CPU_CONTROLS_PRI \<noteq> VMCS_CPU_CONTROLS_TER" "VMCS_CPU_CONTROLS_SEC \<noteq> VMCS_CPU_CONTROLS_TER"
  "VMCS_CPU_CONTROLS_SEC \<noteq> VMCS_CPU_CONTROLS_PRI" "VMCS_CPU_CONTROLS_TER \<noteq> VMCS_CPU_CONTROLS_PRI" "VMCS_CPU_CONTROLS_TER \<noteq> VMCS_CPU_CONTROLS_SEC"
  by (simp_all add: vmcs_defs)

lemma pri_inv: "ctrl_ok (cpu_pri_set T) (cpu_pri_clr T) (ucast (vmcs_read (vmx_set_cpu_pri T val v) VMCS_CPU_CONTROLS_PRI))"
  unfolding vmx_set_cpu_pri_def Let_def by (simp add: ctrl_ok_force)

lemma pri_frame: "f \<noteq> VMCS_CPU_CONTROLS_PRI \<Longrightarrow> vmcs_read (vmx_set_cpu_pri T val v) f = vmcs_read v f"
  by (simp add: vmx_set_cpu_pri_def Let_def)

lemma inj_inv: "vmx_inv T e v \<Longrightarrow> vmx_inv T e (save_vmx_inj T m M u v)"
proof (cases "item m MTD_INJ")
  case True
  assume i: "vmx_inv T e v"
  obtain val a b where s: "save_vmx_inj T m M u v = vmcs_puts [(VMCS_INJ_EVENT_IDENT, a), (VMCS_INJ_EVENT_ERROR, b)] (vmx_set_cpu_pri T val v)"
    using True unfolding save_vmx_inj_def Let_def by auto
  have r: "vmcs_read (save_vmx_inj T m M u v) f = vmcs_read (vmx_set_cpu_pri T val v) f" if "f \<in> guard_fields" for f
    unfolding s by (rule vmcs_puts_frame) (use that in \<open>auto simp: guard_fields_def vmcs_defs\<close>)
  have "vmx_inv T e (vmx_set_cpu_pri T val v)" using i pri_inv [of T val v] unfolding vmx_inv_def by (simp add: pri_frame vmcs_defs)
  then show ?thesis by (rule vmx_inv_cong) (simp_all add: r)
qed (simp add: save_vmx_inj_def)

lemma inj_frame: "f \<notin> monitor_ctrl \<Longrightarrow> vmcs_read (save_vmx_inj T m M u v) f = vmcs_read v f"
  by (auto simp: save_vmx_inj_def Let_def monitor_ctrl_def pri_frame)

lemma cr_inv:
  assumes i: "vmx_inv T e v" and r: "save_vmx_cr T m M u (e, v) = (e', v')"
  shows "vmx_inv T e' v'" "f \<notin> monitor_ctrl \<Longrightarrow> vmcs_area f \<noteq> 2 \<Longrightarrow> vmcs_read v' f = vmcs_read v f"
proof -
  obtain e1 v1 where 1: "vmx_set_gst_cr0 T (sget M u UTCB_cr0) (e, v) = (e1, v1)" by fastforce
  obtain e2 v2 where 2: "vmx_set_gst_cr4 T (sget M u UTCB_cr4) (e1, v1) = (e2, v2)" by fastforce
  note d0 = vmx_set_cr0D [OF 1] and d4 = vmx_set_cr4D [OF 2]
  have v2: "vmcs_read v2 g = vmcs_read v g" if "g \<noteq> VMCS_CR0_READ_SHADOW" "g \<noteq> VMCS_GUEST_CR0" "g \<noteq> VMCS_CR4_READ_SHADOW" "g \<noteq> VMCS_GUEST_CR4" for g
    using that 1 2 by (auto simp: vmx_set_gst_cr0_def vmx_set_gst_cr4_def)
  have i2: "vmx_inv T e2 v2" using i v2 d0 d4 unfolding vmx_inv_def by (simp add: and_kill vmcs_defs)
  define w where "w = (if item m MTD_CR then vmcs_write VMCS_GUEST_CR3 (sget M u UTCB_cr3) v2 else v)"
  have v': "v' = (if item m MTD_DR then vmcs_write VMCS_GUEST_DR7 (sget M u UTCB_dr7) w else w)" "e' = (if item m MTD_CR then e2\<lparr>cr2 := sget M u UTCB_cr2\<rparr> else e)"
    using r 1 2 by (auto simp: save_vmx_cr_def Let_def w_def split: if_splits)
  have "vmx_inv T (e2\<lparr>cr2 := sget M u UTCB_cr2\<rparr>) (vmcs_write VMCS_GUEST_CR3 (sget M u UTCB_cr3) v2)" by (rule vmx_inv_cong [OF i2]) (auto simp: guard_fields_def vmcs_defs)
  then have "vmx_inv T e' w" unfolding v'(2) w_def using i by simp
  then show "vmx_inv T e' v'" unfolding v'(1) by (rule vmx_inv_cong) (auto simp: guard_fields_def vmcs_defs)
  show "vmcs_read v' f = vmcs_read v f" if "f \<notin> monitor_ctrl" "vmcs_area f \<noteq> 2"
  proof -
    have n: "f \<noteq> VMCS_CR0_READ_SHADOW" "f \<noteq> VMCS_CR4_READ_SHADOW" using that(1) by (auto simp: monitor_ctrl_def)
    have g: "f \<noteq> VMCS_GUEST_CR0" "f \<noteq> VMCS_GUEST_CR4" "f \<noteq> VMCS_GUEST_CR3" "f \<noteq> VMCS_GUEST_DR7" using that(2) by (auto simp: vmcs_area_def vmcs_defs)
    show ?thesis using v2 [OF n(1) g(1) n(2) g(2)] g by (simp add: v'(1) w_def)
  qed
qed

lemma ctrl_inv:
  assumes i: "vmx_inv T e v" and r: "save_vmx_ctrl T m M u (e, v) = (e', v')"
  shows "vmx_inv T e' v'" "f \<notin> monitor_ctrl \<Longrightarrow> vmcs_read v' f = vmcs_read v f" "fpu_on e' = fpu_on e"
proof -
  define e1 where "e1 = e\<lparr>intcpt_cr0 := sget M u UTCB_intcpt_cr0, intcpt_cr4 := sget M u UTCB_intcpt_cr4, intcpt_exc := ucast (sget M u UTCB_intcpt_exc)\<rparr>"
  define v1 where "v1 = vmx_set_bmp_exc e1 (vmx_set_msk_cr4 T e1 (vmx_set_msk_cr0 T e1 v))"
  define v2 where "v2 = vmx_set_cpu_ter T (sget M u UTCB_ctrl_ter) (vmx_set_cpu_sec T (ucast (sget M u UTCB_ctrl_sec)) (vmx_set_cpu_pri T (ucast (sget M u UTCB_ctrl_pri)) v1))"
  define v3 where "v3 = vmcs_puts [(VMCS_PF_ERROR_MASK, sget M u UTCB_pfe_mask), (VMCS_PF_ERROR_MATCH, sget M u UTCB_pfe_match)] v2"
  define w where "w = (if item m MTD_CTRL then v3 else v)"
  have v': "v' = (if item m MTD_TPR then vmcs_write VMCS_TPR_THRESHOLD (sget M u UTCB_tpr_threshold) w else w)" "e' = (if item m MTD_CTRL then e1 else e)"
    using r by (auto simp: save_vmx_ctrl_def Let_def w_def v3_def v2_def v1_def e1_def split: if_splits)
  have f1: "fpu_on e1 = fpu_on e" "set_cr0 T e1 = set_cr0 T e" "msk_cr0 T e1 = msk_cr0 T e" "set_exc e1 = set_exc e" by (simp_all add: e1_def set_cr0_def msk_cr0_def set_exc_def)
  have p: "vmcs_read (vmx_set_cpu_pri T val v1) VMCS_CPU_CONTROLS_PRI = vmcs_read v2 VMCS_CPU_CONTROLS_PRI" if "val = ucast (sget M u UTCB_ctrl_pri)" for val
    using that by (simp add: v2_def vmx_set_cpu_sec_def vmx_set_cpu_ter_def)
  have "ctrl_ok (cpu_pri_set T) (cpu_pri_clr T) (ucast (vmcs_read v2 VMCS_CPU_CONTROLS_PRI))" using pri_inv [of T "ucast (sget M u UTCB_ctrl_pri)" v1] p by simp
  moreover have "ctrl_ok (cpu_sec_set T) (cpu_sec_clr T) (ucast (vmcs_read v2 VMCS_CPU_CONTROLS_SEC))" "ctrl_ok (cpu_ter_set T) (cpu_ter_clr T) (vmcs_read v2 VMCS_CPU_CONTROLS_TER)"
    by (simp_all add: v2_def vmx_set_cpu_sec_def vmx_set_cpu_ter_def ctrl_ok_force)
  moreover have k: "vmcs_read v2 g = vmcs_read v1 g" if "g \<notin> {VMCS_CPU_CONTROLS_PRI, VMCS_CPU_CONTROLS_SEC, VMCS_CPU_CONTROLS_TER}" for g
    using that by (simp add: v2_def vmx_set_cpu_sec_def vmx_set_cpu_ter_def pri_frame)
  moreover have k1: "vmcs_read v1 g = vmcs_read v g" if "g \<notin> {VMCS_CR0_MASK, VMCS_CR4_MASK, VMCS_BITMAP_EXC}" for g
    using that by (simp add: v1_def vmx_set_bmp_exc_def vmx_set_msk_cr0_def vmx_set_msk_cr4_def)
  moreover have "msk_cr0 T e AND NOT (vmcs_read v1 VMCS_CR0_MASK) = 0" "msk_cr4 T AND NOT (vmcs_read v1 VMCS_CR4_MASK) = 0" "set_exc e AND NOT (ucast (vmcs_read v1 VMCS_BITMAP_EXC)) = 0"
    using f1 by (simp_all add: v1_def vmx_set_bmp_exc_def vmx_set_msk_cr0_def vmx_set_msk_cr4_def and_kill)
  ultimately have "vmx_inv T e1 v2" using i f1 unfolding vmx_inv_def by (simp add: vmcs_defs)
  then have "vmx_inv T e1 v3" unfolding v3_def by (rule vmx_inv_cong) (rule vmcs_puts_frame, auto simp: guard_fields_def vmcs_defs)
  then have "vmx_inv T e' w" using i by (simp add: v'(2) w_def)
  then show "vmx_inv T e' v'" unfolding v'(1) by (rule vmx_inv_cong) (auto simp: guard_fields_def vmcs_defs)
  show "fpu_on e' = fpu_on e" using f1 by (simp add: v'(2))
  show "vmcs_read v' f = vmcs_read v f" if "f \<notin> monitor_ctrl" using that k [of f] k1 [of f] by (simp add: v'(1) w_def v3_def monitor_ctrl_def)
qed



end
