(* ===== verification/Nova_Space_Bmp.thy ===== *)
theory Nova_Space_Bmp
  imports Nova_Utcb
begin

text \<open>
  \<^verbatim>\<open>inc/x86_64/bitmap_pio.hpp\<close>, \<^verbatim>\<open>inc/x86_64/bitmap_msr.hpp\<close>, \<^verbatim>\<open>src/x86_64/space_pio.cpp\<close>, \<^verbatim>\<open>src/x86_64/space_msr.cpp\<close>: the spaces of I/O ports and of
  model-specific registers. A space is a bitmap in memory that the processor consults, a set bit denies access. The locale \<open>perm_space\<close> is what delegation relies
  on; ports and registers are its two instances.
\<close>

section \<open>Bitmaps\<close>

definition sel_bmask :: "u64 \<Rightarrow> u64" where
  "sel_bmask t = BITN (unat t mod 64)"

definition bmp_clr :: "u64 \<Rightarrow> u64 \<Rightarrow> memory \<Rightarrow> memory" where
  "bmp_clr a t M = M(a := M a AND NOT (sel_bmask t))"

definition bmp_set :: "u64 \<Rightarrow> u64 \<Rightarrow> memory \<Rightarrow> memory" where
  "bmp_set a t M = M(a := M a OR sel_bmask t)"

definition bmp_tst :: "u64 \<Rightarrow> u64 \<Rightarrow> memory \<Rightarrow> bool" where
  "bmp_tst a t M \<longleftrightarrow> M a AND sel_bmask t \<noteq> 0"

text \<open>The word of a port in the bitmap at \<open>b\<close>, and the words of a register for reading and for writing.\<close>

definition pio_valid :: "u64 \<Rightarrow> bool" where
  "pio_valid t \<longleftrightarrow> t < BITN 16"

definition pio_bmp :: "u64 \<Rightarrow> u64 \<Rightarrow> u64" where
  "pio_bmp b t = slot b (unat t mod 2 ^ 16 div 64)"

definition msr_valid :: "u64 \<Rightarrow> bool" where
  "msr_valid t \<longleftrightarrow> t < BITN 13 \<or> 0xc0000000 \<le> t \<and> t < 0xc0000000 + BITN 13"

definition msr_bmp_r :: "u64 \<Rightarrow> u64 \<Rightarrow> u64" where
  "msr_bmp_r b t = slot b ((if t < BITN 13 then 0 else 128) + unat t mod 2 ^ 13 div 64)"

definition msr_bmp_w :: "u64 \<Rightarrow> u64 \<Rightarrow> u64" where
  "msr_bmp_w b t = slot b ((if t < BITN 13 then 256 else 384) + unat t mod 2 ^ 13 div 64)"

text \<open>\<^verbatim>\<open>new Bitmap_pio\<close> and \<^verbatim>\<open>new Bitmap_msr\<close>: an allocation of the given order, with all bits set.\<close>

definition bitmap_new :: "nat \<Rightarrow> 'a tables_scheme \<Rightarrow> (u64 option \<times> 'a tables_scheme) option" where
  "bitmap_new k s = do {
     (r, s) \<leftarrow> buddy_alloc k NONE s;
     case r of None \<Rightarrow> Some (None, s) | Some b \<Rightarrow> Some (Some b, s\<lparr>mem := fold (\<lambda>i m. m(slot b i := - 1)) [0..<512 * 2 ^ k] (mem s)\<rparr>)
   }"

section \<open>Permissions of a selector\<close>

definition pio_lookup :: "u64 \<Rightarrow> u64 \<Rightarrow> memory \<Rightarrow> perms" where
  "pio_lookup b t M = (if pio_valid t then ifb Paging_R (\<not> bmp_tst (pio_bmp b t) t M) else 0)"

definition pio_update :: "u64 \<Rightarrow> u64 \<Rightarrow> perms \<Rightarrow> memory \<Rightarrow> memory" where
  "pio_update b t p M = (if pio_valid t then (if tst p Paging_R then bmp_clr else bmp_set) (pio_bmp b t) t M else M)"

definition msr_lookup :: "u64 \<Rightarrow> u64 \<Rightarrow> memory \<Rightarrow> perms" where
  "msr_lookup b t M = (if msr_valid t then ifb Paging_W (\<not> bmp_tst (msr_bmp_w b t) t M) OR ifb Paging_R (\<not> bmp_tst (msr_bmp_r b t) t M) else 0)"

definition msr_update :: "u64 \<Rightarrow> u64 \<Rightarrow> perms \<Rightarrow> memory \<Rightarrow> memory" where
  "msr_update b t p M =
     (if msr_valid t then (if tst p Paging_R then bmp_clr else bmp_set) (msr_bmp_r b t) t ((if tst p Paging_W then bmp_clr else bmp_set) (msr_bmp_w b t) t M) else M)"

text \<open>The loop of the delegations, for the operations of either kind of space.\<close>

function bmp_delegate_loop :: "(u64 \<Rightarrow> perms \<Rightarrow> memory \<Rightarrow> memory) \<Rightarrow> (u64 \<Rightarrow> memory \<Rightarrow> perms) \<Rightarrow> perms \<Rightarrow> u64 \<Rightarrow> u64 \<Rightarrow> memory \<Rightarrow> memory" where
  "bmp_delegate_loop upd lkp pmm e t M = (if t < e then bmp_delegate_loop upd lkp pmm e (t + 1) (upd t (lkp t M AND pmm) M) else M)"
  by pat_completeness auto
termination
  by (relation "measure (\<lambda>(upd, lkp, pmm, e, t, M). unat e - unat t)") (auto simp: unat_loop)

declare bmp_delegate_loop.simps [simp del]

abbreviation bmp_of :: "u64 \<Rightarrow> 'a kern_scheme \<Rightarrow> u64" where
  "bmp_of x s \<equiv> sp_bmp (spcs s x)"

definition pio_delegate :: "u64 \<Rightarrow> u64 \<Rightarrow> u64 \<Rightarrow> u64 \<Rightarrow> nat \<Rightarrow> perms \<Rightarrow> 'a kern_scheme \<Rightarrow> status \<times> 'a kern_scheme" where
  "pio_delegate this pio ssb dsb ord pmm s =
     (let e = ssb + BITN ord
      in if ssb \<noteq> dsb \<or> \<not> pio_valid (e - 1) then (BAD_PAR, s)
         else (SUCCESS, s\<lparr>heap := (heap s)\<lparr>mem := bmp_delegate_loop (pio_update (bmp_of this s)) (pio_lookup (bmp_of pio s)) pmm e ssb (mem (heap s))\<rparr>\<rparr>))"

definition msr_delegate :: "u64 \<Rightarrow> u64 \<Rightarrow> u64 \<Rightarrow> u64 \<Rightarrow> nat \<Rightarrow> perms \<Rightarrow> 'a kern_scheme \<Rightarrow> status \<times> 'a kern_scheme" where
  "msr_delegate this msr ssb dsb ord pmm s =
     (let e = ssb + BITN ord
      in if ssb \<noteq> dsb \<or> \<not> msr_valid (e - 1) then (BAD_PAR, s)
         else (SUCCESS, s\<lparr>heap := (heap s)\<lparr>mem := bmp_delegate_loop (msr_update (bmp_of this s)) (msr_lookup (bmp_of msr s)) pmm e ssb (mem (heap s))\<rparr>\<rparr>))"

text \<open>\<^verbatim>\<open>user_access\<close>: the kernel grants or revokes a range of its own space.\<close>

definition pio_user_access :: "u64 \<Rightarrow> u64 \<Rightarrow> nat \<Rightarrow> bool \<Rightarrow> memory \<Rightarrow> memory" where
  "pio_user_access b base n a M = fold (\<lambda>i. pio_update b (base + of_nat i) (if a then Paging_R else 0)) [0..<n] M"

definition msr_user_access :: "u64 \<Rightarrow> u64 \<Rightarrow> nat \<Rightarrow> bool \<Rightarrow> memory \<Rightarrow> memory" where
  "msr_user_access b base n a M = fold (\<lambda>i. msr_update b (base + of_nat i) (if a then Paging_W OR Paging_R else 0)) [0..<n] M"

section \<open>The contract of a permission space\<close>

text \<open>
  \<open>ws b\<close> are the words of the bitmap at \<open>b\<close>, \<open>msk\<close> the permissions that exist: an update sets the permissions of one valid
  selector and touches only words of its bitmap, and a lookup depends on nothing else.
\<close>

locale perm_space =
  fixes valid :: "u64 \<Rightarrow> bool" and lkp :: "u64 \<Rightarrow> u64 \<Rightarrow> memory \<Rightarrow> perms" and upd :: "u64 \<Rightarrow> u64 \<Rightarrow> perms \<Rightarrow> memory \<Rightarrow> memory"
    and ws :: "u64 \<Rightarrow> u64 set" and msk :: perms
  assumes lkp_upd: "valid t \<Longrightarrow> lkp b u (upd b t p M) = (if u = t then p AND msk else lkp b u M)"
    and upd_frame: "w \<notin> ws b \<Longrightarrow> upd b t p M w = M w"
    and lkp_cong: "(\<And>w. w \<in> ws b \<Longrightarrow> M w = M' w) \<Longrightarrow> lkp b t M = lkp b t M'"
    and lkp_msk: "lkp b t M AND msk = lkp b t M"
    and invalid: "\<not> valid t \<Longrightarrow> lkp b t M = 0 \<and> upd b t p M = M"
begin

lemma other: "ws b' \<inter> ws b = {} \<Longrightarrow> lkp b' u (upd b t p M) = lkp b' u M"
  by (rule lkp_cong) (auto intro: upd_frame)

lemma loop_frame: "w \<notin> ws b \<Longrightarrow> bmp_delegate_loop (upd b) l pmm e t M w = M w"
proof (induction "unat e - unat t" arbitrary: t M rule: less_induct)
  case less
  show ?case
    by (subst bmp_delegate_loop.simps) (simp add: less.hyps [OF unat_loop] less.prems upd_frame)
qed

lemma loop_exact:
  assumes "b' = b \<or> ws b' \<inter> ws b = {}"
  shows "lkp b u (bmp_delegate_loop (upd b) (lkp b') pmm e t M) = (if t \<le> u \<and> u < e then lkp b' u M AND pmm else lkp b u M)"
proof (induction "unat e - unat t" arbitrary: t M rule: less_induct)
  case less
  show ?case
  proof (cases "t < e")
    case True
    let ?M = "upd b t (lkp b' t M AND pmm) M"
    have r: "t + 1 \<le> u \<and> u < e \<longleftrightarrow> t \<le> u \<and> u < e \<and> u \<noteq> t"
      using unat_inc [OF True] by (auto simp: word_le_nat_alt word_less_nat_alt word_unat_eq_iff)
    have o: "lkp b' u ?M = lkp b' u M" if "u \<noteq> t"
      using assms other that lkp_upd invalid by (cases "valid t") auto
    have s: "lkp b u ?M = (if u = t then lkp b' t M AND pmm else lkp b u M)"
    proof (cases "valid t")
      case True
      have "(lkp b' t M AND pmm) AND msk = lkp b' t M AND pmm" by (metis and.assoc and.commute lkp_msk)
      with True show ?thesis by (simp add: lkp_upd)
    qed (simp add: invalid)
    show ?thesis
      by (subst bmp_delegate_loop.simps) (use True o s in \<open>auto simp: less.hyps [OF unat_loop] r\<close>)
  qed (auto simp: bmp_delegate_loop.simps [of _ _ _ e t])
qed

end

subsection \<open>Ports and registers provide the contract\<close>

lemma bit_sel_bmask: "bit (sel_bmask t) n \<longleftrightarrow> n = unat t mod 64"
  unfolding sel_bmask_def BITN_def bit_push_bit_iff bit_1_iff by auto

lemma bmp_tst_bit: "bmp_tst a t M \<longleftrightarrow> bit (M a) (unat t mod 64)"
  by (simp add: bmp_tst_def tst_def [symmetric] tst_bit bit_sel_bmask)

lemma bmp_tst_upd:
  "bmp_tst a' u (bmp_clr a t M) \<longleftrightarrow> \<not> (a' = a \<and> unat u mod 64 = unat t mod 64) \<and> bmp_tst a' u M"
  "bmp_tst a' u (bmp_set a t M) \<longleftrightarrow> a' = a \<and> unat u mod 64 = unat t mod 64 \<or> bmp_tst a' u M"
  by (auto simp: bmp_tst_bit bmp_clr_def bmp_set_def bit_and_iff bit_or_iff bit_not_iff bit_sel_bmask)

lemma bmp_upd_other: "w \<noteq> a \<Longrightarrow> bmp_clr a t M w = M w" "w \<noteq> a \<Longrightarrow> bmp_set a t M w = M w"
  by (simp_all add: bmp_clr_def bmp_set_def)

lemma slot_eq_iff: "i < 2 ^ 60 \<Longrightarrow> j < 2 ^ 60 \<Longrightarrow> slot b i = slot b j \<longleftrightarrow> i = j"
proof
  assume ij: "i < 2 ^ 60" "j < 2 ^ 60" "slot b i = slot b j"
  have u: "unat (of_nat (8 * x) :: u64) = 8 * x" if "x < 2 ^ 60" for x using that unfolding unat_of_nat by simp
  have "(of_nat (8 * i) :: u64) = of_nat (8 * j)" using ij(3) by (simp add: slot_def)
  then have "8 * i = 8 * j" using u [OF ij(1)] u [OF ij(2)] by metis
  then show "i = j" by simp
qed simp

lemma sel_eq:
  assumes "n < 2 ^ 32" "m < 2 ^ 32"
  shows "n div 64 = m div 64 \<and> n mod 64 = m mod (64 :: nat) \<longleftrightarrow> n = m"
  by (metis div_mult_mod_eq)

lemma pio_word_eq:
  assumes "pio_valid t" "pio_valid u"
  shows "pio_bmp b u = pio_bmp b t \<and> unat u mod 64 = unat t mod 64 \<longleftrightarrow> u = t"
proof -
  have v: "unat t < 2 ^ 16" "unat u < 2 ^ 16" using assms by (simp_all add: pio_valid_def BITN_eq word_less_nat_alt)
  then have "pio_bmp b u = pio_bmp b t \<longleftrightarrow> unat u div 64 = unat t div 64"
    unfolding pio_bmp_def by (subst slot_eq_iff) auto
  then show ?thesis using sel_eq [of "unat u" "unat t"] v by (simp add: word_unat_eq_iff)
qed

lemma msr_word_eq:
  assumes "msr_valid t" "msr_valid u"
  shows "msr_bmp_r b u = msr_bmp_r b t \<and> unat u mod 64 = unat t mod 64 \<longleftrightarrow> u = t"
    "msr_bmp_w b u = msr_bmp_w b t \<and> unat u mod 64 = unat t mod 64 \<longleftrightarrow> u = t" "msr_bmp_r b u \<noteq> msr_bmp_w b t"
proof -
  let ?g = "\<lambda>t. (if t < BITN 13 then 0 else 128) + unat t mod 2 ^ 13 div 64"
  have g: "?g t < 256" for t :: u64
  proof -
    have "x < 8192 \<Longrightarrow> x div 64 < 128" for x :: nat by linarith
    from this [of "unat t mod 2 ^ 13"] show ?thesis by simp
  qed
  have e: "msr_bmp_r b t = slot b (?g t)" "msr_bmp_w b t = slot b (256 + ?g t)" for t
    by (simp_all add: msr_bmp_r_def msr_bmp_w_def)
  have lt: "?g t < 2 ^ 60" "256 + ?g t < 2 ^ 60" for t using g [of t] by simp_all
  have w: "unat x = (if x < BITN 13 then 0 else 0xc0000000) + unat x mod 8192" if "msr_valid x" for x
  proof (cases "x < BITN 13")
    case True
    then have "unat x < 8192" by (simp add: BITN_eq word_less_nat_alt)
    with True show ?thesis by simp
  next
    case False
    then have "0xc0000000 \<le> unat x" "unat x < 0xc0000000 + 8192"
      using that by (simp_all add: msr_valid_def BITN_eq word_less_nat_alt word_le_nat_alt)
    then obtain r where "unat x = 0xc0000000 + r" "r < 8192" by (metis add_less_cancel_left le_Suc_ex)
    moreover have "(393216 * 8192 + r) mod 8192 = r mod 8192" by (rule mod_mult_self3)
    ultimately show ?thesis using False by simp
  qed
  have "?g u = ?g t \<and> unat u mod 64 = unat t mod 64 \<longleftrightarrow> u = t" (is "?L \<longleftrightarrow> _")
  proof
    assume L: ?L
    have h: "u < BITN 13 \<longleftrightarrow> t < BITN 13" "unat u mod 8192 div 64 = unat t mod 8192 div 64" using L g [of u] g [of t] by (auto split: if_splits)
    have "x mod 8192 = 64 * (x mod 8192 div 64) + x mod 64" for x :: nat
      using mult_div_mod_eq [of 64 "x mod 8192"] mod_mod_cancel [of 64 8192 x] by simp
    from this [of "unat u"] this [of "unat t"] have m: "unat u mod 8192 = unat t mod 8192" using L h(2) by argo
    have "unat u = unat t" using w [OF assms(1)] w [OF assms(2)] unfolding h(1) m by (rule trans [OF _ sym, rotated])
    then show "u = t" by (simp add: word_unat_eq_iff)
  qed simp
  then show "msr_bmp_r b u = msr_bmp_r b t \<and> unat u mod 64 = unat t mod 64 \<longleftrightarrow> u = t"
    "msr_bmp_w b u = msr_bmp_w b t \<and> unat u mod 64 = unat t mod 64 \<longleftrightarrow> u = t"
    unfolding e slot_eq_iff [OF lt(1) lt(1)] slot_eq_iff [OF lt(2) lt(2)] by simp_all
  show "msr_bmp_r b u \<noteq> msr_bmp_w b t"
    unfolding e slot_eq_iff [OF lt(1) lt(2)] using g [of u] by simp
qed

lemma and_flag: "p AND Paging_R = ifb Paging_R (tst p Paging_R)" "p AND Paging_W = ifb Paging_W (tst p Paging_W)"
proof -
  have "p AND BIT k = ifb (BIT k) (tst p (BIT k))" for k
    by (rule bit_word_eqI) (auto simp: tst_BIT ifb_def bit_and_iff bit_BIT)
  then show "p AND Paging_R = ifb Paging_R (tst p Paging_R)" "p AND Paging_W = ifb Paging_W (tst p Paging_W)" unfolding paging_defs by blast+
qed

lemma pio_word_in: "pio_bmp b t \<in> slot b ` {..<1024}"
proof -
  have "x < 65536 \<Longrightarrow> x div 64 < 1024" for x :: nat by linarith
  from this [of "unat t mod 2 ^ 16"] show ?thesis unfolding pio_bmp_def by (auto intro!: imageI)
qed

interpretation pio: perm_space pio_valid pio_lookup pio_update "\<lambda>b. slot b ` {..<1024}" Paging_R
proof
  fix b t u p M M' w
  show "pio_lookup b u (pio_update b t p M) = (if u = t then p AND Paging_R else pio_lookup b u M)" if "pio_valid t"
  proof (cases "pio_valid u")
    case True
    have "bmp_tst (pio_bmp b u) u (pio_update b t p M) \<longleftrightarrow> (if u = t then \<not> tst p Paging_R else bmp_tst (pio_bmp b u) u M)"
      using pio_word_eq [OF that True, of b] that by (auto simp: pio_update_def bmp_tst_upd)
    then show ?thesis using True by (simp add: pio_lookup_def and_flag)
  qed (use that in \<open>auto simp: pio_lookup_def\<close>)
  show "pio_update b t p M w = M w" if "w \<notin> slot b ` {..<1024}"
  proof -
    have "w \<noteq> pio_bmp b t" using that pio_word_in by metis
    then show ?thesis by (simp add: pio_update_def bmp_upd_other)
  qed
  show "pio_lookup b t M = pio_lookup b t M'" if "\<And>w. w \<in> slot b ` {..<1024} \<Longrightarrow> M w = M' w"
    using that [OF pio_word_in] by (simp add: pio_lookup_def bmp_tst_def)
  show "pio_lookup b t M AND Paging_R = pio_lookup b t M"
    by (simp add: pio_lookup_def ifb_def)
  show "pio_lookup b t M = 0 \<and> pio_update b t p M = M" if "\<not> pio_valid t"
    using that by (simp add: pio_lookup_def pio_update_def)
qed

lemma msr_word_in: "msr_bmp_r b t \<in> slot b ` {..<512}" "msr_bmp_w b t \<in> slot b ` {..<512}"
proof -
  have "x < 8192 \<Longrightarrow> x div 64 < 128" for x :: nat by linarith
  from this [of "unat t mod 2 ^ 13"] show "msr_bmp_r b t \<in> slot b ` {..<512}" "msr_bmp_w b t \<in> slot b ` {..<512}"
    unfolding msr_bmp_r_def msr_bmp_w_def by (auto intro!: imageI)
qed

interpretation msr: perm_space msr_valid msr_lookup msr_update "\<lambda>b. slot b ` {..<512}" "Paging_W OR Paging_R"
proof
  fix b t u p M M' w
  show "msr_lookup b u (msr_update b t p M) = (if u = t then p AND (Paging_W OR Paging_R) else msr_lookup b u M)" if "msr_valid t"
  proof (cases "msr_valid u")
    case True
    note e = msr_word_eq [OF that True, of b] msr_word_eq(3) [OF True that, of b]
    have "bmp_tst (msr_bmp_r b u) u (msr_update b t p M) \<longleftrightarrow> (if u = t then \<not> tst p Paging_R else bmp_tst (msr_bmp_r b u) u M)"
      "bmp_tst (msr_bmp_w b u) u (msr_update b t p M) \<longleftrightarrow> (if u = t then \<not> tst p Paging_W else bmp_tst (msr_bmp_w b u) u M)"
      using e that by (auto simp: msr_update_def bmp_tst_upd)
    then show ?thesis using True by (simp add: msr_lookup_def and_flag bit.conj_disj_distrib)
  qed (use that in \<open>auto simp: msr_lookup_def\<close>)
  show "msr_update b t p M w = M w" if "w \<notin> slot b ` {..<512}"
  proof -
    have "w \<noteq> msr_bmp_r b t" "w \<noteq> msr_bmp_w b t" using that msr_word_in by metis+
    then show ?thesis by (simp add: msr_update_def bmp_upd_other)
  qed
  show "msr_lookup b t M = msr_lookup b t M'" if "\<And>w. w \<in> slot b ` {..<512} \<Longrightarrow> M w = M' w"
    using that [OF msr_word_in(1)] that [OF msr_word_in(2)] by (simp add: msr_lookup_def bmp_tst_def)
  show "msr_lookup b t M AND (Paging_W OR Paging_R) = msr_lookup b t M"
    by (simp add: msr_lookup_def ifb_def bit.conj_disj_distrib and.assoc)
  show "msr_lookup b t M = 0 \<and> msr_update b t p M = M" if "\<not> msr_valid t"
    using that by (simp add: msr_lookup_def msr_update_def)
qed

section \<open>Properties\<close>

lemma pio_delegate_exact:
  assumes "bmp_of y s = bmp_of x s \<or> slot (bmp_of y s) ` {..<1024} \<inter> slot (bmp_of x s) ` {..<1024} = {}"
    and "pio_delegate x y ssb dsb ord pmm s = (sts, s')"
  shows "if ssb = dsb \<and> pio_valid (ssb + BITN ord - 1)
    then sts = SUCCESS \<and> spcs s' = spcs s \<and> (\<forall>w. w \<notin> slot (bmp_of x s) ` {..<1024} \<longrightarrow> mem (heap s') w = mem (heap s) w) \<and>
      (\<forall>t. pio_lookup (bmp_of x s) t (mem (heap s')) =
        (if ssb \<le> t \<and> t < ssb + BITN ord then pio_lookup (bmp_of y s) t (mem (heap s)) AND pmm else pio_lookup (bmp_of x s) t (mem (heap s))))
    else sts = BAD_PAR \<and> s' = s"
  using assms(2) pio.loop_exact [OF assms(1)] pio.loop_frame [of _ "bmp_of x s"]
  by (auto simp: pio_delegate_def Let_def split: if_splits)

lemma msr_delegate_exact:
  assumes "bmp_of y s = bmp_of x s \<or> slot (bmp_of y s) ` {..<512} \<inter> slot (bmp_of x s) ` {..<512} = {}"
    and "msr_delegate x y ssb dsb ord pmm s = (sts, s')"
  shows "if ssb = dsb \<and> msr_valid (ssb + BITN ord - 1)
    then sts = SUCCESS \<and> spcs s' = spcs s \<and> (\<forall>w. w \<notin> slot (bmp_of x s) ` {..<512} \<longrightarrow> mem (heap s') w = mem (heap s) w) \<and>
      (\<forall>t. msr_lookup (bmp_of x s) t (mem (heap s')) =
        (if ssb \<le> t \<and> t < ssb + BITN ord then msr_lookup (bmp_of y s) t (mem (heap s)) AND pmm else msr_lookup (bmp_of x s) t (mem (heap s))))
    else sts = BAD_PAR \<and> s' = s"
  using assms(2) msr.loop_exact [OF assms(1)] msr.loop_frame [of _ "bmp_of x s"]
  by (auto simp: msr_delegate_def Let_def split: if_splits)

end
