(* ===== verification/Nova_Space_Mem.thy ===== *)
theory Nova_Space_Mem
  imports Nova_Ptab
begin

text \<open>
  \<^verbatim>\<open>src/space_mem.cpp\<close>: delegation of memory from a host space to a host, guest or DMA space. The source is looked up leaf by leaf, a leaf that is larger than the delegated
  region is split by the update of the destination. Invalidation of translation caches (\<^verbatim>\<open>sync\<close>) has no effect on the tables.
\<close>

section \<open>Sizes of the spaces, in pages\<close>

definition HST_num :: u64 where "HST_num = 2 ^ 35"
definition GST_num :: u64 where "GST_num = 2 ^ 36"
definition DMA_num :: u64 where "DMA_num = 2 ^ 36"

section \<open>Delegation\<close>

text \<open>
  The loop from source page \<open>src\<close>, destination page \<open>dst\<close>. \<open>T\<close>, \<open>lim\<close> and \<open>this\<close> are the format, the leaf limit and the page table of the destination, \<open>hst\<close> is the page
  table of the source, \<open>nova\<close> says that the source is the space of the kernel. For an unmapped source page the attributes are not initialised; they are not used either.
\<close>

partial_function (option) mem_delegate_loop :: "pte_fmt \<Rightarrow> u64 \<Rightarrow> nat \<Rightarrow> u64 \<Rightarrow> u64 \<Rightarrow> bool \<Rightarrow> nat \<Rightarrow> perms \<Rightarrow> u64 \<Rightarrow> cacheability \<Rightarrow> shareability \<Rightarrow> u64 \<Rightarrow> u64 \<Rightarrow>
    'a tables_scheme \<Rightarrow> (status \<times> 'a tables_scheme) option" where
  "mem_delegate_loop T off lim this hst nova ord pmm s_end ca sh src dst s =
     (if src < s_end then do {
        let v = push_bit 12 src;
        let d = push_bit 12 dst;
        let t = pt_lookup Hpt off hst v 0 0 s;
        let pm = tr_pm t AND (Paging_K OR Paging_U OR pmm);
        let pm = (if tst pm Paging_K then 0 else pm);
        let ca = (if nova then ca else tr_ca t);
        let sh = (if nova then sh else tr_sh t);
        let k = min (tr_o t) ord;
        let d = d AND NOT (offs_mask k);
        let p = tr_p t AND NOT (offs_mask k);
        (sts, s) \<leftarrow> pt_update T off lim this d p k pm ca sh s;
        if sts \<noteq> SUCCESS then Some (sts, s)
        else mem_delegate_loop T off lim this hst nova ord pmm s_end ca sh (src + BITN k) (dst + BITN k) s
      }
      else Some (SUCCESS, s))"

definition mem_delegate :: "pte_fmt \<Rightarrow> u64 \<Rightarrow> nat \<Rightarrow> u64 \<Rightarrow> u64 \<Rightarrow> u64 \<Rightarrow> bool \<Rightarrow> u64 \<Rightarrow> u64 \<Rightarrow> nat \<Rightarrow> perms \<Rightarrow> cacheability \<Rightarrow> shareability \<Rightarrow>
    'a tables_scheme \<Rightarrow> (status \<times> 'a tables_scheme) option" where
  "mem_delegate T off lim num this hst nova ssb dsb ord pmm ca sh s =
     (let s_end = ssb + BITN ord; d_end = dsb + BITN ord
      in if s_end > HST_num \<or> d_end > num then Some (BAD_PAR, s)
         else do {
           (sts, s) \<leftarrow> mem_delegate_loop T off lim this hst nova ord pmm s_end ca sh ssb dsb s;
           s \<leftarrow> free_wait s;
           Some (sts, s)
         })"

section \<open>Pages of equal leaves\<close>

lemma same_slot_div: "x div entries ^ k = y div entries ^ k \<Longrightarrow> same_slot k l x y"
proof -
  assume eq: "x div entries ^ k = y div entries ^ k"
  have "z div entries ^ m = z div entries ^ k div entries ^ (m - k)" if "k \<le> m" for z m
    using that by (simp add: div_mult2_eq [symmetric] power_add [symmetric])
  then show ?thesis unfolding same_slot_def idx_def using eq by metis
qed

lemma dvd_step: "d dvd a \<Longrightarrow> d dvd b \<Longrightarrow> a < b \<Longrightarrow> a + d \<le> (b :: nat)"
  using dvd_imp_le [of d "b - a"] by (simp add: dvd_diff_nat)

lemma tleaf_le: "fst (tleaf l t i) \<le> l"
  by (induction l t i rule: tleaf.induct) auto

lemma tleaf_block:
  assumes "k \<le> fst (tleaf l t x)" "x div entries ^ k = y div entries ^ k"
  shows "tleaf l t y = tleaf l t x"
  using tleaf_same [OF same_slot_div [OF assms(2)] assms(1)] .

text \<open>After a step over a block that is not larger than its leaf, the next block is aligned.\<close>

lemma next_aligned:
  fixes src :: nat
  assumes "k = min (fst (tleaf 4 t src) * 9) ord" "2 ^ k dvd src" "j = min (fst (tleaf 4 t (src + 2 ^ k)) * 9) ord"
  shows "2 ^ j dvd src + 2 ^ k"
proof (cases "j \<le> k")
  case True
  then show ?thesis using assms(2) by (meson dvd_add dvd_refl dvd_trans le_imp_power_dvd)
next
  case False
  let ?n = "src + 2 ^ k"
  define m where "m = fst (tleaf 4 t ?n)"
  have k: "k = fst (tleaf 4 t src) * 9" and km: "k < m * 9" and jm: "j \<le> m * 9" using False assms(1,3) by (auto simp: m_def)
  define b where "b = ?n - ?n mod 2 ^ (m * 9)"
  have bd: "2 ^ (m * 9) dvd b" unfolding b_def by (rule dvd_minus_mod)
  have "src < b"
  proof (rule ccontr)
    assume "\<not> src < b"
    then have "b div 2 ^ (m * 9) \<le> src div 2 ^ (m * 9)" "src div 2 ^ (m * 9) \<le> ?n div 2 ^ (m * 9)" by (simp_all add: div_le_mono)
    moreover have "b div 2 ^ (m * 9) = ?n div 2 ^ (m * 9)" unfolding b_def minus_mod_eq_mult_div by simp
    ultimately have "src div 2 ^ (m * 9) = ?n div 2 ^ (m * 9)" by simp
    then have "tleaf 4 t src = tleaf 4 t ?n" using tleaf_block [of m 4 t ?n src] by (simp add: m_def entries_power)
    then show False using k km by (simp add: m_def)
  qed
  moreover have "b \<le> ?n" by (simp add: b_def)
  moreover have "2 ^ k dvd b" using bd km by (meson dvd_trans le_imp_power_dvd less_imp_le)
  ultimately have "b = ?n"
    using dvd_step [OF assms(2)] by (simp add: le_antisym)
  then show ?thesis using bd jm by (meson dvd_trans le_imp_power_dvd)
qed

lemma leaf_run:
  assumes "tleaf 4 (stree (pt_child T off) s 4 (Root pt)) x = (l, e)" "k \<le> l * 9" "2 ^ k dvd x" "i < 2 ^ k"
  shows "pt_map T off pt s (x + i) = map_option (\<lambda>(f, r). (f + of_nat (i * 4096), r)) (pt_map T off pt s x)"
proof -
  have m: "(x + i) mod 2 ^ (l * 9) = x mod 2 ^ (l * 9) + i" "(x + i) div 2 ^ (l * 9) = x div 2 ^ (l * 9)"
  proof -
    have "2 ^ k dvd (2 :: nat) ^ (l * 9)" using assms(2) by (rule le_imp_power_dvd)
    then have "x mod 2 ^ (l * 9) + 2 ^ k \<le> 2 ^ (l * 9)" using assms(3) by (intro dvd_step) (simp_all add: dvd_mod)
    then have lt: "x mod 2 ^ (l * 9) + i < 2 ^ (l * 9)" using assms(4) by linarith
    have "(x + i) mod 2 ^ (l * 9) = (x mod 2 ^ (l * 9) + i) mod 2 ^ (l * 9)" by (simp add: mod_add_left_eq)
    then show 1: "(x + i) mod 2 ^ (l * 9) = x mod 2 ^ (l * 9) + i" using lt by simp
    have "2 ^ (l * 9) * ((x + i) div 2 ^ (l * 9)) = 2 ^ (l * 9) * (x div 2 ^ (l * 9))"
      using mult_div_mod_eq [of "2 ^ (l * 9)" "x + i"] mult_div_mod_eq [of "2 ^ (l * 9)" x] 1 by linarith
    then show "(x + i) div 2 ^ (l * 9) = x div 2 ^ (l * 9)" by simp
  qed
  then have "tleaf 4 (stree (pt_child T off) s 4 (Root pt)) (x + i) = (l, e)"
    using tleaf_block [of l 4 "stree (pt_child T off) s 4 (Root pt)" x "x + i"] assms(1) by (simp add: entries_power)
  then show ?thesis using assms(1) m(1) by (simp add: pt_map_def pt_sem_def entries_power algebra_simps)
qed

section \<open>Other page tables\<close>

text \<open>An update of one page table leaves every other page table as it is.\<close>

lemma pt_ok_other:
  assumes T: "pte_laws T" and T': "pte_laws T'" and "pt_ok T' off s L q" "q \<noteq> pt" "pt_pages T' off q s \<inter> pt_pages T off pt s = {}"
    and "pt_ok T off s' L' pt" "pt_frame T off pt L s L' s'"
  shows "stree (pt_child T' off) s' 4 (Root q) = stree (pt_child T' off) s 4 (Root q)" "pt_ok T' off s' L' q"
    "pt_pages T' off q s' \<inter> pt_pages T off pt s' = {}"
proof -
  let ?t = "stree (pt_child T' off) s 4 (Root q)"
  have ok: "wf_rt ?t" "set (pages_of ?t) \<subseteq> L" "leaves_ok (pt_okl T') 4 ?t" using assms(3) unfolding pte_laws.pt_ok_unfold [OF T'] by auto
  have fr: "x \<in> L'" "x \<notin> pt_pages T off pt s'" "\<forall>w\<in>page_words x. mem s' w = mem s w" if "x \<in> set (pages_of ?t)" for x
    using assms(5,7) ok(2) that unfolding pt_frame_def by blast+
  have rt: "rd s' (Root q) = rd s (Root q)" using assms(4,7) by (simp add: pt_frame_def rd_def)
  show st: "stree (pt_child T' off) s' 4 (Root q) = ?t"
    unfolding rt by (rule rtree_cong) (use fr(3) in \<open>auto simp: words_of_def\<close>)
  have "page_inv s' L'" "pool_ok (pt_okp off) s'" using assms(6) unfolding pte_laws.pt_ok_unfold [OF T] by auto
  then show "pt_ok T' off s' L' q" unfolding pte_laws.pt_ok_unfold [OF T'] st using ok fr(1) by blast
  show "pt_pages T' off q s' \<inter> pt_pages T off pt s' = {}" unfolding st using fr(2) by blast
qed

text \<open>
  What delegation of a page makes of its translation: nothing for an unmapped or a kernel page, otherwise the same frame with the permissions that the
  source and the mask \<open>pmm\<close> have in common (the user bit is kept), as far as the format of the destination can express them.
\<close>

definition deleg_page :: "pte_fmt \<Rightarrow> bool \<Rightarrow> perms \<Rightarrow> cacheability \<Rightarrow> shareability \<Rightarrow> (u64 \<times> perms \<times> cacheability \<times> shareability) option \<Rightarrow>
    (u64 \<times> perms \<times> cacheability \<times> shareability) option \<Rightarrow> bool" where
  "deleg_page T nova pmm ca sh m r \<longleftrightarrow> (case m of None \<Rightarrow> r = None
     | Some (f, pm, c, h) \<Rightarrow>
         if tst (pm AND (Paging_K OR Paging_U OR pmm)) Paging_K then r = None
         else \<exists>l<4. let a = page_attr T l (pm AND (Paging_K OR Paging_U OR pmm)) (if nova then ca else c) (if nova then sh else h)
           in r = (if a = 0 then None else Some (f, page_pm T a, page_ca T l a, page_sh T a)))"

lemma page_attr_0: "x86_fmt T \<Longrightarrow> page_attr T l 0 ca sh = 0"
  by (auto simp: x86_fmt_def Hpt_def Dpt_def Ept_def Hpt_page_attr_def Dpt_page_attr_def Ept_page_attr_def tst_def)

lemma and_not_self: "(w :: u64) AND m = 0 \<Longrightarrow> w AND NOT m = w"
proof -
  assume z: "w AND m = 0"
  have "w AND NOT m = (w AND m) OR (w AND NOT m)" using z by simp
  also have "\<dots> = w" by (rule bit_word_eqI) (auto simp: bit_and_iff bit_or_iff bit_not_iff)
  finally show ?thesis .
qed

text \<open>The leaf that covers an aligned run of source pages, as the lookup returns it.\<close>

lemma lookup_run:
  assumes "pt_ok Hpt off s L hst" "t = pt_lookup Hpt off hst (push_bit 12 src) 0 0 s" "k = min (tr_o t) ord" "unat src < 2 ^ 35" "2 ^ k dvd unat src" "k \<le> 35"
  shows "tr_o t = fst (tleaf 4 (stree (pt_child Hpt off) s 4 (Root hst)) (unat src)) * 9" "tr_p t AND NOT (offs_mask k) = tr_p t" "tr_p t AND offs_mask k = 0"
    "unat (tr_p t) + 2 ^ (k + 12) \<le> 2 ^ 52"
    "\<And>i. i < 2 ^ k \<Longrightarrow> case pt_map Hpt off hst s (unat src + i) of None \<Rightarrow> tr_pm t = 0
       | Some (f, pm, c, h) \<Rightarrow> f = tr_p t + of_nat (i * 4096) \<and> pm = tr_pm t \<and> c = tr_ca t \<and> h = tr_sh t"
proof -
  let ?T = "stree (pt_child Hpt off) s 4 (Root hst)" and ?v = "push_bit 12 src :: u64"
  obtain l e where l: "tleaf 4 ?T (unat src) = (l, e)" by (metis surj_pair)
  have v: "unat ?v = unat src * 4096" using assms(4) by (simp add: push_bit_eq_mult unat_word_ariths)
  then have vd: "unat ?v div 4096 = unat src" by simp
  have "leaves_ok (pt_okl Hpt) 4 ?T" using assms(1) by (simp add: hpt.pt_ok_unfold)
  from tleaf_ok [OF this _ l] have l4: "l \<le> 4" by (simp add: pt_okl_def)
  have t: "t = (if e = 0 then \<lparr>tr_pm = 0, tr_p = 0, tr_o = l * 9, tr_ca = 0, tr_sh = 0\<rparr>
    else \<lparr>tr_pm = page_pm Hpt e, tr_p = pte_addr Hpt l e OR (?v AND offs_mask (l * 9)), tr_o = l * 9, tr_ca = page_ca Hpt l e, tr_sh = page_sh Hpt e\<rparr>)"
    using hpt.pt_lookup_tleaf [of 4 off s "Root hst" ?v l e] l vd by (simp add: assms(2) pt_lookup_def hpt.lev4)
  then show o: "tr_o t = fst (tleaf 4 ?T (unat src)) * 9" using l by simp
  have kl: "k \<le> l * 9" using o l assms(3) by simp
  have va: "?v AND offs_mask k = 0"
    using offs_mask_zero [of k ?v] assms(5,6) v by (simp add: power_add mult_dvd_mono)
  have bits: "k + 12 \<le> n \<and> n < 52" if "bit (tr_p t) n" for n
  proof -
    have lo: "k + 12 \<le> n" if "bit ?v n"
      using arg_cong [OF va, of "\<lambda>w. bit w n"] that assms(6) by (auto simp: bit_and_iff offs_mask_mask bit_mask_iff not_less simp del: push_bit_eq_0_iff)
    show ?thesis
    proof (cases "bit (pte_addr Hpt l e) n")
      case True
      then have "12 + 9 * l \<le> n \<and> n < 52" using l4 by (auto simp: pte_addr_def hpt.mask bit_and_iff bit_not_iff offs_mask_mask bit_mask_iff bit_BIT64_RANGE_51_12)
      then show ?thesis using kl by simp
    next
      case False
      then have "bit ?v n" "n < l * 9 + 12" using that t l4 by (auto simp: bit_or_iff bit_and_iff offs_mask_mask bit_mask_iff split: if_splits)
      then show ?thesis using lo l4 by simp
    qed
  qed
  show z: "tr_p t AND offs_mask k = 0" using assms(6) by (intro bit_eqI) (auto simp: bit_and_iff offs_mask_mask bit_mask_iff dest: bits)
  then show "tr_p t AND NOT (offs_mask k) = tr_p t" by (rule and_not_self)
  have "tr_p t = take_bit 52 (tr_p t)" by (intro bit_word_eqI) (auto simp: bit_take_bit_iff dest: bits)
  then have "unat (tr_p t) < 2 ^ 52" by (metis take_bit_nat_less_exp unsigned_take_bit_eq)
  moreover have "2 ^ (k + 12) dvd unat (tr_p t)" using z assms(6) offs_mask_zero by simp
  ultimately show "unat (tr_p t) + 2 ^ (k + 12) \<le> 2 ^ 52" using le_imp_power_dvd [of "k + 12" 52 "2 :: nat"] assms(6) by (intro dvd_step) simp_all
  fix i :: nat assume i: "i < 2 ^ k"
  have "?v AND offs_mask 0 = 0" using offs_mask_zero [of 0 ?v] v by simp
  then show "case pt_map Hpt off hst s (unat src + i) of None \<Rightarrow> tr_pm t = 0
       | Some (f, pm, c, h) \<Rightarrow> f = tr_p t + of_nat (i * 4096) \<and> pm = tr_pm t \<and> c = tr_ca t \<and> h = tr_sh t"
    using hpt.pt_lookup_map [OF assms(1), of ?v 0 0] vd unfolding leaf_run [OF l kl assms(5) i]
    by (auto simp: assms(2) split: option.splits prod.splits)
qed

text \<open>The state of a delegation: the source and the destination are well-formed page tables without common tables.\<close>

definition deleg_ok :: "pte_fmt \<Rightarrow> u64 \<Rightarrow> u64 \<Rightarrow> u64 \<Rightarrow> u64 set \<Rightarrow> 'a tables_scheme \<Rightarrow> bool" where
  "deleg_ok T off this hst L s \<longleftrightarrow> pt_ok T off s L this \<and> pt_ok Hpt off s L hst \<and> hst \<noteq> this \<and> pt_pages Hpt off hst s \<inter> pt_pages T off this s = {}"

abbreviation src_tree :: "u64 \<Rightarrow> u64 \<Rightarrow> 'a tables_scheme \<Rightarrow> rt" where
  "src_tree off hst s \<equiv> stree (pt_child Hpt off) s 4 (Root hst)"

lemma deleg_update:
  fixes s :: "'a tables_scheme"
  assumes T: "x86_fmt T" and ok: "deleg_ok T off this hst L s" and "lim \<le> 27" "ord \<le> lim \<or> lim < 20" "ord \<le> 31"
    and "k = min (fst (tleaf 4 (src_tree off hst s) (unat src)) * 9) ord" "2 ^ k dvd unat src" "unat src < 2 ^ 35" "2 ^ k dvd unat dst" "unat dst + 2 ^ k \<le> 2 ^ 36"
    and "t = pt_lookup Hpt off hst (push_bit 12 src) 0 0 s"
    and "pm = (if tst (tr_pm t AND (Paging_K OR Paging_U OR pmm)) Paging_K then 0 else tr_pm t AND (Paging_K OR Paging_U OR pmm))"
    and "ca' = (if nova then ca else tr_ca t)" "sh' = (if nova then sh else tr_sh t)"
  shows "min (tr_o t) ord = k" "\<exists>sts s' L' c. pt_update T off lim this (push_bit 12 dst AND NOT (offs_mask k)) (tr_p t AND NOT (offs_mask k)) k pm ca' sh' s = Some (sts, s') \<and>
    deleg_ok T off this hst L' s' \<and> pt_frame T off this L s L' s' \<and> src_tree off hst s' = src_tree off hst s \<and>
    (sts = SUCCESS \<and> c = 2 ^ k \<or> sts = INS_MEM \<and> c < 2 ^ k) \<and>
    (\<forall>x<2 ^ 36. if unat dst \<le> x \<and> x < unat dst + c
       then deleg_page T nova pmm ca sh (pt_map Hpt off hst s (unat src + (x - unat dst))) (pt_map T off this s' x) else pt_map T off this s' x = pt_map T off this s x)"
proof -
  let ?v = "push_bit 12 dst :: u64"
  note L = x86_laws [OF T] hpt.pte_laws_axioms
  have o: "pt_ok T off s L this" "pt_ok Hpt off s L hst" "hst \<noteq> this" "pt_pages Hpt off hst s \<inter> pt_pages T off this s = {}"
    using ok by (auto simp: deleg_ok_def)
  have "pt_lookup Hpt off hst (push_bit 12 src) 0 0 s = t" using assms(11) ..
  have to: "tr_o t = fst (tleaf 4 (src_tree off hst s) (unat src)) * 9"
    by (rule lookup_run(1) [OF o(2) assms(11) refl assms(8), of 0]) simp_all
  then show mk: "min (tr_o t) ord = k" using assms(6) by simp
  have k35: "k \<le> 35" "k \<le> 31" using mk assms(5) by auto
  note run = lookup_run(2-5) [OF o(2) assms(11) mk [symmetric] assms(8,7) k35(1)]
  have v: "unat ?v = unat dst * 4096" using assms(10) by (simp add: push_bit_eq_mult unat_word_ariths)
  have "2 ^ (k + 12) dvd unat ?v" unfolding v power_add using assms(9) by (intro mult_dvd_mono) simp_all
  then have va: "?v AND offs_mask k = 0" using offs_mask_zero [of k ?v] k35 by simp
  note vn = and_not_self [OF va]
  have vb: "unat ?v + 2 ^ (k + 12) \<le> 2 ^ 48" unfolding v power_add using assms(10) by simp
  have kl: "k \<le> lim \<or> lim < 20 \<and> k < lim + 32" using assms(4) k35 mk by auto
  from pte_laws.pt_update_spec [OF L(1) o(1) assms(3) kl va run(2) vb run(3) refl refl, of pm ca' sh'] obtain sts s' L' c where
    u: "pt_update T off lim this ?v (tr_p t) k pm ca' sh' s = Some (sts, s')" "pt_ok T off s' L' this" "pt_frame T off this L s L' s'"
      "sts = SUCCESS \<and> c = 2 ^ k \<or> sts = INS_MEM \<and> c < 2 ^ k \<and> 2 ^ min k lim dvd c"
      "\<forall>x<2 ^ 36. pt_map T off this s' x = (if unat ?v div 4096 \<le> x \<and> x < unat ?v div 4096 + c
        then new_map T (min k lim div 9) (page_attr T (min k lim div 9) pm ca' sh') (tr_p t) (unat ?v div 4096) x else pt_map T off this s x)" by blast
  note po = pt_ok_other [OF L o(2,3,4) u(2,3)]
  have vd: "unat ?v div 4096 = unat dst" using v by simp
  have l4: "min k lim div 9 < 4" using assms(3) by (simp add: div_less_iff_less_mult)
  have pg: "deleg_page T nova pmm ca sh (pt_map Hpt off hst s (unat src + (x - unat dst)))
      (new_map T (min k lim div 9) (page_attr T (min k lim div 9) pm ca' sh') (tr_p t) (unat dst) x)" if "x < unat dst + c" for x
  proof -
    have "c \<le> 2 ^ k" using u(4) by auto
    then have "x - unat dst < 2 ^ k" using that zero_less_power [of "2 :: nat" k] by linarith
    from run(4) [OF this] show ?thesis
      using l4 page_attr_0 [OF T] assms(12-14) unfolding deleg_page_def new_map_def Let_def
      by (auto split: option.splits if_splits simp del: of_nat_mult)
  qed
  have "deleg_ok T off this hst L' s'" using u(2) po(2,3) o(3) by (simp add: deleg_ok_def)
  moreover have "\<forall>x<2 ^ 36. if unat dst \<le> x \<and> x < unat dst + c
       then deleg_page T nova pmm ca sh (pt_map Hpt off hst s (unat src + (x - unat dst))) (pt_map T off this s' x) else pt_map T off this s' x = pt_map T off this s x"
  proof (intro allI impI)
    fix x :: nat assume "x < 2 ^ 36"
    with u(5) show "if unat dst \<le> x \<and> x < unat dst + c
       then deleg_page T nova pmm ca sh (pt_map Hpt off hst s (unat src + (x - unat dst))) (pt_map T off this s' x) else pt_map T off this s' x = pt_map T off this s x"
      using pg [of x] unfolding vd by (cases "unat dst \<le> x \<and> x < unat dst + c") metis+
  qed
  ultimately show "\<exists>sts s' L' c. pt_update T off lim this (push_bit 12 dst AND NOT (offs_mask k)) (tr_p t AND NOT (offs_mask k)) k pm ca' sh' s = Some (sts, s') \<and>
    deleg_ok T off this hst L' s' \<and> pt_frame T off this L s L' s' \<and> src_tree off hst s' = src_tree off hst s \<and>
    (sts = SUCCESS \<and> c = 2 ^ k \<or> sts = INS_MEM \<and> c < 2 ^ k) \<and>
    (\<forall>x<2 ^ 36. if unat dst \<le> x \<and> x < unat dst + c
       then deleg_page T nova pmm ca sh (pt_map Hpt off hst s (unat src + (x - unat dst))) (pt_map T off this s' x) else pt_map T off this s' x = pt_map T off this s x)"
    unfolding vn run(1) using u(1,3,4) po(1) by blast
qed

text \<open>The destination after \<open>c\<close> pages have been delegated.\<close>

definition delegated :: "pte_fmt \<Rightarrow> u64 \<Rightarrow> u64 \<Rightarrow> u64 \<Rightarrow> bool \<Rightarrow> perms \<Rightarrow> cacheability \<Rightarrow> shareability \<Rightarrow> nat \<Rightarrow> nat \<Rightarrow> nat \<Rightarrow> 'a tables_scheme \<Rightarrow> 'a tables_scheme \<Rightarrow> bool" where
  "delegated T off this hst nova pmm ca sh x0 y0 c s s' \<longleftrightarrow> (\<forall>y<2 ^ 36. if y0 \<le> y \<and> y < y0 + c
     then deleg_page T nova pmm ca sh (pt_map Hpt off hst s (x0 + (y - y0))) (pt_map T off this s' y) else pt_map T off this s' y = pt_map T off this s y)"

lemma deleg_page_attr: "nova \<longrightarrow> ca' = ca \<and> sh' = sh \<Longrightarrow> deleg_page T nova pmm ca' sh' = deleg_page T nova pmm ca sh"
  by (auto simp: deleg_page_def fun_eq_iff split: option.splits)

lemma delegated_0: "delegated T off this hst nova pmm ca sh x0 y0 0 s s"
  unfolding delegated_def by auto

lemma delegated_trans:
  assumes "delegated T off this hst nova pmm ca sh x0 y0 n s s1" "delegated T off this hst nova pmm ca' sh' (x0 + n) (y0 + n) c s1 s2"
    and "src_tree off hst s1 = src_tree off hst s" "nova \<longrightarrow> ca' = ca \<and> sh' = sh"
  shows "delegated T off this hst nova pmm ca sh x0 y0 (n + c) s s2"
  unfolding delegated_def
proof (intro allI impI)
  fix y :: nat assume y: "y < 2 ^ 36"
  have m: "pt_map Hpt off hst s1 = pt_map Hpt off hst s" using assms(3) by (simp add: pt_map_def fun_eq_iff)
  note d = assms(1) [unfolded delegated_def, rule_format, OF y] assms(2) [unfolded delegated_def m deleg_page_attr [OF assms(4)], rule_format, OF y]
  consider "y < y0" | "y0 \<le> y" "y < y0 + n" | "y0 + n \<le> y" by linarith
  then show "if y0 \<le> y \<and> y < y0 + (n + c) then deleg_page T nova pmm ca sh (pt_map Hpt off hst s (x0 + (y - y0))) (pt_map T off this s2 y)
    else pt_map T off this s2 y = pt_map T off this s y"
  proof cases
    case 3
    then have "x0 + n + (y - (y0 + n)) = x0 + (y - y0)" by simp
    then show ?thesis using 3 d by (auto simp: add.assoc)
  qed (use d in auto)
qed

lemma mem_delegate_loop_step:
  assumes "src < s_end" "t = pt_lookup Hpt off hst (push_bit 12 src) 0 0 s"
    and "pm = (if tst (tr_pm t AND (Paging_K OR Paging_U OR pmm)) Paging_K then 0 else tr_pm t AND (Paging_K OR Paging_U OR pmm))"
    and "ca1 = (if nova then ca else tr_ca t)" "sh1 = (if nova then sh else tr_sh t)"
  shows "mem_delegate_loop T off lim this hst nova ord pmm s_end ca sh src dst s = do {
    (sts, s1) \<leftarrow> pt_update T off lim this (push_bit 12 dst AND NOT (offs_mask (min (tr_o t) ord))) (tr_p t AND NOT (offs_mask (min (tr_o t) ord))) (min (tr_o t) ord) pm ca1 sh1 s;
    if sts \<noteq> SUCCESS then Some (sts, s1)
    else mem_delegate_loop T off lim this hst nova ord pmm s_end ca1 sh1 (src + BITN (min (tr_o t) ord)) (dst + BITN (min (tr_o t) ord)) s1 }"
  unfolding assms(2-5) by (subst mem_delegate_loop.simps) (simp only: assms(1) Let_def if_True)

lemma mem_delegate_loop_spec:
  fixes s :: "'a tables_scheme"
  assumes T: "x86_fmt T" and "lim \<le> 27" "ord \<le> lim \<or> lim < 20" "ord \<le> 31" "unat s_end \<le> 2 ^ 35" "2 ^ ord dvd unat s_end" "2 ^ ord dvd D" "D \<le> 2 ^ 36"
    and "deleg_ok T off this hst L s" "unat src \<le> unat s_end" "unat dst + (unat s_end - unat src) = D"
    and "unat src < unat s_end \<Longrightarrow> 2 ^ min (fst (tleaf 4 (src_tree off hst s) (unat src)) * 9) ord dvd unat src"
  shows "\<exists>sts s' L' c. mem_delegate_loop T off lim this hst nova ord pmm s_end ca sh src dst s = Some (sts, s') \<and> deleg_ok T off this hst L' s' \<and>
    pt_frame T off this L s L' s' \<and> src_tree off hst s' = src_tree off hst s \<and>
    (sts = SUCCESS \<and> c = unat s_end - unat src \<or> sts = INS_MEM \<and> c < unat s_end - unat src) \<and> delegated T off this hst nova pmm ca sh (unat src) (unat dst) c s s'"
  using assms(9-12)
proof (induction "unat s_end - unat src" arbitrary: src dst ca sh s L rule: less_induct)
  case less
  show ?case
  proof (cases "src < s_end")
    case False
    then have "unat src = unat s_end" using less.prems(2) by (simp add: word_less_nat_alt)
    then show ?thesis using less.prems(1) False pt_frame_refl [of T off this L s]
      by (intro exI [of _ SUCCESS] exI [of _ s] exI [of _ L] exI [of _ 0]) (simp add: mem_delegate_loop.simps [of _ _ _ _ _ _ _ _ s_end] delegated_0)
  next
    case True
    then have lt: "unat src < unat s_end" by (simp add: word_less_nat_alt)
    define k where "k = min (fst (tleaf 4 (src_tree off hst s) (unat src)) * 9) ord"
    define t where "t = pt_lookup Hpt off hst (push_bit 12 src) 0 0 s"
    define pm where "pm = (if tst (tr_pm t AND (Paging_K OR Paging_U OR pmm)) Paging_K then 0 else tr_pm t AND (Paging_K OR Paging_U OR pmm))"
    define ca1 sh1 where "ca1 = (if nova then ca else tr_ca t)" and "sh1 = (if nova then sh else tr_sh t)"
    have ks: "2 ^ k dvd unat src" using less.prems(4) [OF lt] by (simp add: k_def)
    have ko: "(2 :: nat) ^ k dvd 2 ^ ord" by (rule le_imp_power_dvd) (simp add: k_def)
    note ke = dvd_trans [OF ko assms(6)] dvd_trans [OF ko assms(7)]
    have st: "unat src + 2 ^ k \<le> unat s_end" by (rule dvd_step [OF ks ke(1) lt])
    have dst: "unat dst = D - (unat s_end - unat src)" "unat s_end - unat src \<le> D" using less.prems(3) by auto
    have kd: "2 ^ k dvd unat dst" unfolding dst(1) by (intro dvd_diff_nat ke ks)
    have db: "unat dst + 2 ^ k \<le> D" "unat dst + 2 ^ k \<le> 2 ^ 36" using st less.prems(3) assms(8) by linarith+
    have s35: "unat src < 2 ^ 35" using lt assms(5) by linarith
    note du = deleg_update [OF T less.prems(1) assms(2-4) k_def ks s35 kd db(2) t_def pm_def ca1_def sh1_def]
    from du(2) obtain sts s1 L1 c where
      u: "pt_update T off lim this (push_bit 12 dst AND NOT (offs_mask k)) (tr_p t AND NOT (offs_mask k)) k pm ca1 sh1 s = Some (sts, s1)"
      "deleg_ok T off this hst L1 s1" "pt_frame T off this L s L1 s1" "src_tree off hst s1 = src_tree off hst s"
      "sts = SUCCESS \<and> c = 2 ^ k \<or> sts = INS_MEM \<and> c < 2 ^ k" "delegated T off this hst nova pmm ca sh (unat src) (unat dst) c s s1"
      unfolding delegated_def by blast
    have eq: "mem_delegate_loop T off lim this hst nova ord pmm s_end ca sh src dst s =
      (if sts \<noteq> SUCCESS then Some (sts, s1) else mem_delegate_loop T off lim this hst nova ord pmm s_end ca1 sh1 (src + BITN k) (dst + BITN k) s1)"
      unfolding mem_delegate_loop_step [OF True t_def pm_def ca1_def sh1_def] du(1) u(1) by simp
    show ?thesis
    proof (cases "sts = SUCCESS")
      case False
      then have "sts = INS_MEM" "c < unat s_end - unat src" using u(5) st by auto
      then show ?thesis using eq u by auto
    next
      case ok: True
      then have c: "c = 2 ^ k" using u(5) by simp
      have k31: "k \<le> 31" using assms(4) by (simp add: k_def)
      have bn: "unat (BITN k :: u64) = 2 ^ k" using k31 by (simp add: BITN_eq unat_pow2)
      have us: "unat (src + BITN k) = unat src + 2 ^ k" "unat (dst + BITN k) = unat dst + 2 ^ k"
        using st db assms(5,8) u64_lt_pow [of s_end] by (simp_all add: unat_word_ariths bn)
      have j: "2 ^ min (fst (tleaf 4 (src_tree off hst s1) (unat (src + BITN k))) * 9) ord dvd unat (src + BITN k)"
        unfolding us u(4) by (rule next_aligned [OF k_def ks refl])
      have "unat s_end - unat (src + BITN k) < unat s_end - unat src" "unat (src + BITN k) \<le> unat s_end"
        "unat (dst + BITN k) + (unat s_end - unat (src + BITN k)) = D" unfolding us using st less.prems(3) zero_less_power [of "2 :: nat" k] by linarith+
      from less.hyps [OF this(1) u(2) this(2,3) j, of ca1 sh1] obtain sts2 s2 L2 c2 where
        r: "mem_delegate_loop T off lim this hst nova ord pmm s_end ca1 sh1 (src + BITN k) (dst + BITN k) s1 = Some (sts2, s2)" "deleg_ok T off this hst L2 s2"
        "pt_frame T off this L1 s1 L2 s2" "src_tree off hst s2 = src_tree off hst s1"
        "sts2 = SUCCESS \<and> c2 = unat s_end - (unat src + 2 ^ k) \<or> sts2 = INS_MEM \<and> c2 < unat s_end - (unat src + 2 ^ k)"
        "delegated T off this hst nova pmm ca1 sh1 (unat src + 2 ^ k) (unat dst + 2 ^ k) c2 s1 s2" unfolding us by blast
      have "delegated T off this hst nova pmm ca sh (unat src) (unat dst) (2 ^ k + c2) s s2"
        by (rule delegated_trans [OF u(6) [unfolded c] r(6) u(4)]) (simp add: ca1_def sh1_def)
      moreover have "sts2 = SUCCESS \<and> 2 ^ k + c2 = unat s_end - unat src \<or> sts2 = INS_MEM \<and> 2 ^ k + c2 < unat s_end - unat src" using r(5) st by auto
      ultimately show ?thesis using eq ok r(1-4) u(4) pt_frame_trans [OF u(3) r(3)] by auto
    qed
  qed
qed

section \<open>The whole operation\<close>

lemma page_inv_free_wait:
  fixes s :: "'a tables_scheme"
  assumes "page_inv s L"
  shows "\<exists>s'. free_wait s = Some s' \<and> page_inv s' L \<and> mem s' = mem s \<and> root_of s' = root_of s \<and> same_geometry s s' \<and> waitlist s' = []"
proof -
  from assms obtain A where A: "buddy_inv s A" "L \<subseteq> index_to_page s ` {b. (b, 0) \<in> A \<and> b \<notin> set (waitlist s)}" by (auto simp: page_inv_def)
  from free_wait_spec [OF A(1)] obtain s' where s': "free_wait s = Some s'" "buddy_inv s' {x \<in> A. fst x \<notin> set (waitlist s)}" "waitlist s' = []"
    "same_pool s s'" "mem s' = mem s" by blast
  have "page_inv s' L" unfolding page_inv_def using s'(2,3) A(2) same_pool_page [OF s'(4)] by (intro exI [of _ "{x \<in> A. fst x \<notin> set (waitlist s)}"]) auto
  then show ?thesis using s' root_of_more [of s' s] by (auto simp: same_pool_def same_geometry_def)
qed

lemma pt_same_mem:
  fixes s :: "'a tables_scheme"
  assumes "pte_laws T" "mem s' = mem s" "root_of s' = root_of s"
  shows "pt_map T off pt s' = pt_map T off pt s" "pt_pages T off pt s' = pt_pages T off pt s" "page_inv s' L \<Longrightarrow> same_geometry s s' \<Longrightarrow> pt_ok T off s L pt \<Longrightarrow> pt_ok T off s' L pt"
proof -
  have t: "stree (pt_child T off) s' 4 (Root pt) = stree (pt_child T off) s 4 (Root pt)" using assms(2,3) by (simp add: rd_def)
  then show "pt_map T off pt s' = pt_map T off pt s" "pt_pages T off pt s' = pt_pages T off pt s" by (simp_all add: pt_map_def fun_eq_iff)
  show "page_inv s' L \<Longrightarrow> same_geometry s s' \<Longrightarrow> pt_ok T off s L pt \<Longrightarrow> pt_ok T off s' L pt"
    unfolding pte_laws.pt_ok_unfold [OF assms(1)] t by (simp add: pool_ok_same)
qed

lemma unat_region: "unat (w :: u64) < 2 ^ 52 \<Longrightarrow> k \<le> 31 \<Longrightarrow> unat (w + BITN k) = unat w + 2 ^ k"
proof -
  assume w: "unat w < 2 ^ 52" and k: "k \<le> 31"
  have "(2 :: nat) ^ k \<le> 2 ^ 31" using k by (rule power_increasing) simp
  then have "unat w + 2 ^ k < 2 ^ 64" using w by simp
  then show ?thesis using k by (simp add: unat_word_ariths BITN_eq unat_pow2)
qed

text \<open>
  C36: Delegation of memory neither amplifies permissions nor reaches memory of the kernel. For an aligned region the operation passes all assertions; a region outside of either space
  is refused without effect. Otherwise the source does not change, and in the destination a prefix of the region, all of it if the result is SUCCESS,
  has for every page what \<open>deleg_page\<close> says: no translation for unmapped and kernel pages, and the same frame with at most the permissions of the source and the mask for user pages, whatever
  the page sizes. All other pages of the destination, all other page tables and all other live pages are unchanged, and both page tables stay well formed.
\<close>

theorem mem_delegate_confined:
  fixes s :: "'a tables_scheme"
  assumes "x86_fmt T" "deleg_ok T off this hst L s" "lim \<le> 27" "ord \<le> lim \<or> lim < 20" "ord \<le> 31" "unat num \<le> 2 ^ 36"
    and "2 ^ ord dvd unat ssb" "2 ^ ord dvd unat dsb" "unat ssb < 2 ^ 52" "unat dsb < 2 ^ 52"
  shows "\<exists>sts s' L' c. mem_delegate T off lim num this hst nova ssb dsb ord pmm ca sh s = Some (sts, s') \<and>
    (if unat ssb + 2 ^ ord \<le> unat HST_num \<and> unat dsb + 2 ^ ord \<le> unat num
     then (sts = SUCCESS \<and> c = 2 ^ ord \<or> sts = INS_MEM \<and> c < 2 ^ ord) \<and> deleg_ok T off this hst L' s' \<and> pt_frame T off this L s L' s' \<and>
       pt_map Hpt off hst s' = pt_map Hpt off hst s \<and> delegated T off this hst nova pmm ca sh (unat ssb) (unat dsb) c s s' \<and> waitlist s' = []
     else sts = BAD_PAR \<and> s' = s)"
proof -
  note w = unat_region [OF assms(9,5)] unat_region [OF assms(10,5)]
  show ?thesis
  proof (cases "unat ssb + 2 ^ ord \<le> unat HST_num \<and> unat dsb + 2 ^ ord \<le> unat num")
    case False
    then have "ssb + BITN ord > HST_num \<or> dsb + BITN ord > num" using w by (auto simp: word_less_nat_alt)
    then show ?thesis using False by (auto simp: mem_delegate_def Let_def)
  next
    case True
    let ?e = "ssb + BITN ord"
    have r: "\<not> (?e > HST_num \<or> dsb + BITN ord > num)" using True w by (auto simp: word_less_nat_alt)
    have h: "unat HST_num = 2 ^ 35" by (simp add: HST_num_def)
    have e: "unat ?e \<le> 2 ^ 35" "2 ^ ord dvd unat ?e" "2 ^ ord dvd unat dsb + 2 ^ ord" "unat dsb + 2 ^ ord \<le> 2 ^ 36" "unat ssb \<le> unat ?e"
      "unat dsb + (unat ?e - unat ssb) = unat dsb + 2 ^ ord" unfolding w(1) using True assms(6-8) unfolding h by auto
    have j: "2 ^ min (fst (tleaf 4 (src_tree off hst s) (unat ssb)) * 9) ord dvd unat ssb"
      by (rule dvd_trans [OF le_imp_power_dvd assms(7)]) simp
    from mem_delegate_loop_spec [OF assms(1,3-5) e(1-4) assms(2) e(5,6) j, of nova pmm ca sh] obtain sts s1 L1 c where
      l: "mem_delegate_loop T off lim this hst nova ord pmm ?e ca sh ssb dsb s = Some (sts, s1)" "deleg_ok T off this hst L1 s1" "pt_frame T off this L s L1 s1"
        "src_tree off hst s1 = src_tree off hst s" "sts = SUCCESS \<and> c = unat ?e - unat ssb \<or> sts = INS_MEM \<and> c < unat ?e - unat ssb"
        "delegated T off this hst nova pmm ca sh (unat ssb) (unat dsb) c s s1" by blast
    note T = x86_laws [OF assms(1)] and H = hpt.pte_laws_axioms
    have "page_inv s1 L1" using l(2) pte_laws.pt_ok_unfold [OF T] by (auto simp: deleg_ok_def)
    from page_inv_free_wait [OF this] obtain s2 where
      f: "free_wait s1 = Some s2" "page_inv s2 L1" "mem s2 = mem s1" "root_of s2 = root_of s1" "same_geometry s1 s2" "waitlist s2 = []" by blast
    note m = pt_same_mem [OF T f(3,4)] pt_same_mem [OF H f(3,4)]
    have "deleg_ok T off this hst L1 s2" using l(2) m(3) [OF f(2,5)] m(6) [OF f(2,5)] unfolding deleg_ok_def m(2,5) by blast
    moreover have "pt_frame T off this L s L1 s2" using l(3) m(2) by (simp add: pt_frame_def f(3,4))
    moreover have "pt_map Hpt off hst s2 = pt_map Hpt off hst s" using m(4) l(4) by (simp add: pt_map_def fun_eq_iff)
    moreover have "delegated T off this hst nova pmm ca sh (unat ssb) (unat dsb) c s s2" using l(6) unfolding delegated_def m(1) .
    moreover have "mem_delegate T off lim num this hst nova ssb dsb ord pmm ca sh s = Some (sts, s2)"
      using r l(1) f(1) by (simp add: mem_delegate_def Let_def)
    ultimately show ?thesis using True l(5) f(6) unfolding w(1) by auto
  qed
qed

theorem mem_delegate_confined_witness:
  "\<exists>sts s' L' (c :: nat). mem_delegate (Ept False) 0 18 GST_num 32 40 False 0x400 0x600 9 (Paging_R OR Paging_W) 0 0 ptab2 = Some (sts, s') \<and>
    (sts = SUCCESS \<and> c = 512 \<or> sts = INS_MEM \<and> c < 512) \<and> deleg_ok (Ept False) 0 32 40 L' s' \<and> pt_map Hpt 0 40 s' = pt_map Hpt 0 40 ptab2"
proof -
  have x: "x86_fmt (Ept False)" "x86_fmt Hpt" by (simp_all add: x86_fmt_def)
  have "pages_of (stree (pt_child T 0) ptab2 4 (Root r)) = []" for T r by (simp add: ptab2_def rd_def numeral_eq_Suc pt_child_def)
  then have ok: "deleg_ok (Ept False) 0 32 40 {} ptab2" using ptab2_ok [OF x(1), of 32] ptab2_ok [OF x(2), of 40] by (simp add: deleg_ok_def)
  have d: "2 ^ 9 dvd unat (0x400 :: u64)" "2 ^ 9 dvd unat (0x600 :: u64)" by simp_all
  have "unat GST_num \<le> 2 ^ 36" "unat (0x400 :: u64) + 2 ^ 9 \<le> unat HST_num \<and> unat (0x600 :: u64) + 2 ^ 9 \<le> unat GST_num" by (simp_all add: GST_num_def HST_num_def)
  with mem_delegate_confined [OF x(1) ok, of 18 9 GST_num "0x400" "0x600" False "Paging_R OR Paging_W" 0 0] show ?thesis
    using d by force
qed

end
