(* ===== verification/Nova_Pd.thy ===== *)
theory Nova_Pd
  imports Nova_Sm Nova_Space_Bmp Nova_Space_Mem
begin

text \<open>
  \<^verbatim>\<open>inc/pd.hpp\<close>, \<^verbatim>\<open>src/pd.cpp\<close> and the factories of the kernel objects: a protection domain creates spaces and, through its capability, execution contexts, scheduling contexts,
  portals and semaphores. An object is allocated from a slab cache, constructed, and made accessible by inserting a capability; if this fails it is destroyed again.
\<close>

section \<open>What is fixed at boot\<close>

text \<open>
  The addresses of the static slab caches and of the objects the kernel creates for itself, the sizes of the objects, the number of cores and the features that determine
  page-table formats and leaf limits.
\<close>

record statics =
  c_pd :: u64
  c_ec :: u64
  c_sc :: u64
  c_pt :: u64
  c_sm :: u64
  nova_hst :: u64
  root_pd :: u64
  master :: u64
  cpus :: nat
  lim_hst :: nat
  lim_gst :: nat
  lim_dma :: nat
  mbec :: bool
  space_size :: "subtype \<Rightarrow> nat"
  fpu_size :: nat
  fpu_align :: nat
  fpu_init :: fpu_img

definition MMAP_SPC_PIO :: u64 where "MMAP_SPC_PIO = 0xffffffffc0000000"
definition MMAP_SPC :: u64 where "MMAP_SPC = 0xffffffffc0000000"
definition MMAP_CPU :: u64 where "MMAP_CPU = 0xffffffffb0000000"
definition LINK_ADDR :: u64 where "LINK_ADDR = 0xffffffff80000000"

text \<open>The slab caches inside a PD.\<close>

definition dma_cache :: "u64 \<Rightarrow> u64" where "dma_cache x = x + 32"
definition gst_cache :: "u64 \<Rightarrow> u64" where "gst_cache x = x + 64"
definition hst_cache :: "u64 \<Rightarrow> u64" where "hst_cache x = x + 96"
definition msr_cache :: "u64 \<Rightarrow> u64" where "msr_cache x = x + 128"
definition obj_cache :: "u64 \<Rightarrow> u64" where "obj_cache x = x + 160"
definition pio_cache :: "u64 \<Rightarrow> u64" where "pio_cache x = x + 192"
definition fpu_cache :: "u64 \<Rightarrow> u64" where "fpu_cache x = x + 224"

section \<open>Allocation\<close>

definition on_heap :: "(slabs \<Rightarrow> ('b \<times> slabs) option) \<Rightarrow> 'a kern_scheme \<Rightarrow> ('b \<times> 'a kern_scheme) option" where
  "on_heap f s = do { (r, h) \<leftarrow> f (heap s); Some (r, s\<lparr>heap := h\<rparr>) }"

definition kalloc :: "u64 \<Rightarrow> 'a kern_scheme \<Rightarrow> (u64 option \<times> 'a kern_scheme) option" where
  "kalloc c s = on_heap (slab_alloc c) s"

definition kfree :: "u64 \<Rightarrow> u64 \<Rightarrow> 'a kern_scheme \<Rightarrow> 'a kern_scheme option" where
  "kfree c p s = (if p \<noteq> 0 then map_option (\<lambda>h. s\<lparr>heap := h\<rparr>) (slab_free c p (heap s)) else Some s)"

definition pfree :: "u64 \<Rightarrow> 'a kern_scheme \<Rightarrow> 'a kern_scheme option" where
  "pfree p s = (if p \<noteq> 0 then map_option (\<lambda>h. s\<lparr>heap := h\<rparr>) (buddy_free p (heap s)) else Some s)"

definition set_hdr :: "u64 \<Rightarrow> ktype \<Rightarrow> subtype \<Rightarrow> 'a kern_scheme \<Rightarrow> 'a kern_scheme" where
  "set_hdr x t k s = s\<lparr>hdr := (hdr s)(x := \<lparr>k_type = t, k_subtype = k\<rparr>)\<rparr>"

definition set_space :: "u64 \<Rightarrow> space \<Rightarrow> 'a kern_scheme \<Rightarrow> 'a kern_scheme" where
  "set_space x p s = s\<lparr>spcs := (spcs s)(x := p)\<rparr>"

definition set_root :: "u64 \<Rightarrow> u64 \<Rightarrow> 'a kern_scheme \<Rightarrow> 'a kern_scheme" where
  "set_root x v s = s\<lparr>heap := (heap s)\<lparr>root_of := (root_of (heap s))(x := v)\<rparr>\<rparr>"

section \<open>Spaces\<close>

text \<open>A factory returns the new object or the status of the failure.\<close>

definition space_obj_create :: "u64 \<Rightarrow> 'a kern_scheme \<Rightarrow> ((status + u64) \<times> 'a kern_scheme) option" where
  "space_obj_create pd s = do {
     (r, s) \<leftarrow> kalloc (obj_cache pd) s;
     case r of
       None \<Rightarrow> Some (Inl INS_MEM, s)
     | Some x \<Rightarrow> Some (Inr x, set_root x 0 (set_space x \<lparr>sp_pd = pd, sp_bmp = 0, sp_hst = 0, sp_cpus = 0, sp_pcid = 0, sp_tlb = 0\<rparr> (set_hdr x Type_PD Subtype_OBJ s)))
   }"

text \<open>Memory spaces need a root page table. The page tables for the cores of a host space are empty at first.\<close>

definition hst_loc :: "u64 \<Rightarrow> nat \<Rightarrow> u64" where
  "hst_loc x c = x + 32 + of_nat (8 * c)"

definition pcid_alloc :: "u64 \<Rightarrow> 'a kern_scheme \<Rightarrow> 'a kern_scheme" where
  "pcid_alloc x s = set_space x ((spcs s x)\<lparr>sp_pcid := pcids s\<rparr>) (s\<lparr>pcids := pcids s + 1\<rparr>)"

definition space_mem_create :: "platform \<Rightarrow> pte_fmt \<Rightarrow> subtype \<Rightarrow> u64 \<Rightarrow> u64 \<Rightarrow> 'a kern_scheme \<Rightarrow> ((status + u64) \<times> 'a kern_scheme) option" where
  "space_mem_create P T k c pd s = do {
     (r, s) \<leftarrow> kalloc c s;
     case r of
       None \<Rightarrow> Some (Inl INS_MEM, s)
     | Some x \<Rightarrow> do {
         let s = set_root (ptab_of x) 0 (set_space x \<lparr>sp_pd = pd, sp_bmp = 0, sp_hst = 0, sp_cpus = 0, sp_pcid = 0, sp_tlb = 0\<rparr> (set_hdr x Type_PD k s));
         let s = (if k = Subtype_HST then fold (\<lambda>i. set_root (hst_loc x i) 0) [0..<64] (pcid_alloc x s) else s);
         (w, s) \<leftarrow> on_heap (root_init T (p_off P) (ptab_of x) 3) s;
         if w \<noteq> Null then Some (Inr x, s)
         else do { s \<leftarrow> kfree c x s; Some (Inl INS_MEM, s) }
       }
   }"

definition space_pio_create :: "platform \<Rightarrow> statics \<Rightarrow> u64 \<Rightarrow> bool \<Rightarrow> 'a kern_scheme \<Rightarrow> ((status + u64) \<times> 'a kern_scheme) option" where
  "space_pio_create P C pd a s = do {
     let hst = space_hst (pds s pd);
     if hst = 0 then Some (Inl ABORTED, s)
     else do {
       (b, s) \<leftarrow> on_heap (bitmap_new 1) s;
       case b of
         None \<Rightarrow> Some (Inl INS_MEM, s)
       | Some b \<Rightarrow> do {
           (r, s) \<leftarrow> kalloc (pio_cache pd) s;
           case r of
             None \<Rightarrow> do { s \<leftarrow> pfree b s; Some (Inl INS_MEM, s) }
           | Some x \<Rightarrow> do {
               let s = set_space x \<lparr>sp_pd = pd, sp_bmp = b, sp_hst = (if a then hst else 0), sp_cpus = 0, sp_pcid = 0, sp_tlb = 0\<rparr> (set_hdr x Type_PD Subtype_PIO s);
               (_, s) \<leftarrow> (if a then on_heap (pt_update Hpt (p_off P) (lim_hst C) (ptab_of hst) MMAP_SPC_PIO (ptr_to_phys (p_off P) b) 1 Paging_R MEM_WB 0) s
                         else Some (SUCCESS, s));
               Some (Inr x, s)
             }
         }
     }
   }"

definition space_msr_create :: "u64 \<Rightarrow> 'a kern_scheme \<Rightarrow> ((status + u64) \<times> 'a kern_scheme) option" where
  "space_msr_create pd s = do {
     (b, s) \<leftarrow> on_heap (bitmap_new 0) s;
     case b of
       None \<Rightarrow> Some (Inl INS_MEM, s)
     | Some b \<Rightarrow> do {
         (r, s) \<leftarrow> kalloc (msr_cache pd) s;
         case r of
           None \<Rightarrow> do { s \<leftarrow> pfree b s; Some (Inl INS_MEM, s) }
         | Some x \<Rightarrow> Some (Inr x, set_space x \<lparr>sp_pd = pd, sp_bmp = b, sp_hst = 0, sp_cpus = 0, sp_pcid = 0, sp_tlb = 0\<rparr> (set_hdr x Type_PD Subtype_MSR s))
       }
   }"

section \<open>Protection domains\<close>

definition pd_attach :: "subtype \<Rightarrow> u64 \<Rightarrow> 'a kern_scheme \<Rightarrow> bool \<times> 'a kern_scheme" where
  "pd_attach k x s = (spaces (pds s x) AND BIT k = 0, upd_pd x (\<lambda>p. p\<lparr>spaces := spaces p OR BIT k\<rparr>) s)"

definition pd_detach :: "subtype \<Rightarrow> u64 \<Rightarrow> 'a kern_scheme \<Rightarrow> 'a kern_scheme" where
  "pd_detach k x s = upd_pd x (\<lambda>p. p\<lparr>spaces := spaces p AND NOT (BIT k)\<rparr>) s"

definition pd_ctor :: "statics \<Rightarrow> u64 \<Rightarrow> 'a kern_scheme \<Rightarrow> 'a kern_scheme" where
  "pd_ctor C x s =
     (let k = (\<lambda>t. slab_cache_new (space_size C t) 32);
          h = heap s;
          h = fold (\<lambda>(c, v). upd_cache c (\<lambda>_. v))
            [(dma_cache x, k Subtype_DMA), (gst_cache x, k Subtype_GST), (hst_cache x, k Subtype_HST), (msr_cache x, k Subtype_MSR), (obj_cache x, k Subtype_OBJ),
             (pio_cache x, k Subtype_PIO), (fpu_cache x, slab_cache_new (fpu_size C) (fpu_align C))] h
      in set_hdr x Type_PD Subtype_PD (s\<lparr>heap := h, pds := (pds s)(x := \<lparr>spaces = 0, space_obj = 0, space_hst = 0, space_pio = 0\<rparr>)\<rparr>))"

definition pd_create :: "statics \<Rightarrow> 'a kern_scheme \<Rightarrow> ((status + u64) \<times> 'a kern_scheme) option" where
  "pd_create C s = do {
     (r, s) \<leftarrow> kalloc (c_pd C) s;
     case r of None \<Rightarrow> Some (Inl INS_MEM, s) | Some x \<Rightarrow> Some (Inr x, pd_ctor C x s)
   }"

text \<open>
  The common end of the creation of an object: its capability with permissions \<open>prm\<close> is inserted, and if this fails the object is destroyed, which
  only returns its memory to the slab cache \<open>c\<close>.
\<close>

definition insert_or_destroy :: "u64 \<Rightarrow> u64 \<Rightarrow> u64 \<Rightarrow> u64 \<Rightarrow> u64 \<Rightarrow> 'a kern_scheme \<Rightarrow> ((status + u64) \<times> 'a kern_scheme) option" where
  "insert_or_destroy obj sel prm c x s = do {
     (sts, s) \<leftarrow> on_heap (so_insert obj sel (cap_make x prm)) s;
     if sts = SUCCESS then Some (Inr x, s) else do { s \<leftarrow> kfree c x s; Some (Inl sts, s) }
   }"

definition create_obj :: "u64 \<Rightarrow> u64 \<Rightarrow> u64 \<Rightarrow> 'a kern_scheme \<Rightarrow> ((status + u64) \<times> 'a kern_scheme) option" where
  "create_obj this obj sel s = do {
     let (a, s) = pd_attach Subtype_OBJ this s;
     if \<not> a then Some (Inl ABORTED, s)
     else do {
       (r, s) \<leftarrow> space_obj_create this s;
       (r, s) \<leftarrow> (case r of Inl e \<Rightarrow> Some (Inl e, s) | Inr x \<Rightarrow> insert_or_destroy obj sel (sp_bits SP_DEFINED_OBJ) (obj_cache this) x s);
       case r of Inl e \<Rightarrow> Some (Inl e, pd_detach Subtype_OBJ this s) | Inr x \<Rightarrow> Some (Inr x, upd_pd this (\<lambda>p. p\<lparr>space_obj := x\<rparr>) s)
     }
   }"

definition create_hst :: "platform \<Rightarrow> u64 \<Rightarrow> u64 \<Rightarrow> u64 \<Rightarrow> 'a kern_scheme \<Rightarrow> ((status + u64) \<times> 'a kern_scheme) option" where
  "create_hst P this obj sel s = do {
     let (a, s) = pd_attach Subtype_HST this s;
     if \<not> a then Some (Inl ABORTED, s)
     else do {
       (r, s) \<leftarrow> space_mem_create P Hpt Subtype_HST (hst_cache this) this s;
       (r, s) \<leftarrow> (case r of Inl e \<Rightarrow> Some (Inl e, s) | Inr x \<Rightarrow> insert_or_destroy obj sel (sp_bits SP_DEFINED_HST) (hst_cache this) x s);
       case r of Inl e \<Rightarrow> Some (Inl e, pd_detach Subtype_HST this s) | Inr x \<Rightarrow> Some (Inr x, upd_pd this (\<lambda>p. p\<lparr>space_hst := x\<rparr>) s)
     }
   }"

definition create_gst :: "platform \<Rightarrow> statics \<Rightarrow> u64 \<Rightarrow> u64 \<Rightarrow> u64 \<Rightarrow> 'a kern_scheme \<Rightarrow> ((status + u64) \<times> 'a kern_scheme) option" where
  "create_gst P C this obj sel s = do {
     (r, s) \<leftarrow> space_mem_create P (Ept (mbec C)) Subtype_GST (gst_cache this) this s;
     case r of Inl e \<Rightarrow> Some (Inl e, s) | Inr x \<Rightarrow> insert_or_destroy obj sel (sp_bits SP_DEFINED_GST) (gst_cache this) x s
   }"

definition create_dma :: "platform \<Rightarrow> u64 \<Rightarrow> u64 \<Rightarrow> u64 \<Rightarrow> 'a kern_scheme \<Rightarrow> ((status + u64) \<times> 'a kern_scheme) option" where
  "create_dma P this obj sel s = do {
     (r, s) \<leftarrow> space_mem_create P Dpt Subtype_DMA (dma_cache this) this s;
     case r of Inl e \<Rightarrow> Some (Inl e, s) | Inr x \<Rightarrow> insert_or_destroy obj sel (sp_bits SP_DEFINED_DMA) (dma_cache this) x s
   }"

definition create_pio :: "platform \<Rightarrow> statics \<Rightarrow> u64 \<Rightarrow> u64 \<Rightarrow> u64 \<Rightarrow> 'a kern_scheme \<Rightarrow> ((status + u64) \<times> 'a kern_scheme) option" where
  "create_pio P C this obj sel s = do {
     let (a, s) = pd_attach Subtype_PIO this s;
     (r, s) \<leftarrow> space_pio_create P C this a s;
     (r, s) \<leftarrow> (case r of Inl e \<Rightarrow> Some (Inl e, s) | Inr x \<Rightarrow> insert_or_destroy obj sel (sp_bits SP_DEFINED_PIO) (pio_cache this) x s);
     case r of
       Inl e \<Rightarrow> Some (Inl e, if a then pd_detach Subtype_PIO this s else s)
     | Inr x \<Rightarrow> Some (Inr x, if a then upd_pd this (\<lambda>p. p\<lparr>space_pio := x\<rparr>) s else s)
   }"

definition create_msr :: "u64 \<Rightarrow> u64 \<Rightarrow> u64 \<Rightarrow> 'a kern_scheme \<Rightarrow> ((status + u64) \<times> 'a kern_scheme) option" where
  "create_msr this obj sel s = do {
     (r, s) \<leftarrow> space_msr_create this s;
     case r of Inl e \<Rightarrow> Some (Inl e, s) | Inr x \<Rightarrow> insert_or_destroy obj sel (sp_bits SP_DEFINED_MSR) (msr_cache this) x s
   }"

definition create_pd :: "statics \<Rightarrow> u64 \<Rightarrow> u64 \<Rightarrow> u64 \<Rightarrow> 'a kern_scheme \<Rightarrow> ((status + u64) \<times> 'a kern_scheme) option" where
  "create_pd C obj sel prm s = do {
     (r, s) \<leftarrow> pd_create C s;
     case r of Inl e \<Rightarrow> Some (Inl e, s) | Inr x \<Rightarrow> insert_or_destroy obj sel prm (c_pd C) x s
   }"

section \<open>Execution contexts\<close>

text \<open>\<^verbatim>\<open>Space_hst::init\<close>: on the first use on a core, the page table for this core shares the tables of the kernel.\<close>

definition share_from_master :: "platform \<Rightarrow> statics \<Rightarrow> u64 \<Rightarrow> 'a tables_scheme \<Rightarrow> 'a tables_scheme option" where
  "share_from_master P C pt s = foldM (\<lambda>i s. map_option snd (hptp_share_from (p_off P) pt (master C) (LINK_ADDR + of_nat i * 2 ^ 21) MMAP_CPU s)) [0..<384] s"

definition hst_init :: "platform \<Rightarrow> statics \<Rightarrow> u64 \<Rightarrow> nat \<Rightarrow> 'a kern_scheme \<Rightarrow> 'a kern_scheme option" where
  "hst_init P C hst c s =
     (if sp_cpus (spcs s hst) AND BITN (c mod 64) \<noteq> 0 then Some s
      else do {
        let s = set_space hst ((spcs s hst)\<lparr>sp_cpus := sp_cpus (spcs s hst) OR BITN (c mod 64)\<rparr>) s;
        (_, h) \<leftarrow> hptp_share_from (p_off P) (hst_loc hst c) (hst_loc (nova_hst C) c) MMAP_CPU MMAP_SPC (heap s);
        h \<leftarrow> share_from_master P C (hst_loc hst c) h;
        Some (s\<lparr>heap := h\<rparr>)
      })"

definition get_ptab :: "platform \<Rightarrow> u64 \<Rightarrow> nat \<Rightarrow> 'a kern_scheme \<Rightarrow> (walk_result \<times> 'a kern_scheme) option" where
  "get_ptab P hst c s = on_heap (root_init Hpt (p_off P) (hst_loc hst c) 3) s"

text \<open>The state that the constructors of an EC share: registers with their initial values, no partners, no pending timeout.\<close>

definition ec_new :: "u64 \<Rightarrow> u64 \<Rightarrow> u64 \<Rightarrow> u64 \<Rightarrow> u64 \<Rightarrow> u64 \<Rightarrow> nat \<Rightarrow> u64 \<Rightarrow> u32 \<Rightarrow> cont \<Rightarrow> ec" where
  "ec_new obj hst pio v f u c e h x =
     \<lparr>regs = regs0\<lparr>vmcb := v, r_obj := obj, r_hst := hst, r_pio := pio, r_hazard := h\<rparr>, evt = e, ec_cpu = c, fpu = f, utcb = u, callee = 0, caller = 0, cont = x,
      tmo_sm = 0, ec_queue = [], ec_linked = False\<rparr>"

definition set_ec :: "u64 \<Rightarrow> subtype \<Rightarrow> ec \<Rightarrow> 'a kern_scheme \<Rightarrow> 'a kern_scheme" where
  "set_ec x k e s = upd_tmo x (\<lambda>_. \<lparr>t_time = 0, t_prev = 0, t_next = 0\<rparr>) (upd_ec x (\<lambda>_. e) (set_hdr x Type_EC k s))"

text \<open>A user thread: global with an SC of its own and a startup message, or local and waiting for calls.\<close>

definition ec_ctor_user :: "platform \<Rightarrow> statics \<Rightarrow> u64 \<Rightarrow> u64 \<Rightarrow> u64 \<Rightarrow> u64 \<Rightarrow> u64 \<Rightarrow> u64 \<Rightarrow> nat \<Rightarrow> u64 \<Rightarrow> bool \<Rightarrow> u64 \<Rightarrow> u64 \<Rightarrow> 'a kern_scheme \<Rightarrow> 'a kern_scheme option" where
  "ec_ctor_user P C x obj hst pio f u c e t a sp s = do {
     assert_that (obj \<noteq> 0 \<and> hst \<noteq> 0 \<and> pio \<noteq> 0 \<and> u \<noteq> 0);
     let s = set_ec x (if t then EC_GLOBAL else EC_LOCAL) (ec_new obj hst pio 0 f u c e 0 (if t then Send_msg Ret_exception else Cont_null)) s;
     let s = upd_exc x (\<lambda>r. (if t then r\<lparr>rsp := sp\<rparr> else r\<lparr>sys := (sys r)(R11 := sp)\<rparr>)\<lparr>vec := 32\<rparr>) s;
     s \<leftarrow> hst_init P C hst c s;
     (w, s) \<leftarrow> get_ptab P hst c s;
     assert_that (w \<noteq> Null);
     (_, s) \<leftarrow> on_heap (pt_update Hpt (p_off P) (lim_hst C) (ptab_of hst) a (ptr_to_phys (p_off P) u) 0 (Paging_K OR Paging_U OR Paging_W OR Paging_R) MEM_WB 0) s;
     Some s
   }"

definition fpu_new :: "statics \<Rightarrow> u64 \<Rightarrow> bool \<Rightarrow> 'a kern_scheme \<Rightarrow> (u64 \<times> 'a kern_scheme) option" where
  "fpu_new C pd want s =
     (if \<not> want then Some (0, s)
      else do {
        (r, s) \<leftarrow> kalloc (fpu_cache pd) s;
        case r of None \<Rightarrow> Some (0, s) | Some f \<Rightarrow> Some (f, s\<lparr>fpu_mem := (fpu_mem s)(f := fpu_init C)\<rparr>)
      })"

definition page_new :: "fill \<Rightarrow> 'a kern_scheme \<Rightarrow> (u64 \<times> 'a kern_scheme) option" where
  "page_new f s = do { (r, s) \<leftarrow> on_heap (buddy_alloc 0 f) s; Some (case r of None \<Rightarrow> 0 | Some p \<Rightarrow> p, s) }"

definition ec_create_user :: "platform \<Rightarrow> statics \<Rightarrow> u64 \<Rightarrow> bool \<Rightarrow> nat \<Rightarrow> u64 \<Rightarrow> bool \<Rightarrow> u64 \<Rightarrow> u64 \<Rightarrow> 'a kern_scheme \<Rightarrow> ((status + u64) \<times> 'a kern_scheme) option" where
  "ec_create_user P C pd want c e t a sp s = do {
     let obj = space_obj (pds s pd);
     let hst = space_hst (pds s pd);
     let pio = space_pio (pds s pd);
     if obj = 0 \<or> hst = 0 \<or> pio = 0 then Some (Inl ABORTED, s)
     else do {
       (f, s) \<leftarrow> fpu_new C pd want s;
       (u, s) \<leftarrow> page_new BITS0 s;
       (r, s) \<leftarrow> (if (\<not> want \<or> f \<noteq> 0) \<and> u \<noteq> 0 then kalloc (c_ec C) s else Some (None, s));
       case r of
         Some x \<Rightarrow> do { s \<leftarrow> ec_ctor_user P C x obj hst pio f u c e t a sp s; Some (Inr x, s) }
       | None \<Rightarrow> do {
           s \<leftarrow> pfree u s;
           s \<leftarrow> kfree (fpu_cache pd) f s;
           Some (Inl INS_MEM, s)
         }
     }
   }"

text \<open>
  Virtual CPUs. \<open>H\<close> is the state of the host that the constructor of the VMCS copies: control fields that depend on processor capabilities, and registers,
  of which some exist only with the corresponding feature.
\<close>

record vmx_host =
  vh_basic :: u64
  vh_pin :: u32
  vh_ent :: u32
  vh_exi_pri :: u32
  vh_exi_sec :: u64
  vh_cr0 :: u64
  vh_cr4 :: u64
  vh_pat :: "u64 option"
  vh_efer :: "u64 option"
  vh_cet :: "u64 option"
  vh_ssp :: "(u64 \<times> u64) option"
  vh_tss :: u64
  vh_gdt :: u64
  vh_idt :: u64
  vh_entry :: u64
  vh_pcid :: bool

definition vmcs_clear :: "u64 \<Rightarrow> 'a kern_scheme \<Rightarrow> 'a kern_scheme" where
  "vmcs_clear v s = (if vmcs_cur s = v then s\<lparr>vmcs_cur := 0\<rparr> else s)"

definition vmcs_init_fields :: "vmx_host \<Rightarrow> u64 \<Rightarrow> u64 \<Rightarrow> u16 \<Rightarrow> (encoding \<times> u64) list" where
  "vmcs_init_fields H sp0 cr3 vpid =
     [(VMCS_PF_ERROR_MASK, 0), (VMCS_PF_ERROR_MATCH, 0), (VMCS_CR3_TARGET_COUNT, 0), (VMCS_VMCS_LINK_PTR, - 1), (VMCS_VPID, ucast vpid),
      (VMCS_HOST_SEL_CS, 0x8), (VMCS_HOST_SEL_SS, 0x10), (VMCS_HOST_SEL_DS, 0), (VMCS_HOST_SEL_ES, 0), (VMCS_HOST_SEL_FS, 0), (VMCS_HOST_SEL_GS, 0), (VMCS_HOST_SEL_TR, 0x30)] @
     (case vh_pat H of None \<Rightarrow> [] | Some v \<Rightarrow> [(VMCS_HOST_PAT, v)]) @ (case vh_efer H of None \<Rightarrow> [] | Some v \<Rightarrow> [(VMCS_HOST_EFER, v)]) @
     (case vh_cet H of None \<Rightarrow> [] | Some v \<Rightarrow> [(VMCS_HOST_S_CET, v)]) @
     (case vh_ssp H of None \<Rightarrow> [] | Some (v, w) \<Rightarrow> [(VMCS_HOST_SSP, v), (VMCS_HOST_SSP_TABLE_ADDR, w)]) @
     [(VMCS_PIN_CONTROLS, ucast (vh_pin H)), (VMCS_ENT_CONTROLS, ucast (vh_ent H)), (VMCS_EXI_CONTROLS_PRI, ucast (vh_exi_pri H)), (VMCS_EXI_CONTROLS_SEC, vh_exi_sec H),
      (VMCS_EXI_MSR_ST_CNT, 0), (VMCS_EXI_MSR_LD_CNT, 0), (VMCS_ENT_MSR_LD_CNT, 0), (VMCS_HOST_CR3, cr3), (VMCS_HOST_CR0, vh_cr0 H OR CR0_TS), (VMCS_HOST_CR4, vh_cr4 H),
      (VMCS_HOST_BASE_TR, vh_tss H), (VMCS_HOST_BASE_GDTR, vh_gdt H), (VMCS_HOST_BASE_IDTR, vh_idt H), (VMCS_HOST_SYSENTER_CS, 0), (VMCS_HOST_SYSENTER_ESP, 0),
      (VMCS_HOST_SYSENTER_EIP, 0), (VMCS_HOST_RSP, sp0), (VMCS_HOST_RIP, vh_entry H)]"

definition vmcs_init :: "vmx_host \<Rightarrow> u64 \<Rightarrow> u64 \<Rightarrow> u64 \<Rightarrow> u16 \<Rightarrow> 'a kern_scheme \<Rightarrow> 'a kern_scheme" where
  "vmcs_init H v sp0 cr3 vpid s =
     (let s = vmcs_make_current v (vmcs_clear v s)
      in s\<lparr>vmcss := (vmcss s)(v := vmcs_puts (vmcs_init_fields H sp0 cr3 vpid) (vmcss s v))\<rparr>)"

definition vpid_alloc :: "nat \<Rightarrow> 'a kern_scheme \<Rightarrow> u16 \<times> 'a kern_scheme" where
  "vpid_alloc c s = (vpids s c + 1, s\<lparr>vpids := (vpids s)(c := vpids s c + 1)\<rparr>)"

text \<open>The general-purpose registers end 160 bytes into an EC.\<close>

definition vmx_vcpu_fields :: "vmx_caps \<Rightarrow> exc_regs \<Rightarrow> vmcs \<Rightarrow> vmcs" where
  "vmx_vcpu_fields T e m = vmx_set_cpu_sec T 0 (vmx_set_cpu_pri T 0 (vmx_set_bmp_exc e (vmx_set_msk_cr4 T e (vmx_set_msk_cr0 T e m))))"

definition ec_ctor_vmx :: "platform \<Rightarrow> statics \<Rightarrow> vmx_host \<Rightarrow> u64 \<Rightarrow> u64 \<Rightarrow> u64 \<Rightarrow> u64 \<Rightarrow> u64 \<Rightarrow> nat \<Rightarrow> u64 \<Rightarrow> bool \<Rightarrow> 'a kern_scheme \<Rightarrow> 'a kern_scheme option" where
  "ec_ctor_vmx P C H x obj hst f v c e t s = do {
     assert_that (obj \<noteq> 0 \<and> hst \<noteq> 0 \<and> v \<noteq> 0);
     let s = set_ec x (if t then EC_VCPU_OFFS else EC_VCPU_REAL) (ec_new obj hst 0 v f 0 c e HZD_ILLEGAL (Send_msg Ret_vmx)) s;
     s \<leftarrow> hst_init P C hst c s;
     (w, s) \<leftarrow> get_ptab P hst c s;
     cr3 \<leftarrow> (case w of Slot (Word p) \<Rightarrow> Some (ptr_to_phys (p_off P) p) | _ \<Rightarrow> None);
     let (vpid, s) = vpid_alloc c s;
     let s = vmcs_init H v (x + 160) (cr3 OR (if vh_pcid H then ucast (sp_pcid (spcs s hst) AND mask 12) else 0)) vpid s;
     assert_that (vmcs_cur s = v);
     let s = upd_exc x (\<lambda>r. r\<lparr>offset_tsc := 0, intcpt_cr0 := 0, intcpt_cr4 := 0, intcpt_exc := 0, fpu_on := False\<rparr>) s;
     let s = s\<lparr>vmcss := (vmcss s)(v := vmx_vcpu_fields (p_caps P) (exc (regs (ecs s x))) (vmcss s v))\<rparr>;
     let s = vmcs_clear v s;
     Some (upd_exc x (\<lambda>r. r\<lparr>vec := 256\<rparr>) s)
   }"

definition ec_ctor_svm :: "u64 \<Rightarrow> u64 \<Rightarrow> u64 \<Rightarrow> u64 \<Rightarrow> u64 \<Rightarrow> nat \<Rightarrow> u64 \<Rightarrow> bool \<Rightarrow> 'a kern_scheme \<Rightarrow> 'a kern_scheme option" where
  "ec_ctor_svm x obj hst f v c e t s = do {
     assert_that (obj \<noteq> 0 \<and> hst \<noteq> 0 \<and> v \<noteq> 0);
     let s = set_ec x (if t then EC_VCPU_OFFS else EC_VCPU_REAL) (ec_new obj hst 0 v f 0 c e HZD_ILLEGAL (Send_msg Ret_svm)) s;
     let s = upd_exc x (\<lambda>r. r\<lparr>offset_tsc := 0, intcpt_cr0 := 0, intcpt_cr4 := 0, intcpt_exc := 0, fpu_on := False\<rparr>) s;
     let r = exc (regs (ecs s x));
     let s = s\<lparr>heap := (heap s)\<lparr>mem := svm_set_cpu_sec v 0 (svm_set_cpu_pri v r 0 (svm_set_bmp_exc v r (mem (heap s))))\<rparr>\<rparr>;
     Some (upd_exc x (\<lambda>r. r\<lparr>vec := 256\<rparr>) s)
   }"

text \<open>\<^verbatim>\<open>new Vmcs\<close> stores the revision; \<^verbatim>\<open>new Vmcb\<close> executes VMSAVE, which stores segment and system-call state \<open>sv\<close> of the host in the page.\<close>

definition vmcs_new :: "vmx_host \<Rightarrow> 'a kern_scheme \<Rightarrow> (u64 \<times> 'a kern_scheme) option" where
  "vmcs_new H s = do {
     (v, s) \<leftarrow> page_new NONE s;
     Some (v, if v = 0 then s else s\<lparr>heap := (heap s)\<lparr>mem := (mem (heap s))(v := vh_basic H AND mask 32)\<rparr>\<rparr>)
   }"

definition ec_create_vcpu :: "platform \<Rightarrow> statics \<Rightarrow> vmx_host \<Rightarrow> (u64 \<Rightarrow> memory \<Rightarrow> memory) \<Rightarrow> u64 \<Rightarrow> bool \<Rightarrow> nat \<Rightarrow> u64 \<Rightarrow> bool \<Rightarrow> 'a kern_scheme \<Rightarrow>
    ((status + u64) \<times> 'a kern_scheme) option" where
  "ec_create_vcpu P C H sv pd want c e t s =
     (if \<not> p_vmx P \<and> \<not> p_svm P then Some (Inl BAD_FTR, s)
      else if space_obj (pds s pd) = 0 \<or> space_hst (pds s pd) = 0 then Some (Inl ABORTED, s)
      else do {
        let obj = space_obj (pds s pd);
        let hst = space_hst (pds s pd);
        (f, s) \<leftarrow> fpu_new C pd want s;
        (r, s) \<leftarrow> (if \<not> p_vmx P then Some (None, s)
          else do {
            (v, s) \<leftarrow> vmcs_new H s;
            (r, s) \<leftarrow> (if (\<not> want \<or> f \<noteq> 0) \<and> v \<noteq> 0 then kalloc (c_ec C) s else Some (None, s));
            case r of
              Some x \<Rightarrow> do { s \<leftarrow> ec_ctor_vmx P C H x obj hst f v c e t s; Some (Some x, s) }
            | None \<Rightarrow> do { s \<leftarrow> pfree v s; Some (None, s) }
          });
        (r, s) \<leftarrow> (if r \<noteq> None \<or> \<not> p_svm P then Some (r, s)
          else do {
            (v, s) \<leftarrow> page_new BITS0 s;
            let s = (if v = 0 then s else s\<lparr>heap := (heap s)\<lparr>mem := sv v (mem (heap s))\<rparr>\<rparr>);
            (r, s) \<leftarrow> (if (\<not> want \<or> f \<noteq> 0) \<and> v \<noteq> 0 then kalloc (c_ec C) s else Some (None, s));
            case r of
              Some x \<Rightarrow> do { s \<leftarrow> ec_ctor_svm x obj hst f v c e t s; Some (Some x, s) }
            | None \<Rightarrow> do { s \<leftarrow> pfree v s; Some (None, s) }
          });
        case r of
          Some x \<Rightarrow> Some (Inr x, s)
        | None \<Rightarrow> do { s \<leftarrow> kfree (fpu_cache pd) f s; Some (Inl INS_MEM, s) }
      })"

section \<open>Scheduling contexts, portals and semaphores\<close>

definition create_ec :: "platform \<Rightarrow> statics \<Rightarrow> vmx_host \<Rightarrow> (u64 \<Rightarrow> memory \<Rightarrow> memory) \<Rightarrow> u64 \<Rightarrow> u64 \<Rightarrow> u64 \<Rightarrow> nat \<Rightarrow> u64 \<Rightarrow> u64 \<Rightarrow> u64 \<Rightarrow> u64 \<Rightarrow>
    'a kern_scheme \<Rightarrow> ((status + u64) \<times> 'a kern_scheme) option" where
  "create_ec P C H sv obj sel pd c ut sp eb flg s = do {
     (r, s) \<leftarrow> (if flg AND 2 \<noteq> 0 then ec_create_vcpu P C H sv pd (flg AND 4 \<noteq> 0) c eb (flg AND 1 \<noteq> 0) s
       else ec_create_user P C pd (flg AND 4 \<noteq> 0) c eb (flg AND 1 \<noteq> 0) ut sp s);
     case r of Inl e \<Rightarrow> Some (Inl e, s) | Inr x \<Rightarrow> insert_or_destroy obj sel (ec_bits EC_DEFINED) (c_ec C) x s
   }"

definition create_sc :: "platform \<Rightarrow> statics \<Rightarrow> u64 \<Rightarrow> u64 \<Rightarrow> u64 \<Rightarrow> nat \<Rightarrow> u16 \<Rightarrow> nat \<Rightarrow> u16 \<Rightarrow> 'a kern_scheme \<Rightarrow> ((status + u64) \<times> 'a kern_scheme) option" where
  "create_sc P C obj sel e c b p k s = do {
     (r, s) \<leftarrow> kalloc (c_sc C) s;
     case r of
       None \<Rightarrow> Some (Inl INS_MEM, s)
     | Some x \<Rightarrow> insert_or_destroy obj sel (sc_bits SC_DEFINED) (c_sc C) x (upd_sc x (\<lambda>_. sc_new (p_freq P) c e b p k) (set_hdr x Type_SC Subtype_NONE s))
   }"

definition pt_new :: "u64 \<Rightarrow> u64 \<Rightarrow> pt" where
  "pt_new e ip = \<lparr>pt_ec = e, pt_ip = ip, pt_id = 0, pt_mtd = 0\<rparr>"

definition create_pt :: "statics \<Rightarrow> u64 \<Rightarrow> u64 \<Rightarrow> u64 \<Rightarrow> u64 \<Rightarrow> 'a kern_scheme \<Rightarrow> ((status + u64) \<times> 'a kern_scheme) option" where
  "create_pt C obj sel e ip s = do {
     (r, s) \<leftarrow> kalloc (c_pt C) s;
     case r of
       None \<Rightarrow> Some (Inl INS_MEM, s)
     | Some x \<Rightarrow> insert_or_destroy obj sel (pt_bits PT_DEFINED) (c_pt C) x (upd_pt x (\<lambda>_. pt_new e ip) (set_hdr x Type_PT Subtype_NONE s))
   }"

definition create_sm :: "statics \<Rightarrow> u64 \<Rightarrow> u64 \<Rightarrow> u64 \<Rightarrow> u32 \<Rightarrow> 'a kern_scheme \<Rightarrow> ((status + u64) \<times> 'a kern_scheme) option" where
  "create_sm C obj sel n i s = do {
     (r, s) \<leftarrow> kalloc (c_sm C) s;
     case r of
       None \<Rightarrow> Some (Inl INS_MEM, s)
     | Some x \<Rightarrow> insert_or_destroy obj sel (sm_bits (if i = - 1 then SM_DEFINED else SM_DEFINED_INT)) (c_sm C) x (upd_sm x (\<lambda>_. sm_new n i) (set_hdr x Type_SM Subtype_NONE s))
   }"

end
