(* ===== verification/Nova_Rcu.thy ===== *)
theory Nova_Rcu
  imports Nova_Prelude
begin

text \<open>
  \<^verbatim>\<open>inc/x86_64/rcu.hpp\<close> and \<^verbatim>\<open>src/x86_64/rcu.cpp\<close>: read-copy-update. Callbacks of a core wait for a batch that starts after they have been submitted, and
  a batch is complete when every core has passed a quiescent state. The cores execute the operations concurrently; the step relation below interleaves them.
\<close>

section \<open>State and operations\<close>

text \<open>A callback is the address of its \<^verbatim>\<open>Rcu_elem\<close>; an \<^verbatim>\<open>Rcu_list\<close> is the list of its elements.\<close>

record rcu_core =
  l_batch :: u64
  c_batch :: u64
  r_next :: "u64 list"
  r_curr :: "u64 list"
  r_done :: "u64 list"

record rcu =
  r_count :: u64
  r_state :: u64
  r_core :: "nat \<Rightarrow> rcu_core"

definition RCU_CMP :: u64 where "RCU_CMP = 1"
definition RCU_PND :: u64 where "RCU_PND = 2"

definition rcu_batch :: "rcu \<Rightarrow> u64" where
  "rcu_batch r = drop_bit 2 (r_state r)"

definition rcu_complete :: "u64 \<Rightarrow> rcu \<Rightarrow> bool" where
  "rcu_complete b r \<longleftrightarrow> 0 <s (r_state r AND NOT RCU_PND) - push_bit 2 b"

definition upd_core :: "nat \<Rightarrow> (rcu_core \<Rightarrow> rcu_core) \<Rightarrow> rcu \<Rightarrow> rcu" where
  "upd_core c f r = r\<lparr>r_core := (r_core r)(c := f (r_core r c))\<rparr>"

definition rcu_call :: "nat \<Rightarrow> u64 \<Rightarrow> rcu \<Rightarrow> rcu" where
  "rcu_call c e r = upd_core c (\<lambda>x. x\<lparr>r_next := r_next x @ [e]\<rparr>) r"

text \<open>
  \<open>start_batch\<close> sets the flag \<open>f\<close> in the state unless the batch has changed, and the core that finds the other flag set and sets this one starts the next batch, for \<open>n\<close> cores.
  The compare-and-exchange loop ends with the value \<open>v\<close> that the state had before.
\<close>

definition start_batch :: "nat \<Rightarrow> nat \<Rightarrow> u64 \<Rightarrow> rcu \<Rightarrow> rcu" where
  "start_batch n c f r =
     (let v = r_state r; m = RCU_CMP OR RCU_PND
      in if drop_bit 2 v \<noteq> l_batch (r_core r c) then r
         else let r = (if v AND f = 0 then r\<lparr>r_state := v OR f\<rparr> else r)
              in if (v XOR NOT f) AND m \<noteq> 0 then r
                 else r\<lparr>r_count := of_nat n, r_state := r_state r + 1\<rparr>)"

definition rcu_quiet :: "nat \<Rightarrow> nat \<Rightarrow> rcu \<Rightarrow> rcu" where
  "rcu_quiet n c r =
     (let r = r\<lparr>r_count := r_count r - 1\<rparr>
      in if r_count r = 0 then start_batch n c RCU_CMP r else r)"

text \<open>
  \<open>update\<close> in two parts, between which other cores may run: the core looks at the current batch, which raises its RCU hazard if the batch is new, and then moves its callbacks on and returns those
  that \<open>invoke_batch\<close> calls.
\<close>

definition rcu_sync :: "nat \<Rightarrow> rcu \<Rightarrow> bool \<times> rcu" where
  "rcu_sync c r =
     (if l_batch (r_core r c) \<noteq> rcu_batch r then (True, upd_core c (\<lambda>x. x\<lparr>l_batch := rcu_batch r\<rparr>) r)
      else (False, r))"

definition rcu_retire :: "nat \<Rightarrow> rcu \<Rightarrow> rcu" where
  "rcu_retire c r =
     (if r_curr (r_core r c) \<noteq> [] \<and> rcu_complete (c_batch (r_core r c)) r
      then upd_core c (\<lambda>x. x\<lparr>r_done := r_done x @ r_curr x, r_curr := []\<rparr>) r
      else r)"

definition rcu_submit :: "nat \<Rightarrow> nat \<Rightarrow> rcu \<Rightarrow> rcu" where
  "rcu_submit n c r =
     (if r_curr (r_core r c) = [] \<and> r_next (r_core r c) \<noteq> []
      then start_batch n c RCU_PND (upd_core c (\<lambda>x. x\<lparr>r_curr := r_curr x @ r_next x, r_next := [], c_batch := l_batch x + 1\<rparr>) r)
      else r)"

definition rcu_invoke :: "nat \<Rightarrow> rcu \<Rightarrow> u64 list \<times> rcu" where
  "rcu_invoke c r = (r_done (r_core r c), upd_core c (\<lambda>x. x\<lparr>r_done := []\<rparr>) r)"

definition rcu_advance :: "nat \<Rightarrow> nat \<Rightarrow> rcu \<Rightarrow> u64 list \<times> rcu" where
  "rcu_advance n c r = rcu_invoke c (rcu_submit n c (rcu_retire c r))"

definition rcu_update :: "nat \<Rightarrow> nat \<Rightarrow> rcu \<Rightarrow> bool \<times> u64 list \<times> rcu" where
  "rcu_update n c r = (let (h, r) = rcu_sync c r; (es, r) = rcu_advance n c r in (h, es, r))"

definition rcu_init :: rcu where
  "rcu_init = \<lparr>r_count = 0, r_state = RCU_CMP, r_core = (\<lambda>_. \<lparr>l_batch = 0, c_batch = 0, r_next = [], r_curr = [], r_done = []\<rparr>)\<rparr>"

section \<open>Interleaved execution\<close>

text \<open>
  A system of \<open>n\<close> cores: the RCU state, the RCU hazards, and for each core whether it is between the two parts of \<open>update\<close>. For the specification, \<open>quiesced e\<close> records the cores that have passed
  a quiescent state since \<open>e\<close> was submitted, and \<open>called\<close> the callbacks that have been invoked together with this record.
\<close>

record rcu_sys =
  rcu_of :: rcu
  hzd :: "nat \<Rightarrow> bool"
  midway :: "nat \<Rightarrow> bool"
  quiesced :: "u64 \<Rightarrow> nat set"
  called :: "(u64 \<times> nat set) list"

definition pending :: "rcu \<Rightarrow> u64 set" where
  "pending r = (\<Union>c. set (r_next (r_core r c)) \<union> set (r_curr (r_core r c)) \<union> set (r_done (r_core r c)))"

inductive rcu_step :: "nat \<Rightarrow> rcu_sys \<Rightarrow> rcu_sys \<Rightarrow> bool" for n where
  call: "c < n \<Longrightarrow> \<not> midway s c \<Longrightarrow> e \<notin> pending (rcu_of s) \<Longrightarrow>
    rcu_step n s (s\<lparr>rcu_of := rcu_call c e (rcu_of s), quiesced := (quiesced s)(e := {})\<rparr>)"
| sync: "c < n \<Longrightarrow> \<not> midway s c \<Longrightarrow> rcu_sync c (rcu_of s) = (h, r) \<Longrightarrow>
    rcu_step n s (s\<lparr>rcu_of := r, hzd := (hzd s)(c := hzd s c \<or> h), midway := (midway s)(c := True)\<rparr>)"
| advance: "c < n \<Longrightarrow> midway s c \<Longrightarrow> rcu_advance n c (rcu_of s) = (es, r) \<Longrightarrow>
    rcu_step n s (s\<lparr>rcu_of := r, midway := (midway s)(c := False), called := called s @ map (\<lambda>e. (e, quiesced s e)) es\<rparr>)"
| quiet: "c < n \<Longrightarrow> \<not> midway s c \<Longrightarrow> hzd s c \<Longrightarrow>
    rcu_step n s (s\<lparr>rcu_of := rcu_quiet n c (rcu_of s), hzd := (hzd s)(c := False), quiesced := (\<lambda>e. insert c (quiesced s e))\<rparr>)"

definition rcu_boot :: rcu_sys where
  "rcu_boot = \<lparr>rcu_of = rcu_init, hzd = (\<lambda>_. False), midway = (\<lambda>_. False), quiesced = (\<lambda>_. {}), called = []\<rparr>"

inductive rcu_run :: "nat \<Rightarrow> nat \<Rightarrow> rcu_sys \<Rightarrow> bool" for n where
  boot: "rcu_run n 0 rcu_boot"
| step: "rcu_run n k s \<Longrightarrow> rcu_step n s s' \<Longrightarrow> rcu_run n (Suc k) s'"

section \<open>The state word\<close>

text \<open>The state is four times the number of the batch, plus the flags for a pending and a completed batch.\<close>

definition batch_no :: "rcu \<Rightarrow> nat" where
  "batch_no r = unat (r_state r) div 4"

definition cmp :: "rcu \<Rightarrow> bool" where
  "cmp r \<longleftrightarrow> odd (unat (r_state r))"

lemma u64_mod4: "v AND 3 = of_nat (unat (v :: u64) mod 4)"
proof -
  have "take_bit 2 v = (of_nat (take_bit 2 (unat v)) :: u64)" by (simp add: of_nat_take_bit)
  moreover have "take_bit 2 (unat v) = unat v mod 4" by (simp add: take_bit_eq_mod)
  moreover have "take_bit 2 v = v AND 3" by (simp add: take_bit_eq_mask mask_eq_exp_minus_1)
  ultimately show ?thesis by metis
qed

lemma or_disjoint: "v AND f = 0 \<Longrightarrow> v OR f = v + (f :: u64)"
  using word_plus_and_or [of v f] by simp

lemma flag_and: "v AND f = (v AND 3) AND f" if "f = 1 \<or> f = 2" for v f :: u64
proof -
  have "3 AND f = f" using that by auto
  then show ?thesis by (simp add: and.assoc)
qed

lemma flag_xor: "(v XOR NOT f) AND 3 = of_nat (unat v mod 4) XOR (NOT f AND 3)" for v f :: u64
proof -
  have "(v XOR NOT f) AND 3 = (v AND 3) XOR (NOT f AND 3)" by (rule bit.conj_xor_distrib2)
  then show ?thesis unfolding u64_mod4 .
qed

text \<open>The effect of \<^verbatim>\<open>start_batch\<close> on the state.\<close>

definition starts :: "u64 \<Rightarrow> u64 \<Rightarrow> bool" where
  "starts f v \<longleftrightarrow> (v XOR NOT f) AND (RCU_CMP OR RCU_PND) = 0"

definition flag_step :: "u64 \<Rightarrow> u64 \<Rightarrow> u64" where
  "flag_step f v = (if v AND f = 0 then v OR f else v) + (if starts f v then 1 else 0)"

lemma starts_iff: "starts RCU_CMP v \<longleftrightarrow> unat v mod 4 = 2" "starts RCU_PND v \<longleftrightarrow> unat v mod 4 = 1"
proof -
  have q: "unat v mod 4 = 0 \<or> unat v mod 4 = 1 \<or> unat v mod 4 = 2 \<or> unat v mod 4 = 3" by auto
  have m: "RCU_CMP OR RCU_PND = 3" by (simp add: RCU_CMP_def RCU_PND_def)
  show "starts RCU_CMP v \<longleftrightarrow> unat v mod 4 = 2" using q unfolding starts_def m flag_xor by (auto simp: RCU_CMP_def)
  show "starts RCU_PND v \<longleftrightarrow> unat v mod 4 = 1" using q unfolding starts_def m flag_xor by (auto simp: RCU_PND_def)
qed

lemma flag_step_CMP: "flag_step RCU_CMP v = v + of_nat (if unat v mod 4 = 0 then 1 else if unat v mod 4 = 2 then 2 else 0)"
proof -
  have q: "unat v mod 4 = 0 \<or> unat v mod 4 = 1 \<or> unat v mod 4 = 2 \<or> unat v mod 4 = 3" by auto
  have "v AND 1 = of_nat (unat v mod 4) AND 1" using flag_and [of 1 v] u64_mod4 [of v] by simp
  then show ?thesis using q or_disjoint [of v 1] unfolding flag_step_def starts_iff by (auto simp: RCU_CMP_def)
qed

lemma flag_step_PND: "flag_step RCU_PND v = v + of_nat (if unat v mod 4 = 0 then 2 else if unat v mod 4 = 1 then 3 else 0)"
proof -
  have q: "unat v mod 4 = 0 \<or> unat v mod 4 = 1 \<or> unat v mod 4 = 2 \<or> unat v mod 4 = 3" by auto
  have "v AND 2 = of_nat (unat v mod 4) AND 2" using flag_and [of 2 v] u64_mod4 [of v] by simp
  then show ?thesis using q or_disjoint [of v 2] unfolding flag_step_def starts_iff by (auto simp: RCU_PND_def)
qed

lemma unat_state_add:
  fixes v :: u64
  assumes "unat v < 2 ^ 62" "k \<le> 3"
  shows "unat (v + of_nat k) = unat v + k"
  using assms by (simp add: unat_word_ariths unat_of_nat)

lemma and_not_sub: "v AND NOT m = v - (v AND m)" for v m :: u64
proof -
  have "(v AND NOT m) AND (v AND m) = 0" "(v AND NOT m) OR (v AND m) = v" by (rule bit_word_eqI; auto simp: bit_and_iff bit_or_iff bit_not_iff)+
  then have "v = (v AND NOT m) + (v AND m)" using word_plus_and_or [of "v AND NOT m" "v AND m"] by simp
  then show ?thesis by (simp add: eq_diff_eq)
qed

lemma add_div_mod4:
  "m mod 4 = 0 \<Longrightarrow> Suc m div 4 = m div 4 \<and> even m" "m mod 4 = 0 \<Longrightarrow> (m + 2) div 4 = m div 4" "m mod 4 = 2 \<Longrightarrow> Suc (Suc m) div 4 = Suc (m div 4) \<and> even m"
  "m mod 4 = 1 \<Longrightarrow> (m + 3) div 4 = Suc (m div 4) \<and> odd m" for m :: nat
  by presburger+

text \<open>Completion, without wrap-around: a later batch has started, or this one has been completed.\<close>

lemma rcu_complete_iff:
  assumes "unat (r_state r) < 2 ^ 62" "unat b \<le> batch_no r + 1"
  shows "rcu_complete b r \<longleftrightarrow> unat b < batch_no r \<or> (unat b = batch_no r \<and> cmp r)"
proof -
  let ?v = "r_state r"
  let ?x = "?v AND NOT RCU_PND"
  have q: "unat ?v mod 4 = 0 \<or> unat ?v mod 4 = 1 \<or> unat ?v mod 4 = 2 \<or> unat ?v mod 4 = 3" by auto
  have "?v AND 2 = of_nat (unat ?v mod 4) AND 2" using flag_and [of 2 ?v] u64_mod4 [of ?v] by simp
  then have a: "unat (?v AND 2) = 2 * (unat ?v mod 4 div 2)" using q by auto
  have x': "unat ?x = unat ?v - 2 * (unat ?v mod 4 div 2)" unfolding RCU_PND_def and_not_sub using a unat_sub [OF word_and_le2 [of ?v 2]] by (simp only:)
  have d: "unat ?v = 4 * batch_no r + unat ?v mod 4" by (simp add: batch_no_def)
  have h: "unat ?v mod 4 - 2 * (unat ?v mod 4 div 2) = unat ?v mod 2" "2 * (unat ?v mod 4 div 2) \<le> unat ?v mod 4" using mod_mod_cancel [of 2 4 "unat ?v"] q by auto
  have "\<And>u b q g m x :: nat. u = b + q \<Longrightarrow> x = u - g \<Longrightarrow> q - g = m \<Longrightarrow> g \<le> q \<Longrightarrow> x = b + m" by linarith
  from this [OF d x' h] have x: "unat ?x = 4 * batch_no r + unat ?v mod 2" .
  have b: "unat (push_bit 2 b) = 4 * unat b" using assms by (simp add: push_bit_eq_mult unat_word_ariths batch_no_def)
  let ?i = "int (unat ?x) - int (unat (push_bit 2 b))"
  have "unat ?x < 2 ^ 63" "unat (push_bit 2 b) < 2 ^ 63" using assms d unfolding x b by simp_all
  moreover have "\<And>m k :: nat. m < 2 ^ 63 \<Longrightarrow> k < 2 ^ 63 \<Longrightarrow> - (2 ^ 63) \<le> int m - int k \<and> int m - int k < 2 ^ 63" by simp
  ultimately have "- (2 ^ 63) \<le> ?i" "?i < 2 ^ 63" by blast+
  then have "sint (word_of_int ?i :: u64) = ?i" unfolding sint_sbintrunc' by (intro signed_take_bit_int_eq_self) simp_all
  moreover have "?x - push_bit 2 b = word_of_int ?i" by simp
  ultimately have s: "sint (?x - push_bit 2 b) = ?i" by (simp only:)
  have "rcu_complete b r \<longleftrightarrow> unat (push_bit 2 b) < unat ?x" unfolding rcu_complete_def word_sless_alt s by (simp only: sint_0 diff_gt_0_iff_gt of_nat_less_iff)
  moreover have "unat ?v mod 2 = (if cmp r then 1 else 0)" by (simp add: cmp_def mod2_eq_if)
  ultimately show ?thesis unfolding x b by auto
qed

section \<open>Batches\<close>

text \<open>The two uses of \<open>start_batch\<close>: completing the current batch, and asking for another one.\<close>

lemma start_batch_eq:
  "start_batch n c f r = (if drop_bit 2 (r_state r) = l_batch (r_core r c)
     then r\<lparr>r_count := (if starts f (r_state r) then of_nat n else r_count r), r_state := flag_step f (r_state r)\<rparr> else r)"
  unfolding start_batch_def flag_step_def Let_def starts_def by simp

lemma start_batch_CMP:
  assumes "unat (r_state r) < 2 ^ 62" "unat (l_batch (r_core r c)) = batch_no r" "\<not> cmp r" and r': "r' = start_batch n c RCU_CMP r"
  shows "r_core r' = r_core r" "unat (r_state r) \<le> unat (r_state r')" "unat (r_state r') \<le> unat (r_state r) + 3"
    "batch_no r' = batch_no r \<and> cmp r' \<and> r_count r' = r_count r \<or> batch_no r' = Suc (batch_no r) \<and> \<not> cmp r' \<and> r_count r' = of_nat n"
proof -
  let ?v = "r_state r"
  have m: "unat ?v mod 4 = 0 \<or> unat ?v mod 4 = 2" using assms(3) unfolding cmp_def by presburger
  have l: "drop_bit 2 ?v = l_batch (r_core r c)" unfolding word_unat_eq_iff by (simp add: unat_drop_bit assms(2) batch_no_def)
  have st: "r_state r' = ?v + of_nat (if unat ?v mod 4 = 0 then 1 else 2)" "r_core r' = r_core r" "r_count r' = (if unat ?v mod 4 = 2 then of_nat n else r_count r)"
    using m l unfolding r' start_batch_eq starts_iff flag_step_CMP by auto
  have u: "unat (r_state r') = unat ?v + (if unat ?v mod 4 = 0 then 1 else 2)" unfolding st(1) by (rule unat_state_add [OF assms(1)]) simp
  show "r_core r' = r_core r" "unat (r_state r) \<le> unat (r_state r')" "unat (r_state r') \<le> unat (r_state r) + 3" using st u by simp_all
  show "batch_no r' = batch_no r \<and> cmp r' \<and> r_count r' = r_count r \<or> batch_no r' = Suc (batch_no r) \<and> \<not> cmp r' \<and> r_count r' = of_nat n"
    using m unfolding st(3) batch_no_def cmp_def u by (auto simp: add_div_mod4)
qed

lemma start_batch_PND:
  assumes "unat (r_state r) < 2 ^ 62" and r': "r' = start_batch n c RCU_PND r"
  shows "r_core r' = r_core r" "unat (r_state r) \<le> unat (r_state r')" "unat (r_state r') \<le> unat (r_state r) + 3"
    "batch_no r' = batch_no r \<and> cmp r' = cmp r \<and> r_count r' = r_count r \<or> cmp r \<and> batch_no r' = Suc (batch_no r) \<and> \<not> cmp r' \<and> r_count r' = of_nat n"
proof -
  let ?v = "r_state r"
  define k :: nat where k: "k = (if drop_bit 2 ?v \<noteq> l_batch (r_core r c) then 0 else if unat ?v mod 4 = 0 then 2 else if unat ?v mod 4 = 1 then 3 else 0)"
  have st: "r_state r' = ?v + of_nat k" "r_core r' = r_core r" "r_count r' = (if k = 3 then of_nat n else r_count r)"
    unfolding r' start_batch_eq starts_iff flag_step_PND k by auto
  have c: "k = 0 \<or> k = 2 \<and> unat ?v mod 4 = 0 \<or> k = 3 \<and> unat ?v mod 4 = 1" by (simp add: k)
  then have "k \<le> 3" by auto
  with assms(1) have u: "unat (r_state r') = unat ?v + k" unfolding st(1) by (rule unat_state_add)
  show "r_core r' = r_core r" "unat (r_state r) \<le> unat (r_state r')" "unat (r_state r') \<le> unat (r_state r) + 3" using st u \<open>k \<le> 3\<close> by simp_all
  have "k = 3 \<and> odd (unat ?v) \<and> (unat ?v + k) div 4 = Suc (unat ?v div 4) \<and> even (unat ?v + k) \<or>
    k \<noteq> 3 \<and> (unat ?v + k) div 4 = unat ?v div 4 \<and> even (unat ?v + k) = even (unat ?v)" using c by (auto simp: add_div_mod4)
  then show "batch_no r' = batch_no r \<and> cmp r' = cmp r \<and> r_count r' = r_count r \<or> cmp r \<and> batch_no r' = Suc (batch_no r) \<and> \<not> cmp r' \<and> r_count r' = of_nat n"
    unfolding st(3) batch_no_def cmp_def u by auto
qed

section \<open>Grace periods\<close>

text \<open>The cores that have not yet passed a quiescent state in the current batch.\<close>

definition waiting :: "nat \<Rightarrow> rcu_sys \<Rightarrow> nat set" where
  "waiting n s = {c. c < n \<and> (unat (l_batch (r_core (rcu_of s) c)) \<noteq> batch_no (rcu_of s) \<or> hzd s c)}"

text \<open>A callback that waits for batch \<open>k\<close>: the cores that are done with this batch have passed a quiescent state since it was submitted.\<close>

definition grace :: "nat \<Rightarrow> rcu_sys \<Rightarrow> nat \<Rightarrow> u64 \<Rightarrow> bool" where
  "grace n s k e \<longleftrightarrow> (\<forall>d<n. k < batch_no (rcu_of s) \<or> k = batch_no (rcu_of s) \<and> d \<notin> waiting n s \<longrightarrow> d \<in> quiesced s e)"

definition batch_inv :: "nat \<Rightarrow> rcu_sys \<Rightarrow> bool" where
  "batch_inv n s \<longleftrightarrow> (\<forall>c<n. unat (l_batch (r_core (rcu_of s) c)) = batch_no (rcu_of s) \<or> Suc (unat (l_batch (r_core (rcu_of s) c))) = batch_no (rcu_of s) \<and> \<not> hzd s c) \<and>
     (cmp (rcu_of s) \<longleftrightarrow> waiting n s = {}) \<and> (\<not> cmp (rcu_of s) \<longrightarrow> unat (r_count (rcu_of s)) = card (waiting n s))"

definition core_ok :: "nat \<Rightarrow> rcu_sys \<Rightarrow> bool \<Rightarrow> rcu_core \<Rightarrow> bool" where
  "core_ok n s m x \<longleftrightarrow> unat (l_batch x) \<le> batch_no (rcu_of s) \<and>
     (r_curr x \<noteq> [] \<longrightarrow> unat (c_batch x) \<le> batch_no (rcu_of s) + 1) \<and> (\<forall>e \<in> set (r_curr x). grace n s (unat (c_batch x)) e) \<and>
     (m \<longrightarrow> (\<forall>e \<in> set (r_next x). grace n s (Suc (unat (l_batch x))) e)) \<and> (\<forall>e \<in> set (r_done x). {..<n} \<subseteq> quiesced s e)"

definition list_inv :: "nat \<Rightarrow> rcu_sys \<Rightarrow> bool" where
  "list_inv n s \<longleftrightarrow> (\<forall>c. core_ok n s (midway s c) (r_core (rcu_of s) c))"

definition rcu_inv :: "nat \<Rightarrow> nat \<Rightarrow> rcu_sys \<Rightarrow> bool" where
  "rcu_inv n k s \<longleftrightarrow> unat (r_state (rcu_of s)) \<le> 1 + 4 * k \<and> batch_inv n s \<and> list_inv n s \<and> (\<forall>(e, q) \<in> set (called s). {..<n} \<subseteq> q)"

lemma core_ok_mono:
  assumes "core_ok n s m x" "batch_no (rcu_of s) \<le> batch_no (rcu_of s')"
    and "\<And>e k. e \<in> set (r_next x) \<union> set (r_curr x) \<union> set (r_done x) \<Longrightarrow> grace n s k e \<Longrightarrow> grace n s' k e"
    and "\<And>e. e \<in> set (r_done x) \<Longrightarrow> quiesced s e \<subseteq> quiesced s' e"
  shows "core_ok n s' m x"
  using assms unfolding core_ok_def by (meson UnCI le_trans add_le_mono1 order_trans)

lemma grace_same:
  assumes "grace n s k e" "batch_no (rcu_of s') = batch_no (rcu_of s)" "waiting n s \<subseteq> waiting n s'" "quiesced s e \<subseteq> quiesced s' e"
  shows "grace n s' k e"
  using assms unfolding grace_def by auto

text \<open>When a batch starts, all cores are done with the previous one and none with the new one.\<close>

lemma new_batch:
  assumes "waiting n s = {}" "list_inv n s" "0 < n" "n < 2 ^ 64"
    and r: "r_core (rcu_of s') = r_core (rcu_of s)" "batch_no (rcu_of s') = Suc (batch_no (rcu_of s))" "\<not> cmp (rcu_of s')" "r_count (rcu_of s') = of_nat n"
    and s': "hzd s' = hzd s" "midway s' = midway s" "quiesced s' = quiesced s"
  shows "batch_inv n s'" "list_inv n s'"
proof -
  have l: "unat (l_batch (r_core (rcu_of s) c)) = batch_no (rcu_of s) \<and> \<not> hzd s c" if "c < n" for c using assms(1) that by (auto simp: waiting_def)
  have w: "waiting n s' = {..<n}" using l by (auto simp: waiting_def r(1,2) s'(1))
  have "unat (of_nat n :: u64) = n" using assms(4) by (simp add: unat_of_nat)
  then show "batch_inv n s'" unfolding batch_inv_def w r(1,2,4) s' using l assms(3) r(3) by auto
  have g: "grace n s' k e" if "grace n s k e" for k e
    using that assms(1) unfolding grace_def w r(2) s'(3) by (metis empty_iff lessThan_iff less_Suc_eq n_not_Suc_n)
  show "list_inv n s'" unfolding list_inv_def r(1) s'(2)
    by (rule allI, rule core_ok_mono [of n s]) (use assms(2) g r(2) s'(3) in \<open>auto simp: list_inv_def\<close>)
qed

lemma called_ok: "list_inv n s \<Longrightarrow> e \<in> set (r_done (r_core (rcu_of s) c)) \<Longrightarrow> {..<n} \<subseteq> quiesced s e"
  unfolding list_inv_def core_ok_def by blast

section \<open>Preservation\<close>

lemma inv_call:
  assumes i: "rcu_inv n k s" and "\<not> midway s c" "e \<notin> pending (rcu_of s)" and s': "s' = s\<lparr>rcu_of := rcu_call c e (rcu_of s), quiesced := (quiesced s)(e := {})\<rparr>"
  shows "rcu_inv n (Suc k) s'"
proof -
  have st: "r_state (rcu_of s') = r_state (rcu_of s)" "r_count (rcu_of s') = r_count (rcu_of s)" "batch_no (rcu_of s') = batch_no (rcu_of s)" "cmp (rcu_of s') = cmp (rcu_of s)"
    "\<And>d. l_batch (r_core (rcu_of s') d) = l_batch (r_core (rcu_of s) d)" "hzd s' = hzd s" "midway s' = midway s" "called s' = called s"
    by (simp_all add: s' rcu_call_def upd_core_def batch_no_def cmp_def)
  have w: "waiting n s' = waiting n s" unfolding waiting_def st by simp
  have b: "batch_inv n s'" using i unfolding rcu_inv_def batch_inv_def w st by simp
  have q: "quiesced s' e' = quiesced s e'" if "e' \<noteq> e" for e' using that by (simp add: s')
  have g: "grace n s k' e' \<Longrightarrow> grace n s' k' e'" if "e' \<noteq> e" for k' e' by (erule grace_same) (simp_all add: w st(3) q [OF that])
  have "core_ok n s' (midway s' d) (r_core (rcu_of s') d)" for d
  proof -
    have o: "core_ok n s (midway s d) (r_core (rcu_of s) d)" using i by (simp add: rcu_inv_def list_inv_def)
    have "e' \<noteq> e" if "e' \<in> set (r_next (r_core (rcu_of s) d)) \<union> set (r_curr (r_core (rcu_of s) d)) \<union> set (r_done (r_core (rcu_of s) d))" for e'
      using that assms(3) unfolding pending_def by blast
    with core_ok_mono [OF o, of s'] g q st(3) have "core_ok n s' (midway s d) (r_core (rcu_of s) d)" by simp
    then show ?thesis using assms(2) unfolding core_ok_def st(7) by (cases "d = c") (simp_all add: s' rcu_call_def upd_core_def)
  qed
  then show ?thesis using i b by (simp add: rcu_inv_def list_inv_def st)
qed

lemma l_batch_same: "l_batch x = b \<Longrightarrow> x\<lparr>l_batch := b\<rparr> = x"
  by (cases x) simp

lemma inv_sync:
  assumes i: "rcu_inv n k s" and c: "c < n" "\<not> midway s c" and y: "rcu_sync c (rcu_of s) = (h, r)"
    and s': "s' = s\<lparr>rcu_of := r, hzd := (hzd s)(c := hzd s c \<or> h), midway := (midway s)(c := True)\<rparr>"
  shows "rcu_inv n (Suc k) s'"
proof -
  let ?b = "rcu_batch (rcu_of s)"
  have ub: "unat ?b = batch_no (rcu_of s)" by (simp add: rcu_batch_def batch_no_def unat_drop_bit)
  have "h \<longleftrightarrow> l_batch (r_core (rcu_of s) c) \<noteq> ?b" and r: "r = upd_core c (\<lambda>x. x\<lparr>l_batch := ?b\<rparr>) (rcu_of s)"
    using y unfolding rcu_sync_def by (auto simp: upd_core_def l_batch_same split: if_splits)
  then have h: "h \<longleftrightarrow> unat (l_batch (r_core (rcu_of s) c)) \<noteq> batch_no (rcu_of s)" unfolding word_unat_eq_iff ub by simp
  have st: "r_state (rcu_of s') = r_state (rcu_of s)" "r_count (rcu_of s') = r_count (rcu_of s)" "batch_no (rcu_of s') = batch_no (rcu_of s)" "cmp (rcu_of s') = cmp (rcu_of s)"
    "r_core (rcu_of s') = (r_core (rcu_of s))(c := (r_core (rcu_of s) c)\<lparr>l_batch := ?b\<rparr>)" "hzd s' = (hzd s)(c := hzd s c \<or> h)" "midway s' = (midway s)(c := True)"
    "called s' = called s" "quiesced s' = quiesced s" by (simp_all add: s' r upd_core_def batch_no_def cmp_def)
  have w: "waiting n s' = waiting n s" unfolding waiting_def st using ub h by auto
  have b: "batch_inv n s'" using i unfolding rcu_inv_def batch_inv_def w st using ub h by auto
  have g: "grace n s k' e' \<Longrightarrow> grace n s' k' e'" for k' e' by (erule grace_same) (simp_all add: w st(3,9))
  have "core_ok n s' (midway s' d) (r_core (rcu_of s') d)" for d
  proof -
    have o: "core_ok n s (midway s d) (r_core (rcu_of s) d)" using i by (simp add: rcu_inv_def list_inv_def)
    have o': "core_ok n s' (midway s d) (r_core (rcu_of s) d)" by (rule core_ok_mono [OF o]) (use g st(3,9) in auto)
    have "grace n s' (Suc (batch_no (rcu_of s))) e" for e by (simp add: grace_def st(3))
    then show ?thesis using o' unfolding core_ok_def st(3,5,7) by (cases "d = c") (simp_all add: ub)
  qed
  then show ?thesis using i b by (simp add: rcu_inv_def list_inv_def st(1,8))
qed

text \<open>The parts of \<open>advance\<close> that only move callbacks of one core.\<close>

lemma inv_move:
  assumes i: "batch_inv n s" "list_inv n s" and x: "core_ok n s (midway s' c) x" "l_batch x = l_batch (r_core (rcu_of s) c)"
    and b: "batch_no (rcu_of s') = batch_no (rcu_of s)" "cmp (rcu_of s') = cmp (rcu_of s)"
    and st: "r_count (rcu_of s') = r_count (rcu_of s)" "r_core (rcu_of s') = (r_core (rcu_of s))(c := x)" "hzd s' = hzd s" "\<And>d. d \<noteq> c \<Longrightarrow> midway s' d = midway s d" "quiesced s' = quiesced s"
  shows "batch_inv n s'" "list_inv n s'"
proof -
  have l: "l_batch (r_core (rcu_of s') d) = l_batch (r_core (rcu_of s) d)" for d using st(2) x(2) by simp
  have w: "waiting n s' = waiting n s" unfolding waiting_def l b st(3) by simp
  show "batch_inv n s'" using i(1) unfolding batch_inv_def w l b st(1,3) .
  have g: "grace n s k e \<Longrightarrow> grace n s' k e" for k e by (erule grace_same) (simp_all add: w b st(5))
  have m: "core_ok n s m y \<Longrightarrow> core_ok n s' m y" for m y by (erule core_ok_mono) (use g b st(5) in auto)
  show "list_inv n s'" unfolding list_inv_def
  proof
    fix d
    show "core_ok n s' (midway s' d) (r_core (rcu_of s') d)"
      using m [OF x(1)] m [of "midway s d" "r_core (rcu_of s) d"] i(2) st(2,4) by (cases "d = c") (auto simp: list_inv_def)
  qed
qed

lemma core_ok_retire:
  assumes "batch_inv n s" "core_ok n s m x" "unat (r_state (rcu_of s)) < 2 ^ 62" "r_curr x \<noteq> []" "rcu_complete (c_batch x) (rcu_of s)"
  shows "core_ok n s m (x\<lparr>r_done := r_done x @ r_curr x, r_curr := []\<rparr>)"
proof -
  have "unat (c_batch x) \<le> batch_no (rcu_of s) + 1" using assms(2,4) by (simp add: core_ok_def)
  from rcu_complete_iff [OF assms(3) this] assms(5) have "unat (c_batch x) < batch_no (rcu_of s) \<or> unat (c_batch x) = batch_no (rcu_of s) \<and> waiting n s = {}"
    using assms(1) unfolding batch_inv_def by blast
  then have "{..<n} \<subseteq> quiesced s e" if "e \<in> set (r_curr x)" for e using assms(2) that unfolding core_ok_def grace_def by blast
  then show ?thesis using assms(2) unfolding core_ok_def by auto
qed

lemma core_ok_submit:
  assumes "core_ok n s True x" "unat (r_state (rcu_of s)) < 2 ^ 62" "r_curr x = []"
  shows "core_ok n s False (x\<lparr>r_curr := r_curr x @ r_next x, r_next := [], c_batch := l_batch x + 1\<rparr>)"
proof -
  have l: "unat (l_batch x) \<le> batch_no (rcu_of s)" using assms(1) by (simp add: core_ok_def)
  then have "unat (l_batch x) < 2 ^ 62" using assms(2) by (simp add: batch_no_def)
  then have "unat (l_batch x + 1) = Suc (unat (l_batch x))" by (simp add: unat_word_ariths)
  then show ?thesis using assms(1,3) l unfolding core_ok_def by simp
qed

lemma core_ok_weaken: "core_ok n s True x \<Longrightarrow> core_ok n s m x"
  by (auto simp: core_ok_def)

lemma core_ok_invoke: "core_ok n s m x \<Longrightarrow> core_ok n s m (x\<lparr>r_done := []\<rparr>)"
  by (auto simp: core_ok_def)

lemma batch_eq: "r_state r' = r_state r \<Longrightarrow> batch_no r' = batch_no r \<and> cmp r' = cmp r"
  by (simp add: batch_no_def cmp_def)

lemma inv_retire:
  assumes i: "batch_inv n s" "list_inv n s" "unat (r_state (rcu_of s)) < 2 ^ 62" and s': "s' = s\<lparr>rcu_of := rcu_retire c (rcu_of s)\<rparr>"
  shows "batch_inv n s'" "list_inv n s'" "r_state (rcu_of s') = r_state (rcu_of s)"
proof -
  let ?x = "r_core (rcu_of s) c"
  have o: "core_ok n s (midway s c) ?x" using i(2) by (simp add: list_inv_def)
  define x where "x = (if r_curr ?x \<noteq> [] \<and> rcu_complete (c_batch ?x) (rcu_of s) then ?x\<lparr>r_done := r_done ?x @ r_curr ?x, r_curr := []\<rparr> else ?x)"
  have r: "r_core (rcu_of s') = (r_core (rcu_of s))(c := x)" "r_state (rcu_of s') = r_state (rcu_of s)" "r_count (rcu_of s') = r_count (rcu_of s)"
    by (simp_all add: s' x_def rcu_retire_def upd_core_def)
  have "core_ok n s (midway s c) x" using o core_ok_retire [OF i(1) o i(3)] by (simp add: x_def)
  moreover have "l_batch x = l_batch ?x" by (simp add: x_def)
  ultimately show "batch_inv n s'" "list_inv n s'" "r_state (rcu_of s') = r_state (rcu_of s)"
    using inv_move [OF i(1,2), where s' = s' and c = c and x = x] batch_eq [OF r(2)] r by (simp_all add: s')
qed

lemma inv_submit:
  assumes i: "batch_inv n s" "list_inv n s" "unat (r_state (rcu_of s)) < 2 ^ 62" "midway s c" "0 < n" "n < 2 ^ 64"
    and s': "s' = s\<lparr>rcu_of := rcu_submit n c (rcu_of s), midway := (midway s)(c := False)\<rparr>"
  shows "batch_inv n s'" "list_inv n s'" "unat (r_state (rcu_of s')) \<le> unat (r_state (rcu_of s)) + 3"
proof -
  let ?x = "r_core (rcu_of s) c"
  have o: "core_ok n s True ?x" using i(2,4) by (metis list_inv_def)
  have "batch_inv n s' \<and> list_inv n s' \<and> unat (r_state (rcu_of s')) \<le> unat (r_state (rcu_of s)) + 3"
  proof (cases "r_curr ?x = [] \<and> r_next ?x \<noteq> []")
    case False
    then have r: "rcu_of s' = rcu_of s" by (auto simp: s' rcu_submit_def)
    show ?thesis using inv_move [OF i(1,2) core_ok_weaken [OF o] refl, where s' = s'] r by (simp add: s')
  next
    case True
    let ?y = "?x\<lparr>r_curr := r_curr ?x @ r_next ?x, r_next := [], c_batch := l_batch ?x + 1\<rparr>"
    define s1 where s1: "s1 = s\<lparr>rcu_of := (rcu_of s)\<lparr>r_core := (r_core (rcu_of s))(c := ?y)\<rparr>, midway := (midway s)(c := False)\<rparr>"
    have f1: "r_state (rcu_of s1) = r_state (rcu_of s)" "r_core (rcu_of s1) = (r_core (rcu_of s))(c := ?y)" "r_count (rcu_of s1) = r_count (rcu_of s)" "hzd s1 = hzd s" "quiesced s1 = quiesced s"
      "midway s1 = (midway s)(c := False)" by (simp_all add: s1)
    have y: "core_ok n s (midway s1 c) ?y" "l_batch ?y = l_batch ?x" using core_ok_submit [OF o i(3)] True f1(6) by simp_all
    note b1 = batch_eq [OF f1(1), THEN conjunct1] batch_eq [OF f1(1), THEN conjunct2]
    have i1: "batch_inv n s1" "list_inv n s1" using inv_move [OF i(1,2) y b1 f1(3,2,4) _ f1(5)] f1(6) by simp_all
    have e: "rcu_of s' = start_batch n c RCU_PND (rcu_of s1)" using True by (simp add: s' s1 rcu_submit_def upd_core_def)
    have f: "hzd s' = hzd s1" "midway s' = midway s1" "quiesced s' = quiesced s1" by (simp_all add: s' s1)
    have u: "unat (r_state (rcu_of s1)) < 2 ^ 62" using i(3) f1(1) by simp
    note p = start_batch_PND [OF u e]
    from p(4) show ?thesis
    proof (elim disjE conjE)
      assume a: "batch_no (rcu_of s') = batch_no (rcu_of s1)" "cmp (rcu_of s') = cmp (rcu_of s1)" "r_count (rcu_of s') = r_count (rcu_of s1)"
      have "core_ok n s1 (midway s' c) (r_core (rcu_of s1) c)" using i1(2) f(2) by (simp add: list_inv_def)
      from inv_move [OF i1 this refl a(1,2,3) _ f(1) _ f(3)] f(2) p(1,3) f1(1) show ?thesis by simp
    next
      assume a: "cmp (rcu_of s1)" "batch_no (rcu_of s') = Suc (batch_no (rcu_of s1))" "\<not> cmp (rcu_of s')" "r_count (rcu_of s') = of_nat n"
      then have "waiting n s1 = {}" using i1(1) by (simp add: batch_inv_def)
      from new_batch [OF this i1(2) i(5,6) p(1) a(2-4) f] p(3) f1(1) show ?thesis by simp
    qed
  qed
  then show "batch_inv n s'" "list_inv n s'" "unat (r_state (rcu_of s')) \<le> unat (r_state (rcu_of s)) + 3" by simp_all
qed

lemma inv_advance:
  assumes i: "rcu_inv n k s" and c: "c < n" "midway s c" and n: "n < 2 ^ 64" "k < 2 ^ 59" and a: "rcu_advance n c (rcu_of s) = (es, r)"
    and s': "s' = s\<lparr>rcu_of := r, midway := (midway s)(c := False), called := called s @ map (\<lambda>e. (e, quiesced s e)) es\<rparr>"
  shows "rcu_inv n (Suc k) s'"
proof -
  have j: "batch_inv n s" "list_inv n s" "unat (r_state (rcu_of s)) < 2 ^ 62" "0 < n" using i c n by (auto simp: rcu_inv_def)
  define s1 where s1: "s1 = s\<lparr>rcu_of := rcu_retire c (rcu_of s)\<rparr>"
  note i1 = inv_retire [OF j(1-3) s1]
  define s2 where s2: "s2 = s1\<lparr>rcu_of := rcu_submit n c (rcu_of s1), midway := (midway s1)(c := False)\<rparr>"
  have m1: "midway s1 c" "unat (r_state (rcu_of s1)) < 2 ^ 62" using c j i1(3) by (simp_all add: s1)
  note i2 = inv_submit [OF i1(1,2) m1(2,1) j(4) n(1) s2]
  have es: "es = r_done (r_core (rcu_of s2) c)" and r: "r = upd_core c (\<lambda>x. x\<lparr>r_done := []\<rparr>) (rcu_of s2)"
    using a by (simp_all add: rcu_advance_def rcu_invoke_def s1 s2)
  have q: "quiesced s2 = quiesced s" "hzd s' = hzd s2" "midway s' = midway s2" "quiesced s' = quiesced s2" by (simp_all add: s' s2 s1)
  let ?x = "r_core (rcu_of s2) c"
  have f: "r_state (rcu_of s') = r_state (rcu_of s2)" "r_count (rcu_of s') = r_count (rcu_of s2)" "r_core (rcu_of s') = (r_core (rcu_of s2))(c := ?x\<lparr>r_done := []\<rparr>)"
    by (simp_all add: s' r upd_core_def)
  have x: "core_ok n s2 (midway s' c) (?x\<lparr>r_done := []\<rparr>)" "l_batch (?x\<lparr>r_done := []\<rparr>) = l_batch ?x"
    using i2(2) core_ok_invoke [of n s2 "midway s2 c" ?x] q(3) by (simp_all add: list_inv_def)
  note b = batch_eq [OF f(1), THEN conjunct1] batch_eq [OF f(1), THEN conjunct2]
  have i3: "batch_inv n s'" "list_inv n s'" using inv_move [OF i2(1,2) x b f(2,3) q(2) _ q(4)] q(3) by simp_all
  have "{..<n} \<subseteq> quiesced s e" if "e \<in> set es" for e using called_ok [OF i2(2), of e c] that unfolding es q(1) by simp
  then have "\<forall>(e, q) \<in> set (called s'). {..<n} \<subseteq> q" using i by (auto simp: s' rcu_inv_def)
  moreover have "unat (r_state (rcu_of s')) \<le> 1 + 4 * Suc k" using i i2(3) i1(3) f(1) by (simp add: rcu_inv_def)
  ultimately show ?thesis using i3 unfolding rcu_inv_def by blast
qed

lemma inv_quiet:
  assumes i: "rcu_inv n k s" and c: "c < n" "hzd s c" and n: "n < 2 ^ 64" "k < 2 ^ 59"
    and s': "s' = s\<lparr>rcu_of := rcu_quiet n c (rcu_of s), hzd := (hzd s)(c := False), quiesced := (\<lambda>e. insert c (quiesced s e))\<rparr>"
  shows "rcu_inv n (Suc k) s'"
proof -
  have j: "batch_inv n s" "list_inv n s" "unat (r_state (rcu_of s)) < 2 ^ 62" "0 < n" using i c n by (auto simp: rcu_inv_def)
  define s1 where s1: "s1 = s\<lparr>rcu_of := (rcu_of s)\<lparr>r_count := r_count (rcu_of s) - 1\<rparr>, hzd := (hzd s)(c := False), quiesced := (\<lambda>e. insert c (quiesced s e))\<rparr>"
  have f: "r_state (rcu_of s1) = r_state (rcu_of s)" "r_core (rcu_of s1) = r_core (rcu_of s)" "r_count (rcu_of s1) = r_count (rcu_of s) - 1" "hzd s1 = (hzd s)(c := False)"
    "midway s1 = midway s" "quiesced s1 = (\<lambda>e. insert c (quiesced s e))" by (simp_all add: s1)
  note b = batch_eq [OF f(1), THEN conjunct1] batch_eq [OF f(1), THEN conjunct2]
  have l: "unat (l_batch (r_core (rcu_of s) c)) = batch_no (rcu_of s)" using j(1) c by (auto simp: batch_inv_def)
  have w: "waiting n s1 = waiting n s - {c}" unfolding waiting_def f b using l by auto
  have wc: "c \<in> waiting n s" "finite (waiting n s)" using c by (auto simp: waiting_def)
  then have nc: "\<not> cmp (rcu_of s)" and cnt: "unat (r_count (rcu_of s)) = card (waiting n s)" using j(1) by (auto simp: batch_inv_def)
  have "unat (r_count (rcu_of s1)) = unat (r_count (rcu_of s)) - 1" unfolding f(3) using cnt wc by (intro unat_minus_one) (auto simp: card_gt_0_iff)
  then have c1: "unat (r_count (rcu_of s1)) = card (waiting n s1)" using cnt wc unfolding w by simp
  have l1: "\<forall>d<n. unat (l_batch (r_core (rcu_of s1) d)) = batch_no (rcu_of s1) \<or> Suc (unat (l_batch (r_core (rcu_of s1) d))) = batch_no (rcu_of s1) \<and> \<not> hzd s1 d"
    using j(1) unfolding batch_inv_def f b by auto
  have g: "grace n s m e \<Longrightarrow> grace n s1 m e" for m e unfolding grace_def w b f(6) by auto
  have i1: "list_inv n s1" unfolding list_inv_def f(2,5) by (rule allI, rule core_ok_mono [of n s]) (use j(2) g b f(6) in \<open>auto simp: list_inv_def\<close>)
  have q: "hzd s' = hzd s1" "midway s' = midway s1" "quiesced s' = quiesced s1" "called s' = called s" by (simp_all add: s' s1)
  have z: "r_count (rcu_of s1) = 0 \<longleftrightarrow> waiting n s1 = {}" using c1 wc(2) unfolding w by (metis card_0_eq finite_Diff unat_0 unat_eq_zero)
  have "batch_inv n s' \<and> list_inv n s' \<and> unat (r_state (rcu_of s')) \<le> unat (r_state (rcu_of s)) + 3"
  proof (cases "r_count (rcu_of s1) = 0")
    case False
    then have r: "rcu_of s' = rcu_of s1" by (simp add: s' s1 rcu_quiet_def)
    have w': "waiting n s' = waiting n s1" "\<And>m e. grace n s' m e = grace n s1 m e" unfolding grace_def waiting_def r q by simp_all
    have "batch_inv n s'" using l1 c1 z False nc unfolding batch_inv_def w' r q b by blast
    moreover have "list_inv n s'" using i1 unfolding list_inv_def core_ok_def w' r q .
    ultimately show ?thesis using f(1) r by simp
  next
    case True
    then have r: "rcu_of s' = start_batch n c RCU_CMP (rcu_of s1)" by (simp add: s' s1 rcu_quiet_def)
    have h: "unat (r_state (rcu_of s1)) < 2 ^ 62" "unat (l_batch (r_core (rcu_of s1) c)) = batch_no (rcu_of s1)" "\<not> cmp (rcu_of s1)" using j(3) f l b nc by simp_all
    note p = start_batch_CMP [OF h r]
    have e: "waiting n s1 = {}" using z True by simp
    from p(4) show ?thesis
    proof (elim disjE conjE)
      assume a: "batch_no (rcu_of s') = batch_no (rcu_of s1)" "cmp (rcu_of s')" "r_count (rcu_of s') = r_count (rcu_of s1)"
      have w': "waiting n s' = waiting n s1" "\<And>m e. grace n s' m e = grace n s1 m e" unfolding grace_def waiting_def p(1) a(1) q by simp_all
      have "batch_inv n s'" using l1 e a(2) unfolding batch_inv_def w' p(1) a(1) q by blast
      moreover have "list_inv n s'" using i1 unfolding list_inv_def core_ok_def w' p(1) a(1) q .
      ultimately show ?thesis using f(1) p(3) by simp
    next
      assume a: "batch_no (rcu_of s') = Suc (batch_no (rcu_of s1))" "\<not> cmp (rcu_of s')" "r_count (rcu_of s') = of_nat n"
      from new_batch [OF e i1 j(4) n(1) p(1) a q(1-3)] p(3) f(1) show ?thesis by simp
    qed
  qed
  then show ?thesis using i q(4) unfolding rcu_inv_def by auto
qed

lemma rcu_inv_run: "rcu_run n k s \<Longrightarrow> n < 2 ^ 64 \<Longrightarrow> k < 2 ^ 59 \<Longrightarrow> rcu_inv n k s"
proof (induction rule: rcu_run.induct)
  case boot
  have w: "waiting n rcu_boot = {}" by (simp add: waiting_def rcu_boot_def rcu_init_def batch_no_def RCU_CMP_def)
  then show ?case by (simp add: rcu_inv_def batch_inv_def list_inv_def core_ok_def w) (simp add: rcu_boot_def rcu_init_def batch_no_def cmp_def RCU_CMP_def)
next
  case (step k s s')
  then have i: "rcu_inv n k s" and k: "k < 2 ^ 59" by auto
  from step(2) show ?case
  proof cases
    case (call c e)
    then show ?thesis using inv_call [OF i] by blast
  next
    case (sync c h r)
    then show ?thesis using inv_sync [OF i] by blast
  next
    case (advance c es r)
    then show ?thesis using inv_advance [OF i _ _ step.prems(1) k] by blast
  next
    case (quiet c)
    then show ?thesis using inv_quiet [OF i _ _ step.prems(1) k] by blast
  qed
qed


text \<open>The steps of a core other than \<open>call\<close>, as functions.\<close>

datatype rcu_act = Sync nat | Advance nat | Quiet nat

fun rcu_do :: "nat \<Rightarrow> rcu_act \<Rightarrow> rcu_sys \<Rightarrow> rcu_sys option" where
  "rcu_do n (Sync c) s = (if c < n \<and> \<not> midway s c
     then let (h, r) = rcu_sync c (rcu_of s) in Some (s\<lparr>rcu_of := r, hzd := (hzd s)(c := hzd s c \<or> h), midway := (midway s)(c := True)\<rparr>) else None)"
| "rcu_do n (Advance c) s = (if c < n \<and> midway s c
     then let (es, r) = rcu_advance n c (rcu_of s)
       in Some (s\<lparr>rcu_of := r, midway := (midway s)(c := False), called := called s @ map (\<lambda>e. (e, quiesced s e)) es\<rparr>) else None)"
| "rcu_do n (Quiet c) s = (if c < n \<and> \<not> midway s c \<and> hzd s c
     then Some (s\<lparr>rcu_of := rcu_quiet n c (rcu_of s), hzd := (hzd s)(c := False), quiesced := (\<lambda>e. insert c (quiesced s e))\<rparr>) else None)"

lemma rcu_do_step: "rcu_do n a s = Some s' \<Longrightarrow> rcu_step n s s'"
  by (cases a) (auto simp: Let_def split: prod.splits if_splits intro: rcu_step.intros)

lemma rcu_do_run: "rcu_run n k s \<Longrightarrow> foldM (rcu_do n) as s = Some s' \<Longrightarrow> rcu_run n (k + length as) s'"
proof (induction as arbitrary: k s)
  case (Cons a as)
  then obtain s1 where "rcu_do n a s = Some s1" "foldM (rcu_do n) as s1 = Some s'" by (auto simp: bind_eq_Some_conv)
  with Cons.IH [of "Suc k" s1] Cons.prems(1) show ?case by (auto intro: rcu_run.step rcu_do_step)
qed simp

definition rcu_demo :: rcu_sys where
  "rcu_demo = rcu_boot\<lparr>rcu_of := rcu_call 0 0x1000 rcu_init\<rparr>"


end
