(* ===== verification/Nova_Cos.thy ===== *)
theory Nova_Cos
  imports Nova_Capability
begin

text \<open>
  \<^verbatim>\<open>inc/x86_64/cos.hpp\<close> and \<^verbatim>\<open>src/x86_64/cos.cpp\<close>: classes of service, which partition caches and memory bandwidth between scheduling contexts. The state holds what the
  processor supports, the configuration of the core and the model-specific registers that are written.
\<close>

section \<open>State\<close>

record cos_state =
  cos_config :: u8
  supcfg :: u8
  cos_l3 :: u8
  cos_l2 :: u8
  cos_mb :: u8
  hcb_l3 :: u8
  hcb_l2 :: u8
  del_mb :: u16
  cos_current :: u16
  msr_l3_qos :: "u64 option"
  msr_l2_qos :: "u64 option"
  msr_l3_mask :: "nat \<Rightarrow> u32"
  msr_l2_mask :: "nat \<Rightarrow> u32"
  msr_mb_thrt :: "nat \<Rightarrow> u16"
  msr_pqr :: u64

definition COS_LOCKED :: u8 where "COS_LOCKED = 1"
definition COS_CDP_L3 :: u8 where "COS_CDP_L3 = 2"
definition COS_CDP_L2 :: u8 where "COS_CDP_L2 = 4"

section \<open>Registers\<close>

definition set_cos :: "u16 \<Rightarrow> cos_state \<Rightarrow> cos_state" where
  "set_cos c s = s\<lparr>msr_pqr := push_bit 32 (ucast c)\<rparr>"

definition set_l3_mask :: "nat \<Rightarrow> u32 \<Rightarrow> cos_state \<Rightarrow> cos_state" where
  "set_l3_mask n v s = s\<lparr>msr_l3_mask := (msr_l3_mask s)(n := v)\<rparr>"

definition set_l2_mask :: "nat \<Rightarrow> u32 \<Rightarrow> cos_state \<Rightarrow> cos_state" where
  "set_l2_mask n v s = s\<lparr>msr_l2_mask := (msr_l2_mask s)(n := v)\<rparr>"

definition set_mb_thrt :: "nat \<Rightarrow> u16 \<Rightarrow> cos_state \<Rightarrow> cos_state" where
  "set_mb_thrt n v s = s\<lparr>msr_mb_thrt := (msr_mb_thrt s)(n := v)\<rparr>"

definition set_qos_cfg :: "u8 \<Rightarrow> cos_state \<Rightarrow> cos_state" where
  "set_qos_cfg c s =
     (let s = (if supcfg s AND COS_CDP_L3 \<noteq> 0 then s\<lparr>msr_l3_qos := Some (if c AND COS_CDP_L3 \<noteq> 0 then 1 else 0)\<rparr> else s)
      in if supcfg s AND COS_CDP_L2 \<noteq> 0 then s\<lparr>msr_l2_qos := Some (if c AND COS_CDP_L2 \<noteq> 0 then 1 else 0)\<rparr> else s)"

section \<open>Operations\<close>

definition valid_cbm :: "u32 \<Rightarrow> nat \<Rightarrow> bool" where
  "valid_cbm cbm hcb =
     (if cbm = 0 \<or> cbm > BIT_RANGE hcb 0 then False
      else let c = drop_bit (nat (bit_scan_forward (ucast cbm))) cbm in c AND (c + 1) = 0)"

definition valid_cos :: "u16 \<Rightarrow> cos_state \<Rightarrow> bool" where
  "valid_cos c s =
     (let l3 = drop_bit (if cos_config s AND COS_CDP_L3 \<noteq> 0 then 1 else 0) (cos_l3 s);
          l2 = drop_bit (if cos_config s AND COS_CDP_L2 \<noteq> 0 then 1 else 0) (cos_l2 s);
          k = 1 :: u16;
          k = (if cos_config s \<noteq> 0 then max (max (max k (ucast l3)) (ucast l2)) (ucast (cos_mb s)) else k)
      in c < k)"

definition cos_make_current :: "u16 \<Rightarrow> cos_state \<Rightarrow> cos_state" where
  "cos_make_current c s = (if cos_current s \<noteq> c then set_cos c (s\<lparr>cos_current := c\<rparr>) else s)"

definition cfg_qos :: "u8 \<Rightarrow> cos_state \<Rightarrow> status \<times> cos_state" where
  "cfg_qos c s =
     (if cos_config s \<noteq> 0 then (ABORTED, s)
      else if supcfg s AND c \<noteq> c then (BAD_PAR, s)
      else (SUCCESS, set_qos_cfg (c OR COS_LOCKED) (s\<lparr>cos_config := c OR COS_LOCKED\<rparr>)))"

definition cfg_l3_mask :: "u16 \<Rightarrow> u32 \<Rightarrow> cos_state \<Rightarrow> status \<times> cos_state" where
  "cfg_l3_mask n cbm s =
     (if cos_config s = 0 then (ABORTED, s)
      else if n \<ge> ucast (cos_l3 s) \<or> \<not> valid_cbm cbm (unat (hcb_l3 s)) then (BAD_PAR, s)
      else (SUCCESS, set_l3_mask (unat n) cbm s))"

definition cfg_l2_mask :: "u16 \<Rightarrow> u32 \<Rightarrow> cos_state \<Rightarrow> status \<times> cos_state" where
  "cfg_l2_mask n cbm s =
     (if cos_config s = 0 then (ABORTED, s)
      else if n \<ge> ucast (cos_l2 s) \<or> \<not> valid_cbm cbm (unat (hcb_l2 s)) then (BAD_PAR, s)
      else (SUCCESS, set_l2_mask (unat n) cbm s))"

definition cfg_mb_thrt :: "u16 \<Rightarrow> u16 \<Rightarrow> cos_state \<Rightarrow> status \<times> cos_state" where
  "cfg_mb_thrt n d s =
     (if cos_config s = 0 then (ABORTED, s)
      else if n \<ge> ucast (cos_mb s) \<or> d > del_mb s then (BAD_PAR, s)
      else (SUCCESS, set_mb_thrt (unat n) d s))"

definition cos_init :: "bool \<Rightarrow> cos_state \<Rightarrow> cos_state" where
  "cos_init rdt s =
     (if \<not> rdt then s
      else let s = fold (\<lambda>i. set_l3_mask i (BIT_RANGE (unat (hcb_l3 s)) 0)) [0..<unat (cos_l3 s)] s;
               s = fold (\<lambda>i. set_l2_mask i (BIT_RANGE (unat (hcb_l2 s)) 0)) [0..<unat (cos_l2 s)] s;
               s = fold (\<lambda>i. set_mb_thrt i 0) [0..<unat (cos_mb s)] s
           in set_cos (cos_current s) (set_qos_cfg (cos_config s) s))"

section \<open>Capacity bitmasks\<close>

lemma nat_and_Suc: "(n :: nat) AND Suc n = 0 \<Longrightarrow> \<exists>m. n = 2 ^ m - 1"
proof (induction n rule: less_induct)
  case (less n)
  show ?case
  proof (cases "even n")
    case True
    then obtain d where d: "n = 2 * d" by (rule evenE)
    have "n AND Suc n = n" unfolding d by (subst and_rec) simp
    then show ?thesis using less.prems by (intro exI [of _ 0]) simp
  next
    case False
    then obtain d where d: "n = Suc (2 * d)" by (metis oddE Suc_eq_plus1)
    have "n AND Suc n = 2 * (d AND Suc d)" unfolding d by (subst and_rec) simp
    then have "d AND Suc d = 0" using less.prems by simp
    with less.IH [of d] d obtain m where "d = 2 ^ m - 1" by auto
    then have "Suc d = 2 ^ m" by simp
    then have "Suc n = 2 ^ Suc m" using d by simp
    then have "n = 2 ^ Suc m - 1" by (metis diff_Suc_1)
    then show ?thesis by blast
  qed
qed

lemma unat_mask32: "m \<le> 32 \<Longrightarrow> unat (mask m :: u32) = 2 ^ m - 1"
proof -
  assume m: "m \<le> 32"
  have "of_nat (2 ^ m - 1) = (mask m :: u32)" by (simp add: mask_eq_exp_minus_1 of_nat_diff)
  moreover have "(2 :: nat) ^ m \<le> 2 ^ 32" using m by (rule power_increasing) simp
  ultimately show ?thesis using unat_of_nat [where 'a = 32, of "2 ^ m - 1"] by simp
qed

lemma word_and_inc: "(c :: u32) AND (c + 1) = 0 \<longleftrightarrow> (\<exists>m\<le>32. c = mask m)"
proof
  assume a: "c AND (c + 1) = 0"
  show "\<exists>m\<le>32. c = mask m"
  proof (cases "c + 1 = 0")
    case True
    then have "c = - 1" by (simp add: eq_neg_iff_add_eq_0)
    then show ?thesis by (intro exI [of _ 32]) (simp add: mask_full [symmetric])
  next
    case False
    then have "unat (c + 1) = Suc (unat c)" using unatSuc [of c] by (simp add: add.commute)
    then have "unat c AND Suc (unat c) = 0" using arg_cong [OF a, of unat] by (simp add: unsigned_and_eq)
    then obtain m where m: "unat c = 2 ^ m - 1" using nat_and_Suc by blast
    have "unat c < 2 ^ 32" using unsigned_less [of c] by simp
    then have "(2 :: nat) ^ m < 2 ^ 33" using m by simp
    then have "m \<le> 32" using power_strict_increasing_iff [of "2 :: nat" m 33] by simp
    moreover from this have "c = mask m" unfolding word_unat_eq_iff using m by (simp add: unat_mask32)
    ultimately show ?thesis by blast
  qed
next
  assume "\<exists>m\<le>32. c = mask m"
  then obtain m where "c = mask m" by blast
  then have "c AND (c + 1) = mask m AND 2 ^ m" by (simp add: mask_eq_exp_minus_1)
  also have "\<dots> = 0" by (rule bit_word_eqI) (simp add: bit_and_iff bit_mask_iff bit_exp_iff)
  finally show "c AND (c + 1) = 0" .
qed

lemma BIT_RANGE_mask: "h < 32 \<Longrightarrow> BIT_RANGE h 0 = mask (Suc h)"
  by (simp add: BIT_RANGE_def mask_eq_exp_minus_1 push_bit_eq_mult)

text \<open>Exactly the non-empty contiguous masks up to the highest capacity bit are valid.\<close>

lemma valid_cbm_iff:
  assumes "h < 32"
  shows "valid_cbm cbm h \<longleftrightarrow> (\<exists>a b. a \<le> b \<and> b \<le> h \<and> (\<forall>i. bit cbm i \<longleftrightarrow> a \<le> i \<and> i \<le> b))"
proof (cases "cbm = 0")
  case True
  then show ?thesis by (auto simp: valid_cbm_def)
next
  case nz: False
  have le: "\<not> cbm > BIT_RANGE h 0 \<longleftrightarrow> (\<forall>i. bit cbm i \<longrightarrow> i \<le> h)"
  proof
    assume "\<not> cbm > BIT_RANGE h 0"
    then have "unat cbm \<le> unat (mask (Suc h) :: u32)" unfolding BIT_RANGE_mask [OF assms] by (simp add: word_less_nat_alt not_less)
    moreover have "unat (mask (Suc h) :: u32) < 2 ^ Suc h" using assms by (simp add: unat_mask32)
    ultimately have t: "take_bit (Suc h) (unat cbm) = unat cbm" by (intro take_bit_nat_eq_self) linarith
    have "bit cbm i \<Longrightarrow> i \<le> h" for i
    proof -
      assume "bit cbm i"
      then have "bit (take_bit (Suc h) (unat cbm)) i" unfolding t by (simp add: bit_unsigned_iff)
      then show ?thesis by (simp add: bit_take_bit_iff)
    qed
    then show "\<forall>i. bit cbm i \<longrightarrow> i \<le> h" by blast
  next
    assume "\<forall>i. bit cbm i \<longrightarrow> i \<le> h"
    then have "cbm = cbm AND mask (Suc h)" by (intro bit_word_eqI) (auto simp: bit_and_iff bit_mask_iff)
    then show "\<not> cbm > BIT_RANGE h 0" unfolding BIT_RANGE_mask [OF assms] by (metis word_and_le1 not_less)
  qed
  define z where "z = ctzl (ucast cbm)"
  have u: "bit (ucast cbm :: u64) i \<longleftrightarrow> bit cbm i" for i using bit_imp_le_length [of cbm i] by (auto simp: bit_ucast_iff)
  have "(ucast cbm :: u64) \<noteq> 0" using nz u by (metis bit_0_eq bit_word_eqI zero_word_def bot_apply bot_bool_def)
  note c = ctzl_spec [OF this, folded z_def, unfolded u]
  have v: "valid_cbm cbm h \<longleftrightarrow> (\<forall>i. bit cbm i \<longrightarrow> i \<le> h) \<and> (\<exists>m\<le>32. drop_bit z cbm = mask m)"
    using nz \<open>(ucast cbm :: u64) \<noteq> 0\<close> le unfolding valid_cbm_def Let_def word_and_inc bit_scan_forward_def z_def by auto
  have d: "bit (drop_bit z cbm) i \<longleftrightarrow> bit cbm (z + i)" for i by (simp add: bit_drop_bit_eq)
  show ?thesis
  proof
    assume "valid_cbm cbm h"
    then obtain m where m: "\<forall>i. bit cbm i \<longrightarrow> i \<le> h" "m \<le> 32" "drop_bit z cbm = mask m" using v by blast
    have b: "bit cbm (z + i) \<longleftrightarrow> i < m" for i using d [of i] m(2) unfolding m(3) by (auto simp: bit_mask_iff)
    have "m > 0" using b [of 0] c(2) by simp
    then have e: "bit cbm i \<longleftrightarrow> z \<le> i \<and> i \<le> z + (m - 1)" for i using b [of "i - z"] c(3) [of i] by (cases "i < z") auto
    moreover have "z + (m - 1) \<le> h" using m(1) e [of "z + (m - 1)"] by simp
    ultimately show "\<exists>a b. a \<le> b \<and> b \<le> h \<and> (\<forall>i. bit cbm i \<longleftrightarrow> a \<le> i \<and> i \<le> b)" by (intro exI [of _ z] exI [of _ "z + (m - 1)"]) simp
  next
    assume "\<exists>a b. a \<le> b \<and> b \<le> h \<and> (\<forall>i. bit cbm i \<longleftrightarrow> a \<le> i \<and> i \<le> b)"
    then obtain a b where ab: "a \<le> b" "b \<le> h" "\<And>i. bit cbm i \<longleftrightarrow> a \<le> i \<and> i \<le> b" by blast
    have z: "z = a" using c(2,3) ab(1,3) by (metis le_neq_implies_less order_refl)
    have "drop_bit z cbm = mask (Suc b - a)"
      by (rule bit_word_eqI) (use ab(1,2) z assms in \<open>auto simp: bit_drop_bit_eq ab(3) bit_mask_iff\<close>)
    moreover have "Suc b - a \<le> 32" using ab(2) assms by simp
    ultimately show "valid_cbm cbm h" unfolding v using ab by auto
  qed
qed

section \<open>Configuration\<close>

text \<open>The requests that reach this component, and the invariant of the registers.\<close>

datatype cos_op = Cfg_qos u8 | Cfg_l3_mask u16 u32 | Cfg_l2_mask u16 u32 | Cfg_mb_thrt u16 u16

fun cos_do :: "cos_op \<Rightarrow> cos_state \<Rightarrow> status \<times> cos_state" where
  "cos_do (Cfg_qos c) s = cfg_qos c s"
| "cos_do (Cfg_l3_mask n v) s = cfg_l3_mask n v s"
| "cos_do (Cfg_l2_mask n v) s = cfg_l2_mask n v s"
| "cos_do (Cfg_mb_thrt n v) s = cfg_mb_thrt n v s"

definition contiguous :: "u32 \<Rightarrow> nat \<Rightarrow> bool" where
  "contiguous v h \<longleftrightarrow> (\<exists>a b. a \<le> b \<and> b \<le> h \<and> (\<forall>i. bit v i \<longleftrightarrow> a \<le> i \<and> i \<le> b))"

definition cos_hw :: "cos_state \<Rightarrow> u8 \<times> u8 \<times> u8 \<times> u8 \<times> u8 \<times> u8 \<times> u16" where
  "cos_hw s = (supcfg s, cos_l3 s, cos_l2 s, cos_mb s, hcb_l3 s, hcb_l2 s, del_mb s)"

definition cos_inv :: "cos_state \<Rightarrow> bool" where
  "cos_inv s \<longleftrightarrow> unat (hcb_l3 s) < 32 \<and> unat (hcb_l2 s) < 32 \<and>
     (\<forall>n<unat (cos_l3 s). contiguous (msr_l3_mask s n) (unat (hcb_l3 s))) \<and> (\<forall>n<unat (cos_l2 s). contiguous (msr_l2_mask s n) (unat (hcb_l2 s))) \<and>
     (\<forall>n<unat (cos_mb s). msr_mb_thrt s n \<le> del_mb s)"

lemma contiguous_full: "h < 32 \<Longrightarrow> contiguous (BIT_RANGE h 0) h"
  unfolding contiguous_def BIT_RANGE_mask by (intro exI [of _ 0] exI [of _ h]) (auto simp: bit_mask_iff)

lemma fold_set_masks:
  "fold (\<lambda>i. set_l3_mask i v) [0..<k] s = s\<lparr>msr_l3_mask := (\<lambda>i. if i < k then v else msr_l3_mask s i)\<rparr>"
  "fold (\<lambda>i. set_l2_mask i v) [0..<k] s = s\<lparr>msr_l2_mask := (\<lambda>i. if i < k then v else msr_l2_mask s i)\<rparr>"
  "fold (\<lambda>i. set_mb_thrt i d) [0..<k] s = s\<lparr>msr_mb_thrt := (\<lambda>i. if i < k then d else msr_mb_thrt s i)\<rparr>"
  by (induction k; simp add: set_l3_mask_def set_l2_mask_def set_mb_thrt_def fun_eq_iff less_Suc_eq)+

lemma set_cos_inv [simp]: "cos_inv (set_cos c s) = cos_inv s"
  by (simp add: set_cos_def cos_inv_def)

lemma set_qos_cfg_inv [simp]: "cos_inv (set_qos_cfg c s) = cos_inv s" "cos_hw (set_qos_cfg c s) = cos_hw s" "cos_config (set_qos_cfg c s) = cos_config s"
  by (simp_all add: set_qos_cfg_def cos_inv_def cos_hw_def)


definition cos_demo :: cos_state where
  "cos_demo = \<lparr>cos_config = 0, supcfg = 2, cos_l3 = 4, cos_l2 = 0, cos_mb = 2, hcb_l3 = 10, hcb_l2 = 0, del_mb = 90, cos_current = 0,
     msr_l3_qos = None, msr_l2_qos = None, msr_l3_mask = (\<lambda>_. 0), msr_l2_mask = (\<lambda>_. 0), msr_mb_thrt = (\<lambda>_. 0), msr_pqr = 0\<rparr>"


end
