(* ===== verification/Nova_Ipc.thy ===== *)
theory Nova_Ipc
  imports Nova_Pd Nova_Transfer Nova_Rcu Nova_Cos
begin

text \<open>
  The way out of the kernel and communication: hazards and the return to user mode or to a guest (\<^verbatim>\<open>src/x86_64/ec_arch.cpp\<close>), messages of the kernel, calls and replies
  (\<^verbatim>\<open>src/syscall.cpp\<close>), and the continuations with which an execution context resumes.
\<close>

section \<open>State and environment\<close>

text \<open>The whole state adds read-copy-update, classes of service, the pending ACPI transition and the destinations of the I/O APIC to the state of the kernel.\<close>

record nova = kern +
  rcu_st :: rcu
  cos_st :: cos_state
  acpi_trans :: u16
  int_dst :: "nat \<Rightarrow> u32"

text \<open>
  What an operation depends on besides the state: the platform, the static objects, the host state for virtual CPUs, the VMSAVE instruction, the interrupts that are taken at a
  preemption point, the time, the features for system transitions, the APIC identifiers, interrupt remapping, and the programming of the IOMMU.
\<close>

record kenv =
  k_plat :: platform
  k_stat :: statics
  k_host :: vmx_host
  k_vmsave :: "u64 \<Rightarrow> memory \<Rightarrow> memory"
  k_pp :: "nova \<Rightarrow> nova"
  k_now :: u64
  k_reset :: bool
  k_sleep :: bool
  k_apic :: "nat \<Rightarrow> u8"
  k_ir :: bool
  k_smmu :: "u64 \<Rightarrow> bool"
  k_smmu_cfg :: "u64 \<Rightarrow> u64 \<Rightarrow> u64 \<Rightarrow> bool"

text \<open>How an operation that does not return in C++ ends: a context leaves the kernel, the continuation of a context is invoked, the idle context halts the core, or the core goes to sleep.\<close>

datatype outcome = Leave u64 | Run u64 | Wait u64 | Sleep

type_synonym exit = "(outcome \<times> nova) option"

section \<open>The hypercall ABI\<close>

definition gpr_of :: "u64 \<Rightarrow> gpr \<Rightarrow> nova \<Rightarrow> u64" where
  "gpr_of x r s = sys (exc (regs (ecs s x))) r"

definition abi_p0 :: "u64 \<Rightarrow> nova \<Rightarrow> u64" where "abi_p0 x s = gpr_of x RDI s"
definition abi_p1 :: "u64 \<Rightarrow> nova \<Rightarrow> u64" where "abi_p1 x s = gpr_of x RSI s"
definition abi_p2 :: "u64 \<Rightarrow> nova \<Rightarrow> u64" where "abi_p2 x s = gpr_of x RDX s"
definition abi_p3 :: "u64 \<Rightarrow> nova \<Rightarrow> u64" where "abi_p3 x s = gpr_of x RAX s"
definition abi_p4 :: "u64 \<Rightarrow> nova \<Rightarrow> u64" where "abi_p4 x s = gpr_of x R8 s"

definition abi_flags :: "u64 \<Rightarrow> nova \<Rightarrow> u64" where
  "abi_flags x s = drop_bit 4 (abi_p0 x s) AND mask 4"

text \<open>The selector of most hypercalls, and the message transfer descriptor of a call or reply.\<close>

definition abi_sel :: "u64 \<Rightarrow> nova \<Rightarrow> u64" where
  "abi_sel x s = drop_bit 8 (abi_p0 x s)"

definition abi_mtd :: "u64 \<Rightarrow> nova \<Rightarrow> u32" where
  "abi_mtd x s = ucast (abi_p1 x s)"

fun status_code :: "status \<Rightarrow> u64" where
  "status_code SUCCESS = 0" | "status_code TIMEOUT = 1" | "status_code ABORTED = 2" | "status_code OVRFLOW = 3" | "status_code BAD_HYP = 4" | "status_code BAD_CAP = 5"
| "status_code BAD_PAR = 6" | "status_code BAD_FTR = 7" | "status_code BAD_CPU = 8" | "status_code BAD_DEV = 9" | "status_code INS_MEM = 10"

definition own_obj :: "u64 \<Rightarrow> nova \<Rightarrow> u64" where
  "own_obj x s = r_obj (regs (ecs s x))"

definition own_lookup :: "u64 \<Rightarrow> u64 \<Rightarrow> nova \<Rightarrow> capability" where
  "own_lookup x sel s = so_lookup (own_obj x s) sel (heap s)"

section \<open>Messages of the kernel\<close>

definition run :: "(u64 \<times> nova) option \<Rightarrow> exit" where
  "run r = map_option (\<lambda>(x, s). (Run x, s)) r"

text \<open>\<^verbatim>\<open>Ec::send_msg\<close>: an event of the context is delivered to the portal that its event base and event selector name.\<close>

definition send_msg :: "kenv \<Rightarrow> cont \<Rightarrow> u64 \<Rightarrow> nova \<Rightarrow> exit" where
  "send_msg K c self s = do {
     let t = k_now K;
     let cpt = own_lookup self (evt (ecs s self) + vec (exc (regs (ecs s self)))) s;
     if \<not> validate_pt (hdr s) cpt PT_EVENT then run (kill self t s)
     else do {
       let pt = cap_obj cpt;
       let e = pt_ec (pts s pt);
       if ec_cpu (ecs s self) \<noteq> ec_cpu (ecs s e) then run (kill self t s)
       else do {
         assert_that (k_subtype (hdr s e) = EC_LOCAL);
         (r, s) \<leftarrow> rendezvous self e c Recv_kern (pt_ip (pts s pt)) (pt_id (pts s pt)) (ucast (pt_mtd (pts s pt))) s;
         case r of
           Some x \<Rightarrow> Some (Run x, s)
         | None \<Rightarrow> do {
             (r, s) \<leftarrow> ec_help (k_pp K) self e (Send_msg c) t s;
             case r of Some x \<Rightarrow> Some (Run x, s) | None \<Rightarrow> run (kill self t s)
           }
       }
     }
   }"

section \<open>Hazards\<close>

definition HZD_TR :: u32 where "HZD_TR = BIT 15"

definition HZD_user :: u32 where
  "HZD_user = HZD_ILLEGAL OR HZD_RECALL OR HZD_FPU OR HZD_BOOT_HST OR HZD_RCU OR HZD_SLEEP OR HZD_SCHED"

definition HZD_guest :: u32 where
  "HZD_guest = HZD_ILLEGAL OR HZD_RECALL OR HZD_TSC OR HZD_BOOT_GST OR HZD_RCU OR HZD_SLEEP OR HZD_SCHED"

definition nova_quiet :: "kenv \<Rightarrow> nova \<Rightarrow> nova" where
  "nova_quiet K s = (cpu_hazard_clr HZD_RCU s)\<lparr>rcu_st := rcu_quiet (cpus (k_stat K)) (cpu_id s) (rcu_st s)\<rparr>"

definition redirect_to_iret :: "u64 \<Rightarrow> nova \<Rightarrow> nova" where
  "redirect_to_iret x s = upd_exc x (\<lambda>r. r\<lparr>rsp := sys r R11, rip := sys r RCX\<rparr>) s"

definition set_ep :: "u64 \<Rightarrow> u64 \<Rightarrow> nova \<Rightarrow> nova" where
  "set_ep x v s = upd_exc x (\<lambda>r. r\<lparr>vec := v\<rparr>) s"

definition set_cont :: "u64 \<Rightarrow> cont \<Rightarrow> nova \<Rightarrow> nova" where
  "set_cont x c s = upd_ec x (\<lambda>e. e\<lparr>cont := c\<rparr>) s"

text \<open>A recall is delivered as an event, to the guest or host portal depending on how the context would leave.\<close>

definition deliver_recall :: "kenv \<Rightarrow> cont \<Rightarrow> u64 \<Rightarrow> nova \<Rightarrow> exit" where
  "deliver_recall K f self s =
     (let s = hazard_clr self HZD_RECALL s
      in if f = Ret_vmx then send_msg K Ret_vmx self (set_ep self EVENT_RECALL s)
         else if f = Ret_svm then send_msg K Ret_svm self (set_ep self EVENT_RECALL s)
         else send_msg K Ret_exception self (set_ep self 33 (if f = Ret_hypercall then redirect_to_iret self s else s)))"

text \<open>The first half of \<^verbatim>\<open>Ec::handle_hazard\<close> may divert the context; it returns nothing if the context will run.\<close>

definition hazard_divert :: "kenv \<Rightarrow> u32 \<Rightarrow> cont \<Rightarrow> u64 \<Rightarrow> nova \<Rightarrow> (outcome option \<times> nova) option" where
  "hazard_divert K h f self s =
     (if h AND (HZD_ILLEGAL OR HZD_RECALL OR HZD_SLEEP OR HZD_SCHED) = 0 then Some (None, s)
      else do {
        let s = k_pp K s;
        if cpu_hazard s AND HZD_SLEEP \<noteq> 0 then Some (Some Sleep, set_cont self f s)
        else if cpu_hazard s AND HZD_SCHED \<noteq> 0 then do { (x, s) \<leftarrow> schedule False (k_now K) (set_cont self f s); Some (Some (Run x), s) }
        else if h AND HZD_ILLEGAL \<noteq> 0 then do { (x, s) \<leftarrow> kill self (k_now K) s; Some (Some (Run x), s) }
        else if r_hazard (regs (ecs s self)) AND HZD_RECALL \<noteq> 0 then do { (y, s) \<leftarrow> deliver_recall K f self s; Some (Some y, s) }
        else Some (None, s)
      })"

definition hazard_apply :: "u32 \<Rightarrow> cont \<Rightarrow> u64 \<Rightarrow> nova \<Rightarrow> nova" where
  "hazard_apply h f self s =
     (let s = (if h AND HZD_TSC \<noteq> 0
          then let s = hazard_clr self HZD_TSC s; v = vmcb (regs (ecs s self)); t = offset_tsc (exc (regs (ecs s self)))
               in if f = Ret_vmx then (vmcs_make_current v s)\<lparr>vmcss := (vmcss s)(v := vmcs_write VMCS_TSC_OFFSET t (vmcss s v))\<rparr>
                  else s\<lparr>heap := (heap s)\<lparr>mem := sset v VMCB_tsc_offset t (mem (heap s))\<rparr>\<rparr>
          else s);
          s = (if h AND HZD_FPU \<noteq> 0 then if cpu_hazard s AND HZD_FPU \<noteq> 0 then fpu_disable s else fpu_enable s else s);
          s = (if h AND HZD_BOOT_HST \<noteq> 0 then cpu_hazard_clr HZD_BOOT_HST s else s)
      in if h AND HZD_BOOT_GST \<noteq> 0 then cpu_hazard_clr HZD_BOOT_GST s else s)"

definition handle_hazard :: "kenv \<Rightarrow> u32 \<Rightarrow> cont \<Rightarrow> u64 \<Rightarrow> nova \<Rightarrow> (outcome option \<times> nova) option" where
  "handle_hazard K h f self s = do {
     let s = (if h AND HZD_RCU \<noteq> 0 then nova_quiet K s else s);
     (r, s) \<leftarrow> hazard_divert K h f self s;
     case r of Some y \<Rightarrow> Some (Some y, s) | None \<Rightarrow> Some (None, hazard_apply h f self s)
   }"

text \<open>The hazards of the core and of the context that differ, of those that matter for the way out \<open>f\<close>.\<close>

definition check_hazard :: "kenv \<Rightarrow> u32 \<Rightarrow> cont \<Rightarrow> u64 \<Rightarrow> nova \<Rightarrow> (outcome option \<times> nova) option" where
  "check_hazard K m f self s =
     (let h = (cpu_hazard s XOR r_hazard (regs (ecs s self))) AND m in if h \<noteq> 0 then handle_hazard K h f self s else Some (None, s))"

definition ret_user_hypercall :: "kenv \<Rightarrow> u64 \<Rightarrow> nova \<Rightarrow> exit" where
  "ret_user_hypercall K self s = do { (r, s) \<leftarrow> check_hazard K HZD_user Ret_hypercall self s; Some (case r of Some y \<Rightarrow> y | None \<Rightarrow> Leave self, s) }"

definition ret_user_exception :: "kenv \<Rightarrow> u64 \<Rightarrow> nova \<Rightarrow> exit" where
  "ret_user_exception K self s = do { (r, s) \<leftarrow> check_hazard K HZD_user Ret_exception self s; Some (case r of Some y \<Rightarrow> y | None \<Rightarrow> Leave self, s) }"

text \<open>Before a guest is entered, its VMCS is made current and stale translations of its guest space are flushed; loading the guest's registers has no counterpart.\<close>

definition gtlb_clr :: "u64 \<Rightarrow> nova \<Rightarrow> nova" where
  "gtlb_clr g s = set_space g ((spcs s g)\<lparr>sp_tlb := sp_tlb (spcs s g) AND NOT (BITN (cpu_id s mod 64))\<rparr>) s"

definition ret_user_vmexit_vmx :: "kenv \<Rightarrow> u64 \<Rightarrow> nova \<Rightarrow> exit" where
  "ret_user_vmexit_vmx K self s = do {
     (r, s) \<leftarrow> check_hazard K HZD_guest Ret_vmx self s;
     case r of
       Some y \<Rightarrow> Some (y, s)
     | None \<Rightarrow> do {
         let s = vmcs_make_current (vmcb (regs (ecs s self))) s;
         let g = r_gst (regs (ecs s self));
         Some (Leave self, if sp_tlb (spcs s g) AND BITN (cpu_id s mod 64) \<noteq> 0 then gtlb_clr g s else s)
       }
   }"

definition ret_user_vmexit_svm :: "kenv \<Rightarrow> u64 \<Rightarrow> nova \<Rightarrow> exit" where
  "ret_user_vmexit_svm K self s = do {
     (r, s) \<leftarrow> check_hazard K HZD_guest Ret_svm self s;
     case r of
       Some y \<Rightarrow> Some (y, s)
     | None \<Rightarrow> do {
         let g = r_gst (regs (ecs s self));
         let v = vmcb (regs (ecs s self));
         Some (Leave self, if sp_tlb (spcs s g) AND BITN (cpu_id s mod 64) \<noteq> 0
           then (gtlb_clr g s)\<lparr>heap := (heap s)\<lparr>mem := sset v VMCB_tlb_control 1 (mem (heap s))\<rparr>\<rparr> else s)
       }
   }"

section \<open>Calls and replies\<close>

definition sys_finish_status :: "kenv \<Rightarrow> status \<Rightarrow> u64 \<Rightarrow> nova \<Rightarrow> exit" where
  "sys_finish_status K st self s = ret_user_hypercall K self (set_gpr self RDI (status_code st) s)"

definition sys_finish :: "kenv \<Rightarrow> status \<Rightarrow> bool \<Rightarrow> u64 \<Rightarrow> nova \<Rightarrow> exit" where
  "sys_finish K st t self s = do {
     s \<leftarrow> (if t then clr_timeout self s else Some s);
     sys_finish_status K st self s
   }"

definition recv_kern :: "kenv \<Rightarrow> u64 \<Rightarrow> nova \<Rightarrow> exit" where
  "recv_kern K self s = do {
     let e = caller (ecs s self);
     assert_that (e \<noteq> 0);
     assert_that (utcb (ecs s self) \<noteq> 0 \<and> k_subtype (hdr s self) = EC_LOCAL \<and> cont (ecs s self) = Recv_kern);
     s \<leftarrow> state_load (k_plat K) e self (abi_mtd self s) s;
     ret_user_hypercall K self s
   }"

definition copy_utcb :: "u32 \<Rightarrow> u64 \<Rightarrow> u64 \<Rightarrow> nova \<Rightarrow> nova" where
  "copy_utcb m src dst s = s\<lparr>heap := (heap s)\<lparr>mem := utcb_copy m (utcb (ecs s src)) (utcb (ecs s dst)) (mem (heap s))\<rparr>\<rparr>"

definition recv_user :: "kenv \<Rightarrow> u64 \<Rightarrow> nova \<Rightarrow> exit" where
  "recv_user K self s = do {
     let e = caller (ecs s self);
     assert_that (e \<noteq> 0);
     assert_that (utcb (ecs s e) \<noteq> 0 \<and> cont (ecs s e) = Ret_hypercall);
     assert_that (utcb (ecs s self) \<noteq> 0 \<and> k_subtype (hdr s self) = EC_LOCAL \<and> cont (ecs s self) = Recv_user);
     ret_user_hypercall K self (copy_utcb (abi_mtd self s) e self s)
   }"

definition sys_ipc_call :: "kenv \<Rightarrow> u64 \<Rightarrow> nova \<Rightarrow> exit" where
  "sys_ipc_call K self s = do {
     let cpt = own_lookup self (abi_sel self s) s;
     if \<not> validate_pt (hdr s) cpt PT_CALL then sys_finish K BAD_CAP False self s
     else do {
       let pt = cap_obj cpt;
       let e = pt_ec (pts s pt);
       if ec_cpu (ecs s self) \<noteq> ec_cpu (ecs s e) then sys_finish K BAD_CPU False self s
       else do {
         assert_that (k_subtype (hdr s e) = EC_LOCAL);
         let tm = abi_flags self s AND 1 \<noteq> 0;
         (r, s) \<leftarrow> rendezvous self e Ret_hypercall Recv_user (pt_ip (pts s pt)) (pt_id (pts s pt)) (ucast (abi_mtd self s)) s;
         case r of
           Some x \<Rightarrow> Some (Run x, s)
         | None \<Rightarrow>
             if tm then sys_finish K TIMEOUT False self s
             else do {
               (r, s) \<leftarrow> ec_help (k_pp K) self e Sys_ipc_call (k_now K) s;
               case r of Some x \<Rightarrow> Some (Run x, s) | None \<Rightarrow> sys_finish K ABORTED False self s
             }
       }
     }
   }"

definition sys_ipc_reply :: "kenv \<Rightarrow> u64 \<Rightarrow> nova \<Rightarrow> exit" where
  "sys_ipc_reply K self s = do {
     let e = caller (ecs s self);
     let m = abi_mtd self s;
     s \<leftarrow> (if e = 0 then Some s
       else if cont (ecs s e) = Ret_hypercall then Some (copy_utcb m self e (set_gpr e RSI (ucast m) s))
       else do {
         (b, s) \<leftarrow> state_save (k_plat K) e self m s;
         Some (if b then s else hazard_set e HZD_ILLEGAL s)
       });
     run (reply self Cont_null (k_now K) s)
   }"

section \<open>Continuations\<close>

text \<open>One round of the idle loop, up to the instruction that halts the core.\<close>

definition idle :: "kenv \<Rightarrow> u64 \<Rightarrow> nova \<Rightarrow> exit" where
  "idle K self s = do {
     let h = cpu_hazard s AND (HZD_RCU OR HZD_SLEEP OR HZD_SCHED);
     (r, s) \<leftarrow> (if h \<noteq> 0 then handle_hazard K h Idle self s else Some (None, s));
     Some (case r of Some y \<Rightarrow> y | None \<Rightarrow> Wait self, s)
   }"

fun invoke :: "kenv \<Rightarrow> cont \<Rightarrow> u64 \<Rightarrow> nova \<Rightarrow> exit" where
  "invoke K Ret_hypercall x s = ret_user_hypercall K x s"
| "invoke K Ret_exception x s = ret_user_exception K x s"
| "invoke K Ret_vmx x s = ret_user_vmexit_vmx K x s"
| "invoke K Ret_svm x s = ret_user_vmexit_svm K x s"
| "invoke K Idle x s = idle K x s"
| "invoke K Recv_kern x s = recv_kern K x s"
| "invoke K Recv_user x s = recv_user K x s"
| "invoke K (Send_msg c) x s = send_msg K c x s"
| "invoke K Sys_ipc_call x s = sys_ipc_call K x s"
| "invoke K (Sys_finish st t) x s = sys_finish K st t x s"
| "invoke K Dead x s = run (kill x (k_now K) s)"
| "invoke K Blocking x s = run (kill x (k_now K) s)"
| "invoke K Cont_null x s = None"

text \<open>The kernel runs continuations until a context leaves it or the core stops.\<close>

partial_function (option) resume :: "kenv \<Rightarrow> outcome \<Rightarrow> nova \<Rightarrow> exit" where
  "resume K r s = (case r of Run x \<Rightarrow> do { (r, s) \<leftarrow> invoke K (cont (ecs s x)) x s; resume K r s } | _ \<Rightarrow> Some (r, s))"

end
