(* ===== verification/Nova_Syscall.thy ===== *)
theory Nova_Syscall
  imports Nova_Ipc
begin

text \<open>
  The hypercalls of \<^verbatim>\<open>src/syscall.cpp\<close>, with their parameters as \<^verbatim>\<open>inc/syscall.hpp\<close> decodes them, the configuration of interrupts (\<^verbatim>\<open>src/x86_64/interrupt.cpp\<close>) and the shootdown of
  translations (\<^verbatim>\<open>src/x86_64/tlb.cpp\<close>).
\<close>

section \<open>Interrupt configuration\<close>

definition conf_make :: "u16 \<Rightarrow> u16 \<Rightarrow> u64 \<Rightarrow> u64" where
  "conf_make c r f = push_bit 48 (ucast c) OR push_bit 32 (ucast r) OR f"

definition conf_cpu :: "u64 \<Rightarrow> nat" where "conf_cpu v = unat (drop_bit 48 v AND mask 16)"
definition conf_pol :: "u64 \<Rightarrow> bool" where "conf_pol v = bit v 2"
definition conf_trg :: "u64 \<Rightarrow> bool" where "conf_trg v = bit v 1"
definition conf_msk :: "u64 \<Rightarrow> bool" where "conf_msk v = bit v 0"

definition set_mask :: "nat \<Rightarrow> bool \<Rightarrow> nova \<Rightarrow> nova" where
  "set_mask gsi m s =
     (if int_ioapic s gsi \<noteq> 0 \<and> conf_trg (int_conf s gsi) then s\<lparr>int_rte := (int_rte s)(gsi := (m, True, conf_pol (int_conf s gsi)))\<rparr> else s)"

text \<open>The interrupt remapping table, which \<^verbatim>\<open>Smmu::set_irt\<close> writes, is not part of the state.\<close>

definition int_init :: "kenv \<Rightarrow> nat \<Rightarrow> nova \<Rightarrow> u32 \<times> u16 \<times> nova" where
  "int_init K gsi s =
     (let cfg = int_conf s gsi;
          aid = ucast (k_apic K (conf_cpu cfg)) :: u32;
          vc = of_nat (32 + gsi) :: u8
      in if int_ioapic s gsi \<noteq> 0
         then (0, 0, s\<lparr>int_dst := (int_dst s)(gsi := (if k_ir K then push_bit 17 (of_nat gsi) OR BIT 16 else push_bit 24 aid)),
                  int_rte := (int_rte s)(gsi := (conf_msk cfg, conf_trg cfg, conf_pol cfg))\<rparr>)
         else (push_bit 20 0xfee OR (if k_ir K then BIT_RANGE 4 3 else push_bit 12 aid), if k_ir K then of_nat gsi else ucast vc, s))"

definition int_configure :: "kenv \<Rightarrow> nat \<Rightarrow> u64 \<Rightarrow> nova \<Rightarrow> u32 \<times> u16 \<times> nova" where
  "int_configure K gsi cfg s = int_init K gsi (s\<lparr>int_conf := (int_conf s)(gsi := cfg)\<rparr>)"

section \<open>Shootdown of translations\<close>

text \<open>
  \<^verbatim>\<open>Tlb::shootdown\<close>: every core that executes in the space is interrupted and the executing core must reschedule; interrupts are enabled meanwhile.
  Waiting for the other cores to take the interrupt has no counterpart.
\<close>

definition shootdown_cpu :: "kenv \<Rightarrow> u64 \<Rightarrow> nat \<Rightarrow> nova \<Rightarrow> nova" where
  "shootdown_cpu K sp c s =
     (let e = ec_current s c
      in if r_hst (regs (ecs s e)) \<noteq> sp \<and> r_gst (regs (ecs s e)) \<noteq> sp then s
         else if cpu_id s = c then cpu_hazard_set HZD_SCHED s
         else k_pp K (send_cpu RKE c s))"

definition shootdown :: "kenv \<Rightarrow> u64 \<Rightarrow> nova \<Rightarrow> nova" where
  "shootdown K sp s = fold (shootdown_cpu K sp) [0..<cpus (k_stat K)] s"

definition space_sync :: "kenv \<Rightarrow> u64 \<Rightarrow> nova \<Rightarrow> nova" where
  "space_sync K sp s = shootdown K sp (set_space sp ((spcs s sp)\<lparr>sp_tlb := - 1\<rparr>) s)"

text \<open>\<^verbatim>\<open>Space_mem::delegate\<close> on the whole state. Translations are shot down after the page table has changed and before its freed pages are returned; the caches of a DMA space are those of the IOMMU.\<close>

definition space_delegate :: "kenv \<Rightarrow> pte_fmt \<Rightarrow> nat \<Rightarrow> u64 \<Rightarrow> bool \<Rightarrow> u64 \<Rightarrow> u64 \<Rightarrow> u64 \<Rightarrow> u64 \<Rightarrow> nat \<Rightarrow> perms \<Rightarrow> cacheability \<Rightarrow> shareability \<Rightarrow> nova \<Rightarrow> (status \<times> nova) option" where
  "space_delegate K T lim num syn this hst ssb dsb ord pmm ca sh s =
     (let s_end = ssb + BITN ord; d_end = dsb + BITN ord
      in if s_end > HST_num \<or> d_end > num then Some (BAD_PAR, s)
         else do {
           (sts, s) \<leftarrow> on_heap (mem_delegate_loop T (p_off (k_plat K)) lim (ptab_of this) (ptab_of hst) (hst = nova_hst (k_stat K)) ord pmm s_end ca sh ssb dsb) s;
           let s = (if syn then space_sync K this s else s);
           h \<leftarrow> free_wait (heap s);
           Some (sts, s\<lparr>heap := h\<rparr>)
         })"

section \<open>Creation\<close>

definition created :: "kenv \<Rightarrow> u64 \<Rightarrow> ((status + u64) \<times> nova) option \<Rightarrow> exit" where
  "created K self r = do { (r, s) \<leftarrow> r; sys_finish_status K (case r of Inl e \<Rightarrow> e | Inr _ \<Rightarrow> SUCCESS) self s }"

definition sys_create_pd :: "kenv \<Rightarrow> u64 \<Rightarrow> nova \<Rightarrow> exit" where
  "sys_create_pd K self s = do {
     let C = k_stat K;
     let P = k_plat K;
     let obj = own_obj self s;
     let sel = abi_sel self s;
     let cpd = own_lookup self (abi_p1 self s) s;
     if \<not> validate_pd (hdr s) cpd PD_PD then sys_finish_status K BAD_CAP self s
     else do {
       let pd = cap_obj cpd;
       let k = unat (abi_flags self s);
       if k = Subtype_PD then created K self (create_pd C obj sel (cap_prm cpd) s)
       else if k = Subtype_OBJ then created K self (create_obj pd obj sel s)
       else if k = Subtype_HST then created K self (create_hst P pd obj sel s)
       else if k = Subtype_GST then created K self (create_gst P C pd obj sel s)
       else if k = Subtype_DMA then created K self (create_dma P pd obj sel s)
       else if k = Subtype_PIO then created K self (create_pio P C pd obj sel s)
       else if k = Subtype_MSR then created K self (create_msr pd obj sel s)
       else sys_finish_status K BAD_PAR self s
     }
   }"

definition sys_create_ec :: "kenv \<Rightarrow> u64 \<Rightarrow> nova \<Rightarrow> exit" where
  "sys_create_ec K self s = do {
     let c = abi_p2 self s AND mask 12;
     let ut = abi_p2 self s AND NOT (mask 12);
     if ut \<ge> push_bit 12 HST_num then sys_finish_status K BAD_PAR self s
     else if unat c \<ge> cpus (k_stat K) then sys_finish_status K BAD_CPU self s
     else do {
       let cpd = own_lookup self (abi_p1 self s) s;
       if \<not> validate_pd (hdr s) cpd PD_EC then sys_finish_status K BAD_CAP self s
       else created K self (create_ec (k_plat K) (k_stat K) (k_host K) (k_vmsave K) (own_obj self s) (abi_sel self s) (cap_obj cpd) (unat c) ut (abi_p3 self s) (abi_p4 self s) (abi_flags self s) s)
     }
   }"

definition sc_params :: "u64 \<Rightarrow> nova \<Rightarrow> u16 \<times> nat \<times> u16" where
  "sc_params self s = (let p = abi_p3 self s in (ucast p, unat (drop_bit 16 p AND mask 7), ucast (drop_bit 23 p)))"

definition sys_create_sc :: "kenv \<Rightarrow> u64 \<Rightarrow> nova \<Rightarrow> exit" where
  "sys_create_sc K self s = do {
     let (b, p, c) = sc_params self s;
     if p = 0 \<or> b = 0 \<or> \<not> valid_cos c (cos_st s) then sys_finish_status K BAD_PAR self s
     else do {
       let cpd = own_lookup self (abi_p1 self s) s;
       let cec = own_lookup self (abi_p2 self s) s;
       if \<not> validate_pd (hdr s) cpd PD_SC \<or> \<not> validate_ec (hdr s) cec EC_BIND_SC then sys_finish_status K BAD_CAP self s
       else if k_subtype (hdr s (cap_obj cec)) = EC_LOCAL then sys_finish_status K BAD_CAP self s
       else do {
         (r, s) \<leftarrow> create_sc (k_plat K) (k_stat K) (own_obj self s) (abi_sel self s) (cap_obj cec) (ec_cpu (ecs s (cap_obj cec))) b p c s;
         case r of
           Inl e \<Rightarrow> sys_finish_status K e self s
         | Inr x \<Rightarrow> do { s \<leftarrow> sched_unblock x (k_now K) s; sys_finish_status K SUCCESS self s }
       }
     }
   }"

definition sys_create_pt :: "kenv \<Rightarrow> u64 \<Rightarrow> nova \<Rightarrow> exit" where
  "sys_create_pt K self s = do {
     let cpd = own_lookup self (abi_p1 self s) s;
     let cec = own_lookup self (abi_p2 self s) s;
     if \<not> validate_pd (hdr s) cpd PD_PT \<or> \<not> validate_ec (hdr s) cec EC_BIND_PT then sys_finish_status K BAD_CAP self s
     else if k_subtype (hdr s (cap_obj cec)) \<noteq> EC_LOCAL then sys_finish_status K BAD_CAP self s
     else created K self (create_pt (k_stat K) (own_obj self s) (abi_sel self s) (cap_obj cec) (abi_p3 self s) s)
   }"

definition sys_create_sm :: "kenv \<Rightarrow> u64 \<Rightarrow> nova \<Rightarrow> exit" where
  "sys_create_sm K self s = do {
     let cpd = own_lookup self (abi_p1 self s) s;
     if \<not> validate_pd (hdr s) cpd PD_SM then sys_finish_status K BAD_CAP self s
     else created K self (create_sm (k_stat K) (own_obj self s) (abi_sel self s) (abi_p2 self s) (- 1) s)
   }"

section \<open>Control\<close>

definition delegated_by :: "kenv \<Rightarrow> u64 \<Rightarrow> (status \<times> nova) option \<Rightarrow> exit" where
  "delegated_by K self r = do { (sts, s) \<leftarrow> r; sys_finish_status K sts self s }"

definition sys_ctrl_pd :: "kenv \<Rightarrow> u64 \<Rightarrow> nova \<Rightarrow> exit" where
  "sys_ctrl_pd K self s = do {
     let C = k_stat K;
     let ssb = drop_bit 12 (abi_p2 self s);
     let dsb = drop_bit 12 (abi_p3 self s);
     let ord = unat (abi_p2 self s AND mask 5);
     let pmm = abi_p3 self s AND mask 5;
     let ca = drop_bit 5 (abi_p3 self s) AND mask 3;
     let sh = drop_bit 8 (abi_p3 self s) AND mask 2;
     if (ssb OR dsb) AND (BITN ord - 1) \<noteq> 0 then sys_finish_status K BAD_PAR self s
     else do {
       let cst = own_lookup self (abi_sel self s) s;
       let cdt = own_lookup self (abi_p1 self s) s;
       case validate_take_grant (hdr s) cst cdt of
         None \<Rightarrow> sys_finish_status K BAD_CAP self s
       | Some (st, dt) \<Rightarrow> do {
           let src = cap_obj cst;
           let dst = cap_obj cdt;
           if st = Subtype_HST then
             if dt = Subtype_HST then delegated_by K self (space_delegate K Hpt (lim_hst C) HST_num True dst src ssb dsb ord (ucast pmm) ca sh s)
             else if dt = Subtype_GST then delegated_by K self (space_delegate K (Ept (mbec C)) (lim_gst C) GST_num True dst src ssb dsb ord (ucast pmm) ca sh s)
             else if dt = Subtype_DMA then delegated_by K self (space_delegate K Dpt (lim_dma C) DMA_num False dst src ssb dsb ord (ucast pmm) ca sh s)
             else sys_finish_status K BAD_CAP self s
           else if st = Subtype_OBJ \<and> dt = st then delegated_by K self (on_heap (so_delegate dst src ssb dsb ord pmm) s)
           else if st = Subtype_PIO \<and> dt = st then delegated_by K self (Some (pio_delegate dst src ssb dsb ord (ucast pmm) s))
           else if st = Subtype_MSR \<and> dt = st then delegated_by K self (Some (msr_delegate dst src ssb dsb ord (ucast pmm) s))
           else sys_finish_status K BAD_CAP self s
         }
     }
   }"

definition sys_ctrl_ec :: "kenv \<Rightarrow> u64 \<Rightarrow> nova \<Rightarrow> exit" where
  "sys_ctrl_ec K self s = do {
     let cec = own_lookup self (abi_sel self s) s;
     if \<not> validate_ec (hdr s) cec EC_CTRL then sys_finish_status K BAD_CAP self s
     else do {
       let e = cap_obj cec;
       let c = ec_cpu (ecs s e);
       let remote = (cpu_id s \<noteq> c \<and> ec_current s c = e);
       let was = (r_hazard (regs (ecs s e)) AND HZD_RECALL \<noteq> 0);
       let strong = (abi_flags self s AND 1 \<noteq> 0);
       let s = hazard_set e HZD_RECALL s;
       let s = (if strong then if remote then k_pp K (send_cpu RKE c s) else s
         else if \<not> was \<and> remote then send_cpu RKE c s else s);
       sys_finish_status K SUCCESS self s
     }
   }"

definition sys_ctrl_sc :: "kenv \<Rightarrow> u64 \<Rightarrow> nova \<Rightarrow> exit" where
  "sys_ctrl_sc K self s = do {
     let csc = own_lookup self (abi_sel self s) s;
     if \<not> validate_sc (hdr s) csc SC_CTRL then sys_finish_status K BAD_CAP self s
     else sys_finish_status K SUCCESS self (set_gpr self RSI (used (scs s (cap_obj csc))) s)
   }"

definition sys_ctrl_pt :: "kenv \<Rightarrow> u64 \<Rightarrow> nova \<Rightarrow> exit" where
  "sys_ctrl_pt K self s = do {
     let cpt = own_lookup self (abi_sel self s) s;
     if \<not> validate_pt (hdr s) cpt PT_CTRL then sys_finish_status K BAD_CAP self s
     else sys_finish_status K SUCCESS self (upd_pt (cap_obj cpt) (\<lambda>p. p\<lparr>pt_id := abi_p1 self s, pt_mtd := ucast (abi_p2 self s)\<rparr>) s)
   }"

definition sys_ctrl_sm :: "kenv \<Rightarrow> u64 \<Rightarrow> nova \<Rightarrow> exit" where
  "sys_ctrl_sm K self s = do {
     let csm = own_lookup self (abi_sel self s) s;
     let dn = (abi_flags self s AND 1 \<noteq> 0);
     let zc = (abi_flags self s AND 2 \<noteq> 0);
     let sm = cap_obj csm;
     if \<not> validate_sm (hdr s) csm (if dn then SM_CTRL_DN else SM_CTRL_UP) then sys_finish_status K BAD_CAP self s
     else if dn then do {
       let i = sm_id (sms s sm);
       if i \<noteq> - 1 \<and> cpu_id s \<noteq> conf_cpu (int_conf s (unat i)) then sys_finish_status K BAD_CPU self s
       else do {
         let s = (if i \<noteq> - 1 then set_mask (unat i) False s else s);
         (r, s) \<leftarrow> sm_dn sm self zc (abi_p1 self s) (k_now K) s;
         case r of Some x \<Rightarrow> Some (Run x, s) | None \<Rightarrow> sys_finish_status K SUCCESS self s
       }
     }
     else do {
       (b, s) \<leftarrow> sm_up sm (k_now K) s;
       sys_finish_status K (if b then SUCCESS else OVRFLOW) self s
     }
   }"

section \<open>Hardware\<close>

text \<open>A system transition is supported by state; the configuration of classes of service is passed on.\<close>

definition trans_supported :: "kenv \<Rightarrow> u16 \<Rightarrow> bool" where
  "trans_supported K t =
     (let st = unat (t AND mask 3)
      in (BIT 7 AND BIT st \<noteq> 0 \<and> k_reset K) \<or> ((BIT_RANGE 5 3 OR BIT 1) AND BIT st \<noteq> 0 \<and> k_sleep K))"

definition send_exc :: "kenv \<Rightarrow> request \<Rightarrow> nova \<Rightarrow> nova" where
  "send_exc K r s = fold (send_cpu r) (filter (\<lambda>c. c \<noteq> cpu_id s) [0..<cpus (k_stat K)]) s"

definition on_cos :: "kenv \<Rightarrow> u64 \<Rightarrow> (cos_state \<Rightarrow> status \<times> cos_state) \<Rightarrow> nova \<Rightarrow> exit" where
  "on_cos K self f s = (let (sts, c) = f (cos_st s) in sys_finish_status K sts self (s\<lparr>cos_st := c\<rparr>))"

definition sys_ctrl_hw :: "kenv \<Rightarrow> u64 \<Rightarrow> nova \<Rightarrow> exit" where
  "sys_ctrl_hw K self s = do {
     let k = abi_flags self s;
     let d = abi_sel self s;
     if own_obj self s \<noteq> space_obj (pds s (root_pd (k_stat K))) then sys_finish_status K BAD_HYP self s
     else if k = 7 then on_cos K self (cfg_mb_thrt (ucast d) (ucast (drop_bit 16 d))) s
     else if k = 6 then on_cos K self (cfg_l2_mask (ucast d) (ucast (drop_bit 16 d))) s
     else if k = 5 then on_cos K self (cfg_l3_mask (ucast d) (ucast (drop_bit 16 d))) s
     else if k = 4 then on_cos K self (cfg_qos (ucast d)) s
     else if k = 0 then
       if \<not> trans_supported K (ucast d) then sys_finish_status K BAD_FTR self s
       else if acpi_trans s \<noteq> 0 then sys_finish_status K ABORTED self s
       else sys_finish_status K SUCCESS self (cpu_hazard_set HZD_SLEEP (send_exc K RKE (s\<lparr>acpi_trans := ucast d\<rparr>)))
     else sys_finish_status K BAD_PAR self s
   }"

definition sys_assign_int :: "kenv \<Rightarrow> u64 \<Rightarrow> nova \<Rightarrow> exit" where
  "sys_assign_int K self s = do {
     let c = (ucast (abi_p1 self s) :: u16);
     if unat c \<ge> cpus (k_stat K) then sys_finish_status K BAD_CPU self s
     else do {
       let csm = own_lookup self (abi_sel self s) s;
       if \<not> validate_sm (hdr s) csm SM_ASSIGN then sys_finish_status K BAD_CAP self s
       else do {
         let i = sm_id (sms s (cap_obj csm));
         assert_that (i \<noteq> - 1);
         let (a, d, s) = int_configure K (unat i) (conf_make c (ucast (abi_p2 self s)) (abi_flags self s)) s;
         sys_finish_status K SUCCESS self (set_gpr self RDX (ucast d) (set_gpr self RSI (ucast a) s))
       }
     }
   }"

definition sys_assign_dev :: "kenv \<Rightarrow> u64 \<Rightarrow> nova \<Rightarrow> exit" where
  "sys_assign_dev K self s = do {
     let smmu = abi_p1 self s AND NOT (mask 12);
     let csp = own_lookup self (abi_sel self s) s;
     if own_obj self s \<noteq> space_obj (pds s (root_pd (k_stat K))) then sys_finish_status K BAD_HYP self s
     else if \<not> validate_sp (hdr s) csp SP_ASSIGN Subtype_DMA then sys_finish_status K BAD_CAP self s
     else if \<not> k_smmu K smmu then sys_finish_status K BAD_DEV self s
     else if \<not> k_smmu_cfg K smmu (cap_obj csp) (abi_p2 self s) then sys_finish_status K BAD_PAR self s
     else sys_finish_status K SUCCESS self s
   }"

section \<open>Dispatch\<close>

definition syscall :: "(kenv \<Rightarrow> u64 \<Rightarrow> nova \<Rightarrow> exit) list" where
  "syscall = [sys_ipc_call, sys_ipc_reply, sys_create_pd, sys_create_ec, sys_create_sc, sys_create_pt, sys_create_sm, sys_ctrl_pd, sys_ctrl_ec, sys_ctrl_sc, sys_ctrl_pt, sys_ctrl_sm,
     sys_ctrl_hw, sys_assign_int, sys_assign_dev, \<lambda>K. sys_finish K BAD_HYP False]"

text \<open>The entry stub stores the registers \<open>g\<close> of the user in the current context and jumps through the table.\<close>

definition entry_sys :: "kenv \<Rightarrow> (gpr \<Rightarrow> u64) \<Rightarrow> nova \<Rightarrow> exit" where
  "entry_sys K g s = (let x = ec_current s (cpu_id s) in (syscall ! unat (g RDI AND mask 4)) K x (upd_exc x (\<lambda>r. r\<lparr>sys := g\<rparr>) s))"

section \<open>Messages between execution contexts\<close>

text \<open>No hazard diverts the context on its way to user mode.\<close>

definition HZD_divert :: u32 where
  "HZD_divert = HZD_ILLEGAL OR HZD_RECALL OR HZD_SLEEP OR HZD_SCHED"

definition calm :: "u64 \<Rightarrow> nova \<Rightarrow> bool" where
  "calm x s \<longleftrightarrow> (cpu_hazard s XOR r_hazard (regs (ecs s x))) AND HZD_divert = 0"

lemma HZD_user_TSC: "(h AND HZD_user) AND HZD_TSC = 0" "HZD_user AND HZD_divert = HZD_divert"
  by (simp_all add: HZD_user_def HZD_divert_def hazard_defs BIT_def and.assoc)

lemma HZD_keep: "NOT HZD_RCU AND HZD_divert = HZD_divert" "NOT HZD_FPU AND HZD_divert = HZD_divert" "NOT HZD_BOOT_HST AND HZD_divert = HZD_divert" "NOT HZD_BOOT_GST AND HZD_divert = HZD_divert"
  "HZD_FPU AND HZD_divert = 0"
  by (simp_all add: HZD_divert_def hazard_defs BIT_def)

text \<open>A context that nothing diverts leaves the kernel, and only the hazards of the core and its quiescent state change.\<close>

definition left_kernel :: "nova \<Rightarrow> nova \<Rightarrow> bool" where
  "left_kernel s s' \<longleftrightarrow> (\<exists>h r. s' = s\<lparr>cpu_hazard := h, rcu_st := r\<rparr> \<and> h AND HZD_divert = cpu_hazard s AND HZD_divert)"

lemma left_kernel_refl: "left_kernel s s"
  unfolding left_kernel_def by (intro exI [of _ "cpu_hazard s"] exI [of _ "rcu_st s"]) simp

lemma left_kernel_hazard: "left_kernel s s' \<Longrightarrow> v AND HZD_divert = cpu_hazard s' AND HZD_divert \<Longrightarrow> left_kernel s (s'\<lparr>cpu_hazard := v\<rparr>)"
  unfolding left_kernel_def by (elim exE conjE, rule exI [of _ v]) (auto intro: exI [of _ "rcu_st s'"])

lemma left_kernel_quiet: "left_kernel s s' \<Longrightarrow> left_kernel s (s'\<lparr>rcu_st := r\<rparr>)"
  unfolding left_kernel_def by (elim exE conjE, rule exI [of _ "cpu_hazard s'"], rule exI [of _ r]) simp

lemma left_kernel_steps:
  assumes "left_kernel s s'"
  shows "left_kernel s (nova_quiet K s')" "left_kernel s (fpu_disable s')" "left_kernel s (fpu_enable s')" "left_kernel s (cpu_hazard_clr HZD_BOOT_HST s')" "left_kernel s (cpu_hazard_clr HZD_BOOT_GST s')"
  unfolding nova_quiet_def fpu_disable_def fpu_enable_def cpu_hazard_clr_def cpu_hazard_set_def
  by (intro left_kernel_quiet left_kernel_hazard assms; simp add: and.assoc HZD_keep bit.conj_disj_distrib2)+

lemma ret_user_hypercall_calm:
  assumes "calm x s"
  shows "\<exists>s'. ret_user_hypercall K x s = Some (Leave x, s') \<and> left_kernel s s'"
proof -
  define h where h: "h = (cpu_hazard s XOR r_hazard (regs (ecs s x))) AND HZD_user"
  have d: "h AND HZD_divert = 0" using assms by (simp add: h calm_def and.assoc HZD_user_TSC(2))
  have t: "h AND HZD_TSC = 0" unfolding h by (rule HZD_user_TSC(1))
  define s1 where s1: "s1 = (if h AND HZD_RCU \<noteq> 0 then nova_quiet K s else s)"
  have l1: "left_kernel s s1" by (simp add: s1 left_kernel_refl left_kernel_steps)
  have "left_kernel s (hazard_apply h Ret_hypercall x s1)"
    using t unfolding hazard_apply_def Let_def by (simp add: l1 left_kernel_steps)
  moreover have "handle_hazard K h Ret_hypercall x s = Some (None, hazard_apply h Ret_hypercall x s1)"
    using d by (simp add: handle_hazard_def hazard_divert_def s1 Let_def flip: HZD_divert_def)
  ultimately show ?thesis
    by (cases "h = 0") (simp_all add: ret_user_hypercall_def check_hazard_def Let_def left_kernel_refl flip: h)
qed

lemma left_kernel_frame:
  assumes "left_kernel s s'"
  shows "heap s' = heap s" "hdr s' = hdr s" "ecs s' = ecs s" "ec_current s' = ec_current s" "cpu_id s' = cpu_id s" "donations s' = donations s" "pts s' = pts s" "calm x s' = calm x s"
proof -
  obtain h r where s': "s' = s\<lparr>cpu_hazard := h, rcu_st := r\<rparr>" "h AND HZD_divert = cpu_hazard s AND HZD_divert" using assms unfolding left_kernel_def by blast
  show "heap s' = heap s" "hdr s' = hdr s" "ecs s' = ecs s" "ec_current s' = ec_current s" "cpu_id s' = cpu_id s" "donations s' = donations s" "pts s' = pts s" unfolding s'(1) by simp_all
  show "calm x s' = calm x s" unfolding calm_def s'(1) by (simp add: bit.conj_xor_distrib2 s'(2))
qed

lemma copy_words_apply:
  assumes "n \<le> 512" "\<And>i j. i < 512 \<Longrightarrow> j < 512 \<Longrightarrow> src + of_nat (8 * i) \<noteq> dst + of_nat (8 * j)"
  shows "i < n \<Longrightarrow> copy_words n src dst m (dst + of_nat (8 * i)) = m (src + of_nat (8 * i))"
    and "\<forall>i<n. a \<noteq> dst + of_nat (8 * i) \<Longrightarrow> copy_words n src dst m a = m a"
proof -
  show fr: "\<forall>i<n. a \<noteq> dst + of_nat (8 * i) \<Longrightarrow> copy_words n src dst m a = m a" for a n
    by (induction n) (auto simp: Let_def)
  show "i < n \<Longrightarrow> copy_words n src dst m (dst + of_nat (8 * i)) = m (src + of_nat (8 * i))"
    using assms(1)
  proof (induction n)
    case (Suc n)
    show ?case
    proof (cases "i = n")
      case True
      have "copy_words n src dst m (src + of_nat (8 * n)) = m (src + of_nat (8 * n))"
        using assms(2) Suc.prems by (intro fr) auto
      then show ?thesis using True by (simp add: Let_def)
    next
      case False
      then have "(of_nat (8 * i) :: u64) \<noteq> of_nat (8 * n)"
        using Suc.prems by (simp add: word_unat_eq_iff unat_of_nat del: of_nat_mult)
      then show ?thesis using Suc False by (simp add: Let_def)
    qed
  qed simp
qed

text \<open>The effect of a rendezvous with a waiting context, and of a reply to a waiting caller.\<close>

lemma rendezvous_some:
  assumes "this \<noteq> e" "cont (ecs s e) = Cont_null" "r_hst (regs (ecs s e)) \<noteq> 0"
  obtains s1 where "rendezvous this e c ce ip i mtd s = Some (Some e, s1)"
    "ecs s1 = (ecs s)(this := (ecs s this)\<lparr>cont := c, callee := e\<rparr>, e := (ecs s e)\<lparr>caller := this, cont := ce, regs := (regs (ecs s e))
      \<lparr>exc := (exc (regs (ecs s e)))\<lparr>sys := (sys (exc (regs (ecs s e))))(RCX := ip, RDI := i, RSI := mtd)\<rparr>\<rparr>\<rparr>)"
    "heap s1 = heap s" "hdr s1 = hdr s" "cpu_id s1 = cpu_id s" "cpu_hazard s1 = cpu_hazard s" "donations s1 = donations s + 1" "ec_current s1 (cpu_id s1) = e"
proof
  define s0 where s0: "s0 = upd_exc e (\<lambda>r. r\<lparr>sys := (sys r)(RCX := ip, RDI := i, RSI := mtd)\<rparr>) (upd_ec e (\<lambda>x. x\<lparr>cont := ce\<rparr>) (set_partner this e (upd_ec this (\<lambda>x. x\<lparr>cont := c\<rparr>) s)))"
  define s1 where s1: "s1 = (hst_make_current (r_hst (regs (ecs s0 e))) s0)\<lparr>ec_current := (ec_current s0)(cpu_id s0 := e)\<rparr>"
  show "rendezvous this e c ce ip i mtd s = Some (Some e, s1)"
    using assms by (simp add: rendezvous_def Let_def s1 s0 make_current_def upd_exc_def upd_regs_def set_partner_def)
  show "ecs s1 = (ecs s)(this := (ecs s this)\<lparr>cont := c, callee := e\<rparr>, e := (ecs s e)\<lparr>caller := this, cont := ce, regs := (regs (ecs s e))
      \<lparr>exc := (exc (regs (ecs s e)))\<lparr>sys := (sys (exc (regs (ecs s e))))(RCX := ip, RDI := i, RSI := mtd)\<rparr>\<rparr>\<rparr>)"
    using assms(1) by (intro ext) (simp add: s1 s0 set_partner_def upd_exc_def upd_regs_def Let_def)
  show "heap s1 = heap s" "hdr s1 = hdr s" "cpu_id s1 = cpu_id s" "cpu_hazard s1 = cpu_hazard s" "donations s1 = donations s + 1" "ec_current s1 (cpu_id s1) = e"
    by (simp_all add: s1 s0 set_partner_def upd_exc_def upd_regs_def Let_def)
qed

lemma reply_some:
  assumes "this \<noteq> e" "e \<noteq> 0" "caller (ecs s this) = e" "callee (ecs s e) = this" "this \<noteq> 0" "k_subtype (hdr s this) = EC_LOCAL" "donations s \<noteq> 0" "r_hst (regs (ecs s e)) \<noteq> 0"
  obtains s1 where "reply this c t s = Some (e, s1)" "ecs s1 = (ecs s)(this := (ecs s this)\<lparr>cont := c, caller := 0\<rparr>, e := (ecs s e)\<lparr>callee := 0\<rparr>)"
    "heap s1 = heap s" "cpu_id s1 = cpu_id s" "cpu_hazard s1 = cpu_hazard s" "donations s1 = donations s - 1" "ec_current s1 (cpu_id s1) = e"
proof
  define s0 where s0: "s0 = (upd_ec e (\<lambda>x. x\<lparr>callee := 0\<rparr>) (upd_ec this (\<lambda>x. x\<lparr>caller := 0\<rparr>) (upd_ec this (\<lambda>x. x\<lparr>cont := c\<rparr>) s)))\<lparr>donations := donations s - 1\<rparr>"
  define s1 where s1: "s1 = (hst_make_current (r_hst (regs (ecs s0 e))) s0)\<lparr>ec_current := (ec_current s0)(cpu_id s0 := e)\<rparr>"
  show "reply this c t s = Some (e, s1)" using assms by (simp add: reply_def Let_def s1 s0 make_current_def clr_partner_def)
  show "ecs s1 = (ecs s)(this := (ecs s this)\<lparr>cont := c, caller := 0\<rparr>, e := (ecs s e)\<lparr>callee := 0\<rparr>)" using assms(1) by (intro ext) (simp add: s1 s0)
  show "heap s1 = heap s" "cpu_id s1 = cpu_id s" "cpu_hazard s1 = cpu_hazard s" "donations s1 = donations s - 1" "ec_current s1 (cpu_id s1) = e" by (simp_all add: s1 s0)
qed

text \<open>Message registers, and when a call to the context is possible without delay.\<close>

definition mr :: "u64 \<Rightarrow> nat \<Rightarrow> nova \<Rightarrow> u64" where
  "mr x i s = mem (heap s) (utcb (ecs s x) + of_nat (8 * i))"

definition utcb_disjoint :: "u64 \<Rightarrow> u64 \<Rightarrow> bool" where
  "utcb_disjoint a b \<longleftrightarrow> (\<forall>i<512. \<forall>j<512. a + of_nat (8 * i) \<noteq> b + of_nat (8 * j))"

definition ipc_ready :: "u64 \<Rightarrow> u64 \<Rightarrow> nova \<Rightarrow> bool" where
  "ipc_ready this e s \<longleftrightarrow> this \<noteq> e \<and> this \<noteq> 0 \<and> e \<noteq> 0 \<and> k_subtype (hdr s e) = EC_LOCAL \<and> cont (ecs s e) = Cont_null \<and> r_hst (regs (ecs s this)) \<noteq> 0 \<and> r_hst (regs (ecs s e)) \<noteq> 0 \<and>
     utcb (ecs s this) \<noteq> 0 \<and> utcb (ecs s e) \<noteq> 0 \<and> utcb_disjoint (utcb (ecs s this)) (utcb (ecs s e)) \<and> donations s \<noteq> - 1 \<and> callee (ecs s this) = 0 \<and> caller (ecs s e) = 0 \<and>
     ec_cpu (ecs s this) = ec_cpu (ecs s e) \<and> calm this s \<and> calm e s"

lemma utcb_disjoint_sym: "utcb_disjoint a b \<Longrightarrow> utcb_disjoint b a"
  unfolding utcb_disjoint_def by metis

lemma utcb_copy_words:
  assumes "utcb_disjoint src dst"
  shows "i < mtd_count m \<Longrightarrow> utcb_copy m src dst M (dst + of_nat (8 * i)) = M (src + of_nat (8 * i))"
    and "\<forall>i<mtd_count m. a \<noteq> dst + of_nat (8 * i) \<Longrightarrow> utcb_copy m src dst M a = M a"
proof -
  have n: "mtd_count m \<le> 512" by (simp add: mtd_count_def Suc_le_eq)
  have d: "\<And>i j. i < 512 \<Longrightarrow> j < 512 \<Longrightarrow> src + of_nat (8 * i) \<noteq> dst + of_nat (8 * j)" using assms unfolding utcb_disjoint_def by blast
  show "i < mtd_count m \<Longrightarrow> utcb_copy m src dst M (dst + of_nat (8 * i)) = M (src + of_nat (8 * i))"
    unfolding utcb_copy_def by (rule copy_words_apply(1) [OF n d])
  show "\<forall>i<mtd_count m. a \<noteq> dst + of_nat (8 * i) \<Longrightarrow> utcb_copy m src dst M a = M a"
    unfolding utcb_copy_def by (rule copy_words_apply(2) [OF n d])
qed

lemma resume_leave: "invoke K (cont (ecs s x)) x s = Some (Leave y, s') \<Longrightarrow> resume K (Run x) s = Some (Leave y, s')"
  by (subst resume.simps) (simp add: resume.simps [of K "Leave y"])

lemma ipc_call_delivers:
  assumes "ipc_ready this e s" "validate_pt (hdr s) cpt PT_CALL" "cpt = own_lookup this (abi_sel this s) s" "e = pt_ec (pts s (cap_obj cpt))"
  obtains s1 s2 where "sys_ipc_call K this s = Some (Run e, s1)" "resume K (Run e) s1 = Some (Leave e, s2)"
    "ecs s2 = (ecs s)(this := (ecs s this)\<lparr>cont := Ret_hypercall, callee := e\<rparr>, e := (ecs s e)\<lparr>caller := this, cont := Recv_user, regs := (regs (ecs s e))
      \<lparr>exc := (exc (regs (ecs s e)))\<lparr>sys := (sys (exc (regs (ecs s e))))(RCX := pt_ip (pts s (cap_obj cpt)), RDI := pt_id (pts s (cap_obj cpt)), RSI := ucast (abi_mtd this s))\<rparr>\<rparr>\<rparr>)"
    "heap s2 = (heap s)\<lparr>mem := utcb_copy (abi_mtd this s) (utcb (ecs s this)) (utcb (ecs s e)) (mem (heap s))\<rparr>"
    "hdr s2 = hdr s" "cpu_id s2 = cpu_id s" "donations s2 = donations s + 1" "ec_current s2 (cpu_id s2) = e" "calm this s2"
proof -
  have r: "this \<noteq> e" "this \<noteq> 0" "cont (ecs s e) = Cont_null" "r_hst (regs (ecs s e)) \<noteq> 0" "k_subtype (hdr s e) = EC_LOCAL" "utcb (ecs s this) \<noteq> 0" "utcb (ecs s e) \<noteq> 0" "ec_cpu (ecs s this) = ec_cpu (ecs s e)"
    "calm this s" "calm e s"
    using assms(1) unfolding ipc_ready_def by simp_all
  define p where p: "p = pts s (cap_obj cpt)"
  define m where m: "m = abi_mtd this s"
  obtain s1 where s1: "rendezvous this e Ret_hypercall Recv_user (pt_ip p) (pt_id p) (ucast m) s = Some (Some e, s1)"
    "ecs s1 = (ecs s)(this := (ecs s this)\<lparr>cont := Ret_hypercall, callee := e\<rparr>, e := (ecs s e)\<lparr>caller := this, cont := Recv_user, regs := (regs (ecs s e))
      \<lparr>exc := (exc (regs (ecs s e)))\<lparr>sys := (sys (exc (regs (ecs s e))))(RCX := pt_ip p, RDI := pt_id p, RSI := ucast m)\<rparr>\<rparr>\<rparr>)"
    "heap s1 = heap s" "hdr s1 = hdr s" "cpu_id s1 = cpu_id s" "cpu_hazard s1 = cpu_hazard s" "donations s1 = donations s + 1" "ec_current s1 (cpu_id s1) = e"
    by (rule rendezvous_some [OF r(1,3,4)])
  have call: "sys_ipc_call K this s = Some (Run e, s1)"
    using assms(2,4) r(5,8) s1(1) by (simp add: sys_ipc_call_def Let_def flip: assms(3) p m)
  have mt: "abi_mtd e s1 = m" using r(1) by (simp add: abi_mtd_def abi_p1_def gpr_of_def s1(2) ucast_up_ucast_id is_up)
  define s1' where s1': "s1' = copy_utcb m this e s1"
  have f: "ecs s1' = ecs s1" "hdr s1' = hdr s1" "cpu_id s1' = cpu_id s1" "cpu_hazard s1' = cpu_hazard s1" "donations s1' = donations s1" "ec_current s1' = ec_current s1"
    "heap s1' = (heap s)\<lparr>mem := utcb_copy m (utcb (ecs s this)) (utcb (ecs s e)) (mem (heap s))\<rparr>"
    using r(1) by (simp_all add: s1' copy_utcb_def s1(2,3))
  have "calm e s1'" using r(1,10) by (simp add: calm_def f s1(2,6))
  then obtain s2 where s2: "ret_user_hypercall K e s1' = Some (Leave e, s2)" "left_kernel s1' s2" using ret_user_hypercall_calm by blast
  have "recv_user K e s1 = Some (Leave e, s2)"
    using r s1(4) s2(1) by (simp add: recv_user_def s1(2) mt Let_def flip: s1')
  then have run: "resume K (Run e) s1 = Some (Leave e, s2)" by (intro resume_leave) (simp add: s1(2))
  note l = left_kernel_frame [OF s2(2)]
  have "calm this s1'" using r(1,9) by (simp add: calm_def f s1(2,6))
  show thesis
    by (rule that [OF call run]) (simp_all add: l f s1 \<open>calm this s1'\<close> flip: p m, use s1(5,8) in simp)
qed

lemma ipc_reply_delivers:
  assumes "this \<noteq> e" "this \<noteq> 0" "e \<noteq> 0" "caller (ecs s this) = e" "callee (ecs s e) = this" "k_subtype (hdr s this) = EC_LOCAL" "donations s \<noteq> 0" "r_hst (regs (ecs s e)) \<noteq> 0"
    and "cont (ecs s e) = Ret_hypercall" "calm e s"
  obtains s1 s2 where "sys_ipc_reply K this s = Some (Run e, s1)" "resume K (Run e) s1 = Some (Leave e, s2)"
    "ecs s2 = (ecs s)(this := (ecs s this)\<lparr>cont := Cont_null, caller := 0\<rparr>, e := (ecs s e)\<lparr>regs := (regs (ecs s e))
      \<lparr>exc := (exc (regs (ecs s e)))\<lparr>sys := (sys (exc (regs (ecs s e))))(RSI := ucast (abi_mtd this s))\<rparr>\<rparr>, callee := 0\<rparr>)"
    "heap s2 = (heap s)\<lparr>mem := utcb_copy (abi_mtd this s) (utcb (ecs s this)) (utcb (ecs s e)) (mem (heap s))\<rparr>"
    "cpu_id s2 = cpu_id s" "donations s2 = donations s - 1" "ec_current s2 (cpu_id s2) = e"
proof -
  define m where m: "m = abi_mtd this s"
  define s0 where s0: "s0 = copy_utcb m this e (set_gpr e RSI (ucast m) s)"
  have f: "ecs s0 = (ecs s)(e := (ecs s e)\<lparr>regs := (regs (ecs s e))\<lparr>exc := (exc (regs (ecs s e)))\<lparr>sys := (sys (exc (regs (ecs s e))))(RSI := ucast m)\<rparr>\<rparr>\<rparr>)"
    "hdr s0 = hdr s" "cpu_id s0 = cpu_id s" "donations s0 = donations s" "cpu_hazard s0 = cpu_hazard s"
    "heap s0 = (heap s)\<lparr>mem := utcb_copy m (utcb (ecs s this)) (utcb (ecs s e)) (mem (heap s))\<rparr>"
    using assms(1) by (auto simp: s0 copy_utcb_def set_gpr_def upd_exc_def upd_regs_def)
  have g: "caller (ecs s0 this) = e" "callee (ecs s0 e) = this" "k_subtype (hdr s0 this) = EC_LOCAL" "donations s0 \<noteq> 0" "r_hst (regs (ecs s0 e)) \<noteq> 0"
    using assms by (simp_all add: f)
  obtain s1 where s1: "reply this Cont_null (k_now K) s0 = Some (e, s1)" "ecs s1 = (ecs s0)(this := (ecs s0 this)\<lparr>cont := Cont_null, caller := 0\<rparr>, e := (ecs s0 e)\<lparr>callee := 0\<rparr>)"
    "heap s1 = heap s0" "cpu_id s1 = cpu_id s0" "cpu_hazard s1 = cpu_hazard s0" "donations s1 = donations s0 - 1" "ec_current s1 (cpu_id s1) = e"
    by (rule reply_some [OF assms(1,3) g(1,2) assms(2) g(3-5)])
  have rep: "sys_ipc_reply K this s = Some (Run e, s1)"
    using assms(3,4,9) s1(1) by (simp add: sys_ipc_reply_def Let_def run_def flip: m s0)
  have e1: "ecs s1 e = (ecs s0 e)\<lparr>callee := 0\<rparr>" using s1(2) by simp
  have "calm e s1" using assms(10) by (simp add: calm_def e1 s1(5) f)
  then obtain s2 where s2: "ret_user_hypercall K e s1 = Some (Leave e, s2)" "left_kernel s1 s2" using ret_user_hypercall_calm by blast
  have run: "resume K (Run e) s1 = Some (Leave e, s2)" by (intro resume_leave) (simp add: e1 f assms(9) s2(1))
  note l = left_kernel_frame [OF s2(2)]
  show thesis
    by (rule that [OF rep run]) (use assms(1) s1(7) in \<open>simp_all add: l f s1(2-6) fun_upd_twist flip: m\<close>)
qed

lemma entry_sys_0: "g RDI AND mask 4 = 0 \<Longrightarrow> entry_sys K g s = sys_ipc_call K (ec_current s (cpu_id s)) (upd_exc (ec_current s (cpu_id s)) (\<lambda>r. r\<lparr>sys := g\<rparr>) s)"
  by (simp add: entry_sys_def syscall_def Let_def)

lemma entry_sys_1: "g RDI AND mask 4 = 1 \<Longrightarrow> entry_sys K g s = sys_ipc_reply K (ec_current s (cpu_id s)) (upd_exc (ec_current s (cpu_id s)) (\<lambda>r. r\<lparr>sys := g\<rparr>) s)"
  by (simp add: entry_sys_def syscall_def Let_def)

lemma ipc_ready_entry: "ipc_ready this e (upd_exc this (\<lambda>r. r\<lparr>sys := g\<rparr>) s) = ipc_ready this e s"
  by (cases "this = e") (simp_all add: ipc_ready_def upd_exc_def upd_regs_def calm_def)

text \<open>The handler replies from a state in which the call is pending, with arbitrary registers and memory.\<close>

lemma ipc_handler_returns:
  assumes "ipc_ready this e u"
    and ecs: "ecs s2 = (ecs u)(this := (ecs u this)\<lparr>cont := Ret_hypercall, callee := e\<rparr>, e := (ecs u e)\<lparr>caller := this, cont := Recv_user, regs := (regs (ecs u e))\<lparr>exc := x\<rparr>\<rparr>)"
    and "hdr s2 = hdr u" "donations s2 = donations u + 1" "ec_current s2 (cpu_id s2) = e" "calm this s2" "g' RDI AND mask 4 = 1"
  obtains s3 s4 where "entry_sys K g' (s2\<lparr>heap := (heap s2)\<lparr>mem := M\<rparr>\<rparr>) = Some (Run this, s3)" "resume K (Run this) s3 = Some (Leave this, s4)"
    "ecs s4 this = (ecs u this)\<lparr>regs := (regs (ecs u this))\<lparr>exc := (exc (regs (ecs u this)))\<lparr>sys := (sys (exc (regs (ecs u this))))(RSI := ucast (ucast (g' RSI) :: u32))\<rparr>\<rparr>, cont := Ret_hypercall\<rparr>"
    "\<forall>i<mtd_count (ucast (g' RSI)). mr this i s4 = M (utcb (ecs u e) + of_nat (8 * i))"
    "ecs s4 e = (ecs u e)\<lparr>regs := (regs (ecs u e))\<lparr>exc := x\<lparr>sys := g'\<rparr>\<rparr>\<rparr>" "donations s4 = donations u"
proof -
  have r: "this \<noteq> e" "this \<noteq> 0" "e \<noteq> 0" "k_subtype (hdr u e) = EC_LOCAL" "utcb_disjoint (utcb (ecs u this)) (utcb (ecs u e))" "donations u \<noteq> - 1" "r_hst (regs (ecs u this)) \<noteq> 0" "cont (ecs u e) = Cont_null"
    "callee (ecs u this) = 0" "caller (ecs u e) = 0"
    using assms(1) unfolding ipc_ready_def by simp_all
  define v where v: "v = upd_exc e (\<lambda>r. r\<lparr>sys := g'\<rparr>) (s2\<lparr>heap := (heap s2)\<lparr>mem := M\<rparr>\<rparr>)"
  have ev: "ecs v this = ecs s2 this" "ecs v e = (ecs s2 e)\<lparr>regs := (regs (ecs s2 e))\<lparr>exc := (exc (regs (ecs s2 e)))\<lparr>sys := g'\<rparr>\<rparr>\<rparr>"
    "hdr v = hdr s2" "donations v = donations s2" "cpu_hazard v = cpu_hazard s2" "mem (heap v) = M"
    using r(1) by (simp_all add: v upd_exc_def upd_regs_def)
  have m: "abi_mtd e v = ucast (g' RSI)" by (simp add: abi_mtd_def abi_p1_def gpr_of_def ev)
  have q: "caller (ecs v e) = this" "callee (ecs v this) = e" "k_subtype (hdr v e) = EC_LOCAL" "r_hst (regs (ecs v this)) \<noteq> 0" "cont (ecs v this) = Ret_hypercall" "calm this v"
    using r assms(6) by (simp_all add: ev ecs assms(3) calm_def)
  have nz: "donations v \<noteq> 0" using r(6) assms(4) by (metis ev(4) add_eq_0_iff2)
  obtain s3 s4 where s: "sys_ipc_reply K e v = Some (Run this, s3)" "resume K (Run this) s3 = Some (Leave this, s4)"
    "ecs s4 = (ecs v)(e := (ecs v e)\<lparr>cont := Cont_null, caller := 0\<rparr>, this := (ecs v this)\<lparr>regs := (regs (ecs v this))
      \<lparr>exc := (exc (regs (ecs v this)))\<lparr>sys := (sys (exc (regs (ecs v this))))(RSI := ucast (abi_mtd e v))\<rparr>\<rparr>, callee := 0\<rparr>)"
    "heap s4 = (heap v)\<lparr>mem := utcb_copy (abi_mtd e v) (utcb (ecs v e)) (utcb (ecs v this)) (mem (heap v))\<rparr>" "donations s4 = donations v - 1"
    by (rule ipc_reply_delivers [OF r(1) [symmetric] r(3,2) q(1-3) nz q(4-6), of K])
  show thesis
  proof (rule that)
    show "entry_sys K g' (s2\<lparr>heap := (heap s2)\<lparr>mem := M\<rparr>\<rparr>) = Some (Run this, s3)" using s(1) assms(5,7) by (simp add: entry_sys_1 flip: v)
    show "resume K (Run this) s3 = Some (Leave this, s4)" by (rule s(2))
    show "ecs s4 this = (ecs u this)\<lparr>regs := (regs (ecs u this))\<lparr>exc := (exc (regs (ecs u this)))\<lparr>sys := (sys (exc (regs (ecs u this))))(RSI := ucast (ucast (g' RSI) :: u32))\<rparr>\<rparr>, cont := Ret_hypercall\<rparr>"
      using r(1,9) by (simp add: s(3) m ev(1) ecs)
    show "\<forall>i<mtd_count (ucast (g' RSI)). mr this i s4 = M (utcb (ecs u e) + of_nat (8 * i))"
      using utcb_copy_words(1) [OF utcb_disjoint_sym [OF r(5)]] r(1) by (simp add: mr_def s(3,4) m ev ecs)
    show "ecs s4 e = (ecs u e)\<lparr>regs := (regs (ecs u e))\<lparr>exc := x\<lparr>sys := g'\<rparr>\<rparr>\<rparr>" using r(1,8,10) by (simp add: s(3) ev(2) ecs)
    show "donations s4 = donations u" by (simp add: s(5) ev assms(4))
  qed
qed

text \<open>
  C1: A message reaches the server and its reply reaches the client. The context of a client that executes the call hypercall on a portal for which it has the CALL permission, while
  the handler of the portal waits on the same core and no hazard is pending, stays in the kernel, and the handler leaves it at the entry point of the portal with the portal
  identifier and the message descriptor in its registers and the words of the message in its UTCB; no other memory changes. Whatever the handler does with its registers
  and with memory, when it executes the reply hypercall, the client leaves the kernel with all registers as they were but the descriptor of the reply, and with
  the words of the reply in its UTCB. Then client and handler are as before the call, and the handler waits for the next one.
\<close>

theorem ipc_message_roundtrip:
  assumes "this = ec_current s (cpu_id s)" "g RDI AND mask 4 = 0" "cpt = own_lookup this (drop_bit 8 (g RDI)) s" "validate_pt (hdr s) cpt PT_CALL"
    and "p = pts s (cap_obj cpt)" "ipc_ready this (pt_ec p) s" "n = mtd_count (ucast (g RSI))"
  shows "\<exists>s1 s2. entry_sys K g s = Some (Run (pt_ec p), s1) \<and> resume K (Run (pt_ec p)) s1 = Some (Leave (pt_ec p), s2) \<and>
    gpr_of (pt_ec p) RCX s2 = pt_ip p \<and> gpr_of (pt_ec p) RDI s2 = pt_id p \<and> gpr_of (pt_ec p) RSI s2 = ucast (ucast (g RSI) :: u32) \<and>
    (\<forall>i<n. mr (pt_ec p) i s2 = mr this i s) \<and> (\<forall>a. (\<forall>i<n. a \<noteq> utcb (ecs s (pt_ec p)) + of_nat (8 * i)) \<longrightarrow> mem (heap s2) a = mem (heap s) a) \<and>
    (\<forall>g' M. g' RDI AND mask 4 = 1 \<longrightarrow> (\<exists>s3 s4. entry_sys K g' (s2\<lparr>heap := (heap s2)\<lparr>mem := M\<rparr>\<rparr>) = Some (Run this, s3) \<and> resume K (Run this) s3 = Some (Leave this, s4) \<and>
      ecs s4 this = (ecs s this)\<lparr>regs := (regs (ecs s this))\<lparr>exc := (exc (regs (ecs s this)))\<lparr>sys := g(RSI := ucast (ucast (g' RSI) :: u32))\<rparr>\<rparr>, cont := Ret_hypercall\<rparr> \<and>
      (\<forall>i<mtd_count (ucast (g' RSI)). mr this i s4 = M (utcb (ecs s (pt_ec p)) + of_nat (8 * i))) \<and>
      ecs s4 (pt_ec p) = (ecs s (pt_ec p))\<lparr>regs := (regs (ecs s (pt_ec p)))\<lparr>exc := (exc (regs (ecs s (pt_ec p))))\<lparr>sys := g'\<rparr>\<rparr>\<rparr> \<and> donations s4 = donations s))"
proof -
  define e where e: "e = pt_ec p"
  define u where u: "u = upd_exc this (\<lambda>r. r\<lparr>sys := g\<rparr>) s"
  have r: "this \<noteq> e" "this \<noteq> 0" "e \<noteq> 0" "k_subtype (hdr s e) = EC_LOCAL" "utcb_disjoint (utcb (ecs s this)) (utcb (ecs s e))" "donations s \<noteq> - 1" "r_hst (regs (ecs s this)) \<noteq> 0" "cont (ecs s e) = Cont_null"
    "callee (ecs s this) = 0" "caller (ecs s e) = 0"
    using assms(6) unfolding ipc_ready_def e by simp_all
  have f: "heap u = heap s" "hdr u = hdr s" "cpu_id u = cpu_id s" "pts u = pts s" "donations u = donations s" "ec_current u = ec_current s" by (simp_all add: u upd_exc_def upd_regs_def)
  have eu: "ecs u = (ecs s)(this := (ecs s this)\<lparr>regs := (regs (ecs s this))\<lparr>exc := (exc (regs (ecs s this)))\<lparr>sys := g\<rparr>\<rparr>\<rparr>)"
    by (simp add: u upd_exc_def upd_regs_def upd_ec_def)
  have a: "abi_mtd this u = ucast (g RSI)" "abi_sel this u = drop_bit 8 (g RDI)" "own_lookup this sel u = own_lookup this sel s" for sel
    by (auto simp: abi_mtd_def abi_sel_def abi_p1_def abi_p0_def gpr_of_def eu own_lookup_def own_obj_def f)
  have h: "ipc_ready this e u" "validate_pt (hdr u) cpt PT_CALL" "cpt = own_lookup this (abi_sel this u) u" "e = pt_ec (pts u (cap_obj cpt))"
    using assms(3-6) ipc_ready_entry [of this e g s] by (simp_all add: a f e flip: u)
  obtain s1 s2 where c: "sys_ipc_call K this u = Some (Run e, s1)" "resume K (Run e) s1 = Some (Leave e, s2)"
    "ecs s2 = (ecs u)(this := (ecs u this)\<lparr>cont := Ret_hypercall, callee := e\<rparr>, e := (ecs u e)\<lparr>caller := this, cont := Recv_user, regs := (regs (ecs u e))
      \<lparr>exc := (exc (regs (ecs u e)))\<lparr>sys := (sys (exc (regs (ecs u e))))(RCX := pt_ip p, RDI := pt_id p, RSI := ucast (ucast (g RSI) :: u32))\<rparr>\<rparr>\<rparr>)"
    "heap s2 = (heap s)\<lparr>mem := utcb_copy (ucast (g RSI)) (utcb (ecs s this)) (utcb (ecs s e)) (mem (heap s))\<rparr>"
    "hdr s2 = hdr u" "cpu_id s2 = cpu_id u" "donations s2 = donations u + 1" "ec_current s2 (cpu_id s2) = e" "calm this s2"
    by (rule ipc_call_delivers [OF h, of K]) (use r(1) in \<open>simp add: a f eu assms(5)\<close>)
  have ue: "utcb (ecs s2 e) = utcb (ecs s e)" using r(1) by (simp add: c(3) eu)
  have ret: "\<exists>s3 s4. entry_sys K g' (s2\<lparr>heap := (heap s2)\<lparr>mem := M\<rparr>\<rparr>) = Some (Run this, s3) \<and> resume K (Run this) s3 = Some (Leave this, s4) \<and>
      ecs s4 this = (ecs s this)\<lparr>regs := (regs (ecs s this))\<lparr>exc := (exc (regs (ecs s this)))\<lparr>sys := g(RSI := ucast (ucast (g' RSI) :: u32))\<rparr>\<rparr>, cont := Ret_hypercall\<rparr> \<and>
      (\<forall>i<mtd_count (ucast (g' RSI)). mr this i s4 = M (utcb (ecs s e) + of_nat (8 * i))) \<and>
      ecs s4 e = (ecs s e)\<lparr>regs := (regs (ecs s e))\<lparr>exc := (exc (regs (ecs s e)))\<lparr>sys := g'\<rparr>\<rparr>\<rparr> \<and> donations s4 = donations s"
    if i: "g' RDI AND mask 4 = 1" for g' M
    by (rule ipc_handler_returns [where x = "(exc (regs (ecs u e)))\<lparr>sys := (sys (exc (regs (ecs u e))))(RCX := pt_ip p, RDI := pt_id p, RSI := ucast (ucast (g RSI) :: u32))\<rparr>" and this = this and
        e = e and u = u and ?s2.0 = s2 and g' = g' and K = K and M = M]) (use h(1) c(3,5,7-9) i r(1) in \<open>auto simp: eu f\<close>)
  have "entry_sys K g s = Some (Run e, s1)" using c(1) assms(1,2) by (simp add: entry_sys_0 u)
  moreover have "gpr_of e RCX s2 = pt_ip p" "gpr_of e RDI s2 = pt_id p" "gpr_of e RSI s2 = ucast (ucast (g RSI) :: u32)" by (simp_all add: gpr_of_def c(3))
  moreover have "\<forall>i<n. mr e i s2 = mr this i s" using utcb_copy_words(1) [OF r(5)] by (simp add: mr_def ue c(4) assms(7))
  moreover have "\<forall>a. (\<forall>i<n. a \<noteq> utcb (ecs s e) + of_nat (8 * i)) \<longrightarrow> mem (heap s2) a = mem (heap s) a" using utcb_copy_words(2) [OF r(5)] by (simp add: c(4) assms(7))
  ultimately show ?thesis unfolding e [symmetric] using c(2) ret by blast
qed

text \<open>A client 0x400 and a waiting handler 0x410 on one core; selector 5 of the object space of the client is a capability for the portal 0x600.\<close>

definition nova_ipc :: nova where
  "nova_ipc = kern.extend (kern0\<lparr>heap := (heap kern0)\<lparr>root_of := (\<lambda>_. 0x10000), mem := (\<lambda>_. 77)(0x10000 := 0x11000, 0x11028 := 0x602)\<rparr>,
     hdr := (hdr kern0)(0x410 := \<lparr>k_type = Type_EC, k_subtype = EC_LOCAL\<rparr>, 0x600 := \<lparr>k_type = Type_PT, k_subtype = 0\<rparr>),
     ecs := (\<lambda>_. ec0\<lparr>regs := regs0\<lparr>r_hst := 0x700\<rparr>, utcb := 0x20000\<rparr>)(0x410 := ec0\<lparr>cont := Cont_null, regs := regs0\<lparr>r_hst := 0x710\<rparr>, utcb := 0x30000\<rparr>),
     pts := (\<lambda>_. \<lparr>pt_ec = 0x410, pt_ip = 0x8000, pt_id = 9, pt_mtd = 0\<rparr>), ec_current := (\<lambda>_. 0x400)\<rparr>) (nova.fields rcu_init cos_demo 0 (\<lambda>_. 0))"

lemma nova_ipc_fields: "cpu_id nova_ipc = 0" "cpu_hazard nova_ipc = 0" "ec_current nova_ipc = (\<lambda>_. 0x400)" "donations nova_ipc = 0" "pts nova_ipc = (\<lambda>_. \<lparr>pt_ec = 0x410, pt_ip = 0x8000, pt_id = 9, pt_mtd = 0\<rparr>)"
  "ecs nova_ipc = (\<lambda>_. ec0\<lparr>regs := regs0\<lparr>r_hst := 0x700\<rparr>, utcb := 0x20000\<rparr>)(0x410 := ec0\<lparr>cont := Cont_null, regs := regs0\<lparr>r_hst := 0x710\<rparr>, utcb := 0x30000\<rparr>)"
  "hdr nova_ipc = (hdr kern0)(0x410 := \<lparr>k_type = Type_EC, k_subtype = EC_LOCAL\<rparr>, 0x600 := \<lparr>k_type = Type_PT, k_subtype = 0\<rparr>)"
  "root_of (heap nova_ipc) = (\<lambda>_. 0x10000)" "mem (heap nova_ipc) = (\<lambda>_. 77)(0x10000 := 0x11000, 0x11028 := 0x602)"
  by (simp_all add: nova_ipc_def kern.defs nova.defs kern0_def)

lemma utcb_disjoint_demo: "utcb_disjoint 0x20000 0x30000"
proof -
  have "(0x20000 :: u64) + of_nat (8 * i) \<noteq> 0x30000 + of_nat (8 * j)" if "i < 512" "j < 512" for i j :: nat
  proof
    assume "(0x20000 :: u64) + of_nat (8 * i) = 0x30000 + of_nat (8 * j)"
    then have "(of_nat (8 * i) :: u64) = of_nat (0x10000 + 8 * j)" by simp
    then show False using that by (simp only: word_of_nat_eq_iff) (simp add: take_bit_nat_eq_self)
  qed
  then show ?thesis unfolding utcb_disjoint_def by blast
qed

lemma nova_ipc_ready: "ipc_ready 0x400 0x410 nova_ipc"
  by (simp add: ipc_ready_def nova_ipc_fields ec0_def regs0_def calm_def utcb_disjoint_demo)

lemma nova_ipc_lookup: "own_lookup 0x400 5 nova_ipc = 0x602"
proof -
  have i: "cap_index 5 0 = 5" "cap_index 5 (Suc 0) = 0" by (simp_all add: cap_index_def bpl_def entries_def drop_bit_eq_div)
  have l: "lev = Suc (Suc 0)" by (simp add: lev_def)
  show ?thesis by (simp add: own_lookup_def own_obj_def so_lookup_def l nova_ipc_fields rd_def ec0_def regs0_def slot_def i)
qed

definition call_regs :: "gpr \<Rightarrow> u64" where "call_regs r = (if r = RDI then 0x500 else 3)"
definition reply_regs :: "gpr \<Rightarrow> u64" where "reply_regs r = (if r = RDI then 1 else 2)"

theorem ipc_message_roundtrip_witness:
  "\<forall>K. \<exists>s1 s2. entry_sys K call_regs nova_ipc = Some (Run 0x410, s1) \<and> resume K (Run 0x410) s1 = Some (Leave 0x410, s2) \<and> gpr_of 0x410 RCX s2 = 0x8000 \<and>
    (\<exists>s3 s4. entry_sys K reply_regs (s2\<lparr>heap := (heap s2)\<lparr>mem := \<lambda>_. 5\<rparr>\<rparr>) = Some (Run 0x400, s3) \<and> resume K (Run 0x400) s3 = Some (Leave 0x400, s4) \<and>
      gpr_of 0x400 RSI s4 = 2 \<and> mr 0x400 2 s4 = 5)"
proof
  fix K
  let ?p = "\<lparr>pt_ec = 0x410, pt_ip = 0x8000, pt_id = 9, pt_mtd = 0\<rparr>"
  have a: "0x400 = ec_current nova_ipc (cpu_id nova_ipc)" "call_regs RDI AND mask 4 = 0" "0x602 = own_lookup 0x400 (drop_bit 8 (call_regs RDI)) nova_ipc" "validate_pt (hdr nova_ipc) 0x602 PT_CALL"
    "?p = pts nova_ipc (cap_obj 0x602)" "ipc_ready 0x400 (pt_ec ?p) nova_ipc"
    using nova_ipc_lookup nova_ipc_ready by (simp_all add: nova_ipc_fields call_regs_def mask_eq_exp_minus_1 validate_pt_def validate_type_def cap_obj_def cap_prm_def pmask_def drop_bit_eq_div)
  have h: "reply_regs RDI AND mask 4 = 1" by (simp add: mask_eq_exp_minus_1 reply_regs_def)
  show "\<exists>s1 s2. entry_sys K call_regs nova_ipc = Some (Run 0x410, s1) \<and> resume K (Run 0x410) s1 = Some (Leave 0x410, s2) \<and> gpr_of 0x410 RCX s2 = 0x8000 \<and>
    (\<exists>s3 s4. entry_sys K reply_regs (s2\<lparr>heap := (heap s2)\<lparr>mem := \<lambda>_. 5\<rparr>\<rparr>) = Some (Run 0x400, s3) \<and> resume K (Run 0x400) s3 = Some (Leave 0x400, s4) \<and> gpr_of 0x400 RSI s4 = 2 \<and> mr 0x400 2 s4 = 5)"
    apply (insert ipc_message_roundtrip [where g = call_regs and s = nova_ipc and this = "0x400" and cpt = "0x602" and p = ?p and K = K, OF a refl])
    apply (elim exE conjE)
    apply (drule spec [of _ reply_regs], drule spec [of _ "\<lambda>_. 5"], drule mp [OF _ h], elim exE conjE)
    apply (intro exI conjI)
          apply (simp_all only: pt.select_convs)
     apply (simp_all add: gpr_of_def reply_regs_def mtd_count_def)
    done
qed

section \<open>Authority\<close>

text \<open>The capabilities without which a hypercall must not have an effect; replies need none.\<close>

definition authority :: "kenv \<Rightarrow> u64 \<Rightarrow> nova \<Rightarrow> bool list" where
  "authority K x s =
     (let h = hdr s; sel = own_lookup x (abi_sel x s) s; c1 = own_lookup x (abi_p1 x s) s; c2 = own_lookup x (abi_p2 x s) s;
          root = (own_obj x s = space_obj (pds s (root_pd (k_stat K))))
      in [validate_pt h sel PT_CALL, True, validate_pd h c1 PD_PD, validate_pd h c1 PD_EC, validate_pd h c1 PD_SC \<and> validate_ec h c2 EC_BIND_SC,
          validate_pd h c1 PD_PT \<and> validate_ec h c2 EC_BIND_PT, validate_pd h c1 PD_SM, validate_take_grant h sel c1 \<noteq> None, validate_ec h sel EC_CTRL,
          validate_sc h sel SC_CTRL, validate_pt h sel PT_CTRL, validate_sm h sel (if abi_flags x s AND 1 \<noteq> 0 then SM_CTRL_DN else SM_CTRL_UP), root,
          validate_sm h sel SM_ASSIGN, root \<and> validate_sp h sel SP_ASSIGN Subtype_DMA, False])"

definition authorized :: "kenv \<Rightarrow> nat \<Rightarrow> u64 \<Rightarrow> nova \<Rightarrow> bool" where
  "authorized K n x s = authority K x s ! n"

definition refused :: "kenv \<Rightarrow> u64 \<Rightarrow> nova \<Rightarrow> exit \<Rightarrow> bool" where
  "refused K x s r \<longleftrightarrow> (\<exists>st \<in> {BAD_HYP, BAD_CAP, BAD_PAR, BAD_CPU}. r = sys_finish_status K st x s)"

lemma refusedI [intro, simp]:
  "refused K x s (sys_finish_status K BAD_HYP x s)" "refused K x s (sys_finish_status K BAD_CAP x s)" "refused K x s (sys_finish_status K BAD_PAR x s)" "refused K x s (sys_finish_status K BAD_CPU x s)"
  by (auto simp: refused_def)

lemma refused_create:
  "\<not> validate_pd (hdr s) (own_lookup x (abi_p1 x s) s) PD_PD \<Longrightarrow> refused K x s (sys_create_pd K x s)"
  "\<not> validate_pd (hdr s) (own_lookup x (abi_p1 x s) s) PD_EC \<Longrightarrow> refused K x s (sys_create_ec K x s)"
  "\<not> (validate_pd (hdr s) (own_lookup x (abi_p1 x s) s) PD_SC \<and> validate_ec (hdr s) (own_lookup x (abi_p2 x s) s) EC_BIND_SC) \<Longrightarrow> refused K x s (sys_create_sc K x s)"
  "\<not> (validate_pd (hdr s) (own_lookup x (abi_p1 x s) s) PD_PT \<and> validate_ec (hdr s) (own_lookup x (abi_p2 x s) s) EC_BIND_PT) \<Longrightarrow> refused K x s (sys_create_pt K x s)"
  "\<not> validate_pd (hdr s) (own_lookup x (abi_p1 x s) s) PD_SM \<Longrightarrow> refused K x s (sys_create_sm K x s)"
  subgoal by (simp add: sys_create_pd_def Let_def)
  subgoal by (simp add: sys_create_ec_def Let_def)
  subgoal by (auto simp: sys_create_sc_def Let_def split: prod.split)
  subgoal by (auto simp: sys_create_pt_def Let_def)
  subgoal by (simp add: sys_create_sm_def Let_def)
  done

lemma refused_ctrl:
  "\<not> validate_pt (hdr s) (own_lookup x (abi_sel x s) s) PT_CALL \<Longrightarrow> refused K x s (sys_ipc_call K x s)"
  "validate_take_grant (hdr s) (own_lookup x (abi_sel x s) s) (own_lookup x (abi_p1 x s) s) = None \<Longrightarrow> refused K x s (sys_ctrl_pd K x s)"
  "\<not> validate_ec (hdr s) (own_lookup x (abi_sel x s) s) EC_CTRL \<Longrightarrow> refused K x s (sys_ctrl_ec K x s)"
  "\<not> validate_sc (hdr s) (own_lookup x (abi_sel x s) s) SC_CTRL \<Longrightarrow> refused K x s (sys_ctrl_sc K x s)"
  "\<not> validate_pt (hdr s) (own_lookup x (abi_sel x s) s) PT_CTRL \<Longrightarrow> refused K x s (sys_ctrl_pt K x s)"
  "\<not> validate_sm (hdr s) (own_lookup x (abi_sel x s) s) (if abi_flags x s AND 1 \<noteq> 0 then SM_CTRL_DN else SM_CTRL_UP) \<Longrightarrow> refused K x s (sys_ctrl_sm K x s)"
  "own_obj x s \<noteq> space_obj (pds s (root_pd (k_stat K))) \<Longrightarrow> refused K x s (sys_ctrl_hw K x s)"
  "\<not> validate_sm (hdr s) (own_lookup x (abi_sel x s) s) SM_ASSIGN \<Longrightarrow> refused K x s (sys_assign_int K x s)"
  "\<not> (own_obj x s = space_obj (pds s (root_pd (k_stat K))) \<and> validate_sp (hdr s) (own_lookup x (abi_sel x s) s) SP_ASSIGN Subtype_DMA) \<Longrightarrow> refused K x s (sys_assign_dev K x s)"
  subgoal by (simp add: sys_ipc_call_def sys_finish_def Let_def)
  subgoal by (simp add: sys_ctrl_pd_def Let_def)
  subgoal by (simp add: sys_ctrl_ec_def Let_def)
  subgoal by (simp add: sys_ctrl_sc_def Let_def)
  subgoal by (simp add: sys_ctrl_pt_def Let_def)
  subgoal by (simp add: sys_ctrl_sm_def Let_def)
  subgoal by (simp add: sys_ctrl_hw_def Let_def)
  subgoal by (simp add: sys_assign_int_def Let_def)
  subgoal by (auto simp: sys_assign_dev_def Let_def)
  done

lemma unauthorized_refused:
  assumes "\<not> authorized K n x s" "n < 16"
  shows "refused K x s ((syscall ! n) K x s)"
proof -
  have "list_all2 (\<lambda>p f. \<not> p \<longrightarrow> refused K x s (f K x s)) (authority K x s) syscall"
    by (simp add: authority_def syscall_def Let_def refused_create refused_ctrl sys_finish_def del: de_Morgan_conj not_None_eq)
  moreover have "length syscall = 16" by (simp add: syscall_def)
  ultimately show ?thesis using assms list_all2_nthD2 [of _ "authority K x s" syscall n] by (auto simp: authorized_def)
qed

text \<open>
  C2: No effect without authority: when the context that executes a hypercall lacks the capability or permission that the operation requires, the hypercall
  returns to the context with an error in the status register; no other register and nothing else in the state changes, but for the hazards and the quiescent state of the core on its way out. The 16th
  entry of the table is refused to everyone.
\<close>

theorem hypercall_authority:
  assumes "x = ec_current s (cpu_id s)" "u = upd_exc x (\<lambda>r. r\<lparr>sys := g\<rparr>) s" "\<not> authorized K (unat (g RDI AND mask 4)) x u" "calm x s"
  shows "\<exists>st s'. st \<in> {BAD_HYP, BAD_CAP, BAD_PAR, BAD_CPU} \<and> entry_sys K g s = Some (Leave x, s') \<and> left_kernel (set_gpr x RDI (status_code st) u) s'"
proof -
  have "g RDI AND mask 4 \<le> mask 4" by (rule word_and_le1)
  then have "unat (g RDI AND mask 4) < 16" by (simp add: word_le_nat_alt mask_eq_exp_minus_1)
  then obtain st where st: "st \<in> {BAD_HYP, BAD_CAP, BAD_PAR, BAD_CPU}" "entry_sys K g s = sys_finish_status K st x u"
    using unauthorized_refused [OF assms(3)] by (auto simp: refused_def entry_sys_def Let_def simp flip: assms(1,2))
  have "calm x (set_gpr x RDI (status_code st) u)" using assms(4) by (simp add: calm_def assms(2) set_gpr_def upd_exc_def upd_regs_def)
  with ret_user_hypercall_calm st show ?thesis unfolding sys_finish_status_def by metis
qed

definition deny_regs :: "gpr \<Rightarrow> u64" where "deny_regs r = (if r = RDI then 0x508 else 0)"

theorem hypercall_authority_witness:
  "\<forall>K. \<exists>st s'. st \<in> {BAD_HYP, BAD_CAP, BAD_PAR, BAD_CPU} \<and> entry_sys K deny_regs nova_ipc = Some (Leave 0x400, s') \<and> gpr_of 0x400 RDI s' = status_code st"
proof
  fix K
  define u where u: "u = upd_exc 0x400 (\<lambda>r. r\<lparr>sys := deny_regs\<rparr>) nova_ipc"
  have e: "0x400 = ec_current nova_ipc (cpu_id nova_ipc)" "calm 0x400 nova_ipc" using nova_ipc_ready by (simp_all add: nova_ipc_fields ipc_ready_def)
  have "abi_sel 0x400 u = 5" by (simp add: abi_sel_def abi_p0_def gpr_of_def u upd_exc_def upd_regs_def deny_regs_def drop_bit_eq_div)
  moreover have "own_lookup 0x400 5 u = 0x602" using nova_ipc_lookup by (simp add: own_lookup_def own_obj_def u upd_exc_def upd_regs_def)
  moreover have "hdr u 0x600 = \<lparr>k_type = Type_PT, k_subtype = 0\<rparr>" by (simp add: u upd_exc_def upd_regs_def nova_ipc_fields)
  ultimately have "\<not> authorized K (unat (deny_regs RDI AND mask 4)) 0x400 u"
    by (simp add: authorized_def authority_def Let_def deny_regs_def mask_eq_exp_minus_1 validate_ec_def validate_type_def cap_obj_def pmask_def)
  from hypercall_authority [OF e(1) u this e(2)] obtain st s' where s: "st \<in> {BAD_HYP, BAD_CAP, BAD_PAR, BAD_CPU}" "entry_sys K deny_regs nova_ipc = Some (Leave 0x400, s')"
    "left_kernel (set_gpr 0x400 RDI (status_code st) u) s'" by blast
  then have "gpr_of 0x400 RDI s' = status_code st" using left_kernel_frame(3) [OF s(3)] by (simp add: gpr_of_def set_gpr_def upd_exc_def upd_regs_def)
  with s(1,2) show "\<exists>st s'. st \<in> {BAD_HYP, BAD_CAP, BAD_PAR, BAD_CPU} \<and> entry_sys K deny_regs nova_ipc = Some (Leave 0x400, s') \<and> gpr_of 0x400 RDI s' = status_code st" by blast
qed

end
