(* ===== verification/Nova_Entry.thy ===== *)
theory Nova_Entry
  imports Nova_Syscall
begin

text \<open>
  The other entries into the kernel: interrupts (\<^verbatim>\<open>src/x86_64/interrupt.cpp\<close> and the timer of \<^verbatim>\<open>src/x86_64/lapic.cpp\<close>), exceptions (\<^verbatim>\<open>src/x86_64/ec_exc.cpp\<close>) and
  the exits of virtual CPUs (\<^verbatim>\<open>src/x86_64/ec_vmx.cpp\<close>, \<^verbatim>\<open>src/x86_64/ec_svm.cpp\<close>).
\<close>

section \<open>Interrupts\<close>

definition NUM_LVT :: nat where "NUM_LVT = 4"
definition NUM_IPI :: nat where "NUM_IPI = 2"
definition NUM_GSI :: nat where "NUM_GSI = 256 - 32 - 1 - NUM_IPI - NUM_LVT"
definition VEC_GSI :: nat where "VEC_GSI = 32"
definition VEC_LVT :: nat where "VEC_LVT = VEC_GSI + NUM_GSI"
definition VEC_IPI :: nat where "VEC_IPI = VEC_LVT + NUM_LVT"
definition VEC_FLT :: nat where "VEC_FLT = VEC_IPI + NUM_IPI"

definition rke_handler :: "nova \<Rightarrow> nova" where
  "rke_handler s =
     (let s = (if acpi_trans s AND mask 3 \<noteq> 0 then cpu_hazard_set HZD_SLEEP s else s)
      in if sp_tlb (spcs s (hst_cur s)) AND BITN (cpu_id s mod 64) \<noteq> 0 then cpu_hazard_set HZD_SCHED s else s)"

definition handle_ipi :: "kenv \<Rightarrow> nat \<Rightarrow> nova \<Rightarrow> nova option" where
  "handle_ipi K ipi s = do {
     assert_that (ipi < NUM_IPI);
     if ipi = 0 then sched_requeue (k_now K) s else Some (rke_handler s)
   }"

text \<open>The timer has expired if its counter is zero (\<open>ex\<close>); the callbacks that read-copy-update invokes are outside the state.\<close>

definition timer_handler :: "kenv \<Rightarrow> bool \<Rightarrow> nova \<Rightarrow> nova option" where
  "timer_handler K ex s = do {
     s \<leftarrow> (if ex then timeout_check (timeout_trigger (k_now K)) (\<lambda>_. k_now K) 0 s else Some s);
     let (h, es, r) = rcu_update (cpus (k_stat K)) (cpu_id s) (rcu_st s);
     Some ((if h then cpu_hazard_set HZD_RCU s else s)\<lparr>rcu_st := r\<rparr>)
   }"

definition handle_lvt :: "kenv \<Rightarrow> bool \<Rightarrow> nat \<Rightarrow> nova \<Rightarrow> nova option" where
  "handle_lvt K ex lvt s = do {
     assert_that (lvt < NUM_LVT);
     if lvt = 0 then timer_handler K ex s else Some s
   }"

definition handle_gsi :: "kenv \<Rightarrow> nat \<Rightarrow> nova \<Rightarrow> nova option" where
  "handle_gsi K gsi s = do {
     assert_that (gsi < NUM_GSI);
     map_option snd (sm_up (int_sm s gsi) (k_now K) (set_mask gsi True s))
   }"

text \<open>Faults of the IOMMU are reported only; acknowledging the interrupt has no counterpart.\<close>

definition int_handler :: "kenv \<Rightarrow> bool \<Rightarrow> nat \<Rightarrow> nova \<Rightarrow> nova option" where
  "int_handler K ex v s =
     (if v \<ge> VEC_FLT then Some s
      else if v \<ge> VEC_IPI then handle_ipi K (v - VEC_IPI) s
      else if v \<ge> VEC_LVT then handle_lvt K ex (v - VEC_LVT) s
      else if v \<ge> VEC_GSI then handle_gsi K (v - VEC_GSI) s
      else Some s)"

text \<open>The semaphores of all interrupts, created at boot in the object space of the kernel.\<close>

fun int_setup_loop :: "statics \<Rightarrow> u64 \<Rightarrow> nat list \<Rightarrow> nova \<Rightarrow> nova option" where
  "int_setup_loop C obj [] s = Some s"
| "int_setup_loop C obj (gsi # gs) s = do {
     (r, s) \<leftarrow> create_sm C obj (NOVA_INT + of_nat gsi) 0 (of_nat gsi) s;
     int_setup_loop C obj gs (s\<lparr>int_sm := (int_sm s)(gsi := (case r of Inl _ \<Rightarrow> 0 | Inr x \<Rightarrow> x))\<rparr>)
   }"

definition int_setup :: "statics \<Rightarrow> u64 \<Rightarrow> nova \<Rightarrow> nova option" where
  "int_setup C obj s = int_setup_loop C obj [0..<NUM_GSI] s"

section \<open>Exceptions\<close>

definition EXC_GP :: u64 where "EXC_GP = 13"
definition EXC_PF :: u64 where "EXC_PF = 14"
definition MMAP_SPC_PIO_E :: u64 where "MMAP_SPC_PIO_E = 0xffffffffc0002000"

definition exc_user :: "exc_regs \<Rightarrow> bool" where
  "exc_user r \<longleftrightarrow> cs r AND 3 \<noteq> 0"

definition handle_exc_gp :: "nova \<Rightarrow> bool \<times> nova" where
  "handle_exc_gp s = (if cpu_hazard s AND HZD_TR \<noteq> 0 then (True, cpu_hazard_clr HZD_TR s) else (False, s))"

text \<open>\<^verbatim>\<open>share_from\<close> on the page table of the core in the host space of the context.\<close>

definition hst_share :: "kenv \<Rightarrow> u64 \<Rightarrow> u64 \<Rightarrow> u64 \<Rightarrow> u64 \<Rightarrow> nova \<Rightarrow> (bool \<times> nova) option" where
  "hst_share K h src v w s = on_heap (hptp_share_from (p_off (k_plat K)) (hst_loc h (cpu_id s)) src v w) s"

text \<open>
  A page fault with the frame \<open>r\<close>: \<open>Inl\<close> is the result of the function, \<open>Inr\<close> that it does not return. The frame of a fault in user mode is the register state of the context.
\<close>

definition handle_exc_pf :: "kenv \<Rightarrow> u64 \<Rightarrow> exc_regs \<Rightarrow> nova \<Rightarrow> ((bool + outcome) \<times> nova) option" where
  "handle_exc_pf K self r s = do {
     let addr = cr2 r;
     let h = r_hst (regs (ecs s self));
     let lim = push_bit 12 HST_num;
     if err r AND BIT64 2 \<noteq> 0 then
       if addr < lim then do { (b, s) \<leftarrow> hst_share K h (ptab_of h) addr lim s; Some (Inl b, s) } else Some (Inl False, s)
     else do {
       (b, s) \<leftarrow> (if addr \<ge> LINK_ADDR \<and> addr < MMAP_CPU then hst_share K h (master (k_stat K)) addr MMAP_CPU s else Some (False, s));
       if b then Some (Inl True, s)
       else do {
         let pio = (addr \<ge> MMAP_SPC_PIO \<and> addr \<le> MMAP_SPC_PIO_E);
         (b, s) \<leftarrow> (if pio then hst_share K h (ptab_of h) addr MMAP_CPU s else Some (False, s));
         if b then Some (Inl True, s)
         else if exc_user r \<and> pio then do {
           (y, s) \<leftarrow> send_msg K Ret_exception self (upd_exc self (\<lambda>r. r\<lparr>vec := EXC_GP, err := 0, cr2 := 0\<rparr>) s);
           Some (Inr y, s)
         }
         else Some (Inl False, s)
       }
     }
   }"

text \<open>
  \<^verbatim>\<open>Ec_arch::handle_exc\<close>; \<open>None\<close> is returned when the interrupted code continues. Reading the banks of the machine-check architecture has no counterpart.
\<close>

definition exc_fatal :: "kenv \<Rightarrow> u64 \<Rightarrow> exc_regs \<Rightarrow> nova \<Rightarrow> (outcome option \<times> nova) option" where
  "exc_fatal K self r s = do {
     (y, s) \<leftarrow> (if exc_user r then send_msg K Ret_exception self s else run (kill self (k_now K) s));
     Some (Some y, s)
   }"

definition handle_exc :: "kenv \<Rightarrow> exc_regs \<Rightarrow> nova \<Rightarrow> (outcome option \<times> nova) option" where
  "handle_exc K r s = do {
     let self = ec_current s (cpu_id s);
     if vec r = 7 then do { (b, s) \<leftarrow> switch_fpu (k_plat K) self s; if b then Some (None, s) else exc_fatal K self r s }
     else if vec r = EXC_GP then (let (b, s) = handle_exc_gp s in if b then Some (None, s) else exc_fatal K self r s)
     else if vec r = EXC_PF then do {
       (x, s) \<leftarrow> handle_exc_pf K self r s;
       case x of Inr y \<Rightarrow> Some (Some y, s) | Inl b \<Rightarrow> if b then Some (None, s) else exc_fatal K self r s
     }
     else exc_fatal K self r s
   }"

text \<open>
  The entry stubs store the frame in the register state of the context if user mode was interrupted, and return there through \<^verbatim>\<open>ret_user_exception\<close>. Without an outcome, the
  kernel continues where it was interrupted.
\<close>

definition save_frame :: "exc_regs \<Rightarrow> nova \<Rightarrow> nova" where
  "save_frame r s = (if exc_user r then upd_exc (ec_current s (cpu_id s)) (\<lambda>_. r) s else s)"

definition entry_exit :: "kenv \<Rightarrow> exc_regs \<Rightarrow> nova \<Rightarrow> (outcome option \<times> nova) option" where
  "entry_exit K r s = (if exc_user r then map_option (apfst Some) (ret_user_exception K (ec_current s (cpu_id s)) s) else Some (None, s))"

definition entry_exc :: "kenv \<Rightarrow> exc_regs \<Rightarrow> nova \<Rightarrow> (outcome option \<times> nova) option" where
  "entry_exc K r s = do {
     (x, s) \<leftarrow> handle_exc K r (save_frame r s);
     case x of Some y \<Rightarrow> Some (Some y, s) | None \<Rightarrow> entry_exit K r s
   }"

definition entry_int :: "kenv \<Rightarrow> bool \<Rightarrow> exc_regs \<Rightarrow> nova \<Rightarrow> (outcome option \<times> nova) option" where
  "entry_int K ex r s = do {
     s \<leftarrow> int_handler K ex (unat (vec r)) (save_frame r s);
     entry_exit K r s
   }"

section \<open>Exits of virtual CPUs\<close>

text \<open>An event whose delivery the exit interrupted is injected again. What the delivery of the non-maskable interrupt does is an argument (\<open>nmi\<close>).\<close>

definition vmx_reinject :: "vmcs \<Rightarrow> vmcs" where
  "vmx_reinject m =
     (let vi = vmcs_read m VMCS_ORG_EVENT_IDENT
      in if vi AND 0x80000000 = 0 then m
         else let m = vmcs_write VMCS_INJ_EVENT_IDENT (vi AND NOT 0x1000) m;
                  m = (if vi AND 0x800 \<noteq> 0 then vmcs_write VMCS_INJ_EVENT_ERROR (vmcs_read m VMCS_ORG_EVENT_ERROR) m else m);
                  t = drop_bit 8 vi AND 7
              in if t \<ge> 4 \<and> t \<le> 6 then vmcs_write VMCS_ENT_INST_LEN (vmcs_read m VMCS_EXI_INST_LEN) m else m)"

definition upd_vmcs :: "u64 \<Rightarrow> (vmcs \<Rightarrow> vmcs) \<Rightarrow> nova \<Rightarrow> nova" where
  "upd_vmcs v f s = s\<lparr>vmcss := (vmcss s)(v := f (vmcss s v))\<rparr>"

definition vmx_exception :: "kenv \<Rightarrow> (nova \<Rightarrow> nova) \<Rightarrow> u64 \<Rightarrow> nova \<Rightarrow> exit" where
  "vmx_exception K nmi self s = do {
     let v = vmcs_cur s;
     let s = upd_vmcs v vmx_reinject s;
     let i = vmcs_read (vmcss s v) VMCS_EXI_EVENT_IDENT AND mask 11;
     if i = 0x202 then ret_user_vmexit_vmx K self (nmi s)
     else if i = 0x307 then do {
       (b, s) \<leftarrow> switch_fpu (k_plat K) self s;
       if b then ret_user_vmexit_vmx K self s else send_msg K Ret_vmx self s
     }
     else send_msg K Ret_vmx self (set_ep self 0 s)
   }"

definition vmx_extint :: "kenv \<Rightarrow> bool \<Rightarrow> u64 \<Rightarrow> nova \<Rightarrow> exit" where
  "vmx_extint K ex self s = do {
     s \<leftarrow> int_handler K ex (unat (vmcs_read (vmcss s (vmcs_cur s)) VMCS_EXI_EVENT_IDENT AND mask 8)) s;
     ret_user_vmexit_vmx K self s
   }"

text \<open>
  The entry from a virtual CPU with the registers \<open>g\<close>, the fault address \<open>a\<close> and the value \<open>kgs\<close> of the register for the kernel GS base. The registers of the host are restored, which has no
  counterpart.
\<close>

definition handle_vmx :: "kenv \<Rightarrow> (nova \<Rightarrow> nova) \<Rightarrow> bool \<Rightarrow> (gpr \<Rightarrow> u64) \<Rightarrow> u64 \<Rightarrow> u64 \<Rightarrow> nova \<Rightarrow> exit" where
  "handle_vmx K nmi ex g a kgs s = do {
     let self = ec_current s (cpu_id s);
     let s = upd_regs self (\<lambda>r. r\<lparr>exc := (exc r)\<lparr>sys := g, cr2 := a\<rparr>, cpu_st := (cpu_st r)\<lparr>kernel_gs_base := kgs\<rparr>\<rparr>) s;
     let s = s\<lparr>cpu_hazard := (cpu_hazard s OR HZD_TR) AND NOT HZD_FPU\<rparr>;
     let reason = vmcs_read (vmcss s (vmcs_cur s)) VMCS_EXI_REASON AND mask 8;
     if reason = 0 then vmx_exception K nmi self s
     else if reason = 1 then vmx_extint K ex self s
     else send_msg K Ret_vmx self (set_ep self reason s)
   }"

definition failed_vmx :: "kenv \<Rightarrow> nova \<Rightarrow> exit" where
  "failed_vmx K s = run (kill (ec_current s (cpu_id s)) (k_now K) s)"

definition upd_vmcb :: "(memory \<Rightarrow> memory) \<Rightarrow> nova \<Rightarrow> nova" where
  "upd_vmcb f s = s\<lparr>heap := (heap s)\<lparr>mem := f (mem (heap s))\<rparr>\<rparr>"

definition svm_reinject :: "u64 \<Rightarrow> memory \<Rightarrow> memory" where
  "svm_reinject v m =
     (let ii = sget m v VMCB_exitintinfo; t = drop_bit 8 ii AND 7; vc = ii AND 0xff
      in if ii AND 0x80000000 \<noteq> 0 \<and> (t = 0 \<or> (t = 3 \<and> vc \<noteq> 3 \<and> vc \<noteq> 4)) then sset v VMCB_inj_control ii m else m)"

definition svm_exception :: "kenv \<Rightarrow> u64 \<Rightarrow> u64 \<Rightarrow> nova \<Rightarrow> exit" where
  "svm_exception K self reason s = do {
     let s = upd_vmcb (svm_reinject (vmcb (regs (ecs s self)))) s;
     if reason = 0x47 then do {
       (b, s) \<leftarrow> switch_fpu (k_plat K) self s;
       if b then ret_user_vmexit_svm K self s else send_msg K Ret_svm self s
     }
     else send_msg K Ret_svm self (set_ep self reason s)
   }"

text \<open>A pending interrupt is taken when interrupts are enabled for an instruction.\<close>

definition handle_svm :: "kenv \<Rightarrow> (gpr \<Rightarrow> u64) \<Rightarrow> nova \<Rightarrow> exit" where
  "handle_svm K g s = do {
     let self = ec_current s (cpu_id s);
     let v = vmcb (regs (ecs s self));
     let s = upd_vmcb (sset v VMCB_tlb_control 0) (upd_exc self (\<lambda>r. r\<lparr>sys := g\<rparr>) s);
     let c = sget (mem (heap s)) v VMCB_exitcode;
     let reason = (if c = - 1 then 256 - 3 else if c = 0x400 then 256 - 4 else c);
     if 0x40 \<le> reason \<and> reason \<le> 0x5f then svm_exception K self reason s
     else if reason = 0x60 then ret_user_vmexit_svm K self (k_pp K s)
     else send_msg K Ret_svm self (set_ep self reason s)
   }"

section \<open>Interrupts are handled in well-formed states\<close>

lemma kern_pend_cong:
  assumes "kern_pend s xs" "tmo s' = tmo s" "tlist s' = tlist s" "dln s' = dln s" "ready s' = ready s" "prio_top s' = prio_top s" "release s' = release s" "scs s' = scs s" "cpu_id s' = cpu_id s"
    "ecs s' = ecs s" "\<And>m. sm_queue (sms s' m) = sm_queue (sms s m)" "sm_inv s'"
  shows "kern_pend s' xs"
proof -
  have p: "sched_inv s" "trep s xs" "\<forall>x\<in>set xs. x \<noteq> budget_timeout \<longrightarrow> blocked (ecs s x) \<longrightarrow> x \<in> set (sm_queue (sms s (tmo_sm (ecs s x))))" using assms(1) by (simp_all add: kern_pend_def)
  have "sched_inv s'" by (rule sched_inv_cong [OF p(1) assms(5-9)]) (simp add: assms(10))
  then show ?thesis using p(2,3) trep_frame [OF assms(2-4), of xs] unfolding kern_pend_def by (simp add: assms(10-12))
qed

lemma kern_pend_local:
  assumes "kern_pend s xs"
  shows "kern_pend (cpu_hazard_set h s) xs" "kern_pend (s\<lparr>rcu_st := r\<rparr>) xs" "kern_pend (s\<lparr>int_rte := t\<rparr>) xs"
  by (rule kern_pend_cong [OF assms]; use assms in \<open>simp add: kern_pend_def sm_inv_def\<close>)+

lemma kern_fired_local:
  assumes "kern_fired x s"
  shows "kern_fired x (cpu_hazard_set h s)" "kern_fired x (s\<lparr>rcu_st := r\<rparr>)"
proof -
  have "v AND HZD_SCHED \<noteq> 0 \<Longrightarrow> (v OR h) AND HZD_SCHED \<noteq> 0" for v by (metis bit.conj_disj_distrib2 or_eq_0_iff)
  then show "kern_fired x (cpu_hazard_set h s)" using assms unfolding kern_fired_def cpu_hazard_set_def by auto
  show "kern_fired x (s\<lparr>rcu_st := r\<rparr>)" using assms by (simp add: kern_fired_def)
qed

lemma gsi_handled:
  assumes p: "kern_pend s xs" and g: "gsi < NUM_GSI" and m: "m = int_sm s gsi"
  shows "\<exists>s'. handle_gsi K gsi s = Some s' \<and> kern_pend s' xs \<and> (int_ioapic s gsi \<noteq> 0 \<and> conf_trg (int_conf s gsi) \<longrightarrow> fst (int_rte s' gsi)) \<and>
    (case sm_queue (sms s m) of [] \<Rightarrow> counter (sms s' m) = (if counter (sms s m) = - 1 then - 1 else counter (sms s m) + 1)
      | x # q \<Rightarrow> sm_queue (sms s' m) = q \<and> cont (ecs s' x) = Sys_finish SUCCESS True)"
proof -
  define u where u: "u = set_mask gsi True s"
  have pu: "kern_pend u xs" using p kern_pend_local(3) [OF p] by (simp add: u set_mask_def)
  have f: "sms u = sms s" "ecs u = ecs s" "int_sm u = int_sm s" "int_ioapic s gsi \<noteq> 0 \<and> conf_trg (int_conf s gsi) \<longrightarrow> fst (int_rte u gsi)" by (simp_all add: u set_mask_def)
  have k: "sched_inv u" "sm_inv u" using pu by (simp_all add: kern_pend_def)
  show ?thesis
  proof (cases "sm_queue (sms s m)")
    case Nil
    define s' where s': "s' = (if counter (sms u m) = - 1 then u else upd_sm m (\<lambda>z. z\<lparr>counter := counter z + 1\<rparr>) u)"
    have h: "handle_gsi K gsi s = Some s'" using g Nil by (auto simp: handle_gsi_def sm_up_def s' f simp flip: u m)
    have q: "sm_queue (sms s' j) = sm_queue (sms u j)" "counter (sms s' j) \<noteq> 0 \<longrightarrow> sm_queue (sms u j) = []" for j
      using sm_invD(4) [OF k(2), of j] Nil by (simp_all add: s' f)
    have "ecs s' = ecs u" by (simp add: s')
    then have "sm_inv s'" using k(2) q(2) unfolding sm_inv_def q(1) by metis
    then have "kern_pend s' xs" by (intro kern_pend_cong [OF pu]) (simp_all add: s')
    then show ?thesis using h f(4) Nil by (simp add: s' f)
  next
    case (Cons x q)
    then have "sm_queue (sms u m) = x # q" by (simp add: f)
    from sm_up_spec [OF k this, of "k_now K"] obtain s' where s': "sm_up m (k_now K) u = Some (True, s')" "sched_inv s'" "sm_inv s'" "sched_frame (u\<lparr>sms := sms s'\<rparr>) s'"
      "sms s' = (sms u)(m := (sms u m)\<lparr>sm_queue := q\<rparr>)" "ecs s' = (ecs u)(x := (ecs u x)\<lparr>cont := Sys_finish SUCCESS True, ec_linked := False, ec_queue := []\<rparr>)" by blast
    have "handle_gsi K gsi s = Some s'" using g s'(1) by (simp add: handle_gsi_def flip: u m)
    moreover have "kern_pend s' xs"
    proof -
      have "trep s' xs" using pu s'(4) trep_frame [of s' u xs] by (simp add: kern_pend_def sched_frame_def)
      moreover have "y \<in> set (sm_queue (sms s' (tmo_sm (ecs s' y))))" if "y \<in> set xs" "y \<noteq> budget_timeout" "blocked (ecs s' y)" for y
      proof -
        have "y \<noteq> x" "ecs s' y = ecs u y" using that(3) s'(6) by (auto simp: blocked_def)
        then have "y \<in> set (sm_queue (sms u (tmo_sm (ecs s' y))))" using pu that by (simp add: kern_pend_def)
        then show ?thesis using \<open>y \<noteq> x\<close> \<open>sm_queue (sms u m) = x # q\<close> s'(5) by auto
      qed
      ultimately show ?thesis using s'(2,3) by (simp add: kern_pend_def)
    qed
    moreover have "int_rte s' = int_rte u" using s'(4) by (simp add: sched_frame_def)
    ultimately show ?thesis using Cons f(4) s'(5,6) by simp
  qed
qed

lemma ipi_handled:
  assumes p: "kern_pend s xs" and i: "i < NUM_IPI"
  shows "\<exists>s'. handle_ipi K i s = Some s' \<and> kern_pend s' xs \<and> (i = 0 \<longrightarrow> release s' (cpu_id s) = []) \<and>
    (i = 1 \<longrightarrow> (acpi_trans s AND mask 3 \<noteq> 0 \<longrightarrow> cpu_hazard s' AND HZD_SLEEP \<noteq> 0) \<and> (sp_tlb (spcs s (hst_cur s)) AND BITN (cpu_id s mod 64) \<noteq> 0 \<longrightarrow> cpu_hazard s' AND HZD_SCHED \<noteq> 0))"
proof (cases "i = 0")
  case True
  have "sched_inv s" using p by (simp add: kern_pend_def)
  from sched_requeue_spec [OF this refl, of "k_now K"] obtain s' where s': "sched_requeue (k_now K) s = Some s'" "sched_inv s'" "sched_frame s s'" "ecs s' = ecs s" "release s' = (release s)(cpu_id s := [])" by blast
  have "sm_inv s'" using p s'(3,4) sm_inv_cong [of s s'] by (simp add: kern_pend_def sched_frame_def)
  moreover have "trep s' xs" using p s'(3) trep_frame [of s' s xs] by (simp add: kern_pend_def sched_frame_def)
  ultimately have "kern_pend s' xs" using p s'(2-4) by (simp add: kern_pend_def sched_frame_def)
  then show ?thesis using True s'(1,5) by (simp add: handle_ipi_def NUM_IPI_def)
next
  case False
  define a where a: "a = (if acpi_trans s AND mask 3 \<noteq> 0 then cpu_hazard_set HZD_SLEEP s else s)"
  have r: "rke_handler s = (if sp_tlb (spcs a (hst_cur a)) AND BITN (cpu_id a mod 64) \<noteq> 0 then cpu_hazard_set HZD_SCHED a else a)"
    unfolding rke_handler_def Let_def a by (rule refl)
  have f: "spcs a = spcs s" "cpu_id a = cpu_id s" "hst_cur a = hst_cur s" by (simp_all add: a cpu_hazard_set_def)
  have "kern_pend (rke_handler s) xs" unfolding r a by (simp add: p kern_pend_local)
  moreover have "(v OR HZD_SLEEP) AND HZD_SLEEP = HZD_SLEEP" "(v OR HZD_SCHED) AND HZD_SCHED = HZD_SCHED" for v by (rule bit_eqI; auto simp: bit_and_iff bit_or_iff)+
  moreover have "((v OR HZD_SLEEP) OR HZD_SCHED) AND HZD_SLEEP = HZD_SLEEP" for v by (rule bit_eqI) (auto simp: bit_and_iff bit_or_iff)
  moreover have "HZD_SLEEP \<noteq> 0" "HZD_SCHED \<noteq> 0" by (simp_all add: HZD_SLEEP_def HZD_SCHED_def BIT_def)
  ultimately show ?thesis using False i unfolding handle_ipi_def
    by (simp add: r f) (simp add: a cpu_hazard_set_def)
qed

lemma timer_handled:
  assumes p: "kern_pend s xs"
  shows "\<exists>s' ys. timer_handler K ex s = Some s' \<and> kern_pend s' ys \<and> set ys \<subseteq> set xs \<and> (ex \<longrightarrow> (\<forall>y\<in>set xs. ttime s y \<le> k_now K \<longrightarrow> kern_fired y s'))"
proof -
  obtain u n where u: "(if ex then timeout_check (timeout_trigger (k_now K)) (\<lambda>_. k_now K) 0 s else Some s) = Some u" "kern_pend u (drop n xs)"
    "ex \<Longrightarrow> y \<in> set xs \<Longrightarrow> ttime s y \<le> k_now K \<Longrightarrow> kern_fired y u" for y
  proof (cases ex)
    case True
    from hypercall_timeouts.check_ok [OF p, of "k_now K" "\<lambda>_. k_now K" 0] obtain n u where
      n: "timeout_check (timeout_trigger (k_now K)) (\<lambda>_. k_now K) 0 s = Some u" "kern_pend u (drop n xs)" "n < length xs \<longrightarrow> k_now K < ttime s (xs ! n)" "\<forall>k<n. kern_fired (xs ! k) u" by auto
    have "kern_fired y u" if y: "y \<in> set xs" "ttime s y \<le> k_now K" for y
    proof -
      obtain k where k: "k < length xs" "xs ! k = y" using y(1) by (auto simp: in_set_conv_nth)
      have "sorted (map (ttime s) xs)" using p by (simp add: kern_pend_def trep_def)
      then have "n \<le> k \<Longrightarrow> ttime s (xs ! n) \<le> ttime s (xs ! k)" using k(1) sorted_nth_mono [of "map (ttime s) xs" n k] by simp
      then have "k < n" using n(3) k y(2) by (meson leD le_less_trans not_le order_trans)
      then show ?thesis using n(4) k(2) by blast
    qed
    then show ?thesis using that [of u n] True n(1,2) by simp
  next
    case False
    then show ?thesis using that [of s 0] p by simp
  qed
  obtain h es r where c: "rcu_update (cpus (k_stat K)) (cpu_id u) (rcu_st u) = (h, es, r)" by (cases "rcu_update (cpus (k_stat K)) (cpu_id u) (rcu_st u)") auto
  define s' where s': "s' = (if h then cpu_hazard_set HZD_RCU u else u)\<lparr>rcu_st := r\<rparr>"
  have "timer_handler K ex s = Some s'" using u(1) c by (simp add: timer_handler_def s' Let_def)
  moreover have "kern_pend s' (drop n xs)" using u(2) by (simp add: s' kern_pend_local)
  moreover have "kern_fired y s'" if "kern_fired y u" for y using that by (simp add: s' kern_fired_local)
  ultimately show ?thesis using u(3) set_drop_subset [of n xs] by blast
qed

text \<open>
  C3: Every interrupt is handled: in a state with well-formed queues, semaphores and timeouts, the handler of any vector passes its assertions, terminates and leaves the state well formed. A
  device interrupt masks a level-triggered line and increments its semaphore (saturating) or wakes up the first waiter; a request to requeue empties the release queue of the core; a
  kernel-entry request raises the hazards for a pending system transition and for stale translations; an expired timer triggers every timeout that is due.
\<close>

theorem interrupt_handled:
  assumes "kern_pend s xs" "v < 256"
  shows "\<exists>s' ys. int_handler K ex v s = Some s' \<and> kern_pend s' ys \<and> set ys \<subseteq> set xs \<and>
    (VEC_GSI \<le> v \<and> v < VEC_LVT \<longrightarrow> (int_ioapic s (v - VEC_GSI) \<noteq> 0 \<and> conf_trg (int_conf s (v - VEC_GSI)) \<longrightarrow> fst (int_rte s' (v - VEC_GSI))) \<and>
      (let m = int_sm s (v - VEC_GSI) in case sm_queue (sms s m) of [] \<Rightarrow> counter (sms s' m) = (if counter (sms s m) = - 1 then - 1 else counter (sms s m) + 1)
        | x # q \<Rightarrow> sm_queue (sms s' m) = q \<and> cont (ecs s' x) = Sys_finish SUCCESS True)) \<and>
    (v = VEC_LVT \<and> ex \<longrightarrow> (\<forall>y\<in>set xs. ttime s y \<le> k_now K \<longrightarrow> kern_fired y s')) \<and>
    (v = VEC_IPI \<longrightarrow> release s' (cpu_id s) = []) \<and>
    (v = VEC_IPI + 1 \<longrightarrow> (acpi_trans s AND mask 3 \<noteq> 0 \<longrightarrow> cpu_hazard s' AND HZD_SLEEP \<noteq> 0) \<and> (sp_tlb (spcs s (hst_cur s)) AND BITN (cpu_id s mod 64) \<noteq> 0 \<longrightarrow> cpu_hazard s' AND HZD_SCHED \<noteq> 0))"
proof -
  have n: "VEC_GSI = 32" "VEC_LVT = 249" "VEC_IPI = 253" "VEC_FLT = 255" "NUM_GSI = 217" "NUM_LVT = 4" "NUM_IPI = 2"
    by (simp_all add: VEC_GSI_def VEC_LVT_def VEC_IPI_def VEC_FLT_def NUM_GSI_def NUM_LVT_def NUM_IPI_def)
  consider (flt) "v = 255 \<or> v < 32" | (ipi) "253 \<le> v" "v < 255" | (timer) "v = 249" | (lvt) "249 < v" "v < 253" | (gsi) "32 \<le> v" "v < 249" using assms(2) by linarith
  then show ?thesis
  proof cases
    case flt
    then have "int_handler K ex v s = Some s" by (elim disjE) (simp_all add: int_handler_def n)
    moreover have "\<not> (32 \<le> v \<and> v < 249)" "v \<noteq> 249" "v \<noteq> 253" "v \<noteq> 253 + 1" using flt by auto
    ultimately show ?thesis using assms(1) unfolding n by (intro exI [of _ s] exI [of _ xs]) blast
  next
    case ipi
    then have "v - 253 < NUM_IPI" by (simp add: n)
    from ipi_handled [OF assms(1) this, of K] obtain s' where s': "handle_ipi K (v - 253) s = Some s'" "kern_pend s' xs" "v - 253 = 0 \<longrightarrow> release s' (cpu_id s) = []"
      "v - 253 = 1 \<longrightarrow> (acpi_trans s AND mask 3 \<noteq> 0 \<longrightarrow> cpu_hazard s' AND HZD_SLEEP \<noteq> 0) \<and> (sp_tlb (spcs s (hst_cur s)) AND BITN (cpu_id s mod 64) \<noteq> 0 \<longrightarrow> cpu_hazard s' AND HZD_SCHED \<noteq> 0)" by metis
    have "int_handler K ex v s = Some s'" using ipi s'(1) by (simp add: int_handler_def n)
    moreover have "v = 253 \<longrightarrow> v - 253 = 0" "v = 253 + 1 \<longrightarrow> v - 253 = 1" "\<not> (32 \<le> v \<and> v < 249)" "v \<noteq> 249" using ipi by auto
    ultimately show ?thesis using s'(2-4) unfolding n by (intro exI [of _ s'] exI [of _ xs]) blast
  next
    case timer
    from timer_handled [OF assms(1), of K ex] obtain s' ys where "timer_handler K ex s = Some s'" "kern_pend s' ys" "set ys \<subseteq> set xs"
      "ex \<longrightarrow> (\<forall>y\<in>set xs. ttime s y \<le> k_now K \<longrightarrow> kern_fired y s')" by blast
    then show ?thesis using timer unfolding int_handler_def handle_lvt_def n by (intro exI [of _ s'] exI [of _ ys]) simp
  next
    case lvt
    then show ?thesis using assms(1) unfolding int_handler_def handle_lvt_def n by (intro exI [of _ s] exI [of _ xs]) simp
  next
    case gsi
    then have "v - 32 < NUM_GSI" by (simp add: n)
    from gsi_handled [OF assms(1) this refl, of K] obtain s' where "handle_gsi K (v - 32) s = Some s'" "kern_pend s' xs"
      "int_ioapic s (v - 32) \<noteq> 0 \<and> conf_trg (int_conf s (v - 32)) \<longrightarrow> fst (int_rte s' (v - 32))"
      "case sm_queue (sms s (int_sm s (v - 32))) of [] \<Rightarrow> counter (sms s' (int_sm s (v - 32))) = (if counter (sms s (int_sm s (v - 32))) = - 1 then - 1 else counter (sms s (int_sm s (v - 32))) + 1)
        | x # q \<Rightarrow> sm_queue (sms s' (int_sm s (v - 32))) = q \<and> cont (ecs s' x) = Sys_finish SUCCESS True" by blast
    then show ?thesis using gsi unfolding int_handler_def n Let_def by (intro exI [of _ s'] exI [of _ xs]) simp
  qed
qed

definition nova_wait :: nova where
  "nova_wait = kern.extend (kern_wait\<lparr>int_sm := (\<lambda>_. 0x500)\<rparr>) (nova.fields rcu_init cos_demo 0 (\<lambda>_. 0))"

theorem interrupt_handled_witness: "\<forall>K. \<exists>s'. int_handler K False 40 nova_wait = Some s' \<and> cont (ecs s' 0x400) = Sys_finish SUCCESS True"
proof
  fix K
  have f: "int_sm nova_wait = (\<lambda>_. 0x500)" "sm_queue (sms nova_wait 0x500) = [0x400]" "sms nova_wait = sms kern_wait" "ecs nova_wait = ecs kern_wait" "scs nova_wait = scs kern_wait" "ready nova_wait = ready kern_wait"
    "prio_top nova_wait = prio_top kern_wait" "release nova_wait = release kern_wait" "cpu_id nova_wait = cpu_id kern_wait" "tmo nova_wait = tmo kern_wait" "tlist nova_wait = tlist kern_wait" "dln nova_wait = dln kern_wait"
    by (simp_all add: nova_wait_def kern.defs nova.defs kern_wait_def kern0_def)
  have p: "kern_pend nova_wait [0x400]"
  proof -
    have k: "sched_inv kern_wait" "sm_inv kern_wait" "trep kern_wait [0x400]" "0x400 \<in> set (sm_queue (sms kern_wait (tmo_sm (ecs kern_wait 0x400))))" using kern_wait_pend by (simp_all add: kern_pend_def kern_wait_def)
    have q: "sq nova_wait q = sq kern_wait q" for q by (cases q) (simp_all add: f)
    have "sched_inv nova_wait" using k(1) unfolding sched_inv_def queues_inv_def q f .
    moreover have "sm_inv nova_wait" using k(2) unfolding sm_inv_def f .
    moreover have "trep nova_wait [0x400]" using k(3) unfolding trep_def f .
    ultimately show ?thesis using k(4) by (simp add: kern_pend_def f)
  qed
  have "\<exists>s'. int_handler K False 40 nova_wait = Some s' \<and> sm_queue (sms s' 0x500) = [] \<and> cont (ecs s' 0x400) = Sys_finish SUCCESS True"
    using interrupt_handled [OF p, of 40 K False] by (auto simp: f(1,2) VEC_GSI_def VEC_LVT_def VEC_IPI_def NUM_GSI_def NUM_LVT_def NUM_IPI_def Let_def)
  then show "\<exists>s'. int_handler K False 40 nova_wait = Some s' \<and> cont (ecs s' 0x400) = Sys_finish SUCCESS True" by blast
qed

section \<open>Shootdown reaches every core\<close>

text \<open>What the interrupts at a preemption point leave alone: who runs where, the spaces, and requests and hazards that are pending.\<close>

definition pp_keeps :: "nova \<Rightarrow> nova \<Rightarrow> bool" where
  "pp_keeps s s' \<longleftrightarrow> ec_current s' = ec_current s \<and> cpu_id s' = cpu_id s \<and> spcs s' = spcs s \<and> hst_cur s' = hst_cur s \<and>
     (\<forall>x. r_hst (regs (ecs s' x)) = r_hst (regs (ecs s x)) \<and> r_gst (regs (ecs s' x)) = r_gst (regs (ecs s x))) \<and>
     (\<exists>is. ipis s' = ipis s @ is) \<and> (cpu_hazard s AND HZD_SCHED \<noteq> 0 \<longrightarrow> cpu_hazard s' AND HZD_SCHED \<noteq> 0)"

definition runs_in :: "u64 \<Rightarrow> nat \<Rightarrow> nova \<Rightarrow> bool" where
  "runs_in sp c s \<longleftrightarrow> r_hst (regs (ecs s (ec_current s c))) = sp \<or> r_gst (regs (ecs s (ec_current s c))) = sp"

lemma pp_keeps_refl: "pp_keeps s s" by (simp add: pp_keeps_def)

lemma pp_keeps_trans: "pp_keeps s t \<Longrightarrow> pp_keeps t u \<Longrightarrow> pp_keeps s u"
  unfolding pp_keeps_def by (elim conjE exE) simp

lemma pp_keeps_send: "pp_keeps s (send_cpu r c s)" "pp_keeps s (cpu_hazard_set HZD_SCHED s)"
  using sched_hazard_set [of s] by (simp_all add: pp_keeps_def send_cpu_def) (simp_all add: cpu_hazard_set_def)

lemma runs_in_keeps: "pp_keeps s t \<Longrightarrow> runs_in sp c t = runs_in sp c s"
  by (simp add: pp_keeps_def runs_in_def)

lemma shootdown_cpu_keeps:
  assumes "\<And>s. pp_keeps s (k_pp K s)"
  shows "pp_keeps s (shootdown_cpu K sp c s)"
  unfolding shootdown_cpu_def Let_def using pp_keeps_refl pp_keeps_send pp_keeps_trans [OF pp_keeps_send(1) assms] by simp

lemma shootdown_fold:
  assumes pp: "\<And>s. pp_keeps s (k_pp K s)"
  shows "pp_keeps s (fold (shootdown_cpu K sp) ks s) \<and> (\<forall>c\<in>set ks. runs_in sp c s \<longrightarrow>
    (if c = cpu_id s then cpu_hazard (fold (shootdown_cpu K sp) ks s) AND HZD_SCHED \<noteq> 0 else (RKE, c) \<in> set (drop (length (ipis s)) (ipis (fold (shootdown_cpu K sp) ks s)))))"
proof (induction ks arbitrary: s)
  case Nil
  then show ?case by (simp add: pp_keeps_refl)
next
  case (Cons d ks)
  define t where t: "t = shootdown_cpu K sp d s"
  define u where u: "u = fold (shootdown_cpu K sp) ks t"
  have st: "pp_keeps s t" unfolding t by (rule shootdown_cpu_keeps [OF pp])
  have tu: "pp_keeps t u" and IH: "\<And>c. c \<in> set ks \<Longrightarrow> runs_in sp c t \<Longrightarrow> if c = cpu_id t then cpu_hazard u AND HZD_SCHED \<noteq> 0 else (RKE, c) \<in> set (drop (length (ipis t)) (ipis u))"
    using Cons.IH [of t] unfolding u by blast+
  have su: "pp_keeps s u" by (rule pp_keeps_trans [OF st tu])
  obtain as bs where i: "ipis t = ipis s @ as" "ipis u = ipis t @ bs" using st tu unfolding pp_keeps_def by blast
  have A: "if c = cpu_id s then cpu_hazard u AND HZD_SCHED \<noteq> 0 else (RKE, c) \<in> set (drop (length (ipis s)) (ipis u))" if c: "c \<in> set ks" "runs_in sp c s" for c
    using IH [of c] c st runs_in_keeps [OF st, of sp c] i by (auto simp: pp_keeps_def split: if_splits)
  have B: "if d = cpu_id s then cpu_hazard u AND HZD_SCHED \<noteq> 0 else (RKE, d) \<in> set (drop (length (ipis s)) (ipis u))" if d: "runs_in sp d s"
  proof (cases "d = cpu_id s")
    case True
    then have "t = cpu_hazard_set HZD_SCHED s" using d by (auto simp: t shootdown_cpu_def runs_in_def Let_def)
    then show ?thesis using True tu sched_hazard_set [of s] by (simp add: pp_keeps_def)
  next
    case False
    then have "t = k_pp K (send_cpu RKE d s)" using d by (auto simp: t shootdown_cpu_def runs_in_def Let_def)
    then obtain js where "ipis t = ipis s @ (RKE, d) # js" using pp [of "send_cpu RKE d s"] by (auto simp: pp_keeps_def send_cpu_def)
    then show ?thesis using False i by auto
  qed
  have "fold (shootdown_cpu K sp) (d # ks) s = u" by (simp add: t u)
  then show ?case using su A B by (metis set_ConsD)
qed

lemma bit_BITN: "bit (BITN (i mod 64)) n \<longleftrightarrow> n = i mod 64"
  by (simp add: BITN_eq bit_exp_iff) auto

lemma BITN_nonzero: "(- 1 :: u64) AND BITN (c mod 64) \<noteq> 0" "i mod 64 \<noteq> c mod 64 \<Longrightarrow> NOT (BITN (i mod 64)) AND BITN (c mod 64) \<noteq> 0"
proof -
  have "bit ((- 1 :: u64) AND BITN (c mod 64)) (c mod 64)" by (simp add: bit_and_iff bit_BITN)
  then show "(- 1 :: u64) AND BITN (c mod 64) \<noteq> 0" by (metis bit_0_eq bot_apply bot_bool_def)
  assume "i mod 64 \<noteq> c mod 64"
  then have "bit (NOT (BITN (i mod 64)) AND BITN (c mod 64)) (c mod 64)" by (simp add: bit_and_iff bit_not_iff bit_BITN)
  then show "NOT (BITN (i mod 64)) AND BITN (c mod 64) \<noteq> 0" by (metis bit_0_eq bot_apply bot_bool_def)
qed


definition nova_env :: "vmx_host \<Rightarrow> kenv" where
  "nova_env H = \<lparr>k_plat = \<lparr>p_freq = 1000, p_vmx = True, p_svm = False, p_caps = svm_caps, p_hfpu = \<lparr>xcr = 1, xss = 0\<rparr>, p_off = 0\<rparr>,
     k_stat = \<lparr>c_pd = 0, c_ec = 0, c_sc = 0, c_pt = 0, c_sm = 0, nova_hst = 0, root_pd = 0, master = 0, cpus = 2, lim_hst = 0, lim_gst = 0, lim_dma = 0, mbec = False,
       space_size = (\<lambda>_. 0), fpu_size = 0, fpu_align = 0, fpu_init = []\<rparr>,
     k_host = H, k_vmsave = (\<lambda>_ m. m), k_pp = (\<lambda>s. s), k_now = 0, k_reset = False, k_sleep = False, k_apic = (\<lambda>_. 0), k_ir = False, k_smmu = (\<lambda>_. False), k_smmu_cfg = (\<lambda>_ _ _. False)\<rparr>"


text \<open>
  A virtual CPU without floating-point state that causes a device-not-available exception: the event selector is not set, so the message goes to the portal of whatever event
  came before. The same holds for both virtualization architectures.
\<close>

lemma no_fpu_selector:
  assumes "fpu (ecs s self) = 0" "self \<noteq> 0" "fpowner s \<noteq> self" "cpu_hazard s AND HZD_FPU = 0"
  shows "vmcs_read (vmx_reinject (vmcss s (vmcs_cur s))) VMCS_EXI_EVENT_IDENT AND mask 11 = 0x307 \<Longrightarrow> vmx_exception K nmi self s = send_msg K Ret_vmx self (upd_vmcs (vmcs_cur s) vmx_reinject s)"
    and "svm_exception K self 0x47 s = send_msg K Ret_svm self (upd_vmcb (svm_reinject (vmcb (regs (ecs s self)))) s)"
  using assms by (simp_all add: vmx_exception_def svm_exception_def switch_fpu_def upd_vmcs_def upd_vmcb_def Let_def)

end
