(* ===== verification/Nova_Console.thy ===== *)
theory Nova_Console
  imports Nova_Prelude "HOL-Library.Sublist"
begin

text \<open>
  Text: the string functions of \<^verbatim>\<open>inc/string.hpp\<close>, the command line of \<^verbatim>\<open>src/cmdline.cpp\<close> and formatted output of \<^verbatim>\<open>src/console.cpp\<close>. A C string is the list of
  its characters before the terminating null character. What is printed is the list of characters given to \<^verbatim>\<open>putc\<close>.
\<close>

section \<open>Strings\<close>

definition NUL :: char where "NUL = CHR 0x00"

definition char_at :: "string \<Rightarrow> char" where
  "char_at s = (case s of [] \<Rightarrow> NUL | c # _ \<Rightarrow> c)"

text \<open>Characters are signed.\<close>

definition schar :: "char \<Rightarrow> int" where
  "schar c = (let n = of_char c in if n < 128 then n else n - 256)"

function strcmp :: "string \<Rightarrow> string \<Rightarrow> int" where
  "strcmp a b = (if char_at a \<noteq> NUL \<and> char_at a = char_at b then strcmp (tl a) (tl b) else schar (char_at a) - schar (char_at b))"
  by pat_completeness auto
termination by (relation "measure (\<lambda>(a, b). length a)") (auto simp: char_at_def split: list.splits)

declare strcmp.simps [simp del]

fun strncmp :: "string \<Rightarrow> string \<Rightarrow> nat \<Rightarrow> int" where
  "strncmp a b 0 = 0"
| "strncmp a b (Suc n) = (if n \<noteq> 0 \<and> char_at a \<noteq> NUL \<and> char_at a = char_at b then strncmp (tl a) (tl b) n else schar (char_at a) - schar (char_at b))"

section \<open>The command line\<close>

definition cmdline_options :: "string list" where
  "cmdline_options = [''insecure'', ''nodl'', ''nopcid'', ''nosmmu'', ''noturbo'', ''nouart'', ''novpid'']"

text \<open>\<^verbatim>\<open>arg_len\<close> skips spaces and returns the rest of the line with the length of its first argument.\<close>

definition arg_len :: "string \<Rightarrow> string \<times> nat" where
  "arg_len line = (let l = dropWhile (\<lambda>c. c = CHR '' '') line in (l, length (takeWhile (\<lambda>c. c \<noteq> CHR '' '') l)))"

lemma arg_len_le: "arg_len line = (l, n) \<Longrightarrow> length l \<le> length line"
  by (auto simp: arg_len_def Let_def length_dropWhile_le)

text \<open>The result is the set of options that are switched on, in addition to \<open>V\<close>.\<close>

function cmdline_parse :: "string \<Rightarrow> string set \<Rightarrow> string set" where
  "cmdline_parse line V =
     (let (l, len) = arg_len line
      in if len = 0 then V else cmdline_parse (drop len l) (V \<union> set (filter (\<lambda>p. strncmp p l len = 0) cmdline_options)))"
  by pat_completeness auto
termination
proof (relation "measure (\<lambda>(line, V). length line)")
  fix line V x l len assume "x = arg_len line" "(l, len) = x" "len \<noteq> 0"
  then have "length l \<le> length line" "len \<le> length l" "0 < len"
    using arg_len_le [of line l len] by (auto simp: arg_len_def Let_def length_takeWhile_le)
  then show "((drop len l, V \<union> set (filter (\<lambda>p. strncmp p l len = 0) cmdline_options)), line, V) \<in> measure (\<lambda>(line, V). length line)" by simp
qed simp

declare cmdline_parse.simps [simp del]

section \<open>Formatted output\<close>

definition FL_SIGNED :: u32 where "FL_SIGNED = BIT 0"
definition FL_ALT_FORM :: u32 where "FL_ALT_FORM = BIT 1"
definition FL_ZERO_PAD :: u32 where "FL_ZERO_PAD = BIT 2"

text \<open>The digits of a number are written backwards into a buffer of 24 characters; an overflow of the buffer is an error.\<close>

function num_digits :: "u64 \<Rightarrow> u64 \<Rightarrow> string \<Rightarrow> string option" where
  "num_digits base v buf =
     (if base \<le> 1 \<or> length buf \<ge> 24 then None
      else let buf = ''0123456789abcdef'' ! unat (v mod base) # buf; v = v div base in if v = 0 then Some buf else num_digits base v buf)"
  by pat_completeness auto
termination by (relation "measure (\<lambda>(base, v, buf). 24 - length buf)") auto

declare num_digits.simps [simp del]

definition print_num :: "u64 \<Rightarrow> u64 \<Rightarrow> u32 \<Rightarrow> u32 \<Rightarrow> string option" where
  "print_num val base width flags = do {
     let neg = (flags AND FL_SIGNED \<noteq> 0 \<and> val <s 0);
     buf \<leftarrow> num_digits base (if neg then - val else val) [];
     assert_that (\<not> neg \<or> length buf < 24);
     let buf = (if neg then CHR ''-'' # buf else buf);
     let alt = (if flags AND FL_ALT_FORM \<noteq> 0 then ''0x'' else []);
     let pad = unat width - (length buf + length alt);
     Some (if flags AND FL_ZERO_PAD \<noteq> 0 then alt @ replicate pad (CHR ''0'') @ buf else replicate pad (CHR '' '') @ alt @ buf)
   }"

definition print_str :: "string option \<Rightarrow> u32 \<Rightarrow> u32 \<Rightarrow> string" where
  "print_str s width precs = (case s of None \<Rightarrow> [] | Some s \<Rightarrow> (let t = take (unat precs) s in t @ replicate (unat width - length t) (CHR '' '')))"

text \<open>Variable arguments; reading one that is missing or of another type has no result.\<close>

datatype va = Va_int u64 | Va_str "string option"

fun va_int :: "va list \<Rightarrow> (u64 \<times> va list) option" where
  "va_int (Va_int u # as) = Some (u, as)" | "va_int _ = None"

fun va_str :: "va list \<Rightarrow> (string option \<times> va list) option" where
  "va_str (Va_str t # as) = Some (t, as)" | "va_str _ = None"

datatype fmode = FLAGS | WIDTH | PRECS

record fspec =
  f_mode :: fmode
  f_flags :: u32
  f_width :: u32
  f_precs :: u32
  f_len :: nat

definition is_digit :: "char \<Rightarrow> bool" where
  "is_digit c \<longleftrightarrow> c \<in> set ''0123456789''"

definition digit :: "char \<Rightarrow> u32" where
  "digit c = of_char c - 48"

definition f_digit :: "char \<Rightarrow> fspec \<Rightarrow> fspec" where
  "f_digit c f =
     (case f_mode f of
        FLAGS \<Rightarrow> if c = CHR ''0'' then f\<lparr>f_flags := f_flags f OR FL_ZERO_PAD\<rparr> else f\<lparr>f_mode := WIDTH, f_width := f_width f * 10 + digit c\<rparr>
      | WIDTH \<Rightarrow> f\<lparr>f_width := f_width f * 10 + digit c\<rparr>
      | PRECS \<Rightarrow> f\<lparr>f_precs := f_precs f * 10 + digit c\<rparr>)"

text \<open>A conversion: \<open>pc\<close> is the character before the format \<open>fm\<close>. The result is the output, the rest of the format and the remaining arguments.\<close>

fun conversion :: "char \<Rightarrow> fspec \<Rightarrow> string \<Rightarrow> va list \<Rightarrow> (string \<times> string \<times> va list) option" where
  "conversion pc f [] as = Some ([pc], [], as)"
| "conversion pc f (c # fm) as =
     (if is_digit c then conversion c (f_digit c f) fm as
      else if c = CHR ''#'' then conversion c (if f_mode f = FLAGS then f\<lparr>f_flags := f_flags f OR FL_ALT_FORM\<rparr> else f) fm as
      else if c = CHR ''*'' then do { (u, as) \<leftarrow> va_int as; conversion c (f\<lparr>f_width := ucast u, f_mode := WIDTH\<rparr>) fm as }
      else if c = CHR ''.'' then conversion c (f\<lparr>f_mode := PRECS\<rparr>) fm as
      else if c = CHR ''l'' then conversion c (f\<lparr>f_len := f_len f + 1\<rparr>) fm as
      else if c = CHR ''c'' then do { (u, as) \<leftarrow> va_int as; Some ([char_of (unat (ucast u :: u8))], fm, as) }
      else if c = CHR ''s'' then do { (t, as) \<leftarrow> va_str as; Some (print_str t (f_width f) (if f_precs f \<noteq> 0 then f_precs f else - 1), fm, as) }
      else if c = CHR ''d'' then do {
        (u, as) \<leftarrow> va_int as;
        t \<leftarrow> print_num (if f_len f = 0 then scast (ucast u :: u32) else u) 10 (f_width f) (f_flags f OR FL_SIGNED);
        Some (t, fm, as)
      }
      else if c = CHR ''u'' \<or> c = CHR ''x'' then do {
        (u, as) \<leftarrow> va_int as;
        t \<leftarrow> print_num (if f_len f = 0 then ucast (ucast u :: u32) else u) (if c = CHR ''x'' then 16 else 10) (f_width f) (f_flags f);
        Some (t, fm, as)
      }
      else if c = CHR ''p'' then do { (u, as) \<leftarrow> va_int as; t \<leftarrow> print_num u 16 (f_width f) FL_ALT_FORM; Some (t, fm, as) }
      else Some ([c], fm, as))"

lemma conversion_le: "conversion pc f fm as = Some (t, r, bs) \<Longrightarrow> length r \<le> length fm"
  by (induction pc f fm as rule: conversion.induct) (auto simp: bind_eq_Some_conv split: if_splits, rule le_SucI, blast)

definition f_init :: fspec where
  "f_init = \<lparr>f_mode = FLAGS, f_flags = 0, f_width = 0, f_precs = 0, f_len = 0\<rparr>"

function vprintf_loop :: "string \<Rightarrow> va list \<Rightarrow> string option" where
  "vprintf_loop [] as = Some []"
| "vprintf_loop (c # fm) as =
     (if c \<noteq> CHR ''%'' then map_option ((#) c) (vprintf_loop fm as)
      else case conversion c f_init fm as of
        None \<Rightarrow> None
      | Some (t, r, bs) \<Rightarrow> map_option ((@) t) (vprintf_loop r bs))"
  by pat_completeness auto
termination by (relation "measure (\<lambda>(fm, as). length fm)") (auto dest!: conversion_le)

definition vprintf :: "string \<Rightarrow> va list \<Rightarrow> string option" where
  "vprintf fm as = map_option (\<lambda>t. t @ [CHR 0x0d, CHR 0x0a]) (vprintf_loop fm as)"

section \<open>Options\<close>

lemma schar_inj: "schar a = schar b \<longleftrightarrow> a = b"
proof
  assume e: "schar a = schar b"
  have r: "0 \<le> (of_char c :: int) \<and> (of_char c :: int) < 256" for c
    using pos_mod_bound [of 256 "of_char c :: int"] pos_mod_sign [of 256 "of_char c :: int"] unfolding of_char_mod_256 by simp
  have "(of_char a :: int) = of_char b" using e r [of a] r [of b] unfolding schar_def Let_def by (simp split: if_splits)
  then show "a = b" by simp
qed simp

text \<open>A comparison of as many characters as a word has tells whether the word is a prefix.\<close>

lemma strncmp_prefix:
  assumes "NUL \<notin> set w" "NUL \<notin> set p"
  shows "strncmp p (w @ x) (length w) = 0 \<longleftrightarrow> prefix w p"
  using assms
proof (induction w arbitrary: p)
  case (Cons c w)
  show ?case
  proof (cases p)
    case Nil
    then show ?thesis using Cons.prems schar_inj by (auto simp: char_at_def)
  next
    case (Cons d q)
    with Cons.prems have "NUL \<notin> set w" "NUL \<notin> set q" "d \<noteq> NUL" by auto
    then show ?thesis using Cons.IH [of q] Cons schar_inj by (cases w) (auto simp: char_at_def)
  qed
qed simp

text \<open>The words of a line are its maximal parts without spaces.\<close>

definition is_word :: "string \<Rightarrow> string \<Rightarrow> bool" where
  "is_word w line \<longleftrightarrow> (\<exists>a b. line = a @ w @ b \<and> w \<noteq> [] \<and> CHR '' '' \<notin> set w \<and> (a = [] \<or> last a = CHR '' '') \<and> (b = [] \<or> hd b = CHR '' ''))"

lemma word_head:
  assumes "t @ r = w @ b" "CHR '' '' \<notin> set t" "CHR '' '' \<notin> set w" "r = [] \<or> hd r = CHR '' ''" "b = [] \<or> hd b = CHR '' ''"
  shows "w = t"
proof -
  have "takeWhile (\<lambda>c. c \<noteq> CHR '' '') (y @ z) = y" if "CHR '' '' \<notin> set y" "z = [] \<or> hd z = CHR '' ''" for y z :: string
    using that by (cases z) (auto simp: takeWhile_append takeWhile_eq_all_conv)
  then show ?thesis using assms by metis
qed

lemma is_word_split:
  assumes "set sp \<subseteq> {CHR '' ''}" "t \<noteq> []" "CHR '' '' \<notin> set t" "r = [] \<or> hd r = CHR '' ''"
  shows "is_word w (sp @ t @ r) \<longleftrightarrow> w = t \<or> is_word w r"
proof
  assume "is_word w (sp @ t @ r)"
  then obtain a b where w: "sp @ t @ r = a @ w @ b" "w \<noteq> []" "CHR '' '' \<notin> set w" "a = [] \<or> last a = CHR '' ''" "b = [] \<or> hd b = CHR '' ''" by (auto simp: is_word_def)
  from w(1) consider us where "sp = a @ us" "us @ t @ r = w @ b" | us where "a = sp @ us" "t @ r = us @ w @ b" "us \<noteq> []"
    using append_eq_append_conv2 [of sp "t @ r" a "w @ b"] by (metis append_Nil append_Nil2)
  then show "w = t \<or> is_word w r"
  proof cases
    case 1
    have "us = []"
    proof (rule ccontr)
      assume "us \<noteq> []"
      then have "hd w = hd us" "hd us \<in> set sp" using 1 w(2) by (auto simp: hd_append dest: arg_cong [of _ _ hd])
      then show False using assms(1) w(2,3) hd_in_set by fastforce
    qed
    then show ?thesis using word_head [of t r w b] 1 w assms by auto
  next
    case 2
    then have l: "last us = CHR '' ''" using w(4) by auto
    from 2(2) consider vs where "t = us @ vs" | vs where "us = t @ vs" "r = vs @ w @ b" "vs \<noteq> []"
      using append_eq_append_conv2 [of t r us "w @ b"] by (metis append_Nil append_Nil2)
    then show ?thesis
    proof cases
      case 1
      then show ?thesis using l 2(3) assms(3) last_in_set by fastforce
    next
      case vs: 2
      then have "last vs = CHR '' ''" using l by auto
      then have "is_word w r" unfolding is_word_def using vs w by blast
      then show ?thesis ..
    qed
  qed
next
  assume "w = t \<or> is_word w r"
  then show "is_word w (sp @ t @ r)"
  proof
    assume "w = t"
    moreover have "sp = [] \<or> last sp = CHR '' ''" using assms(1) last_in_set by fastforce
    ultimately show ?thesis using assms unfolding is_word_def by blast
  next
    assume "is_word w r"
    then obtain a b where w: "r = a @ w @ b" "w \<noteq> []" "CHR '' '' \<notin> set w" "a = [] \<or> last a = CHR '' ''" "b = [] \<or> hd b = CHR '' ''" by (auto simp: is_word_def)
    have "a \<noteq> []" using assms(4) w by (cases w) auto
    then have "sp @ t @ r = (sp @ t @ a) @ w @ b" "last (sp @ t @ a) = CHR '' ''" using w by auto
    then show ?thesis using w unfolding is_word_def by blast
  qed
qed

lemma arg_len_split:
  assumes "arg_len line = (l, len)"
  obtains sp t r where "line = sp @ l" "set sp \<subseteq> {CHR '' ''}" "l = t @ r" "len = length t" "CHR '' '' \<notin> set t" "r = [] \<or> hd r = CHR '' ''"
proof
  define d where "d = dropWhile (\<lambda>c. c = CHR '' '') line"
  have l: "l = d" "len = length (takeWhile (\<lambda>c. c \<noteq> CHR '' '') d)" using assms by (auto simp: arg_len_def Let_def d_def)
  show "line = takeWhile (\<lambda>c. c = CHR '' '') line @ l" by (simp add: l d_def)
  show "set (takeWhile (\<lambda>c. c = CHR '' '') line) \<subseteq> {CHR '' ''}" by (auto dest: set_takeWhileD)
  show "l = takeWhile (\<lambda>c. c \<noteq> CHR '' '') d @ dropWhile (\<lambda>c. c \<noteq> CHR '' '') d" by (simp add: l)
  show "len = length (takeWhile (\<lambda>c. c \<noteq> CHR '' '') d)" by (rule l)
  show "CHR '' '' \<notin> set (takeWhile (\<lambda>c. c \<noteq> CHR '' '') d)" by (auto dest: set_takeWhileD)
  show "dropWhile (\<lambda>c. c \<noteq> CHR '' '') d = [] \<or> hd (dropWhile (\<lambda>c. c \<noteq> CHR '' '') d) = CHR '' ''" using hd_dropWhile [of "\<lambda>c. c \<noteq> CHR '' ''" d] by blast
qed

lemma options_no_NUL: "p \<in> set cmdline_options \<Longrightarrow> NUL \<notin> set p"
  by (auto simp: cmdline_options_def NUL_def)

text \<open>
  C39: Parsing the command line terminates and switches on exactly the options of which a word of the line is a prefix; spaces separate words and their number does not matter.
\<close>

theorem cmdline_parse_correct:
  assumes "NUL \<notin> set line"
  shows "cmdline_parse line V = V \<union> {p \<in> set cmdline_options. \<exists>w. is_word w line \<and> prefix w p}"
  using assms
proof (induction line V rule: cmdline_parse.induct)
  case (1 line V)
  obtain l len where al: "arg_len line = (l, len)" by (cases "arg_len line")
  then obtain sp t r where s: "line = sp @ l" "set sp \<subseteq> {CHR '' ''}" "l = t @ r" "len = length t" "CHR '' '' \<notin> set t" "r = [] \<or> hd r = CHR '' ''" by (rule arg_len_split)
  show ?case
  proof (cases "len = 0")
    case True
    have "\<not> is_word w line" for w
    proof
      assume "is_word w line"
      then obtain c where c: "c \<in> set w" "set w \<subseteq> set line" "CHR '' '' \<notin> set w" unfolding is_word_def by (metis all_not_in_conv le_sup_iff set_append set_empty subset_refl sup_ge1 sup_ge2)
      have "l = []"
      proof (rule ccontr)
        assume "l \<noteq> []"
        have l: "dropWhile (\<lambda>c. c = CHR '' '') line = l" using al by (simp add: arg_len_def Let_def)
        have "hd l \<noteq> CHR '' ''" using hd_dropWhile [of "\<lambda>c. c = CHR '' ''" line] \<open>l \<noteq> []\<close> unfolding l by simp
        then show False using s(3,4,6) True \<open>l \<noteq> []\<close> by simp
      qed
      then have "set line \<subseteq> {CHR '' ''}" using s(1,2) by simp
      with c show False by blast
    qed
    then show ?thesis using True al by (subst cmdline_parse.simps) simp
  next
    case False
    define W where "W = set (filter (\<lambda>p. strncmp p l len = 0) cmdline_options)"
    have n: "NUL \<notin> set t" "NUL \<notin> set (drop len l)" using 1(2) s by auto
    have W: "W = {p \<in> set cmdline_options. prefix t p}"
      using strncmp_prefix [OF n(1), of _ r] options_no_NUL s(3,4) by (auto simp: W_def)
    have "cmdline_parse line V = cmdline_parse (drop len l) (V \<union> W)" using False al by (subst cmdline_parse.simps) (simp add: W_def)
    also have "\<dots> = V \<union> W \<union> {p \<in> set cmdline_options. \<exists>w. is_word w r \<and> prefix w p}"
      using 1(1) [OF refl al [symmetric] False] n(2) s(3,4) by (simp add: W_def)
    also have "\<dots> = V \<union> {p \<in> set cmdline_options. \<exists>w. is_word w line \<and> prefix w p}"
      unfolding W s(1,3) using is_word_split [OF s(2) _ s(5,6)] False s(4) by auto
    finally show ?thesis .
  qed
qed

theorem cmdline_parse_correct_witness: "''nodl'' \<in> cmdline_parse ''  nodl nov'' {} \<and> ''novpid'' \<in> cmdline_parse ''  nodl nov'' {}"
proof -
  have "NUL \<notin> set ''  nodl nov''" by (simp add: NUL_def)
  note c = cmdline_parse_correct [OF this, of "{}"]
  have "is_word ''nodl'' ''  nodl nov''" unfolding is_word_def by (rule exI [of _ "''  ''"], rule exI [of _ "'' nov''"]) simp
  moreover have "is_word ''nov'' ''  nodl nov''" unfolding is_word_def by (rule exI [of _ "''  nodl ''"], rule exI [of _ "[]"]) simp
  ultimately show ?thesis unfolding c by (auto simp: cmdline_options_def)
qed

section \<open>Numbers\<close>

text \<open>The value of a numeral, most significant digit first.\<close>

definition hex_value :: "char \<Rightarrow> nat" where
  "hex_value c = (if is_digit c then of_char c - 48 else of_char c - 87)"

definition num_value :: "nat \<Rightarrow> string \<Rightarrow> nat" where
  "num_value b ds = foldl (\<lambda>a c. a * b + hex_value c) 0 ds"

lemma hex_values: "\<forall>i\<in>set [0..<16]. hex_value (''0123456789abcdef'' ! i) = i"
  by code_simp

lemma num_value_snoc: "num_value b (ds @ [c]) = num_value b ds * b + hex_value c"
  by (simp add: num_value_def)

lemma num_digits_spec:
  assumes "2 \<le> unat b" "unat b \<le> 16" "unat v < unat b ^ k" "length buf + k \<le> 24" "0 < k"
  obtains ds where "num_digits b v buf = Some (ds @ buf)" "ds \<noteq> []" "length ds \<le> k" "num_value (unat b) ds = unat v" "hd ds = CHR ''0'' \<longrightarrow> ds = ''0''"
  using assms
proof (induction k arbitrary: v buf thesis)
  case (Suc k)
  define d where d: "d = ''0123456789abcdef'' ! unat (v mod b)"
  have "unat v mod unat b < unat b" using Suc.prems(2) by simp
  then have m: "unat (v mod b) < 16" "unat (v mod b) = unat v mod unat b" "unat (v div b) = unat v div unat b"
    using Suc.prems(3) by (simp_all add: unat_mod_distrib unat_div_distrib)
  have hd: "hex_value d = unat v mod unat b" using hex_values m by (simp add: d)
  have g: "\<not> (b \<le> 1 \<or> length buf \<ge> 24)" using Suc.prems(2,5) by (auto simp: word_le_nat_alt)
  show ?case
  proof (cases "v div b = 0")
    case True
    then have v: "unat v div unat b = 0" using m(3) by (metis unat_0)
    then have "unat v mod unat b = unat v" using Suc.prems(2) by (simp add: div_eq_0_iff)
    moreover have "num_digits b v buf = Some ([d] @ buf)" using True g by (subst num_digits.simps) (simp add: d Let_def)
    ultimately show ?thesis by (intro Suc.prems(1) [of "[d]"]) (simp_all add: num_value_def hd)
  next
    case False
    have "unat (v div b) < unat b ^ k" using Suc.prems(4) m(3) by (simp add: less_mult_imp_div_less mult.commute)
    moreover have "0 < k" using False calculation by (cases k) (auto simp: unat_eq_zero)
    ultimately obtain ds where ds: "num_digits b (v div b) (d # buf) = Some (ds @ d # buf)" "ds \<noteq> []" "length ds \<le> k" "num_value (unat b) ds = unat (v div b)" "hd ds = CHR ''0'' \<longrightarrow> ds = ''0''"
      using Suc.IH [of "v div b" "d # buf"] Suc.prems(2,3,5) by auto
    have "num_digits b v buf = Some ((ds @ [d]) @ buf)" using False g ds(1) by (subst num_digits.simps) (simp add: d Let_def)
    moreover have "hd ds \<noteq> CHR ''0''"
    proof
      assume "hd ds = CHR ''0''"
      then have "num_value (unat b) ds = 0" using ds(5) by (simp add: num_value_def hex_value_def is_digit_def)
      then show False using ds(4) False by (simp add: unat_eq_zero)
    qed
    moreover have "hd (ds @ [d]) = hd ds" using ds(2) by (cases ds) simp_all
    moreover have "num_value (unat b) (ds @ [d]) = unat v" unfolding num_value_snoc ds(4) hd m(3) by simp
    ultimately show ?thesis using ds(2,3) by (intro Suc.prems(1) [of "ds @ [d]"]) simp_all
  qed
qed simp

lemma unat_minus_signed: "val <s (0 :: u64) \<Longrightarrow> int (unat (- val)) = - sint val"
proof -
  assume "val <s 0"
  then have s: "sint val < 0" by (simp add: word_sless_alt)
  have e: "sint val = uint val - 2 ^ 64 * of_bool (bit val 63)"
    using take_bit_int_eq_self_iff [of 64 "uint val"] uint_lt2p [of val] uint_ge_0 [of val] by (simp add: sint_uint signed_take_bit_eq_take_bit_minus bit_uint_iff)
  then have "bit val 63" using s by (cases "bit val 63") (auto simp: not_less [symmetric])
  then have u: "sint val = uint val - 2 ^ 64" using e by simp
  have m: "uint (- val) = (2 ^ 64 - uint val) mod 2 ^ 64" by (simp add: uint_word_ariths)
  have r: "0 < uint val" "uint val < 2 ^ 64" using uint_lt2p [of val] uint_ge_0 [of val] \<open>bit val 63\<close> by (auto simp: less_le) (metis bit_0_eq bot_apply bot_bool_def uint_0_iff)
  have "(2 ^ 64 - uint val) mod 2 ^ 64 = 2 ^ 64 - uint val" by (rule mod_pos_pos_trivial) (use r in simp_all)
  then have "uint (- val) = 2 ^ 64 - uint val" using m by (rule trans [rotated])
  then show ?thesis using u by simp
qed

text \<open>
  C40: Printing a number in base 10 or 16 never overflows its buffer. The numeral that is printed has no leading zeros and denotes the number, or, for a negative number that is printed as
  signed, its absolute value after a sign; the output is padded to the width with spaces before, or with zeros after, the prefix of the alternative form.
\<close>

theorem print_num_correct:
  assumes "base = 10 \<or> base = 16" "neg = (flags AND FL_SIGNED \<noteq> 0 \<and> val <s 0)" "alt = (if flags AND FL_ALT_FORM \<noteq> 0 then ''0x'' else [])" "sg = (if neg then ''-'' else [])"
  shows "\<exists>ds n. print_num val base width flags = Some (if flags AND FL_ZERO_PAD \<noteq> 0 then alt @ replicate n (CHR ''0'') @ sg @ ds else replicate n (CHR '' '') @ alt @ sg @ ds) \<and>
    ds \<noteq> [] \<and> (hd ds = CHR ''0'' \<longrightarrow> ds = ''0'') \<and> (if neg then int (num_value (unat base) ds) = - sint val else num_value (unat base) ds = unat val) \<and>
    n = unat width - length (alt @ sg @ ds) \<and> length ds \<le> 20"
proof -
  define v where v: "v = (if neg then - val else val)"
  have b: "2 \<le> unat base" "unat base \<le> 16" using assms(1) by auto
  have "unat v < 2 ^ 64" using u64_lt [of v] by simp
  also have "(2 :: nat) ^ 64 \<le> unat base ^ 20" using assms(1) by auto
  finally obtain ds where ds: "num_digits base v [] = Some (ds @ [])" "ds \<noteq> []" "length ds \<le> 20" "num_value (unat base) ds = unat v" "hd ds = CHR ''0'' \<longrightarrow> ds = ''0''"
    using num_digits_spec [OF b, of v 20 "[]"] by auto
  have "if neg then int (num_value (unat base) ds) = - sint val else num_value (unat base) ds = unat val"
    using ds(4) unat_minus_signed [of val] assms(2) by (simp add: v)
  moreover have "print_num val base width flags = Some (if flags AND FL_ZERO_PAD \<noteq> 0 then alt @ replicate (unat width - length (alt @ sg @ ds)) (CHR ''0'') @ sg @ ds
      else replicate (unat width - length (alt @ sg @ ds)) (CHR '' '') @ alt @ sg @ ds)"
    using ds(1,3) assms(3,4) unfolding print_num_def Let_def assms(2) [symmetric] v [symmetric] by (auto simp: ac_simps)
  ultimately show ?thesis using ds by blast
qed

theorem print_num_correct_witness: "\<exists>ds. print_num (- 5) 10 4 FL_SIGNED = Some (replicate (4 - (1 + length ds)) (CHR '' '') @ ''-'' @ ds) \<and> num_value 10 ds = 5"
proof -
  have "FL_SIGNED AND FL_SIGNED \<noteq> 0" "FL_SIGNED AND FL_ALT_FORM = 0" "FL_SIGNED AND FL_ZERO_PAD = 0" "sint (- 5 :: u64) = - 5"
    by (simp_all add: FL_SIGNED_def FL_ALT_FORM_def FL_ZERO_PAD_def BIT_def)
  then show ?thesis using print_num_correct [of 10 True FL_SIGNED "- 5" "[]" "''-''" 4] by (auto simp: word_sless_alt)
qed

text \<open>Text without conversions is printed as it is.\<close>

lemma vprintf_text: "CHR ''%'' \<notin> set t \<Longrightarrow> vprintf_loop (t @ fm) as = map_option ((@) t) (vprintf_loop fm as)"
  by (cases "vprintf_loop fm as"; induction t) auto

end
