(* ===== verification/Nova_A64.thy ===== *)
theory Nova_A64
  imports Nova_Utcb
begin

text \<open>
  The AArch64 port where it differs from x86-64 in kernel logic: the controls that confine a guest (\<^verbatim>\<open>inc/aarch64/arch.hpp\<close>, \<^verbatim>\<open>cpu.hpp\<close>, \<^verbatim>\<open>src/aarch64/cpu.cpp\<close>), the transfer of
  architectural state between an execution context and a UTCB (\<^verbatim>\<open>utcb_arch.cpp\<close>, \<^verbatim>\<open>regs.hpp\<close>, \<^verbatim>\<open>mtd_arch.hpp\<close>), and the switch of the register state between host and guests
  (\<^verbatim>\<open>vmcb.cpp\<close>, \<^verbatim>\<open>gich.hpp\<close>, \<^verbatim>\<open>ec_arch.cpp\<close>).
\<close>

section \<open>Control registers and message items\<close>

definition HCR_TWEDEL :: u64 where "HCR_TWEDEL = BIT64_RANGE 63 60"
definition HCR_TWEDEn :: u64 where "HCR_TWEDEn = BIT64 59"
definition HCR_TID5 :: u64 where "HCR_TID5 = BIT64 58"
definition HCR_DCT :: u64 where "HCR_DCT = BIT64 57"
definition HCR_ATA :: u64 where "HCR_ATA = BIT64 56"
definition HCR_TTLBOS :: u64 where "HCR_TTLBOS = BIT64 55"
definition HCR_TTLBIS :: u64 where "HCR_TTLBIS = BIT64 54"
definition HCR_ENSCXT :: u64 where "HCR_ENSCXT = BIT64 53"
definition HCR_TOCU :: u64 where "HCR_TOCU = BIT64 52"
definition HCR_AMVOFFEN :: u64 where "HCR_AMVOFFEN = BIT64 51"
definition HCR_TICAB :: u64 where "HCR_TICAB = BIT64 50"
definition HCR_TID4 :: u64 where "HCR_TID4 = BIT64 49"
definition HCR_GPF :: u64 where "HCR_GPF = BIT64 48"
definition HCR_FIEN :: u64 where "HCR_FIEN = BIT64 47"
definition HCR_FWB :: u64 where "HCR_FWB = BIT64 46"
definition HCR_NV2 :: u64 where "HCR_NV2 = BIT64 45"
definition HCR_AT :: u64 where "HCR_AT = BIT64 44"
definition HCR_NV1 :: u64 where "HCR_NV1 = BIT64 43"
definition HCR_NV :: u64 where "HCR_NV = BIT64 42"
definition HCR_API :: u64 where "HCR_API = BIT64 41"
definition HCR_APK :: u64 where "HCR_APK = BIT64 40"
definition HCR_TEA :: u64 where "HCR_TEA = BIT64 37"
definition HCR_TERR :: u64 where "HCR_TERR = BIT64 36"
definition HCR_TLOR :: u64 where "HCR_TLOR = BIT64 35"
definition HCR_E2H :: u64 where "HCR_E2H = BIT64 34"
definition HCR_ID :: u64 where "HCR_ID = BIT64 33"
definition HCR_CD :: u64 where "HCR_CD = BIT64 32"
definition HCR_RW :: u64 where "HCR_RW = BIT64 31"
definition HCR_TGE :: u64 where "HCR_TGE = BIT64 27"
definition HCR_TTLB :: u64 where "HCR_TTLB = BIT64 25"
definition HCR_TPCP :: u64 where "HCR_TPCP = BIT64 23"
definition HCR_TSW :: u64 where "HCR_TSW = BIT64 22"
definition HCR_TACR :: u64 where "HCR_TACR = BIT64 21"
definition HCR_TIDCP :: u64 where "HCR_TIDCP = BIT64 20"
definition HCR_TSC :: u64 where "HCR_TSC = BIT64 19"
definition HCR_TID3 :: u64 where "HCR_TID3 = BIT64 18"
definition HCR_TID1 :: u64 where "HCR_TID1 = BIT64 16"
definition HCR_TID0 :: u64 where "HCR_TID0 = BIT64 15"
definition HCR_TWE :: u64 where "HCR_TWE = BIT64 14"
definition HCR_TWI :: u64 where "HCR_TWI = BIT64 13"
definition HCR_DC :: u64 where "HCR_DC = BIT64 12"
definition HCR_BSU_INNER :: u64 where "HCR_BSU_INNER = push_bit 10 1"
definition HCR_FB :: u64 where "HCR_FB = BIT64 9"
definition HCR_AMO :: u64 where "HCR_AMO = BIT64 5"
definition HCR_IMO :: u64 where "HCR_IMO = BIT64 4"
definition HCR_FMO :: u64 where "HCR_FMO = BIT64 3"
definition HCR_PTW :: u64 where "HCR_PTW = BIT64 2"
definition HCR_SWIO :: u64 where "HCR_SWIO = BIT64 1"
definition HCR_VM :: u64 where "HCR_VM = BIT64 0"

lemmas hcr_bits_defs = HCR_TWEDEL_def HCR_TWEDEn_def HCR_TID5_def HCR_DCT_def HCR_ATA_def HCR_TTLBOS_def HCR_TTLBIS_def HCR_ENSCXT_def HCR_TOCU_def HCR_AMVOFFEN_def HCR_TICAB_def HCR_TID4_def HCR_GPF_def HCR_FIEN_def HCR_FWB_def HCR_NV2_def HCR_AT_def HCR_NV1_def HCR_NV_def HCR_API_def HCR_APK_def HCR_TEA_def HCR_TERR_def HCR_TLOR_def HCR_E2H_def HCR_ID_def HCR_CD_def HCR_RW_def HCR_TGE_def HCR_TTLB_def HCR_TPCP_def HCR_TSW_def HCR_TACR_def HCR_TIDCP_def HCR_TSC_def HCR_TID3_def HCR_TID1_def HCR_TID0_def HCR_TWE_def HCR_TWI_def HCR_DC_def HCR_BSU_INNER_def HCR_FB_def HCR_AMO_def HCR_IMO_def HCR_FMO_def HCR_PTW_def HCR_SWIO_def HCR_VM_def

definition CPTR_63_32 :: u64 where "CPTR_63_32 = BIT64_RANGE 63 32"
definition CPTR_TAM :: u64 where "CPTR_TAM = BIT64 30"
definition CPTR_29_21 :: u64 where "CPTR_29_21 = BIT64_RANGE 29 21"
definition CPTR_TTA :: u64 where "CPTR_TTA = BIT64 20"
definition CPTR_19_14 :: u64 where "CPTR_19_14 = BIT64_RANGE 19 14"
definition CPTR_13 :: u64 where "CPTR_13 = BIT64 13"
definition CPTR_TSM :: u64 where "CPTR_TSM = BIT64 12"
definition CPTR_11 :: u64 where "CPTR_11 = BIT64 11"
definition CPTR_TFP :: u64 where "CPTR_TFP = BIT64 10"
definition CPTR_9 :: u64 where "CPTR_9 = BIT64 9"
definition CPTR_TZ :: u64 where "CPTR_TZ = BIT64 8"
definition CPTR_7_0 :: u64 where "CPTR_7_0 = BIT64_RANGE 7 0"

lemmas cptr_bits_defs = CPTR_63_32_def CPTR_TAM_def CPTR_29_21_def CPTR_TTA_def CPTR_19_14_def CPTR_13_def CPTR_TSM_def CPTR_11_def CPTR_TFP_def CPTR_9_def CPTR_TZ_def CPTR_7_0_def

definition MDCR_63_37 :: u64 where "MDCR_63_37 = BIT64_RANGE 63 37"
definition MDCR_HPMFZS :: u64 where "MDCR_HPMFZS = BIT64 36"
definition MDCR_35_30 :: u64 where "MDCR_35_30 = BIT64_RANGE 35 30"
definition MDCR_HPMFZO :: u64 where "MDCR_HPMFZO = BIT64 29"
definition MDCR_MTPME :: u64 where "MDCR_MTPME = BIT64 28"
definition MDCR_TDCC :: u64 where "MDCR_TDCC = BIT64 27"
definition MDCR_HLP :: u64 where "MDCR_HLP = BIT64 26"
definition MDCR_E2TB :: u64 where "MDCR_E2TB = BIT64_RANGE 25 24"
definition MDCR_HCCD :: u64 where "MDCR_HCCD = BIT64 23"
definition MDCR_22_20 :: u64 where "MDCR_22_20 = BIT64_RANGE 22 20"
definition MDCR_TTRF :: u64 where "MDCR_TTRF = BIT64 19"
definition MDCR_18 :: u64 where "MDCR_18 = BIT64 18"
definition MDCR_HPMD :: u64 where "MDCR_HPMD = BIT64 17"
definition MDCR_16_15 :: u64 where "MDCR_16_15 = BIT64_RANGE 16 15"
definition MDCR_TPMS :: u64 where "MDCR_TPMS = BIT64 14"
definition MDCR_E2PB :: u64 where "MDCR_E2PB = BIT64_RANGE 13 12"
definition MDCR_TDE :: u64 where "MDCR_TDE = BIT64 8"
definition MDCR_HPME :: u64 where "MDCR_HPME = BIT64 7"
definition MDCR_TPM :: u64 where "MDCR_TPM = BIT64 6"
definition MDCR_TPMCR :: u64 where "MDCR_TPMCR = BIT64 5"
definition MDCR_HPMN :: u64 where "MDCR_HPMN = BIT64_RANGE 4 0"

lemmas mdcr_bits_defs = MDCR_63_37_def MDCR_HPMFZS_def MDCR_35_30_def MDCR_HPMFZO_def MDCR_MTPME_def MDCR_TDCC_def MDCR_HLP_def MDCR_E2TB_def MDCR_HCCD_def MDCR_22_20_def MDCR_TTRF_def MDCR_18_def MDCR_HPMD_def MDCR_16_15_def MDCR_TPMS_def MDCR_E2PB_def MDCR_TDE_def MDCR_HPME_def MDCR_TPM_def MDCR_TPMCR_def MDCR_HPMN_def

definition SCTLR_A64_UCI :: u64 where "SCTLR_A64_UCI = BIT64 26"
definition SCTLR_A64_UCT :: u64 where "SCTLR_A64_UCT = BIT64 15"
definition SCTLR_A64_DZE :: u64 where "SCTLR_A64_DZE = BIT64 14"
definition SCTLR_ALL_I :: u64 where "SCTLR_ALL_I = BIT64 12"
definition SCTLR_A64_SA0 :: u64 where "SCTLR_A64_SA0 = BIT64 4"
definition SCTLR_A64_SA :: u64 where "SCTLR_A64_SA = BIT64 3"
definition SCTLR_ALL_C :: u64 where "SCTLR_ALL_C = BIT64 2"
definition SCTLR_ALL_A :: u64 where "SCTLR_ALL_A = BIT64 1"
definition SCTLR_ALL_M :: u64 where "SCTLR_ALL_M = BIT64 0"

lemmas sctlr_bits_defs = SCTLR_A64_UCI_def SCTLR_A64_UCT_def SCTLR_A64_DZE_def SCTLR_ALL_I_def SCTLR_A64_SA0_def SCTLR_A64_SA_def SCTLR_ALL_C_def SCTLR_ALL_A_def SCTLR_ALL_M_def

definition SPSR_ALL_NZCV :: u64 where "SPSR_ALL_NZCV = BIT64_RANGE 31 28"
definition SPSR_ALL_nRW :: u64 where "SPSR_ALL_nRW = BIT64 4"
definition SPSR_ALL_M :: u64 where "SPSR_ALL_M = BIT64_RANGE 3 0"
definition SPSR_A64_EL0 :: u64 where "SPSR_A64_EL0 = push_bit 2 0"

lemmas spsr_bits_defs = SPSR_ALL_NZCV_def SPSR_ALL_nRW_def SPSR_ALL_M_def SPSR_A64_EL0_def

definition A64_POISON :: u32 where "A64_POISON = BIT 0"
definition A64_ICI :: u32 where "A64_ICI = BIT 1"
definition A64_GPR :: u32 where "A64_GPR = BIT 2"
definition A64_EL0_SP :: u32 where "A64_EL0_SP = BIT 4"
definition A64_EL0_IDR :: u32 where "A64_EL0_IDR = BIT 5"
definition A64_A32_SPSR :: u32 where "A64_A32_SPSR = BIT 7"
definition A64_A32_DIH :: u32 where "A64_A32_DIH = BIT 8"
definition A64_EL1_SP :: u32 where "A64_EL1_SP = BIT 10"
definition A64_EL1_IDR :: u32 where "A64_EL1_IDR = BIT 11"
definition A64_EL1_ELR_SPSR :: u32 where "A64_EL1_ELR_SPSR = BIT 12"
definition A64_EL1_ESR_FAR :: u32 where "A64_EL1_ESR_FAR = BIT 13"
definition A64_EL1_AFSR :: u32 where "A64_EL1_AFSR = BIT 14"
definition A64_EL1_TTBR :: u32 where "A64_EL1_TTBR = BIT 15"
definition A64_EL1_TCR :: u32 where "A64_EL1_TCR = BIT 16"
definition A64_EL1_MAIR :: u32 where "A64_EL1_MAIR = BIT 17"
definition A64_EL1_VBAR :: u32 where "A64_EL1_VBAR = BIT 18"
definition A64_EL1_SCTLR :: u32 where "A64_EL1_SCTLR = BIT 19"
definition A64_EL1_MDSCR :: u32 where "A64_EL1_MDSCR = BIT 20"
definition A64_EL2_HCR :: u32 where "A64_EL2_HCR = BIT 23"
definition A64_EL2_IDR :: u32 where "A64_EL2_IDR = BIT 24"
definition A64_EL2_ELR_SPSR :: u32 where "A64_EL2_ELR_SPSR = BIT 25"
definition A64_EL2_ESR_FAR :: u32 where "A64_EL2_ESR_FAR = BIT 26"
definition A64_EL2_HPFAR :: u32 where "A64_EL2_HPFAR = BIT 27"
definition A64_TMR :: u32 where "A64_TMR = BIT 29"
definition A64_GIC :: u32 where "A64_GIC = BIT 30"
definition A64_SPACES :: u32 where "A64_SPACES = BIT 31"

lemmas a64_items = A64_POISON_def A64_ICI_def A64_GPR_def A64_EL0_SP_def A64_EL0_IDR_def A64_A32_SPSR_def A64_A32_DIH_def A64_EL1_SP_def A64_EL1_IDR_def A64_EL1_ELR_SPSR_def A64_EL1_ESR_FAR_def A64_EL1_AFSR_def A64_EL1_TTBR_def A64_EL1_TCR_def A64_EL1_MAIR_def A64_EL1_VBAR_def A64_EL1_SCTLR_def A64_EL1_MDSCR_def A64_EL2_HCR_def A64_EL2_IDR_def A64_EL2_ELR_SPSR_def A64_EL2_ESR_FAR_def A64_EL2_HPFAR_def A64_TMR_def A64_GIC_def A64_SPACES_def
section \<open>Features of the core\<close>

text \<open>What \<^verbatim>\<open>Cpu::enumerate_features\<close> reads from the identification registers, and the virtual interface of the interrupt controller as \<^verbatim>\<open>Gich::init\<close> finds it.\<close>

record a64_cpu =
  midr :: u64
  mpidr :: u64
  feat_cpu64 :: "nat \<Rightarrow> u64"
  feat_dbg64 :: "nat \<Rightarrow> u64"
  feat_isa64 :: "nat \<Rightarrow> u64"
  feat_mem64 :: "nat \<Rightarrow> u64"
  feat_sme64 :: "nat \<Rightarrow> u64"
  feat_sve64 :: "nat \<Rightarrow> u64"
  feat_cpu32 :: "nat \<Rightarrow> u32"
  feat_dbg32 :: "nat \<Rightarrow> u32"
  feat_isa32 :: "nat \<Rightarrow> u32"
  feat_mem32 :: "nat \<Rightarrow> u32"
  feat_mfp32 :: "nat \<Rightarrow> u32"
  gic_regs :: bool
  gic_vtr :: u32
  tmr_offs :: u64

definition a64_feature :: "(nat \<Rightarrow> u64) \<Rightarrow> nat \<Rightarrow> nat" where
  "a64_feature a f = unat (drop_bit (f mod 16 * 4) (a (f div 16)) AND mask 4)"

definition cpu_feature :: "a64_cpu \<Rightarrow> nat \<Rightarrow> nat" where "cpu_feature C = a64_feature (feat_cpu64 C)"
definition dbg_feature :: "a64_cpu \<Rightarrow> nat \<Rightarrow> nat" where "dbg_feature C = a64_feature (feat_dbg64 C)"
definition isa_feature :: "a64_cpu \<Rightarrow> nat \<Rightarrow> nat" where "isa_feature C = a64_feature (feat_isa64 C)"
definition mem_feature :: "a64_cpu \<Rightarrow> nat \<Rightarrow> nat" where "mem_feature C = a64_feature (feat_mem64 C)"

text \<open>Controls that a guest must not set, and those that it must not clear. \<open>ifb x c\<close> is \<open>c ? x : 0\<close>.\<close>

definition hyp0_hcr :: u64 where
  "hyp0_hcr = HCR_ATA OR HCR_ENSCXT OR HCR_FIEN OR HCR_NV2 OR HCR_NV1 OR HCR_NV OR HCR_APK OR HCR_E2H OR HCR_ID OR HCR_CD OR HCR_TGE OR HCR_DC"

definition hyp1_hcr :: u64 where
  "hyp1_hcr = HCR_TID5 OR HCR_TERR OR HCR_TLOR OR HCR_TSW OR HCR_TACR OR HCR_TIDCP OR HCR_TSC OR HCR_TID3 OR HCR_TID1 OR HCR_TID0 OR HCR_TWE OR HCR_TWI OR
     HCR_BSU_INNER OR HCR_FB OR HCR_AMO OR HCR_IMO OR HCR_FMO OR HCR_PTW OR HCR_SWIO OR HCR_VM"

definition hyp0_cptr :: u64 where "hyp0_cptr = 0"
definition hyp1_cptr :: u64 where "hyp1_cptr = CPTR_TAM OR CPTR_TTA OR CPTR_TZ"
definition hyp0_mdcr :: u64 where "hyp0_mdcr = MDCR_E2TB OR MDCR_E2PB"
definition hyp1_mdcr :: u64 where "hyp1_mdcr = MDCR_TDCC OR MDCR_TTRF OR MDCR_TPMS OR MDCR_TDE OR MDCR_TPM"

definition a64_cptr :: "a64_cpu \<Rightarrow> u64" where
  "a64_cptr C =
     (let res1 = ifb CPTR_TSM (\<not> cpu_feature C 22 \<ge> 1) OR ifb CPTR_TFP (\<not> (cpu_feature C 4 \<noteq> 15 \<or> cpu_feature C 5 \<noteq> 15)) OR ifb CPTR_TZ (\<not> cpu_feature C 8 \<ge> 1) OR
            (CPTR_13 OR CPTR_9 OR CPTR_7_0);
          res0 = ifb CPTR_TAM (\<not> cpu_feature C 11 \<ge> 1) OR (CPTR_63_32 OR CPTR_29_21 OR CPTR_19_14 OR CPTR_11)
      in ((hyp1_cptr AND NOT hyp0_cptr) OR res1) AND NOT res0)"

definition res0_mdcr :: "a64_cpu \<Rightarrow> u64" where
  "res0_mdcr C =
     ifb MDCR_HPMFZS (\<not> dbg_feature C 8 \<ge> 3) OR
     ifb (MDCR_TPMS OR MDCR_E2PB) (\<not> dbg_feature C 8 \<ge> 2) OR
     ifb MDCR_HPMFZO (\<not> dbg_feature C 2 \<ge> 7) OR
     ifb (MDCR_HLP OR MDCR_HCCD) (\<not> dbg_feature C 2 \<ge> 6) OR
     ifb MDCR_HPMD (\<not> dbg_feature C 2 \<ge> 4) OR
     ifb (MDCR_HPME OR MDCR_TPM OR MDCR_TPMCR OR MDCR_HPMN) (\<not> dbg_feature C 2 \<ge> 1) OR
     ifb MDCR_MTPME (\<not> dbg_feature C 12 \<ge> 1) OR
     ifb MDCR_TDCC (\<not> mem_feature C 14 \<ge> 1) OR
     ifb MDCR_E2TB (\<not> dbg_feature C 11 \<ge> 1) OR
     ifb MDCR_TTRF (\<not> dbg_feature C 10 \<ge> 1) OR
     (MDCR_63_37 OR MDCR_35_30 OR MDCR_22_20 OR MDCR_18 OR MDCR_16_15)"

definition a64_mdcr :: "a64_cpu \<Rightarrow> u64" where
  "a64_mdcr C = ((hyp1_mdcr AND NOT hyp0_mdcr) OR 0) AND NOT (res0_mdcr C)"

definition res0_hcr :: "a64_cpu \<Rightarrow> u64" where
  "res0_hcr C =
     ifb (HCR_TWEDEL OR HCR_TWEDEn) (\<not> mem_feature C 24 \<ge> 1) OR
     ifb (HCR_TID5 OR HCR_DCT OR HCR_ATA) (\<not> cpu_feature C 18 \<ge> 2) OR
     ifb (HCR_TTLBOS OR HCR_TTLBIS) (\<not> mem_feature C 46 \<ge> 2) OR
     ifb (HCR_TOCU OR HCR_TICAB OR HCR_TID4) (\<not> mem_feature C 46 \<ge> 1) OR
     ifb HCR_ENSCXT (\<not> cpu_feature C 14 \<ge> 2) OR
     ifb HCR_AMVOFFEN (\<not> cpu_feature C 11 \<ge> 2) OR
     ifb HCR_GPF (\<not> cpu_feature C 13 \<ge> 1) OR
     ifb HCR_FIEN (\<not> cpu_feature C 7 \<ge> 2) OR
     ifb (HCR_TEA OR HCR_TERR) (\<not> cpu_feature C 7 \<ge> 1) OR
     ifb HCR_FWB (\<not> mem_feature C 42 \<ge> 1) OR
     ifb HCR_NV2 (\<not> mem_feature C 38 \<ge> 2) OR
     ifb (HCR_AT OR HCR_NV1 OR HCR_NV) (\<not> mem_feature C 38 \<ge> 1) OR
     ifb (HCR_API OR HCR_APK) (\<not> (isa_feature C 17 \<ge> 1 \<or> isa_feature C 18 \<ge> 1 \<or> isa_feature C 22 \<ge> 1 \<or> isa_feature C 23 \<ge> 1)) OR
     ifb HCR_TLOR (\<not> mem_feature C 20 \<ge> 1) OR
     ifb HCR_E2H (\<not> mem_feature C 18 \<ge> 1) OR
     ifb HCR_TTLB (\<not> isa_feature C 14 \<ge> 1) OR
     ifb HCR_TPCP (\<not> isa_feature C 16 \<ge> 1)"

definition constrain_hcr :: "a64_cpu \<Rightarrow> u64 \<Rightarrow> u64" where
  "constrain_hcr C v = (v OR hyp1_hcr) AND NOT (res0_hcr C OR hyp0_hcr)"

text \<open>The number of list and active-priority registers.\<close>

definition num_apr :: "a64_cpu \<Rightarrow> nat" where
  "num_apr C = unat (drop_bit 5 (BIT (unat (drop_bit 26 (gic_vtr C) AND mask 3) + 1)))"

definition num_lr :: "a64_cpu \<Rightarrow> nat" where
  "num_lr C = unat (gic_vtr C AND (if gic_regs C then mask 5 else mask 6)) + 1"

text \<open>
  The controls that keep a guest below the hypervisor are beyond the reach of the features: stage-2 translation, routing of interrupts and errors, trapping of secure monitor calls and
  of implementation-defined, auxiliary and set/way operations stay on; host mode, nested virtualization and the default cacheability stay off.
\<close>

definition hcr_on :: u64 where
  "hcr_on = HCR_VM OR HCR_AMO OR HCR_IMO OR HCR_FMO OR HCR_PTW OR HCR_SWIO OR HCR_TSC OR HCR_TIDCP OR HCR_TACR OR HCR_TSW OR HCR_TID3 OR HCR_TID1 OR HCR_TID0 OR HCR_FB"

definition hcr_safe :: "u64 \<Rightarrow> bool" where
  "hcr_safe h \<longleftrightarrow> h AND hcr_on = hcr_on \<and> h AND hyp0_hcr = 0"

lemma ifb_and: "ifb x c AND m = ifb (x AND m) c"
  by (simp add: ifb_def)

lemma ifb_0: "ifb 0 c = 0"
  by (simp add: ifb_def)

lemma res0_hcr_on: "res0_hcr C AND hcr_on = 0"
  unfolding res0_hcr_def hcr_on_def bit.conj_disj_distrib2 ifb_and
  by (simp add: hcr_bits_defs BIT64_def BIT64_RANGE_def ifb_0 push_bit_eq_mult)

lemma constrain_hcr_safe: "hcr_safe (constrain_hcr C v)"
proof -
  have a: "hyp1_hcr AND hcr_on = hcr_on" "hyp0_hcr AND hcr_on = 0"
    by (simp_all add: hyp1_hcr_def hyp0_hcr_def hcr_on_def hcr_bits_defs BIT64_def push_bit_eq_mult)
  have "bit (constrain_hcr C v AND hcr_on) n = bit hcr_on n" for n
    using arg_cong [OF a(1), of "\<lambda>w. bit w n"] arg_cong [OF a(2), of "\<lambda>w. bit w n"] arg_cong [OF res0_hcr_on [of C], of "\<lambda>w. bit w n"]
    by (auto simp: constrain_hcr_def bit_and_iff bit_or_iff bit_not_iff dest: bit_imp_le_length)
  moreover have "bit (constrain_hcr C v AND hyp0_hcr) n = False" for n
    by (auto simp: constrain_hcr_def bit_and_iff bit_or_iff bit_not_iff)
  ultimately show ?thesis unfolding hcr_safe_def by (auto intro: bit_word_eqI)
qed

text \<open>Debug exceptions of a guest are trapped on every core.\<close>

lemma a64_mdcr_tde: "a64_mdcr C AND MDCR_TDE = MDCR_TDE"
proof -
  have r: "res0_mdcr C AND MDCR_TDE = 0"
    unfolding res0_mdcr_def bit.conj_disj_distrib2 ifb_and
    by (simp add: mdcr_bits_defs BIT64_def BIT64_RANGE_def ifb_0 push_bit_eq_mult)
  have h: "(hyp1_mdcr AND NOT hyp0_mdcr) AND MDCR_TDE = MDCR_TDE"
    by (simp add: hyp0_mdcr_def hyp1_mdcr_def mdcr_bits_defs BIT64_def BIT64_RANGE_def push_bit_eq_mult)
  show ?thesis unfolding a64_mdcr_def
  proof (rule bit_word_eqI)
    fix n show "bit ((((hyp1_mdcr AND NOT hyp0_mdcr) OR 0) AND NOT (res0_mdcr C)) AND MDCR_TDE) n = bit MDCR_TDE n"
      using arg_cong [OF r, of "\<lambda>w. bit w n"] arg_cong [OF h, of "\<lambda>w. bit w n"] by (auto simp: bit_and_iff bit_or_iff bit_not_iff dest: bit_imp_le_length)
  qed
qed

section \<open>Register state\<close>

text \<open>\<^verbatim>\<open>Exc_regs\<close>, \<^verbatim>\<open>Cpu_regs\<close>. Arrays are functions of the index.\<close>

record a64_exc =
  a_gpr :: "nat \<Rightarrow> u64"
  a_sp :: u64
  a_tpidr :: u64
  a_tpidrro :: u64
  a_elr :: u64
  a_spsr :: u64
  a_esr :: u64
  a_far :: u64

record a64_regs =
  a_exc :: a64_exc
  a_vmcb :: u64
  a_obj :: u64
  a_hst :: u64
  a_gst :: u64
  a_hazard :: u32

definition a_mode :: "a64_exc \<Rightarrow> u64" where
  "a_mode e = a_spsr e AND (SPSR_ALL_nRW OR SPSR_ALL_M)"

definition a_ep :: "a64_exc \<Rightarrow> u64" where
  "a_ep e = drop_bit 26 (a_esr e)"

definition a_set_ep :: "u64 \<Rightarrow> a64_exc \<Rightarrow> a64_exc" where
  "a_set_ep x e = e\<lparr>a_esr := push_bit 26 x\<rparr>"

text \<open>\<^verbatim>\<open>Vmcb\<close>: the registers of a guest that is not running.\<close>

record vmcb_el1 =
  v1_afsr0 :: u64
  v1_afsr1 :: u64
  v1_amair :: u64
  v1_contextidr :: u64
  v1_cpacr :: u64
  v1_csselr :: u64
  v1_elr :: u64
  v1_esr :: u64
  v1_far :: u64
  v1_mair :: u64
  v1_mdscr :: u64
  v1_par :: u64
  v1_sctlr :: u64
  v1_sp :: u64
  v1_spsr :: u64
  v1_tcr :: u64
  v1_tpidr :: u64
  v1_ttbr0 :: u64
  v1_ttbr1 :: u64
  v1_vbar :: u64

record vmcb_el2 =
  v2_hcr :: u64
  v2_hpfar :: u64
  v2_vdisr :: u64
  v2_vmpidr :: u64
  v2_vpidr :: u64

record vmcb_a32 =
  v3_dacr :: u32
  v3_fpexc :: u32
  v3_hstr :: u32
  v3_ifsr :: u32
  v3_spsr_abt :: u32
  v3_spsr_fiq :: u32
  v3_spsr_irq :: u32
  v3_spsr_und :: u32

record vmcb_tmr =
  vt_cntvoff :: u64
  vt_cntkctl :: u64
  vt_cntv_cval :: u64
  vt_cntv_ctl :: u64
  vt_cntv_act :: bool

record vmcb_gic =
  vg_lr :: "nat \<Rightarrow> u64"
  vg_ap0r :: "nat \<Rightarrow> u32"
  vg_ap1r :: "nat \<Rightarrow> u32"
  vg_elrsr :: u32
  vg_vmcr :: u32
  vg_hcr :: u32

record a64_vmcb =
  v_el1 :: vmcb_el1
  v_el2 :: vmcb_el2
  v_a32 :: vmcb_a32
  v_tmr :: vmcb_tmr
  v_gic :: vmcb_gic

text \<open>\<^verbatim>\<open>Utcb_arch\<close>, without its reserved fields.\<close>

record utcb_el0 =
  u0_gpr :: "nat \<Rightarrow> u64"
  u0_sp :: u64
  u0_tpidr :: u64
  u0_tpidrro :: u64

record utcb_a32 =
  u3_spsr_abt :: u32
  u3_spsr_fiq :: u32
  u3_spsr_irq :: u32
  u3_spsr_und :: u32
  u3_dacr :: u32
  u3_ifsr :: u32
  u3_hstr :: u32

record utcb_el1 =
  u1_sp :: u64
  u1_tpidr :: u64
  u1_contextidr :: u64
  u1_elr :: u64
  u1_spsr :: u64
  u1_esr :: u64
  u1_far :: u64
  u1_afsr0 :: u64
  u1_afsr1 :: u64
  u1_ttbr0 :: u64
  u1_ttbr1 :: u64
  u1_tcr :: u64
  u1_mair :: u64
  u1_amair :: u64
  u1_vbar :: u64
  u1_sctlr :: u64
  u1_mdscr :: u64

record utcb_el2 =
  u2_hcr :: u64
  u2_hcrx :: u64
  u2_vpidr :: u64
  u2_vmpidr :: u64
  u2_elr :: u64
  u2_spsr :: u64
  u2_esr :: u64
  u2_far :: u64
  u2_hpfar :: u64

record utcb_tmr =
  ut_cntv_cval :: u64
  ut_cntv_ctl :: u64
  ut_cntkctl :: u64
  ut_cntvoff :: u64

record utcb_gic =
  ug_lr :: "nat \<Rightarrow> u64"
  ug_ap0r :: "nat \<Rightarrow> u32"
  ug_ap1r :: "nat \<Rightarrow> u32"
  ug_elrsr :: u32
  ug_vmcr :: u32

record a64_utcb =
  u_el0 :: utcb_el0
  u_a32 :: utcb_a32
  u_el1 :: utcb_el1
  u_el2 :: utcb_el2
  u_tmr :: utcb_tmr
  u_gic :: utcb_gic
  u_gst :: u64

section \<open>From the registers to the UTCB\<close>

text \<open>\<^verbatim>\<open>Utcb_arch::load\<close>, one function per structure. Exception classes are the bits of the two masks: the fault addresses of other classes are stale and not shown.\<close>

definition a64_load_el0 :: "u32 \<Rightarrow> a64_exc \<Rightarrow> utcb_el0 \<Rightarrow> utcb_el0" where
  "a64_load_el0 m e u =
     (let u = (if item m A64_GPR then u\<lparr>u0_gpr := \<lambda>i. if i < 31 then a_gpr e i else u0_gpr u i\<rparr> else u);
          u = (if item m A64_EL0_SP then u\<lparr>u0_sp := a_sp e\<rparr> else u);
          u = (if item m A64_EL0_IDR then u\<lparr>u0_tpidr := a_tpidr e, u0_tpidrro := a_tpidrro e\<rparr> else u)
      in u)"

definition far_classes :: u64 where
  "far_classes = BIT64_RANGE 0x35 0x34 OR BIT64_RANGE 0x25 0x24 OR BIT64_RANGE 0x22 0x20"

definition hpfar_classes :: u64 where
  "hpfar_classes = BIT64_RANGE 0x25 0x24 OR BIT64_RANGE 0x21 0x20"

definition a64_load_exc :: "u32 \<Rightarrow> a64_exc \<Rightarrow> utcb_el2 \<Rightarrow> utcb_el2" where
  "a64_load_exc m e u =
     (let u = (if item m A64_EL2_ELR_SPSR then u\<lparr>u2_elr := a_elr e, u2_spsr := a_spsr e\<rparr> else u);
          u = (if item m A64_EL2_ESR_FAR then u\<lparr>u2_esr := a_esr e, u2_far := (if tst far_classes (BIT64 (unat (a_ep e))) then a_far e else 0)\<rparr> else u)
      in u)"

definition a64_load_a32 :: "u32 \<Rightarrow> vmcb_a32 \<Rightarrow> utcb_a32 \<Rightarrow> utcb_a32" where
  "a64_load_a32 m v u =
     (let u = (if item m A64_A32_SPSR then u\<lparr>u3_spsr_abt := v3_spsr_abt v, u3_spsr_fiq := v3_spsr_fiq v, u3_spsr_irq := v3_spsr_irq v, u3_spsr_und := v3_spsr_und v\<rparr> else u);
          u = (if item m A64_A32_DIH then u\<lparr>u3_dacr := v3_dacr v, u3_ifsr := v3_ifsr v, u3_hstr := v3_hstr v\<rparr> else u)
      in u)"

definition a64_load_el1 :: "u32 \<Rightarrow> vmcb_el1 \<Rightarrow> utcb_el1 \<Rightarrow> utcb_el1" where
  "a64_load_el1 m v u =
     (let u = (if item m A64_EL1_SP then u\<lparr>u1_sp := v1_sp v\<rparr> else u);
          u = (if item m A64_EL1_IDR then u\<lparr>u1_tpidr := v1_tpidr v, u1_contextidr := v1_contextidr v\<rparr> else u);
          u = (if item m A64_EL1_ELR_SPSR then u\<lparr>u1_elr := v1_elr v, u1_spsr := v1_spsr v\<rparr> else u);
          u = (if item m A64_EL1_ESR_FAR then u\<lparr>u1_esr := v1_esr v, u1_far := v1_far v\<rparr> else u);
          u = (if item m A64_EL1_AFSR then u\<lparr>u1_afsr0 := v1_afsr0 v, u1_afsr1 := v1_afsr1 v\<rparr> else u);
          u = (if item m A64_EL1_TTBR then u\<lparr>u1_ttbr0 := v1_ttbr0 v, u1_ttbr1 := v1_ttbr1 v\<rparr> else u);
          u = (if item m A64_EL1_TCR then u\<lparr>u1_tcr := v1_tcr v\<rparr> else u);
          u = (if item m A64_EL1_MAIR then u\<lparr>u1_mair := v1_mair v, u1_amair := v1_amair v\<rparr> else u);
          u = (if item m A64_EL1_VBAR then u\<lparr>u1_vbar := v1_vbar v\<rparr> else u);
          u = (if item m A64_EL1_SCTLR then u\<lparr>u1_sctlr := v1_sctlr v\<rparr> else u);
          u = (if item m A64_EL1_MDSCR then u\<lparr>u1_mdscr := v1_mdscr v\<rparr> else u)
      in u)"

definition a64_load_el2 :: "u32 \<Rightarrow> a64_exc \<Rightarrow> vmcb_el2 \<Rightarrow> utcb_el2 \<Rightarrow> utcb_el2" where
  "a64_load_el2 m e v u =
     (let u = (if item m A64_EL2_HCR then u\<lparr>u2_hcr := v2_hcr v\<rparr> else u);
          u = (if item m A64_EL2_IDR then u\<lparr>u2_vpidr := v2_vpidr v, u2_vmpidr := v2_vmpidr v\<rparr> else u);
          u = (if item m A64_EL2_HPFAR then u\<lparr>u2_hpfar := (if tst hpfar_classes (BIT64 (unat (a_ep e))) then v2_hpfar v else 0)\<rparr> else u)
      in u)"

definition a64_load_tmr :: "u32 \<Rightarrow> vmcb_tmr \<Rightarrow> utcb_tmr \<Rightarrow> utcb_tmr" where
  "a64_load_tmr m v u =
     (let u = (if item m A64_TMR then u\<lparr>ut_cntvoff := vt_cntvoff v, ut_cntkctl := vt_cntkctl v, ut_cntv_cval := vt_cntv_cval v, ut_cntv_ctl := vt_cntv_ctl v\<rparr> else u)
      in u)"

text \<open>The UTCB has list registers in the format of version 3 of the interrupt controller. The loops do not check the size of the arrays, so that more registers than entries are a crash.\<close>

definition lr_v3 :: "u64 \<Rightarrow> u64" where
  "lr_v3 x = push_bit 34 (x AND 0x30000000) OR push_bit 30 (x AND 0xc0000000) OR push_bit 28 (x AND 0x0f800000) OR push_bit 22 (x AND 0x000ffc00) OR (x AND 0x000003ff)"

definition lr_v2 :: "u64 \<Rightarrow> u64" where
  "lr_v2 x = drop_bit 34 (x AND 0xc000000000000000) OR drop_bit 30 (x AND 0x3000000000000000) OR drop_bit 28 (x AND 0x00f8000000000000) OR
     drop_bit 22 (x AND 0x000003ff00000000) OR (x AND 0x00000000000003ff)"

definition a64_load_gic :: "a64_cpu \<Rightarrow> u32 \<Rightarrow> vmcb_gic \<Rightarrow> utcb_gic \<Rightarrow> utcb_gic option" where
  "a64_load_gic C m v u =
     (if item m A64_GIC then do {
        assert_that (num_lr C \<le> 16 \<and> num_apr C \<le> 4);
        Some (u\<lparr>ug_lr := \<lambda>i. if i < num_lr C then if gic_regs C then vg_lr v i else lr_v3 (vg_lr v i) else ug_lr u i,
          ug_ap0r := \<lambda>i. if i < num_apr C then vg_ap0r v i else ug_ap0r u i, ug_ap1r := \<lambda>i. if i < num_apr C then vg_ap1r v i else ug_ap1r u i,
          ug_elrsr := vg_elrsr v, ug_vmcr := vg_vmcr v\<rparr>)
      } else Some u)"

definition a64_load :: "a64_cpu \<Rightarrow> u32 \<Rightarrow> a64_regs \<Rightarrow> a64_vmcb \<Rightarrow> a64_utcb \<Rightarrow> a64_utcb option" where
  "a64_load C m c v u =
     (let e = a_exc c;
          u = u\<lparr>u_el0 := a64_load_el0 m e (u_el0 u), u_el2 := a64_load_exc m e (u_el2 u)\<rparr>
      in if a_vmcb c = 0 then Some u
         else do {
           g \<leftarrow> a64_load_gic C m (v_gic v) (u_gic u);
           Some (u\<lparr>u_a32 := a64_load_a32 m (v_a32 v) (u_a32 u), u_el1 := a64_load_el1 m (v_el1 v) (u_el1 u), u_el2 := a64_load_el2 m e (v_el2 v) (u_el2 u),
             u_tmr := a64_load_tmr m (v_tmr v) (u_tmr u), u_gic := g\<rparr>)
         })"

section \<open>From the UTCB to the registers\<close>

text \<open>\<^verbatim>\<open>Utcb_arch::save\<close>. The exception syndrome and the fault addresses are not writable.\<close>

definition a64_save_exc :: "u32 \<Rightarrow> a64_utcb \<Rightarrow> bool \<Rightarrow> a64_exc \<Rightarrow> a64_exc" where
  "a64_save_exc m u vcpu e =
     (let e = (if item m A64_GPR then e\<lparr>a_gpr := \<lambda>i. if i < 31 then u0_gpr (u_el0 u) i else a_gpr e i\<rparr> else e);
          e = (if item m A64_EL0_SP then e\<lparr>a_sp := u0_sp (u_el0 u)\<rparr> else e);
          e = (if item m A64_EL0_IDR then e\<lparr>a_tpidr := u0_tpidr (u_el0 u), a_tpidrro := u0_tpidrro (u_el0 u)\<rparr> else e);
          e = (if item m A64_EL2_ELR_SPSR then e\<lparr>a_elr := u2_elr (u_el2 u), a_spsr := (if vcpu then u2_spsr (u_el2 u) else u2_spsr (u_el2 u) AND SPSR_ALL_NZCV)\<rparr> else e)
      in e)"

definition a64_save_a32 :: "u32 \<Rightarrow> utcb_a32 \<Rightarrow> vmcb_a32 \<Rightarrow> vmcb_a32" where
  "a64_save_a32 m u v =
     (let v = (if item m A64_A32_SPSR then v\<lparr>v3_spsr_abt := u3_spsr_abt u, v3_spsr_fiq := u3_spsr_fiq u, v3_spsr_irq := u3_spsr_irq u, v3_spsr_und := u3_spsr_und u\<rparr> else v);
          v = (if item m A64_A32_DIH then v\<lparr>v3_dacr := u3_dacr u, v3_ifsr := u3_ifsr u, v3_hstr := u3_hstr u\<rparr> else v)
      in v)"

definition a64_save_el1 :: "u32 \<Rightarrow> utcb_el1 \<Rightarrow> vmcb_el1 \<Rightarrow> vmcb_el1" where
  "a64_save_el1 m u v =
     (let v = (if item m A64_EL1_SP then v\<lparr>v1_sp := u1_sp u\<rparr> else v);
          v = (if item m A64_EL1_IDR then v\<lparr>v1_tpidr := u1_tpidr u, v1_contextidr := u1_contextidr u\<rparr> else v);
          v = (if item m A64_EL1_ELR_SPSR then v\<lparr>v1_elr := u1_elr u, v1_spsr := u1_spsr u\<rparr> else v);
          v = (if item m A64_EL1_ESR_FAR then v\<lparr>v1_esr := u1_esr u, v1_far := u1_far u\<rparr> else v);
          v = (if item m A64_EL1_AFSR then v\<lparr>v1_afsr0 := u1_afsr0 u, v1_afsr1 := u1_afsr1 u\<rparr> else v);
          v = (if item m A64_EL1_TTBR then v\<lparr>v1_ttbr0 := u1_ttbr0 u, v1_ttbr1 := u1_ttbr1 u\<rparr> else v);
          v = (if item m A64_EL1_TCR then v\<lparr>v1_tcr := u1_tcr u\<rparr> else v);
          v = (if item m A64_EL1_MAIR then v\<lparr>v1_mair := u1_mair u, v1_amair := u1_amair u\<rparr> else v);
          v = (if item m A64_EL1_VBAR then v\<lparr>v1_vbar := u1_vbar u\<rparr> else v);
          v = (if item m A64_EL1_SCTLR then v\<lparr>v1_sctlr := u1_sctlr u\<rparr> else v);
          v = (if item m A64_EL1_MDSCR then v\<lparr>v1_mdscr := u1_mdscr u\<rparr> else v)
      in v)"

definition a64_save_el2 :: "a64_cpu \<Rightarrow> u32 \<Rightarrow> utcb_el2 \<Rightarrow> vmcb_el2 \<Rightarrow> vmcb_el2" where
  "a64_save_el2 C m u v =
     (let v = (if item m A64_EL2_HCR then v\<lparr>v2_hcr := constrain_hcr C (u2_hcr u)\<rparr> else v);
          v = (if item m A64_EL2_IDR then v\<lparr>v2_vpidr := u2_vpidr u, v2_vmpidr := u2_vmpidr u\<rparr> else v)
      in v)"

definition a64_save_tmr :: "u32 \<Rightarrow> utcb_tmr \<Rightarrow> vmcb_tmr \<Rightarrow> vmcb_tmr" where
  "a64_save_tmr m u v =
     (let v = (if item m A64_TMR then v\<lparr>vt_cntvoff := ut_cntvoff u, vt_cntkctl := ut_cntkctl u, vt_cntv_cval := ut_cntv_cval u, vt_cntv_ctl := ut_cntv_ctl u\<rparr> else v)
      in v)"

definition a64_save_gic :: "a64_cpu \<Rightarrow> u32 \<Rightarrow> utcb_gic \<Rightarrow> vmcb_gic \<Rightarrow> vmcb_gic option" where
  "a64_save_gic C m u v =
     (if item m A64_GIC then do {
        assert_that (num_lr C \<le> 16 \<and> num_apr C \<le> 4);
        Some (v\<lparr>vg_lr := \<lambda>i. if i < num_lr C then if gic_regs C then ug_lr u i else lr_v2 (ug_lr u i) else vg_lr v i,
          vg_ap0r := \<lambda>i. if i < num_apr C then ug_ap0r u i else vg_ap0r v i, vg_ap1r := \<lambda>i. if i < num_apr C then ug_ap1r u i else vg_ap1r v i\<rparr>)
      } else Some v)"

definition a64_assign_spaces :: "'a kern_scheme \<Rightarrow> u64 \<Rightarrow> a64_utcb \<Rightarrow> a64_regs \<Rightarrow> bool \<times> a64_regs" where
  "a64_assign_spaces s obj u c =
     (let cgst = so_lookup obj (u_gst u) (heap s)
      in if \<not> validate_sp (hdr s) cgst SP_ASSIGN Subtype_GST then (False, c)
         else if sp_pd (spcs s (cap_obj cgst)) \<noteq> sp_pd (spcs s (a_obj c)) then (False, c)
         else (True, c\<lparr>a_gst := cap_obj cgst, a_hazard := a_hazard c AND NOT HZD_ILLEGAL\<rparr>))"

text \<open>The modes a guest can be in: EL0, EL1 and 32-bit user mode below a 64-bit EL1, the modes of a 32-bit kernel otherwise.\<close>

definition mode_mask :: "u64 \<Rightarrow> u32" where
  "mode_mask h = (if tst h HCR_RW then BIT 16 OR BIT_RANGE 5 4 OR BIT 0 else BIT 31 OR BIT 27 OR BIT 23 OR BIT_RANGE 19 16)"

definition a64_save :: "a64_cpu \<Rightarrow> 'a kern_scheme \<Rightarrow> u32 \<Rightarrow> u64 \<Rightarrow> a64_utcb \<Rightarrow> a64_regs \<times> a64_vmcb \<Rightarrow> (bool \<times> a64_regs \<times> a64_vmcb) option" where
  "a64_save C s m obj u cv =
     (let (c, v) = cv
      in if item m A64_POISON then Some (False, c, v)
         else
           let c = c\<lparr>a_exc := a64_save_exc m u (a_vmcb c \<noteq> 0) (a_exc c)\<rparr>
           in if a_vmcb c = 0 then Some (True, c, v)
              else do {
                g \<leftarrow> a64_save_gic C m (u_gic u) (v_gic v);
                let v = \<lparr>v_el1 = a64_save_el1 m (u_el1 u) (v_el1 v), v_el2 = a64_save_el2 C m (u_el2 u) (v_el2 v), v_a32 = a64_save_a32 m (u_a32 u) (v_a32 v),
                  v_tmr = a64_save_tmr m (u_tmr u) (v_tmr v), v_gic = g\<rparr>;
                let (b, c) = (if item m A64_SPACES then a64_assign_spaces s obj u c else (True, c));
                if \<not> b then Some (False, c, v)
                else if item m (A64_EL2_HCR OR A64_EL2_ELR_SPSR) then Some (tst (mode_mask (v2_hcr (v_el2 v))) (BIT (unat (a_mode (a_exc c)))), c, v)
                else Some (True, c, v)
              })"

section \<open>Confinement\<close>

text \<open>What a thread returns to: EL0 with no interrupt masked, only the condition flags are its own.\<close>

definition user_spsr :: "u64 \<Rightarrow> bool" where
  "user_spsr x \<longleftrightarrow> x AND NOT SPSR_ALL_NZCV = 0"

definition guest_mode_ok :: "a64_regs \<Rightarrow> a64_vmcb \<Rightarrow> bool" where
  "guest_mode_ok c v \<longleftrightarrow> tst (mode_mask (v2_hcr (v_el2 v))) (BIT (unat (a_mode (a_exc c))))"

lemma a64_save_exc_facts:
  "a_esr (a64_save_exc m u b e) = a_esr e" "a_far (a64_save_exc m u b e) = a_far e"
  "\<not> item m A64_EL2_ELR_SPSR \<Longrightarrow> a_spsr (a64_save_exc m u b e) = a_spsr e"
  "user_spsr (a_spsr e) \<Longrightarrow> user_spsr (a_spsr (a64_save_exc m u False e))"
  by (auto simp: a64_save_exc_def Let_def user_spsr_def and.assoc)

lemma a64_save_el2_facts:
  "hcr_safe (v2_hcr v) \<Longrightarrow> hcr_safe (v2_hcr (a64_save_el2 C m u v))" "v2_hpfar (a64_save_el2 C m u v) = v2_hpfar v"
  "\<not> item m A64_EL2_HCR \<Longrightarrow> v2_hcr (a64_save_el2 C m u v) = v2_hcr v"
  using constrain_hcr_safe by (auto simp: a64_save_el2_def Let_def)

lemma item_or: "item m (x OR y) \<longleftrightarrow> item m x \<or> item m y"
  by (auto simp: item_def bit.conj_disj_distrib or_eq_0_iff)

lemma a64_save_gic_facts:
  "a64_save_gic C m u v = Some g \<Longrightarrow> vg_hcr g = vg_hcr v \<and> vg_vmcr g = vg_vmcr v \<and> vg_elrsr g = vg_elrsr v"
  by (auto simp: a64_save_gic_def split: if_splits)

lemma a64_assign_spaces_facts:
  "a64_assign_spaces s obj u c = (b, c') \<Longrightarrow> a_exc c' = a_exc c \<and> a_vmcb c' = a_vmcb c \<and> a_obj c' = a_obj c \<and> a_hst c' = a_hst c \<and>
    (if b then validate_sp (hdr s) (so_lookup obj (u_gst u) (heap s)) SP_ASSIGN Subtype_GST \<and> a_gst c' = cap_obj (so_lookup obj (u_gst u) (heap s)) \<and>
       sp_pd (spcs s (a_gst c')) = sp_pd (spcs s (a_obj c)) else c' = c)"
  by (auto simp: a64_assign_spaces_def Let_def split: if_splits)

text \<open>
  C5: On AArch64, whatever a monitor puts into a UTCB and a descriptor, the reply cannot lift an execution context above its privileges. A thread stays in user mode with no interrupt masked. The
  hypervisor controls of a virtual CPU keep stage-2 translation, interrupt routing and traps on and host mode and nested virtualization off; a reply that succeeds leaves the virtual CPU in a mode below the
  hypervisor if it was in one or if the reply sets the mode or the controls. The guest space changes only to one that the monitor holds an assign capability for and that belongs to the protection domain of the
  context. The syndrome and fault addresses stay, and so do the object space, the host space and the control block.
\<close>

theorem a64_save_confined:
  assumes "a64_save C s m obj u (c, v) = Some (b, c', v')"
  shows "a_vmcb c' = a_vmcb c \<and> a_obj c' = a_obj c \<and> a_hst c' = a_hst c \<and> a_esr (a_exc c') = a_esr (a_exc c) \<and> a_far (a_exc c') = a_far (a_exc c) \<and> v2_hpfar (v_el2 v') = v2_hpfar (v_el2 v) \<and>
    (if a_vmcb c = 0 then v' = v \<and> a_gst c' = a_gst c \<and> (user_spsr (a_spsr (a_exc c)) \<longrightarrow> user_spsr (a_spsr (a_exc c')))
     else (hcr_safe (v2_hcr (v_el2 v)) \<longrightarrow> hcr_safe (v2_hcr (v_el2 v'))) \<and>
       (b \<and> (guest_mode_ok c v \<or> item m A64_EL2_HCR \<or> item m A64_EL2_ELR_SPSR) \<longrightarrow> guest_mode_ok c' v') \<and>
       (a_gst c' = a_gst c \<or> (\<exists>sel. validate_sp (hdr s) (so_lookup obj sel (heap s)) SP_ASSIGN Subtype_GST \<and> a_gst c' = cap_obj (so_lookup obj sel (heap s)) \<and>
          sp_pd (spcs s (a_gst c')) = sp_pd (spcs s (a_obj c)))))"
proof (cases "item m A64_POISON")
  case True
  then show ?thesis using assms by (auto simp: a64_save_def)
next
  case np: False
  show ?thesis
  proof (cases "a_vmcb c = 0")
    case True
    then show ?thesis using assms np by (auto simp: a64_save_def a64_save_exc_facts)
  next
    case False
    obtain g where g: "a64_save_gic C m (u_gic u) (v_gic v) = Some g" using assms np False by (auto simp: a64_save_def Let_def split: Option.bind_splits)
    define c1 where "c1 = c\<lparr>a_exc := a64_save_exc m u True (a_exc c)\<rparr>"
    obtain b2 c2 where a: "(if item m A64_SPACES then a64_assign_spaces s obj u c1 else (True, c1)) = (b2, c2)" by fastforce
    have v': "v_el2 v' = a64_save_el2 C m (u_el2 u) (v_el2 v)" and c': "c' = c2"
      and b: "b \<longleftrightarrow> b2 \<and> (item m (A64_EL2_HCR OR A64_EL2_ELR_SPSR) \<longrightarrow> guest_mode_ok c2 v')"
      using assms np False g a by (auto simp: a64_save_def Let_def c1_def guest_mode_ok_def split: if_splits)
    have c2: "a_exc c2 = a64_save_exc m u True (a_exc c) \<and> a_vmcb c2 = a_vmcb c \<and> a_obj c2 = a_obj c \<and> a_hst c2 = a_hst c \<and>
      (a_gst c2 = a_gst c \<or> (\<exists>sel. validate_sp (hdr s) (so_lookup obj sel (heap s)) SP_ASSIGN Subtype_GST \<and> a_gst c2 = cap_obj (so_lookup obj sel (heap s)) \<and>
          sp_pd (spcs s (a_gst c2)) = sp_pd (spcs s (a_obj c))))"
      using a a64_assign_spaces_facts [of s obj u c1 b2 c2] by (auto simp: c1_def split: if_splits)
    have keep: "guest_mode_ok c' v'" if "\<not> item m A64_EL2_HCR" "\<not> item m A64_EL2_ELR_SPSR" "guest_mode_ok c v"
      using that c2 by (simp add: guest_mode_ok_def c' v' a_mode_def a64_save_exc_facts(3) a64_save_el2_facts(3))
    show ?thesis using False c2 b keep by (auto simp: c' v' a64_save_exc_facts a64_save_el2_facts item_or)
  qed
qed

definition cpu_zero :: a64_cpu where
  "cpu_zero = \<lparr>midr = 0, mpidr = 0, feat_cpu64 = \<lambda>_. 0, feat_dbg64 = \<lambda>_. 0, feat_isa64 = \<lambda>_. 0, feat_mem64 = \<lambda>_. 0, feat_sme64 = \<lambda>_. 0, feat_sve64 = \<lambda>_. 0,
     feat_cpu32 = \<lambda>_. 0, feat_dbg32 = \<lambda>_. 0, feat_isa32 = \<lambda>_. 0, feat_mem32 = \<lambda>_. 0, feat_mfp32 = \<lambda>_. 0, gic_regs = True, gic_vtr = 0, tmr_offs = 0\<rparr>"

definition exc_zero64 :: a64_exc where
  "exc_zero64 = \<lparr>a_gpr = \<lambda>_. 0, a_sp = 0, a_tpidr = 0, a_tpidrro = 0, a_elr = 0, a_spsr = SPSR_A64_EL0, a_esr = 0, a_far = 0\<rparr>"

definition vmcb_zero :: a64_vmcb where
  "vmcb_zero = \<lparr>
     v_el1 = \<lparr>v1_afsr0 = 0, v1_afsr1 = 0, v1_amair = 0, v1_contextidr = 0, v1_cpacr = 0, v1_csselr = 0, v1_elr = 0, v1_esr = 0, v1_far = 0, v1_mair = 0, v1_mdscr = 0, v1_par = 0,
       v1_sctlr = 0, v1_sp = 0, v1_spsr = 0, v1_tcr = 0, v1_tpidr = 0, v1_ttbr0 = 0, v1_ttbr1 = 0, v1_vbar = 0\<rparr>,
     v_el2 = \<lparr>v2_hcr = 0, v2_hpfar = 0, v2_vdisr = 0, v2_vmpidr = 0, v2_vpidr = 0\<rparr>,
     v_a32 = \<lparr>v3_dacr = 0, v3_fpexc = 0, v3_hstr = 0, v3_ifsr = 0, v3_spsr_abt = 0, v3_spsr_fiq = 0, v3_spsr_irq = 0, v3_spsr_und = 0\<rparr>,
     v_tmr = \<lparr>vt_cntvoff = 0, vt_cntkctl = 0, vt_cntv_cval = 0, vt_cntv_ctl = 0, vt_cntv_act = False\<rparr>,
     v_gic = \<lparr>vg_lr = \<lambda>_. 0, vg_ap0r = \<lambda>_. 0, vg_ap1r = \<lambda>_. 0, vg_elrsr = 0, vg_vmcr = 0, vg_hcr = BIT 0\<rparr>\<rparr>"

definition vcpu_regs :: a64_regs where
  "vcpu_regs = \<lparr>a_exc = exc_zero64, a_vmcb = 0x1000, a_obj = 0x2000, a_hst = 0x3000, a_gst = 0, a_hazard = 0\<rparr>"

definition utcb_svc :: a64_utcb where
  "utcb_svc = \<lparr>
     u_el0 = \<lparr>u0_gpr = \<lambda>_. 0, u0_sp = 0, u0_tpidr = 0, u0_tpidrro = 0\<rparr>,
     u_a32 = \<lparr>u3_spsr_abt = 0, u3_spsr_fiq = 0, u3_spsr_irq = 0, u3_spsr_und = 0, u3_dacr = 0, u3_ifsr = 0, u3_hstr = 0\<rparr>,
     u_el1 = \<lparr>u1_sp = 0, u1_tpidr = 0, u1_contextidr = 0, u1_elr = 0, u1_spsr = 0, u1_esr = 0, u1_far = 0, u1_afsr0 = 0, u1_afsr1 = 0, u1_ttbr0 = 0, u1_ttbr1 = 0, u1_tcr = 0, u1_mair = 0,
       u1_amair = 0, u1_vbar = 0, u1_sctlr = 0, u1_mdscr = 0\<rparr>,
     u_el2 = \<lparr>u2_hcr = - 1, u2_hcrx = 0, u2_vpidr = 0, u2_vmpidr = 0, u2_elr = 0x8000, u2_spsr = 0x13, u2_esr = 0, u2_far = 0, u2_hpfar = 0\<rparr>,
     u_tmr = \<lparr>ut_cntv_cval = 0, ut_cntv_ctl = 0, ut_cntkctl = 0, ut_cntvoff = 0\<rparr>,
     u_gic = \<lparr>ug_lr = \<lambda>_. 0, ug_ap0r = \<lambda>_. 0, ug_ap1r = \<lambda>_. 0, ug_elrsr = 0, ug_vmcr = 0\<rparr>, u_gst = 0\<rparr>"

theorem a64_save_confined_witness:
  "\<exists>c' v'. a64_save cpu_zero kern0 A64_EL2_ELR_SPSR 0x2000 utcb_svc (vcpu_regs, vmcb_zero\<lparr>v_el2 := (v_el2 vmcb_zero)\<lparr>v2_hcr := hcr_on\<rparr>\<rparr>) = Some (True, c', v') \<and>
     a_spsr (a_exc c') = 0x13 \<and> hcr_safe (v2_hcr (v_el2 v')) \<and> guest_mode_ok c' v'"
proof -
  let ?v = "vmcb_zero\<lparr>v_el2 := (v_el2 vmcb_zero)\<lparr>v2_hcr := hcr_on\<rparr>\<rparr>"
  have i: "\<not> item A64_EL2_ELR_SPSR A64_POISON" "item A64_EL2_ELR_SPSR A64_EL2_ELR_SPSR" "\<not> item A64_EL2_ELR_SPSR A64_SPACES" "\<not> item A64_EL2_ELR_SPSR A64_GIC" "\<not> item A64_EL2_ELR_SPSR A64_EL2_HCR"
    by (simp_all add: item_def a64_items BIT_def)
  have h: "hcr_on AND HCR_RW = 0" "hcr_safe hcr_on"
    by (simp_all add: hcr_on_def hcr_safe_def hyp0_hcr_def hcr_bits_defs BIT64_def)
  have t: "tst (mode_mask hcr_on) (BIT 19)" by (simp add: tst_def mode_mask_def h BIT_def BIT_RANGE_def)
  have m: "a_mode (a64_save_exc A64_EL2_ELR_SPSR utcb_svc True exc_zero64) = 0x13"
    by (simp add: a64_save_exc_def Let_def i utcb_svc_def a_mode_def spsr_bits_defs BIT64_def BIT64_RANGE_def)
  have e: "v2_hcr (a64_save_el2 C A64_EL2_ELR_SPSR w z) = v2_hcr z" for C w z using a64_save_el2_facts(3) i(5) by blast
  obtain c' v' where r: "a64_save cpu_zero kern0 A64_EL2_ELR_SPSR 0x2000 utcb_svc (vcpu_regs, ?v) = Some (True, c', v')"
    and c': "a_exc c' = a64_save_exc A64_EL2_ELR_SPSR utcb_svc True exc_zero64"
    by (simp add: a64_save_def Let_def i item_or vcpu_regs_def a64_save_gic_def m e t)
  have "a_spsr (a_exc c') = 0x13" by (simp add: c' a64_save_exc_def Let_def i utcb_svc_def)
  moreover have "hcr_safe (v2_hcr (v_el2 v'))" "guest_mode_ok c' v'"
    using a64_save_confined [OF r] h(2) i(2) by (simp_all add: vcpu_regs_def)
  ultimately show ?thesis using r by blast
qed

section \<open>List registers\<close>

text \<open>The conversion between the two formats of list registers loses only the reserved bits.\<close>

lemma bit_field: "bit (push_bit k (mask w) :: u64) n \<longleftrightarrow> k \<le> n \<and> n < 64 \<and> n - k < w"
  by (auto simp: bit_push_bit_iff bit_mask_iff)

lemma lr_fields:
  "(0x30000000 :: u64) = push_bit 28 (mask 2)" "(0xc0000000 :: u64) = push_bit 30 (mask 2)" "(0x0f800000 :: u64) = push_bit 23 (mask 5)" "(0x000ffc00 :: u64) = push_bit 10 (mask 10)"
  "(0x000003ff :: u64) = mask 10" "(0xc000000000000000 :: u64) = push_bit 62 (mask 2)" "(0x3000000000000000 :: u64) = push_bit 60 (mask 2)"
  "(0x00f8000000000000 :: u64) = push_bit 51 (mask 5)" "(0x000003ff00000000 :: u64) = push_bit 32 (mask 10)"
  by (simp_all add: push_bit_eq_mult mask_eq_exp_minus_1)

lemma bit_lr_v3: "bit (lr_v3 x) n \<longleftrightarrow>
  (if n < 10 then bit x n else if n < 32 then False else if n < 42 then bit x (n - 22) else if n < 51 then False else if n < 56 then bit x (n - 28) else if n < 60 then False
   else if n < 62 then bit x (n - 30) else n < 64 \<and> bit x (n - 34))"
  unfolding lr_v3_def lr_fields by (auto simp: bit_or_iff bit_and_iff bit_push_bit_iff bit_field bit_mask_iff dest: bit_imp_le_length)

lemma bit_lr_v2: "bit (lr_v2 x) n \<longleftrightarrow>
  (if n < 10 then bit x n else if n < 20 then bit x (n + 22) else if n < 23 then False else if n < 28 then bit x (n + 28) else if n < 30 then bit x (n + 34) else n < 32 \<and> bit x (n + 30))"
  unfolding lr_v2_def lr_fields by (auto simp: bit_or_iff bit_and_iff bit_drop_bit_eq bit_field bit_mask_iff add.commute dest: bit_imp_le_length)

lemma lr_v2_v3: "lr_v2 (lr_v3 x) = x AND (mask 20 OR push_bit 23 (mask 9))"
  by (rule bit_word_eqI) (auto simp: bit_lr_v2 bit_lr_v3 bit_and_iff bit_or_iff bit_field bit_mask_iff)

section \<open>World switch\<close>

text \<open>The system registers of a core that differ between host and guests; the last line is the virtual interface of the interrupt controller, memory-mapped or not.\<close>

datatype sysreg =
    AFSR0_EL1 | AFSR1_EL1 | AMAIR_EL1 | CONTEXTIDR_EL1 | CPACR_EL1 | CSSELR_EL1 | ELR_EL1 | ESR_EL1 | FAR_EL1 | MAIR_EL1
  | MDSCR_EL1 | PAR_EL1 | SCTLR_EL1 | SP_EL1 | SPSR_EL1 | TCR_EL1 | TPIDR_EL1 | TTBR0_EL1 | TTBR1_EL1 | VBAR_EL1
  | HCR_EL2 | HPFAR_EL2 | VMPIDR_EL2 | VPIDR_EL2 | DACR32_EL2 | IFSR32_EL2 | HSTR_EL2 | SPSR_ABT | SPSR_FIQ | SPSR_IRQ | SPSR_UND
  | CNTVOFF_EL2 | CNTKCTL_EL1 | CNTV_CVAL_EL0 | CNTV_CTL_EL0
  | ICH_LR nat | ICH_AP0R nat | ICH_AP1R nat | GICH_APR nat | ICH_ELRSR | ICH_VMCR | ICH_HCR

type_synonym sysregs = "sysreg \<Rightarrow> u64"

text \<open>Writing a list of registers, in order.\<close>

definition msr :: "(sysreg \<times> u64) list \<Rightarrow> sysregs \<Rightarrow> sysregs" where
  "msr xs R = fold (\<lambda>(r, x) R. R(r := x)) xs R"

text \<open>\<^verbatim>\<open>Gich::load\<close>, \<^verbatim>\<open>Gich::save\<close> and \<^verbatim>\<open>Gich::disable\<close>. With system registers the switches treat every number above the size of the arrays as the size; the loops for the memory-mapped interface do not check.\<close>

definition lr_cnt :: "a64_cpu \<Rightarrow> nat" where
  "lr_cnt C = (if gic_regs C then min (num_lr C) 16 else num_lr C)"

definition apr_cnt :: "a64_cpu \<Rightarrow> nat" where
  "apr_cnt C = (if gic_regs C then min (num_apr C) 4 else num_apr C)"

definition gich_regs :: "a64_cpu \<Rightarrow> vmcb_gic \<Rightarrow> (sysreg \<times> u64) list" where
  "gich_regs C g =
     (if gic_regs C then map (\<lambda>i. (ICH_LR i, vg_lr g i)) (rev [0..<lr_cnt C]) @ map (\<lambda>i. (ICH_AP0R i, ucast (vg_ap0r g i))) (rev [0..<apr_cnt C]) @
        map (\<lambda>i. (ICH_AP1R i, ucast (vg_ap1r g i))) (rev [0..<apr_cnt C])
      else map (\<lambda>i. (ICH_LR i, take_bit 32 (vg_lr g i))) [0..<lr_cnt C] @ map (\<lambda>i. (GICH_APR i, ucast (vg_ap1r g i))) [0..<apr_cnt C]) @
     [(ICH_VMCR, ucast (vg_vmcr g)), (ICH_HCR, ucast (vg_hcr g))]"

definition gich_load :: "a64_cpu \<Rightarrow> vmcb_gic \<Rightarrow> sysregs \<Rightarrow> sysregs option" where
  "gich_load C g R = do { assert_that (lr_cnt C \<le> 16 \<and> apr_cnt C \<le> 4); Some (msr (gich_regs C g) R) }"

definition gich_save :: "a64_cpu \<Rightarrow> sysregs \<Rightarrow> vmcb_gic \<Rightarrow> vmcb_gic option" where
  "gich_save C R g = do {
     assert_that (lr_cnt C \<le> 16 \<and> apr_cnt C \<le> 4);
     let g = g\<lparr>vg_lr := \<lambda>i. if i < lr_cnt C then if gic_regs C then R (ICH_LR i) else take_bit 32 (R (ICH_LR i)) else vg_lr g i\<rparr>;
     let g = (if gic_regs C then g\<lparr>vg_ap0r := \<lambda>i. if i < apr_cnt C then ucast (R (ICH_AP0R i)) else vg_ap0r g i,
                vg_ap1r := \<lambda>i. if i < apr_cnt C then ucast (R (ICH_AP1R i)) else vg_ap1r g i\<rparr>
              else g\<lparr>vg_ap1r := \<lambda>i. if i < apr_cnt C then ucast (R (GICH_APR i)) else vg_ap1r g i\<rparr>);
     Some (g\<lparr>vg_elrsr := ucast (R ICH_ELRSR), vg_vmcr := ucast (R ICH_VMCR), vg_hcr := ucast (R ICH_HCR)\<rparr>)
   }"

definition gich_disable :: "sysregs \<Rightarrow> sysregs" where
  "gich_disable R = R(ICH_HCR := 0)"

text \<open>A core: its registers, the active state of the virtual timer interrupt, the control block whose registers are loaded (\<^verbatim>\<open>Vmcb::current\<close>), the control blocks, and who executes.\<close>

datatype executes = Kernel | Host | Guest u64

record world =
  w_reg :: sysregs
  w_act :: bool
  w_cur :: u64
  w_vmcb :: "u64 \<Rightarrow> a64_vmcb"
  w_run :: executes

definition syst_to_phys :: "a64_cpu \<Rightarrow> u64 \<Rightarrow> u64" where
  "syst_to_phys C s = s + tmr_offs C"

definition load_hst :: "a64_cpu \<Rightarrow> world \<Rightarrow> world" where
  "load_hst C w = w\<lparr>w_cur := 0, w_reg := gich_disable (msr
     [(CPACR_EL1, BIT64_RANGE 21 20), (MDSCR_EL1, 0),
      (SCTLR_EL1, SCTLR_A64_UCI OR SCTLR_A64_UCT OR SCTLR_A64_DZE OR SCTLR_ALL_I OR SCTLR_A64_SA0 OR SCTLR_A64_SA OR SCTLR_ALL_C OR SCTLR_ALL_A OR SCTLR_ALL_M),
      (HCR_EL2, HCR_RW OR HCR_TGE OR HCR_DC OR HCR_VM), (CNTVOFF_EL2, syst_to_phys C 0), (CNTKCTL_EL1, BIT64 1), (CNTV_CTL_EL0, 0)] (w_reg w))\<rparr>"

text \<open>The registers that \<^verbatim>\<open>Vmcb::load_gst\<close> writes before the interrupt controller.\<close>

definition gst_regs :: "a64_cpu \<Rightarrow> a64_vmcb \<Rightarrow> (sysreg \<times> u64) list" where
  "gst_regs C v =
     [(AFSR0_EL1, v1_afsr0 (v_el1 v)), (AFSR1_EL1, v1_afsr1 (v_el1 v)), (AMAIR_EL1, v1_amair (v_el1 v)), (CONTEXTIDR_EL1, v1_contextidr (v_el1 v)), (CPACR_EL1, v1_cpacr (v_el1 v)),
      (CSSELR_EL1, v1_csselr (v_el1 v)), (ELR_EL1, v1_elr (v_el1 v)), (ESR_EL1, v1_esr (v_el1 v)), (FAR_EL1, v1_far (v_el1 v)), (MAIR_EL1, v1_mair (v_el1 v)),
      (MDSCR_EL1, v1_mdscr (v_el1 v)), (PAR_EL1, v1_par (v_el1 v)), (SCTLR_EL1, v1_sctlr (v_el1 v)), (SP_EL1, v1_sp (v_el1 v)), (SPSR_EL1, v1_spsr (v_el1 v)),
      (TCR_EL1, v1_tcr (v_el1 v)), (TPIDR_EL1, v1_tpidr (v_el1 v)), (TTBR0_EL1, v1_ttbr0 (v_el1 v)), (TTBR1_EL1, v1_ttbr1 (v_el1 v)), (VBAR_EL1, v1_vbar (v_el1 v)),
      (HCR_EL2, v2_hcr (v_el2 v)), (VMPIDR_EL2, v2_vmpidr (v_el2 v)), (VPIDR_EL2, v2_vpidr (v_el2 v))] @
     (if tst (v2_hcr (v_el2 v)) HCR_RW then [] else
        [(DACR32_EL2, ucast (v3_dacr (v_a32 v))), (IFSR32_EL2, ucast (v3_ifsr (v_a32 v))), (HSTR_EL2, ucast (v3_hstr (v_a32 v))), (SPSR_ABT, ucast (v3_spsr_abt (v_a32 v))), (SPSR_FIQ, ucast (v3_spsr_fiq (v_a32 v))), (SPSR_IRQ, ucast (v3_spsr_irq (v_a32 v))), (SPSR_UND, ucast (v3_spsr_und (v_a32 v)))]) @
     [(CNTVOFF_EL2, syst_to_phys C (vt_cntvoff (v_tmr v))), (CNTKCTL_EL1, vt_cntkctl (v_tmr v)), (CNTV_CVAL_EL0, vt_cntv_cval (v_tmr v)), (CNTV_CTL_EL0, vt_cntv_ctl (v_tmr v))]"

definition load_tmr :: "u64 \<Rightarrow> world \<Rightarrow> world" where
  "load_tmr a w = w\<lparr>w_act := vt_cntv_act (v_tmr (w_vmcb w a))\<rparr>"

definition load_gst :: "a64_cpu \<Rightarrow> u64 \<Rightarrow> world \<Rightarrow> world option" where
  "load_gst C a w = do {
     let w = load_tmr a (w\<lparr>w_cur := a\<rparr>);
     R \<leftarrow> gich_load C (v_gic (w_vmcb w a)) (msr (gst_regs C (w_vmcb w a)) (w_reg w));
     Some (w\<lparr>w_reg := R\<rparr>)
   }"

text \<open>\<^verbatim>\<open>Vmcb::save_gst\<close>: the monitor debug register is not saved because guest accesses are trapped.\<close>

definition save_el1 :: "sysregs \<Rightarrow> vmcb_el1 \<Rightarrow> vmcb_el1" where
  "save_el1 R v = v\<lparr>v1_afsr0 := R AFSR0_EL1, v1_afsr1 := R AFSR1_EL1, v1_amair := R AMAIR_EL1, v1_contextidr := R CONTEXTIDR_EL1, v1_cpacr := R CPACR_EL1, v1_csselr := R CSSELR_EL1, v1_elr := R ELR_EL1,
     v1_esr := R ESR_EL1, v1_far := R FAR_EL1, v1_mair := R MAIR_EL1, v1_par := R PAR_EL1, v1_sctlr := R SCTLR_EL1, v1_sp := R SP_EL1, v1_spsr := R SPSR_EL1,
     v1_tcr := R TCR_EL1, v1_tpidr := R TPIDR_EL1, v1_ttbr0 := R TTBR0_EL1, v1_ttbr1 := R TTBR1_EL1, v1_vbar := R VBAR_EL1\<rparr>"

definition save_a32 :: "sysregs \<Rightarrow> vmcb_a32 \<Rightarrow> vmcb_a32" where
  "save_a32 R v = v\<lparr>v3_dacr := ucast (R DACR32_EL2), v3_ifsr := ucast (R IFSR32_EL2), v3_hstr := ucast (R HSTR_EL2), v3_spsr_abt := ucast (R SPSR_ABT), v3_spsr_fiq := ucast (R SPSR_FIQ), v3_spsr_irq := ucast (R SPSR_IRQ), v3_spsr_und := ucast (R SPSR_UND)\<rparr>"

definition save_vmcb :: "a64_cpu \<Rightarrow> sysregs \<Rightarrow> bool \<Rightarrow> a64_vmcb \<Rightarrow> a64_vmcb option" where
  "save_vmcb C R act v = do {
     let v = v\<lparr>v_el1 := save_el1 R (v_el1 v), v_el2 := (v_el2 v)\<lparr>v2_hpfar := R HPFAR_EL2\<rparr>\<rparr>;
     let v = (if tst (v2_hcr (v_el2 v)) HCR_RW then v else v\<lparr>v_a32 := save_a32 R (v_a32 v)\<rparr>);
     let v = v\<lparr>v_tmr := (v_tmr v)\<lparr>vt_cntv_act := act, vt_cntkctl := R CNTKCTL_EL1, vt_cntv_cval := R CNTV_CVAL_EL0, vt_cntv_ctl := R CNTV_CTL_EL0\<rparr>\<rparr>;
     g \<leftarrow> gich_save C R (v_gic v);
     Some (v\<lparr>v_gic := g\<rparr>)
   }"

definition save_gst :: "a64_cpu \<Rightarrow> u64 \<Rightarrow> world \<Rightarrow> world option" where
  "save_gst C a w = do {
     v \<leftarrow> save_vmcb C (w_reg w) (w_act w) (w_vmcb w a);
     Some (w\<lparr>w_vmcb := (w_vmcb w)(a := v)\<rparr>)
   }"

text \<open>
  The ends of \<^verbatim>\<open>ret_user_hypercall\<close> and \<^verbatim>\<open>ret_user_exception\<close>, of \<^verbatim>\<open>ret_user_vmexit\<close>, and what \<^verbatim>\<open>handle_exc_user\<close> and \<^verbatim>\<open>handle_irq_user\<close> do first with a virtual CPU.
\<close>

definition enter_host :: "a64_cpu \<Rightarrow> world \<Rightarrow> world" where
  "enter_host C w = (let w = (if w_cur w \<noteq> 0 then load_hst C w else w) in w\<lparr>w_run := Host\<rparr>)"

definition enter_guest :: "a64_cpu \<Rightarrow> u64 \<Rightarrow> world \<Rightarrow> world option" where
  "enter_guest C a w = do {
     w \<leftarrow> (if w_cur w \<noteq> a then load_gst C a w else Some (load_tmr a w));
     Some (w\<lparr>w_run := Guest a\<rparr>)
   }"

definition leave_guest :: "a64_cpu \<Rightarrow> u64 \<Rightarrow> world \<Rightarrow> world option" where
  "leave_guest C a w = map_option (\<lambda>w. w\<lparr>w_run := Kernel\<rparr>) (save_gst C a w)"

text \<open>\<^verbatim>\<open>Cpu::set_vmm_regs\<close>, called by \<^verbatim>\<open>Ec_arch::set_vmm_regs\<close> when a virtual CPU runs for the first time: the features for its monitor, and the initial controls.\<close>

definition two32 :: "u32 \<Rightarrow> u32 \<Rightarrow> u64" where
  "two32 h l = push_bit 32 (ucast h) OR ucast l"

definition vmm_gprs :: "a64_cpu \<Rightarrow> (nat \<times> u64) list" where
  "vmm_gprs C =
     [(0, feat_cpu64 C 0), (1, feat_cpu64 C 1), (2, feat_dbg64 C 0), (3, feat_dbg64 C 1), (4, feat_isa64 C 0), (5, feat_isa64 C 1), (6, feat_isa64 C 2),
      (7, feat_mem64 C 0), (8, feat_mem64 C 1), (9, feat_mem64 C 2), (10, feat_sme64 C 0), (11, feat_sve64 C 0),
      (16, two32 (feat_cpu32 C 1) (feat_cpu32 C 0)), (17, two32 (feat_dbg32 C 0) (feat_cpu32 C 2)), (18, two32 (feat_isa32 C 0) (feat_dbg32 C 1)),
      (19, two32 (feat_isa32 C 2) (feat_isa32 C 1)), (20, two32 (feat_isa32 C 4) (feat_isa32 C 3)), (21, two32 (feat_isa32 C 6) (feat_isa32 C 5)),
      (22, two32 (feat_mem32 C 1) (feat_mem32 C 0)), (23, two32 (feat_mem32 C 3) (feat_mem32 C 2)), (24, two32 (feat_mem32 C 5) (feat_mem32 C 4)),
      (29, two32 (feat_mfp32 C 1) (feat_mfp32 C 0)), (30, ucast (feat_mfp32 C 2))]"

definition set_vmm_regs :: "a64_cpu \<Rightarrow> (nat \<Rightarrow> u64) \<times> a64_vmcb \<Rightarrow> (nat \<Rightarrow> u64) \<times> a64_vmcb" where
  "set_vmm_regs C xv =
     (fold (\<lambda>(i, y) x. x(i := y)) (vmm_gprs C) (fst xv),
      (snd xv)\<lparr>v_el2 := (v_el2 (snd xv))\<lparr>v2_hcr := constrain_hcr C 0, v2_vpidr := midr C, v2_vmpidr := mpidr C\<rparr>,
        v_gic := (v_gic (snd xv))\<lparr>vg_elrsr := BIT (num_lr C) - 1\<rparr>\<rparr>)"

section \<open>Steps of a core\<close>

text \<open>
  Which registers change while a guest runs: those it can access, and those that the processor and the interrupt controller update. It has no access to the hypervisor registers and, because of the trap on debug
  exceptions, to the monitor debug register; the 32-bit registers exist only below a 32-bit EL1.
\<close>

definition guest_owned :: "bool \<Rightarrow> sysreg \<Rightarrow> bool" where
  "guest_owned rw r \<longleftrightarrow> r \<notin> {MDSCR_EL1, HCR_EL2, VMPIDR_EL2, VPIDR_EL2, CNTVOFF_EL2, HSTR_EL2} \<and> (rw \<longrightarrow> r \<notin> {DACR32_EL2, IFSR32_EL2, SPSR_ABT, SPSR_FIQ, SPSR_IRQ, SPSR_UND})"

text \<open>Registers of 32 bits.\<close>

definition reg32 :: "a64_cpu \<Rightarrow> sysreg \<Rightarrow> bool" where
  "reg32 C r \<longleftrightarrow> (case r of ICH_LR i \<Rightarrow> \<not> gic_regs C | ICH_AP0R i \<Rightarrow> True | ICH_AP1R i \<Rightarrow> True | GICH_APR i \<Rightarrow> True
     | _ \<Rightarrow> r \<in> {DACR32_EL2, IFSR32_EL2, HSTR_EL2, SPSR_ABT, SPSR_FIQ, SPSR_IRQ, SPSR_UND, ICH_VMCR, ICH_HCR})"

definition rw64 :: "a64_vmcb \<Rightarrow> bool" where
  "rw64 v \<longleftrightarrow> tst (v2_hcr (v_el2 v)) HCR_RW"

text \<open>
  The kernel enters the host or a guest; a guest changes registers of its own and leaves; a thread of the host enters the kernel, where its hypercalls, replies of monitors among them, can change any control block; and
  the kernel prepares a virtual CPU for its first run.
\<close>

inductive wstep :: "a64_cpu \<Rightarrow> world \<Rightarrow> world \<Rightarrow> bool" for C where
  to_host: "w_run w = Kernel \<Longrightarrow> wstep C w (enter_host C w)"
| to_guest: "w_run w = Kernel \<Longrightarrow> a \<noteq> 0 \<Longrightarrow> enter_guest C a w = Some w' \<Longrightarrow> wstep C w w'"
| in_guest: "w_run w = Guest a \<Longrightarrow> (\<And>r. \<not> guest_owned (rw64 (w_vmcb w a)) r \<Longrightarrow> R r = w_reg w r) \<Longrightarrow> (\<And>r. reg32 C r \<Longrightarrow> take_bit 32 (R r) = R r) \<Longrightarrow>
    wstep C w (w\<lparr>w_reg := R, w_act := b\<rparr>)"
| from_guest: "w_run w = Guest a \<Longrightarrow> leave_guest C a w = Some w' \<Longrightarrow> wstep C w w'"
| from_host: "w_run w = Host \<Longrightarrow> wstep C w (w\<lparr>w_run := Kernel, w_vmcb := V\<rparr>)"
| first_run: "w_run w = Kernel \<Longrightarrow> a \<noteq> w_cur w \<Longrightarrow> wstep C w (w\<lparr>w_vmcb := (w_vmcb w)(a := snd (set_vmm_regs C (x, w_vmcb w a)))\<rparr>)"

inductive_cases wstepE: "wstep C w w'"

text \<open>The context of a guest, the agreement of the registers with a control block, and on the registers that only the kernel writes.\<close>

definition guest_context :: "a64_cpu \<Rightarrow> a64_vmcb \<Rightarrow> (sysreg \<times> u64) list" where
  "guest_context C v = gst_regs C v @ gich_regs C (v_gic v)"

definition agrees :: "a64_cpu \<Rightarrow> sysregs \<Rightarrow> a64_vmcb \<Rightarrow> bool" where
  "agrees C R v \<longleftrightarrow> (\<forall>(r, x) \<in> set (guest_context C v). R r = x)"

definition agrees_fixed :: "a64_cpu \<Rightarrow> sysregs \<Rightarrow> a64_vmcb \<Rightarrow> bool" where
  "agrees_fixed C R v \<longleftrightarrow> (\<forall>(r, x) \<in> set (guest_context C v). (\<not> guest_owned (rw64 v) r \<longrightarrow> R r = x) \<and> (reg32 C r \<longrightarrow> take_bit 32 (R r) = R r))"

definition winv :: "a64_cpu \<Rightarrow> world \<Rightarrow> bool" where
  "winv C w \<longleftrightarrow> (case w_run w of Kernel \<Rightarrow> w_cur w \<noteq> 0 \<longrightarrow> agrees C (w_reg w) (w_vmcb w (w_cur w)) | Host \<Rightarrow> w_cur w = 0
     | Guest a \<Rightarrow> w_cur w = a \<and> a \<noteq> 0 \<and> agrees_fixed C (w_reg w) (w_vmcb w a))"

lemma msr_append: "msr (xs @ ys) R = msr ys (msr xs R)"
  by (simp add: msr_def)

lemma msr_other: "r \<notin> fst ` set xs \<Longrightarrow> msr xs R r = R r"
proof (induction xs arbitrary: R)
  case (Cons y xs)
  then show ?case by (cases y) (simp add: msr_def)
qed (simp add: msr_def)

lemma msr_get: "distinct (map fst xs) \<Longrightarrow> (r, x) \<in> set xs \<Longrightarrow> msr xs R r = x"
proof (induction xs arbitrary: R)
  case (Cons y xs)
  obtain q z where y: "y = (q, z)" by fastforce
  have s: "msr (y # xs) R = msr xs (R(q := z))" by (simp add: msr_def y)
  show ?case
  proof (cases "(r, x) \<in> set xs")
    case True
    then show ?thesis using Cons s by simp
  next
    case False
    then have "r = q" "x = z" using Cons.prems y by auto
    then show ?thesis using Cons.prems(1) msr_other [of q xs "R(q := z)"] unfolding s by (simp add: y)
  qed
qed simp

lemma gst_regs_keys: "distinct (map fst (gst_regs C v))"
  by (simp add: gst_regs_def)

lemma gich_regs_keys: "distinct (map fst (gich_regs C g))"
  by (auto simp: gich_regs_def distinct_map inj_on_def)

lemma context_keys: "distinct (map fst (guest_context C v))"
  unfolding guest_context_def map_append distinct_append
  by (intro conjI gst_regs_keys gich_regs_keys) (auto simp: gst_regs_def gich_regs_def)

lemma take_bit_ucast32 [simp]: "take_bit 32 (ucast (x :: u32) :: u64) = ucast x"
  by (rule bit_word_eqI) (auto simp: bit_take_bit_iff bit_ucast_iff dest: bit_imp_le_length)

lemma ucast_u32_u64: "ucast (ucast (x :: u64) :: u32) = take_bit 32 x"
  by (rule bit_word_eqI) (auto simp: bit_take_bit_iff bit_ucast_iff)

text \<open>Loading a control block makes the registers agree with it; what only the kernel writes agrees ever after.\<close>

lemma agrees_fixed_of: "agrees C R v \<Longrightarrow> agrees_fixed C R v"
proof -
  assume a: "agrees C R v"
  have "take_bit 32 x = x" if "(r, x) \<in> set (guest_context C v)" "reg32 C r" for r x
    using that by (auto simp: guest_context_def gst_regs_def gich_regs_def reg32_def split: if_splits)
  then show ?thesis using a by (fastforce simp: agrees_def agrees_fixed_def)
qed

lemma load_gst_agrees:
  assumes "load_gst C a w = Some w'"
  shows "agrees C (w_reg w') (w_vmcb w a)" "w_cur w' = a" "w_vmcb w' = w_vmcb w" "w_act w' = vt_cntv_act (v_tmr (w_vmcb w a))" "w_run w' = w_run w"
proof -
  have "w_reg w' = msr (guest_context C (w_vmcb w a)) (w_reg w)"
    using assms by (auto simp: load_gst_def load_tmr_def gich_load_def guest_context_def msr_append)
  then show "agrees C (w_reg w') (w_vmcb w a)" using msr_get [OF context_keys] by (auto simp: agrees_def)
  show "w_cur w' = a" "w_vmcb w' = w_vmcb w" "w_act w' = vt_cntv_act (v_tmr (w_vmcb w a))" "w_run w' = w_run w"
    using assms by (auto simp: load_gst_def load_tmr_def gich_load_def)
qed

text \<open>Saving the registers of a guest makes its control block agree with them.\<close>

lemma gich_save_agrees:
  assumes "gich_save C R g = Some g'" "\<forall>(r, x) \<in> set (gich_regs C g). reg32 C r \<longrightarrow> take_bit 32 (R r) = R r"
  shows "\<forall>(r, x) \<in> set (gich_regs C g'). R r = x"
proof -
  have t: "take_bit 32 (R ICH_VMCR) = R ICH_VMCR" "take_bit 32 (R ICH_HCR) = R ICH_HCR"
    "\<And>i. gic_regs C \<Longrightarrow> i < apr_cnt C \<Longrightarrow> take_bit 32 (R (ICH_AP0R i)) = R (ICH_AP0R i) \<and> take_bit 32 (R (ICH_AP1R i)) = R (ICH_AP1R i)"
    "\<And>i. \<not> gic_regs C \<Longrightarrow> i < apr_cnt C \<Longrightarrow> take_bit 32 (R (GICH_APR i)) = R (GICH_APR i)"
    "\<And>i. \<not> gic_regs C \<Longrightarrow> i < lr_cnt C \<Longrightarrow> take_bit 32 (R (ICH_LR i)) = R (ICH_LR i)"
    using assms(2) by (auto simp: gich_regs_def ball_Un reg32_def)
  show ?thesis using assms(1) t by (cases "gic_regs C") (auto simp: gich_save_def Let_def gich_regs_def ucast_u32_u64)
qed

lemma save_vmcb_keeps:
  "save_vmcb C R act v = Some v' \<Longrightarrow> v2_hcr (v_el2 v') = v2_hcr (v_el2 v) \<and> rw64 v' = rw64 v \<and> vt_cntv_act (v_tmr v') = act"
  by (auto simp: save_vmcb_def Let_def rw64_def bind_eq_Some_conv split: if_splits)

lemma save_vmcb_agrees:
  assumes "save_vmcb C R act v = Some v'" "agrees_fixed C R v"
  shows "agrees C R v'"
proof -
  have f: "\<forall>(r, x) \<in> set (gst_regs C v). (\<not> guest_owned (rw64 v) r \<longrightarrow> R r = x) \<and> (reg32 C r \<longrightarrow> take_bit 32 (R r) = R r)"
    and g: "\<forall>(r, x) \<in> set (gich_regs C (v_gic v)). reg32 C r \<longrightarrow> take_bit 32 (R r) = R r"
    using assms(2) by (auto simp: agrees_fixed_def guest_context_def)
  obtain h where h: "gich_save C R (v_gic v) = Some h" "v_gic v' = h" and el1: "v_el1 v' = save_el1 R (v_el1 v)" and el2: "v_el2 v' = (v_el2 v)\<lparr>v2_hpfar := R HPFAR_EL2\<rparr>"
    and a32: "\<not> rw64 v \<Longrightarrow> v_a32 v' = save_a32 R (v_a32 v)"
    and tmr: "v_tmr v' = (v_tmr v)\<lparr>vt_cntv_act := act, vt_cntkctl := R CNTKCTL_EL1, vt_cntv_cval := R CNTV_CVAL_EL0, vt_cntv_ctl := R CNTV_CTL_EL0\<rparr>"
    using assms(1) by (auto simp: save_vmcb_def Let_def bind_eq_Some_conv rw64_def split: if_splits)
  have "\<forall>(r, x) \<in> set (gst_regs C v'). R r = x"
  proof (cases "rw64 v")
    case True
    show ?thesis using f True by (simp add: gst_regs_def rw64_def el1 el2 tmr save_el1_def guest_owned_def)
  next
    case False
    show ?thesis using f False a32 [OF False] by (simp add: gst_regs_def rw64_def el1 el2 tmr save_el1_def save_a32_def ucast_u32_u64 guest_owned_def reg32_def)
  qed
  then show ?thesis using gich_save_agrees [OF h(1) g] h(2) unfolding agrees_def guest_context_def set_append ball_Un by simp
qed

text \<open>The context of a guest is a list of registers that the width of its EL1 determines.\<close>

lemma context_regs: "rw64 v = rw64 v' \<Longrightarrow> map fst (guest_context C v) = map fst (guest_context C v')"
  by (simp add: guest_context_def gst_regs_def gich_regs_def rw64_def comp_def)

definition gic_fits :: "a64_cpu \<Rightarrow> bool" where
  "gic_fits C \<longleftrightarrow> lr_cnt C \<le> 16 \<and> apr_cnt C \<le> 4"

lemma enter_guest_agrees:
  assumes "winv C w" "w_run w = Kernel" "a \<noteq> 0" "enter_guest C a w = Some w'"
  shows "agrees C (w_reg w') (w_vmcb w a)" "w_cur w' = a" "w_vmcb w' = w_vmcb w" "w_act w' = vt_cntv_act (v_tmr (w_vmcb w a))" "w_run w' = Guest a"
proof -
  obtain u where u: "(if w_cur w \<noteq> a then load_gst C a w else Some (load_tmr a w)) = Some u" "w' = u\<lparr>w_run := Guest a\<rparr>"
    using assms(4) by (auto simp: enter_guest_def bind_eq_Some_conv)
  have "agrees C (w_reg u) (w_vmcb w a) \<and> w_cur u = a \<and> w_vmcb u = w_vmcb w \<and> w_act u = vt_cntv_act (v_tmr (w_vmcb w a))"
  proof (cases "w_cur w = a")
    case True
    then show ?thesis using u(1) assms(1-3) by (auto simp: load_tmr_def winv_def)
  next
    case False
    then show ?thesis using u(1) load_gst_agrees [of C a w u] by simp
  qed
  then show "agrees C (w_reg w') (w_vmcb w a)" "w_cur w' = a" "w_vmcb w' = w_vmcb w" "w_act w' = vt_cntv_act (v_tmr (w_vmcb w a))" "w_run w' = Guest a"
    by (simp_all add: u(2))
qed

lemma enter_guest_total: "gic_fits C \<Longrightarrow> \<exists>w'. enter_guest C a w = Some w'"
  by (auto simp: enter_guest_def load_gst_def gich_load_def gic_fits_def Let_def)

lemma leave_guest_total: "gic_fits C \<Longrightarrow> \<exists>w'. leave_guest C a w = Some w'"
  by (auto simp: leave_guest_def save_gst_def save_vmcb_def gich_save_def gic_fits_def Let_def)

lemma leave_guest_spec:
  assumes "leave_guest C a w = Some w'"
  shows "\<exists>v. save_vmcb C (w_reg w) (w_act w) (w_vmcb w a) = Some v \<and> w' = w\<lparr>w_vmcb := (w_vmcb w)(a := v), w_run := Kernel\<rparr>"
  using assms by (auto simp: leave_guest_def save_gst_def bind_eq_Some_conv)

lemma in_guest_fixed:
  assumes "agrees_fixed C Q v" "\<And>r. \<not> guest_owned (rw64 v) r \<Longrightarrow> R r = Q r" "\<And>r. reg32 C r \<Longrightarrow> take_bit 32 (R r) = R r"
  shows "agrees_fixed C R v"
proof -
  have "(\<not> guest_owned (rw64 v) r \<longrightarrow> R r = x) \<and> (reg32 C r \<longrightarrow> take_bit 32 (R r) = R r)" if "(r, x) \<in> set (guest_context C v)" for r x
    using assms(1) bspec [OF _ that] assms(2,3) [of r] by (auto simp: agrees_fixed_def)
  then show ?thesis by (auto simp: agrees_fixed_def)
qed

lemma wstep_winv:
  assumes "wstep C w w'" "winv C w"
  shows "winv C w'"
  using assms
proof cases
  case to_host
  then show ?thesis by (auto simp: winv_def enter_host_def Let_def load_hst_def)
next
  case (to_guest a)
  then show ?thesis using enter_guest_agrees [OF assms(2) to_guest] agrees_fixed_of by (simp add: winv_def)
next
  case (in_guest a R b)
  then show ?thesis using assms(2) in_guest_fixed [of C "w_reg w" "w_vmcb w a" R] by (simp add: winv_def)
next
  case (from_guest a)
  obtain v where "save_vmcb C (w_reg w) (w_act w) (w_vmcb w a) = Some v" "w' = w\<lparr>w_vmcb := (w_vmcb w)(a := v), w_run := Kernel\<rparr>"
    using leave_guest_spec [OF from_guest(2)] by blast
  then show ?thesis using assms(2) from_guest(1) save_vmcb_agrees by (auto simp: winv_def)
next
  case (from_host V)
  then show ?thesis using assms(2) by (simp add: winv_def)
next
  case (first_run a x)
  then show ?thesis using assms(2) by (simp add: winv_def)
qed

definition wreach :: "a64_cpu \<Rightarrow> world \<Rightarrow> bool" where
  "wreach C w \<longleftrightarrow> (\<exists>w0. w_cur w0 = 0 \<and> w_run w0 = Kernel \<and> (wstep C)\<^sup>*\<^sup>* w0 w)"

lemma wsteps_winv: "(wstep C)\<^sup>*\<^sup>* w w' \<Longrightarrow> winv C w \<Longrightarrow> winv C w'"
  by (induction rule: rtranclp_induct) (auto intro: wstep_winv)

lemma wreach_winv: "wreach C w \<Longrightarrow> winv C w"
  unfolding wreach_def using wsteps_winv by (force simp: winv_def)


definition world_zero :: world where
  "world_zero = \<lparr>w_reg = \<lambda>_. 0, w_act = False, w_cur = 0, w_vmcb = \<lambda>_. vmcb_zero, w_run = Kernel\<rparr>"


end
