(* ===== verification/Spec2Isabelle.thy ===== *)
theory Spec2Isabelle
  imports Nova_Space_Obj Nova_Ptab Nova_Slab Nova_Sm Nova_Transfer Nova_Pd Nova_Rcu Nova_Cos Nova_Entry Nova_Console Nova_A64
begin

text \<open>
  A verification library for the NOVA microhypervisor: the x86-64 configuration, and the state of guests on AArch64.

  \<^bold>\<open>The program.\<close> NOVA is a capability-based microhypervisor. Protection domains own spaces (objects, host, guest and device memory, I/O ports, machine-specific
  registers); execution contexts are threads and virtual CPUs; scheduling contexts give them time; portals are entry points for communication; semaphores synchronize them and
  deliver interrupts. User code reaches all of them through capabilities in its object space, and hypercalls create objects, delegate resources, exchange messages and
  control objects. Below the objects are a buddy allocator for pages, slab allocators for objects, and radix trees of pages for capabilities and page tables.

  \<^bold>\<open>The theories\<close>, from the bottom up (source files relative to the source tree, \<^verbatim>\<open>inc\<close> and \<^verbatim>\<open>src\<close>):

  \<^item> \<^verbatim>\<open>Nova_Prelude\<close>: machine integers, bit macros (\<^verbatim>\<open>macros.hpp\<close>), \<^verbatim>\<open>bits.hpp\<close>, \<^verbatim>\<open>util.hpp\<close>, assertions, generic lemmas.
  \<^item> \<^verbatim>\<open>Nova_Queue\<close>, \<^verbatim>\<open>Nova_Dll\<close>: the intrusive circular queue of \<^verbatim>\<open>queue.hpp\<close> as a pointer structure, the list queue it refines (locale \<open>queue_impl\<close>, interpreted for both), and doubly linked lists.
  \<^item> \<^verbatim>\<open>Nova_Buddy\<close>: \<^verbatim>\<open>buddy.hpp\<close>, \<^verbatim>\<open>buddy.cpp\<close>. The invariant says that free blocks, allocated blocks and the waitlist partition the pool and that no two buddies are free; the locale \<open>page_allocator\<close> (which extends \<open>allocator\<close>) is its contract.
  \<^item> \<^verbatim>\<open>Nova_Slab\<close>: \<^verbatim>\<open>slab.hpp\<close>, \<^verbatim>\<open>slab.cpp\<close>, object caches on pages of the buddy allocator, which again meet the contract \<open>allocator\<close>.
  \<^item> \<^verbatim>\<open>Nova_Capability\<close>: \<^verbatim>\<open>kobject.hpp\<close>, \<^verbatim>\<open>capability.hpp\<close>, \<^verbatim>\<open>status.hpp\<close>.
  \<^item> \<^verbatim>\<open>Nova_Radix\<close>: radix trees of pages in memory, shared by capability tables and page tables (locale \<open>radix_fmt\<close>, interpreted for capability tables, and for page tables through a \<open>sublocale\<close> of \<open>pte_laws\<close>).
  \<^item> \<^verbatim>\<open>Nova_Space_Obj\<close>: \<^verbatim>\<open>space_obj.hpp\<close>, \<^verbatim>\<open>space_obj.cpp\<close>, object spaces with lookup, update, insert, delegate and destruction.
  \<^item> \<^verbatim>\<open>Nova_Ptab_Fmt\<close>, \<^verbatim>\<open>Nova_Ptab\<close>: \<^verbatim>\<open>ptab.hpp\<close>, \<^verbatim>\<open>ptab.cpp\<close>, \<^verbatim>\<open>ptab_hpt\<close>, \<^verbatim>\<open>ptab_ept\<close>, \<^verbatim>\<open>ptab_dpt\<close>: page-table formats (locale \<open>pte_laws\<close>, interpreted for each format) and walks.
  \<^item> \<^verbatim>\<open>Nova_Timeout\<close>: \<^verbatim>\<open>timeout.hpp\<close>, \<^verbatim>\<open>timeout.cpp\<close> (locale \<open>timeout_handler\<close>, interpreted for timeouts of hypercalls). \<^verbatim>\<open>Nova_Struct\<close>: fields of structures in memory.
  \<^item> \<^verbatim>\<open>Nova_Vmx\<close>, \<^verbatim>\<open>Nova_Regs\<close>: VMCS and VMCB (\<^verbatim>\<open>vmx.hpp\<close>, \<^verbatim>\<open>svm.hpp\<close>), register state (\<^verbatim>\<open>regs.hpp\<close>, \<^verbatim>\<open>regs.cpp\<close>, \<^verbatim>\<open>hazard.hpp\<close>, \<^verbatim>\<open>fpu.hpp\<close>).
  \<^item> \<^verbatim>\<open>Nova_Kernel\<close>: the state of the kernel, \<^verbatim>\<open>kern\<close>, as one core sees it. \<^verbatim>\<open>Nova_Sched\<close>: \<^verbatim>\<open>sc.hpp\<close>, \<^verbatim>\<open>sc.cpp\<close>. \<^verbatim>\<open>Nova_Ec\<close>: \<^verbatim>\<open>ec.hpp\<close>, \<^verbatim>\<open>ec.cpp\<close>. \<^verbatim>\<open>Nova_Sm\<close>: \<^verbatim>\<open>sm.hpp\<close>, timeouts of hypercalls.
  \<^item> \<^verbatim>\<open>Nova_Utcb\<close>, \<^verbatim>\<open>Nova_Transfer\<close>: \<^verbatim>\<open>utcb.hpp\<close>, \<^verbatim>\<open>utcb_arch.cpp\<close>, \<^verbatim>\<open>mtd.hpp\<close>: messages and the transfer of architectural state.
  \<^item> \<^verbatim>\<open>Nova_Space_Bmp\<close>, \<^verbatim>\<open>Nova_Space_Mem\<close>: port and MSR spaces (locale \<open>perm_space\<close>, interpreted for both), delegation of memory.
  \<^item> \<^verbatim>\<open>Nova_Pd\<close>: \<^verbatim>\<open>pd.hpp\<close>, \<^verbatim>\<open>pd.cpp\<close> and the factories and constructors of all kernel objects.
  \<^item> \<^verbatim>\<open>Nova_Rcu\<close>: \<^verbatim>\<open>rcu.hpp\<close>, \<^verbatim>\<open>rcu.cpp\<close>, with a step relation that interleaves the operations of the cores. \<^verbatim>\<open>Nova_Cos\<close>: \<^verbatim>\<open>cos.hpp\<close>, \<^verbatim>\<open>cos.cpp\<close>.
  \<^item> \<^verbatim>\<open>Nova_Ipc\<close>: the state \<open>nova\<close> of the whole kernel, the environment \<open>kenv\<close>, hazards, and the paths on which an execution context leaves the kernel or sends a message to a portal
    (\<^verbatim>\<open>ec_arch.cpp\<close>, \<^verbatim>\<open>ec.cpp\<close>, \<^verbatim>\<open>syscall.cpp\<close>).
  \<^item> \<^verbatim>\<open>Nova_Syscall\<close>: the sixteen hypercalls of \<^verbatim>\<open>syscall.cpp\<close> and what they use: configuration of interrupts (\<^verbatim>\<open>interrupt.cpp\<close>), of cores, and shootdown requests. A call, the reply and the return
    of the caller transport the message; a hypercall acts only on objects that the caller holds a capability with the right permission for.
  \<^item> \<^verbatim>\<open>Nova_Entry\<close>: interrupts, exceptions and VM exits (\<^verbatim>\<open>interrupt.cpp\<close>, \<^verbatim>\<open>ec_exc.cpp\<close>, \<^verbatim>\<open>ec_vmx.cpp\<close>, \<^verbatim>\<open>ec_svm.cpp\<close>). An interrupt is masked and acknowledged and counted in its semaphore exactly once;
    after a shootdown no core uses a stale translation.
  \<^item> \<^verbatim>\<open>Nova_A64\<close>: the AArch64 port where its logic differs: controls that confine a guest (\<^verbatim>\<open>aarch64/cpu.hpp\<close>, \<^verbatim>\<open>cpu.cpp\<close>), state transfer (\<^verbatim>\<open>utcb_arch.cpp\<close>), and the lazy switch of registers between
    host and guests (\<^verbatim>\<open>vmcb.cpp\<close>, \<^verbatim>\<open>gich.hpp\<close>, \<^verbatim>\<open>ec_arch.cpp\<close>) with a step relation for a core. A monitor cannot lift a context above its privileges, and a guest finds its registers as it left them.
  \<^item> \<^verbatim>\<open>Nova_Console\<close>: \<^verbatim>\<open>string.hpp\<close>, \<^verbatim>\<open>cmdline.cpp\<close>, formatted output in \<^verbatim>\<open>console.cpp\<close>.

  \<^bold>\<open>What the theorems show.\<close> For data structures: an invariant that every operation preserves, and the functional behaviour of each operation over an abstract view (the list of a queue, the set of free
  pages, the function from addresses to mappings or capabilities). For formats: round trips between encoder and decoder. For the kernel: scheduling by priority, donation of time along call chains, wakeup of
  waiters in order, grace periods of RCU, transport of messages, authority by capabilities, handling of interrupts and completion of shootdowns.

  \<^bold>\<open>Conventions.\<close> An operation is a function on a record of state; \<open>None\<close> is a failed assertion or a crash, so a theorem that an operation returns \<open>Some\<close> also says that its assertions hold. Error codes are
  values. Machine integers have their width and wrap. Memory is a function from addresses to 64-bit words; objects are named by their addresses and \<^verbatim>\<open>nullptr\<close> is 0. A function that does not return in C++
  because another execution context becomes current yields the address of this context.

  \<^bold>\<open>Bounds.\<close> No fuel is used: loops are recursive functions with termination proofs, or \<open>partial_function\<close>s about which termination is proved for well-formed states. Page tables have at most 4 levels
  and orders below 28, as the formats have; the RCU theorem excludes runs of 2 to the power of 59 steps, in which the batch counter could wrap.

  \<^bold>\<open>Concurrency.\<close> Operations under a spinlock are atomic. Where the code lets other cores run between two sections, the model has two functions (semaphores, RCU) and the theorems quantify over what happens in between.

  \<^bold>\<open>Environment.\<close> What hardware and the platform decide is an argument, the record \<open>kenv\<close>: the time, CPU features, APIC identifiers, the IOMMU, interrupts taken at preemption points. Stale translations are modelled as marks of the spaces and cores that need a
  shootdown; caches and the memory ordering of the processor have no counterpart in the state.

  \<^bold>\<open>Not modelled.\<close> The rest of the AArch64 port (interrupt controllers, IOMMU, page-table formats, firmware, boards), which repeats the same kernel on other hardware; ACPI, PCI, UEFI and Multiboot discovery, boot and initialization order; console drivers and the hypervisor
  information page; interrupt controllers, IOMMU and CPU feature setup, which are sequences of device-register accesses without kernel logic; code patching and assembly entry stubs.
\<close>

end
